(* ===== verification/NS_Prelude.thy ===== *)
theory NS_Prelude
  imports Main "HOL-Library.Word"
begin

text \<open>
  Shared vocabulary of the development: the error codes of
  \<^verbatim>\<open>netsurf/utils/errors.h\<close>, the allocator seen as an oracle, C's
  truncating division, C's counting loops over \<^typ>\<open>int\<close> with their proof
  rules, and the notion of a memory that changed only inside a given set of
  addresses.  Everything later theories share lives here; the collections
  \<open>frame_rules\<close> and \<open>c_arith\<close> carry the automation.
\<close>

unbundle bit_operations_syntax

named_theorems frame_rules \<open>rules that bound the addresses a store operation may change\<close>
named_theorems c_arith \<open>C integer arithmetic in terms of HOL's\<close>

section \<open>Error codes\<close>

text \<open>The whole \<^verbatim>\<open>nserror\<close> enumeration, in the order of the header.\<close>

datatype nserror =
    NSERROR_OK | NSERROR_UNKNOWN | NSERROR_NOMEM | NSERROR_NO_FETCH_HANDLER
  | NSERROR_NOT_FOUND | NSERROR_NOT_DIRECTORY | NSERROR_SAVE_FAILED | NSERROR_CLONE_FAILED
  | NSERROR_INIT_FAILED | NSERROR_BMP_ERROR | NSERROR_GIF_ERROR | NSERROR_ICO_ERROR
  | NSERROR_PNG_ERROR | NSERROR_SPRITE_ERROR | NSERROR_SVG_ERROR | NSERROR_BAD_ENCODING
  | NSERROR_NEED_DATA | NSERROR_ENCODING_CHANGE | NSERROR_BAD_PARAMETER | NSERROR_INVALID
  | NSERROR_BOX_CONVERT | NSERROR_STOPPED | NSERROR_DOM | NSERROR_CSS | NSERROR_CSS_BASE
  | NSERROR_BAD_URL | NSERROR_BAD_CONTENT | NSERROR_FRAME_DEPTH | NSERROR_PERMISSION
  | NSERROR_NOSPACE | NSERROR_BAD_SIZE | NSERROR_NOT_IMPLEMENTED | NSERROR_BAD_REDIRECT
  | NSERROR_BAD_AUTH | NSERROR_BAD_CERTS | NSERROR_TIMEOUT

section \<open>The allocator\<close>

text \<open>
  \<^verbatim>\<open>malloc\<close> and the string interning of libwapcaplet are not code of this
  repository; what the source uses of them is only that they may fail.  The
  allocator is therefore an oracle: a list of the answers it will give, in
  order, after which every request succeeds.  The empty list is a machine that
  never runs out of memory, and a theorem about all lists covers every pattern
  of failures.
\<close>

type_synonym heap = "bool list"

fun alloc :: "heap \<Rightarrow> bool \<times> heap" where
  "alloc [] = (True, [])"
| "alloc (ok # h) = (ok, h)"

lemma alloc_Nil_ok [simp]: "fst (alloc []) \<and> snd (alloc []) = []"
  by simp

section \<open>C integer arithmetic\<close>

text \<open>C's \<^verbatim>\<open>/\<close> and \<^verbatim>\<open>%\<close> truncate towards zero; HOL's \<open>div\<close> and \<open>mod\<close> round down.\<close>

definition cdiv :: "int \<Rightarrow> int \<Rightarrow> int" where
  "cdiv a b = sgn a * sgn b * (\<bar>a\<bar> div \<bar>b\<bar>)"

definition cmod :: "int \<Rightarrow> int \<Rightarrow> int" where
  "cmod a b = a - cdiv a b * b"

lemma cdiv_nonneg [c_arith]: "0 \<le> a \<Longrightarrow> 0 < b \<Longrightarrow> cdiv a b = a div b"
  by (cases "a = 0") (simp_all add: cdiv_def)

lemma cmod_nonneg [c_arith]: "0 \<le> a \<Longrightarrow> 0 < b \<Longrightarrow> cmod a b = a mod b"
  by (simp add: cmod_def cdiv_nonneg minus_div_mult_eq_mod)

lemma cdiv_abs: "b \<noteq> 0 \<Longrightarrow> \<bar>cdiv a b\<bar> = \<bar>a\<bar> div \<bar>b\<bar>"
  by (cases "a = 0") (simp_all add: cdiv_def abs_mult pos_imp_zdiv_nonneg_iff)

lemma cdiv_self_mult: "b \<noteq> 0 \<Longrightarrow> cdiv (a * b) b = a"
  by (cases "a = 0") (simp_all add: cdiv_def abs_mult sgn_mult ac_simps, metis abs_sgn mult.commute mult_sgn_abs sgn_mult)

section \<open>Bit fields\<close>

text \<open>Masking and joining fields of a machine word, read as natural numbers.\<close>

lemma and_field: "(X::nat) AND push_bit k (mask w) = 2 ^ k * (X div 2 ^ k mod 2 ^ w)"
proof -
  have "X AND push_bit k (mask w) = push_bit k (take_bit w (drop_bit k X))"
    by (rule bit_eqI) (auto simp: bit_simps)
  then show ?thesis by (simp add: push_bit_eq_mult take_bit_eq_mod drop_bit_eq_div)
qed

lemma or_disjoint:
  fixes a b :: nat
  assumes "a < 2 ^ k" shows "a OR (2 ^ k * b) = a + 2 ^ k * b"
proof -
  have "take_bit k a = a" using assms by (simp add: take_bit_nat_eq_self)
  then have "a AND push_bit k b = 0"
    by (metis (no_types, lifting) bit_eq_iff bit_and_iff bit_push_bit_iff bit_take_bit_iff
        not_le bit_0_eq bot_apply bot_bool_def)
  then show ?thesis
    using disjunctive_add_eq_or [of a "push_bit k b"] by (simp add: push_bit_eq_mult mult.commute)
qed

lemma and_or_masks: "(X::nat) AND (a OR b) = (X AND a) OR (X AND b)"
  by (rule bit_eqI) (auto simp: bit_simps)

section \<open>Counting loops\<close>

text \<open>\<open>for (i = lo; i < hi; i += step) body\<close> over C ints, for a positive step.\<close>

function for_step :: "int \<Rightarrow> int \<Rightarrow> int \<Rightarrow> (int \<Rightarrow> 's \<Rightarrow> 's) \<Rightarrow> 's \<Rightarrow> 's" where
  "for_step step lo hi body s =
     (if lo < hi \<and> 0 < step then for_step step (lo + step) hi body (body lo s) else s)"
  by pat_completeness auto
termination
  by (relation "measure (\<lambda>(step, lo, hi, body, s). nat (hi - lo))") auto

declare for_step.simps [simp del]

text \<open>The common case \<open>for (i = lo; i < hi; i++)\<close>.\<close>

abbreviation for_int :: "int \<Rightarrow> int \<Rightarrow> (int \<Rightarrow> 's \<Rightarrow> 's) \<Rightarrow> 's \<Rightarrow> 's" where
  "for_int \<equiv> for_step 1"

lemma for_int_done [simp]: "hi \<le> lo \<Longrightarrow> for_int lo hi body s = s"
  by (simp add: for_step.simps)

lemma for_int_step: "lo < hi \<Longrightarrow> for_int lo hi body s = for_int (lo + 1) hi body (body lo s)"
  by (subst for_step.simps) simp

text \<open>The invariant rule: \<open>P i s\<close> holds before the iteration with counter \<open>i\<close>.\<close>

lemma for_int_inv:
  assumes "P lo s" and "lo \<le> hi"
    and "\<And>i s. lo \<le> i \<Longrightarrow> i < hi \<Longrightarrow> P i s \<Longrightarrow> P (i + 1) (body i s)"
  shows "P hi (for_int lo hi body s)"
  using assms
proof (induction "1::int" lo hi body s rule: for_step.induct)
  case (1 lo hi body s)
  show ?case
  proof (cases "lo < hi")
    case True
    then have "P hi (for_int (lo + 1) hi body (body lo s))"
      using 1 by auto
    with True show ?thesis by (simp add: for_int_step)
  next
    case False
    with 1 show ?thesis by (simp add: order_antisym)
  qed
qed

text \<open>An invariant that does not mention the counter; it needs no bound on the range.\<close>

lemma for_int_pres:
  assumes "P s" and "\<And>i s. lo \<le> i \<Longrightarrow> i < hi \<Longrightarrow> P s \<Longrightarrow> P (body i s)"
  shows "P (for_int lo hi body s)"
proof (cases "lo \<le> hi")
  case True
  show ?thesis
    by (rule for_int_inv [where P = "\<lambda>i s. P s", OF assms(1) True]) (rule assms(2))
qed (simp add: assms)

lemma for_int_cong:
  assumes "\<And>i s. lo \<le> i \<Longrightarrow> i < hi \<Longrightarrow> f i s = g i s"
  shows "for_int lo hi f s = for_int lo hi g s"
  using assms
proof (induction "1::int" lo hi f s rule: for_step.induct)
  case (1 lo hi f s)
  then show ?case
    by (cases "lo < hi") (simp_all add: for_int_step)
qed

text \<open>Two loops in lock step: a relation between their states, indexed by the counter.\<close>

lemma for_int_rel:
  assumes "R lo s t" and "lo \<le> hi"
    and "\<And>i s t. lo \<le> i \<Longrightarrow> i < hi \<Longrightarrow> R i s t \<Longrightarrow> R (i + 1) (f i s) (g i t)"
  shows "R hi (for_int lo hi f s) (for_int lo hi g t)"
  using assms
proof (induction "1::int" lo hi f s arbitrary: t rule: for_step.induct)
  case (1 lo hi f s)
  show ?case
  proof (cases "lo < hi")
    case True
    then have "R hi (for_int (lo + 1) hi f (f lo s)) (for_int (lo + 1) hi g (g lo t))"
      using 1 by auto
    with True show ?thesis by (simp add: for_int_step)
  next
    case False
    with 1 show ?thesis by (simp add: order_antisym)
  qed
qed

lemma for_int_shift:
  "for_int (lo + d) (hi + d) f s = for_int lo hi (\<lambda>i. f (i + d)) s"
proof (induction "1::int" lo hi "\<lambda>i. f (i + d)" s rule: for_step.induct)
  case (1 lo hi s)
  show ?case
  proof (cases "lo < hi")
    case True
    then show ?thesis using 1
      by (simp add: for_int_step for_int_step [of "lo + d"] add.commute add.left_commute)
  qed simp
qed

text \<open>A loop that strides over a range does as many rounds as the range has strides.\<close>

lemma for_step_stride:
  assumes "0 < step"
  shows "for_step step lo (lo + int n * step) f s
       = for_int 0 (int n) (\<lambda>i. f (lo + i * step)) s"
  using assms
proof (induction n arbitrary: lo s)
  case 0
  then show ?case by (simp add: for_step.simps)
next
  case (Suc n)
  have "for_step step lo (lo + int (Suc n) * step) f s
      = for_step step (lo + step) (lo + int (Suc n) * step) f (f lo s)"
    using Suc.prems by (subst for_step.simps) simp
  also have "\<dots> = for_int 0 (int n) (\<lambda>i. f (lo + step + i * step)) (f lo s)"
    using Suc.IH [OF Suc.prems, of "lo + step" "f lo s"] by (simp add: algebra_simps)
  also have "\<dots> = for_int 1 (int n + 1) (\<lambda>i. f (lo + i * step)) (f lo s)"
    using for_int_shift [of 0 1 "int n" "\<lambda>i. f (lo + i * step)" "f lo s"]
    by (simp add: algebra_simps)
  also have "\<dots> = for_int 0 (int (Suc n)) (\<lambda>i. f (lo + i * step)) s"
    by (simp add: for_int_step add.commute)
  finally show ?case .
qed

text \<open>A loop that appends to a buffer, and one that also moves a cursor by a fixed stride.\<close>

lemma for_int_append:
  "for_int lo hi (\<lambda>i buf. buf @ f i) buf = buf @ concat (map f [lo..hi - 1])"
proof (induction "1::int" lo hi "\<lambda>i buf. buf @ f i" buf rule: for_step.induct)
  case (1 lo hi buf)
  show ?case
  proof (cases "lo < hi")
    case True
    with 1 show ?thesis by (simp add: for_int_step upto_rec1 [of lo])
  qed simp
qed

lemma for_int_cursor:
  fixes s :: 's
  assumes "\<And>i s. lo \<le> i \<Longrightarrow> i < hi \<Longrightarrow> f i (p + (i - lo) * d, s) = (p + (i - lo) * d + d, g i s)"
    and "lo \<le> hi"
  shows "for_int lo hi f (p, s) = (p + (hi - lo) * d, for_int lo hi g s)"
proof -
  let ?R = "\<lambda>i (x :: int \<times> 's) t. x = (p + (i - lo) * d, t)"
  have "?R hi (for_int lo hi f (p, s)) (for_int lo hi g s)"
  proof (rule for_int_rel [where R = ?R and lo = lo])
    show "(p, s) = (p + (lo - lo) * d, s)" by simp
    fix i and x :: "int \<times> 's" and t :: 's
    assume "lo \<le> i" "i < hi" "x = (p + (i - lo) * d, t)"
    then show "f i x = (p + (i + 1 - lo) * d, g i t)"
      using assms(1) [of i t] by (simp add: algebra_simps)
  qed (rule assms(2))
  then show ?thesis .
qed

section \<open>Stores that change only part of the memory\<close>

text \<open>
  \<open>only_in S m m'\<close>: the two memories agree outside the address set \<open>S\<close>.  It is
  reflexive, transitive and monotone in \<open>S\<close>, so a loop of stores into \<open>S\<close> is
  itself \<open>only_in S\<close>.
\<close>

definition only_in :: "'a set \<Rightarrow> ('a \<Rightarrow> 'v) \<Rightarrow> ('a \<Rightarrow> 'v) \<Rightarrow> bool" where
  "only_in S m m' \<longleftrightarrow> (\<forall>a. a \<notin> S \<longrightarrow> m' a = m a)"

lemma only_inD: "only_in S m m' \<Longrightarrow> a \<notin> S \<Longrightarrow> m' a = m a"
  by (simp add: only_in_def)

lemma only_in_refl [simp, intro, frame_rules]: "only_in S m m"
  by (simp add: only_in_def)

lemma only_in_upd [frame_rules]: "only_in S m m' \<Longrightarrow> a \<in> S \<Longrightarrow> only_in S m (m'(a := v))"
  by (auto simp: only_in_def)

lemma only_in_trans: "only_in S m m' \<Longrightarrow> only_in S m' m'' \<Longrightarrow> only_in S m m''"
  by (simp add: only_in_def)

lemma only_in_mono: "only_in S m m' \<Longrightarrow> S \<subseteq> T \<Longrightarrow> only_in T m m'"
  by (auto simp: only_in_def)

lemma only_in_for [frame_rules]:
  assumes "only_in S m m'"
    and "\<And>i m'. lo \<le> i \<Longrightarrow> i < hi \<Longrightarrow> only_in S m m' \<Longrightarrow> only_in S m (body i m')"
  shows "only_in S m (for_int lo hi body m')"
  using for_int_pres [where P = "only_in S m" and body = body, OF assms(1) assms(2)] .

text \<open>
  A loop that updates one cell per round, every round another cell, is a map
  over those cells: this is what turns a pixel loop into a statement about
  pixels.
\<close>

lemma for_int_write_at:
  assumes "inj_on loc {lo..<hi}" and "i \<in> {lo..<hi}"
  shows "for_int lo hi (\<lambda>i m. m(loc i := f i (m (loc i)))) m (loc i) = f i (m (loc i))"
proof -
  let ?body = "\<lambda>i m. m(loc i := f i (m (loc i)))"
  have "for_int lo hi ?body m (loc i) = (if i < hi then f i (m (loc i)) else m (loc i))"
  proof (rule for_int_inv [where lo = lo and hi = hi and s = m and body = ?body and
          P = "\<lambda>j m'. m' (loc i) = (if i < j then f i (m (loc i)) else m (loc i))"])
    show "m (loc i) = (if i < lo then f i (m (loc i)) else m (loc i))" and "lo \<le> hi"
      using assms(2) by simp_all
  next
    fix j m'
    assume j: "lo \<le> j" "j < hi"
      and IH: "m' (loc i) = (if i < j then f i (m (loc i)) else m (loc i))"
    have "loc i = loc j \<longleftrightarrow> i = j"
      using j assms by (auto simp: inj_on_def)
    with IH show "(?body j m') (loc i) = (if i < j + 1 then f i (m (loc i)) else m (loc i))"
      by (cases "i = j") auto
  qed
  with assms(2) show ?thesis by simp
qed

lemma for_int_write_other:
  assumes "a \<notin> loc ` {lo..<hi}"
  shows "for_int lo hi (\<lambda>i m. m(loc i := f i (m (loc i)))) m a = m a"
proof -
  have "only_in (loc ` {lo..<hi}) m (for_int lo hi (\<lambda>i m. m(loc i := f i (m (loc i)))) m)"
    by (intro frame_rules) auto
  with assms show ?thesis by (simp add: only_in_def)
qed

end
