(* ===== verification/Ring_Buffer.thy ===== *)
theory Ring_Buffer
  imports NS_Prelude
begin

text \<open>
  The event queue between the input thread and the user interface
  (\<^verbatim>\<open>libnsfb/src/surface/remarkable/ringbuf.c\<close>): a circular buffer under a
  mutex that doubles its storage when it is full.  The interface is the locale
  \<open>event_queue\<close>; the interpretation at the end shows that the ring buffer is a
  first-in first-out queue across wrap-around and growth.  Each operation is
  one critical section of \<^verbatim>\<open>buf->mutex\<close>, so it is one function of the buffer.
\<close>

section \<open>What a client relies on\<close>

text \<open>
  \<open>put q e\<close> is \<^const>\<open>None\<close> when the queue cannot take the element, \<open>room n q\<close>
  promises that the next \<open>n\<close> elements will be taken, and \<open>items\<close> is the abstract
  queue.
\<close>

locale event_queue =
  fixes invar :: "'q \<Rightarrow> bool"
    and items :: "'q \<Rightarrow> 'e list"
    and room :: "nat \<Rightarrow> 'q \<Rightarrow> bool"
    and put :: "'q \<Rightarrow> 'e \<Rightarrow> 'q option"
    and get :: "'q \<Rightarrow> ('e \<times> 'q) option"
  assumes put_invar: "invar q \<Longrightarrow> put q e = Some q' \<Longrightarrow> invar q'"
    and put_items: "invar q \<Longrightarrow> put q e = Some q' \<Longrightarrow> items q' = items q @ [e]"
    and put_room: "invar q \<Longrightarrow> room (Suc n) q \<Longrightarrow> \<exists>q'. put q e = Some q' \<and> room n q'"
    and get_invar: "invar q \<Longrightarrow> get q = Some (e, q') \<Longrightarrow> invar q'"
    and get_items: "invar q \<Longrightarrow> get q = Some (e, q') \<Longrightarrow> items q = e # items q'"
    and get_empty: "invar q \<Longrightarrow> get q = None \<longleftrightarrow> items q = []"
begin

fun put_all :: "'q \<Rightarrow> 'e list \<Rightarrow> 'q option" where
  "put_all q [] = Some q"
| "put_all q (e # es) = (case put q e of None \<Rightarrow> None | Some q' \<Rightarrow> put_all q' es)"

fun get_all :: "nat \<Rightarrow> 'q \<Rightarrow> 'e list" where
  "get_all 0 q = []"
| "get_all (Suc n) q = (case get q of None \<Rightarrow> [] | Some (e, q') \<Rightarrow> e # get_all n q')"

lemma put_all_items:
  "invar q \<Longrightarrow> put_all q es = Some q' \<Longrightarrow> items q' = items q @ es \<and> invar q'"
proof (induction es arbitrary: q)
  case (Cons e es)
  then obtain p where "put q e = Some p" "put_all p es = Some q'"
    by (auto split: option.splits)
  with Cons put_invar [of q e p] put_items [of q e p] show ?case by simp
qed simp

lemma put_all_room: "invar q \<Longrightarrow> room (length es) q \<Longrightarrow> \<exists>q'. put_all q es = Some q'"
proof (induction es arbitrary: q)
  case (Cons e es)
  then obtain q' where "put q e = Some q'" and "room (length es) q'"
    using put_room [of q "length es" e] by auto
  with Cons show ?case using put_invar [of q e q'] by simp
qed simp

lemma get_all_items: "invar q \<Longrightarrow> get_all n q = take n (items q)"
proof (induction n arbitrary: q)
  case (Suc n)
  show ?case
  proof (cases "get q")
    case None
    with Suc.prems show ?thesis using get_empty [of q] by simp
  next
    case (Some r)
    then obtain e p where "get q = Some (e, p)" by (cases r) auto
    with Suc get_items [of q e p] get_invar [of q e p] show ?thesis by simp
  qed
qed simp

text \<open>The queue as a channel: what was put comes out, in order, after what was there.\<close>

lemma put_all_get_all:
  "invar q \<Longrightarrow> put_all q es = Some q' \<Longrightarrow>
     get_all (length (items q) + length es) q' = items q @ es"
  using put_all_items [of q es q'] by (simp add: get_all_items)

end

section \<open>The ring buffer\<close>

text \<open>\<^verbatim>\<open>SIZE_MAX\<close> of the 32-bit ARM target.\<close>

definition SIZE_MAX :: nat where
  "SIZE_MAX = 2 ^ 32 - 1"

record 'e ring_buf =
  buffer :: "'e list"
  capacity :: nat
  elem_size :: nat
  head :: nat
  tail :: nat
  used :: nat

text \<open>Fresh storage of \<open>n\<close> slots with the unspecified contents \<open>g\<close>.\<close>

definition malloc_slots :: "(nat \<Rightarrow> 'e) \<Rightarrow> nat \<Rightarrow> 'e list" where
  "malloc_slots g n = map g [0..<n]"

definition ring_buf_init ::
  "heap \<Rightarrow> (nat \<Rightarrow> 'e) \<Rightarrow> bool \<Rightarrow> bool \<Rightarrow> nat \<Rightarrow> nat \<Rightarrow> 'e ring_buf option \<times> heap" where
  "ring_buf_init h g mutex_ok cond_ok cap esize =
     (if cap = 0 \<or> esize = 0 \<or> cap > SIZE_MAX div esize then (None, h)
      else let (ok, h) = alloc h in
        if \<not> ok then (None, h)
        else if \<not> mutex_ok then (None, h)
        else if \<not> cond_ok then (None, h)
        else (Some \<lparr>buffer = malloc_slots g cap, capacity = cap, elem_size = esize,
                    head = 0, tail = 0, used = 0\<rparr>, h))"

definition ring_buf_free :: "'e ring_buf \<Rightarrow> 'e ring_buf" where
  "ring_buf_free b = b\<lparr>buffer := []\<rparr>"

text \<open>The loop that copies the unread elements, oldest first, to the larger storage.\<close>

definition ring_buf_copy :: "'e ring_buf \<Rightarrow> 'e list \<Rightarrow> 'e list" where
  "ring_buf_copy b larger =
     fold (\<lambda>i larger. larger[i := buffer b ! ((tail b + i) mod capacity b)]) [0..<used b] larger"

definition ring_buf_grow :: "(nat \<Rightarrow> 'e) \<Rightarrow> 'e ring_buf \<Rightarrow> 'e ring_buf" where
  "ring_buf_grow g b =
     b\<lparr>buffer := ring_buf_copy b (malloc_slots g (capacity b * 2)),
       tail := 0, head := used b, capacity := capacity b * 2\<rparr>"

definition ring_buf_put :: "'e ring_buf \<Rightarrow> 'e \<Rightarrow> 'e ring_buf" where
  "ring_buf_put b e =
     b\<lparr>buffer := (buffer b)[head b := e],
       head := (head b + 1) mod capacity b, used := used b + 1\<rparr>"

definition ring_buf_write ::
  "heap \<Rightarrow> (nat \<Rightarrow> 'e) \<Rightarrow> 'e ring_buf \<Rightarrow> 'e \<Rightarrow> bool \<times> 'e ring_buf \<times> heap" where
  "ring_buf_write h g b e =
     (if used b = capacity b then
        if capacity b > SIZE_MAX div elem_size b div 2 then (False, b, h)
        else let (ok, h) = alloc h in
          if \<not> ok then (False, b, h)
          else (True, ring_buf_put (ring_buf_grow g b) e, h)
      else (True, ring_buf_put b e, h))"

definition ring_buf_take :: "'e ring_buf \<Rightarrow> 'e \<times> 'e ring_buf" where
  "ring_buf_take b =
     (buffer b ! tail b, b\<lparr>tail := (tail b + 1) mod capacity b, used := used b - 1\<rparr>)"

text \<open>
  \<^verbatim>\<open>ring_buf_wait\<close> sleeps while the buffer is empty.  Each wake-up is a return code
  of \<^verbatim>\<open>pthread_cond_timedwait\<close> (0 is a signal) together with the elements the
  input thread wrote while the mutex was released; \<^const>\<open>None\<close> is a thread still
  asleep when the given wake-ups are used up.
\<close>

definition ring_buf_writes :: "(nat \<Rightarrow> 'e) \<Rightarrow> 'e list \<Rightarrow> heap \<times> 'e ring_buf \<Rightarrow> heap \<times> 'e ring_buf" where
  "ring_buf_writes g es = fold (\<lambda>e (h, b). let (_, b, h) = ring_buf_write h g b e in (h, b)) es"

fun ring_buf_wait ::
  "(nat \<Rightarrow> 'e) \<Rightarrow> (int \<times> 'e list) list \<Rightarrow> heap \<times> 'e ring_buf
     \<Rightarrow> ('e option \<times> heap \<times> 'e ring_buf) option" where
  "ring_buf_wait g wakes (h, b) =
     (if used b = 0 then
        (case wakes of
           [] \<Rightarrow> None
         | (rc, es) # wakes \<Rightarrow>
             (let (h, b) = ring_buf_writes g es (h, b) in
                if rc \<noteq> 0 \<and> used b = 0 then Some (None, h, b)
                else ring_buf_wait g wakes (h, b)))
      else (let (e, b) = ring_buf_take b in Some (Some e, h, b)))"

declare ring_buf_wait.simps [simp del]

section \<open>Representation\<close>

definition ring_inv :: "'e ring_buf \<Rightarrow> bool" where
  "ring_inv b \<longleftrightarrow> length (buffer b) = capacity b \<and> 0 < capacity b \<and> 0 < elem_size b
     \<and> tail b < capacity b \<and> used b \<le> capacity b \<and> head b = (tail b + used b) mod capacity b"

definition ring_list :: "'e ring_buf \<Rightarrow> 'e list" where
  "ring_list b = map (\<lambda>i. buffer b ! ((tail b + i) mod capacity b)) [0..<used b]"

definition ring_room :: "nat \<Rightarrow> 'e ring_buf \<Rightarrow> bool" where
  "ring_room n b \<longleftrightarrow> used b + n \<le> SIZE_MAX div elem_size b div 2"

lemma length_ring_list [simp]: "length (ring_list b) = used b"
  by (simp add: ring_list_def)

lemma length_malloc_slots [simp]: "length (malloc_slots g n) = n"
  by (simp add: malloc_slots_def)

lemma mod_offset_neq:
  fixes t i u c :: nat
  assumes "i < u" "u < c"
  shows "(t + i) mod c \<noteq> (t + u) mod c"
proof
  assume "(t + i) mod c = (t + u) mod c"
  then have "c dvd (t + u) - (t + i)"
    using assms mod_eq_dvd_iff_nat [of "t + i" "t + u" c] by simp
  then have "c dvd u - i"
    by (simp add: algebra_simps)
  with assms show False by (auto dest: dvd_imp_le)
qed

lemma ring_buf_copy_nth:
  assumes "used b \<le> length xs"
  shows "length (ring_buf_copy b xs) = length xs \<and>
     (\<forall>i < used b. ring_buf_copy b xs ! i = buffer b ! ((tail b + i) mod capacity b))"
proof -
  have "length (fold (\<lambda>i ys. ys[i := f i]) [0..<n] xs) = length xs \<and>
      (\<forall>i < n. fold (\<lambda>i ys. ys[i := f i]) [0..<n] xs ! i = f i)"
    if "n \<le> length xs" for n and f :: "nat \<Rightarrow> 'a"
    using that by (induction n) (auto simp: nth_list_update less_Suc_eq)
  from this [OF assms] show ?thesis by (simp add: ring_buf_copy_def)
qed

lemma ring_inv_grow: "ring_inv b \<Longrightarrow> used b = capacity b \<Longrightarrow> ring_inv (ring_buf_grow g b)"
  using ring_buf_copy_nth [of b "malloc_slots g (capacity b * 2)"]
  by (simp add: ring_inv_def ring_buf_grow_def)

lemma ring_list_grow:
  assumes "ring_inv b" "used b = capacity b"
  shows "ring_list (ring_buf_grow g b) = ring_list b"
  using assms ring_buf_copy_nth [of b "malloc_slots g (capacity b * 2)"]
  by (auto simp: ring_list_def ring_buf_grow_def ring_inv_def)

lemma ring_inv_put:
  assumes "ring_inv b" "used b < capacity b"
  shows "ring_inv (ring_buf_put b e)"
  using assms by (simp add: ring_inv_def ring_buf_put_def mod_Suc_eq)

lemma ring_list_put:
  assumes "ring_inv b" "used b < capacity b"
  shows "ring_list (ring_buf_put b e) = ring_list b @ [e]"
proof -
  have "(buffer b)[head b := e] ! ((tail b + i) mod capacity b)
      = buffer b ! ((tail b + i) mod capacity b)" if "i < used b" for i
    using assms that mod_offset_neq [of i "used b" "capacity b" "tail b"]
    by (simp add: ring_inv_def)
  moreover have "(buffer b)[head b := e] ! ((tail b + used b) mod capacity b) = e"
    using assms by (simp add: ring_inv_def)
  ultimately show ?thesis
    by (simp add: ring_list_def ring_buf_put_def)
qed

lemma ring_buf_put_fields [simp]:
  "elem_size (ring_buf_put b e) = elem_size b" "used (ring_buf_put b e) = Suc (used b)"
  "capacity (ring_buf_put b e) = capacity b"
  by (simp_all add: ring_buf_put_def)

lemma ring_buf_grow_fields [simp]:
  "elem_size (ring_buf_grow g b) = elem_size b" "used (ring_buf_grow g b) = used b"
  "capacity (ring_buf_grow g b) = capacity b * 2"
  by (simp_all add: ring_buf_grow_def)

text \<open>A write keeps the representation, and either appends or refuses without loss.\<close>

lemma ring_buf_write_cases:
  assumes "ring_inv b" and "ring_buf_write h g b e = (ok, b', h')"
  shows "ring_inv b' \<and> elem_size b' = elem_size b \<and>
         ring_list b' = ring_list b @ (if ok then [e] else [])"
proof (cases "used b = capacity b")
  case True
  then have "used (ring_buf_grow g b) < capacity (ring_buf_grow g b)"
    using assms(1) by (simp add: ring_inv_def)
  with True assms show ?thesis
    by (auto simp: ring_buf_write_def ring_inv_put ring_inv_grow ring_list_put ring_list_grow
        split: if_splits prod.splits)
next
  case False
  with assms(1) have "used b < capacity b" by (simp add: ring_inv_def)
  with False assms show ?thesis
    by (auto simp: ring_buf_write_def ring_inv_put ring_list_put)
qed

text \<open>With room left and an allocator that succeeds, the write is accepted.\<close>

lemma ring_buf_write_room:
  assumes "ring_inv b" and "ring_room (Suc n) b"
  shows "\<exists>b'. ring_buf_write [] g b e = (True, b', []) \<and> ring_room n b'"
  using assms by (auto simp: ring_buf_write_def ring_room_def ring_inv_def Let_def)

lemma ring_buf_take_cases:
  assumes "ring_inv b" "used b \<noteq> 0" and "ring_buf_take b = (e, b')"
  shows "ring_inv b' \<and> elem_size b' = elem_size b \<and> ring_list b = e # ring_list b'"
proof -
  obtain n where n: "used b = Suc n" using assms(2) by (cases "used b") auto
  have b': "b' = b\<lparr>tail := (tail b + 1) mod capacity b, used := n\<rparr>" and e: "e = buffer b ! tail b"
    using assms(3) n by (auto simp: ring_buf_take_def)
  have "ring_list b = buffer b ! ((tail b + 0) mod capacity b)
      # map (\<lambda>i. buffer b ! ((tail b + Suc i) mod capacity b)) [0..<n]"
    unfolding ring_list_def n upt_rec [of 0 "Suc n"]
    by (simp only: map_Suc_upt [symmetric] list.map map_map o_def) simp
  moreover have "ring_list b' = map (\<lambda>i. buffer b ! ((tail b + Suc i) mod capacity b)) [0..<n]"
    by (simp add: ring_list_def b' mod_simps)
  ultimately show ?thesis
    using assms(1) n unfolding e
    by (auto simp: ring_inv_def b' mod_add_left_eq mod_simps)
qed

section \<open>The interpretation\<close>

text \<open>The two entry points as a client sees them, on a machine with memory.\<close>

definition queue_put :: "(nat \<Rightarrow> 'e) \<Rightarrow> 'e ring_buf \<Rightarrow> 'e \<Rightarrow> 'e ring_buf option" where
  "queue_put g b e = (let (ok, b', _) = ring_buf_write [] g b e in if ok then Some b' else None)"

definition queue_get :: "'e ring_buf \<Rightarrow> ('e \<times> 'e ring_buf) option" where
  "queue_get b = (if used b = 0 then None else Some (ring_buf_take b))"

interpretation ring: event_queue ring_inv ring_list ring_room "queue_put g" queue_get
proof unfold_locales
  fix b b' :: "'a ring_buf" and e n
  {
    assume "ring_inv b" and put: "queue_put g b e = Some b'"
    moreover obtain ok c h where "ring_buf_write [] g b e = (ok, c, h)"
      using prod_cases3 by blast
    ultimately have "ring_inv b' \<and> ring_list b' = ring_list b @ [e]"
      using ring_buf_write_cases [of b "[]" g e] by (auto simp: queue_put_def split: if_splits)
    then show "ring_inv b'" "ring_list b' = ring_list b @ [e]" by auto
  next
    assume "ring_inv b" "ring_room (Suc n) b"
    then show "\<exists>b'. queue_put g b e = Some b' \<and> ring_room n b'"
      using ring_buf_write_room [of b n g e] by (auto simp: queue_put_def)
  next
    assume "ring_inv b" and "queue_get b = Some (e, b')"
    then have "ring_inv b' \<and> ring_list b = e # ring_list b'"
      using ring_buf_take_cases [of b e b'] by (auto simp: queue_get_def split: if_splits)
    then show "ring_inv b'" "ring_list b = e # ring_list b'" by auto
  next
    show "queue_get b = None \<longleftrightarrow> ring_list b = []"
      by (simp add: queue_get_def ring_list_def)
  }
qed

lemma ring_buf_init_inv:
  assumes "ring_buf_init h g m c cap esize = (Some b, h')"
  shows "ring_inv b \<and> ring_list b = [] \<and> elem_size b = esize \<and> capacity b = cap"
  using assms
  by (auto simp: ring_buf_init_def ring_inv_def ring_list_def split: if_splits prod.splits)

lemma ring_buf_writes_inv:
  "ring_inv b \<Longrightarrow> ring_buf_writes g es (h, b) = (h', b') \<Longrightarrow> ring_inv b'"
proof (induction es arbitrary: h b)
  case (Cons e es)
  obtain ok c k where w: "ring_buf_write h g b e = (ok, c, k)" using prod_cases3 by blast
  with Cons.prems have "ring_buf_writes g es (k, c) = (h', b')"
    by (simp add: ring_buf_writes_def)
  with Cons.IH ring_buf_write_cases [OF Cons.prems(1) w] show ?case by auto
qed (simp add: ring_buf_writes_def)

lemma ring_buf_writes_room:
  "ring_inv b \<Longrightarrow> ring_room (length es + n) b \<Longrightarrow>
     \<exists>b'. ring_buf_writes g es ([], b) = ([], b') \<and> ring_inv b' \<and> ring_room n b'
        \<and> ring_list b' = ring_list b @ es"
proof (induction es arbitrary: b)
  case (Cons e es)
  obtain c where w: "ring_buf_write [] g b e = (True, c, [])" and "ring_room (length es + n) c"
    using ring_buf_write_room [of b "length es + n" g e] Cons.prems by auto
  moreover have "ring_inv c" "ring_list c = ring_list b @ [e]"
    using ring_buf_write_cases [OF Cons.prems(1) w] by auto
  ultimately show ?case using Cons.IH [of c] by (auto simp: ring_buf_writes_def)
qed (simp add: ring_buf_writes_def)

lemma ring_buf_wait_ready:
  "used b \<noteq> 0 \<Longrightarrow>
     ring_buf_wait g wakes (h, b) = Some (Some (fst (ring_buf_take b)), h, snd (ring_buf_take b))"
  by (simp add: ring_buf_wait.simps split: prod.splits)

lemma ring_buf_wait_asleep: "used b = 0 \<Longrightarrow> ring_buf_wait g [] (h, b) = None"
  by (simp add: ring_buf_wait.simps)

lemma ring_buf_wait_wake:
  "used b = 0 \<Longrightarrow> ring_buf_writes g es (h, b) = (k, c) \<Longrightarrow>
     ring_buf_wait g ((rc, es) # wakes) (h, b)
       = (if rc \<noteq> 0 \<and> used c = 0 then Some (None, k, c) else ring_buf_wait g wakes (k, c))"
  by (subst ring_buf_wait.simps) simp

text \<open>
  What the consumer gets: the oldest element of what was unread together with
  what arrived while it slept, and nothing only when nothing was there.
\<close>

lemma ring_buf_wait_result:
  assumes "ring_inv b" and "ring_room (length (concat (map snd wakes))) b"
    and "ring_buf_wait g wakes ([], b) = Some (r, h', b')"
  shows "ring_inv b' \<and> (\<exists>n \<le> length wakes.
    ring_list b @ concat (map snd (take n wakes))
      = (case r of None \<Rightarrow> [] | Some e \<Rightarrow> [e]) @ ring_list b' \<and> (r = None \<longrightarrow> ring_list b' = []))"
  using assms
proof (induction wakes arbitrary: b)
  case Nil
  then have ne: "used b \<noteq> 0" by (metis option.distinct(1) ring_buf_wait_asleep)
  with Nil show ?case
    using ring_buf_take_cases [OF Nil.prems(1) ne, of "fst (ring_buf_take b)" "snd (ring_buf_take b)"]
    by (auto simp: ring_buf_wait_ready)
next
  case (Cons w ws)
  obtain rc es where w: "w = (rc, es)" by force
  show ?case
  proof (cases "used b = 0")
    case False
    then have "ring_inv b' \<and> ring_list b @ concat (map snd (take 0 (w # ws)))
        = (case r of None \<Rightarrow> [] | Some e \<Rightarrow> [e]) @ ring_list b' \<and> r \<noteq> None"
      using Cons.prems
        ring_buf_take_cases [OF Cons.prems(1) False, of "fst (ring_buf_take b)" "snd (ring_buf_take b)"]
      by (auto simp: ring_buf_wait_ready)
    then show ?thesis by (metis le0)
  next
    case True
    obtain c where c: "ring_buf_writes g es ([], b) = ([], c)" "ring_inv c"
        "ring_room (length (concat (map snd ws))) c" "ring_list c = ring_list b @ es"
      using ring_buf_writes_room [of b es "length (concat (map snd ws))" g] Cons.prems w by auto
    show ?thesis
    proof (cases "rc \<noteq> 0 \<and> used c = 0")
      case True
      with Cons.prems \<open>used b = 0\<close> w c have "r = None" "b' = c"
        by (auto simp: ring_buf_wait_wake)
      moreover have "ring_list c = []" using True by (simp add: ring_list_def)
      ultimately show ?thesis using c(2,4) w
        by (intro conjI exI [of _ 1]) auto
    next
      case False
      then have "ring_buf_wait g ws ([], c) = Some (r, h', b')"
        using Cons.prems(3) \<open>used b = 0\<close> w c(1) by (auto simp: ring_buf_wait_wake)
      from Cons.IH [OF c(2,3) this] obtain n where "n \<le> length ws" "ring_inv b'"
        "ring_list c @ concat (map snd (take n ws))
           = (case r of None \<Rightarrow> [] | Some e \<Rightarrow> [e]) @ ring_list b'" "r = None \<longrightarrow> ring_list b' = []"
        by blast
      then show ?thesis using c(4) w
        by (intro conjI exI [of _ "Suc n"]) auto
    qed
  qed
qed

section \<open>Properties\<close>

text \<open>
  C39.  The ring buffer is an unbounded first-in first-out queue: as long as the
  element count stays within half of what the address space can hold, every write
  is accepted, across wrap-around and any number of doublings, and reading then
  gives back the unread elements followed by the new ones, in order.
\<close>

theorem ring_buf_fifo:
  assumes "ring_inv b" and "ring_room (length es) b"
  shows "\<exists>b'. ring.put_all g b es = Some b' \<and>
    ring.get_all (used b + length es) b' = ring_list b @ es"
proof -
  obtain b' where b': "ring.put_all g b es = Some b'" using ring.put_all_room [OF assms] by blast
  then show ?thesis using ring.put_all_get_all [OF assms(1) b'] by simp
qed

definition ring_example :: "int ring_buf" where
  "ring_example = \<lparr>buffer = [7, 5, 6], capacity = 3, elem_size = 4, head = 1, tail = 1, used = 3\<rparr>"

lemma ring_example_ok: "ring_inv ring_example" "ring_list ring_example = [5, 6, 7]" "ring_room 9 ring_example"
  by (simp_all add: ring_example_def ring_inv_def ring_list_def upt_rec ring_room_def SIZE_MAX_def)

lemma ring_buf_fifo_witness:
  "\<exists>b'. ring.put_all (\<lambda>_. 0) ring_example [8, 9] = Some b' \<and> ring.get_all 5 b' = [5, 6, 7, 8, 9]"
  using ring_buf_fifo [OF ring_example_ok(1), of "[8, 9]" "\<lambda>_. 0"] ring_example_ok(2)
  by (simp add: ring_room_def ring_example_def SIZE_MAX_def)

text \<open>
  A waiting reader loses nothing: whenever \<open>ring_buf_wait\<close> returns, what
  was unread and what arrived while it slept is exactly the element it returns
  followed by what is left; it returns without an element only on an empty queue.
\<close>

theorem ring_buf_wait_no_loss:
  assumes "ring_inv b" and "ring_room (length (concat (map snd wakes))) b"
    and "ring_buf_wait g wakes ([], b) = Some (r, h', b')"
  shows "ring_inv b' \<and> (\<exists>n \<le> length wakes.
    ring_list b @ concat (map snd (take n wakes)) = (case r of None \<Rightarrow> [] | Some e \<Rightarrow> [e]) @ ring_list b'
      \<and> (r = None \<longrightarrow> ring_list b' = []))"
  using ring_buf_wait_result [OF assms] .

lemma ring_buf_wait_no_loss_witness:
  "\<exists>b'. ring_buf_wait (\<lambda>_. 0) [] ([], ring_example) = Some (Some 5, [], b') \<and> ring_list b' = [6, 7]"
proof -
  have "ring_buf_wait (\<lambda>_. 0) [] ([], ring_example) = Some (Some 5, [], snd (ring_buf_take ring_example))"
    by (simp add: ring_buf_wait_ready ring_example_def ring_buf_take_def)
  with ring_buf_wait_no_loss [OF ring_example_ok(1) _ this] show ?thesis
    using ring_example_ok(2) by (simp add: ring_room_def ring_example_def SIZE_MAX_def)
qed

end
