(* ===== verification/Plot_Util.thy ===== *)
theory Plot_Util
  imports NS_Prelude
begin

text \<open>
  Rectangle and line clipping, and alpha blending:
  \<^verbatim>\<open>libnsfb/src/plot/util.c\<close> and \<^verbatim>\<open>libnsfb/include/libnsfb_plot_util.h\<close>.  Coordinates
  are C ints and modelled as \<^typ>\<open>int\<close>: the products of the line clipper stay in
  32 bits for the coordinate ranges of a screen and are not wrapped.  Colours
  are 32-bit words.
\<close>

section \<open>Bounding boxes\<close>

record nsfb_bbox =
  x0 :: int
  y0 :: int
  x1 :: int
  y1 :: int

text \<open>The pixels of a box: the right and bottom edges are exclusive.\<close>

definition pixels :: "nsfb_bbox \<Rightarrow> (int \<times> int) set" where
  "pixels r = {(x, y). x0 r \<le> x \<and> x < x1 r \<and> y0 r \<le> y \<and> y < y1 r}"

lemma mem_pixels [simp]:
  "(x, y) \<in> pixels r \<longleftrightarrow> x0 r \<le> x \<and> x < x1 r \<and> y0 r \<le> y \<and> y < y1 r"
  by (simp add: pixels_def)

text \<open>The box with its corners ordered.\<close>

definition bbox_order :: "nsfb_bbox \<Rightarrow> nsfb_bbox" where
  "bbox_order r = (let
     r = (if x1 r < x0 r then r\<lparr>x0 := x1 r, x1 := x0 r\<rparr> else r)
   in if y1 r < y0 r then r\<lparr>y0 := y1 r, y1 := y0 r\<rparr> else r)"

section \<open>Outcodes\<close>

definition POINT_LEFTOF_REGION :: int where "POINT_LEFTOF_REGION = 1"
definition POINT_RIGHTOF_REGION :: int where "POINT_RIGHTOF_REGION = 2"
definition POINT_ABOVE_REGION :: int where "POINT_ABOVE_REGION = 4"
definition POINT_BELOW_REGION :: int where "POINT_BELOW_REGION = 8"

lemmas region_defs = POINT_LEFTOF_REGION_def POINT_RIGHTOF_REGION_def
  POINT_ABOVE_REGION_def POINT_BELOW_REGION_def

definition REGION :: "int \<Rightarrow> int \<Rightarrow> int \<Rightarrow> int \<Rightarrow> int \<Rightarrow> int \<Rightarrow> int" where
  "REGION x y cx1 cx2 cy1 cy2 =
     (if y > cy2 then POINT_BELOW_REGION else 0) OR
     (if y < cy1 then POINT_ABOVE_REGION else 0) OR
     (if x > cx2 then POINT_RIGHTOF_REGION else 0) OR
     (if x < cx1 then POINT_LEFTOF_REGION else 0)"

abbreviation region_of :: "nsfb_bbox \<Rightarrow> int \<Rightarrow> int \<Rightarrow> int" where
  "region_of clip x y \<equiv> REGION x y (x0 clip) (x1 clip - 1) (y0 clip) (y1 clip - 1)"

lemma region_bits:
  "REGION x y cx1 cx2 cy1 cy2 AND POINT_BELOW_REGION \<noteq> 0 \<longleftrightarrow> y > cy2"
  "REGION x y cx1 cx2 cy1 cy2 AND POINT_ABOVE_REGION \<noteq> 0 \<longleftrightarrow> y < cy1"
  "REGION x y cx1 cx2 cy1 cy2 AND POINT_RIGHTOF_REGION \<noteq> 0 \<longleftrightarrow> x > cx2"
  "REGION x y cx1 cx2 cy1 cy2 AND POINT_LEFTOF_REGION \<noteq> 0 \<longleftrightarrow> x < cx1"
  by (auto simp: REGION_def region_defs)

lemma region_zero: "REGION x y cx1 cx2 cy1 cy2 = 0 \<longleftrightarrow> cx1 \<le> x \<and> x \<le> cx2 \<and> cy1 \<le> y \<and> y \<le> cy2"
  by (auto simp: REGION_def region_defs)

lemma flags_and:
  "((if a then 8 else 0) OR (if b then 4 else 0) OR (if c then 2 else 0) OR (if d then 1 else 0)) AND
   ((if a' then 8 else 0) OR (if b' then 4 else 0) OR (if c' then 2 else 0) OR (if d' then 1 else 0))
     \<noteq> (0::int) \<longleftrightarrow> (a \<and> a') \<or> (b \<and> b') \<or> (c \<and> c') \<or> (d \<and> d')"
  by (cases a; cases b; cases c; cases d) (cases a'; cases b'; cases c'; cases d'; simp)+

lemma region_and:
  "REGION x y cx1 cx2 cy1 cy2 AND REGION u v cx1 cx2 cy1 cy2 \<noteq> 0 \<longleftrightarrow>
     (y > cy2 \<and> v > cy2) \<or> (y < cy1 \<and> v < cy1) \<or> (x > cx2 \<and> u > cx2) \<or> (x < cx1 \<and> u < cx1)"
  unfolding REGION_def region_defs by (rule flags_and)

lemma region_or:
  "REGION x y cx1 cx2 cy1 cy2 OR REGION u v cx1 cx2 cy1 cy2 = 0 \<longleftrightarrow>
     REGION x y cx1 cx2 cy1 cy2 = 0 \<and> REGION u v cx1 cx2 cy1 cy2 = 0"
  by (rule or_eq_0_iff)

section \<open>Clipping a rectangle\<close>

text \<open>The function updates its argument: the model returns the answer and the new box.\<close>

definition nsfb_plot_clip :: "nsfb_bbox \<Rightarrow> nsfb_bbox \<Rightarrow> bool \<times> nsfb_bbox" where
  "nsfb_plot_clip clip rect = (let
     rect = (if x1 rect < x0 rect then rect\<lparr>x0 := x1 rect, x1 := x0 rect\<rparr> else rect);
     rect = (if y1 rect < y0 rect then rect\<lparr>y0 := y1 rect, y1 := y0 rect\<rparr> else rect);
     region1 = REGION (x0 rect) (y0 rect) (x0 clip) (x1 clip - 1) (y0 clip) (y1 clip - 1);
     region2 = REGION (x1 rect) (y1 rect) (x0 clip) (x1 clip - 1) (y0 clip) (y1 clip - 1)
   in if region1 OR region2 \<noteq> 0 \<and> region1 AND region2 \<noteq> 0 then (False, rect)
   else let
     rect = (if x0 rect < x0 clip then rect\<lparr>x0 := x0 clip\<rparr> else rect);
     rect = (if x0 rect > x1 clip then rect\<lparr>x0 := x1 clip\<rparr> else rect);
     rect = (if x1 rect < x0 clip then rect\<lparr>x1 := x0 clip\<rparr> else rect);
     rect = (if x1 rect > x1 clip then rect\<lparr>x1 := x1 clip\<rparr> else rect);
     rect = (if y0 rect < y0 clip then rect\<lparr>y0 := y0 clip\<rparr> else rect);
     rect = (if y0 rect > y1 clip then rect\<lparr>y0 := y1 clip\<rparr> else rect);
     rect = (if y1 rect < y0 clip then rect\<lparr>y1 := y0 clip\<rparr> else rect);
     rect = (if y1 rect > y1 clip then rect\<lparr>y1 := y1 clip\<rparr> else rect)
   in (True, rect))"

definition bbox_ok :: "nsfb_bbox \<Rightarrow> bool" where
  "bbox_ok r \<longleftrightarrow> x0 r \<le> x1 r \<and> y0 r \<le> y1 r"

definition inside :: "nsfb_bbox \<Rightarrow> nsfb_bbox \<Rightarrow> bool" where
  "inside clip r \<longleftrightarrow> x0 clip \<le> x0 r \<and> x0 r \<le> x1 r \<and> x1 r \<le> x1 clip
                   \<and> y0 clip \<le> y0 r \<and> y0 r \<le> y1 r \<and> y1 r \<le> y1 clip"

lemma inside_pixels: "inside clip r \<Longrightarrow> pixels r \<subseteq> pixels clip"
  by (auto simp: inside_def)

text \<open>Both clamps of an edge at once.\<close>

definition clamp :: "int \<Rightarrow> int \<Rightarrow> int \<Rightarrow> int" where
  "clamp lo hi v = (let v = (if v < lo then lo else v) in if v > hi then hi else v)"

lemma clamp_steps:
  "(let r = (if x0 r < lo then r\<lparr>x0 := lo\<rparr> else r); r = (if x0 r > hi then r\<lparr>x0 := hi\<rparr> else r) in k r)
     = k (r\<lparr>x0 := clamp lo hi (x0 r)\<rparr>)"
  "(let r = (if x1 r < lo then r\<lparr>x1 := lo\<rparr> else r); r = (if x1 r > hi then r\<lparr>x1 := hi\<rparr> else r) in k r)
     = k (r\<lparr>x1 := clamp lo hi (x1 r)\<rparr>)"
  "(let r = (if y0 r < lo then r\<lparr>y0 := lo\<rparr> else r); r = (if y0 r > hi then r\<lparr>y0 := hi\<rparr> else r) in k r)
     = k (r\<lparr>y0 := clamp lo hi (y0 r)\<rparr>)"
  "(let r = (if y1 r < lo then r\<lparr>y1 := lo\<rparr> else r); r = (if y1 r > hi then r\<lparr>y1 := hi\<rparr> else r) in k r)
     = k (r\<lparr>y1 := clamp lo hi (y1 r)\<rparr>)"
  by (simp_all add: clamp_def Let_def)

lemma order_steps:
  "(let r = (if x1 r < x0 r then r\<lparr>x0 := x1 r, x1 := x0 r\<rparr> else r);
        r = (if y1 r < y0 r then r\<lparr>y0 := y1 r, y1 := y0 r\<rparr> else r) in k r) = k (bbox_order r)"
  by (simp add: bbox_order_def Let_def)

lemma nsfb_plot_clip_eq:
  "nsfb_plot_clip clip rect = (let r = bbox_order rect in
    if (y0 r > y1 clip - 1 \<and> y1 r > y1 clip - 1) \<or> (y0 r < y0 clip \<and> y1 r < y0 clip)
      \<or> (x0 r > x1 clip - 1 \<and> x1 r > x1 clip - 1) \<or> (x0 r < x0 clip \<and> x1 r < x0 clip)
    then (False, r)
    else (True, r\<lparr>x0 := clamp (x0 clip) (x1 clip) (x0 r), x1 := clamp (x0 clip) (x1 clip) (x1 r),
                  y0 := clamp (y0 clip) (y1 clip) (y0 r), y1 := clamp (y0 clip) (y1 clip) (y1 r)\<rparr>))"
proof -
  have "a OR b \<noteq> 0 \<and> a AND b \<noteq> 0 \<longleftrightarrow> a AND b \<noteq> 0" for a b :: int
    by (metis and_zero_eq or_eq_0_iff)
  then show ?thesis
    unfolding nsfb_plot_clip_def clamp_steps order_steps
    by (simp add: Let_def region_and)
qed

lemma bbox_order_ok: "bbox_ok (bbox_order r)"
  by (simp add: bbox_ok_def bbox_order_def Let_def)

lemma bbox_order_id [simp]: "bbox_ok r \<Longrightarrow> bbox_order r = r"
  by (simp add: bbox_ok_def bbox_order_def Let_def)

text \<open>The visible part of the box, exactly: this is what the callers plot.\<close>

lemma nsfb_plot_clip_pixels:
  assumes "nsfb_plot_clip clip rect = (vis, r)"
  shows "(if vis then pixels r else {}) = pixels clip \<inter> pixels (bbox_order rect)"
  using assms bbox_order_ok [of rect]
  by (auto simp: nsfb_plot_clip_eq Let_def clamp_def bbox_ok_def split: if_splits)

lemma nsfb_plot_clip_inside:
  assumes "bbox_ok clip" "nsfb_plot_clip clip rect = (True, r)"
  shows "inside clip r"
  using assms bbox_order_ok [of rect]
  by (auto simp: nsfb_plot_clip_eq Let_def clamp_def inside_def bbox_ok_def split: if_splits)

text \<open>A box already inside is left alone, unless it is rejected as empty.\<close>

lemma nsfb_plot_clip_idem:
  assumes "inside clip r" "x0 r < x1 r" "y0 r < y1 r"
  shows "nsfb_plot_clip clip r = (True, r)"
  using assms
  by (auto simp: nsfb_plot_clip_eq Let_def clamp_def inside_def bbox_ok_def)

section \<open>Clipping a line\<close>

text \<open>One round of the loop for the first end point, \<open>region1\<close> being its outcode.\<close>

definition clip_line_first :: "nsfb_bbox \<Rightarrow> int \<Rightarrow> nsfb_bbox \<Rightarrow> nsfb_bbox" where
  "clip_line_first clip region1 line =
     (if region1 AND POINT_BELOW_REGION \<noteq> 0 then
        line\<lparr>x0 := x0 line + cdiv ((x1 line - x0 line) * (y1 clip - 1 - y0 line)) (y1 line - y0 line),
             y0 := y1 clip - 1\<rparr>
      else if region1 AND POINT_ABOVE_REGION \<noteq> 0 then
        line\<lparr>x0 := x0 line + cdiv ((x1 line - x0 line) * (y0 clip - y0 line)) (y1 line - y0 line),
             y0 := y0 clip\<rparr>
      else if region1 AND POINT_RIGHTOF_REGION \<noteq> 0 then
        line\<lparr>y0 := y0 line + cdiv ((y1 line - y0 line) * (x1 clip - 1 - x0 line)) (x1 line - x0 line),
             x0 := x1 clip - 1\<rparr>
      else if region1 AND POINT_LEFTOF_REGION \<noteq> 0 then
        line\<lparr>y0 := y0 line + cdiv ((y1 line - y0 line) * (x0 clip - x0 line)) (x1 line - x0 line),
             x0 := x0 clip\<rparr>
      else line)"

text \<open>And for the second one; the source divides the line from the first point here too.\<close>

definition clip_line_second :: "nsfb_bbox \<Rightarrow> int \<Rightarrow> nsfb_bbox \<Rightarrow> nsfb_bbox" where
  "clip_line_second clip region2 line =
     (if region2 AND POINT_BELOW_REGION \<noteq> 0 then
        line\<lparr>x1 := x0 line + cdiv ((x1 line - x0 line) * (y1 clip - 1 - y0 line)) (y1 line - y0 line),
             y1 := y1 clip - 1\<rparr>
      else if region2 AND POINT_ABOVE_REGION \<noteq> 0 then
        line\<lparr>x1 := x0 line + cdiv ((x1 line - x0 line) * (y0 clip - y0 line)) (y1 line - y0 line),
             y1 := y0 clip\<rparr>
      else if region2 AND POINT_RIGHTOF_REGION \<noteq> 0 then
        line\<lparr>y1 := y0 line + cdiv ((y1 line - y0 line) * (x1 clip - 1 - x0 line)) (x1 line - x0 line),
             x1 := x1 clip - 1\<rparr>
      else if region2 AND POINT_LEFTOF_REGION \<noteq> 0 then
        line\<lparr>y1 := y0 line + cdiv ((y1 line - y0 line) * (x0 clip - x0 line)) (x1 line - x0 line),
             x1 := x0 clip\<rparr>
      else line)"

text \<open>
  The measure of the loop: a line about to be rejected has none left, otherwise
  each end point needs at most one cut in each direction.
\<close>

definition clip_cuts :: "nsfb_bbox \<Rightarrow> int \<Rightarrow> int \<Rightarrow> nat" where
  "clip_cuts clip x y =
     (if region_of clip x y = 0 then 0
      else if y < y0 clip \<or> y > y1 clip - 1 then 2 else 1)"

definition clip_measure :: "nsfb_bbox \<Rightarrow> nsfb_bbox \<Rightarrow> nat" where
  "clip_measure clip line =
     (if region_of clip (x0 line) (y0 line) AND region_of clip (x1 line) (y1 line) \<noteq> 0 then 0
      else Suc (clip_cuts clip (x0 line) (y0 line) + clip_cuts clip (x1 line) (y1 line)))"

definition between :: "int \<Rightarrow> int \<Rightarrow> int \<Rightarrow> bool" where
  "between a b v \<longleftrightarrow> (a \<le> v \<and> v \<le> b) \<or> (b \<le> v \<and> v \<le> a)"

lemma cdiv_between:
  assumes "d \<noteq> 0" "between 0 d t"
  shows "between a b (a + cdiv ((b - a) * t) d)"
proof -
  have le: "\<bar>cdiv ((b - a) * t) d\<bar> \<le> \<bar>b - a\<bar>"
  proof -
    have "\<bar>t\<bar> \<le> \<bar>d\<bar>" using assms by (auto simp: between_def)
    then have "\<bar>b - a\<bar> * \<bar>t\<bar> \<le> \<bar>b - a\<bar> * \<bar>d\<bar>" by (rule mult_left_mono) simp
    then have "\<bar>b - a\<bar> * \<bar>t\<bar> div \<bar>d\<bar> \<le> \<bar>b - a\<bar> * \<bar>d\<bar> div \<bar>d\<bar>"
      using assms(1) by (intro zdiv_mono1) auto
    then show ?thesis using assms(1) by (simp add: cdiv_abs abs_mult)
  qed
  have "t = 0 \<or> sgn t * sgn d = 1"
    using assms by (auto simp: between_def sgn_if)
  then have "sgn ((b - a) * t) * sgn d = sgn (b - a) \<or> t = 0"
    by (auto simp: sgn_mult mult.assoc)
  then have "cdiv ((b - a) * t) d = 0 \<or> cdiv ((b - a) * t) d = sgn (b - a) * \<bar>cdiv ((b - a) * t) d\<bar>"
    using assms(1) by (auto simp: cdiv_def abs_mult sgn_mult pos_imp_zdiv_nonneg_iff)
  with le show ?thesis
    by (auto simp: between_def sgn_if split: if_splits)
qed

text \<open>What one cut does to an end point, given that the two are not outside together.\<close>

lemma clip_line_first_cases:
  assumes "region_of clip (x0 l) (y0 l) AND region_of clip (x1 l) (y1 l) = 0"
    and "region_of clip (x0 l) (y0 l) \<noteq> 0" and "l' = clip_line_first clip (region_of clip (x0 l) (y0 l)) l"
  shows "x1 l' = x1 l \<and> y1 l' = y1 l \<and> between (x0 l) (x1 l) (x0 l') \<and> between (y0 l) (y1 l) (y0 l')
    \<and> (if y0 l > y1 clip - 1 then y0 l' = y1 clip - 1 else if y0 l < y0 clip then y0 l' = y0 clip
       else if x0 l > x1 clip - 1 then x0 l' = x1 clip - 1 else x0 l' = x0 clip)"
proof -
  have out: "\<not> (y0 l > y1 clip - 1 \<and> y1 l > y1 clip - 1)" "\<not> (y0 l < y0 clip \<and> y1 l < y0 clip)"
      "\<not> (x0 l > x1 clip - 1 \<and> x1 l > x1 clip - 1)" "\<not> (x0 l < x0 clip \<and> x1 l < x0 clip)"
    using assms(1) region_and by blast+
  have nz: "y0 l > y1 clip - 1 \<or> y0 l < y0 clip \<or> x0 l > x1 clip - 1 \<or> x0 l < x0 clip"
    using assms(2) by (auto simp: region_zero)
  consider (below) "y0 l > y1 clip - 1" | (above) "\<not> y0 l > y1 clip - 1" "y0 l < y0 clip"
    | (right) "\<not> y0 l > y1 clip - 1" "\<not> y0 l < y0 clip" "x0 l > x1 clip - 1"
    | (left) "\<not> y0 l > y1 clip - 1" "\<not> y0 l < y0 clip" "\<not> x0 l > x1 clip - 1" "x0 l < x0 clip"
    using nz by blast
  then show ?thesis
  proof cases
    case below
    then show ?thesis
      using out(1) cdiv_between [of "y1 l - y0 l" "y1 clip - 1 - y0 l" "x0 l" "x1 l"]
      unfolding assms(3) clip_line_first_def region_bits by (auto simp: between_def)
  next
    case above
    then show ?thesis
      using out(2) cdiv_between [of "y1 l - y0 l" "y0 clip - y0 l" "x0 l" "x1 l"]
      unfolding assms(3) clip_line_first_def region_bits by (auto simp: between_def)
  next
    case right
    then show ?thesis
      using out(3) cdiv_between [of "x1 l - x0 l" "x1 clip - 1 - x0 l" "y0 l" "y1 l"]
      unfolding assms(3) clip_line_first_def region_bits by (auto simp: between_def)
  next
    case left
    then show ?thesis
      using out(4) cdiv_between [of "x1 l - x0 l" "x0 clip - x0 l" "y0 l" "y1 l"]
      unfolding assms(3) clip_line_first_def region_bits by (auto simp: between_def)
  qed
qed

lemma clip_line_second_cases:
  assumes "region_of clip (x0 l) (y0 l) = 0"
    and "region_of clip (x1 l) (y1 l) \<noteq> 0" and "l' = clip_line_second clip (region_of clip (x1 l) (y1 l)) l"
  shows "x0 l' = x0 l \<and> y0 l' = y0 l \<and> between (x0 l) (x1 l) (x1 l') \<and> between (y0 l) (y1 l) (y1 l')
    \<and> (if y1 l > y1 clip - 1 then y1 l' = y1 clip - 1 else if y1 l < y0 clip then y1 l' = y0 clip
       else if x1 l > x1 clip - 1 then x1 l' = x1 clip - 1 else x1 l' = x0 clip)"
proof -
  have inn: "x0 clip \<le> x0 l" "x0 l \<le> x1 clip - 1" "y0 clip \<le> y0 l" "y0 l \<le> y1 clip - 1"
    using assms(1) by (auto simp: region_zero)
  consider (below) "y1 l > y1 clip - 1" | (above) "\<not> y1 l > y1 clip - 1" "y1 l < y0 clip"
    | (right) "\<not> y1 l > y1 clip - 1" "\<not> y1 l < y0 clip" "x1 l > x1 clip - 1"
    | (left) "\<not> y1 l > y1 clip - 1" "\<not> y1 l < y0 clip" "\<not> x1 l > x1 clip - 1" "x1 l < x0 clip"
    using assms(2) not_le unfolding region_zero by (metis not_less)
  then show ?thesis
  proof cases
    case below
    then show ?thesis
      using inn cdiv_between [of "y1 l - y0 l" "y1 clip - 1 - y0 l" "x0 l" "x1 l"]
      unfolding assms(3) clip_line_second_def region_bits by (auto simp: between_def)
  next
    case above
    then show ?thesis
      using inn cdiv_between [of "y1 l - y0 l" "y0 clip - y0 l" "x0 l" "x1 l"]
      unfolding assms(3) clip_line_second_def region_bits by (auto simp: between_def)
  next
    case right
    then show ?thesis
      using inn cdiv_between [of "x1 l - x0 l" "x1 clip - 1 - x0 l" "y0 l" "y1 l"]
      unfolding assms(3) clip_line_second_def region_bits by (auto simp: between_def)
  next
    case left
    then show ?thesis
      using inn cdiv_between [of "x1 l - x0 l" "x0 clip - x0 l" "y0 l" "y1 l"]
      unfolding assms(3) clip_line_second_def region_bits by (auto simp: between_def)
  qed
qed

lemma clip_cuts_simp:
  "clip_cuts clip x y = (if x0 clip \<le> x \<and> x \<le> x1 clip - 1 \<and> y0 clip \<le> y \<and> y \<le> y1 clip - 1 then 0
      else if y < y0 clip \<or> y > y1 clip - 1 then 2 else 1)"
  by (simp add: clip_cuts_def region_zero)

lemma clip_measure_first:
  assumes "region_of clip (x0 l) (y0 l) AND region_of clip (x1 l) (y1 l) = 0"
    and "region_of clip (x0 l) (y0 l) \<noteq> 0"
  shows "clip_measure clip (clip_line_first clip (region_of clip (x0 l) (y0 l)) l) < clip_measure clip l"
proof -
  let ?l = "clip_line_first clip (region_of clip (x0 l) (y0 l)) l"
  have out: "\<not> (y0 l > y1 clip - 1 \<and> y1 l > y1 clip - 1)" "\<not> (y0 l < y0 clip \<and> y1 l < y0 clip)"
      "\<not> (x0 l > x1 clip - 1 \<and> x1 l > x1 clip - 1)" "\<not> (x0 l < x0 clip \<and> x1 l < x0 clip)"
    using assms(1) region_and by blast+
  have nz: "y0 l > y1 clip - 1 \<or> y0 l < y0 clip \<or> x0 l > x1 clip - 1 \<or> x0 l < x0 clip"
    using assms(2) by (auto simp: region_zero)
  show ?thesis
    using clip_line_first_cases [OF assms refl] out nz assms(1)
    unfolding clip_measure_def clip_cuts_simp region_and between_def
    by (auto split: if_splits)
qed

lemma clip_measure_second:
  assumes "region_of clip (x0 l) (y0 l) = 0" and "region_of clip (x1 l) (y1 l) \<noteq> 0"
  shows "clip_measure clip (clip_line_second clip (region_of clip (x1 l) (y1 l)) l) < clip_measure clip l"
proof -
  have inn: "x0 clip \<le> x0 l" "x0 l \<le> x1 clip - 1" "y0 clip \<le> y0 l" "y0 l \<le> y1 clip - 1"
    using assms(1) by (auto simp: region_zero)
  have nz: "y1 l > y1 clip - 1 \<or> y1 l < y0 clip \<or> x1 l > x1 clip - 1 \<or> x1 l < x0 clip"
    using assms(2) by (auto simp: region_zero)
  show ?thesis
    using clip_line_second_cases [OF assms refl] inn nz
    unfolding clip_measure_def clip_cuts_simp region_and between_def
    by (auto split: if_splits)
qed

function nsfb_plot_clip_line :: "nsfb_bbox \<Rightarrow> nsfb_bbox \<Rightarrow> bool \<times> nsfb_bbox" where
  "nsfb_plot_clip_line clip line = (let
     region1 = REGION (x0 line) (y0 line) (x0 clip) (x1 clip - 1) (y0 clip) (y1 clip - 1);
     region2 = REGION (x1 line) (y1 line) (x0 clip) (x1 clip - 1) (y0 clip) (y1 clip - 1)
   in if region1 OR region2 = 0 then (True, line)
      else if region1 AND region2 \<noteq> 0 then (False, line)
      else if region1 \<noteq> 0 then nsfb_plot_clip_line clip (clip_line_first clip region1 line)
      else nsfb_plot_clip_line clip (clip_line_second clip region2 line))"
  by pat_completeness auto
termination
  by (relation "measure (\<lambda>(clip, line). clip_measure clip line)")
    (simp_all add: clip_measure_first clip_measure_second or_eq_0_iff)

declare nsfb_plot_clip_line.simps [simp del]

text \<open>
  An accepted line lies in the clipping rectangle, inside the bounding box of the
  original line, and an already visible line is not changed.
\<close>

definition line_within :: "nsfb_bbox \<Rightarrow> nsfb_bbox \<Rightarrow> bool" where
  "line_within l l' \<longleftrightarrow> between (x0 l) (x1 l) (x0 l') \<and> between (x0 l) (x1 l) (x1 l')
                    \<and> between (y0 l) (y1 l) (y0 l') \<and> between (y0 l) (y1 l) (y1 l')"

lemma between_ends [simp]: "between a b a" "between a b b"
  by (auto simp: between_def)

lemma between_trans: "between a b c \<Longrightarrow> between a b d \<Longrightarrow> between c d v \<Longrightarrow> between a b v"
  by (auto simp: between_def)

lemma line_within_trans:
  assumes "line_within l m" "line_within m n"
  shows "line_within l n"
  using assms between_trans unfolding line_within_def by blast

lemma line_within_refl [simp]: "line_within l l"
  by (simp add: line_within_def)

lemma line_within_first:
  "region_of clip (x0 l) (y0 l) AND region_of clip (x1 l) (y1 l) = 0 \<Longrightarrow>
   region_of clip (x0 l) (y0 l) \<noteq> 0 \<Longrightarrow>
   line_within l (clip_line_first clip (region_of clip (x0 l) (y0 l)) l)"
  unfolding line_within_def using clip_line_first_cases [OF _ _ refl] by fastforce

lemma line_within_second:
  "region_of clip (x0 l) (y0 l) = 0 \<Longrightarrow> region_of clip (x1 l) (y1 l) \<noteq> 0 \<Longrightarrow>
   line_within l (clip_line_second clip (region_of clip (x1 l) (y1 l)) l)"
  unfolding line_within_def using clip_line_second_cases [OF _ _ refl] by fastforce

definition clip_answer :: "nsfb_bbox \<Rightarrow> bool \<Rightarrow> nsfb_bbox \<Rightarrow> bool" where
  "clip_answer clip vis l \<longleftrightarrow>
    (if vis then (x0 l, y0 l) \<in> pixels clip \<and> (x1 l, y1 l) \<in> pixels clip
     else region_of clip (x0 l) (y0 l) AND region_of clip (x1 l) (y1 l) \<noteq> 0)"

lemma nsfb_plot_clip_line_cases:
  "nsfb_plot_clip_line clip line = (vis, l) \<Longrightarrow> line_within line l \<and> clip_answer clip vis l"
proof (induction clip line rule: nsfb_plot_clip_line.induct)
  case (1 clip line)
  let ?r1 = "region_of clip (x0 line) (y0 line)" and ?r2 = "region_of clip (x1 line) (y1 line)"
  consider (acc) "?r1 = 0" "?r2 = 0" | (rej) "?r1 AND ?r2 \<noteq> 0"
    | (first) "?r1 AND ?r2 = 0" "?r1 \<noteq> 0" | (second) "?r1 = 0" "?r2 \<noteq> 0"
    by blast
  then show ?case
  proof cases
    case acc
    then have "vis" "l = line" using 1(3) by (auto simp: nsfb_plot_clip_line.simps)
    with acc show ?thesis
      by (auto simp: region_zero clip_answer_def)
  next
    case rej
    then have "?r1 \<noteq> 0" by auto
    with rej have "\<not> vis" "l = line"
      using 1(3) by (simp_all add: nsfb_plot_clip_line.simps [of clip line] or_eq_0_iff Let_def)
    with rej show ?thesis by (simp add: clip_answer_def)
  next
    case first
    let ?l = "clip_line_first clip ?r1 line"
    have "nsfb_plot_clip_line clip ?l = (vis, l)"
      using 1(3) first by (simp add: nsfb_plot_clip_line.simps [of clip line] or_eq_0_iff)
    then have "line_within ?l l \<and> clip_answer clip vis l"
      using 1(1) [OF refl refl] first by (simp add: or_eq_0_iff)
    with line_within_first [OF first] line_within_trans show ?thesis by blast
  next
    case second
    let ?l = "clip_line_second clip ?r2 line"
    have "nsfb_plot_clip_line clip ?l = (vis, l)"
      using 1(3) second by (simp add: nsfb_plot_clip_line.simps [of clip line])
    then have "line_within ?l l \<and> clip_answer clip vis l"
      using 1(2) [OF refl refl] second by simp
    with line_within_second [OF second] line_within_trans show ?thesis by blast
  qed
qed

text \<open>
  For a horizontal or vertical line nothing visible is cut away either.
\<close>

definition line_span :: "nsfb_bbox \<Rightarrow> (int \<times> int) set" where
  "line_span l = {(x, y). between (x0 l) (x1 l) x \<and> between (y0 l) (y1 l) y}"

lemma span_first:
  assumes "region_of clip (x0 l) (y0 l) AND region_of clip (x1 l) (y1 l) = 0"
    and "region_of clip (x0 l) (y0 l) \<noteq> 0" and ax: "x0 l = x1 l \<or> y0 l = y1 l"
    and l': "l' = clip_line_first clip (region_of clip (x0 l) (y0 l)) l"
  shows "line_span l' \<inter> pixels clip = line_span l \<inter> pixels clip \<and> (x0 l' = x1 l' \<or> y0 l' = y1 l')"
proof -
  have out: "\<not> (y0 l > y1 clip - 1 \<and> y1 l > y1 clip - 1)" "\<not> (y0 l < y0 clip \<and> y1 l < y0 clip)"
      "\<not> (x0 l > x1 clip - 1 \<and> x1 l > x1 clip - 1)" "\<not> (x0 l < x0 clip \<and> x1 l < x0 clip)"
    using assms(1) region_and by blast+
  show ?thesis
    using clip_line_first_cases [OF assms(1,2) l'] out ax assms(2)
    by (auto simp: line_span_def between_def region_zero split: if_splits)
qed

lemma span_second:
  assumes "region_of clip (x0 l) (y0 l) = 0"
    and "region_of clip (x1 l) (y1 l) \<noteq> 0" and ax: "x0 l = x1 l \<or> y0 l = y1 l"
    and l': "l' = clip_line_second clip (region_of clip (x1 l) (y1 l)) l"
  shows "line_span l' \<inter> pixels clip = line_span l \<inter> pixels clip \<and> (x0 l' = x1 l' \<or> y0 l' = y1 l')"
  using clip_line_second_cases [OF assms(1,2) l'] ax assms(1,2)
  by (auto simp: line_span_def between_def region_zero split: if_splits)

lemma clip_answer_span:
  assumes "clip_answer clip vis l"
  shows "if vis then line_span l \<subseteq> pixels clip else line_span l \<inter> pixels clip = {}"
proof (cases vis)
  case True
  with assms show ?thesis by (auto simp: clip_answer_def line_span_def between_def)
next
  case False
  then have "(y0 l > y1 clip - 1 \<and> y1 l > y1 clip - 1) \<or> (y0 l < y0 clip \<and> y1 l < y0 clip)
      \<or> (x0 l > x1 clip - 1 \<and> x1 l > x1 clip - 1) \<or> (x0 l < x0 clip \<and> x1 l < x0 clip)"
    using assms unfolding clip_answer_def region_and by simp
  with False show ?thesis by (auto simp: line_span_def between_def)
qed

lemma nsfb_plot_clip_line_axis:
  "nsfb_plot_clip_line clip line = (vis, l) \<Longrightarrow> x0 line = x1 line \<or> y0 line = y1 line \<Longrightarrow>
     line_span l \<inter> pixels clip = line_span line \<inter> pixels clip"
proof (induction clip line rule: nsfb_plot_clip_line.induct)
  case (1 clip line)
  let ?r1 = "region_of clip (x0 line) (y0 line)" and ?r2 = "region_of clip (x1 line) (y1 line)"
  consider (stop) "?r1 OR ?r2 = 0 \<or> ?r1 AND ?r2 \<noteq> 0"
    | (first) "?r1 AND ?r2 = 0" "?r1 \<noteq> 0" | (second) "?r1 = 0" "?r2 \<noteq> 0"
    by (auto simp: or_eq_0_iff)
  then show ?case
  proof cases
    case stop
    then have "l = line"
      using 1(3) by (auto simp: nsfb_plot_clip_line.simps [of clip line] Let_def split: if_splits)
    then show ?thesis by simp
  next
    case first
    let ?l = "clip_line_first clip ?r1 line"
    have "nsfb_plot_clip_line clip ?l = (vis, l)"
      using 1(3) first by (simp add: nsfb_plot_clip_line.simps [of clip line] or_eq_0_iff)
    then show ?thesis
      using 1(1) [OF refl refl] span_first [OF first 1(4) refl] first by (simp add: or_eq_0_iff)
  next
    case second
    let ?l = "clip_line_second clip ?r2 line"
    have "nsfb_plot_clip_line clip ?l = (vis, l)"
      using 1(3) second by (simp add: nsfb_plot_clip_line.simps [of clip line])
    then show ?thesis
      using 1(2) [OF refl refl] span_second [OF second 1(4) refl] second by simp
  qed
qed

section \<open>Unions and intersections\<close>

definition nsfb_plot_add_rect :: "nsfb_bbox \<Rightarrow> nsfb_bbox \<Rightarrow> bool \<times> nsfb_bbox" where
  "nsfb_plot_add_rect box1 box2 =
     (True, \<lparr>x0 = (if x0 box1 < x0 box2 then x0 box1 else x0 box2),
             y0 = (if y0 box1 < y0 box2 then y0 box1 else y0 box2),
             x1 = (if x1 box1 > x1 box2 then x1 box1 else x1 box2),
             y1 = (if y1 box1 > y1 box2 then y1 box1 else y1 box2)\<rparr>)"

definition nsfb_plot_bbox_intersect :: "nsfb_bbox \<Rightarrow> nsfb_bbox \<Rightarrow> bool" where
  "nsfb_plot_bbox_intersect box1 box2 =
     (if x1 box2 < x0 box1 then False
      else if y1 box2 < y0 box1 then False
      else if x0 box2 > x1 box1 then False
      else if y0 box2 > y1 box1 then False
      else True)"

lemma nsfb_plot_add_rect_least:
  "pixels a \<union> pixels b \<subseteq> pixels (snd (nsfb_plot_add_rect a b))"
  "inside r a \<Longrightarrow> inside r b \<Longrightarrow> inside r (snd (nsfb_plot_add_rect a b))"
  by (auto simp: nsfb_plot_add_rect_def inside_def)

lemma nsfb_plot_bbox_intersect_complete:
  "\<not> nsfb_plot_bbox_intersect a b \<Longrightarrow> pixels a \<inter> pixels b = {}"
  by (auto simp: nsfb_plot_bbox_intersect_def split: if_splits)

section \<open>Alpha blending\<close>

type_synonym nsfb_colour = "32 word"

definition nsfb_plot_ablend :: "nsfb_colour \<Rightarrow> nsfb_colour \<Rightarrow> nsfb_colour" where
  "nsfb_plot_ablend pixel scrpixel = (let
     opacity = drop_bit 24 pixel;
     transp = 0x100 - opacity;
     rb = drop_bit 8 ((pixel AND 0xFF00FF) * opacity + (scrpixel AND 0xFF00FF) * transp);
     g = drop_bit 8 ((pixel AND 0x00FF00) * opacity + (scrpixel AND 0x00FF00) * transp)
   in (rb AND 0xFF00FF) OR (g AND 0xFF00))"

lemma and_FF00: "(X::nat) AND 0xFF00 = 256 * (X div 256 mod 256)"
  using and_field [of X 8 8] by (simp add: mask_eq_exp_minus_1 push_bit_eq_mult)

lemma and_FF00FF: "(X::nat) AND 0xFF00FF = X mod 256 + 65536 * (X div 65536 mod 256)"
proof -
  have "X AND 0xFF00FF = X AND (push_bit 0 (mask 8) OR push_bit 16 (mask 8))" 
    by (simp add: mask_eq_exp_minus_1 push_bit_eq_mult)
  also have "\<dots> = (X mod 256) OR (2 ^ 16 * (X div 65536 mod 256))"
    unfolding and_or_masks and_field by simp
  also have "\<dots> = X mod 256 + 2 ^ 16 * (X div 65536 mod 256)"
    by (rule or_disjoint) (rule order_less_trans [of _ 256], simp_all)
  finally show ?thesis by simp
qed

text \<open>One colour channel: the average weighted by the alpha value.\<close>

definition blend :: "nat \<Rightarrow> nat \<Rightarrow> nat \<Rightarrow> nat" where
  "blend w a b = (a * w + b * (256 - w)) div 256"

lemma blend_le: "w \<le> 255 \<Longrightarrow> a \<le> 255 \<Longrightarrow> b \<le> 255 \<Longrightarrow> blend w a b \<le> 255"
proof -
  assume "w \<le> 255" "a \<le> 255" "b \<le> 255"
  then have "a * w + b * (256 - w) \<le> 255 * w + 255 * (256 - w)"
    by (intro add_mono mult_le_mono1)
  also have "\<dots> = 255 * 256" using \<open>w \<le> 255\<close> by (simp flip: distrib_left)
  finally show ?thesis by (simp add: blend_def)
qed

abbreviation "red c \<equiv> unat c mod 256"
abbreviation "green c \<equiv> unat c div 256 mod 256"
abbreviation "blue c \<equiv> unat c div 65536 mod 256"
abbreviation "alpha c \<equiv> unat c div 16777216"

lemma alpha_le: "alpha (c::32 word) \<le> 255"
proof -
  have "unat c < 2 ^ LENGTH(32)" by (rule unsigned_less)
  then have "unat c < 16777216 * 256" by simp
  then have "alpha c < 256" by (simp add: less_mult_imp_div_less mult.commute)
  then show ?thesis by simp
qed

lemma unat_shr: "unat (drop_bit n w) = unat w div 2 ^ n"
  by (metis drop_bit_eq_div unat_drop_bit_eq)

lemma unat_mask_rb: "unat ((c :: 32 word) AND 0xFF00FF) = red c + 65536 * blue c"
proof -
  have "unat (c AND 0xFF00FF) = unat c AND unat (0xFF00FF :: 32 word)" by (rule unsigned_and_eq)
  then show ?thesis by (simp add: and_FF00FF)
qed

lemma unat_mask_g: "unat ((c :: 32 word) AND 0xFF00) = 256 * green c"
proof -
  have "unat (c AND 0xFF00) = unat c AND unat (0xFF00 :: 32 word)" by (rule unsigned_and_eq)
  then show ?thesis by (simp add: and_FF00)
qed

lemma unat_transp: "unat (0x100 - drop_bit 24 (p :: 32 word)) = 256 - alpha p"
proof -
  have a: "unat (drop_bit 24 p) = alpha p" by (simp add: unat_shr)
  then have "drop_bit 24 p \<le> 0x100"
    using alpha_le [of p] by (simp add: word_le_nat_alt)
  then have "unat (0x100 - drop_bit 24 p) = unat (0x100 :: 32 word) - unat (drop_bit 24 p)"
    by (rule unat_sub)
  then show ?thesis by (simp add: a)
qed

lemma unat_mac:
  fixes m n a b :: "32 word"
  assumes "unat m * unat a + unat n * unat b < 2 ^ 32"
  shows "unat (m * a + n * b) = unat m * unat a + unat n * unat b"
  using assms by (simp add: unat_word_ariths mod_add_eq)

lemma or_field_mid:
  assumes "r < 256" "g < 256"
  shows "(r + 65536 * b) OR (256 * g) = r + 256 * g + 65536 * (b::nat)"
proof -
  have "(r + 65536 * b) OR (256 * g) = (r OR (2 ^ 16 * b)) OR (2 ^ 8 * g)"
    using or_disjoint [of r 16 b] assms by simp
  also have "\<dots> = (r OR (2 ^ 8 * g)) OR (2 ^ 16 * b)"
    by (simp only: or.assoc or.commute [of "2 ^ 16 * b"])
  also have "\<dots> = (r + 2 ^ 8 * g) OR (2 ^ 16 * b)"
    using assms by (subst or_disjoint) simp_all
  also have "\<dots> = r + 2 ^ 8 * g + 2 ^ 16 * b"
    using assms by (subst or_disjoint) simp_all
  finally show ?thesis by simp
qed

lemma packed_fields:
  assumes "r \<le> 255" "g \<le> 255" "b \<le> (255::nat)"
  shows "(r + 256 * g + 65536 * b) mod 256 = r" "(r + 256 * g + 65536 * b) div 256 mod 256 = g"
    "(r + 256 * g + 65536 * b) div 65536 mod 256 = b" "(r + 256 * g + 65536 * b) div 16777216 = 0"
proof -
  have "(r + 256 * g + 65536 * b) mod 256 = (r + 256 * (g + 256 * b)) mod 256" by (simp add: algebra_simps)
  also have "\<dots> = r" using assms by (simp only: mod_mult_self2) simp
  finally show "(r + 256 * g + 65536 * b) mod 256 = r" .
  have d: "(r + 256 * g + 65536 * b) div 256 = g + 256 * b" using assms by auto
  with assms show "(r + 256 * g + 65536 * b) div 256 mod 256 = g" by simp
  have "(r + 256 * g + 65536 * b) div 65536 = (r + 256 * g + 65536 * b) div 256 div 256"
    by (simp flip: div_mult2_eq)
  with d assms show "(r + 256 * g + 65536 * b) div 65536 mod 256 = b" by simp
  show "(r + 256 * g + 65536 * b) div 16777216 = 0" using assms by simp
qed

lemma nsfb_plot_ablend_unat:
  fixes p s :: "32 word"
  shows "unat (nsfb_plot_ablend p s) =
    blend (alpha p) (red p) (red s) + 256 * blend (alpha p) (green p) (green s)
      + 65536 * blend (alpha p) (blue p) (blue s)"
proof -
  define ow where "ow = alpha p"
  define R G B where "R = red p * ow + red s * (256 - ow)" and "G = green p * ow + green s * (256 - ow)"
    and "B = blue p * ow + blue s * (256 - ow)"
  have o: "ow \<le> 255" by (simp add: ow_def alpha_le)
  have lt: "x * ow + y * (256 - ow) \<le> 65280" if "x \<le> 255" "y \<le> 255" for x y
  proof -
    have "x * ow + y * (256 - ow) \<le> 255 * ow + 255 * (256 - ow)"
      using that by (intro add_mono mult_le_mono1)
    also have "\<dots> = 255 * 256" using o by (simp flip: distrib_left)
    finally show ?thesis by simp
  qed
  have le: "n mod 256 \<le> 255" for n :: nat using mod_less_divisor [of 256 n] by linarith
  have RGB: "R \<le> 65280" "G \<le> 65280" "B \<le> 65280"
    unfolding R_def G_def B_def by (rule lt; rule le)+
  have rb: "unat ((p AND 0xFF00FF) * drop_bit 24 p + (s AND 0xFF00FF) * (0x100 - drop_bit 24 p))
      = R + 65536 * B"
  proof -
    have e: "unat (p AND 0xFF00FF) * unat (drop_bit 24 p) + unat (s AND 0xFF00FF) * unat (0x100 - drop_bit 24 p)
      = R + 65536 * B"
      unfolding unat_transp unat_mask_rb unat_shr
      by (simp add: R_def B_def ow_def distrib_right distrib_left mult.assoc)
    show ?thesis using RGB by (subst unat_mac) (simp_all only: e, simp)
  qed
  have g: "unat ((p AND 0x00FF00) * drop_bit 24 p + (s AND 0x00FF00) * (0x100 - drop_bit 24 p)) = 256 * G"
  proof -
    have e: "unat (p AND 0x00FF00) * unat (drop_bit 24 p) + unat (s AND 0x00FF00) * unat (0x100 - drop_bit 24 p)
      = 256 * G"
      unfolding unat_transp unat_mask_g unat_shr
      by (simp add: G_def ow_def distrib_right distrib_left mult.assoc)
    show ?thesis using RGB by (subst unat_mac) (simp_all only: e, simp)
  qed
  have "unat (nsfb_plot_ablend p s) =
      ((R + 65536 * B) div 256 AND 0xFF00FF) OR (256 * G div 256 AND 0xFF00)"
    unfolding nsfb_plot_ablend_def Let_def unsigned_or_eq unsigned_and_eq unat_shr rb g by simp
  also have "(R + 65536 * B) div 256 AND 0xFF00FF = R div 256 + 65536 * (B div 256)"
  proof -
    have "(R + 65536 * B) div 256 = R div 256 + 256 * B" by simp
    moreover have "R div 256 < 256" "B < 65536" using RGB by auto
    ultimately show ?thesis by (simp add: and_FF00FF div_mult2_eq [of _ 256 256, simplified])
  qed
  also have "256 * G div 256 AND 0xFF00 = 256 * (G div 256)"
    using RGB by (simp add: and_FF00)
  also have "(R div 256 + 65536 * (B div 256)) OR (256 * (G div 256))
      = R div 256 + 256 * (G div 256) + 65536 * (B div 256)"
    using or_field_mid [of "R div 256" "G div 256" "B div 256"] RGB by simp
  finally show ?thesis
    by (simp add: blend_def R_def G_def B_def ow_def)
qed

section \<open>Properties\<close>

text \<open>
  Clipping a rectangle is exact: whatever the order of its corners, the
  pixels reported visible are those it shares with the clipping rectangle, and a
  visible rectangle handed on to the plotters lies inside the clipping rectangle.
\<close>

theorem clip_rect_exact:
  assumes "bbox_ok clip" and "nsfb_plot_clip clip rect = (vis, r)"
  shows "(if vis then pixels r else {}) = pixels clip \<inter> pixels (bbox_order rect)
    \<and> (vis \<longrightarrow> inside clip r)"
  using nsfb_plot_clip_pixels [OF assms(2)] nsfb_plot_clip_inside [OF assms(1)] assms(2)
  by (cases vis) auto

lemma clip_rect_exact_witness:
  "let clip = \<lparr>x0 = 0, y0 = 0, x1 = 10, y1 = 5\<rparr>; r = \<lparr>x0 = 8, y0 = 2, x1 = 10, y1 = 5\<rparr>
   in nsfb_plot_clip clip \<lparr>x0 = 12, y0 = 2, x1 = 8, y1 = 7\<rparr> = (True, r) \<and> inside clip r"
proof -
  have "nsfb_plot_clip \<lparr>x0 = 0, y0 = 0, x1 = 10, y1 = 5\<rparr> \<lparr>x0 = 12, y0 = 2, x1 = 8, y1 = 7\<rparr>
      = (True, \<lparr>x0 = 8, y0 = 2, x1 = 10, y1 = 5\<rparr>)"
    by (simp add: nsfb_plot_clip_eq bbox_order_def clamp_def)
  with clip_rect_exact [OF _ this] show ?thesis by (simp add: bbox_ok_def)
qed

text \<open>
  Clipping a line ends, and its answer is sound: an accepted line has both
  end points in the clipping rectangle and stays within the bounding box of the
  original; a line it rejects is left with both ends beyond the same edge; and no
  visible pixel of a horizontal or vertical line is lost.
\<close>

theorem clip_line_sound:
  assumes "nsfb_plot_clip_line clip line = (vis, l)"
  shows "line_within line l
    \<and> (if vis then line_span l \<subseteq> pixels clip else line_span l \<inter> pixels clip = {})
    \<and> (x0 line = x1 line \<or> y0 line = y1 line \<longrightarrow>
      line_span line \<inter> pixels clip = (if vis then line_span l else {}))"
proof -
  have ans: "clip_answer clip vis l" and "line_within line l"
    using nsfb_plot_clip_line_cases [OF assms] by auto
  moreover from ans have vis: "if vis then line_span l \<subseteq> pixels clip else line_span l \<inter> pixels clip = {}"
    by (rule clip_answer_span)
  moreover have "x0 line = x1 line \<or> y0 line = y1 line \<longrightarrow>
      line_span line \<inter> pixels clip = (if vis then line_span l else {})"
    using vis nsfb_plot_clip_line_axis [OF assms] by (auto split: if_splits)
  ultimately show ?thesis by blast
qed

lemma clip_line_sound_witness:
  "let clip = \<lparr>x0 = 0, y0 = 0, x1 = 10, y1 = 5\<rparr>; line = \<lparr>x0 = 3, y0 = -2, x1 = 3, y1 = 9\<rparr>
   in line_span line \<inter> pixels clip = line_span \<lparr>x0 = 3, y0 = 0, x1 = 3, y1 = 4\<rparr>"
proof -
  have "nsfb_plot_clip_line \<lparr>x0 = 0, y0 = 0, x1 = 10, y1 = 5\<rparr> \<lparr>x0 = 3, y0 = -2, x1 = 3, y1 = 9\<rparr>
      = (True, \<lparr>x0 = 3, y0 = 0, x1 = 3, y1 = 4\<rparr>)"
    by (simp add: nsfb_plot_clip_line.simps REGION_def region_defs clip_line_first_def
        clip_line_second_def cdiv_def)
  from clip_line_sound [OF this] show ?thesis by simp
qed

text \<open>
  Alpha blending works on both packed channel pairs without a carry from one
  channel into the next: each channel of the result is the average of the two
  channels weighted by the alpha of the drawn pixel, rounded down.
\<close>

theorem ablend_channels:
  "red (nsfb_plot_ablend p s) = blend (alpha p) (red p) (red s)
   \<and> green (nsfb_plot_ablend p s) = blend (alpha p) (green p) (green s)
   \<and> blue (nsfb_plot_ablend p s) = blend (alpha p) (blue p) (blue s)
   \<and> alpha (nsfb_plot_ablend p s) = 0"
proof -
  have le: "n mod 256 \<le> 255" for n :: nat using mod_less_divisor [of 256 n] by linarith
  define r g b where "r = blend (alpha p) (red p) (red s)" and "g = blend (alpha p) (green p) (green s)"
    and "b = blend (alpha p) (blue p) (blue s)"
  have "r \<le> 255" "g \<le> 255" "b \<le> 255"
    unfolding r_def g_def b_def by (intro blend_le alpha_le le)+
  moreover have "unat (nsfb_plot_ablend p s) = r + 256 * g + 65536 * b"
    unfolding r_def g_def b_def by (rule nsfb_plot_ablend_unat)
  ultimately show ?thesis
    unfolding r_def [symmetric] g_def [symmetric] b_def [symmetric] by (simp add: packed_fields)
qed

end
