(* ===== verification/Nsfb.thy ===== *)
theory Nsfb
  imports Plot_Util
begin

text \<open>
  The framebuffer context \<^verbatim>\<open>struct nsfb_s\<close> (\<^verbatim>\<open>libnsfb/src/nsfb.h\<close>), the palette it may carry
  (\<^verbatim>\<open>palette.h\<close>, \<^verbatim>\<open>palette.c\<close>) and the context versions of the clipping routines
  (\<^verbatim>\<open>plot/util.c\<close>).  Video memory is a map from byte addresses to the 16-bit
  pixels stored there; \<^verbatim>\<open>ptr\<close> is the address of its first byte.
\<close>

section \<open>Enumerations\<close>

datatype nsfb_format =
    NSFB_FMT_ANY | NSFB_FMT_XBGR8888 | NSFB_FMT_XRGB8888 | NSFB_FMT_ABGR8888
  | NSFB_FMT_ARGB8888 | NSFB_FMT_RGB888 | NSFB_FMT_ARGB1555 | NSFB_FMT_RGB565
  | NSFB_FMT_I8 | NSFB_FMT_I4 | NSFB_FMT_I1

datatype nsfb_palette_type =
    NSFB_PALETTE_EMPTY | NSFB_PALETTE_NSFB_8BPP | NSFB_PALETTE_OTHER

text \<open>The tables of plotters a context can select.\<close>

datatype plotter_table =
    Plotters_1bpp | Plotters_8bpp | Plotters_16bpp | Plotters_24bpp
  | Plotters_32bpp_xrgb8888 | Plotters_32bpp_xbgr8888

section \<open>The palette\<close>

text \<open>
  The error diffusion buffer is the list \<open>dither_data\<close>; \<open>dither_width\<close> is the
  length in use.
\<close>

record nsfb_palette =
  pal_type :: nsfb_palette_type
  pal_last :: nat
  pal_data :: "nsfb_colour list"
  pal_dither :: bool
  dither_width :: int
  dither_current :: int
  dither_data :: "int list"

definition nsfb_palette_dithering_on :: "nsfb_palette \<Rightarrow> bool" where
  "nsfb_palette_dithering_on palette = pal_dither palette"

text \<open>\<^verbatim>\<open>memset\<close> clears the first \<open>width\<close> entries; a buffer that is too short is not extended.\<close>

definition nsfb_palette_dither_init :: "nsfb_palette \<Rightarrow> int \<Rightarrow> nsfb_palette" where
  "nsfb_palette_dither_init palette width = (let width = width * 3 in
     palette\<lparr>pal_dither := True, dither_current := 0, dither_width := width,
       dither_data := replicate (min (nat width) (length (dither_data palette))) 0
         @ drop (nat width) (dither_data palette)\<rparr>)"

definition nsfb_palette_dither_fini :: "nsfb_palette \<Rightarrow> nsfb_palette" where
  "nsfb_palette_dither_fini palette = palette\<lparr>pal_dither := False\<rparr>"

section \<open>The context\<close>

record nsfb =
  nsfb_width :: int
  nsfb_height :: int
  nsfb_format :: nsfb_format
  nsfb_bpp :: int
  nsfb_ptr :: int
  nsfb_linelen :: int
  nsfb_palette :: "nsfb_palette option"
  nsfb_clip :: nsfb_bbox
  nsfb_plotter_fns :: "plotter_table option"
  nsfb_orientation :: int
  nsfb_phys_width :: int
  nsfb_phys_height :: int
  nsfb_phys_linelen :: int
  nsfb_vram :: "int \<Rightarrow> 16 word"

definition nsfb_plot_clip_ctx :: "nsfb \<Rightarrow> nsfb_bbox \<Rightarrow> bool \<times> nsfb_bbox" where
  "nsfb_plot_clip_ctx nsfb rect = nsfb_plot_clip (nsfb_clip nsfb) rect"

definition nsfb_plot_clip_line_ctx :: "nsfb \<Rightarrow> nsfb_bbox \<Rightarrow> bool \<times> nsfb_bbox" where
  "nsfb_plot_clip_line_ctx nsfb line = nsfb_plot_clip_line (nsfb_clip nsfb) line"

section \<open>Writing many pixels\<close>

text \<open>\<open>fill_set S v m\<close>: every address of \<open>S\<close> set to \<open>v\<close>; the fill loops are unions of such sets.\<close>

definition fill_set :: "'a set \<Rightarrow> 'v \<Rightarrow> ('a \<Rightarrow> 'v) \<Rightarrow> 'a \<Rightarrow> 'v" where
  "fill_set S v m = (\<lambda>a. if a \<in> S then v else m a)"

lemma fill_set_empty [simp]: "fill_set {} v m = m"
  by (simp add: fill_set_def)

lemma fill_set_insert: "(fill_set S v m)(a := v) = fill_set (insert a S) v m"
  by (auto simp: fill_set_def)

lemma fill_set_upd: "m(a := v) = fill_set {a} v m"
  by (auto simp: fill_set_def)

lemma fill_set_union: "fill_set S v (fill_set T v m) = fill_set (S \<union> T) v m"
  by (auto simp: fill_set_def)

lemma fill_set_only_in: "S \<subseteq> T \<Longrightarrow> only_in T m (fill_set S v m)"
  by (auto simp: fill_set_def only_in_def)

lemma for_int_fill_set:
  assumes "\<And>i m. lo \<le> i \<Longrightarrow> i < hi \<Longrightarrow> body i m = fill_set (S i) v m"
  shows "for_int lo hi body m = fill_set (\<Union>i\<in>{lo..<hi}. S i) v m"
proof (cases "lo \<le> hi")
  case True
  show ?thesis
  proof (rule for_int_inv [where P = "\<lambda>j m'. m' = fill_set (\<Union>i\<in>{lo..<j}. S i) v m", OF _ True])
    fix j m' assume "lo \<le> j" "j < hi" "m' = fill_set (\<Union>i\<in>{lo..<j}. S i) v m"
    moreover have "{lo..<j + 1} = insert j {lo..<j}" using \<open>lo \<le> j\<close> by auto
    ultimately show "body j m' = fill_set (\<Union>i\<in>{lo..<j + 1}. S i) v m"
      using assms by (simp add: fill_set_union)
  qed simp
qed simp

end
