(* ===== verification/Plot_16bpp.thy ===== *)
theory Plot_16bpp
  imports Nsfb
begin

text \<open>
  The RGB565 plotters, \<^verbatim>\<open>libnsfb/src/plot/16bpp.c\<close>: where a logical pixel lies in
  the physical framebuffer, the conversion between colours and pixels, and the
  rectangle fill with its unrolled 32-bit stores; with \<^verbatim>\<open>point\<close> and
  \<^verbatim>\<open>readrect\<close> of \<^verbatim>\<open>common.c\<close>.
\<close>

section \<open>Pixel addresses\<close>

definition get_xy_loc :: "nsfb \<Rightarrow> int \<Rightarrow> int \<Rightarrow> int" where
  "get_xy_loc nsfb x y =
     (if nsfb_orientation nsfb = 1 then
        let phys_x = nsfb_phys_width nsfb - 1 - y; phys_y = x
        in nsfb_ptr nsfb + phys_y * nsfb_phys_linelen nsfb + push_bit 1 phys_x
      else nsfb_ptr nsfb + y * nsfb_linelen nsfb + push_bit 1 x)"

lemma get_xy_loc_eq:
  "get_xy_loc nsfb x y =
     (if nsfb_orientation nsfb = 1
      then nsfb_ptr nsfb + x * nsfb_phys_linelen nsfb + 2 * (nsfb_phys_width nsfb - 1 - y)
      else nsfb_ptr nsfb + y * nsfb_linelen nsfb + 2 * x)"
  by (simp add: get_xy_loc_def Let_def push_bit_eq_mult)

definition locs :: "nsfb \<Rightarrow> (int \<times> int) set \<Rightarrow> int set" where
  "locs nsfb S = (\<lambda>(x, y). get_xy_loc nsfb x y) ` S"

lemma locs_simps [simp]:
  "locs nsfb {} = {}"
  "locs nsfb (S \<union> T) = locs nsfb S \<union> locs nsfb T"
  by (auto simp: locs_def)

lemma locs_mono: "S \<subseteq> T \<Longrightarrow> locs nsfb S \<subseteq> locs nsfb T"
  by (auto simp: locs_def)

lemma locs_mem: "(x, y) \<in> S \<Longrightarrow> get_xy_loc nsfb x y \<in> locs nsfb S"
  by (force simp: locs_def)

text \<open>
  The geometry the plotters rely on: a line holds the visible pixels, in the
  direction it is laid out in memory, and lines are whole 32-bit words.
\<close>

definition surface_ok :: "nsfb \<Rightarrow> bool" where
  "surface_ok nsfb \<longleftrightarrow> 4 dvd nsfb_linelen nsfb \<and>
     (if nsfb_orientation nsfb = 1
      then 2 * nsfb_height nsfb \<le> nsfb_phys_linelen nsfb \<and> nsfb_phys_width nsfb = nsfb_height nsfb
      else 2 * nsfb_width nsfb \<le> nsfb_linelen nsfb)"

definition screen :: "nsfb \<Rightarrow> nsfb_bbox" where
  "screen nsfb = \<lparr>x0 = 0, y0 = 0, x1 = nsfb_width nsfb, y1 = nsfb_height nsfb\<rparr>"

definition clip_ok :: "nsfb \<Rightarrow> bool" where
  "clip_ok nsfb \<longleftrightarrow> inside (screen nsfb) (nsfb_clip nsfb)"

lemma line_address_inj:
  assumes "a * l + 2 * b = c * l + 2 * (d::int)" "0 \<le> b" "2 * b < l" "0 \<le> d" "2 * d < l"
  shows "a = c \<and> b = d"
proof -
  have "(a * l + 2 * b) div l = a" "(c * l + 2 * d) div l = c"
    using assms(2-5) by (auto simp: div_pos_pos_trivial)
  with assms(1) show ?thesis by simp
qed

text \<open>No two logical pixels of the screen share a place in video memory.\<close>

lemma get_xy_loc_inj:
  assumes "surface_ok nsfb" "(x, y) \<in> pixels (screen nsfb)" "(u, v) \<in> pixels (screen nsfb)"
    and "get_xy_loc nsfb x y = get_xy_loc nsfb u v"
  shows "x = u \<and> y = v"
proof (cases "nsfb_orientation nsfb = 1")
  case True
  with assms show ?thesis
    using line_address_inj [of x "nsfb_phys_linelen nsfb" "nsfb_phys_width nsfb - 1 - y" u
        "nsfb_phys_width nsfb - 1 - v"]
    by (simp add: get_xy_loc_eq surface_ok_def screen_def)
next
  case False
  with assms show ?thesis
    using line_address_inj [of y "nsfb_linelen nsfb" x v u]
    by (simp add: get_xy_loc_eq surface_ok_def screen_def)
qed

lemma locs_mem_iff:
  assumes "surface_ok nsfb" "S \<subseteq> pixels (screen nsfb)" "(x, y) \<in> pixels (screen nsfb)"
  shows "get_xy_loc nsfb x y \<in> locs nsfb S \<longleftrightarrow> (x, y) \<in> S"
proof
  assume "get_xy_loc nsfb x y \<in> locs nsfb S"
  then obtain u v where "(u, v) \<in> S" "get_xy_loc nsfb x y = get_xy_loc nsfb u v"
    by (auto simp: locs_def)
  with get_xy_loc_inj [OF assms(1,3), of u v] assms(2) show "(x, y) \<in> S" by blast
qed (rule locs_mem)

lemma clip_on_screen:
  "clip_ok nsfb \<Longrightarrow> bbox_ok (nsfb_clip nsfb) \<and> pixels (nsfb_clip nsfb) \<subseteq> pixels (screen nsfb)"
  using inside_pixels by (auto simp: clip_ok_def inside_def bbox_ok_def)

section \<open>Colours and pixels\<close>

definition pixel_to_colour :: "nsfb \<Rightarrow> 16 word \<Rightarrow> nsfb_colour" where
  "pixel_to_colour nsfb pixel = (let pixel = ucast pixel :: 32 word in
     push_bit 19 (pixel AND 0x1F) OR push_bit 5 (pixel AND 0x7E0) OR drop_bit 8 (pixel AND 0xF800))"

definition colour_to_pixel :: "nsfb \<Rightarrow> nsfb_colour \<Rightarrow> 16 word" where
  "colour_to_pixel nsfb c =
     ucast (push_bit 8 (c AND 0xF8) OR drop_bit 5 (c AND 0xFC00) OR drop_bit 19 (c AND 0xF80000))"

lemma colour_masks:
  "(0x1F :: 32 word) = mask 5" "(0x7E0 :: 32 word) = push_bit 5 (mask 6)"
  "(0xF800 :: 32 word) = push_bit 11 (mask 5)" "(0xF8 :: 32 word) = push_bit 3 (mask 5)"
  "(0xFC00 :: 32 word) = push_bit 10 (mask 6)" "(0xF80000 :: 32 word) = push_bit 19 (mask 5)"
  by (simp_all add: mask_eq_exp_minus_1 push_bit_eq_mult)

lemma colour_to_pixel_bit:
  "bit (colour_to_pixel nsfb c) n \<longleftrightarrow>
     (n < 5 \<and> bit c (n + 19)) \<or> (5 \<le> n \<and> n < 11 \<and> bit c (n + 5)) \<or> (11 \<le> n \<and> n < 16 \<and> bit c (n - 8))"
proof -
  have "bit (push_bit 8 (c AND 0xF8)) n \<longleftrightarrow> 11 \<le> n \<and> n < 16 \<and> bit c (n - 8)"
    unfolding colour_masks by (auto simp: bit_simps)
  moreover have "bit (drop_bit 5 (c AND 0xFC00)) n \<longleftrightarrow> 5 \<le> n \<and> n < 11 \<and> bit c (n + 5)"
    unfolding colour_masks by (auto simp: bit_simps add.commute)
  moreover have "bit (drop_bit 19 (c AND 0xF80000)) n \<longleftrightarrow> n < 5 \<and> bit c (n + 19)"
    unfolding colour_masks by (auto simp: bit_simps add.commute)
  ultimately show ?thesis
    unfolding colour_to_pixel_def by (auto simp: bit_ucast_iff bit_or_iff)
qed

lemma pixel_to_colour_bit:
  "bit (pixel_to_colour nsfb p) n \<longleftrightarrow>
     (3 \<le> n \<and> n < 8 \<and> bit p (n + 8)) \<or> (10 \<le> n \<and> n < 16 \<and> bit p (n - 5))
       \<or> (19 \<le> n \<and> n < 24 \<and> bit p (n - 19))"
proof -
  let ?p = "ucast p :: 32 word"
  have "bit (push_bit 19 (?p AND 0x1F)) n \<longleftrightarrow> 19 \<le> n \<and> n < 24 \<and> bit p (n - 19)"
    unfolding colour_masks by (auto simp: bit_simps)
  moreover have "bit (push_bit 5 (?p AND 0x7E0)) n \<longleftrightarrow> 10 \<le> n \<and> n < 16 \<and> bit p (n - 5)"
    unfolding colour_masks by (auto simp: bit_simps)
  moreover have "bit (drop_bit 8 (?p AND 0xF800)) n \<longleftrightarrow> 3 \<le> n \<and> n < 8 \<and> bit p (n + 8)"
    unfolding colour_masks by (auto simp: bit_simps add.commute)
  ultimately show ?thesis
    unfolding pixel_to_colour_def Let_def bit_or_iff by blast
qed

lemma pixel_round_trip: "colour_to_pixel nsfb (pixel_to_colour nsfb p) = p"
proof (rule bit_word_eqI)
  fix n assume "n < LENGTH(16)"
  then consider "n < 5" | m where "n = 5 + m" "m < 6" | m where "n = 11 + m" "m < 5"
    using le_Suc_ex [of 5 n] le_Suc_ex [of 11 n] by force
  then show "bit (colour_to_pixel nsfb (pixel_to_colour nsfb p)) n \<longleftrightarrow> bit p n"
    by cases (simp_all add: colour_to_pixel_bit pixel_to_colour_bit)
qed

lemma colour_round_trip: "pixel_to_colour nsfb (colour_to_pixel nsfb c) = c AND 0xF8FCF8"
proof (rule bit_word_eqI)
  fix n assume "n < LENGTH(32)"
  have m: "(0xF8FCF8 :: 32 word) = push_bit 3 (mask 5) OR push_bit 10 (mask 6) OR push_bit 19 (mask 5)"
    by (simp add: mask_eq_exp_minus_1 push_bit_eq_mult)
  have "bit (0xF8FCF8 :: 32 word) n \<longleftrightarrow> (3 \<le> n \<and> n < 8) \<or> (10 \<le> n \<and> n < 16) \<or> (19 \<le> n \<and> n < 24)"
    unfolding m by (auto simp: bit_simps)
  moreover consider "n < 3" | "3 \<le> n" "n < 8" | "8 \<le> n" "n < 10"
    | m where "n = 10 + m" "m < 6" | "16 \<le> n" "n < 19" | m where "n = 19 + m" "m < 5" | "24 \<le> n"
    using le_Suc_ex [of 10 n] le_Suc_ex [of 19 n] by force
  then have "bit (pixel_to_colour nsfb (colour_to_pixel nsfb c)) n \<longleftrightarrow>
      bit c n \<and> ((3 \<le> n \<and> n < 8) \<or> (10 \<le> n \<and> n < 16) \<or> (19 \<le> n \<and> n < 24))"
    by cases (simp_all add: colour_to_pixel_bit pixel_to_colour_bit add.commute)
  ultimately show "bit (pixel_to_colour nsfb (colour_to_pixel nsfb c)) n \<longleftrightarrow> bit (c AND 0xF8FCF8) n"
    by (simp only: bit_and_iff)
qed

section \<open>Filling a rectangle\<close>

text \<open>A 32-bit store writes two pixels, the low half first (little endian).\<close>

definition store32 :: "int \<Rightarrow> 32 word \<Rightarrow> (int \<Rightarrow> 16 word) \<Rightarrow> int \<Rightarrow> 16 word" where
  "store32 p v m = m(p := ucast v, p + 2 := ucast (drop_bit 16 v))"

text \<open>\<open>n\<close> copies of \<^verbatim>\<open>*pvid32++ = ent32\<close>: the end pointer and the memory.\<close>

fun store32_run :: "nat \<Rightarrow> 32 word \<Rightarrow> int \<times> (int \<Rightarrow> 16 word) \<Rightarrow> int \<times> (int \<Rightarrow> 16 word)" where
  "store32_run 0 ent (p, m) = (p, m)"
| "store32_run (Suc n) ent (p, m) = store32_run n ent (p + 4, store32 p ent m)"

text \<open>\<^verbatim>\<open>while (w >= k) { k stores; w -= k; }\<close>\<close>

function fill_block ::
  "nat \<Rightarrow> 32 word \<Rightarrow> nat \<times> int \<times> (int \<Rightarrow> 16 word) \<Rightarrow> nat \<times> int \<times> (int \<Rightarrow> 16 word)" where
  "fill_block k ent (w, p, m) =
     (if 0 < k \<and> k \<le> w then let (p, m) = store32_run k ent (p, m) in fill_block k ent (w - k, p, m)
      else (w, p, m))"
  by pat_completeness auto
termination by (relation "measure (\<lambda>(k, ent, w, p, m). w)") auto

declare fill_block.simps [simp del]

definition fill_row32 :: "32 word \<Rightarrow> nat \<Rightarrow> int \<Rightarrow> (int \<Rightarrow> 16 word) \<Rightarrow> int \<times> (int \<Rightarrow> 16 word)" where
  "fill_row32 ent w p m =
     snd (fill_block 1 ent (fill_block 4 ent (fill_block 16 ent (w, p, m))))"

fun fill_rows32 ::
  "nat \<Rightarrow> nat \<Rightarrow> int \<Rightarrow> 32 word \<Rightarrow> int \<Rightarrow> (int \<Rightarrow> 16 word) \<Rightarrow> int \<Rightarrow> 16 word" where
  "fill_rows32 0 width llen ent p m = m"
| "fill_rows32 (Suc height) width llen ent p m =
     (let (p, m) = fill_row32 ent width p m in fill_rows32 height width llen ent (p + 4 * llen) m)"

fun fill_row16 :: "nat \<Rightarrow> 16 word \<Rightarrow> int \<Rightarrow> (int \<Rightarrow> 16 word) \<Rightarrow> int \<times> (int \<Rightarrow> 16 word)" where
  "fill_row16 0 ent p m = (p, m)"
| "fill_row16 (Suc w) ent p m = fill_row16 w ent (p + 2) (m(p := ent))"

fun fill_rows16 ::
  "nat \<Rightarrow> nat \<Rightarrow> int \<Rightarrow> 16 word \<Rightarrow> int \<Rightarrow> (int \<Rightarrow> 16 word) \<Rightarrow> int \<Rightarrow> 16 word" where
  "fill_rows16 0 width llen ent p m = m"
| "fill_rows16 (Suc height) width llen ent p m =
     (let (p, m) = fill_row16 width ent p m in fill_rows16 height width llen ent (p + 2 * llen) m)"

definition fill :: "nsfb \<Rightarrow> nsfb_bbox \<Rightarrow> nsfb_colour \<Rightarrow> bool \<times> nsfb_bbox \<times> nsfb" where
  "fill nsfb rect c = (let (vis, rect) = nsfb_plot_clip_ctx nsfb rect in
     if \<not> vis then (True, rect, nsfb)
     else let
       ent16 = colour_to_pixel nsfb c;
       width = nat (x1 rect - x0 rect);
       height = nat (y1 rect - y0 rect)
     in if nsfb_orientation nsfb = 1 then
       (True, rect, nsfb\<lparr>nsfb_vram :=
         for_int (y0 rect) (y1 rect) (\<lambda>y. for_int (x0 rect) (x1 rect) (\<lambda>x m.
           m(get_xy_loc nsfb x y := ent16))) (nsfb_vram nsfb)\<rparr>)
     else let pvid = get_xy_loc nsfb (x0 rect) (y0 rect) in
       if x0 rect AND 1 = 0 \<and> width AND 1 = 0 then let
         width = drop_bit 1 width;
         llen = drop_bit 2 (nsfb_linelen nsfb) - int width;
         ent32 = ucast ent16 OR push_bit 16 (ucast ent16)
       in (True, rect, nsfb\<lparr>nsfb_vram := fill_rows32 height width llen ent32 pvid (nsfb_vram nsfb)\<rparr>)
       else let llen = drop_bit 1 (nsfb_linelen nsfb) - int width
       in (True, rect, nsfb\<lparr>nsfb_vram := fill_rows16 height width llen ent16 pvid (nsfb_vram nsfb)\<rparr>))"

text \<open>The \<open>n\<close> pixels from address \<open>p\<close> on.\<close>

definition halves :: "int \<Rightarrow> nat \<Rightarrow> int set" where
  "halves p n = {p + 2 * int i | i. i < n}"

lemma halves_0 [simp]: "halves p 0 = {}"
  by (simp add: halves_def)

lemma halves_add: "halves p (m + n) = halves p m \<union> halves (p + 2 * int m) n"
proof (intro equalityI subsetI)
  fix a assume "a \<in> halves p (m + n)"
  then obtain i where i: "a = p + 2 * int i" "i < m + n" by (auto simp: halves_def)
  show "a \<in> halves p m \<union> halves (p + 2 * int m) n"
  proof (cases "i < m")
    case False
    then have "a = p + 2 * int m + 2 * int (i - m)" "i - m < n" using i by auto
    then show ?thesis unfolding halves_def by blast
  qed (use i in \<open>auto simp: halves_def\<close>)
next
  fix a assume "a \<in> halves p m \<union> halves (p + 2 * int m) n"
  then consider i where "a = p + 2 * int i" "i < m" | i where "a = p + 2 * int m + 2 * int i" "i < n"
    by (auto simp: halves_def)
  then show "a \<in> halves p (m + n)"
  proof cases
    case 2
    then have "a = p + 2 * int (m + i)" "m + i < m + n" by auto
    then show ?thesis unfolding halves_def by blast
  qed (auto simp: halves_def)
qed

lemma halves_1 [simp]: "halves p (Suc 0) = {p}"
  by (auto simp: halves_def)

lemma store32_pair:
  "store32 p (ucast e OR push_bit 16 (ucast (e :: 16 word))) m = fill_set (halves p 2) e m"
proof -
  have "ucast (ucast e OR push_bit 16 (ucast e) :: 32 word) = e"
    by (rule bit_word_eqI) (auto simp: bit_simps)
  moreover have "ucast (drop_bit 16 (ucast e OR push_bit 16 (ucast e) :: 32 word)) = e"
    by (rule bit_word_eqI) (auto simp: bit_simps dest: bit_imp_le_length)
  moreover have "halves p 2 = {p, p + 2}"
    using halves_add [of p 1 1] by (auto simp: numeral_2_eq_2)
  ultimately show ?thesis by (auto simp: store32_def fill_set_def)
qed

lemma store32_run_eq:
  "store32_run n (ucast e OR push_bit 16 (ucast (e :: 16 word))) (p, m)
     = (p + 4 * int n, fill_set (halves p (2 * n)) e m)"
proof (induction n arbitrary: p m)
  case (Suc n)
  have "halves p (2 * Suc n) = halves (p + 4) (2 * n) \<union> halves p 2"
    using halves_add [of p 2 "2 * n"] by auto
  then show ?case by (simp add: Suc store32_pair fill_set_union)
qed simp

lemma fill_block_eq:
  "0 < k \<Longrightarrow> fill_block k (ucast e OR push_bit 16 (ucast (e :: 16 word))) (w, p, m)
     = (w mod k, p + 4 * int (w - w mod k), fill_set (halves p (2 * (w - w mod k))) e m)"
proof (induction w arbitrary: p m rule: less_induct)
  case (less w)
  show ?case
  proof (cases "k \<le> w")
    case True
    have mod: "(w - k) mod k = w mod k" using True by (simp add: le_mod_geq)
    have le: "w mod k \<le> w - k"
      using mod mod_less_eq_dividend [of "w - k" k] by simp
    then have "w - w mod k = k + (w - k - w mod k)" using True by simp
    then have split: "halves p (2 * (w - w mod k)) = halves (p + 4 * int k) (2 * (w - k - w mod k)) \<union> halves p (2 * k)"
      "p + 4 * int (w - w mod k) = p + 4 * int k + 4 * int (w - k - w mod k)"
      using halves_add [of p "2 * k" "2 * (w - k - w mod k)"] by (auto simp: distrib_left)
    have "w - k < w" using True less.prems by simp
    from less.IH [OF this less.prems] show ?thesis
      unfolding split using True less.prems
      by (subst fill_block.simps) (simp add: store32_run_eq mod fill_set_union)
  next
    case False
    then show ?thesis by (simp add: fill_block.simps)
  qed
qed

lemma fill_row32_eq:
  "fill_row32 (ucast e OR push_bit 16 (ucast (e :: 16 word))) w p m
     = (p + 4 * int w, fill_set (halves p (2 * w)) e m)"
proof -
  define a where "a = w - w mod 16"
  define r where "r = w mod 16"
  define b where "b = r - r mod 4"
  define c where "c = r mod 4"
  have w: "w = a + (b + c)" unfolding a_def b_def c_def r_def
    using mod_less_eq_dividend [of w 16] mod_less_eq_dividend [of "w mod 16" 4] by linarith
  have parts: "w mod 16 = r" "r mod 4 = c" "w - r = a" "r - c = b" "c - c mod 1 = c"
    by (simp_all add: a_def b_def c_def r_def)
  have "halves p (2 * w) = halves p (2 * a + (2 * b + 2 * c))" by (simp add: w distrib_left)
  also have "\<dots> = halves (p + 4 * int a + 4 * int b) (2 * c) \<union> (halves (p + 4 * int a) (2 * b) \<union> halves p (2 * a))"
    by (simp only: halves_add) (auto simp: algebra_simps)
  finally have h: "halves p (2 * w) = \<dots>" .
  show ?thesis
    unfolding fill_row32_def h
    by (simp add: fill_block_eq fill_set_union parts) (simp add: w)
qed

lemma fill_row16_eq: "fill_row16 w e p m = (p + 2 * int w, fill_set (halves p w) e m)"
proof (induction w arbitrary: p m)
  case (Suc w)
  have "halves p (Suc w) = halves (p + 2) w \<union> {p}" using halves_add [of p 1 w] by auto
  then show ?case by (simp add: Suc fill_set_upd fill_set_union)
qed simp

text \<open>Rows of pixels laid \<open>l\<close> bytes apart.\<close>

lemma fill_rows16_eq:
  "fill_rows16 height width llen e p m =
     fill_set (\<Union>i<height. halves (p + int i * (2 * int width + 2 * llen)) width) e m"
proof (induction height arbitrary: p m)
  case (Suc h)
  let ?l = "2 * int width + 2 * llen"
  have "(\<Union>i<Suc h. halves (p + int i * ?l) width)
      = (\<Union>i<h. halves (p + ?l + int i * ?l) width) \<union> halves p width"
    by (subst lessThan_Suc_eq_insert_0) (auto simp: algebra_simps)
  then show ?case
    by (simp add: Suc fill_row16_eq fill_set_union add.assoc)
qed simp

lemma fill_rows32_eq:
  "fill_rows32 height width llen (ucast e OR push_bit 16 (ucast (e :: 16 word))) p m =
     fill_set (\<Union>i<height. halves (p + int i * (4 * int width + 4 * llen)) (2 * width)) e m"
proof (induction height arbitrary: p m)
  case (Suc h)
  let ?l = "4 * int width + 4 * llen"
  have "(\<Union>i<Suc h. halves (p + int i * ?l) (2 * width))
      = (\<Union>i<h. halves (p + ?l + int i * ?l) (2 * width)) \<union> halves p (2 * width)"
    by (subst lessThan_Suc_eq_insert_0) (auto simp: algebra_simps)
  then show ?case
    by (simp add: Suc fill_row32_eq fill_set_union add.assoc)
qed simp

lemma locs_portrait:
  assumes "nsfb_orientation nsfb \<noteq> 1" and "bbox_ok r"
  shows "(\<Union>i<nat (y1 r - y0 r). halves (get_xy_loc nsfb (x0 r) (y0 r) + int i * nsfb_linelen nsfb)
            (nat (x1 r - x0 r))) = locs nsfb (pixels r)"
proof (intro equalityI subsetI)
  fix a assume "a \<in> (\<Union>i<nat (y1 r - y0 r). halves (get_xy_loc nsfb (x0 r) (y0 r) + int i * nsfb_linelen nsfb)
            (nat (x1 r - x0 r)))"
  then obtain i j where "i < nat (y1 r - y0 r)" "j < nat (x1 r - x0 r)"
    "a = get_xy_loc nsfb (x0 r) (y0 r) + int i * nsfb_linelen nsfb + 2 * int j"
    by (auto simp: halves_def)
  then have "a = get_xy_loc nsfb (x0 r + int j) (y0 r + int i)"
    "(x0 r + int j, y0 r + int i) \<in> pixels r"
    using assms(1) by (auto simp: get_xy_loc_eq algebra_simps)
  then show "a \<in> locs nsfb (pixels r)" by (auto intro: locs_mem)
next
  fix a assume "a \<in> locs nsfb (pixels r)"
  then obtain x y where xy: "(x, y) \<in> pixels r" "a = get_xy_loc nsfb x y"
    by (auto simp: locs_def)
  then have "a = get_xy_loc nsfb (x0 r) (y0 r) + int (nat (y - y0 r)) * nsfb_linelen nsfb + 2 * int (nat (x - x0 r))"
    using assms(1) by (simp add: get_xy_loc_eq algebra_simps)
  moreover have "nat (y - y0 r) < nat (y1 r - y0 r)" "nat (x - x0 r) < nat (x1 r - x0 r)"
    using xy by auto
  ultimately show "a \<in> (\<Union>i<nat (y1 r - y0 r). halves (get_xy_loc nsfb (x0 r) (y0 r) + int i * nsfb_linelen nsfb)
            (nat (x1 r - x0 r)))"
    unfolding halves_def by blast
qed

lemma locs_UN: "(\<Union>y\<in>{y0 r..<y1 r}. \<Union>x\<in>{x0 r..<x1 r}. {get_xy_loc nsfb x y}) = locs nsfb (pixels r)"
  by (force simp: locs_def pixels_def)

lemma fill_landscape:
  "for_int (y0 r) (y1 r) (\<lambda>y. for_int (x0 r) (x1 r) (\<lambda>x m. m(get_xy_loc nsfb x y := e))) m
     = fill_set (locs nsfb (pixels r)) e m"
proof -
  have "for_int (x0 r) (x1 r) (\<lambda>x m. m(get_xy_loc nsfb x y := e)) m
      = fill_set (\<Union>x\<in>{x0 r..<x1 r}. {get_xy_loc nsfb x y}) e m" for y m
    by (rule for_int_fill_set) (simp add: fill_set_upd)
  then have "for_int (y0 r) (y1 r) (\<lambda>y. for_int (x0 r) (x1 r) (\<lambda>x m. m(get_xy_loc nsfb x y := e))) m
      = fill_set (\<Union>y\<in>{y0 r..<y1 r}. \<Union>x\<in>{x0 r..<x1 r}. {get_xy_loc nsfb x y}) e m"
    by (rule for_int_fill_set)
  then show ?thesis by (simp only: locs_UN)
qed

text \<open>Both orientations and both portrait loops fill the same set of pixels.\<close>

lemma fill_vram:
  assumes "bbox_ok (nsfb_clip nsfb)" "4 dvd nsfb_linelen nsfb"
    and "fill nsfb rect c = (ok, r, nsfb')"
  shows "ok \<and> nsfb' = nsfb\<lparr>nsfb_vram :=
     fill_set (locs nsfb (pixels (nsfb_clip nsfb) \<inter> pixels (bbox_order rect)))
       (colour_to_pixel nsfb c) (nsfb_vram nsfb)\<rparr>"
proof (cases "nsfb_plot_clip (nsfb_clip nsfb) rect")
  case (Pair vis q)
  have px: "(if vis then pixels q else {}) = pixels (nsfb_clip nsfb) \<inter> pixels (bbox_order rect)"
    using nsfb_plot_clip_pixels [OF Pair] .
  show ?thesis
  proof (cases vis)
    case False
    then show ?thesis using assms(3) px Pair by (auto simp: fill_def nsfb_plot_clip_ctx_def)
  next
    case True
    have q: "bbox_ok q"
      using nsfb_plot_clip_inside [OF assms(1)] Pair True by (auto simp: inside_def bbox_ok_def)
    define w where "w = nat (x1 q - x0 q)"
    define p where "p = get_xy_loc nsfb (x0 q) (y0 q)"
    obtain l where l: "nsfb_linelen nsfb = 4 * l" using assms(2) by (auto simp: dvd_def)
    have u: "fill_set (\<Union>i<nat (y1 q - y0 q). halves (p + int i * nsfb_linelen nsfb) w) e m
        = fill_set (locs nsfb (pixels q)) e m" if "nsfb_orientation nsfb \<noteq> 1" for e :: "16 word" and m
      unfolding p_def w_def locs_portrait [OF that q] ..
    have even: "2 * drop_bit 1 w = w" if "w AND 1 = 0"
      using that by (simp add: and_one_eq drop_bit_eq_div) presburger
    have r32: "4 * int (drop_bit 1 w) + 4 * (drop_bit 2 (nsfb_linelen nsfb) - int (drop_bit 1 w)) = nsfb_linelen nsfb"
      using l by (simp add: drop_bit_eq_div)
    have r16: "2 * int w + 2 * (drop_bit 1 (nsfb_linelen nsfb) - int w) = nsfb_linelen nsfb"
      using l by (simp add: drop_bit_eq_div)
    have f32: "fill_rows32 (nat (y1 q - y0 q)) (drop_bit 1 w) (drop_bit 2 (nsfb_linelen nsfb) - int (drop_bit 1 w))
        (ucast e OR push_bit 16 (ucast e)) p m = fill_set (locs nsfb (pixels q)) e m"
      if "nsfb_orientation nsfb \<noteq> 1" "w AND 1 = 0" for e :: "16 word" and m
      by (simp only: fill_rows32_eq r32 even [OF that(2)] u [OF that(1)])
    have f16: "fill_rows16 (nat (y1 q - y0 q)) w (drop_bit 1 (nsfb_linelen nsfb) - int w) e p m
        = fill_set (locs nsfb (pixels q)) e m"
      if "nsfb_orientation nsfb \<noteq> 1" for e :: "16 word" and m
      by (simp only: fill_rows16_eq r16 u [OF that])
    have "fill nsfb rect c = (True, q, nsfb\<lparr>nsfb_vram :=
        fill_set (locs nsfb (pixels q)) (colour_to_pixel nsfb c) (nsfb_vram nsfb)\<rparr>)"
      unfolding fill_def nsfb_plot_clip_ctx_def Pair prod.case Let_def fill_landscape
        w_def [symmetric] p_def [symmetric]
      using True f32 f16 by simp
    with assms(3) px True show ?thesis by auto
  qed
qed

section \<open>Single pixels and reading back\<close>

text \<open>\<^verbatim>\<open>pvideo += n\<close> on a pointer to 16-bit pixels, and \<^verbatim>\<open>PLOT_LINELEN\<close>.\<close>

definition PLOT_LINELEN :: "int \<Rightarrow> int" where
  "PLOT_LINELEN ll = drop_bit 1 ll"

abbreviation pvideo_add :: "int \<Rightarrow> int \<Rightarrow> int" where
  "pvideo_add p n \<equiv> p + 2 * n"

lemma PLOT_LINELEN_eq: "2 dvd ll \<Longrightarrow> 2 * PLOT_LINELEN ll = ll"
  by (auto simp: PLOT_LINELEN_def drop_bit_eq_div)

text \<open>
  The body the plotters share: blend \<open>c\<close> over the pixel at \<open>p\<close> unless it is
  fully transparent or fully opaque.
\<close>

definition plot_alpha :: "nsfb \<Rightarrow> nsfb_colour \<Rightarrow> int \<Rightarrow> (int \<Rightarrow> 16 word) \<Rightarrow> int \<Rightarrow> 16 word" where
  "plot_alpha nsfb c p m =
     (if c AND 0xFF000000 \<noteq> 0 then
        let c = (if c AND 0xFF000000 \<noteq> 0xFF000000
                 then nsfb_plot_ablend c (pixel_to_colour nsfb (m p)) else c)
        in m(p := colour_to_pixel nsfb c)
      else m)"

definition plot_point :: "nsfb \<Rightarrow> int \<Rightarrow> int \<Rightarrow> nsfb_colour \<Rightarrow> bool \<times> nsfb" where
  "plot_point nsfb x y c =
     (if x < x0 (nsfb_clip nsfb) \<or> x \<ge> x1 (nsfb_clip nsfb)
         \<or> y < y0 (nsfb_clip nsfb) \<or> y \<ge> y1 (nsfb_clip nsfb) then (True, nsfb)
      else (True, nsfb\<lparr>nsfb_vram := plot_alpha nsfb c (get_xy_loc nsfb x y) (nsfb_vram nsfb)\<rparr>))"

lemma plot_alpha_other [simp]: "a \<noteq> p \<Longrightarrow> plot_alpha nsfb c p m a = m a"
  by (simp add: plot_alpha_def Let_def)

lemma plot_alpha_only_in [frame_rules]:
  "only_in S m m' \<Longrightarrow> p \<in> S \<Longrightarrow> only_in S m (plot_alpha nsfb c p m')"
  unfolding only_in_def by (metis plot_alpha_other)

definition readrect :: "nsfb \<Rightarrow> nsfb_bbox \<Rightarrow> bool \<times> nsfb_bbox \<times> nsfb_colour list" where
  "readrect nsfb rect = (let (vis, rect) = nsfb_plot_clip_ctx nsfb rect in
     if \<not> vis then (True, rect, [])
     else let width = x1 rect - x0 rect; height = y1 rect - y0 rect
     in if nsfb_orientation nsfb = 1 then
       (True, rect, for_int 0 height (\<lambda>yloop buffer. let cy = y0 rect + yloop in
          for_int 0 width (\<lambda>xloop buffer. let cx = x0 rect + xloop in
            buffer @ [pixel_to_colour nsfb (nsfb_vram nsfb (get_xy_loc nsfb cx cy))]) buffer) [])
     else
       (True, rect, snd (for_int 0 height (\<lambda>yloop (pvideo, buffer).
          (pvideo_add pvideo (PLOT_LINELEN (nsfb_linelen nsfb)),
           for_int 0 width (\<lambda>xloop buffer.
             buffer @ [pixel_to_colour nsfb (nsfb_vram nsfb (pvideo_add pvideo xloop))]) buffer))
         (get_xy_loc nsfb (x0 rect) (y0 rect), []))))"

text \<open>What is read: the visible part of the rectangle, row by row.\<close>

definition scan :: "nsfb \<Rightarrow> nsfb_bbox \<Rightarrow> nsfb_colour list" where
  "scan nsfb r = concat (map (\<lambda>y. map (\<lambda>x. pixel_to_colour nsfb (nsfb_vram nsfb (get_xy_loc nsfb (x0 r + x) (y0 r + y))))
     [0..x1 r - x0 r - 1]) [0..y1 r - y0 r - 1])"

lemma concat_map_single: "concat (map (\<lambda>x. [f x]) xs) = map f xs"
  by (induction xs) auto

lemma readrect_scan:
  assumes "bbox_ok (nsfb_clip nsfb)" "2 dvd nsfb_linelen nsfb"
    and "nsfb_plot_clip_ctx nsfb rect = (vis, r)"
  shows "readrect nsfb rect = (True, r, if vis then scan nsfb r else [])"
proof (cases "vis \<and> nsfb_orientation nsfb \<noteq> 1")
  case False
  then show ?thesis
    using assms(3)
    by (auto simp: readrect_def Let_def for_int_append scan_def concat_map_single)
next
  case True
  let ?p = "get_xy_loc nsfb (x0 r) (y0 r)" and ?ll = "nsfb_linelen nsfb"
  let ?w = "x1 r - x0 r" and ?h = "y1 r - y0 r"
  have h: "0 \<le> ?h"
    using nsfb_plot_clip_inside [OF assms(1)] True assms(3)
    by (auto simp: nsfb_plot_clip_ctx_def inside_def)
  have "for_int 0 ?h (\<lambda>yloop (pvideo, buffer).
          (pvideo_add pvideo (PLOT_LINELEN ?ll),
           for_int 0 ?w (\<lambda>xloop buffer.
             buffer @ [pixel_to_colour nsfb (nsfb_vram nsfb (pvideo_add pvideo xloop))]) buffer)) (?p, [])
      = (?p + (?h - 0) * ?ll, for_int 0 ?h (\<lambda>y buffer. buffer @
          map (\<lambda>x. pixel_to_colour nsfb (nsfb_vram nsfb (get_xy_loc nsfb (x0 r + x) (y0 r + y)))) [0..?w - 1]) [])"
  proof (rule for_int_cursor [OF _ h])
    fix i buffer assume "0 \<le> i" "i < ?h"
    have "?p + i * ?ll + 2 * x = get_xy_loc nsfb (x0 r + x) (y0 r + i)" for x
      using True by (simp add: get_xy_loc_eq algebra_simps)
    then show "(case (?p + (i - 0) * ?ll, buffer) of (pvideo, buffer) \<Rightarrow>
          (pvideo_add pvideo (PLOT_LINELEN ?ll),
           for_int 0 ?w (\<lambda>xloop buffer.
             buffer @ [pixel_to_colour nsfb (nsfb_vram nsfb (pvideo_add pvideo xloop))]) buffer))
        = (?p + (i - 0) * ?ll + ?ll, buffer @
          map (\<lambda>x. pixel_to_colour nsfb (nsfb_vram nsfb (get_xy_loc nsfb (x0 r + x) (y0 r + i)))) [0..?w - 1])"
      by (simp add: PLOT_LINELEN_eq [OF assms(2)] for_int_append concat_map_single)
  qed
  then show ?thesis
    using assms(3) True by (simp add: readrect_def Let_def for_int_append scan_def)
qed

lemma set_scan:
  "set (scan nsfb r) = (\<lambda>(x, y). pixel_to_colour nsfb (nsfb_vram nsfb (get_xy_loc nsfb x y))) ` pixels r"
proof (intro equalityI subsetI)
  fix c assume "c \<in> (\<lambda>(x, y). pixel_to_colour nsfb (nsfb_vram nsfb (get_xy_loc nsfb x y))) ` pixels r"
  then obtain x y where "(x, y) \<in> pixels r"
    and c: "c = pixel_to_colour nsfb (nsfb_vram nsfb (get_xy_loc nsfb (x0 r + (x - x0 r)) (y0 r + (y - y0 r))))"
    by auto
  then have "x - x0 r \<in> set [0..x1 r - x0 r - 1]" "y - y0 r \<in> set [0..y1 r - y0 r - 1]" by auto
  with c show "c \<in> set (scan nsfb r)"
    by (auto simp: scan_def intro!: bexI [of _ "y - y0 r"] image_eqI [of _ _ "x - x0 r"])
next
  fix c assume "c \<in> set (scan nsfb r)"
  then obtain x y where "0 \<le> y" "y < y1 r - y0 r" "0 \<le> x" "x < x1 r - x0 r"
    and c: "c = pixel_to_colour nsfb (nsfb_vram nsfb (get_xy_loc nsfb (x0 r + x) (y0 r + y)))"
    by (auto simp: scan_def)
  then have "(x0 r + x, y0 r + y) \<in> pixels r" by simp
  with c show "c \<in> (\<lambda>(x, y). pixel_to_colour nsfb (nsfb_vram nsfb (get_xy_loc nsfb x y))) ` pixels r"
    by (intro image_eqI [of _ _ "(x0 r + x, y0 r + y)"]) simp_all
qed

lemma length_scan: "bbox_ok r \<Longrightarrow> length (scan nsfb r) = nat (x1 r - x0 r) * nat (y1 r - y0 r)"
  by (simp add: scan_def length_concat o_def sum_list_triv bbox_ok_def mult.commute)

section \<open>Properties\<close>

text \<open>
  C4.  Filling a rectangle sets every pixel in its visible part to the colour and
  changes nothing else, in both orientations: the loop over rotated pixels, the
  unrolled 32-bit loop and the 16-bit loop all fill exactly the clipped rectangle.
\<close>

theorem fill_exact:
  assumes "clip_ok nsfb" "surface_ok nsfb" and "fill nsfb rect c = (ok, r, nsfb')"
    and "(x, y) \<in> pixels (screen nsfb)"
  shows "ok \<and> nsfb_vram nsfb' (get_xy_loc nsfb x y) =
    (if (x, y) \<in> pixels (nsfb_clip nsfb) \<inter> pixels (bbox_order rect) then colour_to_pixel nsfb c
     else nsfb_vram nsfb (get_xy_loc nsfb x y))"
proof -
  let ?S = "pixels (nsfb_clip nsfb) \<inter> pixels (bbox_order rect)"
  have clip: "bbox_ok (nsfb_clip nsfb)" "?S \<subseteq> pixels (screen nsfb)"
    using clip_on_screen [OF assms(1)] by auto
  have v: "ok \<and> nsfb' = nsfb\<lparr>nsfb_vram := fill_set (locs nsfb ?S) (colour_to_pixel nsfb c) (nsfb_vram nsfb)\<rparr>"
    using fill_vram [OF clip(1) _ assms(3)] assms(2) by (simp add: surface_ok_def)
  with locs_mem_iff [OF assms(2) clip(2) assms(4)] show ?thesis by (simp add: fill_set_def)
qed

definition surface_example :: "int \<Rightarrow> nsfb" where
  "surface_example orientation = \<lparr>nsfb_width = 4, nsfb_height = 4, nsfb_format = NSFB_FMT_RGB565,
     nsfb_bpp = 16, nsfb_ptr = 1000, nsfb_linelen = 8, nsfb_palette = None,
     nsfb_clip = \<lparr>x0 = 0, y0 = 0, x1 = 4, y1 = 4\<rparr>, nsfb_plotter_fns = Some Plotters_16bpp, nsfb_orientation = orientation,
     nsfb_phys_width = 4, nsfb_phys_height = 4, nsfb_phys_linelen = 8, nsfb_vram = (\<lambda>_. 0)\<rparr>"

lemma surface_example_ok [simp]:
  "clip_ok (surface_example orientation)" "surface_ok (surface_example orientation)"
  by (simp_all add: surface_example_def clip_ok_def surface_ok_def inside_def screen_def)

lemma fill_exact_witness:
  "let nsfb = surface_example 1; r = \<lparr>x0 = 3, y0 = 1, x1 = 1, y1 = 9\<rparr>;
       nsfb' = snd (snd (fill nsfb r 0xFFFFFF))
   in nsfb_vram nsfb' (get_xy_loc nsfb 2 3) = 0xFFFF \<and> nsfb_vram nsfb' (get_xy_loc nsfb 3 3) = 0"
proof -
  let ?n = "surface_example 1" and ?r = "\<lparr>x0 = 3, y0 = 1, x1 = 1, y1 = 9\<rparr>"
  obtain ok q n' where f: "fill ?n ?r 0xFFFFFF = (ok, q, n')" using prod_cases3 by blast
  have white: "colour_to_pixel n 0xFFFFFF = 0xFFFF" for n
    by (simp add: colour_to_pixel_def drop_bit_eq_div push_bit_eq_mult ucast_eq)
  show ?thesis
    using fill_exact [OF surface_example_ok f, of 2 3] fill_exact [OF surface_example_ok f, of 3 3]
    by (simp add: f white screen_def bbox_order_def) (simp add: surface_example_def white)
qed

text \<open>
  Colours survive the trip through the framebuffer: reading back any
  rectangle inside a filled one gives, for each of its pixels, the fill colour
  with the low bits of its channels cleared; reading and writing a pixel is the
  identity.
\<close>

theorem fill_readrect:
  assumes "clip_ok nsfb" "surface_ok nsfb" and "fill nsfb rect c = (ok, r, nsfb')"
    and "inside (nsfb_clip nsfb) r'" "pixels r' \<subseteq> pixels (bbox_order rect)"
    and "x0 r' < x1 r'" "y0 r' < y1 r'"
  shows "readrect nsfb' r' =
      (True, r', replicate (nat (x1 r' - x0 r') * nat (y1 r' - y0 r')) (c AND 0xF8FCF8))
    \<and> colour_to_pixel nsfb (pixel_to_colour nsfb p) = p"
proof -
  let ?S = "pixels (nsfb_clip nsfb) \<inter> pixels (bbox_order rect)"
  have clip: "bbox_ok (nsfb_clip nsfb)" and ll: "4 dvd nsfb_linelen nsfb"
    using assms(1,2) by (auto simp: clip_ok_def inside_def bbox_ok_def surface_ok_def)
  have n: "nsfb' = nsfb\<lparr>nsfb_vram := fill_set (locs nsfb ?S) (colour_to_pixel nsfb c) (nsfb_vram nsfb)\<rparr>"
    using fill_vram [OF clip ll assms(3)] by simp
  have "nsfb_plot_clip_ctx nsfb' r' = (True, r')"
    using nsfb_plot_clip_idem [OF assms(4,6,7)] by (simp add: nsfb_plot_clip_ctx_def n)
  moreover have "2 dvd nsfb_linelen nsfb'" using ll by (auto simp: n dvd_def)
  ultimately have scan: "readrect nsfb' r' = (True, r', scan nsfb' r')"
    using readrect_scan [of nsfb' r' True r'] clip by (simp add: n)
  have px: "pixels r' \<subseteq> ?S" using assms(5) inside_pixels [OF assms(4)] by blast
  have "pixel_to_colour nsfb' (nsfb_vram nsfb' (get_xy_loc nsfb' x y)) = c AND 0xF8FCF8"
    if "(x, y) \<in> pixels r'" for x y
  proof -
    have "get_xy_loc nsfb x y \<in> locs nsfb ?S" using that px by (intro locs_mem) blast
    moreover have "get_xy_loc nsfb' x y = get_xy_loc nsfb x y" by (simp add: n get_xy_loc_def)
    moreover have "pixel_to_colour nsfb' = pixel_to_colour nsfb" by (simp add: pixel_to_colour_def fun_eq_iff)
    ultimately show ?thesis by (simp add: n fill_set_def colour_round_trip)
  qed
  then have "set (scan nsfb' r') \<subseteq> {c AND 0xF8FCF8}" by (auto simp: set_scan)
  then have "scan nsfb' r' = replicate (length (scan nsfb' r')) (c AND 0xF8FCF8)"
    by (metis (no_types, lifting) replicate_eqI singletonD subsetD)
  moreover have "bbox_ok r'" using assms(4) by (simp add: inside_def bbox_ok_def)
  ultimately have "readrect nsfb' r' =
      (True, r', replicate (nat (x1 r' - x0 r') * nat (y1 r' - y0 r')) (c AND 0xF8FCF8))"
    using scan length_scan [of r' nsfb'] by simp
  with pixel_round_trip show ?thesis by blast
qed

lemma fill_readrect_witness:
  "let nsfb = surface_example 0; r = \<lparr>x0 = 0, y0 = 1, x1 = 3, y1 = 4\<rparr>; r' = \<lparr>x0 = 1, y0 = 1, x1 = 3, y1 = 3\<rparr>;
       nsfb' = snd (snd (fill nsfb r 0xABCDEF))
   in readrect nsfb' r' = (True, r', replicate 4 0xA8CCE8)"
proof -
  let ?n = "surface_example 0" and ?r = "\<lparr>x0 = 0, y0 = 1, x1 = 3, y1 = 4\<rparr>"
    and ?q = "\<lparr>x0 = 1, y0 = 1, x1 = 3, y1 = 3\<rparr>"
  obtain ok q n where f: "fill ?n ?r 0xABCDEF = (ok, q, n)" using prod_cases3 by blast
  have "inside (nsfb_clip ?n) ?q" by (simp add: surface_example_def inside_def)
  moreover have "pixels ?q \<subseteq> pixels (bbox_order ?r)" by (auto simp: bbox_order_def)
  ultimately show ?thesis
    using fill_readrect [OF surface_example_ok f, of ?q] f by simp
qed

end
