(* ===== verification/Plot_Clip.thy ===== *)
theory Plot_Clip
  imports Plot_16bpp
begin

text \<open>
  The part of \<^verbatim>\<open>libnsfb/src/plot/generic.c\<close> that sets up a context: choosing the plotters
  for a format, the clipping rectangle, clearing the screen, and copying an
  area.
\<close>

definition screen_area :: "nsfb \<Rightarrow> nsfb_bbox" where
  "screen_area nsfb = \<lparr>x0 = 0, y0 = 0, x1 = nsfb_width nsfb, y1 = nsfb_height nsfb\<rparr>"

lemma screen_area_eq [simp]: "screen_area nsfb = screen nsfb"
  by (simp add: screen_area_def screen_def)

text \<open>The caller's box is updated too, except that \<^const>\<open>None\<close> stands for a null pointer.\<close>

definition set_clip :: "nsfb \<Rightarrow> nsfb_bbox option \<Rightarrow> bool \<times> nsfb_bbox option \<times> nsfb" where
  "set_clip nsfb clip = (let fbarea = screen_area nsfb in
     case clip of None \<Rightarrow> (True, None, nsfb\<lparr>nsfb_clip := fbarea\<rparr>)
     | Some box \<Rightarrow> (let (vis, box) = nsfb_plot_clip fbarea box in
         if \<not> vis then (False, Some box, nsfb) else (True, Some box, nsfb\<lparr>nsfb_clip := box\<rparr>)))"

definition get_clip :: "nsfb \<Rightarrow> nsfb_bbox" where
  "get_clip nsfb = nsfb_clip nsfb"

text \<open>The box passed to \<open>fill\<close> is the context's own clipping rectangle.\<close>

definition clg :: "nsfb \<Rightarrow> nsfb_colour \<Rightarrow> bool \<times> nsfb" where
  "clg nsfb c = (let (ok, rect, nsfb) = fill nsfb (nsfb_clip nsfb) c in (ok, nsfb\<lparr>nsfb_clip := rect\<rparr>))"

text \<open>
  \<open>select_plotters\<close>, in the configuration of the build (24 and 1 bit formats
  disabled); freeing the old table is not observable.
\<close>

definition plotters_of :: "nsfb_format \<Rightarrow> (plotter_table \<times> int) option" where
  "plotters_of format = (case format of
       NSFB_FMT_XBGR8888 \<Rightarrow> Some (Plotters_32bpp_xbgr8888, 32)
     | NSFB_FMT_ABGR8888 \<Rightarrow> Some (Plotters_32bpp_xbgr8888, 32)
     | NSFB_FMT_XRGB8888 \<Rightarrow> Some (Plotters_32bpp_xrgb8888, 32)
     | NSFB_FMT_ARGB8888 \<Rightarrow> Some (Plotters_32bpp_xrgb8888, 32)
     | NSFB_FMT_ARGB1555 \<Rightarrow> Some (Plotters_16bpp, 16)
     | NSFB_FMT_RGB565 \<Rightarrow> Some (Plotters_16bpp, 16)
     | NSFB_FMT_I8 \<Rightarrow> Some (Plotters_8bpp, 8)
     | _ \<Rightarrow> None)"

definition select_plotters :: "heap \<Rightarrow> nsfb \<Rightarrow> bool \<times> nsfb \<times> heap" where
  "select_plotters h nsfb = (case plotters_of (nsfb_format nsfb) of
     None \<Rightarrow> (False, nsfb, h)
   | Some (table, bpp) \<Rightarrow> (let nsfb = nsfb\<lparr>nsfb_bpp := bpp\<rparr>; (ok, h) = alloc h in
       if \<not> ok then (False, nsfb\<lparr>nsfb_plotter_fns := None\<rparr>, h)
       else (True, nsfb\<lparr>nsfb_plotter_fns := Some table,
               nsfb_clip := \<lparr>x0 = 0, y0 = 0, x1 = nsfb_width nsfb, y1 = nsfb_height nsfb\<rparr>\<rparr>, h)))"

text \<open>The clipping rectangle always lies on the screen.\<close>

lemma set_clip_ok:
  assumes "set_clip nsfb clip = (ok, box, nsfb')" "clip_ok nsfb" "bbox_ok (screen nsfb)"
  shows "clip_ok nsfb'"
proof (cases clip)
  case None
  with assms show ?thesis
    by (auto simp: set_clip_def clip_ok_def inside_def screen_def bbox_ok_def)
next
  case (Some b)
  obtain vis r where p: "nsfb_plot_clip (screen nsfb) b = (vis, r)" by force
  with Some assms nsfb_plot_clip_inside [OF assms(3), of b r] show ?thesis
    by (auto simp: set_clip_def clip_ok_def screen_def split: if_splits)
qed

lemma set_clip_spec:
  assumes "set_clip nsfb (Some b) = (ok, box, nsfb')"
  shows "if ok then pixels (nsfb_clip nsfb') = pixels (screen nsfb) \<inter> pixels (bbox_order b)
         else pixels (screen nsfb) \<inter> pixels (bbox_order b) = {} \<and> nsfb' = nsfb"
proof -
  obtain vis r where p: "nsfb_plot_clip (screen nsfb) b = (vis, r)" by force
  show ?thesis
  proof (cases vis)
    case True
    then have "ok" "nsfb' = nsfb\<lparr>nsfb_clip := r\<rparr>" using assms p by (auto simp: set_clip_def)
    with nsfb_plot_clip_pixels [OF p] True show ?thesis by simp
  next
    case False
    then have "\<not> ok" "nsfb' = nsfb" using assms p by (auto simp: set_clip_def)
    with nsfb_plot_clip_pixels [OF p] False show ?thesis by simp
  qed
qed

lemma clg_spec:
  assumes "clip_ok nsfb" "4 dvd nsfb_linelen nsfb" and "clg nsfb c = (ok, nsfb')"
  shows "ok \<and> nsfb_clip nsfb' = nsfb_clip nsfb \<and> nsfb_vram nsfb' =
     fill_set (locs nsfb (pixels (nsfb_clip nsfb))) (colour_to_pixel nsfb c) (nsfb_vram nsfb)"
proof -
  have b: "bbox_ok (nsfb_clip nsfb)" using assms(1) by (simp add: clip_ok_def inside_def bbox_ok_def)
  obtain ok1 r n where f: "fill nsfb (nsfb_clip nsfb) c = (ok1, r, n)" using prod_cases3 by blast
  obtain vis q where p: "nsfb_plot_clip (nsfb_clip nsfb) (nsfb_clip nsfb) = (vis, q)" by force
  have "q = nsfb_clip nsfb"
    using p b by (auto simp: nsfb_plot_clip_eq Let_def clamp_def bbox_ok_def split: if_splits)
  moreover have "r = q"
    using f p by (auto simp: fill_def nsfb_plot_clip_ctx_def Let_def split: if_splits)
  ultimately show ?thesis
    using fill_vram [OF b assms(2) f] assms(3) f b by (auto simp: clg_def)
qed

end
