(* ===== verification/RM_Screen.thy ===== *)
theory RM_Screen
  imports Plot_Clip
begin

text \<open>
  The panel update of the tablet, \<^verbatim>\<open>libnsfb/src/surface/remarkable/screen.c\<close>, and the
  surface that ties it to the library, \<^verbatim>\<open>remarkable.c\<close>.  A drawing operation claims
  the framebuffer (taking a mutex), draws, and reports the box it drew (releasing
  the mutex); a second thread sends the union of the reported boxes to the
  display controller and starts a new union.
\<close>

section \<open>State\<close>

text \<open>\<^verbatim>\<open>screen.h\<close>.\<close>

datatype screen_orientation = SCREEN_ORIENTATION_PORTRAIT | SCREEN_ORIENTATION_LANDSCAPE

definition INT_MAX :: int where "INT_MAX = 2 ^ 31 - 1"
definition INT_MIN :: int where "INT_MIN = - (2 ^ 31)"

record mxcfb_rect =
  rect_top :: int
  rect_left :: int
  rect_width :: int
  rect_height :: int

record mxcfb_update_data =
  update_region :: mxcfb_rect
  waveform_mode :: nat
  update_mode :: nat
  update_marker :: nat
  update_temp :: nat
  update_flags :: nat
  dither_mode :: nat

definition DEFAULT_WAVEFORM_MODE :: nat where "DEFAULT_WAVEFORM_MODE = 3"
definition DEFAULT_TEMP :: nat where "DEFAULT_TEMP = 24"
definition DEFAULT_EPDC_FLAG :: nat where "DEFAULT_EPDC_FLAG = 3149616"
definition UPDATE_MODE_PARTIAL :: nat where "UPDATE_MODE_PARTIAL = 0"

text \<open>
  \<^verbatim>\<open>fb_state_t\<close>; \<open>fb_mutex\<close> tells whether the mutex is held, \<open>fb_sent\<close> is the sequence of
  \<^verbatim>\<open>MXCFB_SEND_UPDATE\<close> requests.
\<close>

record fb_state =
  fb :: int
  fb_size :: int
  mapped_fb :: "int option"
  scr_height :: int
  scr_width :: int
  scr_bpp :: int
  scr_linelen :: int
  fb_orientation :: screen_orientation
  next_update_x0 :: int
  next_update_x1 :: int
  next_update_y0 :: int
  next_update_y1 :: int
  fb_mutex :: bool
  redraw_active :: bool
  fb_sent :: "mxcfb_update_data list"

section \<open>Sending an update\<close>

definition fb_reset_region :: "fb_state \<Rightarrow> fb_state" where
  "fb_reset_region st = st\<lparr>next_update_x0 := INT_MAX, next_update_x1 := INT_MIN,
     next_update_y0 := INT_MAX, next_update_y1 := INT_MIN\<rparr>"

definition fb_update_rect :: "fb_state \<Rightarrow> mxcfb_rect" where
  "fb_update_rect st =
     (if fb_orientation st = SCREEN_ORIENTATION_LANDSCAPE then let
        phys_x0 = 1404 - next_update_y1 st;
        phys_y0 = next_update_x0 st;
        phys_x1 = 1404 - next_update_y0 st;
        phys_y1 = next_update_x1 st
      in \<lparr>rect_top = phys_y0, rect_left = phys_x0, rect_width = phys_x1 - phys_x0, rect_height = phys_y1 - phys_y0\<rparr>
      else \<lparr>rect_top = next_update_y0 st, rect_left = next_update_x0 st,
            rect_width = next_update_x1 st - next_update_x0 st,
            rect_height = next_update_y1 st - next_update_y0 st\<rparr>)"

text \<open>
  One round of \<^verbatim>\<open>fb_async_redraw\<close>, between taking and releasing the mutex.  The
  region is reset whatever the result of the request.
\<close>

definition fb_redraw_once :: "fb_state \<Rightarrow> fb_state" where
  "fb_redraw_once st =
     (if next_update_x1 st > next_update_x0 st \<and> next_update_y1 st > next_update_y0 st then
        let update_data = \<lparr>update_region = fb_update_rect st, waveform_mode = DEFAULT_WAVEFORM_MODE,
              update_mode = UPDATE_MODE_PARTIAL, update_marker = 0, update_temp = DEFAULT_TEMP,
              update_flags = 0, dither_mode = DEFAULT_EPDC_FLAG\<rparr>
        in fb_reset_region (st\<lparr>fb_sent := fb_sent st @ [update_data]\<rparr>)
      else st)"

text \<open>Locking fails with \<^const>\<open>None\<close> standing for a caller that waits for the mutex.\<close>

definition fb_claim_region :: "fb_state \<Rightarrow> nsfb_bbox \<Rightarrow> (int \<times> fb_state) option" where
  "fb_claim_region st box = (if fb_mutex st then None else Some (0, st\<lparr>fb_mutex := True\<rparr>))"

definition fb_update_region :: "fb_state \<Rightarrow> nsfb_bbox \<Rightarrow> int \<times> fb_state" where
  "fb_update_region st box = (0, st\<lparr>
     next_update_x0 := min (next_update_x0 st) (x0 box),
     next_update_x1 := max (next_update_x1 st) (x1 box),
     next_update_y0 := min (next_update_y0 st) (y0 box),
     next_update_y1 := max (next_update_y1 st) (y1 box),
     fb_mutex := False\<rparr>)"

section \<open>Opening and closing\<close>

text \<open>What the kernel answers: failures are \<^const>\<open>None\<close> or a negative descriptor.\<close>

record fb_env =
  env_open :: int
  env_line_length :: "int option"
  env_var_info :: "(int \<times> int \<times> int \<times> int) option"
  env_mmap :: "int option"
  env_thread :: bool

text \<open>
  The assignments after the redraw thread has been created; the thread runs
  concurrently with them, so the sequence of states matters.
\<close>

definition fb_start_trace :: "fb_state \<Rightarrow> fb_state list" where
  "fb_start_trace st = (let
     st1 = st\<lparr>redraw_active := True\<rparr>;
     st2 = st1\<lparr>fb_mutex := False\<rparr>;
     st3 = st2\<lparr>next_update_x0 := INT_MAX\<rparr>;
     st4 = st3\<lparr>next_update_x1 := INT_MIN\<rparr>;
     st5 = st4\<lparr>next_update_y0 := INT_MAX\<rparr>;
     st6 = st5\<lparr>next_update_y1 := INT_MIN\<rparr>
   in [st, st1, st2, st3, st4, st5, st6])"

definition fb_initialize :: "fb_env \<Rightarrow> fb_state \<Rightarrow> screen_orientation \<Rightarrow> int \<times> fb_state" where
  "fb_initialize env st orient =
     (if env_open env = -1 then (-1, st)
      else let st = st\<lparr>fb := env_open env\<rparr> in
      case env_line_length env of None \<Rightarrow> (-1, st)
      | Some line_length \<Rightarrow>
        (case env_var_info env of None \<Rightarrow> (-1, st)
         | Some (xres, yres, bits_per_pixel, yres_virtual) \<Rightarrow>
           (let st = st\<lparr>fb_orientation := orient\<rparr>;
                st = (if orient = SCREEN_ORIENTATION_LANDSCAPE
                      then st\<lparr>scr_width := yres, scr_height := xres\<rparr>
                      else st\<lparr>scr_width := xres, scr_height := yres\<rparr>);
                st = st\<lparr>scr_linelen := line_length, scr_bpp := bits_per_pixel,
                        fb_size := yres_virtual * line_length\<rparr>
            in case env_mmap env of None \<Rightarrow> (-1, st)
               | Some p \<Rightarrow> (let st = st\<lparr>mapped_fb := Some p\<rparr> in
                   if \<not> env_thread env then (-1, st)
                   else (0, last (fb_start_trace st))))))"

definition fb_finalize :: "bool \<Rightarrow> bool \<Rightarrow> fb_state \<Rightarrow> int \<times> fb_state" where
  "fb_finalize close_ok munmap_ok st =
     (if \<not> close_ok then (-1, st)
      else if \<not> munmap_ok then (-1, st)
      else (0, st\<lparr>redraw_active := False, mapped_fb := None\<rparr>))"

section \<open>The surface\<close>

text \<open>
  \<open>rm_defaults\<close> and \<open>rm_initialise\<close>; \<^const>\<open>None\<close> is a call of \<^verbatim>\<open>exit\<close>.  \<open>orientation_env\<close> is
  the environment variable \<^verbatim>\<open>NETSURF_FB_ORIENTATION\<close>.
\<close>

definition rm_defaults ::
  "fb_env \<Rightarrow> string option \<Rightarrow> heap \<Rightarrow> fb_state \<Rightarrow> nsfb \<Rightarrow> (int \<times> fb_state \<times> nsfb \<times> heap) option" where
  "rm_defaults env orientation_env h st nsfb = (let
     orient = (case orientation_env of None \<Rightarrow> SCREEN_ORIENTATION_PORTRAIT
       | Some v \<Rightarrow> if v = ''landscape'' then SCREEN_ORIENTATION_LANDSCAPE else SCREEN_ORIENTATION_PORTRAIT);
     (rc, st) = fb_initialize env st orient
   in if rc \<noteq> 0 then None
      else let
        nsfb = nsfb\<lparr>nsfb_phys_width := 1404, nsfb_phys_height := 1872,
          nsfb_phys_linelen := scr_linelen st,
          nsfb_orientation := (if orient = SCREEN_ORIENTATION_LANDSCAPE then 1 else 0),
          nsfb_width := scr_width st, nsfb_height := scr_height st, nsfb_bpp := scr_bpp st,
          nsfb_linelen := scr_linelen st, nsfb_format := NSFB_FMT_RGB565\<rparr>;
        (ok, nsfb, h) = select_plotters h nsfb
      in Some (0, st, nsfb, h))"

definition rm_map_fb :: "fb_state \<Rightarrow> nsfb \<Rightarrow> nsfb" where
  "rm_map_fb st nsfb = nsfb\<lparr>nsfb_ptr := the (mapped_fb st)\<rparr>"

definition rm_set_geometry :: "nsfb \<Rightarrow> int \<Rightarrow> int \<Rightarrow> nsfb_format \<Rightarrow> int \<times> nsfb" where
  "rm_set_geometry nsfb w h format = (0, nsfb)"

definition rm_update :: "fb_state \<Rightarrow> nsfb_bbox \<Rightarrow> int \<times> fb_state" where
  "rm_update st box = fb_update_region st box"

definition rm_claim :: "fb_state \<Rightarrow> nsfb_bbox \<Rightarrow> (int \<times> fb_state) option" where
  "rm_claim st box = fb_claim_region st box"

section \<open>The region and the panel\<close>

definition pending :: "fb_state \<Rightarrow> nsfb_bbox" where
  "pending st = \<lparr>x0 = next_update_x0 st, y0 = next_update_y0 st, x1 = next_update_x1 st, y1 = next_update_y1 st\<rparr>"

text \<open>Where the RGB565 plotter puts a logical pixel on the panel, and the panel pixels of a request.\<close>

definition phys :: "screen_orientation \<Rightarrow> int \<times> int \<Rightarrow> int \<times> int" where
  "phys orient = (\<lambda>(x, y). if orient = SCREEN_ORIENTATION_LANDSCAPE then (1403 - y, x) else (x, y))"

definition rect_pixels :: "mxcfb_rect \<Rightarrow> (int \<times> int) set" where
  "rect_pixels r = {(px, py). rect_left r \<le> px \<and> px < rect_left r + rect_width r
                          \<and> rect_top r \<le> py \<and> py < rect_top r + rect_height r}"

lemma fb_update_rect_pixels:
  "phys (fb_orientation st) p \<in> rect_pixels (fb_update_rect st) \<longleftrightarrow> p \<in> pixels (pending st)"
  by (cases p) (auto simp: phys_def rect_pixels_def fb_update_rect_def pending_def Let_def)

lemma phys_bij: "inj (phys orient)"
  by (auto simp: phys_def inj_def)

text \<open>The logical pixels a state's latest requests have refreshed since \<open>st\<close>.\<close>

definition refreshed :: "fb_state \<Rightarrow> fb_state \<Rightarrow> (int \<times> int) set" where
  "refreshed st st' = {p. \<exists>u \<in> set (drop (length (fb_sent st)) (fb_sent st')).
     phys (fb_orientation st') p \<in> rect_pixels (update_region u)}"

lemma fb_redraw_refreshed: "refreshed st (fb_redraw_once st) = pixels (pending st)"
proof (cases "next_update_x1 st > next_update_x0 st \<and> next_update_y1 st > next_update_y0 st")
  case True
  have "fb_sent (fb_redraw_once st) = fb_sent st @
      [\<lparr>update_region = fb_update_rect st, waveform_mode = DEFAULT_WAVEFORM_MODE,
        update_mode = UPDATE_MODE_PARTIAL, update_marker = 0, update_temp = DEFAULT_TEMP,
        update_flags = 0, dither_mode = DEFAULT_EPDC_FLAG\<rparr>]"
    "fb_orientation (fb_redraw_once st) = fb_orientation st"
    using True by (simp_all add: fb_redraw_once_def fb_reset_region_def Let_def)
  then show ?thesis by (simp add: refreshed_def fb_update_rect_pixels)
next
  case False
  then show ?thesis by (auto simp: refreshed_def fb_redraw_once_def pending_def)
qed

lemma fb_redraw_pending: "pixels (pending (fb_redraw_once st)) = {}"
  by (auto simp: fb_redraw_once_def fb_reset_region_def pending_def INT_MAX_def INT_MIN_def Let_def)

lemma fb_update_pending: "pixels (pending st) \<union> pixels box \<subseteq> pixels (pending (snd (fb_update_region st box)))"
  by (auto simp: fb_update_region_def pending_def)

section \<open>Interleavings\<close>

text \<open>
  Drawing operations and the redraw thread.  The second component is the damage:
  the pixels of the boxes reported so far that no request has covered since.
\<close>

inductive fb_step :: "fb_state \<times> (int \<times> int) set \<Rightarrow> fb_state \<times> (int \<times> int) set \<Rightarrow> bool" where
  fb_claim: "fb_claim_region st box = Some (rc, st') \<Longrightarrow> fb_step (st, d) (st', d)"
| fb_update: "fb_mutex st \<Longrightarrow> fb_update_region st box = (rc, st') \<Longrightarrow> fb_step (st, d) (st', d \<union> pixels box)"
| fb_redraw: "redraw_active st \<Longrightarrow> \<not> fb_mutex st \<Longrightarrow>
    fb_step (st, d) (fb_redraw_once st, d - refreshed st (fb_redraw_once st))"

inductive fb_run :: "fb_state \<times> (int \<times> int) set \<Rightarrow> fb_state \<times> (int \<times> int) set \<Rightarrow> bool" where
  fb_run_refl: "fb_run c c"
| fb_run_step: "fb_run c d \<Longrightarrow> fb_step d e \<Longrightarrow> fb_run c e"

inductive_cases fb_step_cases: "fb_step (st, d) c"

definition damage_pending :: "fb_state \<times> (int \<times> int) set \<Rightarrow> bool" where
  "damage_pending c \<longleftrightarrow> snd c \<subseteq> pixels (pending (fst c))"

lemma fb_step_damage: "fb_step c e \<Longrightarrow> damage_pending c \<Longrightarrow> damage_pending e"
proof (induction rule: fb_step.induct)
  case (fb_claim st box rc st' d)
  then show ?case by (auto simp: damage_pending_def fb_claim_region_def pending_def split: if_splits)
next
  case (fb_update st box rc st' d)
  then show ?case using fb_update_pending [of st box] by (auto simp: damage_pending_def)
next
  case (fb_redraw st d)
  then show ?case by (auto simp: damage_pending_def fb_redraw_refreshed)
qed

lemma fb_run_damage: "fb_run c e \<Longrightarrow> damage_pending c \<Longrightarrow> damage_pending e"
  by (induction rule: fb_run.induct) (auto intro: fb_step_damage)

section \<open>Properties\<close>


definition fb_example :: fb_state where
  "fb_example = \<lparr>fb = 3, fb_size = 0, mapped_fb = None, scr_height = 1404, scr_width = 1872, scr_bpp = 16,
     scr_linelen = 2816, fb_orientation = SCREEN_ORIENTATION_LANDSCAPE,
     next_update_x0 = INT_MAX, next_update_x1 = INT_MIN, next_update_y0 = INT_MAX, next_update_y1 = INT_MIN,
     fb_mutex = False, redraw_active = True, fb_sent = []\<rparr>"


lemma rm_defaults_fields:
  assumes "rm_defaults env orientation_env [] st nsfb = Some (rc, st', nsfb', h)"
    and "env_line_length env = Some l" and "env_var_info env = Some (1404, 1872, bpp, yv)"
  shows "nsfb_orientation nsfb' = (if fb_orientation st' = SCREEN_ORIENTATION_LANDSCAPE then 1 else 0)"
    "nsfb_phys_width nsfb' = 1404" "nsfb_phys_linelen nsfb' = l" "nsfb_linelen nsfb' = l"
    "nsfb_width nsfb' = (if fb_orientation st' = SCREEN_ORIENTATION_LANDSCAPE then 1872 else 1404)"
    "nsfb_height nsfb' = (if fb_orientation st' = SCREEN_ORIENTATION_LANDSCAPE then 1404 else 1872)"
    "nsfb_plotter_fns nsfb' = Some Plotters_16bpp" "nsfb_clip nsfb' = screen nsfb'"
proof -
  define orient where "orient = (case orientation_env of None \<Rightarrow> SCREEN_ORIENTATION_PORTRAIT
       | Some v \<Rightarrow> if v = ''landscape'' then SCREEN_ORIENTATION_LANDSCAPE else SCREEN_ORIENTATION_PORTRAIT)"
  obtain rc1 st1 where init: "fb_initialize env st orient = (rc1, st1)" by force
  have rc1: "rc1 = 0" and st': "st' = st1"
    using assms(1) init by (auto simp: rm_defaults_def orient_def [symmetric] Let_def split: if_splits prod.splits)
  have st1: "fb_orientation st' = orient" "scr_linelen st' = l"
    "scr_width st' = (if orient = SCREEN_ORIENTATION_LANDSCAPE then 1872 else 1404)"
    "scr_height st' = (if orient = SCREEN_ORIENTATION_LANDSCAPE then 1404 else 1872)"
    using init rc1 assms(2,3)
    by (auto simp: st' fb_initialize_def fb_start_trace_def Let_def split: if_splits option.splits)
  show "nsfb_orientation nsfb' = (if fb_orientation st' = SCREEN_ORIENTATION_LANDSCAPE then 1 else 0)"
    "nsfb_phys_width nsfb' = 1404" "nsfb_phys_linelen nsfb' = l" "nsfb_linelen nsfb' = l"
    "nsfb_width nsfb' = (if fb_orientation st' = SCREEN_ORIENTATION_LANDSCAPE then 1872 else 1404)"
    "nsfb_height nsfb' = (if fb_orientation st' = SCREEN_ORIENTATION_LANDSCAPE then 1404 else 1872)"
    "nsfb_plotter_fns nsfb' = Some Plotters_16bpp"
    "nsfb_clip nsfb' = screen nsfb'"
    using assms(1) init rc1 st1
    by (auto simp: rm_defaults_def orient_def [symmetric] Let_def st' select_plotters_def plotters_of_def screen_def)
qed

text \<open>
  What \<open>rm_defaults\<close> sets up satisfies the assumptions of the plotters, in
  both orientations, on the panel of the device; and the plotters and the panel
  updates agree about where a logical pixel lies: its address is the one of its
  physical pixel in a framebuffer of 1404 pixels per line.
\<close>

theorem rm_defaults_geometry:
  assumes "rm_defaults env orientation_env [] st nsfb = Some (rc, st', nsfb', h)"
    and "env_line_length env = Some l" "2 * 1404 \<le> l" "4 dvd l"
    and "env_var_info env = Some (1404, 1872, bpp, yv)"
  shows "surface_ok nsfb' \<and> clip_ok nsfb' \<and> nsfb_plotter_fns nsfb' = Some Plotters_16bpp
    \<and> (case phys (fb_orientation st') (x, y) of (px, py) \<Rightarrow>
        get_xy_loc (rm_map_fb st' nsfb') x y = the (mapped_fb st') + py * l + 2 * px)
    \<and> screen_area nsfb' = (if fb_orientation st' = SCREEN_ORIENTATION_LANDSCAPE
      then \<lparr>x0 = 0, y0 = 0, x1 = 1872, y1 = 1404\<rparr> else \<lparr>x0 = 0, y0 = 0, x1 = 1404, y1 = 1872\<rparr>)"
proof -
  note n = rm_defaults_fields [OF assms(1,2,5)]
  have "surface_ok nsfb'" "clip_ok nsfb'" "nsfb_plotter_fns nsfb' = Some Plotters_16bpp"
    using assms(3,4) n by (auto simp: surface_ok_def clip_ok_def inside_def screen_def)
  moreover have "case phys (fb_orientation st') (x, y) of (px, py) \<Rightarrow>
      get_xy_loc (rm_map_fb st' nsfb') x y = the (mapped_fb st') + py * l + 2 * px"
    using n by (auto simp: get_xy_loc_eq phys_def rm_map_fb_def)
  ultimately show ?thesis using n by (simp add: screen_def)
qed

definition fb_env_example :: fb_env where
  "fb_env_example = \<lparr>env_open = 3, env_line_length = Some 2816, env_var_info = Some (1404, 1872, 16, 3840),
     env_mmap = Some 4096, env_thread = True\<rparr>"

lemma rm_defaults_geometry_witness:
  "\<exists>st' nsfb'. rm_defaults fb_env_example (Some ''landscape'') [] fb_example (surface_example 0) = Some (0, st', nsfb', [])
     \<and> surface_ok nsfb' \<and> get_xy_loc (rm_map_fb st' nsfb') 5 3 = 4096 + 5 * 2816 + 2 * 1400"
proof -
  have "\<exists>st' nsfb'. rm_defaults fb_env_example (Some ''landscape'') [] fb_example (surface_example 0) = Some (0, st', nsfb', [])
      \<and> fb_orientation st' = SCREEN_ORIENTATION_LANDSCAPE \<and> mapped_fb st' = Some 4096"
    by (simp add: rm_defaults_def fb_env_example_def fb_initialize_def fb_start_trace_def Let_def
        select_plotters_def plotters_of_def)
  then obtain st' nsfb' where d: "rm_defaults fb_env_example (Some ''landscape'') [] fb_example (surface_example 0) = Some (0, st', nsfb', [])"
    and o: "fb_orientation st' = SCREEN_ORIENTATION_LANDSCAPE" "mapped_fb st' = Some 4096" by blast
  have e: "env_line_length fb_env_example = Some 2816" "env_var_info fb_env_example = Some (1404, 1872, 16, 3840)"
    by (simp_all add: fb_env_example_def)
  from rm_defaults_geometry [OF d e(1) _ _ e(2), of 5 3] d o
  show ?thesis by (auto simp: phys_def)
qed

text \<open>
  The redraw thread may look at \<open>redraw_active\<close> right after its creation, before the
  creator sets it: it then leaves its loop at once and no update is ever sent.
\<close>

lemma fb_redraw_thread_may_exit:
  "\<not> redraw_active st \<Longrightarrow>
     \<not> redraw_active (hd (fb_start_trace st)) \<and> redraw_active (last (fb_start_trace st))"
  by (simp add: fb_start_trace_def Let_def)

end
