(* ===== verification/RM_Input.thy ===== *)
theory RM_Input
  imports Ring_Buffer RM_Screen
begin

text \<open>
  The touch, pen and button input of the tablet,
  \<^verbatim>\<open>libnsfb/src/surface/remarkable/input.c\<close>.  Kernel input events arrive in
  batches; the handlers keep the state of every finger and of the pen and turn
  complete frames into pointer events, which go to the user interface through
  the ring buffer.  libevdev is not code of this repository: what it returns
  (the events read, the properties of a device) is an argument of the functions
  that call it.  Tracing output is not modelled.
\<close>

section \<open>Events\<close>

text \<open>\<^verbatim>\<open>libnsfb_event.h\<close>; the key codes used here are constants of the enumeration.\<close>

type_synonym nsfb_key_code = int

abbreviation (input) NSFB_KEY_HOME :: nsfb_key_code where "NSFB_KEY_HOME \<equiv> 278"
abbreviation (input) NSFB_KEY_PAGEUP :: nsfb_key_code where "NSFB_KEY_PAGEUP \<equiv> 280"
abbreviation (input) NSFB_KEY_PAGEDOWN :: nsfb_key_code where "NSFB_KEY_PAGEDOWN \<equiv> 281"
abbreviation (input) NSFB_KEY_MOUSE_1 :: nsfb_key_code where "NSFB_KEY_MOUSE_1 \<equiv> 401"

datatype nsfb_event =
    NSFB_EVENT_NONE
  | NSFB_EVENT_CONTROL int
  | NSFB_EVENT_KEY_DOWN nsfb_key_code
  | NSFB_EVENT_KEY_UP nsfb_key_code
  | NSFB_EVENT_MOVE_RELATIVE int int int
  | NSFB_EVENT_MOVE_ABSOLUTE int int int
  | NSFB_EVENT_RESIZE int int

text \<open>\<^verbatim>\<open>struct input_event\<close> of the kernel, and the codes the source compares with.\<close>

record input_event =
  ev_type :: int
  ev_code :: int
  ev_value :: int

abbreviation (input) EV_SYN :: int where "EV_SYN \<equiv> 0"
abbreviation (input) EV_KEY :: int where "EV_KEY \<equiv> 1"
abbreviation (input) EV_ABS :: int where "EV_ABS \<equiv> 3"
abbreviation (input) SYN_REPORT :: int where "SYN_REPORT \<equiv> 0"
abbreviation (input) SYN_DROPPED :: int where "SYN_DROPPED \<equiv> 3"
abbreviation (input) ABS_X :: int where "ABS_X \<equiv> 0"
abbreviation (input) ABS_Y :: int where "ABS_Y \<equiv> 1"
abbreviation (input) ABS_MT_SLOT :: int where "ABS_MT_SLOT \<equiv> 0x2f"
abbreviation (input) ABS_MT_POSITION_X :: int where "ABS_MT_POSITION_X \<equiv> 0x35"
abbreviation (input) ABS_MT_POSITION_Y :: int where "ABS_MT_POSITION_Y \<equiv> 0x36"
abbreviation (input) ABS_MT_TRACKING_ID :: int where "ABS_MT_TRACKING_ID \<equiv> 0x39"
abbreviation (input) BTN_TOUCH :: int where "BTN_TOUCH \<equiv> 0x14a"
abbreviation (input) BTN_STYLUS :: int where "BTN_STYLUS \<equiv> 0x14b"
abbreviation (input) KEY_HOME :: int where "KEY_HOME \<equiv> 102"
abbreviation (input) KEY_LEFT :: int where "KEY_LEFT \<equiv> 105"
abbreviation (input) KEY_RIGHT :: int where "KEY_RIGHT \<equiv> 106"
abbreviation (input) KEY_POWER :: int where "KEY_POWER \<equiv> 116"

section \<open>State\<close>

datatype rm_model = RM1 | RM2

record input_single_state =
  tracking_id :: int
  slot_x :: int
  slot_y :: int

record input_pen_state =
  pen_min_x :: int
  pen_max_x :: int
  pen_min_y :: int
  pen_max_y :: int
  pen_x :: int
  pen_y :: int
  touched :: bool
  mouse_down :: bool

record input_multitouch_state =
  mt_min_x :: int
  mt_max_x :: int
  mt_min_y :: int
  mt_max_y :: int
  current_slot :: int
  num_slots :: int
  slots :: "input_single_state list"
  primary_slot :: int
  primary_tracking_id :: int
  gesture_active :: bool
  dragging :: bool
  press_x :: int
  press_y :: int

text \<open>
  \<^verbatim>\<open>input_state_t\<close>; the devices are numbered by their file descriptors.  The last two fields are the environment of the ring buffer:
  the allocator and the contents of fresh storage.
\<close>

record input_state =
  model :: rm_model
  pen_dev :: "int option"
  gpio_dev :: "int option"
  touch_dev :: "int option"
  pen_sync :: bool
  gpio_sync :: bool
  touch_sync :: bool
  events_buf :: "nsfb_event ring_buf"
  multitouch_state :: input_multitouch_state
  pen_state :: input_pen_state
  poll_active :: bool
  screen_width :: int
  screen_height :: int
  orientation :: screen_orientation
  trace :: bool
  pointer_valid :: bool
  pointer_x :: int
  pointer_y :: int
  env_heap :: heap
  env_fresh :: "nat \<Rightarrow> nsfb_event"

section \<open>Coordinates\<close>

definition input_scale :: "int \<Rightarrow> int \<Rightarrow> int \<Rightarrow> int \<Rightarrow> int" where
  "input_scale value mn mx extent = (let
     value = (if value < mn then mn else value);
     value = (if value > mx then mx else value)
   in cdiv ((value - mn) * (extent - 1)) (mx - mn))"

definition input_coordinates :: "input_state \<Rightarrow> bool \<Rightarrow> int \<Rightarrow> int \<Rightarrow> int \<times> int" where
  "input_coordinates state pen raw_x raw_y = (let
     width = (if orientation state = SCREEN_ORIENTATION_LANDSCAPE
              then screen_height state else screen_width state);
     height = (if orientation state = SCREEN_ORIENTATION_LANDSCAPE
               then screen_width state else screen_height state);
     (px, py) =
       (if pen then let p = pen_state state in
          (input_scale raw_y (pen_min_y p) (pen_max_y p) width,
           height - 1 - input_scale raw_x (pen_min_x p) (pen_max_x p) height)
        else let mt = multitouch_state state;
          px = input_scale raw_x (mt_min_x mt) (mt_max_x mt) width
        in (if model state = RM1 then width - 1 - px else px,
            height - 1 - input_scale raw_y (mt_min_y mt) (mt_max_y mt) height))
   in (if orientation state = SCREEN_ORIENTATION_LANDSCAPE then py else px,
       if orientation state = SCREEN_ORIENTATION_LANDSCAPE then width - 1 - px else py))"

section \<open>Queueing events\<close>

definition input_write :: "input_state \<Rightarrow> nsfb_event \<Rightarrow> bool \<times> input_state" where
  "input_write state event =
     (let (ok, b, h) = ring_buf_write (env_heap state) (env_fresh state) (events_buf state) event
      in (ok, state\<lparr>events_buf := b, env_heap := h\<rparr>))"

definition input_position :: "input_state \<Rightarrow> int \<Rightarrow> int \<Rightarrow> bool \<Rightarrow> input_state" where
  "input_position state x y force =
     (if \<not> force \<and> pointer_valid state \<and> x = pointer_x state \<and> y = pointer_y state then state
      else let (ok, state) = input_write state (NSFB_EVENT_MOVE_ABSOLUTE x y 0) in
        if ok then state\<lparr>pointer_valid := True, pointer_x := x, pointer_y := y\<rparr> else state)"

definition input_button :: "input_state \<Rightarrow> bool \<Rightarrow> input_state" where
  "input_button state down =
     snd (input_write state
       (if down then NSFB_EVENT_KEY_DOWN NSFB_KEY_MOUSE_1 else NSFB_EVENT_KEY_UP NSFB_KEY_MOUSE_1))"

section \<open>Touch\<close>

definition TOUCH_DRAG_THRESHOLD :: int where
  "TOUCH_DRAG_THRESHOLD = 20"

text \<open>The loop that looks for the first finger on the screen, from slot \<open>i\<close> on.\<close>

fun first_contact :: "int \<Rightarrow> input_single_state list \<Rightarrow> int" where
  "first_contact i [] = -1"
| "first_contact i (slot # rest) =
     (if tracking_id slot \<ge> 0 then i else first_contact (i + 1) rest)"

text \<open>The three parts of \<^verbatim>\<open>input_touch_frame\<close>, in order.\<close>

definition touch_frame_primary :: "input_state \<Rightarrow> input_state" where
  "touch_frame_primary state = (let mt = multitouch_state state in
     if primary_slot mt \<ge> 0 then
       let slot = slots mt ! nat (primary_slot mt);
           released = (tracking_id slot \<noteq> primary_tracking_id mt)
       in if released then
         let state = input_button state False
         in state\<lparr>multitouch_state := (multitouch_state state)\<lparr>primary_slot := -1\<rparr>\<rparr>
       else
         let (x, y) = input_coordinates state False (slot_x slot) (slot_y slot);
             state = (if \<bar>x - press_x mt\<bar> > TOUCH_DRAG_THRESHOLD
                         \<or> \<bar>y - press_y mt\<bar> > TOUCH_DRAG_THRESHOLD
                      then state\<lparr>multitouch_state := mt\<lparr>dragging := True\<rparr>\<rparr> else state)
         in if dragging (multitouch_state state) then input_position state x y False else state
     else state)"

definition touch_frame_press :: "int \<Rightarrow> input_state \<Rightarrow> input_state" where
  "touch_frame_press first state = (let mt = multitouch_state state in
     if \<not> gesture_active mt \<and> first \<ge> 0 \<and> \<not> mouse_down (pen_state state) then
       let slot = slots mt ! nat first;
           (x, y) = input_coordinates state False (slot_x slot) (slot_y slot);
           state = state\<lparr>multitouch_state := mt\<lparr>primary_slot := first,
             primary_tracking_id := tracking_id slot, dragging := False,
             press_x := x, press_y := y\<rparr>\<rparr>;
           state = input_position state x y True
       in input_button state True
     else state)"

definition input_touch_frame :: "input_state \<Rightarrow> input_state" where
  "input_touch_frame state = (let
     mt = multitouch_state state;
     first = first_contact 0 (take (nat (num_slots mt)) (slots mt));
     state = touch_frame_primary state;
     state = touch_frame_press first state
   in state\<lparr>multitouch_state := (multitouch_state state)\<lparr>gesture_active := (first \<ge> 0)\<rparr>\<rparr>)"

definition input_process_touch :: "input_state \<Rightarrow> input_event \<Rightarrow> input_state" where
  "input_process_touch state ev = (let mt = multitouch_state state in
     if ev_type ev = EV_SYN \<and> ev_code ev = SYN_REPORT then input_touch_frame state
     else if ev_type ev \<noteq> EV_ABS then state
     else if ev_code ev = ABS_MT_SLOT then
       state\<lparr>multitouch_state := mt\<lparr>current_slot :=
         (if ev_value ev \<ge> 0 \<and> ev_value ev < num_slots mt then ev_value ev else -1)\<rparr>\<rparr>
     else if current_slot mt < 0 \<or> current_slot mt \<ge> num_slots mt then state
     else let i = nat (current_slot mt); slot = slots mt ! i;
       slot = (if ev_code ev = ABS_MT_TRACKING_ID then slot\<lparr>tracking_id := ev_value ev\<rparr>
               else if ev_code ev = ABS_MT_POSITION_X then slot\<lparr>slot_x := ev_value ev\<rparr>
               else if ev_code ev = ABS_MT_POSITION_Y then slot\<lparr>slot_y := ev_value ev\<rparr>
               else slot)
     in state\<lparr>multitouch_state := mt\<lparr>slots := (slots mt)[i := slot]\<rparr>\<rparr>)"

section \<open>Pen and buttons\<close>

definition input_process_pen :: "input_state \<Rightarrow> input_event \<Rightarrow> input_state" where
  "input_process_pen state ev = (let pen = pen_state state in
     if ev_type ev = EV_ABS then
       let pen = (if ev_code ev = ABS_X then pen\<lparr>pen_x := ev_value ev\<rparr> else pen);
           pen = (if ev_code ev = ABS_Y then pen\<lparr>pen_y := ev_value ev\<rparr> else pen)
       in state\<lparr>pen_state := pen\<rparr>
     else if ev_type ev = EV_KEY \<and> ev_code ev = BTN_TOUCH then
       state\<lparr>pen_state := pen\<lparr>touched := (ev_value ev \<noteq> 0)\<rparr>\<rparr>
     else if ev_type ev = EV_SYN \<and> ev_code ev = SYN_REPORT
         \<and> primary_slot (multitouch_state state) < 0 then
       let (x, y) = input_coordinates state True (pen_x pen) (pen_y pen) in
       if \<not> touched pen \<and> mouse_down pen then
         let state = input_button state False
         in state\<lparr>pen_state := pen\<lparr>mouse_down := False\<rparr>\<rparr>
       else
         let state = input_position state x y (touched pen \<and> \<not> mouse_down pen)
         in if touched pen \<and> \<not> mouse_down pen then
              let state = input_button state True
              in state\<lparr>pen_state := pen\<lparr>mouse_down := True\<rparr>\<rparr>
            else state
     else state)"

definition input_process_gpio :: "input_state \<Rightarrow> input_event \<Rightarrow> input_state" where
  "input_process_gpio state ev =
     (if ev_type ev \<noteq> EV_KEY then state
      else let key = (if ev_code ev = KEY_LEFT then Some NSFB_KEY_PAGEUP
                      else if ev_code ev = KEY_HOME then Some NSFB_KEY_HOME
                      else if ev_code ev = KEY_RIGHT then Some NSFB_KEY_PAGEDOWN
                      else None)
      in case key of None \<Rightarrow> state
         | Some k \<Rightarrow> snd (input_write state
             (if ev_value ev \<noteq> 0 then NSFB_EVENT_KEY_DOWN k else NSFB_EVENT_KEY_UP k)))"

section \<open>Invariant\<close>

definition axis_ok :: "int \<Rightarrow> int \<Rightarrow> bool" where
  "axis_ok mn mx \<longleftrightarrow> mn < mx"

definition input_geometry_ok :: "input_state \<Rightarrow> bool" where
  "input_geometry_ok st \<longleftrightarrow> (let mt = multitouch_state st; pen = pen_state st in
     axis_ok (mt_min_x mt) (mt_max_x mt) \<and> axis_ok (mt_min_y mt) (mt_max_y mt)
     \<and> axis_ok (pen_min_x pen) (pen_max_x pen) \<and> axis_ok (pen_min_y pen) (pen_max_y pen)
     \<and> 0 < screen_width st \<and> 0 < screen_height st)"

text \<open>
  A finger that owns the button is a contact of the current gesture, and the pen
  does not hold the button at the same time.
\<close>

definition input_inv :: "input_state \<Rightarrow> bool" where
  "input_inv st \<longleftrightarrow> (let mt = multitouch_state st in
     ring_inv (events_buf st) \<and> input_geometry_ok st
     \<and> 0 < num_slots mt \<and> length (slots mt) = nat (num_slots mt)
     \<and> -1 \<le> primary_slot mt \<and> primary_slot mt < num_slots mt
     \<and> (0 \<le> primary_slot mt \<longrightarrow>
          gesture_active mt \<and> 0 \<le> primary_tracking_id mt \<and> \<not> mouse_down (pen_state st)))"

lemma input_scale_range:
  assumes "axis_ok mn mx" "0 < extent"
  shows "0 \<le> input_scale v mn mx extent \<and> input_scale v mn mx extent < extent"
proof -
  define u where "u = (let v = (if v < mn then mn else v) in if v > mx then mx else v)"
  have u: "0 \<le> u - mn" "u - mn \<le> mx - mn" using assms(1) by (auto simp: u_def axis_ok_def Let_def)
  have d: "0 < mx - mn" using assms(1) by (simp add: axis_ok_def)
  have "(u - mn) * (extent - 1) \<le> (mx - mn) * (extent - 1)"
    using u assms(2) by (intro mult_right_mono) auto
  then have "(u - mn) * (extent - 1) div (mx - mn) \<le> (mx - mn) * (extent - 1) div (mx - mn)"
    using d by (intro zdiv_mono1) auto
  then have "(u - mn) * (extent - 1) div (mx - mn) \<le> extent - 1" using d by simp
  moreover have "0 \<le> (u - mn) * (extent - 1) div (mx - mn)"
    using u d assms(2) by (simp add: pos_imp_zdiv_nonneg_iff)
  moreover have "input_scale v mn mx extent = (u - mn) * (extent - 1) div (mx - mn)"
    using u d assms(2) by (simp add: input_scale_def u_def Let_def cdiv_nonneg)
  ultimately show ?thesis by simp
qed

definition on_screen :: "input_state \<Rightarrow> int \<times> int \<Rightarrow> bool" where
  "on_screen st = (\<lambda>(x, y). 0 \<le> x \<and> x < screen_width st \<and> 0 \<le> y \<and> y < screen_height st)"

lemma input_coordinates_on_screen:
  "input_geometry_ok st \<Longrightarrow> on_screen st (input_coordinates st pen raw_x raw_y)"
  using input_scale_range
  by (simp add: input_coordinates_def on_screen_def input_geometry_ok_def Let_def) (smt (verit))

text \<open>Sending an event changes the queue and nothing the handlers read.\<close>

lemma input_write_cases:
  assumes "ring_inv (events_buf s)" and "input_write s e = (ok, s')"
  shows "\<exists>b h. s' = s\<lparr>events_buf := b, env_heap := h\<rparr> \<and> ring_inv b
     \<and> ring_list b = ring_list (events_buf s) @ (if ok then [e] else [])"
proof -
  obtain b h where w: "ring_buf_write (env_heap s) (env_fresh s) (events_buf s) e = (ok, b, h)"
    and s': "s' = s\<lparr>events_buf := b, env_heap := h\<rparr>"
    using assms(2) by (auto simp: input_write_def split: prod.splits)
  show ?thesis using ring_buf_write_cases [OF assms(1) w] s' by auto
qed

lemma input_send_frame [simp]:
  "multitouch_state (input_position s x y f) = multitouch_state s"
  "pen_state (input_position s x y f) = pen_state s"
  "screen_width (input_position s x y f) = screen_width s"
  "screen_height (input_position s x y f) = screen_height s"
  "orientation (input_position s x y f) = orientation s"
  "model (input_position s x y f) = model s"
  "multitouch_state (input_button s d) = multitouch_state s"
  "pen_state (input_button s d) = pen_state s"
  "screen_width (input_button s d) = screen_width s"
  "screen_height (input_button s d) = screen_height s"
  "orientation (input_button s d) = orientation s"
  "model (input_button s d) = model s"
  by (auto simp: input_position_def input_button_def input_write_def split: prod.splits)

lemma input_send_ring_inv [simp]:
  assumes "ring_inv (events_buf s)"
  shows "ring_inv (events_buf (input_position s x y f))" "ring_inv (events_buf (input_button s d))"
    "ring_inv (events_buf (snd (input_write s e)))"
proof -
  show w: "ring_inv (events_buf (snd (input_write s e)))" for e
    using input_write_cases [OF assms, of e] by (cases "input_write s e") auto
  then show "ring_inv (events_buf (input_button s d))" by (simp add: input_button_def)
  show "ring_inv (events_buf (input_position s x y f))"
    using w [of "NSFB_EVENT_MOVE_ABSOLUTE x y 0"] assms
    by (auto simp: input_position_def split: prod.splits)
qed

lemma first_contact_range:
  "first_contact i ss = -1 \<or> (\<exists>k < length ss. first_contact i ss = i + int k \<and> 0 \<le> tracking_id (ss ! k))"
proof (induction ss arbitrary: i)
  case (Cons s ss)
  show ?case
  proof (cases "0 \<le> tracking_id s")
    case False
    from Cons [of "i + 1"] show ?thesis
    proof
      assume "\<exists>k<length ss. first_contact (i + 1) ss = i + 1 + int k \<and> 0 \<le> tracking_id (ss ! k)"
      then obtain k where "k < length ss" "first_contact (i + 1) ss = i + 1 + int k" "0 \<le> tracking_id (ss ! k)"
        by auto
      then show ?thesis using False by (intro disjI2 exI [of _ "Suc k"]) auto
    qed (use False in simp)
  qed auto
qed simp

lemma first_contact_none:
  "0 \<le> i \<Longrightarrow> first_contact i ss < 0 \<longleftrightarrow> (\<forall>s \<in> set ss. tracking_id s < 0)"
  by (induction ss arbitrary: i) auto

text \<open>Every handler keeps the invariant, whether or not its events were accepted.\<close>

lemma touch_frame_primary_inv:
  assumes "input_inv st"
  shows "input_inv (touch_frame_primary st)"
    and "gesture_active (multitouch_state (touch_frame_primary st)) = gesture_active (multitouch_state st)"
    and "slots (multitouch_state (touch_frame_primary st)) = slots (multitouch_state st)"
    and "num_slots (multitouch_state (touch_frame_primary st)) = num_slots (multitouch_state st)"
    and "pen_state (touch_frame_primary st) = pen_state st"
    and "0 \<le> primary_slot (multitouch_state (touch_frame_primary st)) \<Longrightarrow>
      0 \<le> tracking_id (slots (multitouch_state st) ! nat (primary_slot (multitouch_state st)))
      \<and> primary_slot (multitouch_state (touch_frame_primary st)) = primary_slot (multitouch_state st)"
  using assms
  by (auto simp: touch_frame_primary_def input_inv_def input_geometry_ok_def Let_def split: prod.splits if_splits)

lemma touch_frame_press_inv:
  assumes "input_inv st" "first < num_slots (multitouch_state st)"
    and "0 \<le> first \<Longrightarrow> 0 \<le> tracking_id (slots (multitouch_state st) ! nat first)"
  shows "input_inv ((touch_frame_press first st)\<lparr>multitouch_state :=
      (multitouch_state (touch_frame_press first st))\<lparr>gesture_active := g\<rparr>\<rparr>)
    \<longleftrightarrow> (0 \<le> primary_slot (multitouch_state (touch_frame_press first st)) \<longrightarrow> g)"
  using assms
  by (auto simp: touch_frame_press_def input_inv_def input_geometry_ok_def Let_def split: prod.splits)

lemma input_touch_frame_inv:
  assumes "input_inv st"
  shows "input_inv (input_touch_frame st)"
proof -
  let ?mt = "multitouch_state st" and ?p = "touch_frame_primary st"
  define first where "first = first_contact 0 (take (nat (num_slots ?mt)) (slots ?mt))"
  have sl: "take (nat (num_slots ?mt)) (slots ?mt) = slots ?mt"
    using assms by (simp add: input_inv_def Let_def)
  have first: "first < num_slots ?mt" "0 \<le> first \<Longrightarrow> 0 \<le> tracking_id (slots ?mt ! nat first)"
    using first_contact_range [of 0 "slots ?mt"] assms
    by (auto simp: first_def sl input_inv_def Let_def)
  have held: "0 \<le> first" if "0 \<le> primary_slot (multitouch_state ?p)"
  proof -
    have k: "0 \<le> tracking_id (slots ?mt ! nat (primary_slot ?mt))" "nat (primary_slot ?mt) < length (slots ?mt)"
      using touch_frame_primary_inv(6) [OF assms that] assms that by (auto simp: input_inv_def Let_def)
    then have "slots ?mt ! nat (primary_slot ?mt) \<in> set (slots ?mt)" by simp
    with k(1) have "\<not> first_contact 0 (slots ?mt) < 0"
      unfolding first_contact_none [of 0 "slots ?mt", simplified] by fastforce
    then show ?thesis by (simp add: first_def sl)
  qed
  have "0 \<le> primary_slot (multitouch_state (touch_frame_press first ?p)) \<Longrightarrow> 0 \<le> first"
    using held by (auto simp: touch_frame_press_def Let_def split: if_splits prod.splits)
  then show ?thesis
    unfolding input_touch_frame_def Let_def first_def [symmetric]
    by (subst touch_frame_press_inv)
      (use first touch_frame_primary_inv [OF assms] in auto)
qed

lemma input_process_touch_inv: "input_inv st \<Longrightarrow> input_inv (input_process_touch st ev)"
  by (cases "ev_type ev = EV_SYN \<and> ev_code ev = SYN_REPORT")
    (auto simp: input_process_touch_def input_touch_frame_inv Let_def,
     auto simp: input_inv_def input_geometry_ok_def Let_def)

lemma input_process_pen_inv: "input_inv st \<Longrightarrow> input_inv (input_process_pen st ev)"
  by (auto simp: input_process_pen_def input_inv_def input_geometry_ok_def Let_def split: prod.splits)

lemma input_write_snd:
  "snd (input_write s e) = s\<lparr>events_buf := events_buf (snd (input_write s e)), env_heap := env_heap (snd (input_write s e))\<rparr>"
  by (simp add: input_write_def split: prod.splits)

lemma input_process_gpio_inv: "input_inv st \<Longrightarrow> input_inv (input_process_gpio st ev)"
proof -
  assume inv: "input_inv st"
  then have "input_inv (snd (input_write st e))" for e
    by (subst input_write_snd) (auto simp: input_inv_def input_geometry_ok_def Let_def)
  with inv show ?thesis by (auto simp: input_process_gpio_def Let_def split: option.splits)
qed

section \<open>What the user interface sees\<close>

text \<open>
  The contract of the event stream, as an automaton over (button pressed, last
  position, the last event was a move).  Every move is on the screen, the button
  alternates, and a press follows directly on the move that says where.
\<close>

type_synonym pointer = "bool \<times> (int \<times> int) option \<times> bool"

fun pointer_step :: "int \<Rightarrow> int \<Rightarrow> pointer \<Rightarrow> nsfb_event \<Rightarrow> pointer option" where
  "pointer_step w h (d, pos, moved) (NSFB_EVENT_MOVE_ABSOLUTE x y z) =
     (if 0 \<le> x \<and> x < w \<and> 0 \<le> y \<and> y < h then Some (d, Some (x, y), True) else None)"
| "pointer_step w h (d, pos, moved) (NSFB_EVENT_KEY_DOWN k) =
     (if k \<noteq> NSFB_KEY_MOUSE_1 then Some (d, pos, False)
      else if \<not> d \<and> moved then Some (True, pos, False) else None)"
| "pointer_step w h (d, pos, moved) (NSFB_EVENT_KEY_UP k) =
     (if k \<noteq> NSFB_KEY_MOUSE_1 then Some (d, pos, False)
      else if d then Some (False, pos, False) else None)"
| "pointer_step w h p _ = None"

fun pointer_run :: "int \<Rightarrow> int \<Rightarrow> pointer \<Rightarrow> nsfb_event list \<Rightarrow> pointer option" where
  "pointer_run w h p [] = Some p"
| "pointer_run w h p (e # es) =
     (case pointer_step w h p e of None \<Rightarrow> None | Some q \<Rightarrow> pointer_run w h q es)"

lemma pointer_run_append:
  "pointer_run w h p (es @ fs) = (case pointer_run w h p es of None \<Rightarrow> None | Some q \<Rightarrow> pointer_run w h q fs)"
  by (induction es arbitrary: p) (auto split: option.splits)

definition pressed :: "input_state \<Rightarrow> bool" where
  "pressed st \<longleftrightarrow> 0 \<le> primary_slot (multitouch_state st) \<or> mouse_down (pen_state st)"

definition pos :: "input_state \<Rightarrow> (int \<times> int) option" where
  "pos st = (if pointer_valid st then Some (pointer_x st, pointer_y st) else None)"

lemma pos_upd [simp]:
  "pos (s\<lparr>multitouch_state := mt\<rparr>) = pos s" "pos (s\<lparr>pen_state := pen\<rparr>) = pos s"
  "pos (s\<lparr>events_buf := b\<rparr>) = pos s"
  by (simp_all add: pos_def)

text \<open>The queue will take the next \<open>n\<close> events.\<close>

definition input_ready :: "nat \<Rightarrow> input_state \<Rightarrow> bool" where
  "input_ready n st \<longleftrightarrow> ring_inv (events_buf st) \<and> ring_room n (events_buf st) \<and> env_heap st = []"

lemma input_ready_upd [simp]:
  "input_ready n (s\<lparr>multitouch_state := mt\<rparr>) = input_ready n s"
  "input_ready n (s\<lparr>pen_state := pen\<rparr>) = input_ready n s"
  by (simp_all add: input_ready_def)

lemma input_write_room:
  assumes "input_ready (Suc n) s"
  shows "\<exists>b. input_write s e = (True, s\<lparr>events_buf := b\<rparr>) \<and> ring_inv b \<and> ring_room n b
     \<and> ring_list b = ring_list (events_buf s) @ [e]"
proof -
  obtain b where w: "ring_buf_write [] (env_fresh s) (events_buf s) e = (True, b, [])" "ring_room n b"
    using ring_buf_write_room [of "events_buf s" n "env_fresh s" e] assms by (auto simp: input_ready_def)
  have "s\<lparr>events_buf := b, env_heap := []\<rparr> = s\<lparr>events_buf := b\<rparr>"
    using assms by (simp add: input_ready_def)
  then have "input_write s e = (True, s\<lparr>events_buf := b\<rparr>)"
    using w(1) assms by (simp add: input_write_def input_ready_def)
  moreover have "ring_inv b" "ring_list b = ring_list (events_buf s) @ [e]"
    using ring_buf_write_cases [OF _ w(1)] assms by (auto simp: input_ready_def)
  ultimately show ?thesis using w(2) by blast
qed

lemma input_button_emits:
  assumes "input_ready (Suc n) s"
  shows "input_ready n (input_button s d) \<and> pos (input_button s d) = pos s
    \<and> ring_list (events_buf (input_button s d)) = ring_list (events_buf s) @
       [if d then NSFB_EVENT_KEY_DOWN NSFB_KEY_MOUSE_1 else NSFB_EVENT_KEY_UP NSFB_KEY_MOUSE_1]"
  using input_write_room [OF assms, of "if d then NSFB_EVENT_KEY_DOWN NSFB_KEY_MOUSE_1 else NSFB_EVENT_KEY_UP NSFB_KEY_MOUSE_1"] assms
  by (auto simp: input_button_def pos_def input_ready_def)

lemma input_ready_Suc: "input_ready (Suc n) s \<Longrightarrow> input_ready n s"
  by (auto simp: input_ready_def ring_room_def)

lemma input_position_emits:
  assumes "input_ready (Suc n) s"
  shows "input_ready n (input_position s x y f) \<and>
    (if \<not> f \<and> pos s = Some (x, y) then input_position s x y f = s
     else pos (input_position s x y f) = Some (x, y) \<and>
       ring_list (events_buf (input_position s x y f)) =
         ring_list (events_buf s) @ [NSFB_EVENT_MOVE_ABSOLUTE x y 0])"
  using input_write_room [OF assms, of "NSFB_EVENT_MOVE_ABSOLUTE x y 0"] assms input_ready_Suc [OF assms]
  by (auto simp: input_position_def pos_def input_ready_def split: if_splits)

text \<open>
  One handler run, seen through the queue: the events it sends take the pointer
  automaton from the old to the new state.
\<close>

definition pointer_sim :: "input_state \<Rightarrow> input_state \<Rightarrow> bool" where
  "pointer_sim st st' \<longleftrightarrow> screen_width st' = screen_width st \<and> screen_height st' = screen_height st
     \<and> input_ready 0 st' \<and>
     (\<exists>es. ring_list (events_buf st') = ring_list (events_buf st) @ es \<and>
       (\<forall>m. \<exists>m'. pointer_run (screen_width st) (screen_height st) (pressed st, pos st, m) es
              = Some (pressed st', pos st', m')))"

lemma pointer_sim_quiet:
  assumes "input_ready n st" and "events_buf st' = events_buf st" "env_heap st' = env_heap st"
    "pressed st' = pressed st" "pos st' = pos st"
    "screen_width st' = screen_width st" "screen_height st' = screen_height st"
  shows "pointer_sim st st'"
  using assms by (auto simp: pointer_sim_def input_ready_def ring_room_def)

text \<open>The three things the handlers send: a release, a move and a press.\<close>

lemma pointer_sim_release:
  assumes "input_ready 1 st" "pressed st"
    and "st' = (input_button st False)\<lparr>multitouch_state := mt, pen_state := pen\<rparr>"
    and "\<not> 0 \<le> primary_slot mt" "\<not> mouse_down pen"
  shows "pointer_sim st st'"
  using assms input_button_emits [of 0 st False]
  by (auto simp: pointer_sim_def pressed_def)

lemma pointer_sim_move:
  assumes "input_ready 1 st" "on_screen st (x, y)"
    and "multitouch_state st = multitouch_state st0 \<or> 0 \<le> primary_slot (multitouch_state st0)
       \<and> primary_slot (multitouch_state st) = primary_slot (multitouch_state st0)"
    and "events_buf st = events_buf st0" "pos st = pos st0" "pen_state st = pen_state st0"
      "screen_width st = screen_width st0" "screen_height st = screen_height st0"
  shows "pointer_sim st0 (input_position st x y f)"
proof -
  have "pressed (input_position st x y f) = pressed st0"
    using assms(3,6) by (auto simp: pressed_def)
  with assms show ?thesis
    using input_position_emits [of 0 st x y f]
    by (cases "\<not> f \<and> pos st = Some (x, y)") (auto simp: pointer_sim_def on_screen_def)
qed

lemma pointer_sim_press:
  assumes "input_ready 2 st" "on_screen st (x, y)" "\<not> pressed st0"
    and "events_buf st = events_buf st0" "pos st = pos st0"
      "screen_width st = screen_width st0" "screen_height st = screen_height st0"
    and "st' = (input_button (input_position st x y True) True)\<lparr>multitouch_state := mt, pen_state := pen\<rparr>"
    and "0 \<le> primary_slot mt \<or> mouse_down pen"
  shows "pointer_sim st0 st'"
proof -
  have r: "input_ready (Suc (Suc 0)) st" using assms(1) by (simp add: numeral_2_eq_2)
  let ?p = "input_position st x y True"
  have p: "input_ready (Suc 0) ?p" "pos ?p = Some (x, y)"
      "ring_list (events_buf ?p) = ring_list (events_buf st) @ [NSFB_EVENT_MOVE_ABSOLUTE x y 0]"
    using input_position_emits [OF r, of x y True] by auto
  have q: "input_ready 0 (input_button ?p True)" "pos (input_button ?p True) = Some (x, y)"
      "ring_list (events_buf (input_button ?p True)) = ring_list (events_buf st) @
        [NSFB_EVENT_MOVE_ABSOLUTE x y 0, NSFB_EVENT_KEY_DOWN NSFB_KEY_MOUSE_1]"
    using input_button_emits [OF p(1), of True] p by auto
  have "pos st' = Some (x, y)" "pressed st'" "input_ready 0 st'"
    using q assms(8,9) by (auto simp: pressed_def)
  with q assms show ?thesis
    by (auto simp: pointer_sim_def on_screen_def)
qed

lemma pointer_sim_gpio:
  assumes "input_ready 1 st" "e = NSFB_EVENT_KEY_DOWN k \<or> e = NSFB_EVENT_KEY_UP k" "k \<noteq> NSFB_KEY_MOUSE_1"
  shows "pointer_sim st (snd (input_write st e))"
  using assms(2,3) input_write_room [of 0 st e] assms(1)
  by (auto simp: pointer_sim_def pressed_def input_ready_def)

lemma pressed_upd [simp]:
  "primary_slot mt = primary_slot (multitouch_state s) \<Longrightarrow> pressed (s\<lparr>multitouch_state := mt\<rparr>) = pressed s"
  "mouse_down pen = mouse_down (pen_state s) \<Longrightarrow> pressed (s\<lparr>pen_state := pen\<rparr>) = pressed s"
  by (simp_all add: pressed_def)

lemma touch_frame_primary_sim:
  assumes "input_inv st" "input_ready 1 st"
  shows "pointer_sim st (touch_frame_primary st)"
proof -
  let ?mt = "multitouch_state st"
  define slot where "slot = slots ?mt ! nat (primary_slot ?mt)"
  obtain x y where xy: "input_coordinates st False (slot_x slot) (slot_y slot) = (x, y)" by force
  have scr: "on_screen st (x, y)"
    using input_coordinates_on_screen [of st False "slot_x slot" "slot_y slot"] assms(1)
    by (simp add: xy input_inv_def Let_def)
  have geo: "input_ready 1 st" "on_screen (st\<lparr>multitouch_state := mt\<rparr>) (x, y)" for mt
    using assms(2) scr by (simp_all add: on_screen_def)
  consider (none) "primary_slot ?mt < 0"
    | (release) "0 \<le> primary_slot ?mt" "tracking_id slot \<noteq> primary_tracking_id ?mt"
    | (held) "0 \<le> primary_slot ?mt" "tracking_id slot = primary_tracking_id ?mt" by linarith
  then show ?thesis
  proof cases
    case none
    then show ?thesis using pointer_sim_quiet [OF assms(2)] by (simp add: touch_frame_primary_def Let_def)
  next
    case release
    then have "touch_frame_primary st = (input_button st False)\<lparr>multitouch_state := ?mt\<lparr>primary_slot := -1\<rparr>,
        pen_state := pen_state st\<rparr>"
      by (simp add: touch_frame_primary_def Let_def slot_def)
    then show ?thesis
      by (rule pointer_sim_release [OF assms(2), rotated])
        (use release assms(1) in \<open>auto simp: pressed_def input_inv_def Let_def\<close>)
  next
    case held
    define st1 where "st1 = (if \<bar>x - press_x ?mt\<bar> > TOUCH_DRAG_THRESHOLD \<or> \<bar>y - press_y ?mt\<bar> > TOUCH_DRAG_THRESHOLD
       then st\<lparr>multitouch_state := ?mt\<lparr>dragging := True\<rparr>\<rparr> else st)"
    have "touch_frame_primary st = (if dragging (multitouch_state st1) then input_position st1 x y False else st1)"
      using held xy by (simp add: touch_frame_primary_def Let_def slot_def st1_def)
    moreover have "pointer_sim st (input_position st1 x y False)"
      by (rule pointer_sim_move) (use geo scr held in \<open>auto simp: st1_def\<close>)
    moreover have "pointer_sim st st1"
      by (rule pointer_sim_quiet [OF assms(2)]) (auto simp: st1_def)
    ultimately show ?thesis by simp
  qed
qed

lemma pointer_sim_upd:
  "pointer_sim st st' \<Longrightarrow> primary_slot mt = primary_slot (multitouch_state st') \<Longrightarrow>
     pointer_sim st (st'\<lparr>multitouch_state := mt\<rparr>)"
  by (simp add: pointer_sim_def)

lemma touch_frame_press_sim:
  assumes "input_inv st" "input_ready 2 st" "\<not> 0 \<le> primary_slot (multitouch_state st)"
  shows "pointer_sim st (touch_frame_press first st)"
proof (cases "\<not> gesture_active (multitouch_state st) \<and> 0 \<le> first \<and> \<not> mouse_down (pen_state st)")
  case False
  then show ?thesis
    using pointer_sim_quiet [OF assms(2)] by (auto simp: touch_frame_press_def Let_def)
next
  case True
  let ?mt = "multitouch_state st"
  define slot where "slot = slots ?mt ! nat first"
  obtain x y where xy: "input_coordinates st False (slot_x slot) (slot_y slot) = (x, y)" by force
  define mt where "mt = ?mt\<lparr>primary_slot := first, primary_tracking_id := tracking_id slot,
    dragging := False, press_x := x, press_y := y\<rparr>"
  have scr: "on_screen st (x, y)"
    using input_coordinates_on_screen [of st False "slot_x slot" "slot_y slot"] assms(1)
    by (simp add: xy input_inv_def Let_def)
  have "touch_frame_press first st =
      (input_button (input_position (st\<lparr>multitouch_state := mt\<rparr>) x y True) True)
        \<lparr>multitouch_state := mt, pen_state := pen_state st\<rparr>"
    using True xy by (simp add: touch_frame_press_def Let_def slot_def mt_def)
  then show ?thesis
    by (rule pointer_sim_press [rotated 7])
      (use assms scr True in \<open>auto simp: pressed_def on_screen_def mt_def\<close>)
qed

lemma input_touch_frame_sim:
  assumes "input_inv st" "input_ready 2 st"
  shows "pointer_sim st (input_touch_frame st)"
proof -
  define first where "first = first_contact 0 (take (nat (num_slots (multitouch_state st))) (slots (multitouch_state st)))"
  have "input_ready 1 st"
    using assms(2) input_ready_Suc [of 1 st] by (simp add: numeral_2_eq_2)
  then have "pointer_sim st (touch_frame_primary st)" by (rule touch_frame_primary_sim [OF assms(1)])
  moreover have "touch_frame_press first (touch_frame_primary st) = touch_frame_primary st"
    if "0 \<le> primary_slot (multitouch_state st)"
    using that assms(1) touch_frame_primary_inv(2) [OF assms(1)]
    by (simp add: touch_frame_press_def Let_def input_inv_def)
  moreover have "touch_frame_primary st = st" if "\<not> 0 \<le> primary_slot (multitouch_state st)"
    using that by (simp add: touch_frame_primary_def Let_def)
  ultimately have "pointer_sim st (touch_frame_press first (touch_frame_primary st))"
    using touch_frame_press_sim [OF assms] by (cases "0 \<le> primary_slot (multitouch_state st)") simp_all
  then show ?thesis
    unfolding input_touch_frame_def Let_def first_def [symmetric] by (rule pointer_sim_upd) simp
qed

lemma input_process_touch_sim:
  assumes "input_inv st" "input_ready 2 st"
  shows "pointer_sim st (input_process_touch st ev)"
proof (cases "ev_type ev = EV_SYN \<and> ev_code ev = SYN_REPORT")
  case True
  then show ?thesis using input_touch_frame_sim [OF assms] by (simp add: input_process_touch_def Let_def)
next
  case False
  have upd: "pointer_sim st (st\<lparr>multitouch_state := mt\<rparr>)"
    if "primary_slot mt = primary_slot (multitouch_state st)" for mt
    using pointer_sim_quiet [OF assms(2)] that by simp
  have "pointer_sim st st" using pointer_sim_quiet [OF assms(2)] by simp
  with False show ?thesis
    unfolding input_process_touch_def Let_def by (auto intro!: upd)
qed

lemma input_process_pen_sim:
  assumes "input_inv st" "input_ready 2 st"
  shows "pointer_sim st (input_process_pen st ev)"
proof -
  let ?pen = "pen_state st"
  have r1: "input_ready 1 st"
    using assms(2) input_ready_Suc [of 1 st] by (simp add: numeral_2_eq_2)
  obtain x y where xy: "input_coordinates st True (pen_x ?pen) (pen_y ?pen) = (x, y)" by force
  have scr: "on_screen st (x, y)"
    using input_coordinates_on_screen [of st True "pen_x ?pen" "pen_y ?pen"] assms(1)
    by (simp add: xy input_inv_def Let_def)
  have quiet_upd: "pointer_sim st (st\<lparr>pen_state := pen\<rparr>)" if "mouse_down pen = mouse_down ?pen" for pen
    using pointer_sim_quiet [OF assms(2)] that by simp
  consider (quiet) "\<not> (ev_type ev = EV_SYN \<and> ev_code ev = SYN_REPORT \<and> primary_slot (multitouch_state st) < 0)"
    | (release) "primary_slot (multitouch_state st) < 0" "\<not> touched ?pen" "mouse_down ?pen"
        "input_process_pen st ev = (input_button st False)\<lparr>pen_state := ?pen\<lparr>mouse_down := False\<rparr>\<rparr>"
    | (press) "primary_slot (multitouch_state st) < 0" "touched ?pen" "\<not> mouse_down ?pen"
        "input_process_pen st ev = (input_button (input_position st x y True) True)\<lparr>pen_state := ?pen\<lparr>mouse_down := True\<rparr>\<rparr>"
    | (move) "input_process_pen st ev = input_position st x y False"
  proof (cases "ev_type ev = EV_SYN \<and> ev_code ev = SYN_REPORT \<and> primary_slot (multitouch_state st) < 0")
    case True
    then have "input_process_pen st ev =
        (if \<not> touched ?pen \<and> mouse_down ?pen then (input_button st False)\<lparr>pen_state := ?pen\<lparr>mouse_down := False\<rparr>\<rparr>
         else if touched ?pen \<and> \<not> mouse_down ?pen
         then (input_button (input_position st x y True) True)\<lparr>pen_state := ?pen\<lparr>mouse_down := True\<rparr>\<rparr>
         else input_position st x y False)"
      by (auto simp: input_process_pen_def xy Let_def)
    with True show ?thesis using that(2-4) by (cases "touched ?pen"; cases "mouse_down ?pen") simp_all
  qed (rule that(1))
  then show ?thesis
  proof cases
    case quiet
    then have "pointer_sim st st" using pointer_sim_quiet [OF assms(2)] by simp
    with \<open>\<not> _\<close> show ?thesis
      unfolding input_process_pen_def Let_def by (auto intro!: quiet_upd)
  next
    case release
    then have "input_process_pen st ev = (input_button st False)\<lparr>multitouch_state := multitouch_state st,
        pen_state := ?pen\<lparr>mouse_down := False\<rparr>\<rparr>" by simp
    then show ?thesis
      by (rule pointer_sim_release [OF r1, rotated]) (use release in \<open>auto simp: pressed_def\<close>)
  next
    case press
    then have "input_process_pen st ev = (input_button (input_position st x y True) True)
        \<lparr>multitouch_state := multitouch_state st, pen_state := ?pen\<lparr>mouse_down := True\<rparr>\<rparr>" by simp
    then show ?thesis
      by (rule pointer_sim_press [OF assms(2) scr, rotated 5]) (use press in \<open>auto simp: pressed_def\<close>)
  next
    case move
    have "pointer_sim st (input_position st x y False)"
      by (rule pointer_sim_move [OF r1 scr]) simp_all
    with move show ?thesis by simp
  qed
qed

lemma input_process_gpio_sim:
  assumes "input_ready 1 st"
  shows "pointer_sim st (input_process_gpio st ev)"
proof -
  have "pointer_sim st st" by (rule pointer_sim_quiet [OF assms]) simp_all
  then show ?thesis
    unfolding input_process_gpio_def Let_def
    by (auto intro!: pointer_sim_gpio [OF assms])
qed

end
