(* ===== verification/RM_Input_Run.thy ===== *)
theory RM_Input_Run
  imports RM_Input "HOL-Library.Multiset"
begin

text \<open>
  The input thread of \<^verbatim>\<open>input.c\<close>: draining the devices, the polling loop,
  setting up and closing the devices, and the consumer's side.  The reachable
  states of thread and consumer are the runs of a step relation; the event
  history a run leaves is the queue's contents after what was consumed.
\<close>

section \<open>Draining a device\<close>

text \<open>
  What \<^verbatim>\<open>libevdev_next_event\<close> answers, call by call: its return code and the event it
  stored.  \<^const>\<open>None\<close> is a loop still running when the answers are used up.
\<close>

abbreviation (input) EAGAIN :: int where "EAGAIN \<equiv> 11"
abbreviation (input) EINTR :: int where "EINTR \<equiv> 4"
abbreviation (input) LIBEVDEV_READ_STATUS_SYNC :: int where "LIBEVDEV_READ_STATUS_SYNC \<equiv> 1"

type_synonym ev_read = "int \<times> input_event"

fun input_drain ::
  "(input_state \<Rightarrow> input_event \<Rightarrow> input_state) \<Rightarrow> ev_read list \<Rightarrow> bool \<Rightarrow> input_state
     \<Rightarrow> (bool \<times> input_state) option" where
  "input_drain process [] sync st = None"
| "input_drain process ((rc, ev) # reads) sync st =
     (if rc = - EAGAIN then (if sync then input_drain process reads False st else Some (sync, st))
      else if rc = - EINTR then input_drain process reads sync st
      else if rc < 0 then Some (sync, st)
      else let sync = (if rc = LIBEVDEV_READ_STATUS_SYNC then True else sync) in
        if ev_type ev = EV_SYN \<and> ev_code ev = SYN_DROPPED then input_drain process reads sync st
        else input_drain process reads sync (process st ev))"

text \<open>One round of the polling loop: touch screen, buttons, pen.\<close>

definition input_poll :: "ev_read list \<Rightarrow> ev_read list \<Rightarrow> ev_read list \<Rightarrow> input_state \<Rightarrow> input_state option" where
  "input_poll touch gpio pen st =
     (case input_drain input_process_touch touch (touch_sync st) st of None \<Rightarrow> None | Some (s, st) \<Rightarrow>
      (let st = st\<lparr>touch_sync := s\<rparr> in
       case input_drain input_process_gpio gpio (gpio_sync st) st of None \<Rightarrow> None | Some (s, st) \<Rightarrow>
       (let st = st\<lparr>gpio_sync := s\<rparr> in
        case input_drain input_process_pen pen (pen_sync st) st of None \<Rightarrow> None | Some (s, st) \<Rightarrow>
          Some (st\<lparr>pen_sync := s\<rparr>))))"

text \<open>The thread: each round comes with the value of \<^verbatim>\<open>poll_active\<close> it reads.\<close>

fun input_async_handler ::
  "(bool \<times> ev_read list \<times> ev_read list \<times> ev_read list) list \<Rightarrow> input_state \<Rightarrow> input_state option" where
  "input_async_handler [] st = None"
| "input_async_handler ((active, touch, gpio, pen) # rounds) st =
     (if \<not> active then Some st
      else case input_poll touch gpio pen st of None \<Rightarrow> None
        | Some st \<Rightarrow> input_async_handler rounds st)"

text \<open>The loop of \<^verbatim>\<open>input_drain\<close> ends as soon as the device has nothing more to say.\<close>

definition ev_stop :: "ev_read \<Rightarrow> bool" where
  "ev_stop = (\<lambda>(rc, ev). rc < 0 \<and> rc \<noteq> - EINTR)"

definition ev_resync :: "ev_read \<Rightarrow> bool" where
  "ev_resync = (\<lambda>(rc, ev). rc = LIBEVDEV_READ_STATUS_SYNC)"

lemma input_drain_ends:
  "(if sync then 1 else 0) + length (filter ev_resync reads) < length (filter ev_stop reads)
   \<Longrightarrow> input_drain process reads sync st \<noteq> None"
proof (induction process reads sync st rule: input_drain.induct)
  case (2 process rc ev reads sync st)
  consider (again) "rc = - EAGAIN" | (intr) "rc = - EINTR" | (err) "rc < 0" "rc \<noteq> - EAGAIN" "rc \<noteq> - EINTR"
    | (data) "0 \<le> rc" by linarith
  then show ?case
  proof cases
    case again
    then show ?thesis using 2 by (cases sync) (simp_all add: ev_stop_def ev_resync_def)
  next
    case intr
    then show ?thesis using 2 by (simp add: ev_stop_def ev_resync_def)
  next
    case err
    then show ?thesis by simp
  next
    case data
    define s where "s = (if rc = LIBEVDEV_READ_STATUS_SYNC then True else sync)"
    have len: "(if s then 1 else 0) + length (filter ev_resync reads) < length (filter ev_stop reads)"
      using "2.prems" data by (auto simp: s_def ev_stop_def ev_resync_def split: if_splits)
    have "input_drain process ((rc, ev) # reads) sync st =
        (if ev_type ev = EV_SYN \<and> ev_code ev = SYN_DROPPED then input_drain process reads s st
         else input_drain process reads s (process st ev))"
      using data by (simp add: s_def)
    then show ?thesis
      using "2.IH"(3,4) [OF _ _ _ s_def] len data by auto
  qed
qed simp

lemma input_drain_inv:
  assumes "\<And>st ev. P st \<Longrightarrow> P (process st ev)"
  shows "P st \<Longrightarrow> input_drain process reads sync st = Some (sync', st') \<Longrightarrow> P st'"
  using assms
proof (induction process reads sync st rule: input_drain.induct)
  case (2 process rc ev reads sync st)
  then show ?case by (auto simp: Let_def split: if_splits)
qed simp

section \<open>Interleavings\<close>

text \<open>
  A configuration is the state and the events the user interface has taken.  The
  mutex of the ring buffer makes each queue operation atomic, everything else
  belongs to the input thread alone, and a consumer step between two writes of
  one handler leaves the same history; so handlers are single steps.
\<close>

type_synonym input_config = "input_state \<times> nsfb_event list"

inductive input_step :: "input_config \<Rightarrow> input_config \<Rightarrow> bool" where
  step_touch: "input_step (st, out) (input_process_touch st ev, out)"
| step_gpio: "input_step (st, out) (input_process_gpio st ev, out)"
| step_pen: "input_step (st, out) (input_process_pen st ev, out)"
| step_get: "queue_get (events_buf st) = Some (e, b) \<Longrightarrow>
    input_step (st, out) (st\<lparr>events_buf := b\<rparr>, out @ [e])"

text \<open>Runs whose configurations satisfy \<open>G\<close> before every step.\<close>

inductive input_run :: "(input_config \<Rightarrow> bool) \<Rightarrow> input_config \<Rightarrow> input_config \<Rightarrow> bool"
  for G :: "input_config \<Rightarrow> bool" where
  run_refl: "input_run G c c"
| run_step: "input_run G c d \<Longrightarrow> G d \<Longrightarrow> input_step d e \<Longrightarrow> input_run G c e"

definition input_history :: "input_config \<Rightarrow> nsfb_event list" where
  "input_history = (\<lambda>(st, out). out @ ring_list (events_buf st))"

lemma input_inv_get: "input_inv st \<Longrightarrow> ring_inv b \<Longrightarrow> input_inv (st\<lparr>events_buf := b\<rparr>)"
  by (simp add: input_inv_def input_geometry_ok_def Let_def)

lemma input_step_inv: "input_step c d \<Longrightarrow> input_inv (fst c) \<Longrightarrow> input_inv (fst d)"
proof (induction rule: input_step.induct)
  case (step_get st e b out)
  then have "ring_inv (events_buf st)" by (simp add: input_inv_def Let_def)
  with step_get show ?case
    using ring.get_invar [of "events_buf st" e b] by (auto intro: input_inv_get)
qed (simp_all add: input_process_touch_inv input_process_pen_inv input_process_gpio_inv)

lemma input_run_inv: "input_run G c d \<Longrightarrow> input_inv (fst c) \<Longrightarrow> input_inv (fst d)"
  by (induction rule: input_run.induct) (auto intro: input_step_inv)

definition config_size :: "input_config \<Rightarrow> int \<times> int" where
  "config_size c = (screen_width (fst c), screen_height (fst c))"

definition config_follows :: "input_config \<Rightarrow> bool" where
  "config_follows c \<longleftrightarrow> (\<exists>m. pointer_run (screen_width (fst c)) (screen_height (fst c))
     (False, None, False) (input_history c) = Some (pressed (fst c), pos (fst c), m))"

lemma pointer_sim_follows:
  assumes "pointer_sim st st'" "config_follows (st, out)"
  shows "config_follows (st', out) \<and> config_size (st', out) = config_size (st, out)"
proof -
  obtain es m where es: "ring_list (events_buf st') = ring_list (events_buf st) @ es"
    and m: "pointer_run (screen_width st) (screen_height st) (False, None, False)
      (out @ ring_list (events_buf st)) = Some (pressed st, pos st, m)"
    and "\<forall>m. \<exists>m'. pointer_run (screen_width st) (screen_height st) (pressed st, pos st, m) es
      = Some (pressed st', pos st', m')"
    and "screen_width st' = screen_width st" "screen_height st' = screen_height st"
    using assms by (auto simp: pointer_sim_def config_follows_def input_history_def)
  moreover from this(3) obtain m' where
    "pointer_run (screen_width st) (screen_height st) (pressed st, pos st, m) es
      = Some (pressed st', pos st', m')" by blast
  ultimately show ?thesis
    using pointer_run_append [of "screen_width st" "screen_height st" "(False, None, False)"
        "out @ ring_list (events_buf st)" es]
    by (auto simp: config_follows_def input_history_def config_size_def)
qed

lemma input_step_follows:
  "input_step c d \<Longrightarrow> input_inv (fst c) \<Longrightarrow> input_ready 2 (fst c) \<Longrightarrow> config_follows c \<Longrightarrow>
     config_follows d \<and> config_size d = config_size c"
proof (induction rule: input_step.induct)
  case (step_touch st out ev)
  then show ?case using pointer_sim_follows [OF input_process_touch_sim] by simp
next
  case (step_gpio st out ev)
  then have "input_ready 1 st" using input_ready_Suc [of 1 st] by (simp add: numeral_2_eq_2)
  with step_gpio show ?case using pointer_sim_follows [OF input_process_gpio_sim] by simp
next
  case (step_pen st out ev)
  then show ?case using pointer_sim_follows [OF input_process_pen_sim] by simp
next
  case (step_get st e b out)
  then have "ring_list (events_buf st) = e # ring_list b"
    using ring.get_items [of "events_buf st" e b] by (simp add: input_ready_def)
  with step_get show ?case
    by (simp add: config_follows_def input_history_def config_size_def pressed_def)
qed

definition config_ready :: "input_config \<Rightarrow> bool" where
  "config_ready c \<longleftrightarrow> input_ready 2 (fst c)"

lemma input_run_follows:
  "input_run config_ready c d \<Longrightarrow> input_inv (fst c) \<Longrightarrow> config_follows c \<Longrightarrow>
     config_follows d \<and> config_size d = config_size c"
proof (induction rule: input_run.induct)
  case (run_step c d e)
  then have "input_inv (fst d)" using input_run_inv by blast
  with run_step show ?case
    using input_step_follows [of d e] by (auto simp: config_ready_def)
qed simp

section \<open>Opening the devices\<close>

text \<open>What libevdev knows about a device.\<close>

record evdev =
  has_event_code :: "int \<Rightarrow> int \<Rightarrow> bool"
  abs_info :: "int \<Rightarrow> (int \<times> int) option"
  dev_num_slots :: int
  dev_current_slot :: int
  slot_value :: "int \<Rightarrow> int \<Rightarrow> int"
  event_value :: "int \<Rightarrow> int \<Rightarrow> int"

text \<open>
  A directory entry: its name, the descriptor \<^verbatim>\<open>open\<close> returns for it (negative on
  failure) and whether \<^verbatim>\<open>libevdev_new_from_fd\<close> accepts it.  The open descriptors are
  a multiset; a device is known by its descriptor.
\<close>

record dir_entry =
  d_name :: string
  open_fd :: int
  evdev_ok :: bool

definition input_close_device :: "int option \<Rightarrow> int multiset \<Rightarrow> int multiset" where
  "input_close_device dev fds = (case dev of None \<Rightarrow> fds | Some fd \<Rightarrow> fds - {#fd#})"

datatype dev_target = Target_touch | Target_pen | Target_gpio

definition classify :: "evdev \<Rightarrow> dev_target option" where
  "classify dev =
     (if has_event_code dev EV_ABS ABS_MT_SLOT \<and> has_event_code dev EV_ABS ABS_MT_TRACKING_ID
         \<and> has_event_code dev EV_ABS ABS_MT_POSITION_X \<and> has_event_code dev EV_ABS ABS_MT_POSITION_Y
      then Some Target_touch
      else if has_event_code dev EV_KEY BTN_STYLUS then Some Target_pen
      else if has_event_code dev EV_KEY KEY_POWER then Some Target_gpio
      else None)"

fun input_scan_devices ::
  "(int \<Rightarrow> evdev) \<Rightarrow> dir_entry list \<Rightarrow> input_state \<times> int multiset \<Rightarrow> input_state \<times> int multiset" where
  "input_scan_devices evdevs [] (st, fds) = (st, fds)"
| "input_scan_devices evdevs (entry # entries) (st, fds) =
     (if take 5 (d_name entry) \<noteq> ''event'' then input_scan_devices evdevs entries (st, fds)
      else let fd = open_fd entry in
        if fd < 0 then input_scan_devices evdevs entries (st, fds)
        else let fds = add_mset fd fds in
          if \<not> evdev_ok entry then input_scan_devices evdevs entries (st, fds - {#fd#})
          else case classify (evdevs fd) of
              Some Target_touch \<Rightarrow>
                (if touch_dev st = None then input_scan_devices evdevs entries (st\<lparr>touch_dev := Some fd\<rparr>, fds)
                 else input_scan_devices evdevs entries (st, input_close_device (Some fd) fds))
            | Some Target_pen \<Rightarrow>
                (if pen_dev st = None then input_scan_devices evdevs entries (st\<lparr>pen_dev := Some fd\<rparr>, fds)
                 else input_scan_devices evdevs entries (st, input_close_device (Some fd) fds))
            | Some Target_gpio \<Rightarrow>
                (if gpio_dev st = None then input_scan_devices evdevs entries (st\<lparr>gpio_dev := Some fd\<rparr>, fds)
                 else input_scan_devices evdevs entries (st, input_close_device (Some fd) fds))
            | None \<Rightarrow> input_scan_devices evdevs entries (st, input_close_device (Some fd) fds))"

definition strncmp_eq :: "string \<Rightarrow> string \<Rightarrow> bool" where
  "strncmp_eq s p \<longleftrightarrow> take (length p) s = p"

text \<open>
  \<open>machine\<close> is what could be read of \<^verbatim>\<open>/sys/devices/soc0/machine\<close>, \<open>dir\<close> the entries of
  \<^verbatim>\<open>/dev/input\<close>; either may be missing.
\<close>

definition input_identify_input_devices ::
  "(int \<Rightarrow> evdev) \<Rightarrow> string option \<Rightarrow> dir_entry list option \<Rightarrow> input_state \<times> int multiset
     \<Rightarrow> int \<times> input_state \<times> int multiset" where
  "input_identify_input_devices evdevs machine dir = (\<lambda>(st, fds).
     case machine of None \<Rightarrow> (-1, st, fds)
     | Some m \<Rightarrow>
        if m = [] then (-1, st, fds)
        else let m = take 49 m in
        if \<not> (strncmp_eq m ''reMarkable 1.0'' \<or> strncmp_eq m ''reMarkable Prototype 1''
              \<or> strncmp_eq m ''reMarkable 2.0'') then (-1, st, fds)
        else let st = st\<lparr>model := (if strncmp_eq m ''reMarkable 1.0'' \<or> strncmp_eq m ''reMarkable Prototype 1''
                                    then RM1 else RM2)\<rparr>
        in case dir of None \<Rightarrow> (-1, st, fds)
          | Some entries \<Rightarrow>
             let (st, fds) = input_scan_devices evdevs entries (st, fds)
             in (if touch_dev st \<noteq> None \<and> pen_dev st \<noteq> None \<and> gpio_dev st \<noteq> None then 0 else -1, st, fds))"

definition held :: "input_state \<Rightarrow> int multiset" where
  "held st = (case touch_dev st of None \<Rightarrow> {#} | Some fd \<Rightarrow> {#fd#})
     + (case pen_dev st of None \<Rightarrow> {#} | Some fd \<Rightarrow> {#fd#})
     + (case gpio_dev st of None \<Rightarrow> {#} | Some fd \<Rightarrow> {#fd#})"

text \<open>The scan closes every descriptor it does not hand to the state.\<close>

lemma input_scan_device_step:
  "\<exists>st1. input_scan_devices evdevs (e # es) (st, F + held st) = input_scan_devices evdevs es (st1, F + held st1)"
proof (cases "take 5 (d_name e) \<noteq> ''event'' \<or> open_fd e < 0 \<or> \<not> evdev_ok e")
  case True
  then show ?thesis by (intro exI [of _ st]) (auto simp: Let_def)
next
  case False
  define s where "s = (case classify (evdevs (open_fd e)) of
      Some Target_touch \<Rightarrow> if touch_dev st = None then st\<lparr>touch_dev := Some (open_fd e)\<rparr> else st
    | Some Target_pen \<Rightarrow> if pen_dev st = None then st\<lparr>pen_dev := Some (open_fd e)\<rparr> else st
    | Some Target_gpio \<Rightarrow> if gpio_dev st = None then st\<lparr>gpio_dev := Some (open_fd e)\<rparr> else st
    | None \<Rightarrow> st)"
  consider "classify (evdevs (open_fd e)) = None" | t where "classify (evdevs (open_fd e)) = Some t" by blast
  then have "input_scan_devices evdevs (e # es) (st, F + held st) = input_scan_devices evdevs es (s, F + held s)"
  proof cases
    case 2
    with False show ?thesis
      by (cases t) (simp_all add: s_def input_close_device_def held_def Let_def)
  qed (use False in \<open>simp add: s_def input_close_device_def Let_def\<close>)
  then show ?thesis by blast
qed

lemma input_scan_devices_fds:
  "input_scan_devices evdevs entries (st, F + held st) = (st', fds') \<Longrightarrow> fds' = F + held st'"
proof (induction entries arbitrary: st)
  case (Cons e es)
  then show ?case using input_scan_device_step [of evdevs e es st F] by auto
qed simp

section \<open>Setting up\<close>

definition input_axis_range :: "evdev \<Rightarrow> int \<Rightarrow> (int \<times> int) option" where
  "input_axis_range dev code = (case abs_info dev code of None \<Rightarrow> None
     | Some (mn, mx) \<Rightarrow> if mx \<le> mn then None else Some (mn, mx))"

text \<open>\<^verbatim>\<open>memset(state, 0, sizeof(*state))\<close>.\<close>

definition input_zero :: "heap \<Rightarrow> (nat \<Rightarrow> nsfb_event) \<Rightarrow> input_state" where
  "input_zero h g = \<lparr>model = RM1, pen_dev = None, gpio_dev = None, touch_dev = None,
     pen_sync = False, gpio_sync = False, touch_sync = False,
     events_buf = \<lparr>buffer = [], capacity = 0, elem_size = 0, head = 0, tail = 0, used = 0\<rparr>,
     multitouch_state = \<lparr>mt_min_x = 0, mt_max_x = 0, mt_min_y = 0, mt_max_y = 0,
       current_slot = 0, num_slots = 0, slots = [], primary_slot = 0, primary_tracking_id = 0,
       gesture_active = False, dragging = False, press_x = 0, press_y = 0\<rparr>,
     pen_state = \<lparr>pen_min_x = 0, pen_max_x = 0, pen_min_y = 0, pen_max_y = 0, pen_x = 0, pen_y = 0,
       touched = False, mouse_down = False\<rparr>,
     poll_active = False, screen_width = 0, screen_height = 0,
     orientation = SCREEN_ORIENTATION_PORTRAIT, trace = False, pointer_valid = False,
     pointer_x = 0, pointer_y = 0, env_heap = h, env_fresh = g\<rparr>"

text \<open>The axis ranges and the contacts already on the screen.\<close>

definition input_ranges :: "evdev \<Rightarrow> evdev \<Rightarrow> input_state \<Rightarrow> input_state option" where
  "input_ranges touch pen st = (let n = dev_num_slots touch in
     if n \<le> 0 then None else
     case input_axis_range touch ABS_MT_POSITION_X of None \<Rightarrow> None | Some (tx0, tx1) \<Rightarrow>
     (case input_axis_range touch ABS_MT_POSITION_Y of None \<Rightarrow> None | Some (ty0, ty1) \<Rightarrow>
     (case input_axis_range pen ABS_X of None \<Rightarrow> None | Some (px0, px1) \<Rightarrow>
     (case input_axis_range pen ABS_Y of None \<Rightarrow> None | Some (py0, py1) \<Rightarrow>
       Some (st\<lparr>multitouch_state := (multitouch_state st)\<lparr>num_slots := n,
                  mt_min_x := tx0, mt_max_x := tx1, mt_min_y := ty0, mt_max_y := ty1\<rparr>,
                pen_state := (pen_state st)\<lparr>pen_min_x := px0, pen_max_x := px1,
                  pen_min_y := py0, pen_max_y := py1\<rparr>\<rparr>)))))"

definition input_initial_slots :: "evdev \<Rightarrow> int \<Rightarrow> input_single_state list" where
  "input_initial_slots touch n = map (\<lambda>i.
     \<lparr>tracking_id = slot_value touch i ABS_MT_TRACKING_ID,
      slot_x = slot_value touch i ABS_MT_POSITION_X,
      slot_y = slot_value touch i ABS_MT_POSITION_Y\<rparr>) [0..n - 1]"

definition input_contacts :: "evdev \<Rightarrow> evdev \<Rightarrow> nsfb \<Rightarrow> bool \<Rightarrow> input_state \<Rightarrow> input_state" where
  "input_contacts touch pen nsfb trace_env st = (let mt = multitouch_state st;
       ss = input_initial_slots touch (num_slots mt)
     in st\<lparr>multitouch_state := mt\<lparr>primary_slot := -1, current_slot := dev_current_slot touch,
              slots := ss, gesture_active := list_ex (\<lambda>s. tracking_id s \<ge> 0) ss\<rparr>,
           pen_state := (pen_state st)\<lparr>pen_x := event_value pen EV_ABS ABS_X,
              pen_y := event_value pen EV_ABS ABS_Y,
              touched := (event_value pen EV_KEY BTN_TOUCH \<noteq> 0)\<rparr>,
           screen_width := nsfb_width nsfb, screen_height := nsfb_height nsfb,
           orientation := (if nsfb_orientation nsfb \<noteq> 0 then SCREEN_ORIENTATION_LANDSCAPE
                           else SCREEN_ORIENTATION_PORTRAIT),
           trace := trace_env\<rparr>)"

text \<open>The label \<^verbatim>\<open>fail\<close>.\<close>

definition input_fail :: "input_state \<Rightarrow> int multiset \<Rightarrow> int \<times> input_state \<times> int multiset" where
  "input_fail st fds = (let
     fds = input_close_device (touch_dev st) fds;
     fds = input_close_device (pen_dev st) fds;
     fds = input_close_device (gpio_dev st) fds
   in (-1, st\<lparr>touch_dev := None, pen_dev := None, gpio_dev := None\<rparr>, fds))"

text \<open>\<^verbatim>\<open>sizeof(nsfb_event_t)\<close> on the 32-bit target: the type and a union of three ints.\<close>

definition sizeof_nsfb_event :: nat where
  "sizeof_nsfb_event = 16"

record sys_env =
  sys_machine :: "string option"
  sys_dir :: "dir_entry list option"
  sys_evdevs :: "int \<Rightarrow> evdev"
  sys_trace :: bool
  sys_ring_mutex :: bool
  sys_ring_cond :: bool
  sys_mutex :: bool
  sys_thread :: bool

definition input_initialize ::
  "sys_env \<Rightarrow> heap \<Rightarrow> (nat \<Rightarrow> nsfb_event) \<Rightarrow> nsfb \<Rightarrow> int multiset \<Rightarrow> int \<times> input_state \<times> int multiset" where
  "input_initialize sys h g nsfb fds = (let
     (rc, st, fds) = input_identify_input_devices (sys_evdevs sys) (sys_machine sys) (sys_dir sys)
       (input_zero h g, fds)
   in if rc \<noteq> 0 then input_fail st fds
      else let touch = sys_evdevs sys (the (touch_dev st)); pen = sys_evdevs sys (the (pen_dev st)) in
      case input_ranges touch pen st of None \<Rightarrow> input_fail st fds
      | Some st \<Rightarrow>
        (let (ok, h) = alloc (env_heap st); st = st\<lparr>env_heap := h\<rparr> in
         if \<not> ok then input_fail st fds
         else let st = input_contacts touch pen nsfb (sys_trace sys) st in
           case ring_buf_init (env_heap st) g (sys_ring_mutex sys) (sys_ring_cond sys) 50 sizeof_nsfb_event of
             (None, h) \<Rightarrow> input_fail (st\<lparr>env_heap := h\<rparr>) fds
           | (Some b, h) \<Rightarrow>
             (let st = st\<lparr>events_buf := b, env_heap := h\<rparr> in
              if \<not> sys_mutex sys then input_fail (st\<lparr>events_buf := ring_buf_free b\<rparr>) fds
              else let st = st\<lparr>poll_active := True\<rparr> in
                if \<not> sys_thread sys then input_fail (st\<lparr>events_buf := ring_buf_free b\<rparr>) fds
                else (0, st, fds))))"

definition input_finalize :: "input_state \<Rightarrow> int multiset \<Rightarrow> int \<times> input_state \<times> int multiset" where
  "input_finalize st fds = (let
     st = st\<lparr>poll_active := False\<rparr>;
     fds = input_close_device (gpio_dev st) fds;
     fds = input_close_device (pen_dev st) fds;
     fds = input_close_device (touch_dev st) fds
   in (0, st\<lparr>gpio_dev := None, pen_dev := None, touch_dev := None,
        multitouch_state := (multitouch_state st)\<lparr>slots := []\<rparr>,
        events_buf := ring_buf_free (events_buf st)\<rparr>, fds))"

lemma input_close_all:
  "input_close_device (gpio_dev st) (input_close_device (pen_dev st)
     (input_close_device (touch_dev st) (F + held st))) = F"
  "input_close_device (touch_dev st) (input_close_device (pen_dev st)
     (input_close_device (gpio_dev st) (F + held st))) = F"
  by (cases "touch_dev st"; cases "pen_dev st"; cases "gpio_dev st";
      simp add: input_close_device_def held_def)+

lemma input_fail_fds: "input_fail st (F + held st) = (-1, st\<lparr>touch_dev := None, pen_dev := None, gpio_dev := None\<rparr>, F)"
  by (simp add: input_fail_def Let_def input_close_all(1))

lemma held_upd [simp]:
  "held (st\<lparr>multitouch_state := mt\<rparr>) = held st" "held (st\<lparr>pen_state := pen\<rparr>) = held st"
  "held (st\<lparr>env_heap := h\<rparr>) = held st" "held (st\<lparr>events_buf := b\<rparr>) = held st"
  "held (st\<lparr>poll_active := a\<rparr>) = held st" "held (st\<lparr>model := m\<rparr>) = held st"
  by (simp_all add: held_def)

lemma input_identify_fds:
  assumes "input_identify_input_devices evdevs machine dir (st, F + held st) = (rc, st', fds')"
  shows "fds' = F + held st' \<and> (rc = 0 \<or> rc = -1)
    \<and> (rc = 0 \<longrightarrow> touch_dev st' \<noteq> None \<and> pen_dev st' \<noteq> None \<and> gpio_dev st' \<noteq> None)"
proof -
  have scan: "fds1 = F + held st1" if "input_scan_devices evdevs es (st\<lparr>model := m\<rparr>, F + held st) = (st1, fds1)"
    for es m st1 fds1
    using input_scan_devices_fds [of evdevs es "st\<lparr>model := m\<rparr>" F] that by simp
  show ?thesis
    using assms unfolding input_identify_input_devices_def Let_def
    by (auto split: option.splits if_splits prod.splits dest!: scan)
qed

lemma input_ranges_ok:
  assumes "input_ranges touch pen st = Some st'"
  shows "held st' = held st" "0 < num_slots (multitouch_state st')"
    "axis_ok (mt_min_x (multitouch_state st')) (mt_max_x (multitouch_state st'))"
    "axis_ok (mt_min_y (multitouch_state st')) (mt_max_y (multitouch_state st'))"
    "axis_ok (pen_min_x (pen_state st')) (pen_max_x (pen_state st'))"
    "axis_ok (pen_min_y (pen_state st')) (pen_max_y (pen_state st'))"
    "mouse_down (pen_state st') = mouse_down (pen_state st)" "pointer_valid st' = pointer_valid st"
    "touch_dev st' = touch_dev st" "pen_dev st' = pen_dev st" "gpio_dev st' = gpio_dev st"
  using assms
  by (auto simp: input_ranges_def input_axis_range_def axis_ok_def Let_def held_def
      split: option.splits if_splits)

lemma input_contacts_frame [simp]:
  "held (input_contacts touch pen nsfb t st) = held st"
  "env_heap (input_contacts touch pen nsfb t st) = env_heap st"
  "pointer_valid (input_contacts touch pen nsfb t st) = pointer_valid st"
  "touch_dev (input_contacts touch pen nsfb t st) = touch_dev st"
  "pen_dev (input_contacts touch pen nsfb t st) = pen_dev st"
  "gpio_dev (input_contacts touch pen nsfb t st) = gpio_dev st"
  by (simp_all add: input_contacts_def held_def Let_def)

text \<open>A fresh state: nothing pressed, no position reported, nothing queued.\<close>

definition input_fresh :: "input_state \<Rightarrow> bool" where
  "input_fresh st \<longleftrightarrow> \<not> pressed st \<and> pos st = None \<and> ring_list (events_buf st) = []
     \<and> capacity (events_buf st) = 50"

lemma input_contacts_inv:
  assumes "input_ranges touch pen st0 = Some st" "ring_inv b" "0 < nsfb_width nsfb" "0 < nsfb_height nsfb"
    and "\<not> mouse_down (pen_state st0)"
  shows "input_inv ((input_contacts touch pen nsfb t (st\<lparr>env_heap := h'\<rparr>))\<lparr>events_buf := b, env_heap := h, poll_active := a\<rparr>)"
  using input_ranges_ok [OF assms(1)] assms(2-)
  by (simp add: input_inv_def input_geometry_ok_def input_contacts_def Let_def input_initial_slots_def)

lemma input_identify_frame:
  assumes "input_identify_input_devices evdevs machine dir (st, fds) = (rc, st', fds')"
  shows "multitouch_state st' = multitouch_state st \<and> pen_state st' = pen_state st
    \<and> pointer_valid st' = pointer_valid st \<and> env_heap st' = env_heap st"
proof -
  have step: "\<exists>st1 fds1. input_scan_devices evdevs (e # es) (st, fds) = input_scan_devices evdevs es (st1, fds1)
      \<and> multitouch_state st1 = multitouch_state st \<and> pen_state st1 = pen_state st
      \<and> pointer_valid st1 = pointer_valid st \<and> env_heap st1 = env_heap st" for e es st fds
    by (auto simp: Let_def split: option.splits dev_target.splits)
  have scan: "input_scan_devices evdevs es (st, fds) = (st', fds') \<Longrightarrow>
      multitouch_state st' = multitouch_state st \<and> pen_state st' = pen_state st
      \<and> pointer_valid st' = pointer_valid st \<and> env_heap st' = env_heap st" for es st fds st' fds'
  proof (induction es arbitrary: st fds)
    case (Cons e es)
    from step [of e es st fds] Cons show ?case by force
  qed simp
  show ?thesis
    using assms unfolding input_identify_input_devices_def Let_def
    by (auto split: option.splits if_splits prod.splits dest: scan)
qed

lemma input_initialize_cases:
  assumes "input_initialize sys h g nsfb F = (rc, st, fds)"
  shows "(rc = -1 \<and> fds = F \<and> held st = {#}) \<or>
    (rc = 0 \<and> fds = F + held st \<and> size (held st) = 3 \<and> poll_active st \<and> input_fresh st
      \<and> (0 < nsfb_width nsfb \<and> 0 < nsfb_height nsfb \<longrightarrow> input_inv st))"
proof -
  let ?z = "input_zero h g"
  obtain rc1 st1 fds1 where id: "input_identify_input_devices (sys_evdevs sys) (sys_machine sys) (sys_dir sys)
      (?z, F) = (rc1, st1, fds1)" using prod_cases3 by blast
  have hz: "held ?z = {#}" by (simp add: held_def input_zero_def)
  then have id': "input_identify_input_devices (sys_evdevs sys) (sys_machine sys) (sys_dir sys)
      (?z, F + held ?z) = (rc1, st1, fds1)" using id by simp
  have fds1: "fds1 = F + held st1" and rc1: "rc1 = 0 \<or> rc1 = -1"
    and devs: "rc1 = 0 \<Longrightarrow> touch_dev st1 \<noteq> None \<and> pen_dev st1 \<noteq> None \<and> gpio_dev st1 \<noteq> None"
    using input_identify_fds [OF id'] by auto
  have frame: "\<not> mouse_down (pen_state st1)" "\<not> pointer_valid st1"
    using input_identify_frame [OF id] by (simp_all add: input_zero_def)
  have fail: "input_fail s (F + held st1) = (rc, st, fds) \<Longrightarrow> held s = held st1 \<Longrightarrow>
      rc = -1 \<and> fds = F \<and> held st = {#}" for s
    using input_fail_fds [of s F] by (auto simp: held_def)
  let ?touch = "sys_evdevs sys (the (touch_dev st1))" and ?pen = "sys_evdevs sys (the (pen_dev st1))"
  show ?thesis
  proof (cases "rc1 = 0")
    case False
    with assms fail [of st1] show ?thesis by (simp add: input_initialize_def id fds1)
  next
    case True
    then have sz: "size (held st1) = 3" using devs by (auto simp: held_def)
    show ?thesis
    proof (cases "input_ranges ?touch ?pen st1")
      case None
      with assms True fail [of st1] show ?thesis by (simp add: input_initialize_def id fds1 Let_def)
    next
      case (Some st2)
      obtain ok h2 where al: "alloc (env_heap st2) = (ok, h2)" by force
      let ?c = "input_contacts ?touch ?pen nsfb (sys_trace sys) (st2\<lparr>env_heap := h2\<rparr>)"
      obtain b h3 where ri: "ring_buf_init h2 g (sys_ring_mutex sys) (sys_ring_cond sys) 50 sizeof_nsfb_event = (b, h3)"
        by force
      note r = input_ranges_ok [OF Some]
      have eq: "input_initialize sys h g nsfb F = (if \<not> ok then input_fail (st2\<lparr>env_heap := h2\<rparr>) (F + held st1)
        else case b of None \<Rightarrow> input_fail (?c\<lparr>env_heap := h3\<rparr>) (F + held st1)
         | Some b \<Rightarrow>
          if \<not> sys_mutex sys then input_fail (?c\<lparr>env_heap := h3, events_buf := ring_buf_free b\<rparr>) (F + held st1)
          else if \<not> sys_thread sys
            then input_fail (?c\<lparr>env_heap := h3, poll_active := True, events_buf := ring_buf_free b\<rparr>) (F + held st1)
          else (0, ?c\<lparr>events_buf := b, env_heap := h3, poll_active := True\<rparr>, F + held st1))"
        using True by (simp add: input_initialize_def id fds1 Let_def Some al ri split: option.splits)
      show ?thesis
      proof (cases "ok \<and> b \<noteq> None \<and> sys_mutex sys \<and> sys_thread sys")
        case False
        then show ?thesis using assms r(1) unfolding eq
          by (auto split: if_splits option.splits dest!: fail)
      next
        case True
        then obtain q where b: "b = Some q" by auto
        have q: "ring_inv q" "ring_list q = []" "capacity q = 50"
          using ring_buf_init_inv [OF ri [unfolded b]] by auto
        let ?s = "?c\<lparr>events_buf := q, env_heap := h3, poll_active := True\<rparr>"
        have st: "rc = 0" "st = ?s" "fds = F + held st1" using assms True b unfolding eq by auto
        have "primary_slot (multitouch_state ?s) = -1" "\<not> mouse_down (pen_state ?s)"
          using r(7) frame(1) by (simp_all add: input_contacts_def Let_def)
        moreover have "\<not> pointer_valid ?s" using r(8) frame(2) by simp
        ultimately have "input_fresh ?s" using q by (simp add: input_fresh_def pressed_def pos_def)
        moreover have "input_inv ?s" if "0 < nsfb_width nsfb" "0 < nsfb_height nsfb"
          using input_contacts_inv [OF Some q(1) that frame(1)] .
        moreover have "held ?s = held st1" using r(1) by simp
        ultimately show ?thesis using st sz by simp
      qed
    qed
  qed
qed

section \<open>Taking an event\<close>

definition MAX_EVENT_POLL_TIMEOUT_MS :: int where
  "MAX_EVENT_POLL_TIMEOUT_MS = 250"

definition input_timeout :: "int \<Rightarrow> int" where
  "input_timeout timeout =
     (if timeout < 0 \<or> timeout > MAX_EVENT_POLL_TIMEOUT_MS then MAX_EVENT_POLL_TIMEOUT_MS else timeout)"

text \<open>The deadline as seconds and nanoseconds, from the current time.\<close>

definition input_deadline :: "int \<Rightarrow> int \<times> int \<Rightarrow> int \<times> int" where
  "input_deadline timeout = (\<lambda>(tv_sec, tv_nsec). let
     tv_nsec = tv_nsec + input_timeout timeout * 1000000;
     tv_sec = tv_sec + cdiv tv_nsec 1000000000;
     tv_nsec = cmod tv_nsec 1000000000
   in (tv_sec, tv_nsec))"

definition input_get_next_event ::
  "(int \<times> nsfb_event list) list \<Rightarrow> int \<Rightarrow> int \<times> int \<Rightarrow> input_state
     \<Rightarrow> ((int \<times> int) \<times> nsfb_event option \<times> input_state) option" where
  "input_get_next_event wakes timeout now st =
     (case ring_buf_wait (env_fresh st) wakes (env_heap st, events_buf st) of None \<Rightarrow> None
      | Some (e, h, b) \<Rightarrow> Some (input_deadline timeout now, e, st\<lparr>events_buf := b, env_heap := h\<rparr>))"

section \<open>The surface's input side\<close>

text \<open>The remaining entries of \<^verbatim>\<open>remarkable.c\<close>; \<^const>\<open>None\<close> is a call of \<^verbatim>\<open>exit\<close>.\<close>

definition rm_initialise ::
  "sys_env \<Rightarrow> heap \<Rightarrow> (nat \<Rightarrow> nsfb_event) \<Rightarrow> fb_state \<Rightarrow> nsfb \<Rightarrow> int multiset
     \<Rightarrow> (int \<times> input_state \<times> nsfb \<times> int multiset) option" where
  "rm_initialise sys h g fbst nsfb fds =
     (let (rc, st, fds) = input_initialize sys h g nsfb fds
      in if rc \<noteq> 0 then None else Some (0, st, rm_map_fb fbst nsfb, fds))"

definition rm_finalise ::
  "bool \<Rightarrow> bool \<Rightarrow> fb_state \<Rightarrow> input_state \<Rightarrow> int multiset \<Rightarrow> int \<times> fb_state \<times> input_state \<times> int multiset" where
  "rm_finalise close_ok munmap_ok fbst st fds =
     (let (_, fbst) = fb_finalize close_ok munmap_ok fbst; (_, st, fds) = input_finalize st fds
      in (0, fbst, st, fds))"

definition rm_input ::
  "(int \<times> nsfb_event list) list \<Rightarrow> int \<Rightarrow> int \<times> int \<Rightarrow> input_state
     \<Rightarrow> ((int \<times> int) \<times> nsfb_event option \<times> input_state) option" where
  "rm_input wakes timeout now st = input_get_next_event wakes timeout now st"

section \<open>Which events a touch frame sends\<close>

abbreviation "BUTTON_DOWN \<equiv> NSFB_EVENT_KEY_DOWN NSFB_KEY_MOUSE_1"
abbreviation "BUTTON_UP \<equiv> NSFB_EVENT_KEY_UP NSFB_KEY_MOUSE_1"

definition contact :: "input_state \<Rightarrow> bool" where
  "contact st \<longleftrightarrow> (\<exists>s \<in> set (slots (multitouch_state st)). 0 \<le> tracking_id s)"

lemma touch_frame_primary_events:
  assumes "input_ready 1 st"
  shows "\<exists>es. ring_list (events_buf (touch_frame_primary st)) = ring_list (events_buf st) @ es
    \<and> BUTTON_DOWN \<notin> set es
    \<and> (BUTTON_UP \<in> set es \<longleftrightarrow> 0 \<le> primary_slot (multitouch_state st) \<and>
        tracking_id (slots (multitouch_state st) ! nat (primary_slot (multitouch_state st)))
          \<noteq> primary_tracking_id (multitouch_state st))"
proof -
  let ?mt = "multitouch_state st"
  define slot where "slot = slots ?mt ! nat (primary_slot ?mt)"
  obtain x y where xy: "input_coordinates st False (slot_x slot) (slot_y slot) = (x, y)" by force
  have r: "input_ready (Suc 0) (st\<lparr>multitouch_state := mt\<rparr>)" "input_ready (Suc 0) st" for mt
    using assms by simp_all
  define st1 where "st1 = (if \<bar>x - press_x ?mt\<bar> > TOUCH_DRAG_THRESHOLD \<or> \<bar>y - press_y ?mt\<bar> > TOUCH_DRAG_THRESHOLD
       then st\<lparr>multitouch_state := ?mt\<lparr>dragging := True\<rparr>\<rparr> else st)"
  have st1: "input_ready (Suc 0) st1" "events_buf st1 = events_buf st" using r by (auto simp: st1_def)
  have mv: "\<exists>es. ring_list (events_buf (input_position st1 x y False)) = ring_list (events_buf st) @ es
      \<and> BUTTON_DOWN \<notin> set es \<and> BUTTON_UP \<notin> set es"
    using input_position_emits [OF st1(1), of x y False] st1(2)
    by (cases "pos st1 = Some (x, y)") auto
  have "touch_frame_primary st =
     (if 0 \<le> primary_slot ?mt then
        if tracking_id slot \<noteq> primary_tracking_id ?mt
        then (input_button st False)\<lparr>multitouch_state := ?mt\<lparr>primary_slot := -1\<rparr>\<rparr>
        else if dragging (multitouch_state st1) then input_position st1 x y False else st1
      else st)"
    using xy by (simp add: touch_frame_primary_def Let_def slot_def st1_def)
  with input_button_emits [OF r(2), of False] mv st1(2) show ?thesis
    by (auto simp: slot_def)
qed

lemma touch_frame_press_events:
  assumes "input_ready 2 st"
  shows "\<exists>es. ring_list (events_buf (touch_frame_press first st)) = ring_list (events_buf st) @ es
    \<and> (BUTTON_DOWN \<in> set es \<longleftrightarrow>
         \<not> gesture_active (multitouch_state st) \<and> 0 \<le> first \<and> \<not> mouse_down (pen_state st))
    \<and> BUTTON_UP \<notin> set es"
proof -
  let ?mt = "multitouch_state st"
  define slot where "slot = slots ?mt ! nat first"
  obtain x y where xy: "input_coordinates st False (slot_x slot) (slot_y slot) = (x, y)" by force
  let ?s = "st\<lparr>multitouch_state := ?mt\<lparr>primary_slot := first, primary_tracking_id := tracking_id slot,
    dragging := False, press_x := x, press_y := y\<rparr>\<rparr>"
  have r: "input_ready (Suc (Suc 0)) ?s" using assms by (simp add: numeral_2_eq_2)
  from input_position_emits [OF r, of x y True]
  have p: "input_ready (Suc 0) (input_position ?s x y True)"
    "ring_list (events_buf (input_position ?s x y True)) = ring_list (events_buf st) @ [NSFB_EVENT_MOVE_ABSOLUTE x y 0]"
    by auto
  have "touch_frame_press first st =
    (if \<not> gesture_active ?mt \<and> 0 \<le> first \<and> \<not> mouse_down (pen_state st)
     then input_button (input_position ?s x y True) True else st)"
    using xy by (simp add: touch_frame_press_def Let_def slot_def)
  with input_button_emits [OF p(1), of True] p(2) show ?thesis by auto
qed

lemma input_touch_frame_first:
  assumes "input_inv st"
  shows "0 \<le> first_contact 0 (take (nat (num_slots (multitouch_state st))) (slots (multitouch_state st)))
    \<longleftrightarrow> contact st"
proof -
  have "take (nat (num_slots (multitouch_state st))) (slots (multitouch_state st)) = slots (multitouch_state st)"
    using assms by (simp add: input_inv_def Let_def)
  then show ?thesis
    using first_contact_none [of 0 "slots (multitouch_state st)"]
    by (simp add: contact_def not_less flip: not_le) (metis not_le)
qed

section \<open>Properties\<close>

text \<open>
  C2.  From a fresh state on, whatever the devices report and however the user
  interface interleaves its reads, the events it receives (followed by those
  still queued) obey the pointer contract: every position lies on the screen,
  button presses and releases alternate, each press follows directly on the move
  to where it happened, and the automaton's state is the handlers' own idea of
  the pointer.
\<close>

theorem input_stream_contract:
  assumes "input_inv st0" "input_fresh st0"
    and "input_run config_ready (st0, []) (st, out)"
  shows "\<exists>m. pointer_run (screen_width st0) (screen_height st0) (False, None, False)
    (out @ ring_list (events_buf st)) = Some (pressed st, pos st, m)"
proof -
  have "config_follows (st0, [])"
    using assms(2) by (auto simp: config_follows_def input_fresh_def input_history_def)
  then show ?thesis
    using input_run_follows [OF assms(3)] assms(1)
    by (auto simp: config_follows_def config_size_def input_history_def)
qed

text \<open>
  In every reachable state, even when events were lost for lack of memory,
  the pen and a finger never hold the button together, the finger that holds it
  is a contact of the running gesture, and slot numbers stay inside the slot
  array.
\<close>

theorem input_exclusive:
  assumes "input_inv st0" "input_run G (st0, out0) (st, out)"
  shows "\<not> (mouse_down (pen_state st) \<and> 0 \<le> primary_slot (multitouch_state st))
    \<and> (0 \<le> primary_slot (multitouch_state st) \<longrightarrow>
      gesture_active (multitouch_state st) \<and> 0 \<le> primary_tracking_id (multitouch_state st)
      \<and> nat (primary_slot (multitouch_state st)) < length (slots (multitouch_state st)))"
  using input_run_inv [OF assms(2)] assms(1) by (auto simp: input_inv_def Let_def)

text \<open>
  One press per gesture: a touch frame presses the button exactly when a
  finger is down, no gesture was running and the pen does not hold it; it releases
  exactly when the finger that holds it is gone; and a gesture lasts until no
  finger is left, so a second finger never starts another click.
\<close>

theorem touch_frame_gesture:
  assumes "input_inv st" "input_ready 2 st"
  shows "\<exists>es. ring_list (events_buf (input_touch_frame st)) = ring_list (events_buf st) @ es
    \<and> (BUTTON_DOWN \<in> set es \<longleftrightarrow>
        contact st \<and> \<not> gesture_active (multitouch_state st) \<and> \<not> mouse_down (pen_state st))
    \<and> (BUTTON_UP \<in> set es \<longleftrightarrow> 0 \<le> primary_slot (multitouch_state st) \<and>
        tracking_id (slots (multitouch_state st) ! nat (primary_slot (multitouch_state st)))
          \<noteq> primary_tracking_id (multitouch_state st))
    \<and> gesture_active (multitouch_state (input_touch_frame st)) = contact st"
proof -
  define first where "first = first_contact 0 (take (nat (num_slots (multitouch_state st))) (slots (multitouch_state st)))"
  let ?p = "touch_frame_primary st"
  have first: "0 \<le> first \<longleftrightarrow> contact st" using input_touch_frame_first [OF assms(1)] by (simp add: first_def)
  have r1: "input_ready 1 st" using assms(2) input_ready_Suc [of 1 st] by (simp add: numeral_2_eq_2)
  obtain es1 where es1: "ring_list (events_buf ?p) = ring_list (events_buf st) @ es1" "BUTTON_DOWN \<notin> set es1"
    "BUTTON_UP \<in> set es1 \<longleftrightarrow> 0 \<le> primary_slot (multitouch_state st) \<and>
        tracking_id (slots (multitouch_state st) ! nat (primary_slot (multitouch_state st)))
          \<noteq> primary_tracking_id (multitouch_state st)"
    using touch_frame_primary_events [OF r1] by blast
  note p = touch_frame_primary_inv [OF assms(1)]
  have "\<exists>es2. ring_list (events_buf (touch_frame_press first ?p)) = ring_list (events_buf ?p) @ es2
    \<and> (BUTTON_DOWN \<in> set es2 \<longleftrightarrow>
         \<not> gesture_active (multitouch_state st) \<and> 0 \<le> first \<and> \<not> mouse_down (pen_state st))
    \<and> BUTTON_UP \<notin> set es2"
  proof (cases "0 \<le> primary_slot (multitouch_state st)")
    case True
    then have "gesture_active (multitouch_state st)" using assms(1) by (simp add: input_inv_def Let_def)
    then show ?thesis using p(2) by (simp add: touch_frame_press_def Let_def)
  next
    case False
    then have "?p = st" by (simp add: touch_frame_primary_def Let_def)
    then show ?thesis using touch_frame_press_events [OF assms(2), of first] by simp
  qed
  then obtain es2 where es2: "ring_list (events_buf (touch_frame_press first ?p)) = ring_list (events_buf ?p) @ es2"
    "BUTTON_DOWN \<in> set es2 \<longleftrightarrow>
       \<not> gesture_active (multitouch_state st) \<and> 0 \<le> first \<and> \<not> mouse_down (pen_state st)"
    "BUTTON_UP \<notin> set es2" by blast
  have "input_touch_frame st = (touch_frame_press first ?p)\<lparr>multitouch_state :=
      (multitouch_state (touch_frame_press first ?p))\<lparr>gesture_active := (0 \<le> first)\<rparr>\<rparr>"
    by (simp add: input_touch_frame_def Let_def first_def)
  then show ?thesis
    using es1 es2 first by (intro exI [of _ "es1 @ es2"]) auto
qed

text \<open>
  Setting up the input is all or nothing: on failure every descriptor it
  opened is closed again and no device is kept; on success exactly the three
  devices stay open until \<open>input_finalize\<close> closes them, the queue is empty with room for 50 events and, on a screen
  that is not empty, the handlers' invariant holds.
\<close>

theorem input_initialize_spec:
  assumes "input_initialize sys h g nsfb F = (rc, st, fds)"
  shows "if rc = 0 then fds = F + held st \<and> size (held st) = 3 \<and> input_fresh st
      \<and> snd (snd (input_finalize st fds)) = F
      \<and> (0 < nsfb_width nsfb \<and> 0 < nsfb_height nsfb \<longrightarrow> input_inv st)
    else rc = -1 \<and> fds = F \<and> held st = {#}"
  using input_initialize_cases [OF assms] input_close_all(2) [of "st\<lparr>poll_active := False\<rparr>" F]
  by (auto simp: input_finalize_def Let_def held_def)

text \<open>
  The deadline a reader waits for is a valid time, at most 250 milliseconds
  ahead and exactly the clipped timeout ahead; the sum of nanoseconds fits the
  32-bit \<^verbatim>\<open>long\<close> of the target.
\<close>

theorem input_deadline_valid:
  assumes "0 \<le> nsec" "nsec < 1000000000"
  shows "case input_deadline timeout (sec, nsec) of (sec', nsec') \<Rightarrow>
    0 \<le> nsec' \<and> nsec' < 1000000000
    \<and> nsec + input_timeout timeout * 1000000 < 2 ^ 31
    \<and> (sec' * 1000000000 + nsec') - (sec * 1000000000 + nsec) = input_timeout timeout * 1000000
    \<and> 0 \<le> input_timeout timeout \<and> input_timeout timeout \<le> 250"
proof -
  have t: "0 \<le> input_timeout timeout" "input_timeout timeout \<le> 250"
    by (auto simp: input_timeout_def MAX_EVENT_POLL_TIMEOUT_MS_def)
  define n where "n = nsec + input_timeout timeout * 1000000"
  have n: "0 \<le> n" "n < 2 ^ 31" using t assms by (auto simp: n_def)
  have "n div 1000000000 * 1000000000 + n mod 1000000000 = n" by (rule div_mult_mod_eq)
  then show ?thesis
    using t n by (simp add: input_deadline_def Let_def c_arith n_def [symmetric] algebra_simps)
qed

lemma input_deadline_witness:
  "input_deadline (-1) (7, 900000000) = (8, 150000000)
   \<and> (case input_deadline (-1) (7, 900000000) of (sec', nsec') \<Rightarrow> nsec' < 1000000000)"
  using input_deadline_valid [of 900000000 "-1" 7]
  by (simp add: input_deadline_def input_timeout_def MAX_EVENT_POLL_TIMEOUT_MS_def cdiv_def cmod_def)

text \<open>
  C40.  Draining a device ends: if libevdev reports the end of its events or an
  error once more than it announces a resynchronisation (counting one under way),
  \<open>input_drain\<close> returns, whatever the events are.
\<close>

theorem input_drain_returns:
  assumes "(if sync then 1 else 0) + length (filter ev_resync reads) < length (filter ev_stop reads)"
  shows "\<exists>r. input_drain process reads sync st = Some r"
  using input_drain_ends [OF assms, of process st] by auto

subsection \<open>Instances\<close>

text \<open>A first-generation tablet in portrait, with ten slots reduced to two.\<close>

definition example_evdev :: "int \<Rightarrow> evdev" where
  "example_evdev fd = \<lparr>
     has_event_code = (\<lambda>t c. if fd = 10 then t = EV_ABS else if fd = 11 then t = EV_KEY \<and> c = BTN_STYLUS
                         else t = EV_KEY \<and> c = KEY_POWER),
     abs_info = (\<lambda>c. Some (0, 1000)), dev_num_slots = 2, dev_current_slot = 0,
     slot_value = (\<lambda>i c. -1), event_value = (\<lambda>t c. 0)\<rparr>"

definition example_sys :: sys_env where
  "example_sys = \<lparr>sys_machine = Some ''reMarkable 1.0'',
     sys_dir = Some [\<lparr>d_name = ''mice'', open_fd = 9, evdev_ok = True\<rparr>,
                     \<lparr>d_name = ''event0'', open_fd = 10, evdev_ok = True\<rparr>,
                     \<lparr>d_name = ''event1'', open_fd = 11, evdev_ok = True\<rparr>,
                     \<lparr>d_name = ''event2'', open_fd = 12, evdev_ok = True\<rparr>],
     sys_evdevs = example_evdev, sys_trace = False, sys_ring_mutex = True, sys_ring_cond = True,
     sys_mutex = True, sys_thread = True\<rparr>"

definition example_nsfb :: nsfb where
  "example_nsfb = \<lparr>nsfb_width = 1404, nsfb_height = 1872, nsfb_format = NSFB_FMT_RGB565,
     nsfb_bpp = 16, nsfb_ptr = 0, nsfb_linelen = 2816, nsfb_palette = None,
     nsfb_clip = \<lparr>x0 = 0, y0 = 0, x1 = 1404, y1 = 1872\<rparr>, nsfb_plotter_fns = Some Plotters_16bpp, nsfb_orientation = 0,
     nsfb_phys_width = 1404, nsfb_phys_height = 1872, nsfb_phys_linelen = 2816, nsfb_vram = (\<lambda>_. 0)\<rparr>"

definition example_state :: input_state where
  "example_state = fst (snd (input_initialize example_sys [] (\<lambda>_. NSFB_EVENT_NONE) example_nsfb {#}))"

lemma example_initialize:
  "input_initialize example_sys [] (\<lambda>_. NSFB_EVENT_NONE) example_nsfb {#} = (0, example_state, {#10, 11, 12#})"
proof -
  have "fst (input_initialize example_sys [] (\<lambda>_. NSFB_EVENT_NONE) example_nsfb {#}) = 0
    \<and> snd (snd (input_initialize example_sys [] (\<lambda>_. NSFB_EVENT_NONE) example_nsfb {#})) = {#10, 11, 12#}"
    by (simp add: input_initialize_def input_identify_input_devices_def example_sys_def strncmp_eq_def
        Let_def example_evdev_def classify_def input_ranges_def input_axis_range_def input_zero_def
        ring_buf_init_def SIZE_MAX_def sizeof_nsfb_event_def input_contacts_def add_mset_commute)
  then show ?thesis by (simp add: example_state_def prod_eq_iff)
qed

lemma input_initialize_witness:
  "input_inv example_state \<and> size (held example_state) = 3
   \<and> snd (snd (input_finalize example_state {#10, 11, 12#})) = {#}"
  using input_initialize_spec [OF example_initialize] by (auto simp: example_nsfb_def)

lemma example_state_ok: "input_inv example_state" "input_fresh example_state"
  using input_initialize_cases [OF example_initialize] by (auto simp: example_nsfb_def)

text \<open>A finger touches the screen: its contact, its position, and the end of the frame.\<close>

definition example_touch :: input_state where
  "example_touch = fold (\<lambda>ev st. input_process_touch st ev)
     [\<lparr>ev_type = EV_ABS, ev_code = ABS_MT_TRACKING_ID, ev_value = 5\<rparr>,
      \<lparr>ev_type = EV_ABS, ev_code = ABS_MT_POSITION_X, ev_value = 500\<rparr>,
      \<lparr>ev_type = EV_ABS, ev_code = ABS_MT_POSITION_Y, ev_value = 250\<rparr>] example_state"

lemma example_state_eq:
  "multitouch_state example_state = \<lparr>mt_min_x = 0, mt_max_x = 1000, mt_min_y = 0, mt_max_y = 1000,
     current_slot = 0, num_slots = 2,
     slots = [\<lparr>tracking_id = -1, slot_x = -1, slot_y = -1\<rparr>, \<lparr>tracking_id = -1, slot_x = -1, slot_y = -1\<rparr>],
     primary_slot = -1, primary_tracking_id = 0, gesture_active = False, dragging = False,
     press_x = 0, press_y = 0\<rparr>"
  "mouse_down (pen_state example_state) = False"
  "env_heap example_state = []" "elem_size (events_buf example_state) = 16"
  "used (events_buf example_state) = 0" "screen_width example_state = 1404" "screen_height example_state = 1872"
  by (simp_all add: example_state_def input_initialize_def input_identify_input_devices_def example_sys_def
      strncmp_eq_def Let_def example_evdev_def classify_def input_ranges_def input_axis_range_def input_zero_def
      ring_buf_init_def SIZE_MAX_def sizeof_nsfb_event_def input_contacts_def input_initial_slots_def
      upto_rec1 example_nsfb_def)

lemma example_touch_eq:
  "multitouch_state example_touch = (multitouch_state example_state)\<lparr>
     slots := [\<lparr>tracking_id = 5, slot_x = 500, slot_y = 250\<rparr>, \<lparr>tracking_id = -1, slot_x = -1, slot_y = -1\<rparr>]\<rparr>"
  "example_touch = example_state\<lparr>multitouch_state := multitouch_state example_touch\<rparr>"
  by (simp_all add: example_touch_def input_process_touch_def example_state_eq Let_def)

lemma example_ready:
  "input_ready 2 (example_state\<lparr>multitouch_state := mt\<rparr>)" "input_ready 2 example_touch" "input_inv example_touch"
proof -
  show r: "input_ready 2 (example_state\<lparr>multitouch_state := mt\<rparr>)" for mt
    using example_state_ok(1)
    by (simp add: input_ready_def ring_room_def example_state_eq SIZE_MAX_def input_inv_def Let_def)
  then show "input_ready 2 example_touch" by (subst example_touch_eq(2)) 
  show "input_inv example_touch"
    unfolding example_touch_def by (simp add: input_process_touch_inv example_state_ok)
qed

lemma input_process_touch_abs:
  "ev_type ev = EV_ABS \<Longrightarrow>
     input_process_touch st ev = st\<lparr>multitouch_state := multitouch_state (input_process_touch st ev)\<rparr>"
  by (auto simp: input_process_touch_def Let_def)

lemma run_touch:
  "input_run G c (st, out) \<Longrightarrow> G (st, out) \<Longrightarrow> input_run G c (input_process_touch st ev, out)"
  by (rule run_step) (auto intro: step_touch)

lemma example_run:
  "input_run config_ready (example_state, [])
     (input_process_touch example_touch \<lparr>ev_type = EV_SYN, ev_code = SYN_REPORT, ev_value = 0\<rparr>, [])"
proof -
  have r: "config_ready (example_state\<lparr>multitouch_state := mt\<rparr>, [])" for mt
    using example_ready(1) by (simp add: config_ready_def)
  have upd: "\<exists>mt'. input_process_touch (example_state\<lparr>multitouch_state := mt\<rparr>) \<lparr>ev_type = EV_ABS, ev_code = c, ev_value = v\<rparr>
      = example_state\<lparr>multitouch_state := mt'\<rparr>" for mt c v
    using input_process_touch_abs [of "\<lparr>ev_type = EV_ABS, ev_code = c, ev_value = v\<rparr>"
        "example_state\<lparr>multitouch_state := mt\<rparr>"] by auto
  have step: "input_run config_ready (example_state, []) (example_state\<lparr>multitouch_state := mt\<rparr>, []) \<Longrightarrow>
      \<exists>mt'. input_run config_ready (example_state, []) (example_state\<lparr>multitouch_state := mt'\<rparr>, [])
        \<and> input_process_touch (example_state\<lparr>multitouch_state := mt\<rparr>) \<lparr>ev_type = EV_ABS, ev_code = c, ev_value = v\<rparr>
          = example_state\<lparr>multitouch_state := mt'\<rparr>" for mt c v
    using upd [of mt c v] run_touch [where G = config_ready, OF _ r] by metis
  have "input_run config_ready (example_state, []) (example_state\<lparr>multitouch_state := multitouch_state example_state\<rparr>, [])"
    by (simp add: run_refl)
  from step [OF this, of ABS_MT_TRACKING_ID 5] obtain a where
    a: "input_run config_ready (example_state, []) (example_state\<lparr>multitouch_state := a\<rparr>, [])"
      "input_process_touch example_state \<lparr>ev_type = EV_ABS, ev_code = ABS_MT_TRACKING_ID, ev_value = 5\<rparr>
        = example_state\<lparr>multitouch_state := a\<rparr>" by auto
  from step [OF a(1), of ABS_MT_POSITION_X 500] obtain b where
    b: "input_run config_ready (example_state, []) (example_state\<lparr>multitouch_state := b\<rparr>, [])"
      "input_process_touch (example_state\<lparr>multitouch_state := a\<rparr>) \<lparr>ev_type = EV_ABS, ev_code = ABS_MT_POSITION_X, ev_value = 500\<rparr>
        = example_state\<lparr>multitouch_state := b\<rparr>" by auto
  from step [OF b(1), of ABS_MT_POSITION_Y 250] obtain c where
    c: "input_run config_ready (example_state, []) (example_state\<lparr>multitouch_state := c\<rparr>, [])"
      "input_process_touch (example_state\<lparr>multitouch_state := b\<rparr>) \<lparr>ev_type = EV_ABS, ev_code = ABS_MT_POSITION_Y, ev_value = 250\<rparr>
        = example_state\<lparr>multitouch_state := c\<rparr>" by auto
  have "example_touch = example_state\<lparr>multitouch_state := c\<rparr>"
    by (simp add: example_touch_def a(2) b(2) c(2))
  then show ?thesis using run_touch [where G = config_ready, OF c(1) r] by simp
qed

lemma input_stream_contract_witness:
  "let st = input_process_touch example_touch \<lparr>ev_type = EV_SYN, ev_code = SYN_REPORT, ev_value = 0\<rparr>
   in \<exists>m. pointer_run 1404 1872 (False, None, False) (ring_list (events_buf st)) = Some (pressed st, pos st, m)"
  using input_stream_contract [OF example_state_ok example_run]
  by (simp add: example_state_eq del: pointer_run.simps)

lemma input_exclusive_witness:
  "\<not> (mouse_down (pen_state example_touch) \<and> 0 \<le> primary_slot (multitouch_state example_touch))"
  using input_exclusive [OF example_ready(3) run_refl] by blast

lemma touch_frame_gesture_witness:
  "\<exists>es. ring_list (events_buf (input_touch_frame example_touch)) = es
    \<and> BUTTON_DOWN \<in> set es \<and> BUTTON_UP \<notin> set es"
proof -
  have 1: "contact example_touch" by (simp add: contact_def example_touch_eq(1))
  have 2: "ring_list (events_buf example_touch) = []" "\<not> mouse_down (pen_state example_touch)"
    by (subst example_touch_eq(2), simp add: ring_list_def example_state_eq)+
  have 3: "\<not> gesture_active (multitouch_state example_touch)" "\<not> 0 \<le> primary_slot (multitouch_state example_touch)"
    by (simp_all add: example_touch_eq(1) example_state_eq)
  from touch_frame_gesture [OF example_ready(3,2)] 1 2 3 show ?thesis by auto
qed

lemma input_drain_witness:
  "let ev = \<lparr>ev_type = EV_ABS, ev_code = ABS_MT_POSITION_X, ev_value = 500\<rparr>
   in \<exists>r. input_drain input_process_touch [(-4, ev), (1, ev), (-11, ev), (0, ev), (-11, ev)] False example_state = Some r"
  unfolding Let_def by (rule input_drain_returns) (simp add: ev_resync_def ev_stop_def)

end
