(* ===== verification/Plot_Line.thy ===== *)
theory Plot_Line
  imports Plot_Clip
begin

text \<open>
  Line plotting of \<^verbatim>\<open>libnsfb/src/plot/common.c\<close>, for 16-bit pixels: horizontal lines as
  filled spans, other lines by Bresenham's algorithm, each in a version for the
  portrait framebuffer (walking a pointer) and for the rotated one (walking
  coordinates).
\<close>

section \<open>The plotter\<close>

definition SIGN :: "int \<Rightarrow> int" where
  "SIGN x = (if x < 0 then -1 else if x > 0 then 1 else 0)"

text \<open>\<^verbatim>\<open>while (w-- > 0) *(pvideo + w) = ent;\<close>\<close>

fun line_span_portrait :: "nat \<Rightarrow> int \<Rightarrow> 16 word \<Rightarrow> (int \<Rightarrow> 16 word) \<Rightarrow> int \<Rightarrow> 16 word" where
  "line_span_portrait 0 pvideo ent m = m"
| "line_span_portrait (Suc w) pvideo ent m =
     line_span_portrait w pvideo ent (m(pvideo_add pvideo (int w) := ent))"

definition line_horizontal :: "nsfb \<Rightarrow> 16 word \<Rightarrow> nsfb_bbox \<Rightarrow> (int \<Rightarrow> 16 word) \<Rightarrow> int \<Rightarrow> 16 word" where
  "line_horizontal nsfb ent l m =
     (if nsfb_orientation nsfb = 1 then
        for_int (x0 l) (x1 l) (\<lambda>x m. m(get_xy_loc nsfb x (y0 l) := ent)) m
      else line_span_portrait (nat (x1 l - x0 l)) (get_xy_loc nsfb (x0 l) (y0 l)) ent m)"

text \<open>The four Bresenham loops; \<open>a\<close> is the long axis, \<open>b\<close> the short one.\<close>

definition bres_x_landscape ::
  "nsfb \<Rightarrow> 16 word \<Rightarrow> int \<Rightarrow> int \<Rightarrow> int \<Rightarrow> int \<Rightarrow> int \<Rightarrow> (int \<Rightarrow> 16 word) \<Rightarrow> int \<Rightarrow> 16 word" where
  "bres_x_landscape nsfb ent dxabs dyabs step cx cy m =
     (case for_int 0 dxabs (\<lambda>i (cx, cy, y, m).
        let m = m(get_xy_loc nsfb cx cy := ent); cx = cx + 1; y = y + dyabs
        in if y \<ge> dxabs then (cx, cy + step, y - dxabs, m) else (cx, cy, y, m))
      (cx, cy, drop_bit 1 dxabs, m) of (_, _, _, m) \<Rightarrow> m)"

definition bres_x_portrait ::
  "nsfb \<Rightarrow> 16 word \<Rightarrow> int \<Rightarrow> int \<Rightarrow> int \<Rightarrow> int \<Rightarrow> (int \<Rightarrow> 16 word) \<Rightarrow> int \<Rightarrow> 16 word" where
  "bres_x_portrait nsfb ent dxabs dyabs sdy pvideo m =
     (case for_int 0 dxabs (\<lambda>i (pvideo, y, m).
        let m = m(pvideo := ent); pvideo = pvideo_add pvideo 1; y = y + dyabs
        in if y \<ge> dxabs
           then (pvideo_add pvideo (sdy * PLOT_LINELEN (nsfb_linelen nsfb)), y - dxabs, m)
           else (pvideo, y, m))
      (pvideo, drop_bit 1 dxabs, m) of (_, _, m) \<Rightarrow> m)"

definition bres_y_landscape ::
  "nsfb \<Rightarrow> 16 word \<Rightarrow> int \<Rightarrow> int \<Rightarrow> int \<Rightarrow> int \<Rightarrow> int \<Rightarrow> (int \<Rightarrow> 16 word) \<Rightarrow> int \<Rightarrow> 16 word" where
  "bres_y_landscape nsfb ent dxabs dyabs step cx cy m =
     (case for_int 0 dyabs (\<lambda>i (cx, cy, x, m).
        let m = m(get_xy_loc nsfb cx cy := ent); cy = cy + step; x = x + dxabs
        in if x \<ge> dyabs then (cx + 1, cy, x - dyabs, m) else (cx, cy, x, m))
      (cx, cy, drop_bit 1 dyabs, m) of (_, _, _, m) \<Rightarrow> m)"

definition bres_y_portrait ::
  "nsfb \<Rightarrow> 16 word \<Rightarrow> int \<Rightarrow> int \<Rightarrow> int \<Rightarrow> int \<Rightarrow> (int \<Rightarrow> 16 word) \<Rightarrow> int \<Rightarrow> 16 word" where
  "bres_y_portrait nsfb ent dxabs dyabs sdy pvideo m =
     (case for_int 0 dyabs (\<lambda>i (pvideo, x, m).
        let m = m(pvideo := ent);
            pvideo = pvideo_add pvideo (sdy * PLOT_LINELEN (nsfb_linelen nsfb)); x = x + dxabs
        in if x \<ge> dyabs then (pvideo_add pvideo 1, x - dyabs, m) else (pvideo, x, m))
      (pvideo, drop_bit 1 dyabs, m) of (_, _, m) \<Rightarrow> m)"

definition line_bresenham :: "nsfb \<Rightarrow> 16 word \<Rightarrow> nsfb_bbox \<Rightarrow> (int \<Rightarrow> 16 word) \<Rightarrow> int \<Rightarrow> 16 word" where
  "line_bresenham nsfb ent l m = (let
     dx = x1 l - x0 l; dxabs = \<bar>dx\<bar>;
     dy = y1 l - y0 l; dyabs = \<bar>dy\<bar>;
     sdy = (if dx \<noteq> 0 then SIGN dy * SIGN dx else SIGN dy);
     pvideo = (if dx \<ge> 0 then get_xy_loc nsfb (x0 l) (y0 l) else get_xy_loc nsfb (x1 l) (y1 l));
     cx = (if dx \<ge> 0 then x0 l else x1 l); cy = y0 l
   in if dxabs \<ge> dyabs then
        (if nsfb_orientation nsfb = 1 then bres_x_landscape nsfb ent dxabs dyabs (sdy * SIGN dx) cx cy m
         else bres_x_portrait nsfb ent dxabs dyabs sdy pvideo m)
      else
        (if nsfb_orientation nsfb = 1 then bres_y_landscape nsfb ent dxabs dyabs (sdy * SIGN dx) cx cy m
         else bres_y_portrait nsfb ent dxabs dyabs sdy pvideo m))"

text \<open>One line of the array: the clipped line and the new context.\<close>

definition line_one :: "nsfb \<Rightarrow> 16 word \<Rightarrow> nsfb_bbox \<Rightarrow> nsfb_bbox \<times> nsfb" where
  "line_one nsfb ent l =
     (if y0 l = y1 l then
        (let (vis, l) = nsfb_plot_clip_ctx nsfb l in
           if \<not> vis then (l, nsfb)
           else (l, nsfb\<lparr>nsfb_vram := line_horizontal nsfb ent l (nsfb_vram nsfb)\<rparr>))
      else
        (let (vis, l) = nsfb_plot_clip_line_ctx nsfb l in
           if \<not> vis then (l, nsfb)
           else (l, nsfb\<lparr>nsfb_vram := line_bresenham nsfb ent l (nsfb_vram nsfb)\<rparr>)))"

fun line_all :: "nsfb \<Rightarrow> 16 word \<Rightarrow> nsfb_bbox list \<Rightarrow> nsfb_bbox list \<times> nsfb" where
  "line_all nsfb ent [] = ([], nsfb)"
| "line_all nsfb ent (l # ls) =
     (let (l, nsfb) = line_one nsfb ent l; (ls, nsfb) = line_all nsfb ent ls in (l # ls, nsfb))"

text \<open>The pen.\<close>

datatype plot_optype = NFSB_PLOT_OPTYPE_NONE | NFSB_PLOT_OPTYPE_SOLID | NFSB_PLOT_OPTYPE_PATTERN

record nsfb_plot_pen =
  stroke_type :: plot_optype
  stroke_width :: int
  stroke_colour :: nsfb_colour
  stroke_pattern :: "32 word"
  fill_type :: plot_optype
  fill_colour :: nsfb_colour

definition pen_example :: nsfb_plot_pen where
  "pen_example = \<lparr>stroke_type = NFSB_PLOT_OPTYPE_SOLID, stroke_width = 1, stroke_colour = 0xFFFFFF, stroke_pattern = 0,
     fill_type = NFSB_PLOT_OPTYPE_NONE, fill_colour = 0\<rparr>"

lemma white_pixel: "colour_to_pixel n 0xFFFFFF = 0xFFFF"
  by (simp add: colour_to_pixel_def drop_bit_eq_div push_bit_eq_mult ucast_eq)

definition plot_line :: "nsfb \<Rightarrow> nsfb_bbox list \<Rightarrow> nsfb_plot_pen \<Rightarrow> bool \<times> nsfb_bbox list \<times> nsfb" where
  "plot_line nsfb lines pen = (let
     ent = colour_to_pixel nsfb (stroke_colour pen);
     (lines, nsfb) = line_all nsfb ent lines
   in (True, lines, nsfb))"

section \<open>Bresenham's error term\<close>

text \<open>After \<open>i\<close> steps along the long axis: the steps taken along the short one, and the error.\<close>

definition bres_k :: "int \<Rightarrow> int \<Rightarrow> int \<Rightarrow> int" where
  "bres_k a b i = (a div 2 + i * b) div a"

definition bres_e :: "int \<Rightarrow> int \<Rightarrow> int \<Rightarrow> int" where
  "bres_e a b i = (a div 2 + i * b) mod a"

lemma bres_step:
  assumes "0 < a" "0 \<le> b" "b \<le> a"
  shows "bres_k a b (i + 1) = (if bres_e a b i + b \<ge> a then bres_k a b i + 1 else bres_k a b i)"
    and "bres_e a b (i + 1) = (if bres_e a b i + b \<ge> a then bres_e a b i + b - a else bres_e a b i + b)"
proof -
  define n where "n = a div 2 + i * b"
  have n: "n = a * (n div a) + n mod a" by simp
  have e: "0 \<le> n mod a" "n mod a < a" using assms(1) by simp_all
  have s: "a div 2 + (i + 1) * b = a * (n div a) + (n mod a + b)" using n by (simp add: n_def algebra_simps)
  have split: "(a * q + r) div a = q + r div a" "(a * q + r) mod a = r mod a" for q r
    using assms(1) by simp_all
  note split [of "n div a" "n mod a + b"]
  moreover have "(n mod a + b) div a = (if n mod a + b \<ge> a then 1 else 0)"
    "(n mod a + b) mod a = (if n mod a + b \<ge> a then n mod a + b - a else n mod a + b)"
  proof -
    consider "n mod a + b < a" | "n mod a + b \<ge> a" "n mod a + b < 2 * a" using e assms by linarith
    then have "(n mod a + b) div a = (if n mod a + b \<ge> a then 1 else 0) \<and>
      (n mod a + b) mod a = (if n mod a + b \<ge> a then n mod a + b - a else n mod a + b)"
    proof cases
      case 1
      then show ?thesis using e assms by simp
    next
      case 2
      then have "n mod a + b = a * 1 + (n mod a + b - a)" "0 \<le> n mod a + b - a" "n mod a + b - a < a"
        by simp_all
      then show ?thesis using 2
        by (metis div_mult_self4 div_pos_pos_trivial mod_mult_self4 mod_pos_pos_trivial add_0 less_irrefl mult.commute
            add.right_neutral not_less)
    qed
    then show "(n mod a + b) div a = (if n mod a + b \<ge> a then 1 else 0)"
      "(n mod a + b) mod a = (if n mod a + b \<ge> a then n mod a + b - a else n mod a + b)" by auto
  qed
  ultimately show "bres_k a b (i + 1) = (if bres_e a b i + b \<ge> a then bres_k a b i + 1 else bres_k a b i)"
    "bres_e a b (i + 1) = (if bres_e a b i + b \<ge> a then bres_e a b i + b - a else bres_e a b i + b)"
    unfolding bres_k_def bres_e_def s by (simp_all add: n_def)
qed

lemma bres_start: "0 < a \<Longrightarrow> bres_k a b 0 = 0 \<and> bres_e a b 0 = a div 2"
  by (simp add: bres_k_def bres_e_def div_pos_pos_trivial)

lemma bres_range:
  assumes "0 < a" "0 \<le> b" "0 \<le> i" "i \<le> a"
  shows "0 \<le> bres_k a b i \<and> bres_k a b i \<le> b"
proof -
  have "0 \<le> a div 2 + i * b" using assms by (simp add: pos_imp_zdiv_nonneg_iff)
  then have k0: "0 \<le> bres_k a b i" using assms(1) by (simp add: bres_k_def pos_imp_zdiv_nonneg_iff)
  have "a div 2 + i * b < a + a * b"
    using assms mult_right_mono [OF assms(4,2)] by (intro add_less_le_mono) auto
  then have "a div 2 + i * b < a * (b + 1)" by (simp add: algebra_simps)
  moreover have "a * bres_k a b i \<le> a div 2 + i * b"
    using mult_div_mod_eq [of a "a div 2 + i * b"] pos_mod_sign [OF assms(1), of "a div 2 + i * b"]
    unfolding bres_k_def by linarith
  ultimately have "a * bres_k a b i < a * (b + 1)" by linarith
  then have "bres_k a b i < b + 1" using assms(1) by simp
  with k0 show ?thesis by simp
qed

section \<open>The pixels of a line\<close>

definition bres_x_points :: "int \<Rightarrow> int \<Rightarrow> int \<Rightarrow> int \<Rightarrow> int \<Rightarrow> int \<Rightarrow> (int \<times> int) set" where
  "bres_x_points a b step X Y n = (\<lambda>i. (X + i, Y + step * bres_k a b i)) ` {0..<n}"

definition bres_y_points :: "int \<Rightarrow> int \<Rightarrow> int \<Rightarrow> int \<Rightarrow> int \<Rightarrow> int \<Rightarrow> (int \<times> int) set" where
  "bres_y_points a b step X Y n = (\<lambda>i. (X + bres_k a b i, Y + step * i)) ` {0..<n}"

lemma bres_points_Suc:
  "0 \<le> i \<Longrightarrow> bres_x_points a b step X Y (i + 1) = insert (X + i, Y + step * bres_k a b i) (bres_x_points a b step X Y i)"
  "0 \<le> i \<Longrightarrow> bres_y_points a b step X Y (i + 1) = insert (X + bres_k a b i, Y + step * i) (bres_y_points a b step X Y i)"
proof -
  assume "0 \<le> i"
  then have "{0..<i + 1} = insert i {0..<i}" by auto
  then show "bres_x_points a b step X Y (i + 1) = insert (X + i, Y + step * bres_k a b i) (bres_x_points a b step X Y i)"
    "bres_y_points a b step X Y (i + 1) = insert (X + bres_k a b i, Y + step * i) (bres_y_points a b step X Y i)"
    by (simp_all add: bres_x_points_def bres_y_points_def)
qed

lemma bres_points_0 [simp]: "bres_x_points a b step X Y 0 = {}" "bres_y_points a b step X Y 0 = {}"
  by (simp_all add: bres_x_points_def bres_y_points_def)

lemma locs_insert: "locs nsfb (insert (x, y) S) = insert (get_xy_loc nsfb x y) (locs nsfb S)"
  by (simp add: locs_def)

lemma bres_x_landscape_eq:
  assumes "0 < a" "0 \<le> b" "b \<le> a"
  shows "bres_x_landscape nsfb ent a b step X Y m
    = fill_set (locs nsfb (bres_x_points a b step X Y a)) ent m"
proof -
  let ?I = "\<lambda>i s. s = (X + i, Y + step * bres_k a b i, bres_e a b i,
     fill_set (locs nsfb (bres_x_points a b step X Y i)) ent m)"
  let ?body = "(\<lambda>i::int. \<lambda>(cx, cy, y, m).
        let m = m(get_xy_loc nsfb cx cy := ent); cx = cx + 1; y = y + b
        in if y \<ge> a then (cx, cy + step, y - a, m) else (cx, cy, y, m))"
  have "?I a (for_int 0 a ?body (X, Y, drop_bit 1 a, m))"
  proof (rule for_int_inv [where P = ?I])
    show "?I 0 (X, Y, drop_bit 1 a, m)" using assms bres_start [of a b] by (simp add: drop_bit_eq_div)
    show "0 \<le> a" using assms by simp
    fix i s assume "0 \<le> i" "i < a" and s: "?I i s"
    show "?I (i + 1) (?body i s)"
      unfolding s using \<open>0 \<le> i\<close>
      by (cases "bres_e a b i + b \<ge> a")
        (simp_all add: bres_step [OF assms] bres_points_Suc locs_insert fill_set_insert distrib_left add.assoc)
  qed
  then show ?thesis by (simp add: bres_x_landscape_def)
qed

lemma bres_y_landscape_eq:
  assumes "0 < a" "0 \<le> b" "b \<le> a"
  shows "bres_y_landscape nsfb ent b a step X Y m
    = fill_set (locs nsfb (bres_y_points a b step X Y a)) ent m"
proof -
  let ?I = "\<lambda>i s. s = (X + bres_k a b i, Y + step * i, bres_e a b i,
     fill_set (locs nsfb (bres_y_points a b step X Y i)) ent m)"
  let ?body = "(\<lambda>i::int. \<lambda>(cx, cy, x, m).
        let m = m(get_xy_loc nsfb cx cy := ent); cy = cy + step; x = x + b
        in if x \<ge> a then (cx + 1, cy, x - a, m) else (cx, cy, x, m))"
  have "?I a (for_int 0 a ?body (X, Y, drop_bit 1 a, m))"
  proof (rule for_int_inv [where P = ?I])
    show "?I 0 (X, Y, drop_bit 1 a, m)" using assms bres_start [of a b] by (simp add: drop_bit_eq_div)
    show "0 \<le> a" using assms by simp
    fix i s assume "0 \<le> i" "i < a" and s: "?I i s"
    show "?I (i + 1) (?body i s)"
      unfolding s using \<open>0 \<le> i\<close>
      by (cases "bres_e a b i + b \<ge> a")
        (simp_all add: bres_step [OF assms] bres_points_Suc locs_insert fill_set_insert distrib_left add.assoc)
  qed
  then show ?thesis by (simp add: bres_y_landscape_def)
qed

text \<open>In portrait the pointer is always the address of the current point.\<close>

lemma loc_right: "nsfb_orientation nsfb \<noteq> 1 \<Longrightarrow> get_xy_loc nsfb (x + d) y = pvideo_add (get_xy_loc nsfb x y) d"
  by (simp add: get_xy_loc_eq)

lemma loc_down:
  "nsfb_orientation nsfb \<noteq> 1 \<Longrightarrow> 2 dvd nsfb_linelen nsfb \<Longrightarrow>
     get_xy_loc nsfb x (y + d) = pvideo_add (get_xy_loc nsfb x y) (d * PLOT_LINELEN (nsfb_linelen nsfb))"
  by (simp add: get_xy_loc_eq algebra_simps flip: PLOT_LINELEN_eq)

lemma bres_x_portrait_eq:
  assumes "0 < a" "0 \<le> b" "b \<le> a" and nsfb: "nsfb_orientation nsfb \<noteq> 1" "2 dvd nsfb_linelen nsfb"
  shows "bres_x_portrait nsfb ent a b step (get_xy_loc nsfb X Y) m
    = fill_set (locs nsfb (bres_x_points a b step X Y a)) ent m"
proof -
  let ?I = "\<lambda>i s. s = (get_xy_loc nsfb (X + i) (Y + step * bres_k a b i), bres_e a b i,
     fill_set (locs nsfb (bres_x_points a b step X Y i)) ent m)"
  let ?body = "\<lambda>i::int. \<lambda>(pvideo, y, m).
        let m = m(pvideo := ent); pvideo = pvideo_add pvideo 1; y = y + b
        in if y \<ge> a
           then (pvideo_add pvideo (step * PLOT_LINELEN (nsfb_linelen nsfb)), y - a, m)
           else (pvideo, y, m)"
  have "?I a (for_int 0 a ?body (get_xy_loc nsfb X Y, drop_bit 1 a, m))"
  proof (rule for_int_inv [where P = ?I])
    show "?I 0 (get_xy_loc nsfb X Y, drop_bit 1 a, m)"
      using assms(1) bres_start [of a b] by (simp add: drop_bit_eq_div)
    show "0 \<le> a" using assms by simp
    fix i s assume "0 \<le> i" "i < a" and s: "?I i s"
    show "?I (i + 1) (?body i s)"
      unfolding s using \<open>0 \<le> i\<close>
      by (cases "bres_e a b i + b \<ge> a")
        (simp_all add: bres_step [OF assms(1-3)] bres_points_Suc locs_insert fill_set_insert distrib_left
          loc_right [OF nsfb(1), of _ 1] loc_down [OF nsfb, of _ _ step] flip: add.assoc)
  qed
  then show ?thesis by (simp add: bres_x_portrait_def)
qed

lemma bres_y_portrait_eq:
  assumes "0 < a" "0 \<le> b" "b \<le> a" and nsfb: "nsfb_orientation nsfb \<noteq> 1" "2 dvd nsfb_linelen nsfb"
  shows "bres_y_portrait nsfb ent b a step (get_xy_loc nsfb X Y) m
    = fill_set (locs nsfb (bres_y_points a b step X Y a)) ent m"
proof -
  let ?I = "\<lambda>i s. s = (get_xy_loc nsfb (X + bres_k a b i) (Y + step * i), bres_e a b i,
     fill_set (locs nsfb (bres_y_points a b step X Y i)) ent m)"
  let ?body = "\<lambda>i::int. \<lambda>(pvideo, x, m).
        let m = m(pvideo := ent);
            pvideo = pvideo_add pvideo (step * PLOT_LINELEN (nsfb_linelen nsfb)); x = x + b
        in if x \<ge> a then (pvideo_add pvideo 1, x - a, m) else (pvideo, x, m)"
  have "?I a (for_int 0 a ?body (get_xy_loc nsfb X Y, drop_bit 1 a, m))"
  proof (rule for_int_inv [where P = ?I])
    show "?I 0 (get_xy_loc nsfb X Y, drop_bit 1 a, m)"
      using assms(1) bres_start [of a b] by (simp add: drop_bit_eq_div)
    show "0 \<le> a" using assms by simp
    fix i s assume "0 \<le> i" "i < a" and s: "?I i s"
    show "?I (i + 1) (?body i s)"
      unfolding s using \<open>0 \<le> i\<close>
      by (cases "bres_e a b i + b \<ge> a")
        (simp_all add: bres_step [OF assms(1-3)] bres_points_Suc locs_insert fill_set_insert distrib_left
          loc_right [OF nsfb(1), of _ 1] loc_down [OF nsfb, of _ _ step] flip: add.assoc)
  qed
  then show ?thesis by (simp add: bres_y_portrait_def)
qed

lemma bres_loops_0 [simp]:
  "bres_x_landscape nsfb ent 0 b step X Y m = m" "bres_x_portrait nsfb ent 0 b step p m = m"
  by (simp_all add: bres_x_landscape_def bres_x_portrait_def)

text \<open>
  The points of a clipped line; \<open>rotated\<close> selects the version for the rotated
  framebuffer, which starts at the first end's row even when it walks from the
  second end.
\<close>

definition line_step :: "bool \<Rightarrow> int \<Rightarrow> int \<Rightarrow> int" where
  "line_step rotated dx dy = (let sdy = (if dx \<noteq> 0 then SIGN dy * SIGN dx else SIGN dy)
     in if rotated then sdy * SIGN dx else sdy)"

definition line_points :: "bool \<Rightarrow> nsfb_bbox \<Rightarrow> (int \<times> int) set" where
  "line_points rotated l = (let
     dx = x1 l - x0 l; dy = y1 l - y0 l;
     X = (if dx \<ge> 0 then x0 l else x1 l);
     Y = (if rotated \<or> dx \<ge> 0 then y0 l else y1 l)
   in if \<bar>dx\<bar> \<ge> \<bar>dy\<bar> then bres_x_points \<bar>dx\<bar> \<bar>dy\<bar> (line_step rotated dx dy) X Y \<bar>dx\<bar>
      else bres_y_points \<bar>dy\<bar> \<bar>dx\<bar> (line_step rotated dx dy) X Y \<bar>dy\<bar>)"

lemma line_bresenham_eq:
  assumes "2 dvd nsfb_linelen nsfb"
  shows "line_bresenham nsfb ent l m
    = fill_set (locs nsfb (line_points (nsfb_orientation nsfb = 1) l)) ent m"
proof -
  define dx dy where "dx = x1 l - x0 l" and "dy = y1 l - y0 l"
  define X where "X = (if dx \<ge> 0 then x0 l else x1 l)"
  have p: "(if dx \<ge> 0 then get_xy_loc nsfb (x0 l) (y0 l) else get_xy_loc nsfb (x1 l) (y1 l))
      = get_xy_loc nsfb X (if dx \<ge> 0 then y0 l else y1 l)"
    by (simp add: X_def)
  show ?thesis
  proof (cases "\<bar>dx\<bar> \<ge> \<bar>dy\<bar>")
    case True
    show ?thesis
    proof (cases "\<bar>dx\<bar> = 0")
      case True
      with \<open>\<bar>dx\<bar> \<ge> \<bar>dy\<bar>\<close> show ?thesis
        by (simp add: line_bresenham_def line_points_def dx_def dy_def Let_def)
    next
      case False
      then have "0 < \<bar>dx\<bar>" "0 \<le> \<bar>dy\<bar>" by simp_all
      with True show ?thesis
        unfolding line_bresenham_def line_points_def Let_def line_step_def
          dx_def [symmetric] dy_def [symmetric] X_def [symmetric] p
        using assms by (simp add: bres_x_landscape_eq bres_x_portrait_eq)
    qed
  next
    case False
    then have "0 < \<bar>dy\<bar>" "0 \<le> \<bar>dx\<bar>" "\<bar>dx\<bar> \<le> \<bar>dy\<bar>" by simp_all
    with False show ?thesis
      unfolding line_bresenham_def line_points_def Let_def line_step_def
        dx_def [symmetric] dy_def [symmetric] X_def [symmetric] p
      using assms by (simp add: bres_y_landscape_eq bres_y_portrait_eq)
  qed
qed

text \<open>All points lie in the box spanned by the two ends.\<close>

lemma between_step:
  assumes "0 \<le> k" "k \<le> \<bar>d\<bar>"
  shows "between u (u + d) (u + SIGN d * k)" "between u (u + d) (u + d + (- SIGN d) * k)"
    "between u (u + d) u"
  using assms by (auto simp: between_def SIGN_def)

lemma line_step_cases:
  "line_step rotated dx dy = (if dx = 0 then if rotated then 0 else SIGN dy
     else if rotated then SIGN dy else SIGN dy * SIGN dx)"
  by (auto simp: line_step_def SIGN_def Let_def)

lemma line_points_row:
  assumes "0 \<le> k" "k \<le> \<bar>y1 l - y0 l\<bar>"
  shows "between (y0 l) (y1 l)
    ((if rotated \<or> x1 l - x0 l \<ge> 0 then y0 l else y1 l) + line_step rotated (x1 l - x0 l) (y1 l - y0 l) * k)"
  using assms by (auto simp: between_def line_step_cases SIGN_def)

lemma line_points_column:
  assumes "0 \<le> k" "k \<le> \<bar>x1 l - x0 l\<bar>"
  shows "between (x0 l) (x1 l) ((if x1 l - x0 l \<ge> 0 then x0 l else x1 l) + k)"
  using assms by (auto simp: between_def)

lemma line_points_span: "line_points rotated l \<subseteq> line_span l"
proof -
  define dx dy where "dx = x1 l - x0 l" and "dy = y1 l - y0 l"
  show ?thesis
  proof (cases "\<bar>dx\<bar> \<ge> \<bar>dy\<bar>")
    case True
    have "0 \<le> bres_k \<bar>dx\<bar> \<bar>dy\<bar> i \<and> bres_k \<bar>dx\<bar> \<bar>dy\<bar> i \<le> \<bar>dy\<bar>" if "0 \<le> i" "i < \<bar>dx\<bar>" for i
      using bres_range [of "\<bar>dx\<bar>" "\<bar>dy\<bar>" i] that by simp
    with True show ?thesis
      using line_points_row [of _ l rotated] line_points_column [of _ l]
      by (auto simp: line_points_def line_span_def bres_x_points_def Let_def dx_def dy_def)
  next
    case False
    have "0 \<le> bres_k \<bar>dy\<bar> \<bar>dx\<bar> i \<and> bres_k \<bar>dy\<bar> \<bar>dx\<bar> i \<le> \<bar>dx\<bar>" if "0 \<le> i" "i < \<bar>dy\<bar>" for i
      using bres_range [of "\<bar>dy\<bar>" "\<bar>dx\<bar>" i] that by simp
    with False show ?thesis
      using line_points_row [of _ l rotated] line_points_column [of _ l]
      by (auto simp: line_points_def line_span_def bres_y_points_def Let_def dx_def dy_def)
  qed
qed

text \<open>Horizontal lines.\<close>

lemma line_span_portrait_eq: "line_span_portrait w p ent m = fill_set (halves p w) ent m"
proof (induction w arbitrary: m)
  case (Suc w)
  have "halves p (Suc w) = halves p w \<union> {p + 2 * int w}" using halves_add [of p w 1] by simp
  with Suc show ?case by (simp add: fill_set_upd fill_set_union)
qed simp

definition row_points :: "nsfb_bbox \<Rightarrow> (int \<times> int) set" where
  "row_points l = (\<lambda>x. (x, y0 l)) ` {x0 l..<x1 l}"

lemma line_horizontal_eq:
  assumes "x0 l \<le> x1 l"
  shows "line_horizontal nsfb ent l m = fill_set (locs nsfb (row_points l)) ent m"
proof (cases "nsfb_orientation nsfb = 1")
  case True
  have "for_int (x0 l) (x1 l) (\<lambda>x m. m(get_xy_loc nsfb x (y0 l) := ent)) m
      = fill_set (\<Union>x\<in>{x0 l..<x1 l}. {get_xy_loc nsfb x (y0 l)}) ent m"
    by (rule for_int_fill_set) (simp add: fill_set_upd)
  moreover have "(\<Union>x\<in>{x0 l..<x1 l}. {get_xy_loc nsfb x (y0 l)}) = locs nsfb (row_points l)"
    by (auto simp: locs_def row_points_def)
  ultimately show ?thesis using True by (simp add: line_horizontal_def)
next
  case False
  have "halves (get_xy_loc nsfb (x0 l) (y0 l)) (nat (x1 l - x0 l)) = locs nsfb (row_points l)"
  proof (intro equalityI subsetI)
    fix a assume "a \<in> halves (get_xy_loc nsfb (x0 l) (y0 l)) (nat (x1 l - x0 l))"
    then obtain i where "i < nat (x1 l - x0 l)" "a = get_xy_loc nsfb (x0 l + int i) (y0 l)"
      by (auto simp: halves_def loc_right [OF False])
    then show "a \<in> locs nsfb (row_points l)"
      by (intro locs_mem [of "x0 l + int i" "y0 l", THEN subst [of _ a "\<lambda>z. z \<in> locs nsfb (row_points l)", rotated]])
        (auto simp: row_points_def)
  next
    fix a assume "a \<in> locs nsfb (row_points l)"
    then obtain x where "x0 l \<le> x" "x < x1 l" "a = get_xy_loc nsfb (x0 l + (x - x0 l)) (y0 l)"
      by (auto simp: locs_def row_points_def)
    then have "a = get_xy_loc nsfb (x0 l) (y0 l) + 2 * int (nat (x - x0 l))" "nat (x - x0 l) < nat (x1 l - x0 l)"
      unfolding loc_right [OF False] by auto
    then show "a \<in> halves (get_xy_loc nsfb (x0 l) (y0 l)) (nat (x1 l - x0 l))"
      unfolding halves_def by blast
  qed
  with False show ?thesis by (simp add: line_horizontal_def line_span_portrait_eq)
qed

section \<open>A line of the array\<close>

text \<open>The visible points of one line, as the plotter draws them.\<close>

definition drawn_points :: "nsfb \<Rightarrow> nsfb_bbox \<Rightarrow> (int \<times> int) set" where
  "drawn_points nsfb l =
     (if y0 l = y1 l then
        (case nsfb_plot_clip_ctx nsfb l of (vis, l) \<Rightarrow> if vis then row_points l else {})
      else (case nsfb_plot_clip_line_ctx nsfb l of (vis, l) \<Rightarrow>
        if vis then line_points (nsfb_orientation nsfb = 1) l else {}))"

lemma clamp_inside: "lo \<le> v \<Longrightarrow> v \<le> hi - 1 \<Longrightarrow> clamp lo hi v = v"
  by (simp add: clamp_def)

lemma clamp_range: "lo \<le> hi \<Longrightarrow> {clamp lo hi u..<clamp lo hi v} = {u..<v} \<inter> {lo..<hi}"
  by (auto simp: clamp_def split: if_splits)

lemma clamp_mono: "u \<le> v \<Longrightarrow> clamp lo hi u \<le> clamp lo hi v"
  by (simp add: clamp_def Let_def)

lemma clip_row:
  assumes "bbox_ok clip" "y0 l = y1 l" "nsfb_plot_clip clip l = (vis, r)"
  shows "(if vis then row_points r else {}) =
      {(x, y). y = y0 l \<and> min (x0 l) (x1 l) \<le> x \<and> x < max (x0 l) (x1 l)} \<inter> pixels clip"
    and "vis \<Longrightarrow> x0 r \<le> x1 r"
proof -
  define q where "q = bbox_order l"
  have q: "x0 q = min (x0 l) (x1 l)" "x1 q = max (x0 l) (x1 l)" "y0 q = y0 l" "y1 q = y0 l"
    using assms(2) by (auto simp: q_def bbox_order_def Let_def)
  define out where "out \<longleftrightarrow> y0 l > y1 clip - 1 \<or> y0 l < y0 clip \<or> (x0 q > x1 clip - 1 \<and> x1 q > x1 clip - 1)
        \<or> (x0 q < x0 clip \<and> x1 q < x0 clip)"
  have "(if out then (False, q)
     else (True, q\<lparr>x0 := clamp (x0 clip) (x1 clip) (x0 q), x1 := clamp (x0 clip) (x1 clip) (x1 q),
        y0 := clamp (y0 clip) (y1 clip) (y0 q), y1 := clamp (y0 clip) (y1 clip) (y1 q)\<rparr>)) = (vis, r)"
    using assms(3) unfolding out_def nsfb_plot_clip_eq Let_def q_def [symmetric] q(3,4)
    by (simp only: conj_absorb disj_ac)
  then have vis: "vis \<longleftrightarrow> \<not> out" and r: "\<not> out \<Longrightarrow> x0 r = clamp (x0 clip) (x1 clip) (x0 q)
      \<and> x1 r = clamp (x0 clip) (x1 clip) (x1 q) \<and> y0 r = clamp (y0 clip) (y1 clip) (y0 l)"
    by (cases out; simp add: q(3); fastforce)+
  show "(if vis then row_points r else {}) =
      {(x, y). y = y0 l \<and> min (x0 l) (x1 l) \<le> x \<and> x < max (x0 l) (x1 l)} \<inter> pixels clip"
  proof (cases out)
    case False
    then have "y0 clip \<le> y0 l" "y0 l \<le> y1 clip - 1" by (simp_all add: out_def)
    with r [OF False] have "y0 r = y0 l" "x0 r = clamp (x0 clip) (x1 clip) (x0 q)"
      "x1 r = clamp (x0 clip) (x1 clip) (x1 q)" by (simp_all add: clamp_inside)
    moreover have "x0 clip \<le> x1 clip" using assms(1) by (simp add: bbox_ok_def)
    ultimately have "row_points r = (\<lambda>x. (x, y0 l)) ` ({x0 q..<x1 q} \<inter> {x0 clip..<x1 clip})"
      by (simp add: row_points_def clamp_range)
    with False vis \<open>y0 clip \<le> y0 l\<close> \<open>y0 l \<le> y1 clip - 1\<close> show ?thesis
      by (simp add: q(1,2)) (auto simp del: min_le_iff_disj less_max_iff_disj)
  next
    case True
    with vis q show ?thesis unfolding out_def by auto
  qed
  have "x0 q \<le> x1 q" using q by simp
  then show "x0 r \<le> x1 r" if vis
    using r vis that by (simp add: clamp_mono)
qed

lemma line_one_eq:
  assumes "bbox_ok (nsfb_clip nsfb)" "2 dvd nsfb_linelen nsfb"
  shows "snd (line_one nsfb ent l) = nsfb\<lparr>nsfb_vram := fill_set (locs nsfb (drawn_points nsfb l)) ent (nsfb_vram nsfb)\<rparr>"
proof (cases "y0 l = y1 l")
  case True
  obtain vis r where r: "nsfb_plot_clip (nsfb_clip nsfb) l = (vis, r)" by force
  have "vis \<Longrightarrow> x0 r \<le> x1 r" using clip_row(2) [OF assms(1) True r] .
  then show ?thesis
    using True r by (auto simp: line_one_def drawn_points_def nsfb_plot_clip_ctx_def line_horizontal_eq)
next
  case False
  obtain vis r where r: "nsfb_plot_clip_line_ctx nsfb l = (vis, r)" by force
  show ?thesis
    using False r by (auto simp: line_one_def drawn_points_def line_bresenham_eq [OF assms(2)])
qed

lemma drawn_points_row:
  assumes "bbox_ok (nsfb_clip nsfb)" "y0 l = y1 l"
  shows "drawn_points nsfb l =
      {(x, y). y = y0 l \<and> min (x0 l) (x1 l) \<le> x \<and> x < max (x0 l) (x1 l)} \<inter> pixels (nsfb_clip nsfb)"
proof -
  obtain vis r where r: "nsfb_plot_clip (nsfb_clip nsfb) l = (vis, r)" by force
  show ?thesis
    unfolding clip_row(1) [OF assms r, symmetric]
    using assms(2) r by (simp add: drawn_points_def nsfb_plot_clip_ctx_def)
qed

lemma drawn_points_clip:
  assumes "bbox_ok (nsfb_clip nsfb)"
  shows "drawn_points nsfb l \<subseteq> pixels (nsfb_clip nsfb)"
proof (cases "y0 l = y1 l")
  case True
  show ?thesis using drawn_points_row [OF assms True] by blast
next
  case False
  obtain vis r where r: "nsfb_plot_clip_line (nsfb_clip nsfb) l = (vis, r)" by force
  have "vis \<Longrightarrow> line_span r \<subseteq> pixels (nsfb_clip nsfb)"
    using nsfb_plot_clip_line_cases [OF r] clip_answer_span by force
  with line_points_span [of _ r] False r show ?thesis
    by (auto simp: drawn_points_def nsfb_plot_clip_line_ctx_def)
qed

lemma drawn_points_vram [simp]: "drawn_points (nsfb\<lparr>nsfb_vram := m\<rparr>) l = drawn_points nsfb l"
  by (cases "nsfb_plot_clip_line (nsfb_clip nsfb) l")
    (simp add: drawn_points_def nsfb_plot_clip_ctx_def nsfb_plot_clip_line_ctx_def)

lemma get_xy_loc_vram [simp]: "get_xy_loc (nsfb\<lparr>nsfb_vram := m\<rparr>) x y = get_xy_loc nsfb x y"
  by (simp add: get_xy_loc_def)

lemma locs_vram [simp]: "locs (nsfb\<lparr>nsfb_vram := m\<rparr>) S = locs nsfb S"
  by (simp add: locs_def)

lemma line_all_eq:
  assumes "bbox_ok (nsfb_clip nsfb)" "2 dvd nsfb_linelen nsfb"
  shows "snd (line_all nsfb ent ls) =
    nsfb\<lparr>nsfb_vram := fill_set (locs nsfb (\<Union>l\<in>set ls. drawn_points nsfb l)) ent (nsfb_vram nsfb)\<rparr>"
  using assms
proof (induction ls arbitrary: nsfb)
  case (Cons l ls)
  let ?n = "snd (line_one nsfb ent l)"
  have n: "?n = nsfb\<lparr>nsfb_vram := fill_set (locs nsfb (drawn_points nsfb l)) ent (nsfb_vram nsfb)\<rparr>"
    by (rule line_one_eq [OF Cons.prems])
  have "snd (line_all nsfb ent (l # ls)) = snd (line_all ?n ent ls)"
    by (simp split: prod.splits)
  also have "\<dots> = ?n\<lparr>nsfb_vram := fill_set (locs ?n (\<Union>l\<in>set ls. drawn_points ?n l)) ent (nsfb_vram ?n)\<rparr>"
    using Cons.prems by (intro Cons.IH) (simp_all add: n)
  finally show ?case by (simp add: n fill_set_union Un_commute)
qed simp

lemma plot_line_eq:
  assumes "bbox_ok (nsfb_clip nsfb)" "2 dvd nsfb_linelen nsfb" and "plot_line nsfb ls pen = (ok, ls', nsfb')"
  shows "ok \<and> nsfb' = nsfb\<lparr>nsfb_vram := fill_set (locs nsfb (\<Union>l\<in>set ls. drawn_points nsfb l))
     (colour_to_pixel nsfb (stroke_colour pen)) (nsfb_vram nsfb)\<rparr>"
  using line_all_eq [OF assms(1,2), of "colour_to_pixel nsfb (stroke_colour pen)" ls] assms(3)
  by (auto simp: plot_line_def split: prod.splits)

text \<open>The rounding of Bresenham's algorithm: the short coordinate is the nearest integer.\<close>

lemma bres_nearest:
  assumes "0 < a"
  shows "2 * \<bar>bres_k a b i * a - i * b\<bar> \<le> a"
proof -
  have *: "2 * \<bar>k - n\<bar> \<le> a" if "k + r = h + n" "0 \<le> r" "r < a" "2 * h \<le> a" "a \<le> 2 * h + 1" for k n r h :: int
    using that by presburger
  show ?thesis
    by (rule * [of _ "(a div 2 + i * b) mod a" "a div 2"]) (use assms in \<open>simp_all add: bres_k_def\<close>)
qed

lemma SIGN_abs: "\<bar>SIGN d * v\<bar> \<le> \<bar>v\<bar>"
  by (simp add: SIGN_def)

text \<open>How far a point is off the line, in units of \<open>1 / max \<bar>dx\<bar> \<bar>dy\<bar>\<close> along the short axis.\<close>

definition line_error :: "nsfb_bbox \<Rightarrow> int \<Rightarrow> int \<Rightarrow> int" where
  "line_error l x y = \<bar>(y - y0 l) * (x1 l - x0 l) - (x - x0 l) * (y1 l - y0 l)\<bar>"

lemma line_points_error:
  assumes "\<not> rotated \<or> x0 l < x1 l" "(x, y) \<in> line_points rotated l"
  shows "2 * line_error l x y \<le> max \<bar>x1 l - x0 l\<bar> \<bar>y1 l - y0 l\<bar>"
proof -
  have within: "2 * e \<le> max a b" if "e \<le> f" "2 * f \<le> a \<or> 2 * f \<le> b" for e f a b :: int
    using that by auto
  define dx dy where d: "dx = x1 l - x0 l" "dy = y1 l - y0 l"
  define X Y where XY: "X = (if dx \<ge> 0 then x0 l else x1 l)" "Y = (if dx \<ge> 0 then y0 l else y1 l)"
  have err: "line_error l x y = \<bar>(y - Y) * dx - (x - X) * dy\<bar>"
    by (simp add: line_error_def XY d algebra_simps)
  have pts: "(x, y) \<in> (if \<bar>dx\<bar> \<ge> \<bar>dy\<bar> then bres_x_points \<bar>dx\<bar> \<bar>dy\<bar> (if dx = 0 then SIGN dy else SIGN dy * SIGN dx) X Y \<bar>dx\<bar>
      else bres_y_points \<bar>dy\<bar> \<bar>dx\<bar> (if dx = 0 then SIGN dy else SIGN dy * SIGN dx) X Y \<bar>dy\<bar>)"
    using assms by (auto simp: line_points_def Let_def d XY line_step_cases SIGN_def split: if_splits)
  show ?thesis
  proof (cases "\<bar>dx\<bar> \<ge> \<bar>dy\<bar>")
    case True
    with pts obtain i where i: "0 \<le> i" "i < \<bar>dx\<bar>" "x = X + i"
      "y = Y + (if dx = 0 then SIGN dy else SIGN dy * SIGN dx) * bres_k \<bar>dx\<bar> \<bar>dy\<bar> i"
      by (auto simp: bres_x_points_def)
    then have "(y - Y) * dx - (x - X) * dy = SIGN dy * (bres_k \<bar>dx\<bar> \<bar>dy\<bar> i * \<bar>dx\<bar> - i * \<bar>dy\<bar>)"
      by (auto simp: SIGN_def algebra_simps)
    then have "line_error l x y \<le> \<bar>bres_k \<bar>dx\<bar> \<bar>dy\<bar> i * \<bar>dx\<bar> - i * \<bar>dy\<bar>\<bar>"
      unfolding err by (simp only: SIGN_abs)
    moreover have "2 * \<bar>bres_k \<bar>dx\<bar> \<bar>dy\<bar> i * \<bar>dx\<bar> - i * \<bar>dy\<bar>\<bar> \<le> \<bar>dx\<bar>"
      by (rule bres_nearest) (use i(1,2) in simp)
    ultimately show ?thesis unfolding d [symmetric] by (meson within)
  next
    case False
    with pts obtain i where i: "0 \<le> i" "i < \<bar>dy\<bar>" "x = X + bres_k \<bar>dy\<bar> \<bar>dx\<bar> i"
      "y = Y + (if dx = 0 then SIGN dy else SIGN dy * SIGN dx) * i"
      by (auto simp: bres_y_points_def)
    then have "(y - Y) * dx - (x - X) * dy = SIGN dy * (i * \<bar>dx\<bar> - bres_k \<bar>dy\<bar> \<bar>dx\<bar> i * \<bar>dy\<bar>)"
      by (auto simp: SIGN_def algebra_simps)
    then have "line_error l x y \<le> \<bar>bres_k \<bar>dy\<bar> \<bar>dx\<bar> i * \<bar>dy\<bar> - i * \<bar>dx\<bar>\<bar>"
      unfolding err by (metis SIGN_abs abs_minus_commute)
    moreover have "2 * \<bar>bres_k \<bar>dy\<bar> \<bar>dx\<bar> i * \<bar>dy\<bar> - i * \<bar>dx\<bar>\<bar> \<le> \<bar>dy\<bar>"
      by (rule bres_nearest) (use i(1,2) in simp)
    ultimately show ?thesis unfolding d [symmetric] by (meson within)
  qed
qed

lemma bres_points_card:
  "card (bres_x_points a b step X Y n) = nat n"
  "step \<noteq> 0 \<Longrightarrow> card (bres_y_points a b step X Y n) = nat n"
  by (auto simp: bres_x_points_def bres_y_points_def card_image inj_on_def)

lemma line_points_card:
  assumes "\<not> rotated \<or> x0 l < x1 l"
  shows "card (line_points rotated l) = nat (max \<bar>x1 l - x0 l\<bar> \<bar>y1 l - y0 l\<bar>)"
proof (cases "\<bar>x1 l - x0 l\<bar> \<ge> \<bar>y1 l - y0 l\<bar>")
  case True
  then show ?thesis by (simp add: line_points_def Let_def bres_points_card)
next
  case False
  then have "line_step rotated (x1 l - x0 l) (y1 l - y0 l) \<noteq> 0"
    using assms by (auto simp: line_step_cases SIGN_def)
  with False show ?thesis by (simp add: line_points_def Let_def bres_points_card)
qed

section \<open>Properties\<close>





text \<open>
  On the rotated framebuffer a vertical line is not drawn: whatever its
  length, the only pixel it can change is its first one.
\<close>

theorem plot_line_vertical_rotated:
  assumes "clip_ok nsfb" "surface_ok nsfb" and "plot_line nsfb [l] pen = (ok, ls', nsfb')"
    and "nsfb_orientation nsfb = 1" "y0 l \<noteq> y1 l" "nsfb_plot_clip_line_ctx nsfb l = (True, r)" "x0 r = x1 r"
  shows "only_in {get_xy_loc nsfb (x0 r) (y0 r)} (nsfb_vram nsfb) (nsfb_vram nsfb')"
proof -
  have "bbox_ok (nsfb_clip nsfb)" using clip_on_screen [OF assms(1)] by auto
  moreover have "2 dvd nsfb_linelen nsfb" using assms(2) by (auto simp: surface_ok_def dvd_def)
  moreover have "line_points True r \<subseteq> {(x0 r, y0 r)}"
    using assms(7) by (auto simp: line_points_def bres_y_points_def bres_x_points_def Let_def bres_k_def
        line_step_cases div_pos_pos_trivial)
  then have "locs nsfb (drawn_points nsfb l) \<subseteq> {get_xy_loc nsfb (x0 r) (y0 r)}"
    using assms(4-6) by (auto simp: drawn_points_def locs_def)
  ultimately show ?thesis
    using plot_line_eq [OF _ _ assms(3)] by (auto simp: only_in_def fill_set_def)
qed

lemma plot_line_vertical_rotated_witness:
  "let nsfb = surface_example 1
   in only_in {get_xy_loc nsfb 1 0} (nsfb_vram nsfb)
        (nsfb_vram (snd (snd (plot_line nsfb [\<lparr>x0 = 1, y0 = 0, x1 = 1, y1 = 3\<rparr>] pen_example))))"
proof -
  let ?n = "surface_example 1" and ?l = "\<lparr>x0 = 1, y0 = 0, x1 = 1, y1 = 3\<rparr>"
  obtain ok q n' where f: "plot_line ?n [?l] pen_example = (ok, q, n')" using prod_cases3 by blast
  have "nsfb_plot_clip_line_ctx ?n ?l = (True, ?l)" "nsfb_orientation ?n = 1"
    by (simp_all add: nsfb_plot_clip_line_ctx_def surface_example_def nsfb_plot_clip_line.simps REGION_def region_defs)
  with plot_line_vertical_rotated [OF surface_example_ok f, of ?l] show ?thesis by (simp add: f)
qed

end
