(* ===== verification/Plot_Raster.thy ===== *)
theory Plot_Raster
  imports Plot_Clip
begin

text \<open>
  What a loop over pixels paints.  The glyph and bitmap plotters of
  \<^verbatim>\<open>libnsfb/src/plot/common.c\<close> visit the pixels of a clipped box row by row, either by
  coordinates or by walking a pointer, and replace each pixel by a function of
  its place and of its old value.  The rules here turn such loops into one
  statement about the pixels of the box.
\<close>

section \<open>Painting a set of pixels\<close>

definition paints ::
  "nsfb \<Rightarrow> (int \<times> int) set \<Rightarrow> (int \<Rightarrow> int \<Rightarrow> 16 word \<Rightarrow> 16 word) \<Rightarrow> (int \<Rightarrow> 16 word) \<Rightarrow> (int \<Rightarrow> 16 word) \<Rightarrow> bool" where
  "paints nsfb S g m m' \<longleftrightarrow> only_in (locs nsfb S) m m' \<and>
     (\<forall>(x, y)\<in>S. m' (get_xy_loc nsfb x y) = g x y (m (get_xy_loc nsfb x y)))"

lemma paints_empty [simp]: "paints nsfb {} g m m' \<longleftrightarrow> m' = m"
  by (auto simp: paints_def only_in_def fun_eq_iff)

lemma paints_one:
  "p = get_xy_loc nsfb x y \<Longrightarrow> v = g x y (m p) \<Longrightarrow> paints nsfb {(x, y)} g m (m(p := v))"
  by (simp add: paints_def only_in_def locs_def)

lemma paints_keep: "g x y (m (get_xy_loc nsfb x y)) = m (get_xy_loc nsfb x y) \<Longrightarrow> paints nsfb {(x, y)} g m m"
  by (simp add: paints_def)

lemma paints_at:
  "paints nsfb S g m m' \<Longrightarrow> (x, y) \<in> S \<Longrightarrow> m' (get_xy_loc nsfb x y) = g x y (m (get_xy_loc nsfb x y))"
  by (auto simp: paints_def)

text \<open>On the screen, what is painted at a pixel depends only on whether it is in the set.\<close>

lemma paints_screen:
  assumes "paints nsfb S g m m'" "surface_ok nsfb" "S \<subseteq> pixels (screen nsfb)" "(x, y) \<in> pixels (screen nsfb)"
  shows "m' (get_xy_loc nsfb x y) =
    (if (x, y) \<in> S then g x y (m (get_xy_loc nsfb x y)) else m (get_xy_loc nsfb x y))"
proof (cases "(x, y) \<in> S")
  case False
  then have "get_xy_loc nsfb x y \<notin> locs nsfb S" unfolding locs_mem_iff [OF assms(2-4)] .
  moreover have "only_in (locs nsfb S) m m'" using assms(1) unfolding paints_def by blast
  ultimately have "m' (get_xy_loc nsfb x y) = m (get_xy_loc nsfb x y)" by (rule only_inD [rotated])
  with False show ?thesis by (simp only: if_False)
next
  case True
  then show ?thesis using paints_at [OF assms(1)] by (simp only: if_True)
qed

lemma paints_union:
  assumes "surface_ok nsfb" "S \<union> T \<subseteq> pixels (screen nsfb)" "S \<inter> T = {}"
    and "paints nsfb S g m m'" "paints nsfb T g m' m''"
  shows "paints nsfb (S \<union> T) g m m''"
proof -
  have sub: "S \<subseteq> pixels (screen nsfb)" "T \<subseteq> pixels (screen nsfb)" using assms(2) by simp_all
  have "only_in (locs nsfb S \<union> locs nsfb T) m m''"
    using assms(4,5) by (auto simp: paints_def only_in_def)
  moreover have "m'' (get_xy_loc nsfb x y) = g x y (m (get_xy_loc nsfb x y))" if xy: "(x, y) \<in> S \<union> T" for x y
  proof -
    have "(x, y) \<in> pixels (screen nsfb)" using xy assms(2) by blast
    then have "m' (get_xy_loc nsfb x y) = (if (x, y) \<in> S then g x y (m (get_xy_loc nsfb x y)) else m (get_xy_loc nsfb x y))"
      "m'' (get_xy_loc nsfb x y) = (if (x, y) \<in> T then g x y (m' (get_xy_loc nsfb x y)) else m' (get_xy_loc nsfb x y))"
      using paints_screen [OF assms(4,1) sub(1)] paints_screen [OF assms(5,1) sub(2)] by blast+
    with xy assms(3) show ?thesis by (cases "(x, y) \<in> S") (simp_all add: disjoint_iff)
  qed
  ultimately show ?thesis by (auto simp: paints_def)
qed

text \<open>A loop whose rounds paint disjoint sets; \<open>mem\<close> finds the memory in the loop's state.\<close>

lemma for_int_paints:
  assumes "surface_ok nsfb" "I lo s" "lo \<le> hi"
    and "\<And>i s. lo \<le> i \<Longrightarrow> i < hi \<Longrightarrow> I i s \<Longrightarrow> I (i + 1) (body i s) \<and> paints nsfb (S i) g (mem s) (mem (body i s))"
    and "\<And>i j. lo \<le> i \<Longrightarrow> i < j \<Longrightarrow> j < hi \<Longrightarrow> S i \<inter> S j = {}"
    and "(\<Union>i\<in>{lo..<hi}. S i) \<subseteq> pixels (screen nsfb)"
  shows "I hi (for_int lo hi body s) \<and> paints nsfb (\<Union>i\<in>{lo..<hi}. S i) g (mem s) (mem (for_int lo hi body s))"
proof -
  let ?P = "\<lambda>k t. I k t \<and> paints nsfb (\<Union>i\<in>{lo..<k}. S i) g (mem s) (mem t)"
  show ?thesis
  proof (rule for_int_inv [where P = ?P, OF _ assms(3)])
    show "?P lo s" using assms(2) by simp
    fix k t assume k: "lo \<le> k" "k < hi" and P: "?P k t"
    have split: "{lo..<k + 1} = insert k {lo..<k}" using k by auto
    have step: "I (k + 1) (body k t)" "paints nsfb (S k) g (mem t) (mem (body k t))"
      using assms(4) [OF k, of t] P by auto
    have sub: "(\<Union>i\<in>{lo..<k}. S i) \<union> S k \<subseteq> pixels (screen nsfb)" using assms(6) k by force
    have disj: "(\<Union>i\<in>{lo..<k}. S i) \<inter> S k = {}" using assms(5) [of _ k] k by fastforce
    have "paints nsfb ((\<Union>i\<in>{lo..<k}. S i) \<union> S k) g (mem s) (mem (body k t))"
      using paints_union [OF assms(1) sub disj] P step(2) by blast
    with step(1) show "?P (k + 1) (body k t)" by (simp add: split Un_commute)
  qed
qed

section \<open>Rows and boxes\<close>

definition row_of :: "nsfb_bbox \<Rightarrow> int \<Rightarrow> (int \<times> int) set" where
  "row_of r y = (\<lambda>x. (x, y)) ` {x0 r..<x1 r}"

lemma row_of_sub: "y0 r \<le> y \<Longrightarrow> y < y1 r \<Longrightarrow> row_of r y \<subseteq> pixels r"
  by (auto simp: row_of_def)

lemma pixels_rows: "hi - lo = y1 r - y0 r \<Longrightarrow> (\<Union>j\<in>{lo..<hi}. row_of r (y0 r + (j - lo))) = pixels r"
proof (intro equalityI subsetI)
  fix p assume "hi - lo = y1 r - y0 r" "p \<in> pixels r"
  then obtain x y where "p = (x, y)" "(x, y) \<in> row_of r y" "y0 r \<le> y" "y < y1 r"
    by (cases p) (auto simp: row_of_def)
  with \<open>hi - lo = y1 r - y0 r\<close> show "p \<in> (\<Union>j\<in>{lo..<hi}. row_of r (y0 r + (j - lo)))"
    by (intro UN_I [of "lo + (y - y0 r)"]) auto
qed (auto simp: row_of_def)

text \<open>One row: round \<open>i\<close> of the loop handles the pixel in column \<open>x0 r + (i - lo)\<close>.\<close>

lemma row_raster:
  assumes "surface_ok nsfb" "pixels r \<subseteq> pixels (screen nsfb)" "y0 r \<le> y" "y < y1 r"
    and "hi - lo = x1 r - x0 r" "x0 r \<le> x1 r" "I lo s"
    and "\<And>i s. lo \<le> i \<Longrightarrow> i < hi \<Longrightarrow> I i s \<Longrightarrow>
       I (i + 1) (body i s) \<and> paints nsfb {(x0 r + (i - lo), y)} g (mem s) (mem (body i s))"
  shows "I hi (for_int lo hi body s) \<and> paints nsfb (row_of r y) g (mem s) (mem (for_int lo hi body s))"
proof -
  have cols: "(\<Union>i\<in>{lo..<hi}. {(x0 r + (i - lo), y)}) = row_of r y"
  proof (intro equalityI subsetI)
    fix p assume "p \<in> row_of r y"
    then obtain x where "p = (x, y)" "x0 r \<le> x" "x < x1 r" by (auto simp: row_of_def)
    with assms(5) show "p \<in> (\<Union>i\<in>{lo..<hi}. {(x0 r + (i - lo), y)})"
      by (intro UN_I [of "lo + (x - x0 r)"]) auto
  qed (use assms(5) in \<open>auto simp: row_of_def\<close>)
  have "(\<Union>i\<in>{lo..<hi}. {(x0 r + (i - lo), y)}) \<subseteq> pixels (screen nsfb)"
    unfolding cols using row_of_sub [OF assms(3,4)] assms(2) by blast
  from for_int_paints [where I = I and mem = mem and body = body and g = g, OF assms(1,7) _ assms(8) _ this] assms(5,6)
  show ?thesis unfolding cols by auto
qed

lemma row_raster_mem:
  assumes "surface_ok nsfb" "pixels r \<subseteq> pixels (screen nsfb)" "y0 r \<le> y" "y < y1 r"
    and "hi - lo = x1 r - x0 r" "x0 r \<le> x1 r"
    and "\<And>i m. lo \<le> i \<Longrightarrow> i < hi \<Longrightarrow> paints nsfb {(x0 r + (i - lo), y)} g m (body i m)"
  shows "paints nsfb (row_of r y) g m (for_int lo hi body m)"
  using row_raster [where I = "\<lambda>_ _. True" and mem = "\<lambda>m. m", OF assms(1-6)] assms(7) by blast

text \<open>The box, by rows.\<close>

lemma box_raster:
  assumes "surface_ok nsfb" "pixels r \<subseteq> pixels (screen nsfb)"
    and "hi - lo = y1 r - y0 r" "y0 r \<le> y1 r" "I lo s"
    and "\<And>j s. lo \<le> j \<Longrightarrow> j < hi \<Longrightarrow> I j s \<Longrightarrow>
       I (j + 1) (body j s) \<and> paints nsfb (row_of r (y0 r + (j - lo))) g (mem s) (mem (body j s))"
  shows "I hi (for_int lo hi body s) \<and> paints nsfb (pixels r) g (mem s) (mem (for_int lo hi body s))"
proof -
  have "row_of r (y0 r + (i - lo)) \<inter> row_of r (y0 r + (j - lo)) = {}" if "i < j" for i j
    using that by (auto simp: row_of_def)
  moreover have "(\<Union>j\<in>{lo..<hi}. row_of r (y0 r + (j - lo))) \<subseteq> pixels (screen nsfb)"
    unfolding pixels_rows [OF assms(3)] by (rule assms(2))
  ultimately have "I hi (for_int lo hi body s) \<and>
      paints nsfb (\<Union>j\<in>{lo..<hi}. row_of r (y0 r + (j - lo))) g (mem s) (mem (for_int lo hi body s))"
    using for_int_paints [where I = I and mem = mem and body = body and g = g
        and S = "\<lambda>j. row_of r (y0 r + (j - lo))", OF assms(1,5)] assms(3,4,6) by auto
  then show ?thesis unfolding pixels_rows [OF assms(3)] .
qed

text \<open>The box, by a pointer that moves from line to line until a limit.\<close>

lemma pvideo_loop:
  assumes "2 dvd ll" "0 < ll" "0 \<le> n"
  shows "for_step (pvideo_add 0 (PLOT_LINELEN ll)) p (pvideo_add p (PLOT_LINELEN ll * n)) f s
    = for_int 0 n (\<lambda>i. f (p + i * ll)) s"
  using for_step_stride [OF assms(2), of p "nat n" f s] assms(3) PLOT_LINELEN_eq [OF assms(1)]
  by (simp add: mult.commute mult.left_commute)

lemma clip_facts:
  assumes "clip_ok nsfb" "surface_ok nsfb" "inside (nsfb_clip nsfb) r"
  shows "pixels r \<subseteq> pixels (screen nsfb)" "x0 r \<le> x1 r" "y0 r \<le> y1 r" "2 dvd nsfb_linelen nsfb"
    "nsfb_orientation nsfb \<noteq> 1 \<Longrightarrow> x0 r < x1 r \<Longrightarrow> 0 < nsfb_linelen nsfb"
    "nsfb_orientation nsfb \<noteq> 1 \<Longrightarrow> 0 \<le> nsfb_linelen nsfb"
proof -
  show "pixels r \<subseteq> pixels (screen nsfb)" "x0 r \<le> x1 r" "y0 r \<le> y1 r"
    using clip_on_screen [OF assms(1)] inside_pixels [OF assms(3)] assms(3) by (auto simp: inside_def)
  show "2 dvd nsfb_linelen nsfb" using assms(2) by (auto simp: surface_ok_def dvd_def)
  show "nsfb_orientation nsfb \<noteq> 1 \<Longrightarrow> x0 r < x1 r \<Longrightarrow> 0 < nsfb_linelen nsfb"
    "nsfb_orientation nsfb \<noteq> 1 \<Longrightarrow> 0 \<le> nsfb_linelen nsfb"
    using assms by (auto simp: surface_ok_def clip_ok_def inside_def screen_def)
qed

lemma pvideo_raster:
  assumes ok: "clip_ok nsfb" "surface_ok nsfb" "nsfb_orientation nsfb \<noteq> 1" "inside (nsfb_clip nsfb) r"
    and h: "h = y1 r - y0 r" and I: "I 0 s"
    and rows: "\<And>j s. 0 \<le> j \<Longrightarrow> j < h \<Longrightarrow> I j s \<Longrightarrow> I (j + 1) (f (get_xy_loc nsfb X (y0 r + j)) s)
      \<and> paints nsfb (row_of r (y0 r + j)) g (mem s) (mem (f (get_xy_loc nsfb X (y0 r + j)) s))"
  shows "paints nsfb (pixels r) g (mem s) (mem (for_step (pvideo_add 0 (PLOT_LINELEN (nsfb_linelen nsfb)))
     (get_xy_loc nsfb X (y0 r)) (pvideo_add (get_xy_loc nsfb X (y0 r)) (PLOT_LINELEN (nsfb_linelen nsfb) * h)) f s))"
proof (cases "nsfb_linelen nsfb = 0")
  case True
  then have "\<not> x0 r < x1 r" using clip_facts(5) [OF ok(1,2,4,3)] by auto
  then have "pixels r = {}" by auto
  with True show ?thesis by (simp add: PLOT_LINELEN_def for_step.simps)
next
  case False
  let ?p = "get_xy_loc nsfb X (y0 r)" and ?ll = "nsfb_linelen nsfb"
  note facts = clip_facts [OF ok(1,2,4)]
  have ll: "0 < ?ll" using False facts(6) [OF ok(3)] by simp
  have adr: "?p + j * ?ll = get_xy_loc nsfb X (y0 r + j)" for j
    using ok(3) by (simp add: get_xy_loc_eq algebra_simps)
  have "paints nsfb (pixels r) g (mem s) (mem (for_int 0 h (\<lambda>j. f (?p + j * ?ll)) s))"
    using box_raster [where I = I and mem = mem and g = g and lo = 0 and hi = h, OF ok(2) facts(1) _ facts(3) I] rows h
    by (simp add: adr)
  then show ?thesis using pvideo_loop [OF facts(4) ll, of h ?p f s] h facts(3) by simp
qed

end
