(* ===== verification/Plot_Glyph.thy ===== *)
theory Plot_Glyph
  imports Plot_Raster
begin

text \<open>
  Glyph plotting of \<^verbatim>\<open>libnsfb/src/plot/common.c\<close>: one-bit glyphs, which set the
  pixels of the bitmap's one bits, and eight-bit glyphs, whose bytes are the
  opacity of the colour.  Bitmap data is a map from byte offsets to bytes.
\<close>

section \<open>One-bit glyphs\<close>

definition glyph_bit :: "(int \<Rightarrow> 8 word) \<Rightarrow> int \<Rightarrow> int \<Rightarrow> bool" where
  "glyph_bit pixel row xloop \<longleftrightarrow>
     pixel (row + cdiv xloop 8) AND drop_bit (nat (cmod xloop 8)) 0x80 \<noteq> 0"

definition glyph1_landscape ::
  "nsfb \<Rightarrow> (int \<Rightarrow> 8 word) \<Rightarrow> int \<Rightarrow> 16 word \<Rightarrow> int \<Rightarrow> int \<Rightarrow> int \<Rightarrow> int \<Rightarrow> int \<Rightarrow> int
     \<Rightarrow> (int \<Rightarrow> 16 word) \<Rightarrow> int \<Rightarrow> 16 word" where
  "glyph1_landscape nsfb pixel pitch fgcol x ly width height xoff yoff m =
     snd (for_int ly (ly + height - yoff) (\<lambda>cy (row, m).
       (row + pitch,
        for_int x (x + width - xoff) (\<lambda>cx m. let xloop = cx - x + xoff in
          if glyph_bit pixel row xloop then m(get_xy_loc nsfb cx cy := fgcol) else m) m))
      (yoff * pitch, m))"

definition glyph1_portrait ::
  "nsfb \<Rightarrow> (int \<Rightarrow> 8 word) \<Rightarrow> int \<Rightarrow> 16 word \<Rightarrow> int \<Rightarrow> int \<Rightarrow> int \<Rightarrow> int \<Rightarrow> int \<Rightarrow> int
     \<Rightarrow> (int \<Rightarrow> 16 word) \<Rightarrow> int \<Rightarrow> 16 word" where
  "glyph1_portrait nsfb pixel pitch fgcol x ly width height xoff yoff m = (let
     line_len = PLOT_LINELEN (nsfb_linelen nsfb);
     pvideo = get_xy_loc nsfb x ly;
     pvideo_limit = pvideo_add pvideo (line_len * (height - yoff))
   in snd (for_step (pvideo_add 0 line_len) pvideo pvideo_limit (\<lambda>pvideo (row, m).
       (row + pitch,
        for_int xoff width (\<lambda>xloop m.
          if glyph_bit pixel row xloop then m(pvideo_add pvideo xloop := fgcol) else m) m))
      (yoff * pitch, m)))"

definition glyph1 ::
  "nsfb \<Rightarrow> nsfb_bbox \<Rightarrow> (int \<Rightarrow> 8 word) \<Rightarrow> int \<Rightarrow> nsfb_colour \<Rightarrow> bool \<times> nsfb_bbox \<times> nsfb" where
  "glyph1 nsfb loc pixel pitch c = (let
     x = x0 loc; y = y0 loc;
     (vis, loc) = nsfb_plot_clip_ctx nsfb loc
   in if \<not> vis then (True, loc, nsfb)
   else let
     height = y1 loc - y; width = x1 loc - x;
     xoff = x0 loc - x; yoff = y0 loc - y;
     fgcol = colour_to_pixel nsfb c;
     pitch = drop_bit 3 pitch
   in (True, loc, nsfb\<lparr>nsfb_vram :=
        (if nsfb_orientation nsfb = 1
         then glyph1_landscape nsfb pixel pitch fgcol x (y0 loc) width height xoff yoff (nsfb_vram nsfb)
         else glyph1_portrait nsfb pixel pitch fgcol x (y0 loc) width height xoff yoff (nsfb_vram nsfb))\<rparr>))"

text \<open>What a pixel becomes: \<open>x\<close> and \<open>y\<close> are the glyph's upper left corner.\<close>

definition glyph1_pixel ::
  "(int \<Rightarrow> 8 word) \<Rightarrow> int \<Rightarrow> 16 word \<Rightarrow> int \<Rightarrow> int \<Rightarrow> int \<Rightarrow> int \<Rightarrow> 16 word \<Rightarrow> 16 word" where
  "glyph1_pixel pixel pitch fgcol x y px py old =
     (if glyph_bit pixel ((py - y) * pitch) (px - x) then fgcol else old)"

lemma glyph1_round:
  "p = get_xy_loc nsfb px py \<Longrightarrow> row = (py - y) * pitch \<Longrightarrow> xloop = px - x \<Longrightarrow>
     paints nsfb {(px, py)} (glyph1_pixel pixel pitch fgcol x y) m
       (if glyph_bit pixel row xloop then m(p := fgcol) else m)"
  by (simp add: paints_one paints_keep glyph1_pixel_def)

lemma glyph1_portrait_paints:
  assumes ok: "clip_ok nsfb" "surface_ok nsfb" "nsfb_orientation nsfb \<noteq> 1" "inside (nsfb_clip nsfb) r"
  shows "paints nsfb (pixels r) (glyph1_pixel pixel pitch fgcol x y) m
    (glyph1_portrait nsfb pixel pitch fgcol x (y0 r) (x1 r - x) (y1 r - y) (x0 r - x) (y0 r - y) m)"
proof -
  note facts = clip_facts [OF ok(1,2,4)]
  let ?g = "glyph1_pixel pixel pitch fgcol x y" and ?I = "\<lambda>j (s :: int \<times> (int \<Rightarrow> 16 word)). fst s = (y0 r + j - y) * pitch"
  let ?f = "\<lambda>pvideo (row, m). (row + pitch,
        for_int (x0 r - x) (x1 r - x) (\<lambda>xloop m.
          if glyph_bit pixel row xloop then m(pvideo_add pvideo xloop := fgcol) else m) m)"
  have "paints nsfb (pixels r) ?g (snd ((y0 r - y) * pitch, m))
    (snd (for_step (pvideo_add 0 (PLOT_LINELEN (nsfb_linelen nsfb))) (get_xy_loc nsfb x (y0 r))
       (pvideo_add (get_xy_loc nsfb x (y0 r)) (PLOT_LINELEN (nsfb_linelen nsfb) * (y1 r - y0 r))) ?f
       ((y0 r - y) * pitch, m)))"
  proof (rule pvideo_raster [where I = ?I and mem = snd, OF ok])
    fix j and s :: "int \<times> (int \<Rightarrow> 16 word)" assume j: "0 \<le> j" "j < y1 r - y0 r" and I: "?I j s"
    have adr: "pvideo_add (get_xy_loc nsfb x (y0 r + j)) (x0 r - x + d) = get_xy_loc nsfb (x0 r + d) (y0 r + j)" for d
      using ok(3) by (simp add: get_xy_loc_eq algebra_simps)
    have "paints nsfb (row_of r (y0 r + j)) ?g (snd s)
        (for_int (x0 r - x) (x1 r - x) (\<lambda>xloop m. if glyph_bit pixel (fst s) xloop
            then m(pvideo_add (get_xy_loc nsfb x (y0 r + j)) xloop := fgcol) else m) (snd s))"
    proof (rule row_raster_mem [OF ok(2) facts(1)])
      fix i m
      show "paints nsfb {(x0 r + (i - (x0 r - x)), y0 r + j)} ?g m (if glyph_bit pixel (fst s) i
            then m(pvideo_add (get_xy_loc nsfb x (y0 r + j)) i := fgcol) else m)"
        using adr [of "i - (x0 r - x)"] I by (intro glyph1_round) auto
    qed (use j facts in auto)
    then show "?I (j + 1) (?f (get_xy_loc nsfb x (y0 r + j)) s) \<and>
        paints nsfb (row_of r (y0 r + j)) ?g (snd s) (snd (?f (get_xy_loc nsfb x (y0 r + j)) s))"
      using I by (cases s) (simp add: algebra_simps)
  qed auto
  then show ?thesis by (simp add: glyph1_portrait_def Let_def)
qed

lemma glyph1_landscape_paints:
  assumes ok: "clip_ok nsfb" "surface_ok nsfb" "inside (nsfb_clip nsfb) r" and left: "x0 r = x"
  shows "paints nsfb (pixels r) (glyph1_pixel pixel pitch fgcol x y) m
    (glyph1_landscape nsfb pixel pitch fgcol x (y0 r) (x1 r - x) (y1 r - y) 0 (y0 r - y) m)"
proof -
  note facts = clip_facts [OF ok]
  let ?g = "glyph1_pixel pixel pitch fgcol x y" and ?I = "\<lambda>cy (s :: int \<times> (int \<Rightarrow> 16 word)). fst s = (cy - y) * pitch"
  let ?f = "\<lambda>cy (row, m). (row + pitch,
        for_int x (x1 r) (\<lambda>cx m. if glyph_bit pixel row (cx - x) then m(get_xy_loc nsfb cx cy := fgcol) else m) m)"
  have "?I (y1 r) (for_int (y0 r) (y1 r) ?f ((y0 r - y) * pitch, m)) \<and>
    paints nsfb (pixels r) ?g (snd ((y0 r - y) * pitch, m)) (snd (for_int (y0 r) (y1 r) ?f ((y0 r - y) * pitch, m)))"
  proof (rule box_raster [where I = ?I and mem = snd, OF ok(2) facts(1)])
    fix j and s :: "int \<times> (int \<Rightarrow> 16 word)" assume j: "y0 r \<le> j" "j < y1 r" and I: "?I j s"
    have "paints nsfb (row_of r j) ?g (snd s)
        (for_int x (x1 r) (\<lambda>cx m. if glyph_bit pixel (fst s) (cx - x) then m(get_xy_loc nsfb cx j := fgcol) else m) (snd s))"
    proof (rule row_raster_mem [OF ok(2) facts(1)])
      fix i m
      show "paints nsfb {(x0 r + (i - x), j)} ?g m
          (if glyph_bit pixel (fst s) (i - x) then m(get_xy_loc nsfb i j := fgcol) else m)"
        using I left by (intro glyph1_round) auto
    qed (use j facts left in auto)
    then show "?I (j + 1) (?f j s) \<and> paints nsfb (row_of r (y0 r + (j - y0 r))) ?g (snd s) (snd (?f j s))"
      using I by (cases s) (simp add: algebra_simps)
  qed (use facts in auto)
  then show ?thesis by (simp add: glyph1_landscape_def Let_def)
qed

section \<open>Eight-bit glyphs\<close>

definition glyph8 ::
  "nsfb \<Rightarrow> nsfb_bbox \<Rightarrow> (int \<Rightarrow> 8 word) \<Rightarrow> int \<Rightarrow> nsfb_colour \<Rightarrow> bool \<times> nsfb_bbox \<times> nsfb" where
  "glyph8 nsfb loc pixel pitch c = (let
     x = x0 loc; y = y0 loc;
     (vis, loc) = nsfb_plot_clip_ctx nsfb loc
   in if \<not> vis then (True, loc, nsfb)
   else let
     height = y1 loc - y0 loc; width = x1 loc - x0 loc;
     xoff = x0 loc - x; yoff = y0 loc - y;
     fgcol = c AND 0xFFFFFF
   in (True, loc, nsfb\<lparr>nsfb_vram :=
        (if nsfb_orientation nsfb = 1 then
           for_int 0 height (\<lambda>yloop. let cy = y0 loc + yloop in
             for_int 0 width (\<lambda>xloop m. let
                 cx = x0 loc + xloop;
                 abpixel = push_bit 24 (ucast (pixel ((yoff + yloop) * pitch + xloop + xoff))) OR fgcol
               in plot_alpha nsfb abpixel (get_xy_loc nsfb cx cy) m)) (nsfb_vram nsfb)
         else snd (for_int 0 height (\<lambda>yloop (pvideo, m).
             (pvideo_add pvideo (PLOT_LINELEN (nsfb_linelen nsfb)),
              for_int 0 width (\<lambda>xloop m. let
                 abpixel = push_bit 24 (ucast (pixel ((yoff + yloop) * pitch + xloop + xoff))) OR fgcol
               in plot_alpha nsfb abpixel (pvideo_add pvideo xloop) m) m))
           (get_xy_loc nsfb (x0 loc) (y0 loc), nsfb_vram nsfb)))\<rparr>))"

text \<open>Blending a colour over a pixel.\<close>

definition blend_pixel :: "nsfb \<Rightarrow> nsfb_colour \<Rightarrow> 16 word \<Rightarrow> 16 word" where
  "blend_pixel nsfb c old =
     (if c AND 0xFF000000 = 0 then old
      else if c AND 0xFF000000 = 0xFF000000 then colour_to_pixel nsfb c
      else colour_to_pixel nsfb (nsfb_plot_ablend c (pixel_to_colour nsfb old)))"

lemma plot_alpha_eq: "plot_alpha nsfb c p m = m(p := blend_pixel nsfb c (m p))"
  by (simp add: plot_alpha_def blend_pixel_def)

definition glyph8_pixel ::
  "nsfb \<Rightarrow> (int \<Rightarrow> 8 word) \<Rightarrow> int \<Rightarrow> nsfb_colour \<Rightarrow> int \<Rightarrow> int \<Rightarrow> int \<Rightarrow> int \<Rightarrow> 16 word \<Rightarrow> 16 word" where
  "glyph8_pixel nsfb pixel pitch c x y px py old =
     blend_pixel nsfb (push_bit 24 (ucast (pixel ((py - y) * pitch + (px - x)))) OR (c AND 0xFFFFFF)) old"

lemma glyph8_round:
  "p = get_xy_loc nsfb px py \<Longrightarrow> k = (py - y) * pitch + (px - x) \<Longrightarrow>
     paints nsfb {(px, py)} (glyph8_pixel nsfb pixel pitch c x y) m
       (plot_alpha nsfb (push_bit 24 (ucast (pixel k)) OR (c AND 0xFFFFFF)) p m)"
  by (simp add: plot_alpha_eq paints_one glyph8_pixel_def)

lemma glyph8_rows_landscape:
  assumes ok: "clip_ok nsfb" "surface_ok nsfb" "inside (nsfb_clip nsfb) r"
  shows "paints nsfb (pixels r) (glyph8_pixel nsfb pixel pitch c x y) m
    (for_int 0 (y1 r - y0 r) (\<lambda>yloop. for_int 0 (x1 r - x0 r) (\<lambda>xloop m.
       plot_alpha nsfb (push_bit 24 (ucast (pixel ((y0 r - y + yloop) * pitch + xloop + (x0 r - x)))) OR (c AND 0xFFFFFF))
         (get_xy_loc nsfb (x0 r + xloop) (y0 r + yloop)) m)) m)"
    (is "paints _ _ ?g _ (for_int _ _ ?f _)")
proof -
  note facts = clip_facts [OF ok]
  have "True \<and> paints nsfb (pixels r) ?g m (for_int 0 (y1 r - y0 r) ?f m)"
  proof (rule box_raster [where I = "\<lambda>_ _. True" and mem = "\<lambda>m. m", OF ok(2) facts(1)])
    fix j m assume j: "0 \<le> j" "j < y1 r - y0 r"
    show "True \<and> paints nsfb (row_of r (y0 r + (j - 0))) ?g m (?f j m)"
    proof (intro conjI TrueI row_raster_mem [OF ok(2) facts(1)])
      fix i m show "paints nsfb {(x0 r + (i - 0), y0 r + (j - 0))} ?g m
        (plot_alpha nsfb (push_bit 24 (ucast (pixel ((y0 r - y + j) * pitch + i + (x0 r - x)))) OR (c AND 0xFFFFFF))
           (get_xy_loc nsfb (x0 r + i) (y0 r + j)) m)"
        by (intro glyph8_round) (simp_all add: algebra_simps)
    qed (use j facts in auto)
  qed (use facts in auto)
  then show ?thesis by simp
qed

text \<open>In portrait the pointer walks through the same addresses.\<close>

lemma portrait_cursor:
  assumes "nsfb_orientation nsfb \<noteq> 1" "2 dvd nsfb_linelen nsfb" "0 \<le> h"
  shows "snd (for_int 0 h (\<lambda>yloop (pvideo, m).
       (pvideo_add pvideo (PLOT_LINELEN (nsfb_linelen nsfb)), for_int 0 w (F pvideo yloop) m)) (get_xy_loc nsfb X Y, m))
    = for_int 0 h (\<lambda>yloop. for_int 0 w (F (get_xy_loc nsfb X (Y + yloop)) yloop)) m"
proof -
  have "for_int 0 h (\<lambda>yloop (pvideo, m).
       (pvideo_add pvideo (PLOT_LINELEN (nsfb_linelen nsfb)), for_int 0 w (F pvideo yloop) m)) (get_xy_loc nsfb X Y, m)
    = (get_xy_loc nsfb X Y + (h - 0) * nsfb_linelen nsfb,
       for_int 0 h (\<lambda>yloop. for_int 0 w (F (get_xy_loc nsfb X (Y + yloop)) yloop)) m)"
  proof (rule for_int_cursor [OF _ assms(3)])
    fix i m
    have "get_xy_loc nsfb X Y + i * nsfb_linelen nsfb = get_xy_loc nsfb X (Y + i)"
      using assms(1) by (simp add: get_xy_loc_eq algebra_simps)
    then show "(case (get_xy_loc nsfb X Y + (i - 0) * nsfb_linelen nsfb, m) of (pvideo, m) \<Rightarrow>
       (pvideo_add pvideo (PLOT_LINELEN (nsfb_linelen nsfb)), for_int 0 w (F pvideo i) m)) =
      (get_xy_loc nsfb X Y + (i - 0) * nsfb_linelen nsfb + nsfb_linelen nsfb,
       for_int 0 w (F (get_xy_loc nsfb X (Y + i)) i) m)"
      by (simp add: PLOT_LINELEN_eq [OF assms(2)])
  qed
  then show ?thesis by simp
qed

lemma glyph8_paints:
  assumes "clip_ok nsfb" "surface_ok nsfb" "nsfb_plot_clip_ctx nsfb loc = (vis, r)"
    and "glyph8 nsfb loc pixel pitch c = (ok, r', nsfb')"
  shows "ok \<and> paints nsfb (if vis then pixels r else {}) (glyph8_pixel nsfb pixel pitch c (x0 loc) (y0 loc))
     (nsfb_vram nsfb) (nsfb_vram nsfb')"
proof (cases vis)
  case True
  have ins: "inside (nsfb_clip nsfb) r"
    using nsfb_plot_clip_inside clip_on_screen [OF assms(1)] assms(3) True by (auto simp: nsfb_plot_clip_ctx_def)
  note facts = clip_facts [OF assms(1,2) ins]
  have adr: "pvideo_add (get_xy_loc nsfb (x0 r) y) x = get_xy_loc nsfb (x0 r + x) y"
    if "nsfb_orientation nsfb \<noteq> 1" for x y
    using that by (simp add: get_xy_loc_eq)
  show ?thesis
    using glyph8_rows_landscape [OF assms(1,2) ins, of pixel pitch c "x0 loc" "y0 loc" "nsfb_vram nsfb"]
      assms(3,4) True facts(3,4)
    by (cases "nsfb_orientation nsfb = 1") (auto simp: glyph8_def Let_def portrait_cursor adr)
next
  case False
  with assms(3,4) show ?thesis by (simp add: glyph8_def Let_def)
qed

lemma glyph1_paints:
  assumes "clip_ok nsfb" "surface_ok nsfb" "nsfb_plot_clip_ctx nsfb loc = (vis, r)"
    and "nsfb_orientation nsfb \<noteq> 1 \<or> x0 r = x0 loc"
    and "glyph1 nsfb loc pixel pitch c = (ok, r', nsfb')"
  shows "ok \<and> paints nsfb (if vis then pixels r else {})
     (glyph1_pixel pixel (drop_bit 3 pitch) (colour_to_pixel nsfb c) (x0 loc) (y0 loc)) (nsfb_vram nsfb) (nsfb_vram nsfb')"
proof (cases vis)
  case True
  have ins: "inside (nsfb_clip nsfb) r"
    using nsfb_plot_clip_inside clip_on_screen [OF assms(1)] assms(3) True by (auto simp: nsfb_plot_clip_ctx_def)
  show ?thesis
    using glyph1_landscape_paints [OF assms(1,2) ins] glyph1_portrait_paints [OF assms(1,2) _ ins] assms(3-5) True
    by (cases "nsfb_orientation nsfb = 1") (auto simp: glyph1_def Let_def)
next
  case False
  with assms(3,5) show ?thesis by (simp add: glyph1_def Let_def)
qed

lemma visible_on_screen:
  assumes "clip_ok nsfb" "nsfb_plot_clip_ctx nsfb loc = (vis, r)"
  shows "(if vis then pixels r else {}) = pixels (nsfb_clip nsfb) \<inter> pixels (bbox_order loc)"
    and "(if vis then pixels r else {}) \<subseteq> pixels (screen nsfb)"
proof -
  show vis: "(if vis then pixels r else {}) = pixels (nsfb_clip nsfb) \<inter> pixels (bbox_order loc)"
    using nsfb_plot_clip_pixels assms(2) by (simp add: nsfb_plot_clip_ctx_def)
  show "(if vis then pixels r else {}) \<subseteq> pixels (screen nsfb)"
    unfolding vis using clip_on_screen [OF assms(1)] by auto
qed

section \<open>Properties\<close>

text \<open>
  C7.  An eight-bit glyph is blended into exactly the visible part of its box, in
  both orientations: each pixel there becomes the blend of the colour over it, with
  the glyph's byte for that pixel as opacity, and no other pixel of the screen
  changes.
\<close>

theorem glyph8_exact:
  assumes "clip_ok nsfb" "surface_ok nsfb" "glyph8 nsfb loc pixel pitch c = (ok, r, nsfb')"
    and "(x, y) \<in> pixels (screen nsfb)"
  shows "ok \<and> nsfb_vram nsfb' (get_xy_loc nsfb x y) =
    (if (x, y) \<in> pixels (nsfb_clip nsfb) \<inter> pixels (bbox_order loc)
     then blend_pixel nsfb (push_bit 24 (ucast (pixel ((y - y0 loc) * pitch + (x - x0 loc)))) OR (c AND 0xFFFFFF))
       (nsfb_vram nsfb (get_xy_loc nsfb x y))
     else nsfb_vram nsfb (get_xy_loc nsfb x y))"
proof -
  obtain vis q where q: "nsfb_plot_clip_ctx nsfb loc = (vis, q)" by force
  note vis = visible_on_screen [OF assms(1) q]
  note g = glyph8_paints [OF assms(1,2) q assms(3)]
  show ?thesis
    using paints_screen [OF conjunct2 [OF g] assms(2) vis(2) assms(4)] g
    unfolding vis(1) glyph8_pixel_def by blast
qed

lemma glyph8_exact_witness:
  "let nsfb = surface_example 1;
       nsfb' = snd (snd (glyph8 nsfb \<lparr>x0 = -1, y0 = 0, x1 = 2, y1 = 2\<rparr> (\<lambda>_. 0xFF) 4 0xFFFFFF))
   in nsfb_vram nsfb' (get_xy_loc nsfb 1 1) = 0xFFFF \<and> nsfb_vram nsfb' (get_xy_loc nsfb 2 1) = 0"
proof -
  let ?n = "surface_example 1" and ?l = "\<lparr>x0 = -1, y0 = 0, x1 = 2, y1 = 2\<rparr>"
  obtain ok q n' where f: "glyph8 ?n ?l (\<lambda>_. 0xFF) 4 0xFFFFFF = (ok, q, n')" using prod_cases3 by blast
  have white: "blend_pixel n 0xFFFFFFFF p = 0xFFFF" for n p
    by (simp add: blend_pixel_def colour_to_pixel_def drop_bit_eq_div push_bit_eq_mult ucast_eq)
  have "nsfb_clip ?n = \<lparr>x0 = 0, y0 = 0, x1 = 4, y1 = 4\<rparr>" "nsfb_vram ?n = (\<lambda>_. 0)"
    "pixels (screen ?n) = pixels \<lparr>x0 = 0, y0 = 0, x1 = 4, y1 = 4\<rparr>"
    by (simp_all add: surface_example_def screen_def)
  with glyph8_exact [OF surface_example_ok f, of 1 1] glyph8_exact [OF surface_example_ok f, of 2 1]
  show ?thesis by (simp add: f white bbox_order_def)
qed

text \<open>
  A one-bit glyph sets exactly the visible pixels of its box whose bit is one
  to the colour and leaves every other pixel of the screen alone: always in
  portrait, and in landscape when the glyph is not clipped on its left side.
\<close>

theorem glyph1_exact:
  assumes "clip_ok nsfb" "surface_ok nsfb" "glyph1 nsfb loc pixel pitch c = (ok, r, nsfb')"
    and "bbox_ok loc" "nsfb_orientation nsfb \<noteq> 1 \<or> x0 (nsfb_clip nsfb) \<le> x0 loc"
    and "(x, y) \<in> pixels (screen nsfb)"
  shows "ok \<and> nsfb_vram nsfb' (get_xy_loc nsfb x y) =
    (if (x, y) \<in> pixels (nsfb_clip nsfb) \<inter> pixels loc
        \<and> glyph_bit pixel ((y - y0 loc) * drop_bit 3 pitch) (x - x0 loc)
     then colour_to_pixel nsfb c else nsfb_vram nsfb (get_xy_loc nsfb x y))"
proof -
  obtain vis q where q: "nsfb_plot_clip_ctx nsfb loc = (vis, q)" by force
  note vis = visible_on_screen [OF assms(1) q]
  show ?thesis
  proof (cases "vis \<and> nsfb_orientation nsfb = 1 \<and> x0 q \<noteq> x0 loc")
    case False
    have g: "ok \<and> paints nsfb (if vis then pixels q else {})
     (glyph1_pixel pixel (drop_bit 3 pitch) (colour_to_pixel nsfb c) (x0 loc) (y0 loc)) (nsfb_vram nsfb) (nsfb_vram nsfb')"
    proof (cases vis)
      case True
      with False show ?thesis by (intro glyph1_paints [OF assms(1,2) q _ assms(3)]) auto
    next
      case False
      with q assms(3) show ?thesis by (simp add: glyph1_def Let_def)
    qed
    show ?thesis
      using paints_screen [OF conjunct2 [OF g] assms(2) vis(2) assms(6)] g assms(4)
      unfolding vis(1) glyph1_pixel_def by (simp del: mem_pixels)
  next
    case True
    then have "x1 (nsfb_clip nsfb) < x0 loc"
      using q assms(4,5) by (auto simp: nsfb_plot_clip_ctx_def nsfb_plot_clip_eq Let_def clamp_def split: if_splits)
    then have False
      using q True assms(4) by (auto simp: nsfb_plot_clip_ctx_def nsfb_plot_clip_eq Let_def bbox_ok_def)
    then show ?thesis ..
  qed
qed

lemma glyph1_exact_witness:
  "let nsfb = surface_example 0;
       nsfb' = snd (snd (glyph1 nsfb \<lparr>x0 = -1, y0 = 0, x1 = 7, y1 = 2\<rparr> (\<lambda>_. 0xA0) 8 0xFFFFFF))
   in nsfb_vram nsfb' (get_xy_loc nsfb 1 1) = 0xFFFF \<and> nsfb_vram nsfb' (get_xy_loc nsfb 2 1) = 0"
proof -
  let ?n = "surface_example 0" and ?l = "\<lparr>x0 = -1, y0 = 0, x1 = 7, y1 = 2\<rparr>"
  obtain ok q n' where f: "glyph1 ?n ?l (\<lambda>_. 0xA0) 8 0xFFFFFF = (ok, q, n')" using prod_cases3 by blast
  have white: "colour_to_pixel n 0xFFFFFF = 0xFFFF" for n
    by (simp add: colour_to_pixel_def drop_bit_eq_div push_bit_eq_mult ucast_eq)
  have bits: "glyph_bit (\<lambda>_. 0xA0) k 2" "\<not> glyph_bit (\<lambda>_. 0xA0) k 3" for k
    by (simp_all add: glyph_bit_def c_arith drop_bit_eq_div)
  have "nsfb_clip ?n = \<lparr>x0 = 0, y0 = 0, x1 = 4, y1 = 4\<rparr>" "nsfb_vram ?n = (\<lambda>_. 0)" "nsfb_orientation ?n = 0"
    "pixels (screen ?n) = pixels \<lparr>x0 = 0, y0 = 0, x1 = 4, y1 = 4\<rparr>"
    by (simp_all add: surface_example_def screen_def)
  with glyph1_exact [OF surface_example_ok f, of 1 1] glyph1_exact [OF surface_example_ok f, of 2 1]
  show ?thesis by (simp add: f white bits bbox_ok_def)
qed

text \<open>
  In landscape a one-bit glyph that hangs over the left edge of the screen is
  written outside video memory: there is a surface in order, with its clip
  rectangle on the screen, on which plotting a glyph at a negative column changes
  a pixel at an address below the start of the framebuffer.
\<close>

theorem glyph1_landscape_underflow:
  "\<exists>nsfb loc p. clip_ok nsfb \<and> surface_ok nsfb \<and> nsfb_orientation nsfb = 1 \<and> p < nsfb_ptr nsfb
     \<and> nsfb_vram (snd (snd (glyph1 nsfb loc (\<lambda>_. 0xFF) 8 0xFFFFFF))) p \<noteq> nsfb_vram nsfb p"
proof -
  let ?n = "surface_example 1" and ?l = "\<lparr>x0 = -1, y0 = 0, x1 = 2, y1 = 1\<rparr>" and ?p = "get_xy_loc (surface_example 1) (-1) 0"
  have white: "colour_to_pixel n 0xFFFFFF = 0xFFFF" for n
    by (simp add: colour_to_pixel_def drop_bit_eq_div push_bit_eq_mult ucast_eq)
  have "nsfb_plot_clip_ctx ?n ?l = (True, \<lparr>x0 = 0, y0 = 0, x1 = 2, y1 = 1\<rparr>)"
    by (simp add: nsfb_plot_clip_ctx_def nsfb_plot_clip_eq bbox_order_def clamp_def surface_example_def)
  then have "nsfb_vram (snd (snd (glyph1 ?n ?l (\<lambda>_. 0xFF) 8 0xFFFFFF))) ?p = 0xFFFF"
    by (simp add: glyph1_def glyph1_landscape_def for_int_step white glyph_bit_def c_arith Let_def drop_bit_eq_div)
      (simp add: surface_example_def get_xy_loc_eq)
  moreover have "?p < nsfb_ptr ?n" "nsfb_vram ?n ?p = 0" "nsfb_orientation ?n = 1"
    by (simp_all add: surface_example_def get_xy_loc_eq)
  ultimately show ?thesis
    by (intro exI [of _ ?n] exI [of _ ?l] exI [of _ ?p]) simp
qed

end
