(* ===== verification/Plot_Bitmap.thy ===== *)
theory Plot_Bitmap
  imports Plot_Glyph
begin

text \<open>
  Bitmap plotting of \<^verbatim>\<open>libnsfb/src/plot/common.c\<close>, unscaled and scaled.  The
  source bitmap is a map from indices into the pixel array to colours;
  \<open>bmp_stride\<close> is the length of its lines.  The scaled version steps through the
  source with integer remainders (a digital differential analyser) rather than a
  division per pixel.
\<close>

section \<open>Shared parts\<close>

text \<open>The store in the inner loops: blended when the bitmap has an alpha channel.\<close>

definition put_pixel ::
  "nsfb \<Rightarrow> bool \<Rightarrow> nsfb_colour \<Rightarrow> int \<Rightarrow> (int \<Rightarrow> 16 word) \<Rightarrow> int \<Rightarrow> 16 word" where
  "put_pixel nsfb has_alpha abpixel p m =
     (if has_alpha then plot_alpha nsfb abpixel p m else m(p := colour_to_pixel nsfb abpixel))"

text \<open>Error diffusion for paletted screens, if not already on.\<close>

definition dither_begin :: "bool \<Rightarrow> int \<Rightarrow> nsfb \<Rightarrow> bool \<times> nsfb" where
  "dither_begin wanted width nsfb =
     (case nsfb_palette nsfb of
        Some palette \<Rightarrow> if wanted \<and> \<not> nsfb_palette_dithering_on palette
          then (True, nsfb\<lparr>nsfb_palette := Some (nsfb_palette_dither_init palette width)\<rparr>) else (False, nsfb)
      | None \<Rightarrow> (False, nsfb))"

definition dither_end :: "bool \<Rightarrow> nsfb \<Rightarrow> nsfb" where
  "dither_end set_dither nsfb =
     (if set_dither then nsfb\<lparr>nsfb_palette := map_option nsfb_palette_dither_fini (nsfb_palette nsfb)\<rparr> else nsfb)"

section \<open>Scaled bitmaps\<close>

text \<open>The scale factors, remainders and starting values \<^verbatim>\<open>bitmap_scaled\<close> computes.\<close>

record scaling =
  sc_dx :: int
  sc_dy :: int
  sc_dxr :: int
  sc_dyr :: int
  sc_xoffs :: int
  sc_rxs :: int
  sc_yoff :: int
  sc_ry :: int
  sc_width :: int
  sc_height :: int
  sc_stride :: int

definition scaling_of :: "int \<Rightarrow> int \<Rightarrow> int \<Rightarrow> int \<Rightarrow> int \<Rightarrow> int \<Rightarrow> int \<Rightarrow> scaling" where
  "scaling_of skip_x skip_y width height bmp_width bmp_height bmp_stride =
     \<lparr>sc_dx = cdiv bmp_width width,
      sc_dy = cdiv bmp_height height * bmp_stride,
      sc_dxr = cmod bmp_width width,
      sc_dyr = cmod bmp_height height,
      sc_xoffs = (if skip_x \<noteq> 0 then cdiv (skip_x * bmp_width) width else 0),
      sc_rxs = (if skip_x \<noteq> 0 then cmod (skip_x * bmp_width) width else 0),
      sc_yoff = (if skip_y \<noteq> 0 then cdiv (skip_y * bmp_height) height * bmp_stride else 0),
      sc_ry = (if skip_y \<noteq> 0 then cmod (skip_y * bmp_height) height else 0),
      sc_width = width, sc_height = height, sc_stride = bmp_stride\<rparr>"

text \<open>Horizontal and vertical interpolation.\<close>

definition next_x :: "scaling \<Rightarrow> int \<times> int \<Rightarrow> int \<times> int" where
  "next_x sc = (\<lambda>(xoff, rx). let xoff = xoff + sc_dx sc; rx = rx + sc_dxr sc
     in if rx \<ge> sc_width sc then (xoff + 1, rx - sc_width sc) else (xoff, rx))"

definition next_y :: "scaling \<Rightarrow> int \<times> int \<Rightarrow> int \<times> int" where
  "next_y sc = (\<lambda>(yoff, ry). let yoff = yoff + sc_dy sc; ry = ry + sc_dyr sc
     in if ry \<ge> sc_height sc then (yoff + sc_stride sc, ry - sc_height sc) else (yoff, ry))"

definition scaled_landscape ::
  "nsfb \<Rightarrow> scaling \<Rightarrow> (int \<Rightarrow> nsfb_colour) \<Rightarrow> bool \<Rightarrow> nsfb_bbox \<Rightarrow> int \<Rightarrow> int
     \<Rightarrow> (int \<Rightarrow> 16 word) \<Rightarrow> int \<Rightarrow> 16 word" where
  "scaled_landscape nsfb sc pixel has_alpha clipped rwidth rheight m =
     snd (for_int (y0 clipped) (y0 clipped + rheight) (\<lambda>cy ((yoff, ry), m).
       (next_y sc (yoff, ry),
        snd (for_int (x0 clipped) (x0 clipped + rwidth) (\<lambda>cx ((xoff, rx), m).
          (next_x sc (xoff, rx),
           put_pixel nsfb has_alpha (pixel (yoff + xoff)) (get_xy_loc nsfb cx cy) m))
          ((sc_xoffs sc, sc_rxs sc), m))))
      ((sc_yoff sc, sc_ry sc), m))"

definition scaled_portrait ::
  "nsfb \<Rightarrow> scaling \<Rightarrow> (int \<Rightarrow> nsfb_colour) \<Rightarrow> bool \<Rightarrow> nsfb_bbox \<Rightarrow> int \<Rightarrow> int
     \<Rightarrow> (int \<Rightarrow> 16 word) \<Rightarrow> int \<Rightarrow> 16 word" where
  "scaled_portrait nsfb sc pixel has_alpha clipped rwidth rheight m = (let
     pvideo = get_xy_loc nsfb (x0 clipped) (y0 clipped);
     pvideo_limit = pvideo_add pvideo (PLOT_LINELEN (nsfb_linelen nsfb) * rheight)
   in snd (for_step (pvideo_add 0 (PLOT_LINELEN (nsfb_linelen nsfb))) pvideo pvideo_limit (\<lambda>pvideo ((yoff, ry), m).
       (next_y sc (yoff, ry),
        snd (for_int 0 rwidth (\<lambda>xloop ((xoff, rx), m).
          (next_x sc (xoff, rx),
           put_pixel nsfb has_alpha (pixel (yoff + xoff)) (pvideo_add pvideo xloop) m))
          ((sc_xoffs sc, sc_rxs sc), m))))
      ((sc_yoff sc, sc_ry sc), m)))"

definition bitmap_scaled ::
  "nsfb \<Rightarrow> nsfb_bbox \<Rightarrow> (int \<Rightarrow> nsfb_colour) \<Rightarrow> int \<Rightarrow> int \<Rightarrow> int \<Rightarrow> bool \<Rightarrow> bool \<times> nsfb" where
  "bitmap_scaled nsfb loc pixel bmp_width bmp_height bmp_stride has_alpha = (let
     x = x0 loc; y = y0 loc;
     width = x1 loc - x0 loc; height = y1 loc - y0 loc;
     (vis, clipped) = nsfb_plot_clip_ctx nsfb \<lparr>x0 = x, y0 = y, x1 = x + width, y1 = y + height\<rparr>
   in if \<not> vis then (True, nsfb)
   else let
     rheight = (if height > y1 clipped - y0 clipped then y1 clipped - y0 clipped else height);
     rwidth = (if width > x1 clipped - x0 clipped then x1 clipped - x0 clipped else width);
     (set_dither, nsfb) = dither_begin True rwidth nsfb;
     sc = scaling_of (x0 clipped - x) (y0 clipped - y) width height bmp_width bmp_height bmp_stride;
     nsfb = nsfb\<lparr>nsfb_vram :=
       (if nsfb_orientation nsfb = 1
        then scaled_landscape nsfb sc pixel has_alpha clipped rwidth rheight (nsfb_vram nsfb)
        else scaled_portrait nsfb sc pixel has_alpha clipped rwidth rheight (nsfb_vram nsfb))\<rparr>
   in (True, dither_end set_dither nsfb))"

section \<open>Unscaled bitmaps\<close>

definition bitmap_landscape ::
  "nsfb \<Rightarrow> (int \<Rightarrow> nsfb_colour) \<Rightarrow> bool \<Rightarrow> nsfb_bbox \<Rightarrow> int \<Rightarrow> int \<Rightarrow> int \<Rightarrow> int \<Rightarrow> int
     \<Rightarrow> (int \<Rightarrow> 16 word) \<Rightarrow> int \<Rightarrow> 16 word" where
  "bitmap_landscape nsfb pixel has_alpha clipped width yoff limit bmp_stride xoff m =
     snd (for_step bmp_stride yoff limit (\<lambda>yloop (out_y, m). let cy = y0 clipped + out_y in
       (out_y + 1,
        for_int 0 width (\<lambda>xloop m. let cx = x0 clipped + xloop in
          put_pixel nsfb has_alpha (pixel (yloop + xloop + xoff)) (get_xy_loc nsfb cx cy) m) m))
      (0, m))"

definition bitmap_portrait ::
  "nsfb \<Rightarrow> (int \<Rightarrow> nsfb_colour) \<Rightarrow> bool \<Rightarrow> nsfb_bbox \<Rightarrow> int \<Rightarrow> int \<Rightarrow> int \<Rightarrow> int \<Rightarrow> int
     \<Rightarrow> (int \<Rightarrow> 16 word) \<Rightarrow> int \<Rightarrow> 16 word" where
  "bitmap_portrait nsfb pixel has_alpha clipped width yoff limit bmp_stride xoff m =
     snd (for_step bmp_stride yoff limit (\<lambda>yloop (pvideo, m).
       (pvideo_add pvideo (PLOT_LINELEN (nsfb_linelen nsfb)),
        for_int 0 width (\<lambda>xloop m.
          put_pixel nsfb has_alpha (pixel (yloop + xloop + xoff)) (pvideo_add pvideo xloop) m) m))
      (get_xy_loc nsfb (x0 clipped) (y0 clipped), m))"

definition bitmap ::
  "nsfb \<Rightarrow> nsfb_bbox \<Rightarrow> (int \<Rightarrow> nsfb_colour) \<Rightarrow> int \<Rightarrow> int \<Rightarrow> int \<Rightarrow> bool \<Rightarrow> bool \<times> nsfb" where
  "bitmap nsfb loc pixel bmp_width bmp_height bmp_stride has_alpha = (let
     x = x0 loc; y = y0 loc;
     width = x1 loc - x0 loc; height = y1 loc - y0 loc
   in if width = 0 \<or> height = 0 then (True, nsfb)
   else if width \<noteq> bmp_width \<or> height \<noteq> bmp_height then
     bitmap_scaled nsfb loc pixel bmp_width bmp_height bmp_stride has_alpha
   else let
     (vis, clipped) = nsfb_plot_clip_ctx nsfb \<lparr>x0 = x, y0 = y, x1 = x + width, y1 = y + height\<rparr>
   in if \<not> vis then (True, nsfb)
   else let
     height = (if height > y1 clipped - y0 clipped then y1 clipped - y0 clipped else height);
     width = (if width > x1 clipped - x0 clipped then x1 clipped - x0 clipped else width);
     (set_dither, nsfb) = dither_begin True width nsfb;
     xoff = x0 clipped - x;
     yoff = (y0 clipped - y) * bmp_stride;
     height = height * bmp_stride + yoff;
     nsfb = nsfb\<lparr>nsfb_vram :=
       (if nsfb_orientation nsfb = 1
        then bitmap_landscape nsfb pixel has_alpha clipped width yoff height bmp_stride xoff (nsfb_vram nsfb)
        else bitmap_portrait nsfb pixel has_alpha clipped width yoff height bmp_stride xoff (nsfb_vram nsfb))\<rparr>
   in (True, dither_end set_dither nsfb))"

section \<open>The pixel a bitmap shows\<close>

definition mix_pixel :: "nsfb \<Rightarrow> bool \<Rightarrow> nsfb_colour \<Rightarrow> 16 word \<Rightarrow> 16 word" where
  "mix_pixel nsfb has_alpha c old = (if has_alpha then blend_pixel nsfb c old else colour_to_pixel nsfb c)"

lemma put_pixel_eq: "put_pixel nsfb has_alpha c p m = m(p := mix_pixel nsfb has_alpha c (m p))"
  by (simp add: put_pixel_def mix_pixel_def plot_alpha_eq)

text \<open>Nearest-neighbour sampling, rounding down: the source pixel of \<open>(px, py)\<close>.\<close>

definition sample :: "nsfb_bbox \<Rightarrow> int \<Rightarrow> int \<Rightarrow> int \<Rightarrow> int \<Rightarrow> int \<Rightarrow> int" where
  "sample loc bmp_width bmp_height bmp_stride px py =
     (py - y0 loc) * bmp_height div (y1 loc - y0 loc) * bmp_stride + (px - x0 loc) * bmp_width div (x1 loc - x0 loc)"

definition bitmap_pixel ::
  "nsfb \<Rightarrow> nsfb_bbox \<Rightarrow> (int \<Rightarrow> nsfb_colour) \<Rightarrow> int \<Rightarrow> int \<Rightarrow> int \<Rightarrow> bool \<Rightarrow> int \<Rightarrow> int \<Rightarrow> 16 word \<Rightarrow> 16 word" where
  "bitmap_pixel nsfb loc pixel bmp_width bmp_height bmp_stride has_alpha px py old =
     mix_pixel nsfb has_alpha (pixel (sample loc bmp_width bmp_height bmp_stride px py)) old"

lemma bitmap_round:
  "p = get_xy_loc nsfb px py \<Longrightarrow> k = sample loc bw bh bs px py \<Longrightarrow>
     paints nsfb {(px, py)} (bitmap_pixel nsfb loc pixel bw bh bs has_alpha) m (put_pixel nsfb has_alpha (pixel k) p m)"
  by (simp add: put_pixel_eq paints_one bitmap_pixel_def)

text \<open>The palette plays no part in RGB565 plotting.\<close>

lemma palette_irrelevant [simp]:
  "get_xy_loc (nsfb\<lparr>nsfb_palette := p\<rparr>) = get_xy_loc nsfb"
  "colour_to_pixel (nsfb\<lparr>nsfb_palette := p\<rparr>) = colour_to_pixel nsfb"
  "pixel_to_colour (nsfb\<lparr>nsfb_palette := p\<rparr>) = pixel_to_colour nsfb"
  by (simp_all add: get_xy_loc_def colour_to_pixel_def pixel_to_colour_def fun_eq_iff)

lemma palette_irrelevant_put [simp]:
  "put_pixel (nsfb\<lparr>nsfb_palette := p\<rparr>) = put_pixel nsfb"
  by (simp add: put_pixel_def plot_alpha_def fun_eq_iff)

lemma palette_irrelevant_loops [simp]:
  "scaled_landscape (nsfb\<lparr>nsfb_palette := p\<rparr>) = scaled_landscape nsfb"
  "scaled_portrait (nsfb\<lparr>nsfb_palette := p\<rparr>) = scaled_portrait nsfb"
  "bitmap_landscape (nsfb\<lparr>nsfb_palette := p\<rparr>) = bitmap_landscape nsfb"
  "bitmap_portrait (nsfb\<lparr>nsfb_palette := p\<rparr>) = bitmap_portrait nsfb"
  by (simp_all add: scaled_landscape_def scaled_portrait_def bitmap_landscape_def bitmap_portrait_def fun_eq_iff)

section \<open>The digital differential analyser\<close>

lemma div_mod_add:
  fixes w :: int assumes "0 < w"
  shows "(if n mod w + b mod w \<ge> w then (n div w + b div w + 1, n mod w + b mod w - w)
      else (n div w + b div w, n mod w + b mod w)) = ((n + b) div w, (n + b) mod w)"
proof -
  have nb: "n + b = w * (n div w + b div w) + (n mod w + b mod w)"
    using mult_div_mod_eq [of w n] mult_div_mod_eq [of w b] by (simp add: distrib_left)
  have r: "0 \<le> n mod w" "n mod w < w" "0 \<le> b mod w" "b mod w < w" using assms by simp_all
  have *: "(r + w * q) div w = q \<and> (r + w * q) mod w = r" if "0 \<le> r" "r < w" for r q
    using that assms by (simp add: div_pos_pos_trivial)
  show ?thesis
  proof (cases "n mod w + b mod w \<ge> w")
    case True
    have nb': "n + b = (n mod w + b mod w - w) + w * (n div w + b div w + 1)" using nb by (simp add: distrib_left)
    have "0 \<le> n mod w + b mod w - w" "n mod w + b mod w - w < w" using True r by linarith+
    then have "(n + b) div w = n div w + b div w + 1" "(n + b) mod w = n mod w + b mod w - w"
      unfolding nb' using * by blast+
    with True show ?thesis by simp
  next
    case False
    have nb': "n + b = (n mod w + b mod w) + w * (n div w + b div w)" using nb by simp
    have "0 \<le> n mod w + b mod w" "n mod w + b mod w < w" using False r by simp_all
    then have "(n + b) div w = n div w + b div w" "(n + b) mod w = n mod w + b mod w"
      unfolding nb' using * by blast+
    with False show ?thesis by simp
  qed
qed

lemma next_x_eq:
  assumes "0 < w" "0 \<le> bw"
  shows "next_x (scaling_of sx sy w h bw bh bs) (k * bw div w, k * bw mod w) = ((k + 1) * bw div w, (k + 1) * bw mod w)"
proof -
  have "next_x (scaling_of sx sy w h bw bh bs) (k * bw div w, k * bw mod w) =
     (if k * bw mod w + bw mod w \<ge> w then (k * bw div w + bw div w + 1, k * bw mod w + bw mod w - w)
      else (k * bw div w + bw div w, k * bw mod w + bw mod w))"
    using assms by (simp add: next_x_def scaling_of_def c_arith Let_def)
  also have "\<dots> = ((k * bw + bw) div w, (k * bw + bw) mod w)" by (rule div_mod_add [OF assms(1)])
  finally show ?thesis by (simp add: distrib_right)
qed

lemma next_y_eq:
  assumes "0 < h" "0 \<le> bh"
  shows "next_y (scaling_of sx sy w h bw bh bs) (k * bh div h * bs, k * bh mod h)
     = ((k + 1) * bh div h * bs, (k + 1) * bh mod h)"
proof -
  have carry: "(k + 1) * bh div h = (if k * bh mod h + bh mod h \<ge> h then k * bh div h + bh div h + 1 else k * bh div h + bh div h)"
    "(k + 1) * bh mod h = (if k * bh mod h + bh mod h \<ge> h then k * bh mod h + bh mod h - h else k * bh mod h + bh mod h)"
    using div_mod_add [OF assms(1), of "k * bh" bh] by (auto simp: distrib_right split: if_splits)
  show ?thesis
    unfolding carry using assms by (simp add: next_y_def scaling_of_def c_arith Let_def distrib_right)
qed

lemma scaling_start:
  assumes "0 < w" "0 \<le> bw" "0 < h" "0 \<le> bh" "0 \<le> sx" "0 \<le> sy"
  shows "sc_xoffs (scaling_of sx sy w h bw bh bs) = sx * bw div w" "sc_rxs (scaling_of sx sy w h bw bh bs) = sx * bw mod w"
    "sc_yoff (scaling_of sx sy w h bw bh bs) = sy * bh div h * bs" "sc_ry (scaling_of sx sy w h bw bh bs) = sy * bh mod h"
  using assms by (simp_all add: scaling_of_def c_arith)

section \<open>What the loops paint\<close>

lemma scaled_row:
  assumes ok: "clip_ok nsfb" "surface_ok nsfb" "inside (nsfb_clip nsfb) r"
    and loc: "x0 loc \<le> x0 r" "0 < x1 loc - x0 loc" "0 < y1 loc - y0 loc" "0 \<le> bw" "0 \<le> bh" "y0 loc \<le> y0 r"
    and y: "y0 r \<le> y" "y < y1 r" and range: "hi - lo = x1 r - x0 r"
    and sc: "sc = scaling_of (x0 r - x0 loc) (y0 r - y0 loc) (x1 loc - x0 loc) (y1 loc - y0 loc) bw bh bs"
    and adr: "\<And>i. adr i = get_xy_loc nsfb (x0 r + (i - lo)) y"
    and yoff: "yoff = (y - y0 loc) * bh div (y1 loc - y0 loc) * bs"
  shows "paints nsfb (row_of r y) (bitmap_pixel nsfb loc pixel bw bh bs has_alpha) m
    (snd (for_int lo hi (\<lambda>i ((xoff, rx), m). (next_x sc (xoff, rx),
       put_pixel nsfb has_alpha (pixel (yoff + xoff)) (adr i) m)) ((sc_xoffs sc, sc_rxs sc), m)))"
proof -
  note facts = clip_facts [OF ok]
  let ?w = "x1 loc - x0 loc" and ?d = "\<lambda>i. (x0 r - x0 loc + (i - lo)) * bw"
  let ?I = "\<lambda>i (s :: (int \<times> int) \<times> (int \<Rightarrow> 16 word)). fst s = (?d i div ?w, ?d i mod ?w)"
  let ?s = "((sc_xoffs sc, sc_rxs sc), m)" and ?g = "bitmap_pixel nsfb loc pixel bw bh bs has_alpha"
  let ?f = "\<lambda>i ((xoff, rx), m). (next_x sc (xoff, rx), put_pixel nsfb has_alpha (pixel (yoff + xoff)) (adr i) m)"
  have "?I hi (for_int lo hi ?f ?s) \<and> paints nsfb (row_of r y) ?g (snd ?s) (snd (for_int lo hi ?f ?s))"
  proof (rule row_raster [where I = ?I and mem = snd, OF ok(2) facts(1) y range facts(2)])
    show "?I lo ?s" using scaling_start [of ?w bw "y1 loc - y0 loc" bh] loc by (simp add: sc)
    fix i and s :: "(int \<times> int) \<times> (int \<Rightarrow> 16 word)" assume i: "lo \<le> i" "i < hi" and I: "?I i s"
    have "?d (i + 1) = (x0 r - x0 loc + (i - lo) + 1) * bw" by (simp add: algebra_simps)
    then have "next_x sc (fst s) = (?d (i + 1) div ?w, ?d (i + 1) mod ?w)"
      unfolding I sc using next_x_eq [OF loc(2,4)] by (simp only:)
    moreover have "x0 r + (i - lo) - x0 loc = x0 r - x0 loc + (i - lo)" by simp
    then have "paints nsfb {(x0 r + (i - lo), y)} ?g (snd s)
        (put_pixel nsfb has_alpha (pixel (yoff + fst (fst s))) (adr i) (snd s))"
      by (intro bitmap_round adr) (simp only: sample_def I fst_conv yoff)
    ultimately show "?I (i + 1) (?f i s) \<and> paints nsfb {(x0 r + (i - lo), y)} ?g (snd s) (snd (?f i s))"
      by (cases s; cases "fst s") simp
  qed
  then show ?thesis by simp
qed

lemma scaled_paints:
  assumes ok: "clip_ok nsfb" "surface_ok nsfb" "inside (nsfb_clip nsfb) r"
    and loc: "x0 loc \<le> x0 r" "0 < x1 loc - x0 loc" "0 < y1 loc - y0 loc" "0 \<le> bw" "0 \<le> bh" "y0 loc \<le> y0 r"
    and sc: "sc = scaling_of (x0 r - x0 loc) (y0 r - y0 loc) (x1 loc - x0 loc) (y1 loc - y0 loc) bw bh bs"
  shows "paints nsfb (pixels r) (bitmap_pixel nsfb loc pixel bw bh bs has_alpha) m
    (if nsfb_orientation nsfb = 1
     then scaled_landscape nsfb sc pixel has_alpha r (x1 r - x0 r) (y1 r - y0 r) m
     else scaled_portrait nsfb sc pixel has_alpha r (x1 r - x0 r) (y1 r - y0 r) m)"
proof -
  note facts = clip_facts [OF ok]
  let ?h = "y1 loc - y0 loc" and ?d = "\<lambda>j. (y0 r - y0 loc + j) * bh" and ?g = "bitmap_pixel nsfb loc pixel bw bh bs has_alpha"
  let ?E = "\<lambda>j. (?d j div ?h * bs, ?d j mod ?h)"
  let ?s = "((sc_yoff sc, sc_ry sc), m)"
  let ?row = "\<lambda>lo hi adr yoff m. snd (for_int lo hi (\<lambda>i ((xoff, rx), m). (next_x sc (xoff, rx),
       put_pixel nsfb has_alpha (pixel (yoff + xoff)) (adr i) m)) ((sc_xoffs sc, sc_rxs sc), m))"
  have start: "fst ?s = ?E 0" using scaling_start [of "x1 loc - x0 loc" bw ?h bh] loc by (simp add: sc)
  have step: "next_y sc (fst s) = ?E (j + 1)" if "fst s = ?E j" for j and s :: "(int \<times> int) \<times> (int \<Rightarrow> 16 word)"
    unfolding that sc using next_y_eq [OF loc(3,5), of _ _ _ _ bs "y0 r - y0 loc + j"] by (simp add: add.assoc)
  show ?thesis
  proof (cases "nsfb_orientation nsfb = 1")
    case True
    let ?I = "\<lambda>cy (s :: (int \<times> int) \<times> (int \<Rightarrow> 16 word)). fst s = ?E (cy - y0 r)"
    let ?f = "\<lambda>cy ((yoff, ry), m). (next_y sc (yoff, ry), ?row (x0 r) (x1 r) (\<lambda>cx. get_xy_loc nsfb cx cy) yoff m)"
    have "?I (y1 r) (for_int (y0 r) (y1 r) ?f ?s) \<and> paints nsfb (pixels r) ?g (snd ?s) (snd (for_int (y0 r) (y1 r) ?f ?s))"
    proof (rule box_raster [where I = ?I and mem = snd, OF ok(2) facts(1) _ facts(3)])
      show "?I (y0 r) ?s" using start by simp
      fix j and s :: "(int \<times> int) \<times> (int \<Rightarrow> 16 word)" assume j: "y0 r \<le> j" "j < y1 r" and I: "?I j s"
      have "paints nsfb (row_of r j) ?g (snd s) (?row (x0 r) (x1 r) (\<lambda>cx. get_xy_loc nsfb cx j) (fst (fst s)) (snd s))"
        by (rule scaled_row [OF ok loc j refl sc]) (simp_all add: I)
      moreover have "next_y sc (fst s) = ?E (j + 1 - y0 r)" using step [OF I] by (simp add: algebra_simps)
      ultimately show "?I (j + 1) (?f j s) \<and> paints nsfb (row_of r (y0 r + (j - y0 r))) ?g (snd s) (snd (?f j s))"
        by (cases s; cases "fst s") simp
    qed simp
    with True show ?thesis by (simp add: scaled_landscape_def)
  next
    case False
    let ?I = "\<lambda>j (s :: (int \<times> int) \<times> (int \<Rightarrow> 16 word)). fst s = ?E j"
    let ?f = "\<lambda>pvideo ((yoff, ry), m). (next_y sc (yoff, ry), ?row 0 (x1 r - x0 r) (\<lambda>xloop. pvideo_add pvideo xloop) yoff m)"
    have "paints nsfb (pixels r) ?g (snd ?s) (snd (for_step (pvideo_add 0 (PLOT_LINELEN (nsfb_linelen nsfb)))
       (get_xy_loc nsfb (x0 r) (y0 r)) (pvideo_add (get_xy_loc nsfb (x0 r) (y0 r)) (PLOT_LINELEN (nsfb_linelen nsfb) * (y1 r - y0 r)))
       ?f ?s))"
    proof (rule pvideo_raster [where I = ?I and mem = snd, OF ok(1,2) False ok(3) refl])
      show "?I 0 ?s" by (rule start)
      fix j and s :: "(int \<times> int) \<times> (int \<Rightarrow> 16 word)" assume j: "0 \<le> j" "j < y1 r - y0 r" and I: "?I j s"
      let ?p = "get_xy_loc nsfb (x0 r) (y0 r + j)"
      have "paints nsfb (row_of r (y0 r + j)) ?g (snd s)
          (?row 0 (x1 r - x0 r) (\<lambda>xloop. pvideo_add ?p xloop) (fst (fst s)) (snd s))"
        by (rule scaled_row [OF ok loc _ _ _ sc]) (use j False in \<open>simp_all add: I get_xy_loc_eq algebra_simps\<close>)
      with step [OF I] show "?I (j + 1) (?f ?p s) \<and> paints nsfb (row_of r (y0 r + j)) ?g (snd s) (snd (?f ?p s))"
        by (cases s; cases "fst s") simp
    qed
    with False show ?thesis by (simp add: scaled_portrait_def Let_def)
  qed
qed

text \<open>An unscaled bitmap: the source row index strides along with the output row.\<close>

lemma stride_rows:
  assumes "0 < bs" "0 \<le> h"
  shows "for_step bs yoff (h * bs + yoff) f s = for_int 0 h (\<lambda>j. f (yoff + j * bs)) s"
  using for_step_stride [OF assms(1), of yoff "nat h" f s] assms(2) by (simp add: add.commute)

lemma unscaled_row:
  assumes ok: "clip_ok nsfb" "surface_ok nsfb" "inside (nsfb_clip nsfb) r"
    and y: "y0 r \<le> y" "y < y1 r" and w: "0 < x1 loc - x0 loc" "0 < y1 loc - y0 loc"
    and adr: "\<And>i. adr i = get_xy_loc nsfb (x0 r + i) y"
    and yoff: "yloop = (y - y0 loc) * bs"
  shows "paints nsfb (row_of r y) (bitmap_pixel nsfb loc pixel (x1 loc - x0 loc) (y1 loc - y0 loc) bs has_alpha) m
    (for_int 0 (x1 r - x0 r) (\<lambda>xloop. put_pixel nsfb has_alpha (pixel (yloop + xloop + (x0 r - x0 loc))) (adr xloop)) m)"
proof -
  note facts = clip_facts [OF ok]
  show ?thesis
  proof (rule row_raster_mem [OF ok(2) facts(1) y])
    fix i m
    show "paints nsfb {(x0 r + (i - 0), y)} (bitmap_pixel nsfb loc pixel (x1 loc - x0 loc) (y1 loc - y0 loc) bs has_alpha) m
       (put_pixel nsfb has_alpha (pixel (yloop + i + (x0 r - x0 loc))) (adr i) m)"
      by (rule bitmap_round) (use w in \<open>simp_all add: adr sample_def yoff\<close>)
  qed (use facts in simp_all)
qed

lemma unscaled_paints:
  assumes ok: "clip_ok nsfb" "surface_ok nsfb" "inside (nsfb_clip nsfb) r"
    and w: "0 < x1 loc - x0 loc" "0 < y1 loc - y0 loc" and bs: "0 < bs"
    and yoff: "yoff = (y0 r - y0 loc) * bs" and xoff: "xoff = x0 r - x0 loc"
  shows "paints nsfb (pixels r) (bitmap_pixel nsfb loc pixel (x1 loc - x0 loc) (y1 loc - y0 loc) bs has_alpha) m
    (if nsfb_orientation nsfb = 1
     then bitmap_landscape nsfb pixel has_alpha r (x1 r - x0 r) yoff ((y1 r - y0 r) * bs + yoff) bs xoff m
     else bitmap_portrait nsfb pixel has_alpha r (x1 r - x0 r) yoff ((y1 r - y0 r) * bs + yoff) bs xoff m)"
proof -
  note facts = clip_facts [OF ok]
  have h: "0 \<le> y1 r - y0 r" using facts(3) by simp
  let ?g = "bitmap_pixel nsfb loc pixel (x1 loc - x0 loc) (y1 loc - y0 loc) bs has_alpha"
  let ?row = "\<lambda>adr yloop. for_int 0 (x1 r - x0 r) (\<lambda>xloop. put_pixel nsfb has_alpha (pixel (yloop + xloop + xoff)) (adr xloop))"
  have row: "paints nsfb (row_of r (y0 r + j)) ?g m (?row adr (yoff + j * bs) m)"
    if "0 \<le> j" "j < y1 r - y0 r" "\<And>i. adr i = get_xy_loc nsfb (x0 r + i) (y0 r + j)" for j adr m
    unfolding xoff by (rule unscaled_row [OF ok _ _ w that(3)]) (use that(1,2) in \<open>simp_all add: yoff distrib_right algebra_simps\<close>)
  show ?thesis
  proof (cases "nsfb_orientation nsfb = 1")
    case True
    let ?I = "\<lambda>j (s :: int \<times> (int \<Rightarrow> 16 word)). fst s = j"
    let ?f = "\<lambda>yloop (out_y, m). (out_y + 1, ?row (\<lambda>xloop. get_xy_loc nsfb (x0 r + xloop) (y0 r + out_y)) yloop m)"
    have "?I (y1 r - y0 r) (for_int 0 (y1 r - y0 r) (\<lambda>j. ?f (yoff + j * bs)) (0, m)) \<and>
      paints nsfb (pixels r) ?g (snd (0 :: int, m)) (snd (for_int 0 (y1 r - y0 r) (\<lambda>j. ?f (yoff + j * bs)) (0, m)))"
    proof (rule box_raster [where I = ?I and mem = snd, OF ok(2) facts(1) _ facts(3)])
      fix j and s :: "int \<times> (int \<Rightarrow> 16 word)" assume "0 \<le> j" "j < y1 r - y0 r" "?I j s"
      then show "?I (j + 1) (?f (yoff + j * bs) s) \<and>
          paints nsfb (row_of r (y0 r + (j - 0))) ?g (snd s) (snd (?f (yoff + j * bs) s))"
        using row [of j "\<lambda>xloop. get_xy_loc nsfb (x0 r + xloop) (y0 r + j)" "snd s"] by (cases s) simp
    qed simp_all
    with True show ?thesis by (simp add: bitmap_landscape_def stride_rows [OF bs h] Let_def)
  next
    case False
    let ?I = "\<lambda>j (s :: int \<times> (int \<Rightarrow> 16 word)). fst s = get_xy_loc nsfb (x0 r) (y0 r + j)"
    let ?f = "\<lambda>yloop (pvideo, m). (pvideo_add pvideo (PLOT_LINELEN (nsfb_linelen nsfb)), ?row (pvideo_add pvideo) yloop m)"
    let ?s = "(get_xy_loc nsfb (x0 r) (y0 r), m)"
    have down: "pvideo_add (get_xy_loc nsfb (x0 r) (y0 r + j)) (PLOT_LINELEN (nsfb_linelen nsfb))
        = get_xy_loc nsfb (x0 r) (y0 r + (j + 1))" for j
      using False by (simp add: get_xy_loc_eq PLOT_LINELEN_eq [OF facts(4)] algebra_simps)
    have "?I (y1 r - y0 r) (for_int 0 (y1 r - y0 r) (\<lambda>j. ?f (yoff + j * bs)) ?s) \<and>
      paints nsfb (pixels r) ?g (snd ?s) (snd (for_int 0 (y1 r - y0 r) (\<lambda>j. ?f (yoff + j * bs)) ?s))"
    proof (rule box_raster [where I = ?I and mem = snd, OF ok(2) facts(1) _ facts(3)])
      fix j and s :: "int \<times> (int \<Rightarrow> 16 word)" assume j: "0 \<le> j" "j < y1 r - y0 r" "?I j s"
      have "pvideo_add (get_xy_loc nsfb (x0 r) (y0 r + j)) i = get_xy_loc nsfb (x0 r + i) (y0 r + j)" for i
        using False by (simp add: get_xy_loc_eq)
      with j down [of j] row [of j "pvideo_add (get_xy_loc nsfb (x0 r) (y0 r + j))" "snd s"]
      show "?I (j + 1) (?f (yoff + j * bs) s) \<and>
          paints nsfb (row_of r (y0 r + (j - 0))) ?g (snd s) (snd (?f (yoff + j * bs) s))"
        by (cases s) simp
    qed simp_all
    with False show ?thesis by (simp add: bitmap_portrait_def stride_rows [OF bs h] Let_def)
  qed
qed

section \<open>Whole bitmaps\<close>

text \<open>
  Plotting a bitmap changes the video memory and, on paletted screens, the error
  diffusion buffer; whether error diffusion is on is as before.
\<close>

definition plots :: "nsfb \<Rightarrow> nsfb \<Rightarrow> bool" where
  "plots nsfb nsfb' \<longleftrightarrow> nsfb'\<lparr>nsfb_vram := nsfb_vram nsfb, nsfb_palette := nsfb_palette nsfb\<rparr> = nsfb
     \<and> map_option nsfb_palette_dithering_on (nsfb_palette nsfb') = map_option nsfb_palette_dithering_on (nsfb_palette nsfb)"

lemma plots_refl [simp]: "plots nsfb nsfb"
  by (simp add: plots_def)

lemma plots_trans: "plots a b \<Longrightarrow> plots b c \<Longrightarrow> plots a c"
  unfolding plots_def by (cases a; cases b; cases c) simp

lemma dither_begin_palette:
  "dither_begin wanted n nsfb = (set_dither, nsfb1) \<Longrightarrow> \<exists>p. nsfb1 = nsfb\<lparr>nsfb_palette := p\<rparr>"
  by (auto simp: dither_begin_def intro: exI [of _ "nsfb_palette nsfb"] split: option.splits if_splits)

lemma dither_bracket:
  assumes "dither_begin wanted n nsfb = (set_dither, nsfb1)"
  shows "plots nsfb (dither_end set_dither (nsfb1\<lparr>nsfb_vram := m\<rparr>))"
    and "nsfb_vram (dither_end set_dither (nsfb1\<lparr>nsfb_vram := m\<rparr>)) = m"
proof -
  show "plots nsfb (dither_end set_dither (nsfb1\<lparr>nsfb_vram := m\<rparr>))"
    using assms by (auto simp: plots_def dither_begin_def dither_end_def nsfb_palette_dither_init_def Let_def
        nsfb_palette_dither_fini_def nsfb_palette_dithering_on_def split: option.splits if_splits)
  show "nsfb_vram (dither_end set_dither (nsfb1\<lparr>nsfb_vram := m\<rparr>)) = m"
    by (simp add: dither_end_def)
qed

lemma dither_begin_same:
  assumes "dither_begin wanted n nsfb = (set_dither, nsfb1)"
  shows "nsfb_orientation nsfb1 = nsfb_orientation nsfb" "nsfb_vram nsfb1 = nsfb_vram nsfb"
    "scaled_landscape nsfb1 = scaled_landscape nsfb" "scaled_portrait nsfb1 = scaled_portrait nsfb"
    "bitmap_landscape nsfb1 = bitmap_landscape nsfb" "bitmap_portrait nsfb1 = bitmap_portrait nsfb"
  using dither_begin_palette [OF assms] by auto

lemma clip_part:
  assumes "bbox_ok loc" "nsfb_plot_clip clip loc = (True, r)"
  shows "x0 loc \<le> x0 r" "y0 loc \<le> y0 r" "x1 r \<le> x1 loc" "y1 r \<le> y1 loc"
proof -
  have grow: "v \<le> clamp lo hi v" if "v \<le> hi" for v lo hi using that by (simp add: clamp_def Let_def)
  have shrink: "clamp lo hi v \<le> v" if "lo \<le> v" for v lo hi using that by (simp add: clamp_def Let_def)
  have vis: "x0 loc \<le> x1 clip" "y0 loc \<le> y1 clip" "x0 clip \<le> x1 loc" "y0 clip \<le> y1 loc"
    and r: "r = loc\<lparr>x0 := clamp (x0 clip) (x1 clip) (x0 loc), x1 := clamp (x0 clip) (x1 clip) (x1 loc),
       y0 := clamp (y0 clip) (y1 clip) (y0 loc), y1 := clamp (y0 clip) (y1 clip) (y1 loc)\<rparr>"
    using assms by (auto simp: nsfb_plot_clip_eq Let_def bbox_ok_def split: if_splits)
  from vis show "x0 loc \<le> x0 r" "y0 loc \<le> y0 r" "x1 r \<le> x1 loc" "y1 r \<le> y1 loc"
    by (simp_all add: r grow shrink)
qed

lemma clip_corner:
  "bbox_ok loc \<Longrightarrow> nsfb_plot_clip clip loc = (True, r) \<Longrightarrow> x0 r = clamp (x0 clip) (x1 clip) (x0 loc)"
  by (auto simp: nsfb_plot_clip_eq Let_def split: if_splits)

lemma bbox_eta [simp]: "\<lparr>x0 = x0 loc, y0 = y0 loc, x1 = x1 loc, y1 = y1 loc\<rparr> = loc"
  by simp

lemma bbox_self: "\<lparr>x0 = x0 loc, y0 = y0 loc, x1 = x0 loc + (x1 loc - x0 loc), y1 = y0 loc + (y1 loc - y0 loc)\<rparr> = loc"
  by simp

lemma bitmap_scaled_paints:
  assumes ok: "clip_ok nsfb" "surface_ok nsfb" and q: "nsfb_plot_clip_ctx nsfb loc = (vis, r)"
    and loc: "x0 loc < x1 loc" "y0 loc < y1 loc" "0 \<le> bw" "0 \<le> bh"
    and bitmap: "bitmap_scaled nsfb loc pixel bw bh bs has_alpha = (b, nsfb')"
  shows "b \<and> plots nsfb nsfb' \<and> paints nsfb (if vis then pixels r else {})
     (bitmap_pixel nsfb loc pixel bw bh bs has_alpha) (nsfb_vram nsfb) (nsfb_vram nsfb')"
proof (cases vis)
  case False
  with q bitmap show ?thesis by (auto simp: bitmap_scaled_def Let_def)
next
  case True
  have clip: "nsfb_plot_clip (nsfb_clip nsfb) loc = (True, r)" using q True by (simp add: nsfb_plot_clip_ctx_def)
  have ins: "inside (nsfb_clip nsfb) r" using nsfb_plot_clip_inside [OF _ clip] clip_on_screen [OF ok(1)] by blast
  have okl: "bbox_ok loc" using loc by (simp add: bbox_ok_def)
  note part = clip_part [OF okl clip]
  obtain set_dither nsfb1 where d: "dither_begin True (x1 r - x0 r) nsfb = (set_dither, nsfb1)" by force
  let ?sc = "scaling_of (x0 r - x0 loc) (y0 r - y0 loc) (x1 loc - x0 loc) (y1 loc - y0 loc) bw bh bs"
  let ?m = "if nsfb_orientation nsfb = 1
     then scaled_landscape nsfb ?sc pixel has_alpha r (x1 r - x0 r) (y1 r - y0 r) (nsfb_vram nsfb)
     else scaled_portrait nsfb ?sc pixel has_alpha r (x1 r - x0 r) (y1 r - y0 r) (nsfb_vram nsfb)"
  have size: "(if y1 loc - y0 loc > y1 r - y0 r then y1 r - y0 r else y1 loc - y0 loc) = y1 r - y0 r"
    "(if x1 loc - x0 loc > x1 r - x0 r then x1 r - x0 r else x1 loc - x0 loc) = x1 r - x0 r"
    using part by auto
  have "(b, nsfb') = (True, dither_end set_dither (nsfb1\<lparr>nsfb_vram := ?m\<rparr>))"
    using bitmap True
    unfolding bitmap_scaled_def Let_def bbox_self q size by (cases "nsfb_orientation nsfb = 1") (simp_all add: size d dither_begin_same [OF d])
  moreover have "paints nsfb (pixels r) (bitmap_pixel nsfb loc pixel bw bh bs has_alpha) (nsfb_vram nsfb) ?m"
    by (rule scaled_paints [OF ok ins part(1) _ _ loc(3,4) part(2) refl]) (use loc in simp_all)
  ultimately show ?thesis using dither_bracket [OF d] True by simp
qed

lemma bitmap_paints:
  assumes ok: "clip_ok nsfb" "surface_ok nsfb" and q: "nsfb_plot_clip_ctx nsfb loc = (vis, r)"
    and loc: "x0 loc < x1 loc" "y0 loc < y1 loc" "0 \<le> bw" "0 \<le> bh" "0 < bs"
    and bitmap: "bitmap nsfb loc pixel bw bh bs has_alpha = (b, nsfb')"
  shows "b \<and> plots nsfb nsfb' \<and> paints nsfb (if vis then pixels r else {})
     (bitmap_pixel nsfb loc pixel bw bh bs has_alpha) (nsfb_vram nsfb) (nsfb_vram nsfb')"
proof (cases "x1 loc - x0 loc \<noteq> bw \<or> y1 loc - y0 loc \<noteq> bh")
  case True
  with bitmap loc have "bitmap_scaled nsfb loc pixel bw bh bs has_alpha = (b, nsfb')" by (simp add: bitmap_def Let_def)
  then show ?thesis by (rule bitmap_scaled_paints [OF ok q loc(1-4)])
next
  case False
  then have unscaled: "bw = x1 loc - x0 loc" "bh = y1 loc - y0 loc" by simp_all
  show ?thesis
  proof (cases vis)
    case False
    with q bitmap unscaled show ?thesis by (auto simp: bitmap_def Let_def split: if_splits)
  next
    case True
    have clip: "nsfb_plot_clip (nsfb_clip nsfb) loc = (True, r)" using q True by (simp add: nsfb_plot_clip_ctx_def)
    have ins: "inside (nsfb_clip nsfb) r" using nsfb_plot_clip_inside [OF _ clip] clip_on_screen [OF ok(1)] by blast
    have okl: "bbox_ok loc" using loc by (simp add: bbox_ok_def)
    note part = clip_part [OF okl clip]
    obtain set_dither nsfb1 where d: "dither_begin True (x1 r - x0 r) nsfb = (set_dither, nsfb1)" by force
    let ?y = "(y0 r - y0 loc) * bs"
    let ?m = "if nsfb_orientation nsfb = 1
       then bitmap_landscape nsfb pixel has_alpha r (x1 r - x0 r) ?y ((y1 r - y0 r) * bs + ?y) bs (x0 r - x0 loc) (nsfb_vram nsfb)
       else bitmap_portrait nsfb pixel has_alpha r (x1 r - x0 r) ?y ((y1 r - y0 r) * bs + ?y) bs (x0 r - x0 loc) (nsfb_vram nsfb)"
    have size: "(if y1 loc - y0 loc > y1 r - y0 r then y1 r - y0 r else y1 loc - y0 loc) = y1 r - y0 r"
      "(if x1 loc - x0 loc > x1 r - x0 r then x1 r - x0 r else x1 loc - x0 loc) = x1 r - x0 r"
      using part by auto
    have "(b, nsfb') = (True, dither_end set_dither (nsfb1\<lparr>nsfb_vram := ?m\<rparr>))"
      using bitmap True loc(1,2) unfolding bitmap_def Let_def bbox_self q size unscaled
      by (cases "nsfb_orientation nsfb = 1") (simp_all add: size d dither_begin_same [OF d])
    moreover have "paints nsfb (pixels r) (bitmap_pixel nsfb loc pixel bw bh bs has_alpha) (nsfb_vram nsfb) ?m"
      unfolding unscaled by (rule unscaled_paints [OF ok ins _ _ loc(5) refl refl]) (use loc in simp_all)
    ultimately show ?thesis using dither_bracket [OF d] True by simp
  qed
qed

section \<open>Properties\<close>

text \<open>
  C5.  A bitmap is drawn exactly, scaled or not, blended or not, in both
  orientations: every pixel in the visible part of the box shows the source pixel
  found by scaling its offset down (so the remainder-stepping loops agree with one
  division per pixel), that source pixel lies inside the bitmap, and no other pixel
  of the screen changes.
\<close>

theorem bitmap_exact:
  assumes "clip_ok nsfb" "surface_ok nsfb" and "x0 loc < x1 loc" "y0 loc < y1 loc"
    and "0 < bmp_width" "0 < bmp_height" "bmp_width \<le> bmp_stride"
    and "bitmap nsfb loc pixel bmp_width bmp_height bmp_stride has_alpha = (b, nsfb')"
    and "(x, y) \<in> pixels (screen nsfb)"
  shows "b \<and> ((x, y) \<in> pixels loc \<longrightarrow>
      0 \<le> sample loc bmp_width bmp_height bmp_stride x y
      \<and> sample loc bmp_width bmp_height bmp_stride x y < bmp_height * bmp_stride)
    \<and> nsfb_vram nsfb' (get_xy_loc nsfb x y) =
      (if (x, y) \<in> pixels (nsfb_clip nsfb) \<inter> pixels loc
       then mix_pixel nsfb has_alpha (pixel (sample loc bmp_width bmp_height bmp_stride x y))
         (nsfb_vram nsfb (get_xy_loc nsfb x y))
       else nsfb_vram nsfb (get_xy_loc nsfb x y))"
proof -
  obtain vis r where q: "nsfb_plot_clip_ctx nsfb loc = (vis, r)" by force
  have okl: "bbox_order loc = loc" using assms(3,4) by (simp add: bbox_ok_def)
  note vis = visible_on_screen [OF assms(1) q, unfolded okl]
  have p: "b \<and> paints nsfb (if vis then pixels r else {})
     (bitmap_pixel nsfb loc pixel bmp_width bmp_height bmp_stride has_alpha) (nsfb_vram nsfb) (nsfb_vram nsfb')"
    using bitmap_paints [OF assms(1,2) q assms(3,4) _ _ _ assms(8)] assms(5-7) by simp
  have src: "0 \<le> d * n div l \<and> d * n div l < n" if "0 \<le> d" "d < l" "0 < n" for d l n :: int
  proof -
    have "d * n div l * l \<le> d * n"
      using div_mult_mod_eq [of "d * n" l] pos_mod_sign [of l "d * n"] that by linarith
    also have "d * n < n * l" using that by (simp add: mult.commute)
    finally have "d * n div l < n" using that by simp
    then show ?thesis using that by (simp add: pos_imp_zdiv_nonneg_iff)
  qed
  have "0 \<le> sample loc bmp_width bmp_height bmp_stride x y
      \<and> sample loc bmp_width bmp_height bmp_stride x y < bmp_height * bmp_stride" if xy: "(x, y) \<in> pixels loc"
  proof -
    define u v where "u = (x - x0 loc) * bmp_width div (x1 loc - x0 loc)" and "v = (y - y0 loc) * bmp_height div (y1 loc - y0 loc)"
    have uv: "0 \<le> u" "u < bmp_width" "0 \<le> v" "v + 1 \<le> bmp_height"
      using src [of "x - x0 loc" "x1 loc - x0 loc" bmp_width] src [of "y - y0 loc" "y1 loc - y0 loc" bmp_height] xy assms(5,6)
      by (simp_all add: u_def v_def)
    have "(v + 1) * bmp_stride \<le> bmp_height * bmp_stride" using uv(4) assms(5,7) by (intro mult_right_mono) simp_all
    moreover have "0 \<le> v * bmp_stride" using uv(3) assms(5,7) by simp
    ultimately show ?thesis unfolding sample_def u_def [symmetric] v_def [symmetric]
      using uv assms(7) by (simp add: distrib_right)
  qed
  then show ?thesis
    using paints_screen [OF conjunct2 [OF p] assms(2) vis(2) assms(9)] p
    unfolding vis(1) bitmap_pixel_def by blast
qed

lemma bitmap_exact_witness:
  "let nsfb = surface_example 1;
       nsfb' = snd (bitmap nsfb \<lparr>x0 = -1, y0 = 0, x1 = 3, y1 = 2\<rparr> (\<lambda>i. if i = 1 then 0xFFFFFF else 0) 2 1 2 False)
   in nsfb_vram nsfb' (get_xy_loc nsfb 1 1) = 0xFFFF \<and> nsfb_vram nsfb' (get_xy_loc nsfb 0 1) = 0"
proof -
  let ?n = "surface_example 1" and ?l = "\<lparr>x0 = -1, y0 = 0, x1 = 3, y1 = 2\<rparr>" and ?p = "\<lambda>i :: int. if i = 1 then 0xFFFFFF else (0 :: 32 word)"
  obtain b n' where f: "bitmap ?n ?l ?p 2 1 2 False = (b, n')" by force
  have px: "mix_pixel n False 0xFFFFFF v = 0xFFFF" "mix_pixel n False 0 v = 0" for n v
    by (simp_all add: mix_pixel_def colour_to_pixel_def drop_bit_eq_div push_bit_eq_mult ucast_eq)
  have "nsfb_clip ?n = \<lparr>x0 = 0, y0 = 0, x1 = 4, y1 = 4\<rparr>" "nsfb_vram ?n = (\<lambda>_. 0)"
    "pixels (screen ?n) = pixels \<lparr>x0 = 0, y0 = 0, x1 = 4, y1 = 4\<rparr>"
    by (simp_all add: surface_example_def screen_def)
  with bitmap_exact [OF surface_example_ok _ _ _ _ _ f, of 1 1] bitmap_exact [OF surface_example_ok _ _ _ _ _ f, of 0 1]
  show ?thesis by (simp add: f sample_def px)
qed

end
