(* ===== verification/Plot_Tiles.thy ===== *)
theory Plot_Tiles
  imports Plot_Bitmap
begin

text \<open>
  Tiled bitmaps of \<^verbatim>\<open>libnsfb/src/plot/common.c\<close>: one call plots a bitmap repeated in both
  directions, tile by tile or, on paletted screens with error diffusion, line by
  line across all the tiles of a row.
\<close>

section \<open>A row of tiles\<close>

text \<open>One run of source pixels of a row; \<^verbatim>\<open>break\<close> leaves the output column where it is.\<close>

definition tile_run_landscape ::
  "nsfb \<Rightarrow> (int \<Rightarrow> nsfb_colour) \<Rightarrow> bool \<Rightarrow> int \<Rightarrow> int \<Rightarrow> int \<Rightarrow> int \<Rightarrow> int
     \<Rightarrow> int \<times> (int \<Rightarrow> 16 word) \<Rightarrow> int \<times> (int \<Rightarrow> 16 word)" where
  "tile_run_landscape nsfb pixel has_alpha limit cy src_row_offset from upto_x =
     for_int from upto_x (\<lambda>xloop (output_x, m).
       if output_x \<ge> limit then (output_x, m)
       else (output_x + 1, put_pixel nsfb has_alpha (pixel (src_row_offset + xloop)) (get_xy_loc nsfb output_x cy) m))"

definition tiles_landscape ::
  "nsfb \<Rightarrow> (int \<Rightarrow> nsfb_colour) \<Rightarrow> bool \<Rightarrow> nsfb_bbox \<Rightarrow> int \<Rightarrow> int \<Rightarrow> int \<Rightarrow> int \<Rightarrow> int \<Rightarrow> int
     \<Rightarrow> (int \<Rightarrow> 16 word) \<Rightarrow> int \<Rightarrow> 16 word" where
  "tiles_landscape nsfb pixel has_alpha clipped y tiles_x width xoff xlim bmp_stride =
     for_int (y0 clipped) (y1 clipped) (\<lambda>cy m. let
         src_row_offset = (cy - y) * bmp_stride;
         run = tile_run_landscape nsfb pixel has_alpha (x1 clipped) cy src_row_offset;
         s = run xoff width (x0 clipped, m);
         s = for_int 1 (tiles_x - 1) (\<lambda>t. run 0 width) s;
         s = for_int (tiles_x - 1) tiles_x (\<lambda>t. run 0 xlim) s
       in snd s)"

text \<open>
  In portrait the loop counter \<open>t\<close> runs on from the first tile to the last: the
  last loop starts at \<open>max 1 (tiles_x - 1)\<close>.
\<close>

definition tile_run_portrait ::
  "nsfb \<Rightarrow> (int \<Rightarrow> nsfb_colour) \<Rightarrow> bool \<Rightarrow> int \<Rightarrow> int \<Rightarrow> int \<Rightarrow> int
     \<Rightarrow> (int \<Rightarrow> 16 word) \<Rightarrow> int \<Rightarrow> 16 word" where
  "tile_run_portrait nsfb pixel has_alpha pvideo_pos yoff from upto_x =
     for_int from upto_x (\<lambda>xloop m. put_pixel nsfb has_alpha (pixel (yoff + xloop)) (pvideo_add pvideo_pos xloop) m)"

definition tiles_portrait ::
  "nsfb \<Rightarrow> (int \<Rightarrow> nsfb_colour) \<Rightarrow> bool \<Rightarrow> int \<Rightarrow> int \<Rightarrow> int \<Rightarrow> int \<Rightarrow> int \<Rightarrow> int \<Rightarrow> int \<Rightarrow> int
     \<Rightarrow> (int \<Rightarrow> 16 word) \<Rightarrow> int \<Rightarrow> 16 word" where
  "tiles_portrait nsfb pixel has_alpha pvideo pvideo_limit tiles_x width xoff xlim yoff bmp_stride m =
     snd (for_step (pvideo_add 0 (PLOT_LINELEN (nsfb_linelen nsfb))) pvideo pvideo_limit (\<lambda>pvideo (yoff, m). let
         m = tile_run_portrait nsfb pixel has_alpha (pvideo_add pvideo (- xoff)) yoff xoff width m;
         pvideo_pos = pvideo_add pvideo (width - xoff);
         (pvideo_pos, m) = for_int 1 (tiles_x - 1) (\<lambda>t (pvideo_pos, m).
            (pvideo_add pvideo_pos width, tile_run_portrait nsfb pixel has_alpha pvideo_pos yoff 0 width m)) (pvideo_pos, m);
         m = for_int (max 1 (tiles_x - 1)) tiles_x (\<lambda>t. tile_run_portrait nsfb pixel has_alpha pvideo_pos yoff 0 xlim) m
       in (yoff + bmp_stride, m)) (yoff, m))"

definition bitmap_tiles_x ::
  "nsfb \<Rightarrow> nsfb_bbox \<Rightarrow> int \<Rightarrow> (int \<Rightarrow> nsfb_colour) \<Rightarrow> int \<Rightarrow> bool \<Rightarrow> bool \<times> nsfb" where
  "bitmap_tiles_x nsfb loc tiles_x pixel bmp_stride has_alpha = (let
     x = x0 loc; y = y0 loc;
     width = x1 loc - x0 loc; height = y1 loc - y0 loc
   in if width = 0 \<or> height = 0 then (True, nsfb)
   else let
     (vis, clipped) = nsfb_plot_clip_ctx nsfb \<lparr>x0 = x, y0 = y, x1 = x + width * tiles_x, y1 = y + height\<rparr>
   in if \<not> vis then (True, nsfb)
   else let
     height = (if height > y1 clipped - y0 clipped then y1 clipped - y0 clipped else height);
     pvideo = get_xy_loc nsfb (x0 clipped) (y0 clipped);
     pvideo_limit = pvideo_add pvideo (PLOT_LINELEN (nsfb_linelen nsfb) * height);
     xoff = x0 clipped - x;
     xlim = width - (x + width * tiles_x - x1 clipped);
     yoff = (y0 clipped - y) * bmp_stride
   in (True, nsfb\<lparr>nsfb_vram :=
        (if nsfb_orientation nsfb = 1
         then tiles_landscape nsfb pixel has_alpha clipped y tiles_x width xoff xlim bmp_stride (nsfb_vram nsfb)
         else tiles_portrait nsfb pixel has_alpha pvideo pvideo_limit tiles_x width xoff xlim yoff bmp_stride
           (nsfb_vram nsfb))\<rparr>))"

section \<open>Tiles in both directions\<close>

definition shift_x :: "int \<Rightarrow> nsfb_bbox \<Rightarrow> nsfb_bbox" where
  "shift_x d r = r\<lparr>x0 := x0 r + d, x1 := x1 r + d\<rparr>"

definition shift_y :: "int \<Rightarrow> nsfb_bbox \<Rightarrow> nsfb_bbox" where
  "shift_y d r = r\<lparr>y0 := y0 r + d, y1 := y1 r + d\<rparr>"

text \<open>One row of separately plotted tiles; \<open>plot\<close> is \<^verbatim>\<open>bitmap\<close> or \<^verbatim>\<open>bitmap_scaled\<close>.\<close>

definition tile_row ::
  "(nsfb \<Rightarrow> nsfb_bbox \<Rightarrow> bool \<times> nsfb) \<Rightarrow> int \<Rightarrow> int
     \<Rightarrow> nsfb_bbox \<times> bool \<times> nsfb \<Rightarrow> nsfb_bbox \<times> bool \<times> nsfb" where
  "tile_row plot tiles_x width = for_int 0 tiles_x (\<lambda>tx (tloc, ok, nsfb).
     let (b, nsfb) = plot nsfb tloc in (shift_x width tloc, ok \<and> b, nsfb))"

definition tile_rows ::
  "(nsfb \<Rightarrow> nsfb_bbox \<Rightarrow> bool \<times> nsfb) \<Rightarrow> int \<Rightarrow> int \<Rightarrow> int \<Rightarrow> int \<Rightarrow> int \<Rightarrow> int
     \<Rightarrow> nsfb_bbox \<times> bool \<times> nsfb \<Rightarrow> nsfb_bbox \<times> bool \<times> nsfb" where
  "tile_rows plot tiles_x tiles_y width height left right = for_int 0 tiles_y (\<lambda>ty s.
     let (tloc, ok, nsfb) = tile_row plot tiles_x width s
     in (shift_y height (tloc\<lparr>x0 := left, x1 := right\<rparr>), ok, nsfb))"

text \<open>The tiles left of the rendered area are skipped: the offset, the first tile and the tiles left.\<close>

definition tile_start :: "nsfb_bbox \<Rightarrow> nsfb_bbox \<Rightarrow> int \<Rightarrow> int \<Rightarrow> int \<times> nsfb_bbox \<times> int" where
  "tile_start area loc width tiles_x = (let
     (skip, tloc, tiles_x) =
       (if x0 area - x0 loc > width then
          let skip = cdiv (x0 area - x0 loc) width; tiles_x = tiles_x - skip; skip = skip * width
          in (skip, shift_x skip loc, tiles_x)
        else (0, loc, tiles_x))
   in (skip, tloc, if x1 tloc - x1 area > width then tiles_x - cdiv (x1 tloc - x1 area) width else tiles_x))"

definition bitmap_tiles ::
  "nsfb \<Rightarrow> nsfb_bbox \<Rightarrow> int \<Rightarrow> int \<Rightarrow> (int \<Rightarrow> nsfb_colour) \<Rightarrow> int \<Rightarrow> int \<Rightarrow> int \<Rightarrow> bool \<Rightarrow> bool \<times> nsfb" where
  "bitmap_tiles nsfb loc tiles_x tiles_y pixel bmp_width bmp_height bmp_stride has_alpha = (let
     width = x1 loc - x0 loc; height = y1 loc - y0 loc;
     scaled = width \<noteq> bmp_width \<or> height \<noteq> bmp_height
   in if width = 0 \<or> height = 0 then (True, nsfb)
   else let
     (vis, area) = nsfb_plot_clip_ctx nsfb
       \<lparr>x0 = x0 loc, y0 = y0 loc, x1 = x0 loc + width * tiles_x, y1 = y0 loc + height * tiles_y\<rparr>
   in if \<not> vis then (True, nsfb)
   else let
     (set_dither, nsfb) = dither_begin (\<not> scaled \<or> tiles_x = 1) (x1 area - x0 area) nsfb;
     (skip, tloc, tiles_x) = tile_start area loc width tiles_x;
     (_, ok, nsfb) =
       (if scaled then
          tile_rows (\<lambda>nsfb tloc. bitmap_scaled nsfb tloc pixel bmp_width bmp_height bmp_stride has_alpha)
            tiles_x tiles_y width height (x0 loc) (x1 loc) (tloc, True, nsfb)
        else if tiles_x = 1 \<or> \<not> set_dither then
          tile_rows (\<lambda>nsfb tloc. bitmap nsfb tloc pixel bmp_width bmp_height bmp_stride has_alpha)
            tiles_x tiles_y width height (x0 loc + skip) (x1 loc + skip) (tloc, True, nsfb)
        else if tiles_x > 1 then
          for_int 0 tiles_y (\<lambda>ty (tloc, ok, nsfb). let
              (b, nsfb) = bitmap_tiles_x nsfb tloc tiles_x pixel bmp_stride has_alpha
            in (shift_y height tloc, ok \<and> b, nsfb)) (tloc, True, nsfb)
        else (tloc, True, nsfb))
   in (ok, dither_end set_dither nsfb))"

section \<open>Tiled bitmaps\<close>

text \<open>What \<open>plots\<close> keeps of a surface.\<close>

lemma plots_keeps:
  assumes "plots nsfb nsfb'"
  shows "nsfb_clip nsfb' = nsfb_clip nsfb" "get_xy_loc nsfb' = get_xy_loc nsfb" "screen nsfb' = screen nsfb"
    "clip_ok nsfb' = clip_ok nsfb" "surface_ok nsfb' = surface_ok nsfb" "nsfb_plot_clip_ctx nsfb' = nsfb_plot_clip_ctx nsfb"
    "nsfb_palette nsfb = None \<Longrightarrow> nsfb_palette nsfb' = None" "mix_pixel nsfb' = mix_pixel nsfb"
proof -
  obtain p where p: "nsfb' = nsfb\<lparr>nsfb_vram := nsfb_vram nsfb', nsfb_palette := p\<rparr>"
    "map_option nsfb_palette_dithering_on p = map_option nsfb_palette_dithering_on (nsfb_palette nsfb)"
  proof (rule that [of "nsfb_palette nsfb'"])
    show "nsfb' = nsfb\<lparr>nsfb_vram := nsfb_vram nsfb', nsfb_palette := nsfb_palette nsfb'\<rparr>"
      using assms unfolding plots_def by (cases nsfb; cases nsfb') simp
  qed (use assms in \<open>simp add: plots_def\<close>)
  show "nsfb_clip nsfb' = nsfb_clip nsfb" "get_xy_loc nsfb' = get_xy_loc nsfb" "screen nsfb' = screen nsfb"
    "clip_ok nsfb' = clip_ok nsfb" "surface_ok nsfb' = surface_ok nsfb" "nsfb_plot_clip_ctx nsfb' = nsfb_plot_clip_ctx nsfb"
    "mix_pixel nsfb' = mix_pixel nsfb"
    by (subst p(1), simp add: get_xy_loc_def screen_def clip_ok_def surface_ok_def nsfb_plot_clip_ctx_def
        mix_pixel_def blend_pixel_def colour_to_pixel_def pixel_to_colour_def fun_eq_iff)+
  show "nsfb_palette nsfb = None \<Longrightarrow> nsfb_palette nsfb' = None" using p(2) by (subst p(1)) simp
qed

lemma paints_cong:
  assumes "paints nsfb S g m m'" and "\<And>x y old. (x, y) \<in> S \<Longrightarrow> g x y old = g' x y old"
  shows "paints nsfb S g' m m'"
  using assms by (auto simp: paints_def)

text \<open>The box of tile \<open>(i, j)\<close>, and the colour index at a pixel of the tiled plane.\<close>

definition tile_box :: "nsfb_bbox \<Rightarrow> int \<Rightarrow> int \<Rightarrow> nsfb_bbox" where
  "tile_box loc i j = shift_y (j * (y1 loc - y0 loc)) (shift_x (i * (x1 loc - x0 loc)) loc)"

lemma tile_box_simps [simp]:
  "x0 (tile_box loc i j) = x0 loc + i * (x1 loc - x0 loc)" "x1 (tile_box loc i j) = x1 loc + i * (x1 loc - x0 loc)"
  "y0 (tile_box loc i j) = y0 loc + j * (y1 loc - y0 loc)" "y1 (tile_box loc i j) = y1 loc + j * (y1 loc - y0 loc)"
  by (simp_all add: tile_box_def shift_x_def shift_y_def)

lemma tile_box_next:
  "shift_x (x1 loc - x0 loc) (tile_box loc i j) = tile_box loc (i + 1) j"
  "shift_y (y1 loc - y0 loc) (tile_box loc i j\<lparr>x0 := x0 loc + s * (x1 loc - x0 loc), x1 := x1 loc + s * (x1 loc - x0 loc)\<rparr>)
    = tile_box loc s (j + 1)"
  by (simp_all add: tile_box_def shift_x_def shift_y_def distrib_right)

definition tile_pixel ::
  "nsfb \<Rightarrow> nsfb_bbox \<Rightarrow> (int \<Rightarrow> nsfb_colour) \<Rightarrow> int \<Rightarrow> bool \<Rightarrow> int \<Rightarrow> int \<Rightarrow> 16 word \<Rightarrow> 16 word" where
  "tile_pixel nsfb loc pixel bs has_alpha px py old = mix_pixel nsfb has_alpha
     (pixel ((py - y0 loc) mod (y1 loc - y0 loc) * bs + (px - x0 loc) mod (x1 loc - x0 loc))) old"

lemma tile_mod:
  fixes w :: int
  assumes "u + i * w \<le> x" "x < v + i * w" "v = u + w"
  shows "(x - u) mod w = x - (u + i * w)" "(x - u) div w = i"
proof -
  have "x - u = (x - (u + i * w)) + w * i" by simp
  moreover have "0 \<le> x - (u + i * w)" "x - (u + i * w) < w" using assms by auto
  ultimately show "(x - u) mod w = x - (u + i * w)" "(x - u) div w = i"
    by (metis mod_mult_self2 mod_pos_pos_trivial, metis add.right_neutral div_mult_self2 div_pos_pos_trivial add.commute
        less_irrefl le_less_trans)
qed

lemma tile_paints:
  assumes ok: "clip_ok nsfb" "surface_ok nsfb" and loc: "x0 loc < x1 loc" "y0 loc < y1 loc" "0 < bs"
    and bitmap: "bitmap nsfb (tile_box loc i j) pixel (x1 loc - x0 loc) (y1 loc - y0 loc) bs has_alpha = (b, nsfb')"
  shows "b \<and> plots nsfb nsfb' \<and> paints nsfb (pixels (nsfb_clip nsfb) \<inter> pixels (tile_box loc i j))
     (tile_pixel nsfb loc pixel bs has_alpha) (nsfb_vram nsfb) (nsfb_vram nsfb')"
proof -
  obtain vis r where q: "nsfb_plot_clip_ctx nsfb (tile_box loc i j) = (vis, r)" by force
  let ?S = "pixels (nsfb_clip nsfb) \<inter> pixels (tile_box loc i j)"
  have S: "(if vis then pixels r else {}) = ?S"
    using visible_on_screen(1) [OF ok(1) q] loc by (simp add: bbox_ok_def)
  have p: "b \<and> plots nsfb nsfb' \<and> paints nsfb ?S
     (bitmap_pixel nsfb (tile_box loc i j) pixel (x1 loc - x0 loc) (y1 loc - y0 loc) bs has_alpha)
     (nsfb_vram nsfb) (nsfb_vram nsfb')"
    unfolding S [symmetric] by (rule bitmap_paints [OF ok q _ _ _ _ loc(3) bitmap]) (use loc in simp_all)
  moreover have "bitmap_pixel nsfb (tile_box loc i j) pixel (x1 loc - x0 loc) (y1 loc - y0 loc) bs has_alpha px py old
      = tile_pixel nsfb loc pixel bs has_alpha px py old" if "(px, py) \<in> ?S" for px py old
    using that loc tile_mod(1) [of "x0 loc" i "x1 loc - x0 loc" px "x1 loc"] tile_mod(1) [of "y0 loc" j "y1 loc - y0 loc" py "y1 loc"]
    by (simp add: bitmap_pixel_def tile_pixel_def sample_def)
  ultimately show ?thesis by (blast intro: paints_cong)
qed

lemma plots_paints:
  assumes "plots nsfb nsfb'"
  shows "paints nsfb' = paints nsfb" "tile_pixel nsfb' = tile_pixel nsfb"
  using plots_keeps [OF assms] by (simp_all add: paints_def locs_def tile_pixel_def fun_eq_iff)

lemma tile_disjoint:
  assumes "x0 loc < x1 loc" "y0 loc < y1 loc" "i < k \<or> j < l"
  shows "pixels (tile_box loc i j) \<inter> pixels (tile_box loc k l) = {}"
proof -
  have "i = k \<and> j = l" if "p \<in> pixels (tile_box loc i j)" "p \<in> pixels (tile_box loc k l)" for p
  proof (cases p)
    case (Pair x y)
    with that have "(x - x0 loc) div (x1 loc - x0 loc) = i" "(x - x0 loc) div (x1 loc - x0 loc) = k"
      "(y - y0 loc) div (y1 loc - y0 loc) = j" "(y - y0 loc) div (y1 loc - y0 loc) = l"
      using tile_mod(2) [of "x0 loc" _ "x1 loc - x0 loc" x "x1 loc"] tile_mod(2) [of "y0 loc" _ "y1 loc - y0 loc" y "y1 loc"]
      by simp_all
    then show ?thesis by simp
  qed
  with assms(3) show ?thesis by blast
qed

definition tile_state :: "nsfb \<Rightarrow> nsfb_bbox \<Rightarrow> nsfb_bbox \<times> bool \<times> nsfb \<Rightarrow> bool" where
  "tile_state nsfb tloc s \<longleftrightarrow> fst s = tloc \<and> fst (snd s) \<and> plots nsfb (snd (snd s))"

lemma tile_row_paints:
  fixes pixel :: "int \<Rightarrow> nsfb_colour" and has_alpha :: bool
  assumes ok: "clip_ok nsfb" "surface_ok nsfb" and loc: "x0 loc < x1 loc" "y0 loc < y1 loc" "0 < bs"
    and n: "0 \<le> n" and w: "w = x1 loc - x0 loc" "h = y1 loc - y0 loc" and st: "tile_state nsfb (tile_box loc s j) st"
  defines "res \<equiv> tile_row (\<lambda>nsfb tloc. bitmap nsfb tloc pixel w h bs has_alpha) n w st"
  shows "tile_state nsfb (tile_box loc (s + n) j) res \<and>
    paints nsfb (\<Union>i\<in>{0..<n}. pixels (nsfb_clip nsfb) \<inter> pixels (tile_box loc (s + i) j)) (tile_pixel nsfb loc pixel bs has_alpha)
      (nsfb_vram (snd (snd st))) (nsfb_vram (snd (snd res)))"
  unfolding res_def tile_row_def
proof (rule for_int_paints [where I = "\<lambda>i. tile_state nsfb (tile_box loc (s + i) j)" and mem = "\<lambda>s. nsfb_vram (snd (snd s))"])
  fix i t assume "0 \<le> i" "i < n" and t: "tile_state nsfb (tile_box loc (s + i) j) t"
  obtain nsfb1 where t1: "t = (tile_box loc (s + i) j, True, nsfb1)" "plots nsfb nsfb1"
    using t by (cases t) (auto simp: tile_state_def)
  obtain b nsfb2 where b: "bitmap nsfb1 (tile_box loc (s + i) j) pixel w h bs has_alpha = (b, nsfb2)" by force
  note keeps = plots_keeps [OF t1(2)] plots_paints [OF t1(2)]
  have "b \<and> plots nsfb1 nsfb2 \<and> paints nsfb (pixels (nsfb_clip nsfb) \<inter> pixels (tile_box loc (s + i) j))
     (tile_pixel nsfb loc pixel bs has_alpha) (nsfb_vram nsfb1) (nsfb_vram nsfb2)"
    using tile_paints [OF _ _ loc b [unfolded w]] ok by (simp add: keeps)
  then show "tile_state nsfb (tile_box loc (s + (i + 1)) j)
       (case t of (tloc, ok, nsfb) \<Rightarrow> let (b, nsfb) = bitmap nsfb tloc pixel w h bs has_alpha in (shift_x w tloc, ok \<and> b, nsfb)) \<and>
     paints nsfb (pixels (nsfb_clip nsfb) \<inter> pixels (tile_box loc (s + i) j)) (tile_pixel nsfb loc pixel bs has_alpha)
       (nsfb_vram (snd (snd t)))
       (nsfb_vram (snd (snd (case t of (tloc, ok, nsfb) \<Rightarrow>
          let (b, nsfb) = bitmap nsfb tloc pixel w h bs has_alpha in (shift_x w tloc, ok \<and> b, nsfb)))))"
    using plots_trans [OF t1(2)] by (simp add: t1(1) b [unfolded w] tile_state_def w tile_box_next add.assoc)
next
  show "(\<Union>i\<in>{0..<n}. pixels (nsfb_clip nsfb) \<inter> pixels (tile_box loc (s + i) j)) \<subseteq> pixels (screen nsfb)"
    using clip_on_screen [OF ok(1)] by blast
  fix i k :: int assume "i < k"
  then have "s + i < s + k \<or> j < j" by simp
  from tile_disjoint [OF loc(1,2) this] show "pixels (nsfb_clip nsfb) \<inter> pixels (tile_box loc (s + i) j) \<inter>
      (pixels (nsfb_clip nsfb) \<inter> pixels (tile_box loc (s + k) j)) = {}"
    by blast
qed (use ok st n in simp_all)

lemma tile_rows_paints:
  fixes pixel :: "int \<Rightarrow> nsfb_colour" and has_alpha :: bool and s :: int
  assumes ok: "clip_ok nsfb" "surface_ok nsfb" and loc: "x0 loc < x1 loc" "y0 loc < y1 loc" "0 < bs"
    and n: "0 \<le> n" "0 \<le> k" and w: "w = x1 loc - x0 loc" "h = y1 loc - y0 loc"
  defines "res \<equiv> tile_rows (\<lambda>nsfb tloc. bitmap nsfb tloc pixel w h bs has_alpha) n k w h (x0 loc + s * w) (x1 loc + s * w)
     (tile_box loc s 0, True, nsfb)"
  shows "tile_state nsfb (tile_box loc s k) res \<and>
    paints nsfb (\<Union>j\<in>{0..<k}. \<Union>i\<in>{0..<n}. pixels (nsfb_clip nsfb) \<inter> pixels (tile_box loc (s + i) j))
      (tile_pixel nsfb loc pixel bs has_alpha) (nsfb_vram nsfb) (nsfb_vram (snd (snd res)))"
proof -
  let ?row = "tile_row (\<lambda>nsfb tloc. bitmap nsfb tloc pixel w h bs has_alpha) n w"
  let ?body = "\<lambda>ty s'. let (tloc, ok, nsfb) = ?row s'
     in (shift_y h (tloc\<lparr>x0 := x0 loc + s * w, x1 := x1 loc + s * w\<rparr>), ok, nsfb)"
  let ?S = "\<lambda>j. \<Union>i\<in>{0..<n}. pixels (nsfb_clip nsfb) \<inter> pixels (tile_box loc (s + i) j)"
  let ?st = "(tile_box loc s 0, True, nsfb)"
  have "tile_state nsfb (tile_box loc s k) (for_int 0 k ?body ?st) \<and>
    paints nsfb (\<Union>j\<in>{0..<k}. ?S j) (tile_pixel nsfb loc pixel bs has_alpha) (nsfb_vram (snd (snd ?st)))
      (nsfb_vram (snd (snd (for_int 0 k ?body ?st))))"
  proof (rule for_int_paints [where I = "\<lambda>j. tile_state nsfb (tile_box loc s j)" and mem = "\<lambda>s. nsfb_vram (snd (snd s))"])
    fix j t assume t: "tile_state nsfb (tile_box loc s j) t"
    have next_row: "shift_y h (tile_box loc (s + n) j\<lparr>x0 := x0 loc + s * w, x1 := x1 loc + s * w\<rparr>) = tile_box loc s (j + 1)"
      unfolding w by (rule tile_box_next)
    show "tile_state nsfb (tile_box loc s (j + 1)) (?body j t) \<and>
      paints nsfb (?S j) (tile_pixel nsfb loc pixel bs has_alpha) (nsfb_vram (snd (snd t))) (nsfb_vram (snd (snd (?body j t))))"
      using tile_row_paints [OF ok loc n(1) w t, of pixel has_alpha] next_row
      by (cases "?row t") (simp add: tile_state_def)
  next
    show "(\<Union>j\<in>{0..<k}. ?S j) \<subseteq> pixels (screen nsfb)" using clip_on_screen [OF ok(1)] by blast
    fix j l :: int assume "j < l"
    then show "?S j \<inter> ?S l = {}" using tile_disjoint [OF loc(1,2), of _ _ j l] by blast
  qed (use ok n in \<open>simp_all add: tile_state_def\<close>)
  then show ?thesis by (simp add: res_def tile_rows_def)
qed

text \<open>The tiles that are skipped on the left are invisible.\<close>

definition tiled_area :: "nsfb_bbox \<Rightarrow> int \<Rightarrow> int \<Rightarrow> nsfb_bbox" where
  "tiled_area loc tiles_x tiles_y = \<lparr>x0 = x0 loc, y0 = y0 loc,
     x1 = x0 loc + (x1 loc - x0 loc) * tiles_x, y1 = y0 loc + (y1 loc - y0 loc) * tiles_y\<rparr>"

lemma tile_at:
  fixes u :: int
  assumes "u < v" "u \<le> x" "x < u + (v - u) * n" and q: "q = (x - u) div (v - u)"
  shows "u + q * (v - u) \<le> x" "x < v + q * (v - u)" "0 \<le> q" "q < n"
proof -
  have e: "x - u = q * (v - u) + (x - u) mod (v - u)"
    unfolding q by (rule div_mult_mod_eq [symmetric])
  have r: "0 \<le> (x - u) mod (v - u)" "(x - u) mod (v - u) < v - u" using assms(1) by simp_all
  show "u + q * (v - u) \<le> x" "x < v + q * (v - u)" using e r by simp_all
  show "0 \<le> q" using assms by (simp add: pos_imp_zdiv_nonneg_iff)
  have "q * (v - u) < n * (v - u)" using e r assms(3) mult.commute [of n "v - u"] by linarith
  then show "q < n" using assms(1) by simp
qed

lemma tiles_cover:
  assumes loc: "x0 loc < x1 loc" "y0 loc < y1 loc" and s: "0 \<le> s" "0 < s \<Longrightarrow> x0 loc + s * (x1 loc - x0 loc) \<le> x0 clip"
  shows "(\<Union>j\<in>{0..<k}. \<Union>i\<in>{0..<n - s}. pixels clip \<inter> pixels (tile_box loc (s + i) j))
    = pixels clip \<inter> pixels (tiled_area loc n k)"
proof (intro equalityI subsetI)
  fix p assume "p \<in> (\<Union>j\<in>{0..<k}. \<Union>i\<in>{0..<n - s}. pixels clip \<inter> pixels (tile_box loc (s + i) j))"
  then obtain i j where "j \<in> {0..<k}" "i \<in> {0..<n - s}" and p': "p \<in> pixels clip" "p \<in> pixels (tile_box loc (s + i) j)"
    by blast
  then have ij: "0 \<le> j" "j + 1 \<le> k" "s + i + 1 \<le> n" "0 \<le> i" by simp_all
  obtain x y where p: "p = (x, y)" "p \<in> pixels clip" "(x, y) \<in> pixels (tile_box loc (s + i) j)"
    using p' by (cases p) simp
  have "(s + i + 1) * (x1 loc - x0 loc) \<le> n * (x1 loc - x0 loc)" "(j + 1) * (y1 loc - y0 loc) \<le> k * (y1 loc - y0 loc)"
    "0 \<le> (s + i) * (x1 loc - x0 loc)" "0 \<le> j * (y1 loc - y0 loc)"
    using ij loc s(1) by (intro mult_right_mono mult_nonneg_nonneg; simp)+
  then have "x < x0 loc + n * (x1 loc - x0 loc)" "y < y0 loc + k * (y1 loc - y0 loc)" "x0 loc \<le> x" "y0 loc \<le> y"
    using p(3) by (simp_all add: distrib_right)
  then show "p \<in> pixels clip \<inter> pixels (tiled_area loc n k)"
    using p(1,2) by (simp add: tiled_area_def mult.commute)
next
  fix p assume "p \<in> pixels clip \<inter> pixels (tiled_area loc n k)"
  then obtain x y where p: "p = (x, y)" "p \<in> pixels clip" "(x, y) \<in> pixels (tiled_area loc n k)" by (cases p) simp
  define i j where "i = (x - x0 loc) div (x1 loc - x0 loc)" and "j = (y - y0 loc) div (y1 loc - y0 loc)"
  have xa: "x0 loc \<le> x" "x < x0 loc + (x1 loc - x0 loc) * n" "y0 loc \<le> y" "y < y0 loc + (y1 loc - y0 loc) * k"
    using p(3) by (simp_all add: tiled_area_def)
  note i = tile_at [OF loc(1) xa(1,2) i_def] and j = tile_at [OF loc(2) xa(3,4) j_def]
  have "s \<le> i"
  proof (cases "0 < s")
    case True
    then have "s * (x1 loc - x0 loc) < (i + 1) * (x1 loc - x0 loc)"
      using s(2) p(1,2) i(2) by (simp add: distrib_right)
    then have "s < i + 1" using loc(1) by simp
    then show ?thesis by simp
  qed (use i(3) s(1) in simp)
  then have "p \<in> pixels clip \<inter> pixels (tile_box loc (s + (i - s)) j)" "i - s \<in> {0..<n - s}" "j \<in> {0..<k}"
    using p(1,2) i j by simp_all
  then show "p \<in> (\<Union>j\<in>{0..<k}. \<Union>i\<in>{0..<n - s}. pixels clip \<inter> pixels (tile_box loc (s + i) j))" by blast
qed

lemma bitmap_tiles_paints:
  assumes ok: "clip_ok nsfb" "surface_ok nsfb" "nsfb_palette nsfb = None"
    and loc: "x0 loc < x1 loc" "y0 loc < y1 loc" "0 < bs" and n: "0 \<le> tiles_x" "0 \<le> tiles_y"
    and tiles: "bitmap_tiles nsfb loc tiles_x tiles_y pixel (x1 loc - x0 loc) (y1 loc - y0 loc) bs has_alpha = (b, nsfb')"
  shows "b \<and> plots nsfb nsfb' \<and> paints nsfb (pixels (nsfb_clip nsfb) \<inter> pixels (tiled_area loc tiles_x tiles_y))
     (tile_pixel nsfb loc pixel bs has_alpha) (nsfb_vram nsfb) (nsfb_vram nsfb')"
proof -
  let ?w = "x1 loc - x0 loc" and ?h = "y1 loc - y0 loc"
  have area: "\<lparr>x0 = x0 loc, y0 = y0 loc, x1 = x0 loc + ?w * tiles_x, y1 = y0 loc + ?h * tiles_y\<rparr> = tiled_area loc tiles_x tiles_y"
    by (simp add: tiled_area_def)
  obtain vis r where q: "nsfb_plot_clip_ctx nsfb (tiled_area loc tiles_x tiles_y) = (vis, r)" by force
  have oka: "bbox_ok (tiled_area loc tiles_x tiles_y)" using loc n by (simp add: bbox_ok_def tiled_area_def)
  show ?thesis
  proof (cases vis)
    case False
    then have "pixels (nsfb_clip nsfb) \<inter> pixels (tiled_area loc tiles_x tiles_y) = {}"
      using visible_on_screen(1) [OF ok(1) q] oka by simp
    moreover have "b \<and> nsfb' = nsfb" using tiles False loc(1,2) unfolding bitmap_tiles_def Let_def area q by simp
    ultimately show ?thesis by simp
  next
    case True
    have clip: "nsfb_plot_clip (nsfb_clip nsfb) (tiled_area loc tiles_x tiles_y) = (True, r)"
      using q True by (simp add: nsfb_plot_clip_ctx_def)
    define s where "s = (if x0 r - x0 loc > ?w then cdiv (x0 r - x0 loc) ?w else 0)"
    have s: "s = (if x0 r - x0 loc > ?w then (x0 r - x0 loc) div ?w else 0)" using loc(1) by (simp add: s_def c_arith)
    then have s0: "0 \<le> s" using loc(1) by (simp add: pos_imp_zdiv_nonneg_iff)
    have "(x0 r - x0 loc) div ?w * ?w \<le> x0 r - x0 loc"
      using div_mult_mod_eq [of "x0 r - x0 loc" ?w] pos_mod_sign [of ?w "x0 r - x0 loc"] loc(1) by linarith
    then have sw: "x0 loc + s * ?w \<le> x0 r"
      unfolding s using clip_part(1) [OF oka clip] by (simp add: tiled_area_def)
    have left: "x0 r \<le> x0 (nsfb_clip nsfb)" if "0 < s"
    proof -
      have "x0 loc < x0 r" using that s loc(1) by (auto split: if_splits)
      moreover have "x0 r = clamp (x0 (nsfb_clip nsfb)) (x1 (nsfb_clip nsfb)) (x0 loc)"
        using clip_corner [OF oka clip] by (simp add: tiled_area_def)
      ultimately show ?thesis by (auto simp: clamp_def Let_def split: if_splits)
    qed
    have r: "x0 r \<le> x1 r"
      using nsfb_plot_clip_inside [OF _ clip] clip_on_screen [OF ok(1)] by (auto simp: inside_def)
    then have no_right: "\<not> x1 loc + s * ?w - x1 r > ?w" using sw by simp
    let ?res = "tile_rows (\<lambda>nsfb tloc. bitmap nsfb tloc pixel ?w ?h bs has_alpha) (tiles_x - s) tiles_y ?w ?h
      (x0 loc + s * ?w) (x1 loc + s * ?w) (tile_box loc s 0, True, nsfb)"
    have dither: "dither_begin d i nsfb = (False, nsfb)" for d i by (simp add: dither_begin_def ok(3))
    have start: "tile_start r loc ?w tiles_x = (s * ?w, tile_box loc s 0, tiles_x - s)"
    proof (cases "x0 r - x0 loc > ?w")
      case skip: True
      then have "cdiv (x0 r - x0 loc) ?w = s" by (simp add: s_def)
      with skip no_right show ?thesis by (simp add: tile_start_def tile_box_def shift_x_def shift_y_def Let_def)
    next
      case False
      then have "s = 0" by (simp add: s_def)
      with False no_right show ?thesis by (simp add: tile_start_def tile_box_def shift_x_def shift_y_def Let_def)
    qed
    have "(b, nsfb') = snd ?res"
      using tiles True loc(1,2) unfolding bitmap_tiles_def Let_def area q
      by (cases ?res) (simp add: dither start dither_end_def)
    have cover: "(\<Union>j\<in>{0..<tiles_y}. \<Union>i\<in>{0..<tiles_x - s}. pixels (nsfb_clip nsfb) \<inter> pixels (tile_box loc (s + i) j))
      = pixels (nsfb_clip nsfb) \<inter> pixels (tiled_area loc tiles_x tiles_y)"
      by (rule tiles_cover [OF loc(1,2) s0]) (use left sw in \<open>blast intro: order_trans\<close>)
    have "s * ?w \<le> tiles_x * ?w"
      using sw r clip_part(3) [OF oka clip] by (simp add: tiled_area_def mult.commute)
    then have "0 \<le> tiles_x - s" using loc(1) by simp
    from tile_rows_paints [where pixel = pixel and has_alpha = has_alpha and s = s, OF ok(1,2) loc this n(2) refl refl, unfolded cover] \<open>(b, nsfb') = snd ?res\<close>
    show ?thesis by (cases ?res) (simp add: tile_state_def)
  qed
qed

text \<open>A scaled bitmap leaves alone what lies outside its box; used to follow a tiled run.\<close>

definition untouched :: "nsfb \<Rightarrow> int \<Rightarrow> int \<Rightarrow> nsfb \<Rightarrow> bool" where
  "untouched nsfb x y nsfb' \<longleftrightarrow> plots nsfb nsfb' \<and> nsfb_vram nsfb' (get_xy_loc nsfb x y) = nsfb_vram nsfb (get_xy_loc nsfb x y)"

lemma untouched_refl [simp]: "untouched nsfb x y nsfb"
  by (simp add: untouched_def)

lemma bitmap_scaled_untouched:
  assumes ok: "clip_ok nsfb" "surface_ok nsfb" "(x, y) \<in> pixels (screen nsfb)" and u: "untouched nsfb x y nsfb1"
    and loc: "(x, y) \<notin> pixels loc" "x0 loc < x1 loc" "y0 loc < y1 loc" "0 \<le> bw" "0 \<le> bh"
  shows "untouched nsfb x y (snd (bitmap_scaled nsfb1 loc pixel bw bh bs has_alpha))"
proof -
  note keeps = plots_keeps [OF conjunct1 [OF u [unfolded untouched_def]]]
  have ok1: "clip_ok nsfb1" "surface_ok nsfb1" "(x, y) \<in> pixels (screen nsfb1)" using ok by (simp_all add: keeps)
  obtain b nsfb2 where b: "bitmap_scaled nsfb1 loc pixel bw bh bs has_alpha = (b, nsfb2)" by force
  obtain vis r where q: "nsfb_plot_clip_ctx nsfb1 loc = (vis, r)" by force
  note p = bitmap_scaled_paints [OF ok1(1,2) q loc(2-5) b]
  have "bbox_ok loc" using loc by (simp add: bbox_ok_def)
  then have "(x, y) \<notin> (if vis then pixels r else {})"
    unfolding visible_on_screen(1) [OF ok1(1) q] using loc(1) by simp
  with paints_screen [OF conjunct2 [OF conjunct2 [OF p]] ok1(2) visible_on_screen(2) [OF ok1(1) q] ok1(3)]
  show ?thesis
    using u p plots_trans by (auto simp: b untouched_def keeps simp del: mem_pixels)
qed

section \<open>Properties\<close>

text \<open>
  C6.  A background of unscaled tiles is seamless: on a screen without palette,
  every visible pixel of the area the tiles cover shows the bitmap repeated in both
  directions, although tiles left of the clipping rectangle are skipped, and no
  other pixel changes.
\<close>

theorem bitmap_tiles_exact:
  assumes "clip_ok nsfb" "surface_ok nsfb" "nsfb_palette nsfb = None"
    and "x0 loc < x1 loc" "y0 loc < y1 loc" "0 < bmp_stride" and "0 \<le> tiles_x" "0 \<le> tiles_y"
    and "bitmap_tiles nsfb loc tiles_x tiles_y pixel (x1 loc - x0 loc) (y1 loc - y0 loc) bmp_stride has_alpha = (b, nsfb')"
    and "(x, y) \<in> pixels (screen nsfb)"
  shows "b \<and> nsfb_vram nsfb' (get_xy_loc nsfb x y) =
      (if (x, y) \<in> pixels (nsfb_clip nsfb) \<inter> pixels (tiled_area loc tiles_x tiles_y)
       then mix_pixel nsfb has_alpha
         (pixel ((y - y0 loc) mod (y1 loc - y0 loc) * bmp_stride + (x - x0 loc) mod (x1 loc - x0 loc)))
         (nsfb_vram nsfb (get_xy_loc nsfb x y))
       else nsfb_vram nsfb (get_xy_loc nsfb x y))"
proof -
  note p = bitmap_tiles_paints [OF assms(1-9)]
  have "pixels (nsfb_clip nsfb) \<inter> pixels (tiled_area loc tiles_x tiles_y) \<subseteq> pixels (screen nsfb)"
    using clip_on_screen [OF assms(1)] by blast
  from paints_screen [OF conjunct2 [OF conjunct2 [OF p]] assms(2) this assms(10)] p
  show ?thesis unfolding tile_pixel_def by blast
qed

lemma bitmap_tiles_exact_witness:
  "let nsfb = surface_example 0;
       nsfb' = snd (bitmap_tiles nsfb \<lparr>x0 = -5, y0 = 0, x1 = -3, y1 = 2\<rparr> 4 2 (\<lambda>i. if i = 1 then 0xFFFFFF else 0) 2 2 2 False)
   in nsfb_vram nsfb' (get_xy_loc nsfb 2 2) = 0xFFFF \<and> nsfb_vram nsfb' (get_xy_loc nsfb 1 2) = 0"
proof -
  let ?n = "surface_example 0" and ?l = "\<lparr>x0 = -5, y0 = 0, x1 = -3, y1 = 2\<rparr>" and ?p = "\<lambda>i :: int. if i = 1 then 0xFFFFFF else (0 :: 32 word)"
  obtain b n' where f: "bitmap_tiles ?n ?l 4 2 ?p (x1 ?l - x0 ?l) (y1 ?l - y0 ?l) 2 False = (b, n')" by force
  have px: "mix_pixel n False 0xFFFFFF v = 0xFFFF" "mix_pixel n False 0 v = 0" for n v
    by (simp_all add: mix_pixel_def colour_to_pixel_def drop_bit_eq_div push_bit_eq_mult ucast_eq)
  have "nsfb_clip ?n = \<lparr>x0 = 0, y0 = 0, x1 = 4, y1 = 4\<rparr>" "nsfb_vram ?n = (\<lambda>_. 0)" "nsfb_palette ?n = None"
    "pixels (screen ?n) = pixels \<lparr>x0 = 0, y0 = 0, x1 = 4, y1 = 4\<rparr>"
    by (simp_all add: surface_example_def screen_def)
  with bitmap_tiles_exact [OF surface_example_ok _ _ _ _ _ _ f, of 2 2] bitmap_tiles_exact [OF surface_example_ok _ _ _ _ _ _ f, of 1 2]
  show ?thesis using f by (simp add: px tiled_area_def)
qed

text \<open>
  A background of scaled tiles can be left incomplete: when tiles are skipped
  on the left, every row after the first starts again at the unskipped column but
  draws only the reduced number of tiles, so a visible pixel of the tiled area stays
  black although the bitmap is white.
\<close>

theorem scaled_tiles_incomplete:
  "\<exists>nsfb loc x y. clip_ok nsfb \<and> surface_ok nsfb \<and> nsfb_palette nsfb = None
     \<and> (x, y) \<in> pixels (nsfb_clip nsfb) \<inter> pixels (tiled_area loc 4 2)
     \<and> nsfb_vram (snd (bitmap_tiles nsfb loc 4 2 (\<lambda>_. 0xFFFFFF) 1 1 1 False)) (get_xy_loc nsfb x y) = 0
     \<and> colour_to_pixel nsfb 0xFFFFFF \<noteq> 0"
proof -
  let ?n = "surface_example 0" and ?l = "\<lparr>x0 = -3, y0 = 0, x1 = -1, y1 = 2\<rparr>"
  let ?plot = "\<lambda>nsfb tloc. bitmap_scaled nsfb tloc (\<lambda>_. 0xFFFFFF) 1 1 1 False"
  have screen: "(3, 2) \<in> pixels (screen ?n)" by (simp add: surface_example_def screen_def)
  have plot: "\<exists>b nsfb2. ?plot nsfb1 loc = (b, nsfb2) \<and> untouched ?n 3 2 nsfb2"
    if "untouched ?n 3 2 nsfb1" "(3, 2) \<notin> pixels loc" "x0 loc < x1 loc" "y0 loc < y1 loc" for nsfb1 loc
    using bitmap_scaled_untouched [OF surface_example_ok screen that, of 1 1 "\<lambda>_. 0xFFFFFF" 1 False]
    by (cases "?plot nsfb1 loc") simp
  have row: "\<exists>tloc ok nsfb2. tile_row ?plot 3 2 (\<lparr>x0 = x, y0 = y, x1 = x + 2, y1 = y + 2\<rparr>, ok0, nsfb1) = (tloc, ok, nsfb2)
      \<and> y0 tloc = y \<and> y1 tloc = y + 2 \<and> untouched ?n 3 2 nsfb2"
    if u: "untouched ?n 3 2 nsfb1" and xy: "y = 0 \<or> x = -3" for nsfb1 x y ok0
  proof -
    obtain b2 n2 where 2: "?plot nsfb1 \<lparr>x0 = x, y0 = y, x1 = x + 2, y1 = y + 2\<rparr> = (b2, n2)" "untouched ?n 3 2 n2"
      using plot [OF u, of "\<lparr>x0 = x, y0 = y, x1 = x + 2, y1 = y + 2\<rparr>"] xy by auto
    obtain b3 n3 where 3: "?plot n2 \<lparr>x0 = x + 2, y0 = y, x1 = 4 + x, y1 = y + 2\<rparr> = (b3, n3)" "untouched ?n 3 2 n3"
      using plot [OF 2(2), of "\<lparr>x0 = x + 2, y0 = y, x1 = 4 + x, y1 = y + 2\<rparr>"] xy by auto
    obtain b4 n4 where 4: "?plot n3 \<lparr>x0 = 4 + x, y0 = y, x1 = 6 + x, y1 = y + 2\<rparr> = (b4, n4)" "untouched ?n 3 2 n4"
      using plot [OF 3(2), of "\<lparr>x0 = 4 + x, y0 = y, x1 = 6 + x, y1 = y + 2\<rparr>"] xy by auto
    show ?thesis
      by (simp add: tile_row_def for_int_step 2 3 4 shift_x_def)
  qed
  obtain t1 k1 n1 where 1: "tile_row ?plot 3 2 (\<lparr>x0 = -1, y0 = 0, x1 = 1, y1 = 2\<rparr>, True, ?n) = (t1, k1, n1)"
    "y0 t1 = 0" "y1 t1 = 2" "untouched ?n 3 2 n1"
    using row [OF untouched_refl, of 0 "-1" True] by auto
  obtain t2 k2 n2 where 2: "tile_row ?plot 3 2 (\<lparr>x0 = -3, y0 = 2, x1 = -1, y1 = 4\<rparr>, k1, n1) = (t2, k2, n2)"
    "untouched ?n 3 2 n2"
    using row [OF 1(4), of 2 "-3" k1] by auto
  have t1: "shift_y 2 (t1\<lparr>x0 := -3, x1 := -1\<rparr>) = \<lparr>x0 = -3, y0 = 2, x1 = -1, y1 = 4\<rparr>"
    using 1(2,3) by (simp add: shift_y_def)
  have clip: "nsfb_plot_clip_ctx ?n \<lparr>x0 = -3, y0 = 0, x1 = 5, y1 = 4\<rparr> = (True, \<lparr>x0 = 0, y0 = 0, x1 = 4, y1 = 4\<rparr>)"
    by (simp add: nsfb_plot_clip_ctx_def nsfb_plot_clip_eq bbox_order_def clamp_def surface_example_def)
  have start: "tile_start \<lparr>x0 = 0, y0 = 0, x1 = 4, y1 = 4\<rparr> ?l 2 4 = (2, \<lparr>x0 = -1, y0 = 0, x1 = 1, y1 = 2\<rparr>, 3)"
    by (simp add: tile_start_def c_arith shift_x_def Let_def)
  have dither: "dither_begin d i ?n = (False, ?n)" for d i by (simp add: dither_begin_def surface_example_def)
  have "snd (bitmap_tiles ?n ?l 4 2 (\<lambda>_. 0xFFFFFF) 1 1 1 False) = n2"
    by (simp add: bitmap_tiles_def clip start dither tile_rows_def for_int_step 1(1) t1 2(1) dither_end_def)
  moreover have "nsfb_vram n2 (get_xy_loc ?n 3 2) = 0" using 2(2) by (simp add: untouched_def surface_example_def)
  moreover have "colour_to_pixel ?n 0xFFFFFF \<noteq> 0"
    by (simp add: colour_to_pixel_def drop_bit_eq_div push_bit_eq_mult ucast_eq)
  moreover have "(3, 2) \<in> pixels (nsfb_clip ?n) \<inter> pixels (tiled_area ?l 4 2)" "nsfb_palette ?n = None"
    by (simp_all add: surface_example_def tiled_area_def)
  ultimately show ?thesis
    by (intro exI [of _ ?n] exI [of _ ?l] exI [of _ 3] exI [of _ 2]) simp
qed

end
