(* ===== verification/NS_Memory.thy ===== *)
theory NS_Memory
  imports NS_Prelude
begin

text \<open>
  Memory and strings as NetSurf's utilities see them.  Every allocation and every
  interned string reference is counted, so that leaks are visible: a function that
  allocates takes the memory state and returns it changed.  A C string is the list of
  its characters.
\<close>

section \<open>Memory\<close>

text \<open>
  \<open>hm_live\<close> counts the blocks and string references held.  Interning a string
  (libwapcaplet) and \<^verbatim>\<open>malloc\<close> both may fail.  The library's caseless comparison and
  its hash of a string are parameters.
\<close>

record hmem =
  hm_oracle :: heap
  hm_live :: int
  hm_isequal :: "string \<Rightarrow> string \<Rightarrow> bool"
  hm_hash :: "string \<Rightarrow> 32 word"

definition mem_alloc :: "hmem \<Rightarrow> bool \<times> hmem" where
  "mem_alloc m = (let (ok, h) = alloc (hm_oracle m)
     in (ok, m\<lparr>hm_oracle := h, hm_live := hm_live m + (if ok then 1 else 0)\<rparr>))"

definition mem_free :: "hmem \<Rightarrow> hmem" where
  "mem_free m = m\<lparr>hm_live := hm_live m - 1\<rparr>"

definition lwc_string_ref :: "hmem \<Rightarrow> hmem" where
  "lwc_string_ref m = m\<lparr>hm_live := hm_live m + 1\<rparr>"

definition lwc_string_unref :: "hmem \<Rightarrow> hmem" where
  "lwc_string_unref m = mem_free m"

text \<open>
  Comparison without regard to case may fail, since the library interns folded
  copies; then the source treats the strings as different.
\<close>

definition lwc_caseless_match :: "string \<Rightarrow> string \<Rightarrow> hmem \<Rightarrow> bool \<times> hmem" where
  "lwc_caseless_match a b m = (let (ok, h) = alloc (hm_oracle m)
     in (ok \<and> hm_isequal m a b, m\<lparr>hm_oracle := h\<rparr>))"

text \<open>What the library documents: the letters of ASCII are folded, nothing else.\<close>

definition ascii_lower :: "char \<Rightarrow> char" where
  "ascii_lower c = (let n = of_char c :: nat in if 65 \<le> n \<and> n \<le> 90 then char_of (n + 32) else c)"

definition isequal_documented :: "hmem \<Rightarrow> bool" where
  "isequal_documented m \<longleftrightarrow> (\<forall>a b. hm_isequal m a b \<longleftrightarrow> map ascii_lower a = map ascii_lower b)"

lemma isequal_documented_simps [simp]:
  "isequal_documented m \<Longrightarrow> hm_isequal m a b \<longleftrightarrow> map ascii_lower a = map ascii_lower b"
  "isequal_documented (m\<lparr>hm_live := n\<rparr>) = isequal_documented m"
  "isequal_documented (lwc_string_ref m) = isequal_documented m"
  "isequal_documented (lwc_string_unref m) = isequal_documented m"
  by (simp_all add: isequal_documented_def lwc_string_ref_def lwc_string_unref_def mem_free_def)

lemma mem_live [simp]:
  "mem_alloc m = (ok, m') \<Longrightarrow> hm_live m' = hm_live m + (if ok then 1 else 0)"
  "hm_live (mem_free m) = hm_live m - 1"
  "hm_live (lwc_string_ref m) = hm_live m + 1"
  "hm_live (lwc_string_unref m) = hm_live m - 1"
  "lwc_caseless_match a b m = (eq, m') \<Longrightarrow> hm_live m' = hm_live m"
  by (auto simp: mem_alloc_def mem_free_def lwc_string_ref_def lwc_string_unref_def lwc_caseless_match_def
      split: prod.splits)

text \<open>No memory error without a failing allocation.\<close>

definition mem_plenty :: "hmem \<Rightarrow> bool" where
  "mem_plenty m \<longleftrightarrow> hm_oracle m = []"

lemma mem_plenty_simps [simp]:
  "mem_plenty m \<Longrightarrow> mem_alloc m = (True, m\<lparr>hm_live := hm_live m + 1\<rparr>)"
  "mem_plenty (m\<lparr>hm_live := n\<rparr>) = mem_plenty m"
  "mem_plenty (mem_free m) = mem_plenty m" "mem_plenty (lwc_string_ref m) = mem_plenty m"
  "mem_plenty (lwc_string_unref m) = mem_plenty m"
  "mem_plenty m \<Longrightarrow> lwc_caseless_match a b m = (hm_isequal m a b, m)"
  by (simp_all add: mem_plenty_def mem_alloc_def mem_free_def lwc_string_ref_def lwc_string_unref_def
      lwc_caseless_match_def)

lemma alloc_plenty: "mem_plenty m \<Longrightarrow> mem_alloc m = (ok, m') \<Longrightarrow> ok \<and> mem_plenty m'"
  by auto

text \<open>Allocation by cases.\<close>

lemma mem_alloc_cases:
  obtains m' where "mem_alloc m = (True, m')" "hm_live m' = hm_live m + 1" "mem_plenty m \<Longrightarrow> mem_plenty m'"
  | m' where "mem_alloc m = (False, m')" "hm_live m' = hm_live m" "\<not> mem_plenty m"
proof (cases "mem_alloc m")
  case (Pair ok m')
  then show ?thesis using that mem_live(1) [OF Pair] alloc_plenty [OF _ Pair] by (cases ok) auto
qed

lemma live_eq [simp]: "hm_live m = n \<Longrightarrow> m\<lparr>hm_live := n\<rparr> = m"
  by auto

lemma hmem_eqI: "hm_live a = hm_live b \<Longrightarrow> hm_oracle a = hm_oracle b \<Longrightarrow> hm_isequal a = hm_isequal b \<Longrightarrow> hm_hash a = hm_hash b \<Longrightarrow> a = (b :: hmem)"
  by simp

lemma ref_unref [simp]: "lwc_string_unref (lwc_string_ref m) = m"
  by (simp add: lwc_string_unref_def lwc_string_ref_def mem_free_def)

text \<open>Memory for the concrete examples: allocations succeed, comparison as documented.\<close>

definition hmem_at :: "int \<Rightarrow> hmem" where
  "hmem_at n = \<lparr>hm_oracle = [], hm_live = n, hm_isequal = (\<lambda>a b. map ascii_lower a = map ascii_lower b),
     hm_hash = (\<lambda>s. of_nat (length s))\<rparr>"

lemma hmem_at_simps [simp]: "mem_plenty (hmem_at n)" "isequal_documented (hmem_at n)" "hm_live (hmem_at n) = n"
    "(hmem_at n)\<lparr>hm_live := k\<rparr> = hmem_at k"
  by (simp_all add: hmem_at_def mem_plenty_def isequal_documented_def)

section \<open>Strings\<close>

text \<open>The character a pointer into a string points to; the terminator ends the list.\<close>

definition peek :: "string \<Rightarrow> char" where
  "peek s = (case s of [] \<Rightarrow> CHR 0x00 | c # _ \<Rightarrow> c)"

lemma peek_simps [simp]: "peek [] = CHR 0x00" "peek (c # s) = c"
  by (simp_all add: peek_def)

end
