(* ===== verification/Http_Core.thy ===== *)
theory Http_Core
  imports NS_Memory "HOL-Library.Sublist"
begin

text \<open>
  Parsing of HTTP header values, the shared part (\<^verbatim>\<open>netsurf/utils/http/primitives.c\<close>,
  \<^verbatim>\<open>generics.c\<close>, \<^verbatim>\<open>parameter.c\<close>).  A header value is a NUL-terminated string, here the
  list of its characters; a pointer into it is the rest of the string.
\<close>

text \<open>What a parser gives: an error, or an item and the rest of the input.\<close>

type_synonym 'a http_result = "(nserror + 'a \<times> string) \<times> hmem"
type_synonym 'a http_parser = "string \<Rightarrow> hmem \<Rightarrow> 'a http_result"

section \<open>Primitives\<close>

definition http_skip_LWS :: "string \<Rightarrow> string" where
  "http_skip_LWS = dropWhile (\<lambda>c. c = CHR '' '' \<or> c = CHR 0x09)"

definition http_is_token_char :: "char \<Rightarrow> bool" where
  "http_is_token_char c =
     (if (of_char c :: nat) \<le> 32 \<or> 126 < (of_char c :: nat) then False
      else c \<notin> set ''()<>@,;:'' \<and> c \<noteq> CHR 0x5C \<and> c \<noteq> CHR 0x22 \<and> c \<notin> set ''/[]?={}'')"

definition http_parse_token :: "string http_parser" where
  "http_parse_token start m = (let
     token = takeWhile http_is_token_char start;
     end = dropWhile http_is_token_char start
   in if token = [] then (Inl NSERROR_NOT_FOUND, m)
      else let (ok, m) = mem_alloc m
        in if \<not> ok then (Inl NSERROR_NOMEM, m) else (Inr (token, end), m))"

definition http_is_qdtext :: "char \<Rightarrow> bool" where
  "http_is_qdtext c \<longleftrightarrow> c = CHR 0x09 \<or> c = CHR 0x0D \<or> c = CHR 0x0A \<or> c = CHR '' '' \<or> c = CHR ''!''
     \<or> (35 \<le> (of_char c :: nat) \<and> (of_char c :: nat) \<le> 126) \<or> (of_char c :: nat) > 127"

definition http_parse_quoted_string :: "string http_parser" where
  "http_parse_quoted_string start m =
     (if peek start \<noteq> CHR 0x22 then (Inl NSERROR_NOT_FOUND, m)
      else let start = tl start;
        text = takeWhile http_is_qdtext start;
        end = dropWhile http_is_qdtext start
      in if peek end \<noteq> CHR 0x22 then (Inl NSERROR_NOT_FOUND, m)
         else let (ok, m) = mem_alloc m
           in if \<not> ok then (Inl NSERROR_NOMEM, m) else (Inr (text, tl end), m))"

text \<open>The value of a parameter or directive.\<close>

definition http_parse_value :: "string http_parser" where
  "http_parse_value pos m =
     (if peek pos = CHR 0x22 then http_parse_quoted_string pos m else http_parse_token pos m)"

section \<open>Lists of items\<close>

text \<open>\<open>free\<close> is the destructor stored in the items.\<close>

fun http_item_list_destroy :: "('a \<Rightarrow> hmem \<Rightarrow> hmem) \<Rightarrow> 'a list \<Rightarrow> hmem \<Rightarrow> hmem" where
  "http_item_list_destroy free [] m = m"
| "http_item_list_destroy free (item # list) m = http_item_list_destroy free list (free item m)"

text \<open>
  The loop of \<^verbatim>\<open>http___item_list_parse\<close>.  Each round consumes the separator, so the
  length of the input bounds the rounds; \<open>item_loop_unfold\<close> below shows that this
  fuel is never exhausted.  Items are put in front of the list.
\<close>

fun item_loop ::
  "nat \<Rightarrow> char \<Rightarrow> 'a http_parser \<Rightarrow> string \<Rightarrow> 'a list \<Rightarrow> nserror \<Rightarrow> hmem \<Rightarrow> nserror \<times> string \<times> 'a list \<times> hmem" where
  "item_loop 0 separator itemparser pos list error m = (error, pos, list, m)"
| "item_loop (Suc n) separator itemparser pos list error m =
     (if peek pos \<noteq> separator then (error, pos, list, m)
      else let pos = http_skip_LWS (tl pos) in
        case itemparser pos m of
          (Inr (item, pos), m) \<Rightarrow> item_loop n separator itemparser (http_skip_LWS pos) (item # list) NSERROR_OK m
        | (Inl error, m) \<Rightarrow>
            if error \<noteq> NSERROR_NOT_FOUND then (error, pos, list, m)
            else item_loop n separator itemparser pos list error m)"

definition http_item_list_parse ::
  "('a \<Rightarrow> hmem \<Rightarrow> hmem) \<Rightarrow> 'a http_parser \<Rightarrow> 'a list \<Rightarrow> 'a list http_parser" where
  "http_item_list_parse free itemparser first input m = (let
     (error, pos, list, m) = item_loop (length input) (peek input) itemparser input first NSERROR_OK m
   in if error \<noteq> NSERROR_OK \<and> error \<noteq> NSERROR_NOT_FOUND
      then (Inl error, http_item_list_destroy free list m)
      else if list = [] then (Inl NSERROR_NOT_FOUND, m)
      else (Inr (list, pos), m))"

section \<open>Parameters\<close>

record http_parameter =
  param_name :: string
  param_value :: string

definition http_destroy_parameter :: "http_parameter \<Rightarrow> hmem \<Rightarrow> hmem" where
  "http_destroy_parameter self m = mem_free (lwc_string_unref (lwc_string_unref m))"

definition http_parse_parameter :: "http_parameter http_parser" where
  "http_parse_parameter pos m =
     (case http_parse_token pos m of
        (Inl error, m) \<Rightarrow> (Inl error, m)
      | (Inr (name, pos), m) \<Rightarrow> let pos = http_skip_LWS pos in
          if peek pos \<noteq> CHR ''='' then (Inl NSERROR_NOT_FOUND, lwc_string_unref m)
          else let pos = http_skip_LWS (tl pos) in
            case http_parse_value pos m of
              (Inl error, m) \<Rightarrow> (Inl error, lwc_string_unref m)
            | (Inr (val, pos), m) \<Rightarrow> let (ok, m) = mem_alloc m in
                if \<not> ok then (Inl NSERROR_NOMEM, lwc_string_unref (lwc_string_unref m))
                else (Inr (\<lparr>param_name = name, param_value = val\<rparr>, pos), m))"

fun http_parameter_list_find_item :: "http_parameter list \<Rightarrow> string \<Rightarrow> hmem \<Rightarrow> (nserror + string) \<times> hmem" where
  "http_parameter_list_find_item [] name m = (Inl NSERROR_NOT_FOUND, m)"
| "http_parameter_list_find_item (p # list) name m =
     (let (eq, m) = lwc_caseless_match name (param_name p) m
      in if eq then (Inr (param_value p), lwc_string_ref m) else http_parameter_list_find_item list name m)"

definition http_parameter_list_iterate ::
  "http_parameter list \<Rightarrow> hmem \<Rightarrow> (string \<times> string) option \<times> http_parameter list \<times> hmem" where
  "http_parameter_list_iterate cur m =
     (case cur of [] \<Rightarrow> (None, [], m)
      | p # next \<Rightarrow> (Some (param_name p, param_value p), next, lwc_string_ref (lwc_string_ref m)))"

definition http_parameter_list_destroy :: "http_parameter list \<Rightarrow> hmem \<Rightarrow> hmem" where
  "http_parameter_list_destroy = http_item_list_destroy http_destroy_parameter"

section \<open>Facts about the primitives\<close>

lemma dropWhile_suffix: "suffix (dropWhile P s) s"
  by (metis suffix_def takeWhile_dropWhile_id)

lemma http_skip_LWS_suffix: "suffix (http_skip_LWS s) s"
  by (simp add: http_skip_LWS_def dropWhile_suffix)

lemma http_skip_LWS_idem [simp]: "http_skip_LWS (http_skip_LWS s) = http_skip_LWS s"
  by (simp add: http_skip_LWS_def)

lemma tl_suffix: "suffix (tl s) s"
  by (cases s) (auto simp: suffix_def)

lemma suffix_steps:
  "strict_suffix b a \<Longrightarrow> suffix c b \<Longrightarrow> strict_suffix c a"
  "suffix b a \<Longrightarrow> strict_suffix c b \<Longrightarrow> strict_suffix c a"
  by (meson suffix_order.le_less_trans, meson suffix_order.less_le_trans)

section \<open>The contract of an item parser\<close>

text \<open>
  What the list parser relies on: an item parser consumes input when it succeeds,
  its errors are \<open>NSERROR_NOT_FOUND\<close> and \<open>NSERROR_NOMEM\<close>, an error leaves nothing
  allocated, an item holds \<open>cost\<close> references, and its destructor releases them.
\<close>

locale http_item =
  fixes parse :: "'a http_parser" and free :: "'a \<Rightarrow> hmem \<Rightarrow> hmem" and cost :: "'a \<Rightarrow> int"
  assumes parse_consumes: "parse s m = (Inr (x, r), m') \<Longrightarrow> strict_suffix r s"
    and parse_live: "parse s m = (Inr (x, r), m') \<Longrightarrow> hm_live m' = hm_live m + cost x"
    and parse_error: "parse s m = (Inl e, m') \<Longrightarrow> hm_live m' = hm_live m \<and> (e = NSERROR_NOT_FOUND \<or> e = NSERROR_NOMEM)"
    and parse_plenty: "mem_plenty m \<Longrightarrow> parse s m = (res, m') \<Longrightarrow> mem_plenty m' \<and> res \<noteq> Inl NSERROR_NOMEM"
    and free_live: "hm_live (free x m) = hm_live m - cost x"
    and free_plenty: "mem_plenty (free x m) = mem_plenty m"
begin

lemma destroy_live: "hm_live (http_item_list_destroy free list m) = hm_live m - sum_list (map cost list)"
  by (induction list arbitrary: m) (simp_all add: free_live)

lemma destroy_plenty: "mem_plenty (http_item_list_destroy free list m) = mem_plenty m"
  by (induction list arbitrary: m) (simp_all add: free_plenty)

lemma parse_shorter: "parse s m = (Inr (x, r), m') \<Longrightarrow> length r < length s"
  using parse_consumes by (metis suffix_length_less)

text \<open>Enough fuel is as good as any: the loop ends by itself.\<close>

lemma skip_shorter: "length (http_skip_LWS s) \<le> length s"
  using http_skip_LWS_suffix suffix_length_le by blast

lemma item_loop_fuel:
  assumes "length pos \<le> n" "length pos \<le> k" "separator \<noteq> CHR 0x00"
  shows "item_loop n separator parse pos list error m = item_loop k separator parse pos list error m"
  using assms
proof (induction n arbitrary: k pos list error m)
  case 0
  then show ?case by (cases k) simp_all
next
  case (Suc n)
  show ?case
  proof (cases "peek pos \<noteq> separator")
    case True
    then show ?thesis by (cases k) simp_all
  next
    case False
    with Suc.prems(3) obtain c s where pos: "pos = c # s" by (cases pos) auto
    with Suc.prems obtain k' where k: "k = Suc k'" "length s \<le> k'" "length s \<le> n" by (cases k) auto
    have skip: "length (http_skip_LWS s) \<le> length s" by (rule skip_shorter)
    obtain res m' where p: "parse (http_skip_LWS s) m = (res, m')" by force
    show ?thesis
    proof (cases res)
      case (Inl e)
      have "item_loop n separator parse (http_skip_LWS s) list e m' = item_loop k' separator parse (http_skip_LWS s) list e m'"
        by (rule Suc.IH) (use skip k Suc.prems in simp_all)
      then show ?thesis using False pos k p Inl by (cases "e = NSERROR_NOT_FOUND") (simp_all add: Let_def)
    next
      case (Inr xr)
      obtain x r where xr: "xr = (x, r)" by force
      have "length r \<le> length s" using parse_shorter p Inr xr skip by fastforce
      then have "item_loop n separator parse (http_skip_LWS r) (x # list) NSERROR_OK m'
          = item_loop k' separator parse (http_skip_LWS r) (x # list) NSERROR_OK m'"
        using k skip_shorter [of r] by (intro Suc.IH) (use Suc.prems in simp_all)
      then show ?thesis using False pos k p Inr xr by (simp add: Let_def)
    qed
  qed
qed

text \<open>So the loop satisfies the equation of the \<^verbatim>\<open>while\<close> loop it models.\<close>

lemma item_loop_unfold:
  assumes "separator \<noteq> CHR 0x00" "length pos \<le> n"
  shows "item_loop n separator parse pos list error m =
     (if peek pos \<noteq> separator then (error, pos, list, m)
      else let pos = http_skip_LWS (tl pos) in
        case parse pos m of
          (Inr (item, pos), m) \<Rightarrow> item_loop n separator parse (http_skip_LWS pos) (item # list) NSERROR_OK m
        | (Inl error, m) \<Rightarrow>
            if error \<noteq> NSERROR_NOT_FOUND then (error, pos, list, m)
            else item_loop n separator parse pos list error m)"
  using item_loop_fuel [OF assms(2) le_SucI [OF assms(2)] assms(1), of list error m] by simp

text \<open>What the loop leaves: where it stops, what it holds, and which errors it can end with.\<close>

definition loop_post :: "char \<Rightarrow> string \<Rightarrow> 'a list \<Rightarrow> hmem \<Rightarrow> nserror \<times> string \<times> 'a list \<times> hmem \<Rightarrow> bool" where
  "loop_post separator pos list m = (\<lambda>(error, pos', list', m').
     suffix pos' pos \<and> hm_live m' - sum_list (map cost list') = hm_live m - sum_list (map cost list)
     \<and> suffix list list' \<and> (error = NSERROR_OK \<or> error = NSERROR_NOT_FOUND \<or> error = NSERROR_NOMEM)
     \<and> (error \<noteq> NSERROR_NOMEM \<longrightarrow> peek pos' \<noteq> separator)
     \<and> (http_skip_LWS pos = pos \<longrightarrow> http_skip_LWS pos' = pos')
     \<and> (mem_plenty m \<longrightarrow> mem_plenty m' \<and> error \<noteq> NSERROR_NOMEM))"

lemma item_loop_post:
  assumes "length pos \<le> n" "separator \<noteq> CHR 0x00" "error = NSERROR_OK \<or> error = NSERROR_NOT_FOUND"
  shows "loop_post separator pos list m (item_loop n separator parse pos list error m)"
  using assms
proof (induction n arbitrary: pos list error m)
  case 0
  then show ?case by (auto simp: loop_post_def)
next
  case (Suc n)
  show ?case
  proof (cases "peek pos \<noteq> separator")
    case True
    then show ?thesis using Suc.prems by (auto simp: loop_post_def)
  next
    case False
    with Suc.prems(2) obtain c s where pos: "pos = c # s" by (cases pos) auto
    let ?s = "http_skip_LWS s"
    have skip: "suffix ?s pos" "length ?s \<le> n"
      using http_skip_LWS_suffix [of s] skip_shorter [of s] Suc.prems(1) pos by (auto simp: suffix_Cons)
    obtain res m' where p: "parse ?s m = (res, m')" by force
    show ?thesis
    proof (cases res)
      case (Inl e)
      note err = parse_error [OF p [unfolded Inl]]
      have plenty: "mem_plenty m \<longrightarrow> mem_plenty m' \<and> e \<noteq> NSERROR_NOMEM"
        using parse_plenty [OF _ p] Inl by auto
      show ?thesis
      proof (cases "e = NSERROR_NOT_FOUND")
        case True
        then have "loop_post separator ?s list m' (item_loop n separator parse ?s list e m')"
          using Suc.prems skip by (intro Suc.IH) simp_all
        then show ?thesis using False pos p Inl True err plenty skip(1)
          by (auto simp: loop_post_def Let_def intro: suffix_order.trans split: prod.splits)
      next
        case False
        then show ?thesis using \<open>\<not> peek pos \<noteq> separator\<close> pos p Inl err plenty skip(1)
          by (auto simp: loop_post_def Let_def)
      qed
    next
      case (Inr xr)
      obtain x r where xr: "xr = (x, r)" by force
      have r: "suffix (http_skip_LWS r) pos" "length (http_skip_LWS r) \<le> n"
      proof -
        have "strict_suffix r ?s" using parse_consumes p Inr xr by blast
        then have "suffix (http_skip_LWS r) ?s"
          using http_skip_LWS_suffix [of r] by (meson suffix_order.less_imp_le suffix_order.trans)
        then show "suffix (http_skip_LWS r) pos" "length (http_skip_LWS r) \<le> n"
          using skip suffix_length_le [of "http_skip_LWS r" ?s] by (auto intro: suffix_order.trans)
      qed
      have "loop_post separator (http_skip_LWS r) (x # list) m'
          (item_loop n separator parse (http_skip_LWS r) (x # list) NSERROR_OK m')"
        using Suc.prems r by (intro Suc.IH) simp_all
      moreover have "hm_live m' = hm_live m + cost x" "mem_plenty m \<longrightarrow> mem_plenty m'"
        using parse_live parse_plenty p Inr xr by auto
      ultimately show ?thesis using False pos p Inr xr r(1)
        by (auto simp: loop_post_def Let_def intro: suffix_order.trans dest: suffix_ConsD split: prod.splits)
    qed
  qed
qed

text \<open>The list parser, from the item laws alone.\<close>

lemma list_parse_ok:
  assumes "http_item_list_parse free parse first s m = (Inr (list, r), m')" "peek s \<noteq> CHR 0x00"
  shows "suffix r s \<and> list \<noteq> [] \<and> suffix first list \<and> peek r \<noteq> peek s
    \<and> (http_skip_LWS s = s \<longrightarrow> http_skip_LWS r = r)
    \<and> hm_live m' = hm_live m + sum_list (map cost list) - sum_list (map cost first)
    \<and> (mem_plenty m \<longrightarrow> mem_plenty m')"
proof -
  obtain error pos list' m1 where l: "item_loop (length s) (peek s) parse s first NSERROR_OK m = (error, pos, list', m1)"
    using prod_cases4 by blast
  then show ?thesis
    using item_loop_post [of s "length s" "peek s" NSERROR_OK first m] assms
    by (auto simp: http_item_list_parse_def loop_post_def split: if_splits)
qed

lemma list_parse_error:
  assumes "http_item_list_parse free parse first s m = (Inl e, m')" "peek s \<noteq> CHR 0x00"
  shows "hm_live m' = hm_live m - sum_list (map cost first)
    \<and> (e = NSERROR_NOT_FOUND \<and> first = [] \<or> e = NSERROR_NOMEM)
    \<and> (mem_plenty m \<longrightarrow> mem_plenty m' \<and> e \<noteq> NSERROR_NOMEM)"
proof -
  obtain error pos list' m1 where l: "item_loop (length s) (peek s) parse s first NSERROR_OK m = (error, pos, list', m1)"
    using prod_cases4 by blast
  then show ?thesis
    using item_loop_post [of s "length s" "peek s" NSERROR_OK first m] assms
    by (auto simp: http_item_list_parse_def loop_post_def destroy_live destroy_plenty split: if_splits)
qed

end

text \<open>The laws about parsing in one predicate, to establish them for one call at a time.\<close>

definition parse_post :: "('a \<Rightarrow> int) \<Rightarrow> string \<Rightarrow> hmem \<Rightarrow> 'a http_result \<Rightarrow> bool" where
  "parse_post cost s m = (\<lambda>(res, m').
     (case res of Inr (x, r) \<Rightarrow> strict_suffix r s \<and> hm_live m' = hm_live m + cost x
      | Inl e \<Rightarrow> hm_live m' = hm_live m \<and> (e = NSERROR_NOT_FOUND \<or> e = NSERROR_NOMEM))
     \<and> (mem_plenty m \<longrightarrow> mem_plenty m' \<and> res \<noteq> Inl NSERROR_NOMEM))"

lemma parse_post_simps [simp]:
  "parse_post cost s m (Inr (x, r), m') \<longleftrightarrow>
     strict_suffix r s \<and> hm_live m' = hm_live m + cost x \<and> (mem_plenty m \<longrightarrow> mem_plenty m')"
  "parse_post cost s m (Inl e, m') \<longleftrightarrow> hm_live m' = hm_live m \<and> (e = NSERROR_NOT_FOUND \<or> e = NSERROR_NOMEM)
     \<and> (mem_plenty m \<longrightarrow> mem_plenty m' \<and> e \<noteq> NSERROR_NOMEM)"
  by (auto simp: parse_post_def)

lemma http_itemI:
  assumes post: "\<And>s m. parse_post cost s m (parse s m)"
    and "\<And>x m. hm_live (free x m) = hm_live m - cost x" "\<And>x m. mem_plenty (free x m) = mem_plenty m"
  shows "http_item parse free cost"
proof
  show "strict_suffix r s" "hm_live m' = hm_live m + cost x" if "parse s m = (Inr (x, r), m')" for s m x r m'
    using post [of s m] that by simp_all
  show "hm_live m' = hm_live m \<and> (e = NSERROR_NOT_FOUND \<or> e = NSERROR_NOMEM)" if "parse s m = (Inl e, m')" for s m e m'
    using post [of s m] that by simp
  show "mem_plenty m' \<and> res \<noteq> Inl NSERROR_NOMEM" if "mem_plenty m" "parse s m = (res, m')" for s m res m'
    using post [of s m] that by (simp add: parse_post_def)
qed (rule assms)+

context http_item
begin

lemma parse_post: "parse_post cost s m (parse s m)"
proof -
  obtain res m' where p: "parse s m = (res, m')" by force
  show ?thesis
  proof (cases res)
    case (Inl e)
    then show ?thesis using parse_error [OF p [unfolded Inl]] parse_plenty [OF _ p] p by auto
  next
    case (Inr xr)
    obtain x r where "xr = (x, r)" by force
    then show ?thesis
      using parse_consumes [of s m x r m'] parse_live [of s m x r m'] parse_plenty [OF _ p] p Inr by auto
  qed
qed

end

section \<open>The parsers that keep the contract\<close>

lemma dropWhile_consumes: "takeWhile P s \<noteq> [] \<Longrightarrow> strict_suffix (dropWhile P s) s"
  by (metis append_self_conv2 dropWhile_suffix strict_suffix_def takeWhile_dropWhile_id)

interpretation token: http_item http_parse_token "\<lambda>_. lwc_string_unref" "\<lambda>_. 1"
proof (rule http_itemI)
  show "parse_post (\<lambda>_. 1) s m (http_parse_token s m)" for s m
    using dropWhile_consumes [of http_is_token_char s] alloc_plenty [of m]
    by (cases "mem_alloc m") (auto simp: http_parse_token_def Let_def)
qed simp_all

interpretation quoted: http_item http_parse_quoted_string "\<lambda>_. lwc_string_unref" "\<lambda>_. 1"
proof (rule http_itemI)
  fix s m
  show "parse_post (\<lambda>_. 1) s m (http_parse_quoted_string s m)"
  proof (cases s)
    case (Cons c t)
    have "suffix (tl (dropWhile http_is_qdtext t)) t"
      using dropWhile_suffix tl_suffix suffix_order.trans by blast
    moreover have "strict_suffix t s" using Cons by (auto simp: strict_suffix_def suffix_def)
    ultimately have "strict_suffix (tl (dropWhile http_is_qdtext t)) s" by (simp add: suffix_steps(1))
    with Cons show ?thesis using alloc_plenty [of m]
      by (cases "mem_alloc m") (auto simp: http_parse_quoted_string_def Let_def)
  qed (simp add: http_parse_quoted_string_def)
qed simp_all

interpretation param_value: http_item http_parse_value "\<lambda>_. lwc_string_unref" "\<lambda>_. 1"
  by (rule http_itemI) (simp_all add: http_parse_value_def quoted.parse_post token.parse_post)

lemma suffix_skip: "suffix (http_skip_LWS (tl (http_skip_LWS s))) s" "suffix (http_skip_LWS s) s"
  using http_skip_LWS_suffix tl_suffix by (meson suffix_order.trans)+

interpretation parameter: http_item http_parse_parameter http_destroy_parameter "\<lambda>_. 3"
proof (rule http_itemI)
  fix s m
  obtain res m1 where name: "http_parse_token s m = (res, m1)" by force
  note post1 = token.parse_post [of s m, unfolded name]
  show "parse_post (\<lambda>_. 3) s m (http_parse_parameter s m)"
  proof (cases res)
    case (Inl e)
    with name post1 show ?thesis by (simp add: http_parse_parameter_def)
  next
    case (Inr nr)
    obtain n r where nr: "nr = (n, r)" by force
    let ?v = "http_skip_LWS (tl (http_skip_LWS r))"
    obtain res2 m2 where v: "http_parse_value ?v m1 = (res2, m2)" by force
    note post2 = param_value.parse_post [of ?v m1, unfolded v]
    have v_sub: "strict_suffix x s" if "strict_suffix x ?v" for x
      using that post1 suffix_skip(1) [of r] Inr nr by (auto intro: suffix_steps suffix_order.less_imp_le)
    obtain ok m3 where a: "mem_alloc m2 = (ok, m3)" by force
    show ?thesis
      using name v a post1 post2 v_sub alloc_plenty [OF _ a] mem_live(1) [OF a]
      by (cases res2) (auto simp: http_parse_parameter_def Inr nr Let_def)
  qed
qed (simp_all add: http_destroy_parameter_def)

section \<open>Printing and parsing back\<close>

definition token_string :: "string \<Rightarrow> bool" where
  "token_string s \<longleftrightarrow> s \<noteq> [] \<and> (\<forall>c\<in>set s. http_is_token_char c)"

definition quoted_text :: "string \<Rightarrow> bool" where
  "quoted_text s \<longleftrightarrow> (\<forall>c\<in>set s. http_is_qdtext c)"

lemma special_not_token [simp]:
  "\<not> http_is_token_char CHR 0x00" "\<not> http_is_token_char CHR '',''" "\<not> http_is_token_char CHR '';''"
  "\<not> http_is_token_char CHR ''=''" "\<not> http_is_token_char CHR ''/''" "\<not> http_is_token_char CHR 0x22"
  "\<not> http_is_token_char CHR '' ''" "\<not> http_is_token_char CHR 0x09"
  by (simp_all add: http_is_token_char_def)

lemma quote_not_qdtext [simp]: "\<not> http_is_qdtext CHR 0x22"
  by (simp add: http_is_qdtext_def)

lemma takeWhile_run: "\<forall>c\<in>set s. P c \<Longrightarrow> \<not> P (peek rest) \<Longrightarrow> takeWhile P (s @ rest) = s \<and> dropWhile P (s @ rest) = rest"
  by (cases rest) (auto simp: takeWhile_append2)

lemma http_parse_token_print:
  assumes "token_string s" "\<not> http_is_token_char (peek rest)" "mem_plenty m"
  shows "http_parse_token (s @ rest) m = (Inr (s, rest), m\<lparr>hm_live := hm_live m + 1\<rparr>)"
  using takeWhile_run [of s http_is_token_char rest] assms
  by (simp add: http_parse_token_def token_string_def)

definition quote :: "string \<Rightarrow> string" where
  "quote s = CHR 0x22 # s @ [CHR 0x22]"

lemma http_parse_quoted_print:
  assumes "quoted_text s" "mem_plenty m"
  shows "http_parse_quoted_string (quote s @ rest) m = (Inr (s, rest), m\<lparr>hm_live := hm_live m + 1\<rparr>)"
  using takeWhile_run [of s http_is_qdtext "CHR 0x22 # rest"] assms
  by (simp add: http_parse_quoted_string_def quoted_text_def quote_def)

lemma http_parse_value_print:
  assumes "quoted_text s" "mem_plenty m"
  shows "http_parse_value (quote s @ rest) m = (Inr (s, rest), m\<lparr>hm_live := hm_live m + 1\<rparr>)"
  using http_parse_quoted_print [OF assms, of rest] by (simp add: http_parse_value_def quote_def)

lemma http_skip_LWS_none [simp]: "peek s \<noteq> CHR '' '' \<Longrightarrow> peek s \<noteq> CHR 0x09 \<Longrightarrow> http_skip_LWS s = s"
  by (cases s) (simp_all add: http_skip_LWS_def)

lemma token_peek: "token_string s \<Longrightarrow> http_is_token_char (peek (s @ rest))"
  by (cases s) (simp_all add: token_string_def)

lemma token_not_LWS: "http_is_token_char c \<Longrightarrow> c \<noteq> CHR '' '' \<and> c \<noteq> CHR 0x09 \<and> c \<noteq> CHR 0x00"
  by (auto simp: special_not_token)

text \<open>A printer for items that the item parser reads back, up to a separator.\<close>

definition item_end :: "string \<Rightarrow> bool" where
  "item_end rest \<longleftrightarrow> peek rest = CHR 0x00 \<or> peek rest = CHR '','' \<or> peek rest = CHR '';''"

text \<open>Items, each behind a separator.\<close>

definition print_items :: "('a \<Rightarrow> string) \<Rightarrow> char \<Rightarrow> 'a list \<Rightarrow> string" where
  "print_items print separator xs = concat (map (\<lambda>x. separator # print x) xs)"

locale http_printer = http_item parse free cost
  for parse :: "'a http_parser" and free :: "'a \<Rightarrow> hmem \<Rightarrow> hmem" and cost :: "'a \<Rightarrow> int" +
  fixes print :: "'a \<Rightarrow> string" and valid :: "'a \<Rightarrow> bool"
  assumes parse_print: "valid x \<Longrightarrow> item_end rest \<Longrightarrow> mem_plenty m \<Longrightarrow>
      parse (print x @ rest) m = (Inr (x, rest), m\<lparr>hm_live := hm_live m + cost x\<rparr>)"
    and print_start: "valid x \<Longrightarrow> peek (print x @ rest) \<noteq> CHR '' '' \<and> peek (print x @ rest) \<noteq> CHR 0x09"
begin

lemma item_loop_print:
  assumes sep: "separator = CHR '','' \<or> separator = CHR '';''" and "\<forall>x\<in>set xs. valid x" "mem_plenty m"
    and "length (print_items print separator xs) \<le> n"
  shows "item_loop n separator parse (print_items print separator xs) list NSERROR_OK m
    = (NSERROR_OK, [], rev xs @ list, m\<lparr>hm_live := hm_live m + sum_list (map cost xs)\<rparr>)"
  using assms(2-)
proof (induction xs arbitrary: n list m)
  case Nil
  with sep show ?case by (cases n) (auto simp: print_items_def)
next
  case (Cons x xs)
  from Cons.prems(3) obtain k where n: "n = Suc k" "length (print_items print separator xs) \<le> k"
    by (cases n) (auto simp: print_items_def)
  have ends: "item_end (print_items print separator xs)" using sep by (cases xs) (auto simp: print_items_def item_end_def)
  then have rest: "http_skip_LWS (print_items print separator xs) = print_items print separator xs"
    by (auto simp: item_end_def)
  have p: "parse (print x @ print_items print separator xs) m
      = (Inr (x, print_items print separator xs), m\<lparr>hm_live := hm_live m + cost x\<rparr>)"
    using Cons.prems by (intro parse_print ends) simp_all
  have pl: "print_items print separator (x # xs) = separator # print x @ print_items print separator xs" by (simp add: print_items_def)
  show ?case
    unfolding pl n(1) using Cons.prems Cons.IH [of "m\<lparr>hm_live := hm_live m + cost x\<rparr>" k "x # list"] n(2)
    by (simp add: Let_def p rest print_start add.assoc)
qed

lemma list_parse_print:
  assumes "separator = CHR '','' \<or> separator = CHR '';''" "\<forall>x\<in>set xs. valid x" "mem_plenty m" "xs \<noteq> []"
  shows "http_item_list_parse free parse first (print_items print separator xs) m
    = (Inr (rev xs @ first, []), m\<lparr>hm_live := hm_live m + sum_list (map cost xs)\<rparr>)"
proof -
  have "peek (print_items print separator xs) = separator" using assms(4) by (cases xs) (simp_all add: print_items_def)
  then show ?thesis
    using item_loop_print [OF assms(1-3), of "length (print_items print separator xs)" first] assms(4)
    by (simp add: http_item_list_parse_def)
qed

end

definition print_parameter :: "http_parameter \<Rightarrow> string" where
  "print_parameter p = param_name p @ CHR ''='' # quote (param_value p)"

definition valid_parameter :: "http_parameter \<Rightarrow> bool" where
  "valid_parameter p \<longleftrightarrow> token_string (param_name p) \<and> quoted_text (param_value p)"

interpretation printed_parameter: http_printer http_parse_parameter http_destroy_parameter "\<lambda>_. 3"
  print_parameter valid_parameter
proof unfold_locales
  fix x rest m assume v: "valid_parameter x" and m: "mem_plenty m"
  have name: "http_parse_token (param_name x @ (CHR ''='' # quote (param_value x) @ rest)) m
      = (Inr (param_name x, CHR ''='' # quote (param_value x) @ rest), m\<lparr>hm_live := hm_live m + 1\<rparr>)"
    using v m by (intro http_parse_token_print) (simp_all add: valid_parameter_def)
  have skip: "http_skip_LWS (quote (param_value x) @ rest) = quote (param_value x) @ rest"
    by (simp add: quote_def)
  show "http_parse_parameter (print_parameter x @ rest) m = (Inr (x, rest), m\<lparr>hm_live := hm_live m + 3\<rparr>)"
    using v m name skip by (simp add: http_parse_parameter_def print_parameter_def Let_def http_parse_value_print valid_parameter_def)
next
  fix x rest assume "valid_parameter x"
  then show "peek (print_parameter x @ rest) \<noteq> CHR '' '' \<and> peek (print_parameter x @ rest) \<noteq> CHR 0x09"
    using token_not_LWS token_peek [of "param_name x" "CHR ''='' # quote (param_value x) @ rest"]
    by (auto simp: valid_parameter_def print_parameter_def)
qed

end
