(* ===== verification/Http_Headers.thy ===== *)
theory Http_Headers
  imports Http_Core
begin

text \<open>
  The header parsers of \<^verbatim>\<open>netsurf/utils/http\<close>: \<^verbatim>\<open>content-type.c\<close>, \<^verbatim>\<open>content-disposition.c\<close>,
  \<^verbatim>\<open>challenge.c\<close> with \<^verbatim>\<open>www-authenticate.c\<close>, and the directive parsers of
  \<^verbatim>\<open>cache-control.c\<close> and \<^verbatim>\<open>strict-transport-security.c\<close>, which share their static
  functions.
\<close>

section \<open>Content-Type\<close>

text \<open>The optional parameters of the first two headers: a list that holds no item is no error.\<close>

definition http_optional_parameters :: "string \<Rightarrow> hmem \<Rightarrow> (nserror + http_parameter list) \<times> hmem" where
  "http_optional_parameters pos m =
     (if peek pos = CHR '';'' then
        case http_item_list_parse http_destroy_parameter http_parse_parameter [] pos m of
          (Inl error, m) \<Rightarrow> if error \<noteq> NSERROR_NOT_FOUND then (Inl error, m) else (Inr [], m)
        | (Inr (params, pos), m) \<Rightarrow> (Inr params, m)
      else (Inr [], m))"

record http_content_type =
  media_type :: string
  ct_parameters :: "http_parameter list"

definition http_content_type_build ::
  "string \<Rightarrow> string \<Rightarrow> http_parameter list \<Rightarrow> hmem \<Rightarrow> (nserror + http_content_type) \<times> hmem" where
  "http_content_type_build type subtype params m = (let (ok, m) = mem_alloc m in
     if \<not> ok then (Inl NSERROR_NOMEM, lwc_string_unref (lwc_string_unref (http_parameter_list_destroy params m)))
     else let mime = type @ ''/'' @ subtype;
       m = lwc_string_unref (lwc_string_unref m);
       (ok, m) = mem_alloc m in
     if \<not> ok then (Inl NSERROR_NOMEM, mem_free (http_parameter_list_destroy params m))
     else let m = mem_free m; (ok, m) = mem_alloc m in
     if \<not> ok then (Inl NSERROR_NOMEM, http_parameter_list_destroy params (lwc_string_unref m))
     else (Inr \<lparr>media_type = mime, ct_parameters = params\<rparr>, m))"

definition http_parse_content_type :: "string \<Rightarrow> hmem \<Rightarrow> (nserror + http_content_type) \<times> hmem" where
  "http_parse_content_type header_value m =
     (case http_parse_token (http_skip_LWS header_value) m of
        (Inl error, m) \<Rightarrow> (Inl error, m)
      | (Inr (type, pos), m) \<Rightarrow> let pos = http_skip_LWS pos in
          if peek pos \<noteq> CHR ''/'' then (Inl NSERROR_NOT_FOUND, lwc_string_unref m)
          else case http_parse_token (http_skip_LWS (tl pos)) m of
            (Inl error, m) \<Rightarrow> (Inl error, lwc_string_unref m)
          | (Inr (subtype, pos), m) \<Rightarrow>
              case http_optional_parameters (http_skip_LWS pos) m of
                (Inl error, m) \<Rightarrow> (Inl error, lwc_string_unref (lwc_string_unref m))
              | (Inr params, m) \<Rightarrow> http_content_type_build type subtype params m)"

definition http_content_type_destroy :: "http_content_type \<Rightarrow> hmem \<Rightarrow> hmem" where
  "http_content_type_destroy victim m =
     mem_free (http_parameter_list_destroy (ct_parameters victim) (lwc_string_unref m))"

section \<open>Content-Disposition\<close>

record http_content_disposition =
  disposition_type :: string
  cd_parameters :: "http_parameter list"

definition http_parse_content_disposition :: "string \<Rightarrow> hmem \<Rightarrow> (nserror + http_content_disposition) \<times> hmem" where
  "http_parse_content_disposition header_value m =
     (case http_parse_token (http_skip_LWS header_value) m of
        (Inl error, m) \<Rightarrow> (Inl error, m)
      | (Inr (mtype, pos), m) \<Rightarrow>
          case http_optional_parameters (http_skip_LWS pos) m of
            (Inl error, m) \<Rightarrow> (Inl error, lwc_string_unref m)
          | (Inr params, m) \<Rightarrow> let (ok, m) = mem_alloc m in
              if \<not> ok then (Inl NSERROR_NOMEM, lwc_string_unref (http_parameter_list_destroy params m))
              else (Inr \<lparr>disposition_type = mtype, cd_parameters = params\<rparr>, m))"

definition http_content_disposition_destroy :: "http_content_disposition \<Rightarrow> hmem \<Rightarrow> hmem" where
  "http_content_disposition_destroy victim m =
     mem_free (http_parameter_list_destroy (cd_parameters victim) (lwc_string_unref m))"

section \<open>Challenges\<close>

record http_challenge =
  challenge_scheme :: string
  challenge_params :: "http_parameter list"

definition http_destroy_challenge :: "http_challenge \<Rightarrow> hmem \<Rightarrow> hmem" where
  "http_destroy_challenge self m =
     mem_free (http_parameter_list_destroy (challenge_params self) (lwc_string_unref m))"

text \<open>
  After a comma the parameters are parsed on, the first one handed over; the list
  then is not empty, so \<open>NSERROR_NOT_FOUND\<close> cannot come back.
\<close>

definition http_parse_challenge :: "http_challenge http_parser" where
  "http_parse_challenge pos m =
     (case http_parse_token pos m of
        (Inl error, m) \<Rightarrow> (Inl error, m)
      | (Inr (scheme, pos), m) \<Rightarrow>
          if peek pos \<noteq> CHR '' '' \<and> peek pos \<noteq> CHR 0x09 then (Inl NSERROR_NOT_FOUND, lwc_string_unref m)
          else case http_parse_parameter (http_skip_LWS pos) m of
            (Inl error, m) \<Rightarrow> (Inl error, lwc_string_unref m)
          | (Inr (first, pos), m) \<Rightarrow> let
              pos = http_skip_LWS pos;
              (res, m) = (if peek pos = CHR '','' then
                 http_item_list_parse http_destroy_parameter http_parse_parameter [first] pos m
               else (Inr ([first], pos), m))
            in case res of
              Inl error \<Rightarrow>
                if error \<noteq> NSERROR_NOT_FOUND then (Inl error, lwc_string_unref m)
                else (let (ok, m) = mem_alloc m in
                  if \<not> ok then (Inl NSERROR_NOMEM, lwc_string_unref m)
                  else (Inr (\<lparr>challenge_scheme = scheme, challenge_params = []\<rparr>, pos), m))
            | Inr (params, pos) \<Rightarrow> let (ok, m) = mem_alloc m in
                if \<not> ok then (Inl NSERROR_NOMEM, lwc_string_unref (http_parameter_list_destroy params m))
                else (Inr (\<lparr>challenge_scheme = scheme, challenge_params = params\<rparr>, pos), m))"

definition http_challenge_list_destroy :: "http_challenge list \<Rightarrow> hmem \<Rightarrow> hmem" where
  "http_challenge_list_destroy = http_item_list_destroy http_destroy_challenge"

definition http_challenge_list_iterate ::
  "http_challenge list \<Rightarrow> hmem \<Rightarrow> (string \<times> http_parameter list) option \<times> http_challenge list \<times> hmem" where
  "http_challenge_list_iterate cur m =
     (case cur of [] \<Rightarrow> (None, [], m)
      | c # next \<Rightarrow> (Some (challenge_scheme c, challenge_params c), next, lwc_string_ref m))"

definition http_parse_www_authenticate :: "string \<Rightarrow> hmem \<Rightarrow> (nserror + http_challenge list) \<times> hmem" where
  "http_parse_www_authenticate header_value m =
     (case http_parse_challenge (http_skip_LWS header_value) m of
        (Inl error, m) \<Rightarrow> (Inl error, m)
      | (Inr (first, pos), m) \<Rightarrow> let
          pos = http_skip_LWS pos;
          (res, m) = (if peek pos = CHR '','' then
             (case http_item_list_parse http_destroy_challenge http_parse_challenge [first] pos m of
                (Inl error, m) \<Rightarrow> (if error \<noteq> NSERROR_NOT_FOUND then Inl error else Inr [], m)
              | (Inr (challenges, pos), m) \<Rightarrow> (Inr challenges, m))
           else (Inr [first], m))
        in case res of
          Inl error \<Rightarrow> (Inl error, m)
        | Inr challenges \<Rightarrow> let (ok, m) = mem_alloc m in
            if \<not> ok then (Inl NSERROR_NOMEM, http_challenge_list_destroy challenges m)
            else (Inr challenges, m))"

definition http_www_authenticate_destroy :: "http_challenge list \<Rightarrow> hmem \<Rightarrow> hmem" where
  "http_www_authenticate_destroy victim m = mem_free (http_challenge_list_destroy victim m)"

section \<open>Directives\<close>

record http_directive =
  dir_name :: string
  dir_value :: "string option"

definition http_destroy_directive :: "http_directive \<Rightarrow> hmem \<Rightarrow> hmem" where
  "http_destroy_directive self m = (let m = lwc_string_unref m;
     m = (if dir_value self \<noteq> None then lwc_string_unref m else m) in mem_free m)"

definition http_parse_directive :: "http_directive http_parser" where
  "http_parse_directive pos m =
     (case http_parse_token pos m of
        (Inl error, m) \<Rightarrow> (Inl error, m)
      | (Inr (name, pos), m) \<Rightarrow> let
          pos = http_skip_LWS pos;
          (res, m) = (if peek pos = CHR ''='' then
             (case http_parse_value (http_skip_LWS (tl pos)) m of
                (Inl error, m) \<Rightarrow> (Inl error, lwc_string_unref m)
              | (Inr (val, pos), m) \<Rightarrow> (Inr (Some val, pos), m))
           else (Inr (None, pos), m))
        in case res of
          Inl error \<Rightarrow> (Inl error, m)
        | Inr (val, pos) \<Rightarrow> let (ok, m) = mem_alloc m in
            if \<not> ok then (Inl NSERROR_NOMEM,
              lwc_string_unref (if val \<noteq> None then lwc_string_unref m else m))
            else (Inr (\<lparr>dir_name = name, dir_value = val\<rparr>, pos), m))"

definition http_directive_list_destroy :: "http_directive list \<Rightarrow> hmem \<Rightarrow> hmem" where
  "http_directive_list_destroy = http_item_list_destroy http_destroy_directive"

fun http_directive_list_find_item ::
  "http_directive list \<Rightarrow> string \<Rightarrow> hmem \<Rightarrow> (nserror + string option) \<times> hmem" where
  "http_directive_list_find_item [] name m = (Inl NSERROR_NOT_FOUND, m)"
| "http_directive_list_find_item (d # list) name m =
     (let (eq, m) = lwc_caseless_match name (dir_name d) m
      in if eq then (Inr (dir_value d), if dir_value d \<noteq> None then lwc_string_ref m else m)
         else http_directive_list_find_item list name m)"

definition http_directive_list_iterate ::
  "http_directive list \<Rightarrow> hmem \<Rightarrow> (string \<times> string option) option \<times> http_directive list \<times> hmem" where
  "http_directive_list_iterate cur m =
     (case cur of [] \<Rightarrow> (None, [], m)
      | d # next \<Rightarrow> (Some (dir_name d, dir_value d), next,
          (let m = lwc_string_ref m in if dir_value d \<noteq> None then lwc_string_ref m else m)))"

fun directive_count :: "http_directive list \<Rightarrow> string \<Rightarrow> 32 word \<Rightarrow> hmem \<Rightarrow> 32 word \<times> hmem" where
  "directive_count [] key n m = (n, m)"
| "directive_count (d # list) key n m =
     (let (eq, m) = lwc_caseless_match key (dir_name d) m
      in directive_count list key (if eq then n + 1 else n) m)"

text \<open>The \<^verbatim>\<open>do\<close> loop; \<open>keys\<close> is the rest of the list.\<close>

fun check_duplicates_loop :: "http_directive list \<Rightarrow> http_directive list \<Rightarrow> bool \<Rightarrow> hmem \<Rightarrow> bool \<times> hmem" where
  "check_duplicates_loop directives [] result m = (result, m)"
| "check_duplicates_loop directives (k # keys) result m = (let
     m = lwc_string_ref m;
     m = (if dir_value k \<noteq> None then lwc_string_ref m else m);
     (n, m) = directive_count directives (dir_name k) 0 m;
     result = (result \<and> n = 1);
     m = lwc_string_unref m;
     m = (if dir_value k \<noteq> None then lwc_string_unref m else m)
   in check_duplicates_loop directives keys result m)"

definition check_duplicates :: "http_directive list \<Rightarrow> hmem \<Rightarrow> bool \<times> hmem" where
  "check_duplicates directives m = check_duplicates_loop directives directives True m"

fun parse_digits :: "string \<Rightarrow> 32 word \<Rightarrow> nserror + 32 word" where
  "parse_digits [] val = Inr val"
| "parse_digits (c # pos) val =
     (if 48 \<le> (of_char c :: nat) \<and> (of_char c :: nat) \<le> 57 then
        let nv = val * 10 + of_nat (of_char c - 48) in
        parse_digits pos (if nv < val then 0xFFFFFFFF else nv)
      else Inl NSERROR_NOT_FOUND)"

definition parse_max_age :: "string \<Rightarrow> nserror + 32 word" where
  "parse_max_age val = (if val = [] then Inl NSERROR_NOT_FOUND else parse_digits val 0)"

text \<open>The common start of the two headers: the directives, each at most once.\<close>

definition http_parse_directives :: "char \<Rightarrow> string \<Rightarrow> hmem \<Rightarrow> (nserror + http_directive list) \<times> hmem" where
  "http_parse_directives separator header_value m =
     (case http_parse_directive (http_skip_LWS header_value) m of
        (Inl error, m) \<Rightarrow> (Inl error, m)
      | (Inr (first, pos), m) \<Rightarrow> let
          pos = http_skip_LWS pos;
          (res, m) = (if peek pos = separator then
             (case http_item_list_parse http_destroy_directive http_parse_directive [first] pos m of
                (Inl error, m) \<Rightarrow> (Inl error, m) | (Inr (directives, pos), m) \<Rightarrow> (Inr directives, m))
           else (Inr [first], m))
        in case res of
          Inl error \<Rightarrow> (Inl error, m)
        | Inr directives \<Rightarrow> let (unique, m) = check_duplicates directives m in
            if \<not> unique then (Inl NSERROR_NOT_FOUND, http_directive_list_destroy directives m)
            else (Inr directives, m))"

section \<open>Cache-Control\<close>

record http_cache_control =
  cc_max_age :: "32 word"
  cc_max_age_valid :: bool
  cc_no_cache :: bool
  cc_no_store :: bool

definition cache_control_max_age :: "http_directive list \<Rightarrow> hmem \<Rightarrow> 32 word \<times> bool \<times> hmem" where
  "cache_control_max_age directives m =
     (case http_directive_list_find_item directives ''max-age'' m of
        (Inr (Some value_str), m) \<Rightarrow>
          (case parse_max_age value_str of
             Inr max_age \<Rightarrow> (max_age, True, lwc_string_unref m) | Inl error \<Rightarrow> (0, False, lwc_string_unref m))
      | (_, m) \<Rightarrow> (0, False, m))"

definition directive_present :: "http_directive list \<Rightarrow> string \<Rightarrow> hmem \<Rightarrow> bool \<times> hmem" where
  "directive_present directives name m =
     (case http_directive_list_find_item directives name m of
        (Inr value_str, m) \<Rightarrow> (True, if value_str \<noteq> None then lwc_string_unref m else m)
      | (Inl error, m) \<Rightarrow> (False, m))"

definition http_parse_cache_control :: "string \<Rightarrow> hmem \<Rightarrow> (nserror + http_cache_control) \<times> hmem" where
  "http_parse_cache_control header_value m =
     (case http_parse_directives (CHR '','') header_value m of
        (Inl error, m) \<Rightarrow> (Inl error, m)
      | (Inr directives, m) \<Rightarrow> let
          (max_age, max_age_valid, m) = cache_control_max_age directives m;
          (no_cache, m) = directive_present directives ''no-cache'' m;
          (no_store, m) = directive_present directives ''no-store'' m;
          m = http_directive_list_destroy directives m;
          (ok, m) = mem_alloc m
        in if \<not> ok then (Inl NSERROR_NOMEM, m)
           else (Inr \<lparr>cc_max_age = max_age, cc_max_age_valid = max_age_valid, cc_no_cache = no_cache,
             cc_no_store = no_store\<rparr>, m))"

definition http_cache_control_destroy :: "http_cache_control \<Rightarrow> hmem \<Rightarrow> hmem" where
  "http_cache_control_destroy victim m = mem_free m"

section \<open>Strict-Transport-Security\<close>

record http_strict_transport_security =
  sts_max_age :: "32 word"
  sts_include_sub_domains :: bool

definition sts_required_max_age :: "http_directive list \<Rightarrow> hmem \<Rightarrow> (nserror + 32 word) \<times> hmem" where
  "sts_required_max_age directives m =
     (case http_directive_list_find_item directives ''max-age'' m of
        (Inr (Some max_age_str), m) \<Rightarrow>
          (case parse_max_age max_age_str of
             Inl error \<Rightarrow> (Inl NSERROR_NOT_FOUND, http_directive_list_destroy directives (lwc_string_unref m))
           | Inr max_age \<Rightarrow> (Inr max_age, lwc_string_unref m))
      | (_, m) \<Rightarrow> (Inl NSERROR_NOT_FOUND, http_directive_list_destroy directives m))"

definition http_parse_strict_transport_security ::
  "string \<Rightarrow> hmem \<Rightarrow> (nserror + http_strict_transport_security) \<times> hmem" where
  "http_parse_strict_transport_security header_value m =
     (case http_parse_directives (CHR '';'') header_value m of
        (Inl error, m) \<Rightarrow> (Inl error, m)
      | (Inr directives, m) \<Rightarrow>
          case sts_required_max_age directives m of
            (Inl error, m) \<Rightarrow> (Inl error, m)
          | (Inr max_age, m) \<Rightarrow>
              case http_directive_list_find_item directives ''includesubdomains'' m of
                (Inr (Some isd_str), m) \<Rightarrow>
                  (Inl NSERROR_NOT_FOUND, http_directive_list_destroy directives (lwc_string_unref m))
              | (isd, m) \<Rightarrow> let
                  m = http_directive_list_destroy directives m;
                  (ok, m) = mem_alloc m
                in if \<not> ok then (Inl NSERROR_NOMEM, m)
                   else (Inr \<lparr>sts_max_age = max_age, sts_include_sub_domains = (isd = Inr None)\<rparr>, m))"

definition http_strict_transport_security_destroy :: "http_strict_transport_security \<Rightarrow> hmem \<Rightarrow> hmem" where
  "http_strict_transport_security_destroy victim m = mem_free m"

section \<open>What the parts hold\<close>

abbreviation parameters_cost :: "http_parameter list \<Rightarrow> int" where
  "parameters_cost ps \<equiv> 3 * int (length ps)"

lemma sum_const: "sum_list (map (\<lambda>_. k) xs) = k * int (length xs)"
  by (induction xs) (simp_all add: distrib_left)

lemma parameters_destroy [simp]:
  "hm_live (http_parameter_list_destroy ps m) = hm_live m - parameters_cost ps"
  "mem_plenty (http_parameter_list_destroy ps m) = mem_plenty m"
  by (simp_all add: http_parameter_list_destroy_def parameter.destroy_live parameter.destroy_plenty sum_const)

text \<open>The memory a header parser leaves: \<open>cost\<close> more references on success, none on errors.\<close>

definition header_post :: "('a \<Rightarrow> int) \<Rightarrow> hmem \<Rightarrow> (nserror + 'a) \<times> hmem \<Rightarrow> bool" where
  "header_post cost m = (\<lambda>(res, m').
     hm_live m' = hm_live m + (case res of Inl _ \<Rightarrow> 0 | Inr x \<Rightarrow> cost x)
     \<and> (mem_plenty m \<longrightarrow> mem_plenty m' \<and> res \<noteq> Inl NSERROR_NOMEM))"

lemma header_post_simps [simp]:
  "header_post cost m (Inr x, m') \<longleftrightarrow> hm_live m' = hm_live m + cost x \<and> (mem_plenty m \<longrightarrow> mem_plenty m')"
  "header_post cost m (Inl e, m') \<longleftrightarrow>
     hm_live m' = hm_live m \<and> (mem_plenty m \<longrightarrow> mem_plenty m' \<and> e \<noteq> NSERROR_NOMEM)"
  by (auto simp: header_post_def)

lemma optional_parameters_post: "header_post parameters_cost m (http_optional_parameters pos m)"
proof (cases "peek pos = CHR '';''")
  case True
  then have sep: "peek pos \<noteq> CHR 0x00" by simp
  obtain res m' where p: "http_item_list_parse http_destroy_parameter http_parse_parameter [] pos m = (res, m')" by force
  show ?thesis
  proof (cases res)
    case (Inl e)
    with True p parameter.list_parse_error [OF p [unfolded Inl] sep] show ?thesis
      by (cases "e = NSERROR_NOT_FOUND") (auto simp: http_optional_parameters_def)
  next
    case (Inr lr)
    obtain l r where "lr = (l, r)" by force
    with True p Inr parameter.list_parse_ok [of "[]" pos m l r m', OF _ sep] show ?thesis
      by (simp add: http_optional_parameters_def sum_const)
  qed
qed (simp add: http_optional_parameters_def)

lemma content_type_build_post:
  "header_post (\<lambda>ct. 2 + parameters_cost (ct_parameters ct)) (m\<lparr>hm_live := hm_live m - 2 - parameters_cost params\<rparr>)
     (http_content_type_build type subtype params m)"
proof (cases rule: mem_alloc_cases [of m])
  case (1 m1)
  let ?m = "lwc_string_unref (lwc_string_unref m1)"
  note m1 = 1
  show ?thesis
  proof (cases rule: mem_alloc_cases [of ?m])
    case (1 m2)
    note m2 = 1
    show ?thesis using m1 m2
      by (cases rule: mem_alloc_cases [of "mem_free m2"]) (auto simp: http_content_type_build_def Let_def)
  next
    case (2 m2)
    then show ?thesis using m1 by (auto simp: http_content_type_build_def Let_def)
  qed
next
  case (2 m1)
  then show ?thesis by (auto simp: http_content_type_build_def Let_def)
qed

lemma parse_token_cases:
  obtains e m' where "http_parse_token s m = (Inl e, m')" "hm_live m' = hm_live m" "mem_plenty m \<Longrightarrow> mem_plenty m' \<and> e \<noteq> NSERROR_NOMEM"
  | t r m' where "http_parse_token s m = (Inr (t, r), m')" "hm_live m' = hm_live m + 1" "mem_plenty m \<Longrightarrow> mem_plenty m'"
proof (cases "http_parse_token s m")
  case (Pair res m')
  then show ?thesis using that token.parse_post [of s m] by (cases res) auto
qed

lemma content_type_post:
  "header_post (\<lambda>ct. 2 + parameters_cost (ct_parameters ct)) m (http_parse_content_type header_value m)"
proof (cases rule: parse_token_cases [of "http_skip_LWS header_value" m])
  case (1 e m1)
  then show ?thesis by (simp add: http_parse_content_type_def)
next
  case (2 type r m1)
  note type = 2
  let ?r = "http_skip_LWS (tl (http_skip_LWS r))"
  show ?thesis
  proof (cases rule: parse_token_cases [of ?r m1])
    case (1 e m2)
    with type show ?thesis by (auto simp: http_parse_content_type_def Let_def)
  next
    case (2 subtype r2 m2)
    obtain res m3 where o: "http_optional_parameters (http_skip_LWS r2) m2 = (res, m3)" by force
    note post = optional_parameters_post [of m2 "http_skip_LWS r2", unfolded o]
    show ?thesis
    proof (cases res)
      case (Inl e)
      with type 2 o post show ?thesis by (auto simp: http_parse_content_type_def Let_def)
    next
      case (Inr params)
      obtain res4 m4 where b: "http_content_type_build type subtype params m3 = (res4, m4)" by force
      show ?thesis
        using type 2 o post Inr b content_type_build_post [of m3 params type subtype]
        by (cases res4) (auto simp: http_parse_content_type_def Let_def)
    qed
  qed
qed

lemma content_disposition_post:
  "header_post (\<lambda>cd. 2 + parameters_cost (cd_parameters cd)) m (http_parse_content_disposition header_value m)"
proof (cases rule: parse_token_cases [of "http_skip_LWS header_value" m])
  case (1 e m1)
  then show ?thesis by (simp add: http_parse_content_disposition_def)
next
  case (2 mtype r m1)
  obtain res m2 where o: "http_optional_parameters (http_skip_LWS r) m1 = (res, m2)" by force
  note post = optional_parameters_post [of m1 "http_skip_LWS r", unfolded o]
  show ?thesis
  proof (cases res)
    case (Inl e)
    with 2 o post show ?thesis by (auto simp: http_parse_content_disposition_def)
  next
    case (Inr params)
    with 2 o post show ?thesis
      by (cases rule: mem_alloc_cases [of m2]) (auto simp: http_parse_content_disposition_def)
  qed
qed

abbreviation challenge_cost :: "http_challenge \<Rightarrow> int" where
  "challenge_cost c \<equiv> 2 + parameters_cost (challenge_params c)"

text \<open>After a challenge the input is never at a comma: the parameter list has consumed them all.\<close>

lemma challenge_post:
  "parse_post challenge_cost s m (http_parse_challenge s m)
   \<and> (\<forall>c r m'. http_parse_challenge s m = (Inr (c, r), m') \<longrightarrow> peek (http_skip_LWS r) \<noteq> CHR '','')"
proof (cases rule: parse_token_cases [of s m])
  case (1 e m1)
  then show ?thesis using token.parse_error [OF 1(1)] by (simp add: http_parse_challenge_def)
next
  case (2 scheme r m1)
  note scheme = 2
  have sr: "strict_suffix r s" using token.parse_consumes 2(1) by blast
  obtain res m2 where p: "http_parse_parameter (http_skip_LWS r) m1 = (res, m2)" by force
  note post = parameter.parse_post [of "http_skip_LWS r" m1, unfolded p]
  show ?thesis
  proof (cases "peek r \<noteq> CHR '' '' \<and> peek r \<noteq> CHR 0x09")
    case True
    with scheme show ?thesis by (simp add: http_parse_challenge_def)
  next
    case lws: False
    show ?thesis
    proof (cases res)
      case (Inl e)
      with scheme lws p post show ?thesis by (auto simp: http_parse_challenge_def)
    next
      case (Inr fr)
      obtain first r2 where f: "res = Inr (first, r2)" using Inr by (cases fr) auto
      have r2: "strict_suffix r2 s" using post f sr http_skip_LWS_suffix [of r]
        by (auto intro: suffix_steps suffix_order.less_imp_le suffix_order.trans)
      let ?r = "http_skip_LWS r2"
      have r2': "strict_suffix ?r s" using r2 http_skip_LWS_suffix suffix_steps(1) by blast
      show ?thesis
      proof (cases "peek ?r = CHR '',''")
        case comma: True
        then have sep: "peek ?r \<noteq> CHR 0x00" by simp
        obtain res3 m3 where l: "http_item_list_parse http_destroy_parameter http_parse_parameter [first] ?r m2 = (res3, m3)" by force
        show ?thesis
        proof (cases res3)
          case (Inl e)
          with scheme lws p post f comma l parameter.list_parse_error [OF l [unfolded Inl] sep] show ?thesis
            by (auto simp: http_parse_challenge_def Let_def)
        next
          case (Inr lr)
          obtain params r4 where pr: "res3 = Inr (params, r4)" using Inr by (cases lr) auto
          note ok = parameter.list_parse_ok [OF l [unfolded pr] sep]
          have r4: "strict_suffix r4 s" using ok r2' suffix_steps(1) by blast
          have no_comma: "peek (http_skip_LWS r4) \<noteq> CHR '',''" using ok comma by simp
          show ?thesis
            using scheme lws p post f comma l pr ok r4 no_comma
            by (cases rule: mem_alloc_cases [of m3]) (auto simp: http_parse_challenge_def Let_def sum_const)
        qed
      next
        case False
        then show ?thesis
          using scheme lws p post f r2'
          by (cases rule: mem_alloc_cases [of m2]) (auto simp: http_parse_challenge_def Let_def)
      qed
    qed
  qed
qed

interpretation challenge: http_item http_parse_challenge http_destroy_challenge challenge_cost
  by (rule http_itemI) (simp_all add: challenge_post http_destroy_challenge_def)

lemma www_authenticate_cases:
  assumes "http_parse_www_authenticate header_value m = (res, m')"
  obtains e m1 where "http_parse_challenge (http_skip_LWS header_value) m = (Inl e, m1)" "res = Inl e" "m' = m1"
  | c r m1 where "http_parse_challenge (http_skip_LWS header_value) m = (Inr (c, r), m1)"
      "(\<exists>m2. mem_alloc m1 = (False, m2) \<and> res = Inl NSERROR_NOMEM \<and> m' = http_challenge_list_destroy [c] m2)
       \<or> mem_alloc m1 = (True, m') \<and> res = Inr [c]"
proof -
  obtain res1 m1 where c: "http_parse_challenge (http_skip_LWS header_value) m = (res1, m1)" by force
  show ?thesis
  proof (cases res1)
    case (Inl e)
    with c assms that(1) show ?thesis by (simp add: http_parse_www_authenticate_def)
  next
    case (Inr cr)
    obtain ch r where cr: "res1 = Inr (ch, r)" using Inr by (cases cr) auto
    then have "peek (http_skip_LWS r) \<noteq> CHR '',''" using challenge_post c by blast
    with c cr assms that(2) show ?thesis
      by (cases "mem_alloc m1") (auto simp: http_parse_www_authenticate_def Let_def split: if_splits)
  qed
qed

lemma www_authenticate_post:
  "header_post (\<lambda>cs. 1 + sum_list (map challenge_cost cs)) m (http_parse_www_authenticate header_value m)"
proof -
  obtain res m' where p: "http_parse_www_authenticate header_value m = (res, m')" by force
  show ?thesis
  proof (cases rule: www_authenticate_cases [OF p])
    case (1 e m1)
    then show ?thesis
      using challenge.parse_post [of "http_skip_LWS header_value" m] unfolding p by auto
  next
    case (2 c r m1)
    have "hm_live m1 = hm_live m + challenge_cost c \<and> (mem_plenty m \<longrightarrow> mem_plenty m1)"
      using challenge.parse_post [of "http_skip_LWS header_value" m] unfolding 2(1) by simp
    with 2(2) show ?thesis
      unfolding p by (cases rule: mem_alloc_cases [of m1])
        (auto simp: http_challenge_list_destroy_def challenge.destroy_live http_destroy_challenge_def)
  qed
qed

section \<open>Directives\<close>

definition directive_cost :: "http_directive \<Rightarrow> int" where
  "directive_cost d = 2 + (if dir_value d \<noteq> None then 1 else 0)"

interpretation directive: http_item http_parse_directive http_destroy_directive directive_cost
proof (rule http_itemI)
  fix s m
  show "parse_post directive_cost s m (http_parse_directive s m)"
  proof (cases rule: parse_token_cases [of s m])
    case (1 e m1)
    then show ?thesis using token.parse_error [OF 1(1)] by (simp add: http_parse_directive_def)
  next
    case (2 name r m1)
    have sr: "strict_suffix r s" using token.parse_consumes 2(1) by blast
    show ?thesis
    proof (cases "peek (http_skip_LWS r) = CHR ''=''")
      case True
      let ?v = "http_skip_LWS (tl (http_skip_LWS r))"
      obtain res m2 where v: "http_parse_value ?v m1 = (res, m2)" by force
      note post = param_value.parse_post [of ?v m1, unfolded v]
      have v_sub: "strict_suffix x s" if "strict_suffix x ?v" for x
        using that sr suffix_skip(1) [of r] by (auto intro: suffix_steps suffix_order.less_imp_le)
      show ?thesis
      proof (cases res)
        case (Inl e)
        with 2 True v post show ?thesis by (auto simp: http_parse_directive_def Let_def)
      next
        case (Inr vr)
        obtain val r' where vr: "res = Inr (val, r')" using Inr by (cases vr) auto
        show ?thesis
          using 2 True v vr post v_sub
          by (cases rule: mem_alloc_cases [of m2]) (auto simp: http_parse_directive_def Let_def directive_cost_def)
      qed
    next
      case False
      have "strict_suffix (http_skip_LWS r) s" using sr http_skip_LWS_suffix suffix_steps(1) by blast
      with 2 False show ?thesis
        by (cases rule: mem_alloc_cases [of m1]) (auto simp: http_parse_directive_def Let_def directive_cost_def)
    qed
  qed
qed (simp_all add: http_destroy_directive_def directive_cost_def Let_def)

abbreviation directives_cost :: "http_directive list \<Rightarrow> int" where
  "directives_cost ds \<equiv> sum_list (map directive_cost ds)"

lemma directives_destroy [simp]:
  "hm_live (http_directive_list_destroy ds m) = hm_live m - directives_cost ds"
  "mem_plenty (http_directive_list_destroy ds m) = mem_plenty m"
  by (simp_all add: http_directive_list_destroy_def directive.destroy_live directive.destroy_plenty)

lemma caseless_keeps:
  "lwc_caseless_match a b m = (eq, m') \<Longrightarrow> hm_live m' = hm_live m \<and> (mem_plenty m \<longrightarrow> mem_plenty m')"
  using mem_live(5) by auto

lemma find_item_live:
  "http_directive_list_find_item ds name m = (res, m') \<Longrightarrow>
     hm_live m' = hm_live m + (case res of Inr (Some _) \<Rightarrow> 1 | _ \<Rightarrow> 0) \<and> (mem_plenty m \<longrightarrow> mem_plenty m')
     \<and> (\<forall>e. res = Inl e \<longrightarrow> e = NSERROR_NOT_FOUND)"
proof (induction ds arbitrary: m)
  case (Cons d ds)
  obtain eq m1 where eq: "lwc_caseless_match name (dir_name d) m = (eq, m1)" by force
  note keeps = caseless_keeps [OF eq]
  show ?case
  proof (cases eq)
    case True
    then show ?thesis using Cons.prems eq keeps by (cases "dir_value d") auto
  next
    case False
    then have "http_directive_list_find_item ds name m1 = (res, m')" using Cons.prems eq by simp
    from Cons.IH [OF this] keeps show ?thesis by simp
  qed
qed auto

lemma count_live:
  "directive_count ds key n m = (k, m') \<Longrightarrow> hm_live m' = hm_live m \<and> (mem_plenty m \<longrightarrow> mem_plenty m')"
proof (induction ds arbitrary: n m)
  case (Cons d ds)
  obtain eq m1 where eq: "lwc_caseless_match key (dir_name d) m = (eq, m1)" by force
  then have "directive_count ds key (if eq then n + 1 else n) m1 = (k, m')" using Cons.prems by simp
  from Cons.IH [OF this] caseless_keeps [OF eq] show ?case by simp
qed simp

lemma duplicates_loop_live:
  "check_duplicates_loop ds keys result m = (u, m') \<Longrightarrow> hm_live m' = hm_live m \<and> (mem_plenty m \<longrightarrow> mem_plenty m')"
proof (induction keys arbitrary: result m)
  case (Cons k keys)
  let ?m = "if dir_value k \<noteq> None then lwc_string_ref (lwc_string_ref m) else lwc_string_ref m"
  obtain n m1 where n: "directive_count ds (dir_name k) 0 ?m = (n, m1)" by force
  show ?case
  proof (cases "dir_value k")
    case None
    then have "check_duplicates_loop ds keys (result \<and> n = 1) (lwc_string_unref m1) = (u, m')"
      using Cons.prems n by (simp add: Let_def)
    from Cons.IH [OF this] count_live [OF n] None show ?thesis by simp
  next
    case (Some v)
    then have "check_duplicates_loop ds keys (result \<and> n = 1) (lwc_string_unref (lwc_string_unref m1)) = (u, m')"
      using Cons.prems n by (simp add: Let_def)
    from Cons.IH [OF this] count_live [OF n] Some show ?thesis by simp
  qed
qed simp

lemma parse_directives_post: 
  assumes "separator = CHR '','' \<or> separator = CHR '';''"
  shows "header_post directives_cost m (http_parse_directives separator header_value m)"
proof -
  obtain res m1 where d: "http_parse_directive (http_skip_LWS header_value) m = (res, m1)" by force
  note post = directive.parse_post [of "http_skip_LWS header_value" m, unfolded d]
  show ?thesis
  proof (cases res)
    case (Inl e)
    with d post show ?thesis by (simp add: http_parse_directives_def)
  next
    case (Inr fr)
    obtain first r where f: "res = Inr (first, r)" using Inr by (cases fr) auto
    obtain lres m2 where l: "(if peek (http_skip_LWS r) = separator then
             (case http_item_list_parse http_destroy_directive http_parse_directive [first] (http_skip_LWS r) m1 of
                (Inl error, m) \<Rightarrow> (Inl error, m) | (Inr (directives, pos), m) \<Rightarrow> (Inr directives, m))
           else (Inr [first], m1)) = (lres, m2)" by force
    have lpost: "header_post directives_cost m (lres, m2)"
    proof (cases "peek (http_skip_LWS r) = separator")
      case True
      then have sep: "peek (http_skip_LWS r) \<noteq> CHR 0x00" using assms by auto
      obtain res3 m3 where p: "http_item_list_parse http_destroy_directive http_parse_directive [first] (http_skip_LWS r) m1 = (res3, m3)"
        by force
      show ?thesis
      proof (cases res3)
        case (Inl e)
        with True l p f post directive.list_parse_error [OF p [unfolded Inl] sep] show ?thesis by auto
      next
        case (Inr dr)
        obtain ds r3 where dr: "res3 = Inr (ds, r3)" using Inr by (cases dr) auto
        with True l p f post directive.list_parse_ok [OF p [unfolded dr] sep] show ?thesis by auto
      qed
    next
      case False
      with l f post show ?thesis by auto
    qed
    show ?thesis
    proof (cases lres)
      case (Inl e)
      with d f l lpost show ?thesis by (simp add: http_parse_directives_def Let_def)
    next
      case (Inr ds)
      obtain u m3 where u: "check_duplicates ds m2 = (u, m3)" by force
      with duplicates_loop_live have "hm_live m3 = hm_live m2 \<and> (mem_plenty m2 \<longrightarrow> mem_plenty m3)"
        unfolding check_duplicates_def by blast
      with d f l lpost Inr u show ?thesis by (cases u) (auto simp: http_parse_directives_def Let_def)
    qed
  qed
qed

lemma cache_control_post: "header_post (\<lambda>_. 1) m (http_parse_cache_control header_value m)"
proof -
  obtain res m1 where d: "http_parse_directives (CHR '','') header_value m = (res, m1)" by force
  note post = parse_directives_post [of "CHR '',''" m header_value, unfolded d, simplified]
  show ?thesis
  proof (cases res)
    case (Inl e)
    with d post show ?thesis by (simp add: http_parse_cache_control_def)
  next
    case (Inr ds)
    obtain a valid m2 where a: "cache_control_max_age ds m1 = (a, valid, m2)" using prod_cases3 by blast
    obtain nc m3 where nc: "directive_present ds ''no-cache'' m2 = (nc, m3)" by force
    obtain ns m4 where ns: "directive_present ds ''no-store'' m3 = (ns, m4)" by force
    have present: "hm_live m' = hm_live m \<and> (mem_plenty m \<longrightarrow> mem_plenty m')"
      if "directive_present ds name m = (b, m')" for name m b m'
      using that find_item_live [of ds name m]
      by (cases "http_directive_list_find_item ds name m")
        (auto simp: directive_present_def split: sum.splits option.splits if_splits)
    have "hm_live m2 = hm_live m1 \<and> (mem_plenty m1 \<longrightarrow> mem_plenty m2)"
      using a find_item_live [of ds "''max-age''" m1]
      by (cases "http_directive_list_find_item ds ''max-age'' m1")
        (auto simp: cache_control_max_age_def split: sum.splits option.splits)
    moreover note present [OF nc] present [OF ns]
    ultimately show ?thesis using d Inr post a nc ns
      by (cases rule: mem_alloc_cases [of "http_directive_list_destroy ds m4"])
        (auto simp: http_parse_cache_control_def Let_def)
  qed
qed

lemma strict_transport_security_post: "header_post (\<lambda>_. 1) m (http_parse_strict_transport_security header_value m)"
proof -
  obtain res m1 where d: "http_parse_directives (CHR '';'') header_value m = (res, m1)" by force
  note post = parse_directives_post [of "CHR '';''" m header_value, unfolded d, simplified]
  show ?thesis
  proof (cases res)
    case (Inl e)
    with d post show ?thesis by (simp add: http_parse_strict_transport_security_def)
  next
    case (Inr ds)
    obtain ares m2 where a: "sts_required_max_age ds m1 = (ares, m2)" by force
    have age: "hm_live m2 = hm_live m1 - (case ares of Inl _ \<Rightarrow> directives_cost ds | Inr _ \<Rightarrow> 0)
        \<and> (mem_plenty m1 \<longrightarrow> mem_plenty m2 \<and> ares \<noteq> Inl NSERROR_NOMEM)"
      using a find_item_live [of ds "''max-age''" m1]
      by (cases "http_directive_list_find_item ds ''max-age'' m1")
        (auto simp: sts_required_max_age_def split: sum.splits option.splits)
    show ?thesis
    proof (cases ares)
      case (Inl e)
      with d \<open>res = Inr ds\<close> post a age show ?thesis
        by (auto simp: http_parse_strict_transport_security_def)
    next
      case (Inr n)
      obtain isd m3 where i: "http_directive_list_find_item ds ''includesubdomains'' m2 = (isd, m3)" by force
      note live = find_item_live [OF i]
      show ?thesis
      proof (cases "\<exists>v. isd = Inr (Some v)")
        case True
        with d \<open>res = Inr ds\<close> Inr post a age i live show ?thesis
          by (auto simp: http_parse_strict_transport_security_def)
      next
        case False
        then have shape: "isd = Inr None \<or> (\<exists>e. isd = Inl e)" by (cases isd) auto
        let ?m = "http_directive_list_destroy ds m3"
        obtain ok m4 where ok: "mem_alloc ?m = (ok, m4)" by force
        have "http_parse_strict_transport_security header_value m = (if \<not> ok then (Inl NSERROR_NOMEM, m4)
            else (Inr \<lparr>sts_max_age = n, sts_include_sub_domains = (isd = Inr None)\<rparr>, m4))"
          using shape d \<open>res = Inr ds\<close> Inr a i ok by (elim disjE) (auto simp: http_parse_strict_transport_security_def Let_def)
        moreover have "hm_live m3 = hm_live m2" "mem_plenty m2 \<longrightarrow> mem_plenty m3" using shape live by auto
        ultimately show ?thesis
          using \<open>res = Inr ds\<close> Inr post age mem_live(1) [OF ok] alloc_plenty [OF _ ok] by (cases ok) auto
      qed
    qed
  qed
qed

section \<open>The value of a max-age\<close>

definition is_digit :: "char \<Rightarrow> bool" where
  "is_digit c \<longleftrightarrow> 48 \<le> (of_char c :: nat) \<and> (of_char c :: nat) \<le> 57"

definition decimal :: "nat \<Rightarrow> string \<Rightarrow> nat" where
  "decimal = foldl (\<lambda>n c. 10 * n + (of_char c - 48))"

lemma decimal_simps [simp]:
  "decimal n [] = n" "decimal n (c # s) = decimal (10 * n + (of_char c - 48)) s"
  by (simp_all add: decimal_def)

lemma decimal_ge: "n \<le> decimal n s"
proof (induction s arbitrary: n)
  case (Cons c s)
  have "n \<le> 10 * n + (of_char c - 48)" by simp
  also have "\<dots> \<le> decimal n (c # s)" using Cons by simp
  finally show ?case .
qed simp

lemma parse_digits_exact:
  "\<forall>c\<in>set s. is_digit c \<Longrightarrow> decimal n s < 2 ^ 32 \<Longrightarrow> parse_digits s (of_nat n) = Inr (of_nat (decimal n s))"
proof (induction s arbitrary: n)
  case (Cons c s)
  let ?n = "10 * n + (of_char c - 48) :: nat"
  have n: "?n < 2 ^ 32" using Cons.prems(2) decimal_ge [of ?n s] by simp
  have nv: "(of_nat n :: 32 word) * 10 + of_nat (of_char c - 48) = of_nat ?n" by (simp add: mult.commute)
  have "unat (of_nat n :: 32 word) = n" "unat (of_nat ?n :: 32 word) = ?n"
    using n by (simp_all add: unat_of_nat del: of_nat_add of_nat_mult)
  then have "\<not> (of_nat ?n :: 32 word) < of_nat n" unfolding word_less_nat_alt by simp
  then have "parse_digits (c # s) (of_nat n) = parse_digits s (of_nat ?n)"
    using Cons.prems(1) unfolding parse_digits.simps Let_def nv by (simp add: is_digit_def del: of_nat_add of_nat_mult)
  then show ?case using Cons.IH [of ?n] Cons.prems by (simp del: of_nat_add of_nat_mult)
qed simp

lemma parse_digits_error: "\<not> (\<forall>c\<in>set s. is_digit c) \<Longrightarrow> parse_digits s v = Inl NSERROR_NOT_FOUND"
  by (induction s arbitrary: v) (auto simp: is_digit_def Let_def)

end
