(* ===== verification/Http_Spec.thy ===== *)
theory Http_Spec
  imports Http_Headers
begin

text \<open>
  What the header parsers promise: no memory is lost whatever the header and
  whichever allocation fails, printed headers are read back, the duplicate check of
  the directives is exact, and the value of a \<^verbatim>\<open>max-age\<close> is the number it denotes,
  as long as it fits.
\<close>

section \<open>No leaks\<close>

definition leak_free :: "(string \<Rightarrow> hmem \<Rightarrow> (nserror + 'a) \<times> hmem) \<Rightarrow> ('a \<Rightarrow> hmem \<Rightarrow> hmem) \<Rightarrow> bool" where
  "leak_free parse destroy \<longleftrightarrow> (\<forall>header_value m. case parse header_value m of
     (Inl error, m') \<Rightarrow> hm_live m' = hm_live m
   | (Inr x, m') \<Rightarrow> hm_live (destroy x m') = hm_live m)"

lemma leak_freeI:
  assumes "\<And>h m. header_post cost m (parse h m)" "\<And>x m. hm_live (destroy x m) = hm_live m - cost x"
  shows "leak_free parse destroy"
proof -
  have "case parse h m of (Inl error, m') \<Rightarrow> hm_live m' = hm_live m
      | (Inr x, m') \<Rightarrow> hm_live (destroy x m') = hm_live m" for h m
    using assms(1) [of m h] assms(2) by (auto simp: header_post_def split: prod.splits sum.splits)
  then show ?thesis by (simp add: leak_free_def)
qed

text \<open>
  C27. None of the header parsers leaks, whatever the header and whichever of their
  allocations fails: an error leaves as many blocks and string references as before,
  and destroying a result gives back everything that parsing it took.
\<close>

theorem http_headers_no_leak:
  "leak_free http_parse_content_type http_content_type_destroy
   \<and> leak_free http_parse_content_disposition http_content_disposition_destroy
   \<and> leak_free http_parse_www_authenticate http_www_authenticate_destroy
   \<and> leak_free http_parse_cache_control http_cache_control_destroy
   \<and> leak_free http_parse_strict_transport_security http_strict_transport_security_destroy"
  by (intro conjI leak_freeI [OF content_type_post] leak_freeI [OF content_disposition_post]
      leak_freeI [OF www_authenticate_post] leak_freeI [OF cache_control_post] leak_freeI [OF strict_transport_security_post])
    (simp_all add: http_content_type_destroy_def http_content_disposition_destroy_def http_www_authenticate_destroy_def
      http_cache_control_destroy_def http_strict_transport_security_destroy_def http_challenge_list_destroy_def
      challenge.destroy_live)

section \<open>Parameters read back\<close>

lemma optional_parameters_print:
  assumes "\<forall>p\<in>set ps. valid_parameter p" "mem_plenty m"
  shows "http_optional_parameters (print_items print_parameter (CHR '';'') ps) m
    = (Inr (rev ps), m\<lparr>hm_live := hm_live m + parameters_cost ps\<rparr>)"
proof (cases "ps = []")
  case True
  then show ?thesis by (simp add: http_optional_parameters_def print_items_def)
next
  case False
  then have "peek (print_items print_parameter (CHR '';'') ps) = CHR '';''" by (cases ps) (simp_all add: print_items_def)
  then show ?thesis using printed_parameter.list_parse_print [of "CHR '';''" ps m "[]"] assms False
    by (simp add: http_optional_parameters_def sum_const)
qed

lemma find_parameter:
  "mem_plenty m \<Longrightarrow> isequal_documented m \<Longrightarrow> http_parameter_list_find_item ps name m =
    (case map_of (map (\<lambda>p. (map ascii_lower (param_name p), param_value p)) ps) (map ascii_lower name) of
       None \<Rightarrow> (Inl NSERROR_NOT_FOUND, m) | Some v \<Rightarrow> (Inr v, lwc_string_ref m))"
  by (induction ps) auto

definition print_content_type :: "string \<Rightarrow> string \<Rightarrow> http_parameter list \<Rightarrow> string" where
  "print_content_type type subtype params = type @ ''/'' @ subtype @ print_items print_parameter (CHR '';'') params"

lemma token_start: "token_string s \<Longrightarrow> http_skip_LWS (s @ rest) = s @ rest"
  using token_not_LWS token_peek [of s rest] by auto

lemma items_start:
  assumes "separator = CHR '','' \<or> separator = CHR '';''"
  shows "item_end (print_items print separator xs)" "\<not> http_is_token_char (peek (print_items print separator xs))"
    "http_skip_LWS (print_items print separator xs) = print_items print separator xs"
  using assms by (cases xs; auto simp: print_items_def item_end_def)+

text \<open>
  C29. A media type with parameters, printed as \<^verbatim>\<open>type/subtype;name="value"...\<close>, is
  parsed back: the media type as it was and every parameter, the last one first.
\<close>

theorem content_type_roundtrip:
  assumes "token_string type" "token_string subtype" "\<forall>p\<in>set params. valid_parameter p" "mem_plenty m"
  shows "http_parse_content_type (print_content_type type subtype params) m
    = (Inr \<lparr>media_type = type @ ''/'' @ subtype, ct_parameters = rev params\<rparr>,
       m\<lparr>hm_live := hm_live m + 2 + parameters_cost params\<rparr>)"
proof -
  let ?items = "print_items print_parameter (CHR '';'') params"
  note items = items_start [of "CHR '';''" print_parameter params, simplified]
  have "http_parse_token (type @ CHR ''/'' # subtype @ ?items) m = (Inr (type, CHR ''/'' # subtype @ ?items),
      m\<lparr>hm_live := hm_live m + 1\<rparr>)"
    using assms by (intro http_parse_token_print) simp_all
  moreover have "http_parse_token (subtype @ ?items) (m\<lparr>hm_live := hm_live m + 1\<rparr>) = (Inr (subtype, ?items),
      m\<lparr>hm_live := hm_live m + 2\<rparr>)"
    using http_parse_token_print [OF assms(2) items(2), of "m\<lparr>hm_live := hm_live m + 1\<rparr>"] assms(4) by simp
  moreover have "http_optional_parameters ?items (m\<lparr>hm_live := hm_live m + 2\<rparr>)
      = (Inr (rev params), m\<lparr>hm_live := hm_live m + 2 + parameters_cost params\<rparr>)"
    using optional_parameters_print [OF assms(3), of "m\<lparr>hm_live := hm_live m + 2\<rparr>"] assms(4) by simp
  ultimately show ?thesis using assms(1,2,4) token_start items(3)
    by (simp add: http_parse_content_type_def print_content_type_def Let_def http_content_type_build_def
        mem_free_def lwc_string_unref_def)
qed

theorem content_type_roundtrip_witness:
  "http_parse_content_type (''text/html;charset='' @ quote ''utf-8'') (hmem_at 0)
    = (Inr \<lparr>media_type = ''text/html'', ct_parameters = [\<lparr>param_name = ''charset'', param_value = ''utf-8''\<rparr>]\<rparr>,
       hmem_at 5)"
proof -
  let ?ps = "[\<lparr>param_name = ''charset'', param_value = ''utf-8''\<rparr>]"
  have "token_string ''text''" "token_string ''html''" "\<forall>p\<in>set ?ps. valid_parameter p" by code_simp+
  then show ?thesis
    using content_type_roundtrip [of "''text''" "''html''" ?ps "(hmem_at 0)"]
    by (simp add: print_content_type_def print_items_def print_parameter_def quote_def)
qed

section \<open>Directives read back\<close>

definition print_directive :: "http_directive \<Rightarrow> string" where
  "print_directive d = dir_name d @ (case dir_value d of None \<Rightarrow> [] | Some v \<Rightarrow> CHR ''='' # quote v)"

definition valid_directive :: "http_directive \<Rightarrow> bool" where
  "valid_directive d \<longleftrightarrow> token_string (dir_name d) \<and> (\<forall>v. dir_value d = Some v \<longrightarrow> quoted_text v)"

lemma item_endD: "item_end rest \<Longrightarrow> \<not> http_is_token_char (peek rest) \<and> http_skip_LWS rest = rest \<and> peek rest \<noteq> CHR ''=''"
  by (auto simp: item_end_def)

interpretation printed_directive: http_printer http_parse_directive http_destroy_directive directive_cost
  print_directive valid_directive
proof unfold_locales
  fix x rest m assume v: "valid_directive x" and m: "mem_plenty m" and e: "item_end rest"
  show "http_parse_directive (print_directive x @ rest) m = (Inr (x, rest), m\<lparr>hm_live := hm_live m + directive_cost x\<rparr>)"
  proof (cases "dir_value x")
    case None
    have "http_parse_token (dir_name x @ rest) m = (Inr (dir_name x, rest), m\<lparr>hm_live := hm_live m + 1\<rparr>)"
      using v m item_endD [OF e] by (intro http_parse_token_print) (simp_all add: valid_directive_def)
    then show ?thesis using m item_endD [OF e] None
      by (cases x) (simp add: http_parse_directive_def print_directive_def Let_def directive_cost_def)
  next
    case (Some val)
    have "http_parse_token (dir_name x @ CHR ''='' # quote val @ rest) m
        = (Inr (dir_name x, CHR ''='' # quote val @ rest), m\<lparr>hm_live := hm_live m + 1\<rparr>)"
      using v m by (intro http_parse_token_print) (simp_all add: valid_directive_def)
    moreover have "http_skip_LWS (quote val @ rest) = quote val @ rest" by (simp add: quote_def)
    ultimately show ?thesis using m v Some
      by (cases x) (simp add: http_parse_directive_def print_directive_def Let_def http_parse_value_print valid_directive_def directive_cost_def)
  qed
next
  fix x rest assume "valid_directive x"
  then show "peek (print_directive x @ rest) \<noteq> CHR '' '' \<and> peek (print_directive x @ rest) \<noteq> CHR 0x09"
    using token_not_LWS token_peek [of "dir_name x"] by (auto simp: valid_directive_def print_directive_def)
qed

text \<open>Names are compared without regard to case.\<close>

definition lname :: "http_directive \<Rightarrow> string" where
  "lname d = map ascii_lower (dir_name d)"

definition directive_value :: "http_directive list \<Rightarrow> string \<Rightarrow> string option option" where
  "directive_value ds = map_of (map (\<lambda>d. (lname d, dir_value d)) ds)"

lemma find_directive:
  "mem_plenty m \<Longrightarrow> isequal_documented m \<Longrightarrow> http_directive_list_find_item ds name m =
    (case directive_value ds (map ascii_lower name) of
       None \<Rightarrow> (Inl NSERROR_NOT_FOUND, m)
     | Some v \<Rightarrow> (Inr v, if v \<noteq> None then lwc_string_ref m else m))"
  by (induction ds) (auto simp: directive_value_def lname_def)

lemma directive_value_rev: "distinct (map lname ds) \<Longrightarrow> directive_value (rev ds) = directive_value ds"
proof -
  assume "distinct (map lname ds)"
  then show ?thesis unfolding directive_value_def by (subst map_of_inject_set) (simp_all add: comp_def rev_map [symmetric])
qed

section \<open>The duplicate check\<close>

lemma directive_count_exact:
  "mem_plenty m \<Longrightarrow> isequal_documented m \<Longrightarrow> directive_count ds key n m
    = (n + of_nat (count_list (map lname ds) (map ascii_lower key)), m)"
  by (induction ds arbitrary: n) (auto simp: lname_def)

lemma distinct_iff_count: "distinct xs \<longleftrightarrow> (\<forall>x\<in>set xs. count_list xs x = 1)"
proof (induction xs)
  case (Cons y xs)
  have "count_list (y # xs) y = 1 \<longleftrightarrow> y \<notin> set xs" by (simp add: count_list_0_iff)
  moreover have "y \<notin> set xs \<Longrightarrow> x \<in> set xs \<Longrightarrow> count_list (y # xs) x = count_list xs x" for x by auto
  ultimately show ?case using Cons by auto
qed simp

lemma check_duplicates_loop_exact:
  assumes "mem_plenty m" "length ds < 2 ^ 32" "isequal_documented m"
  shows "check_duplicates_loop ds keys result m
    = (result \<and> (\<forall>k\<in>set keys. count_list (map lname ds) (lname k) = 1), m)"
  using assms(1,3)
proof (induction keys arbitrary: result m)
  case (Cons k keys)
  have "count_list (map lname ds) (lname k) < 2 ^ 32"
    using count_le_length [of "map lname ds" "lname k"] assms(2,3) by simp
  then have "unat (of_nat (count_list (map lname ds) (lname k)) :: 32 word) = count_list (map lname ds) (lname k)"
    by (simp add: unat_of_nat)
  then have one: "(of_nat (count_list (map lname ds) (lname k)) :: 32 word) = 1 \<longleftrightarrow> count_list (map lname ds) (lname k) = 1"
    by (simp add: word_unat_eq_iff)
  have "lwc_string_unref (lwc_string_ref m) = m" "lwc_string_unref (lwc_string_unref (lwc_string_ref (lwc_string_ref m))) = m" for m
    by (simp_all add: lwc_string_unref_def lwc_string_ref_def mem_free_def)
  then show ?case using Cons.prems one
    by (simp add: Let_def directive_count_exact lname_def [symmetric] Cons.IH)
qed simp

lemma check_duplicates_exact:
  assumes "mem_plenty m" "length ds < 2 ^ 32" "isequal_documented m"
  shows "check_duplicates ds m = (distinct (map lname ds), m)"
  by (simp add: check_duplicates_def check_duplicates_loop_exact [OF assms] distinct_iff_count)

definition print_directives :: "char \<Rightarrow> http_directive list \<Rightarrow> string" where
  "print_directives separator ds =
     (case ds of [] \<Rightarrow> [] | d # ds \<Rightarrow> print_directive d @ print_items print_directive separator ds)"

lemma directives_destroy_rest:
  "hm_oracle (http_directive_list_destroy ds m) = hm_oracle m"
  "hm_isequal (http_directive_list_destroy ds m) = hm_isequal m"
  "hm_hash (http_directive_list_destroy ds m) = hm_hash m"
  unfolding http_directive_list_destroy_def
  by (induction ds arbitrary: m) (simp_all add: http_destroy_directive_def Let_def mem_free_def lwc_string_unref_def)

lemma directives_destroy_exact: "http_directive_list_destroy ds m = m\<lparr>hm_live := hm_live m - directives_cost ds\<rparr>"
  by (rule hmem_eqI) (simp_all add: directives_destroy_rest)

lemma sum_list_rev: "sum_list (rev (xs :: int list)) = sum_list xs"
  by (induction xs) simp_all

lemma parse_directives_print:
  assumes sep: "separator = CHR '','' \<or> separator = CHR '';''" and valid: "\<forall>d\<in>set ds. valid_directive d"
    and m: "mem_plenty m" "isequal_documented m" and ds: "ds \<noteq> []" "length ds < 2 ^ 32"
  shows "http_parse_directives separator (print_directives separator ds) m
    = (if distinct (map lname ds) then (Inr (rev ds), m\<lparr>hm_live := hm_live m + directives_cost ds\<rparr>)
       else (Inl NSERROR_NOT_FOUND, m))"
proof -
  obtain d es where split: "ds = d # es" using ds by (cases ds) auto
  let ?items = "print_items print_directive separator es"
  let ?m1 = "m\<lparr>hm_live := hm_live m + directive_cost d\<rparr>"
  let ?m2 = "m\<lparr>hm_live := hm_live m + directives_cost ds\<rparr>"
  note items = items_start [OF sep, of print_directive es]
  have printed: "print_directives separator ds = print_directive d @ ?items" by (simp add: print_directives_def split)
  have start: "http_skip_LWS (print_directive d @ ?items) = print_directive d @ ?items"
    using printed_directive.print_start [of d ?items] valid split by simp
  have first: "http_parse_directive (print_directive d @ ?items) m = (Inr (d, ?items), ?m1)"
    using printed_directive.parse_print [OF _ items(1)] valid split m by simp
  have rest: "(if peek ?items = separator then
        (case http_item_list_parse http_destroy_directive http_parse_directive [d] ?items ?m1 of
           (Inl error, m) \<Rightarrow> (Inl error, m) | (Inr (directives, pos), m) \<Rightarrow> (Inr directives, m))
      else (Inr [d], ?m1)) = (Inr (rev ds), ?m2)"
  proof (cases "es = []")
    case True
    then show ?thesis using sep split by (auto simp: print_items_def)
  next
    case False
    then have "peek ?items = separator" by (cases es) (simp_all add: print_items_def)
    then show ?thesis using printed_directive.list_parse_print [OF sep, of es ?m1 "[d]"] valid split m False
      by (simp add: add.assoc)
  qed
  have dup: "check_duplicates (rev ds) ?m2 = (distinct (map lname ds), ?m2)"
    using check_duplicates_exact [of ?m2 "rev ds"] m ds by (simp add: rev_map [symmetric])
  have "http_parse_directives separator (print_directives separator ds) m
      = (if distinct (map lname ds) then (Inr (rev ds), ?m2)
         else (Inl NSERROR_NOT_FOUND, http_directive_list_destroy (rev ds) ?m2))"
    unfolding http_parse_directives_def printed start first
    by (simp only: prod.case sum.case Let_def items(3) rest dup) simp
  then show ?thesis by (simp add: directives_destroy_exact rev_map [symmetric] sum_list_rev)
qed

text \<open>What a header with these directives says.\<close>

definition max_age_of :: "http_directive list \<Rightarrow> nserror + 32 word" where
  "max_age_of ds = (case directive_value ds ''max-age'' of Some (Some v) \<Rightarrow> parse_max_age v | _ \<Rightarrow> Inl NSERROR_NOT_FOUND)"

definition cache_control_of :: "http_directive list \<Rightarrow> http_cache_control" where
  "cache_control_of ds = \<lparr>cc_max_age = (case max_age_of ds of Inr n \<Rightarrow> n | Inl e \<Rightarrow> 0),
     cc_max_age_valid = (\<exists>n. max_age_of ds = Inr n),
     cc_no_cache = (directive_value ds ''no-cache'' \<noteq> None), cc_no_store = (directive_value ds ''no-store'' \<noteq> None)\<rparr>"

lemma lower_names:
  "map ascii_lower ''max-age'' = ''max-age''" "map ascii_lower ''no-cache'' = ''no-cache''"
  "map ascii_lower ''no-store'' = ''no-store''" "map ascii_lower ''includesubdomains'' = ''includesubdomains''"
  by (simp_all add: ascii_lower_def Let_def)

lemma cache_control_max_age_exact:
  "mem_plenty m \<Longrightarrow> isequal_documented m \<Longrightarrow> cache_control_max_age ds m
    = (case max_age_of ds of Inr n \<Rightarrow> (n, True, m) | Inl e \<Rightarrow> (0, False, m))"
  by (auto simp: cache_control_max_age_def max_age_of_def find_directive ascii_lower_def Let_def split: option.splits sum.splits)

lemma sts_required_max_age_exact:
  "mem_plenty m \<Longrightarrow> isequal_documented m \<Longrightarrow> sts_required_max_age ds m
    = (case max_age_of ds of Inr n \<Rightarrow> (Inr n, m) | Inl e \<Rightarrow> (Inl NSERROR_NOT_FOUND, http_directive_list_destroy ds m))"
  by (auto simp: sts_required_max_age_def max_age_of_def find_directive ascii_lower_def Let_def split: option.splits sum.splits)

lemma directive_present_exact:
  "mem_plenty m \<Longrightarrow> isequal_documented m \<Longrightarrow> directive_present ds name m = (directive_value ds (map ascii_lower name) \<noteq> None, m)"
  by (auto simp: directive_present_def find_directive split: option.splits)



text \<open>
  A \<^verbatim>\<open>Strict-Transport-Security\<close> header with directives printed as
  \<^verbatim>\<open>name="value"\<close> or \<^verbatim>\<open>name\<close> is accepted exactly when no name occurs twice, \<^verbatim>\<open>max-age\<close>
  has a value that is a number, and \<^verbatim>\<open>includeSubDomains\<close> has no value; the result holds
  that number and whether \<^verbatim>\<open>includeSubDomains\<close> occurs.
\<close>

lemma strict_transport_security_exact:
  assumes "\<forall>d\<in>set ds. valid_directive d" "mem_plenty m" "isequal_documented m" "ds \<noteq> []" "length ds < 2 ^ 32"
  shows "http_parse_strict_transport_security (print_directives (CHR '';'') ds) m
    = (case max_age_of ds of
         Inr n \<Rightarrow> if distinct (map lname ds) \<and> (\<forall>v. directive_value ds ''includesubdomains'' \<noteq> Some (Some v))
           then (Inr \<lparr>sts_max_age = n, sts_include_sub_domains = (directive_value ds ''includesubdomains'' = Some None)\<rparr>,
             m\<lparr>hm_live := hm_live m + 1\<rparr>)
           else (Inl NSERROR_NOT_FOUND, m)
       | Inl e \<Rightarrow> (Inl NSERROR_NOT_FOUND, m))"
proof (cases "distinct (map lname ds)")
  case True
  let ?m = "m\<lparr>hm_live := hm_live m + directives_cost ds\<rparr>"
  have same: "max_age_of (rev ds) = max_age_of ds" "directive_value (rev ds) = directive_value ds"
    using directive_value_rev [OF True] by (simp_all add: max_age_of_def)
  have destroy: "http_directive_list_destroy (rev ds) ?m = m"
    by (simp add: directives_destroy_exact rev_map [symmetric] sum_list_rev)
  have age: "sts_required_max_age (rev ds) ?m = (case max_age_of ds of Inr n \<Rightarrow> (Inr n, ?m) | Inl e \<Rightarrow> (Inl NSERROR_NOT_FOUND, m))"
    using sts_required_max_age_exact [of ?m "rev ds"] assms(2,3) same destroy
    by (cases "max_age_of ds") simp_all
  have p: "http_directive_list_find_item (rev ds) ''includesubdomains'' ?m
      = (case directive_value ds ''includesubdomains'' of None \<Rightarrow> (Inl NSERROR_NOT_FOUND, ?m)
         | Some v \<Rightarrow> (Inr v, if v \<noteq> None then lwc_string_ref ?m else ?m))"
    using find_directive [of ?m "rev ds" "''includesubdomains''"] assms(2,3) same
    by (simp add: ascii_lower_def Let_def)
  show ?thesis
    unfolding http_parse_strict_transport_security_def parse_directives_print [OF disjI2 [OF refl] assms] if_P [OF True]
    using assms(2,3) True
    by (cases "max_age_of ds")
      (auto simp: age p destroy Let_def split: option.splits)
next
  case False
  then show ?thesis using parse_directives_print [OF disjI2 [OF refl] assms]
    by (simp add: http_parse_strict_transport_security_def split: sum.splits)
qed

section \<open>The value of a max-age\<close>

lemma parse_max_age_number:
  "decimal 0 val < 2 ^ 32 \<Longrightarrow> parse_max_age val
    = (if val \<noteq> [] \<and> (\<forall>c\<in>set val. is_digit c) then Inr (of_nat (decimal 0 val)) else Inl NSERROR_NOT_FOUND)"
  using parse_digits_exact [of val 0] parse_digits_error [of val] by (auto simp: parse_max_age_def)

text \<open>
  The value of a \<^verbatim>\<open>max-age\<close> is the number its decimal digits denote, for numbers
  that fit 32 bits, and an empty value or one with another character is refused.
\<close>

theorem parse_max_age_exact:
  assumes "decimal 0 val < 2 ^ 32"
  shows "parse_max_age val
    = (if val \<noteq> [] \<and> (\<forall>c\<in>set val. is_digit c) then Inr (of_nat (decimal 0 val)) else Inl NSERROR_NOT_FOUND)"
  using assms by (rule parse_max_age_number)

theorem parse_max_age_exact_witness: "parse_max_age ''31536000'' = Inr 31536000"
proof -
  have d: "decimal 0 ''31536000'' = 31536000" "\<forall>c\<in>set ''31536000''. is_digit c" by (simp_all add: is_digit_def)
  have "parse_max_age ''31536000'' = (if ''31536000'' \<noteq> [] \<and> (\<forall>c\<in>set ''31536000''. is_digit c)
      then Inr (of_nat (decimal 0 ''31536000'')) else Inl NSERROR_NOT_FOUND)"
    by (rule parse_max_age_exact) (simp only: d, simp)
  also have "\<dots> = Inr (of_nat 31536000)" unfolding d(1) by (rule if_P) (rule conjI [OF _ d(2)], simp)
  finally show ?thesis by simp
qed

text \<open>
  A larger number is meant to be capped at \<^verbatim>\<open>UINT_MAX\<close>, but the test sees only
  those overflows after which the result is smaller than the value before: a host
  that asks for five thousand million seconds is remembered for 705032704.
\<close>

theorem sts_max_age_wraps:
  "fst (http_parse_strict_transport_security ''max-age=5000000000'' (hmem_at 0))
    = Inr \<lparr>sts_max_age = 705032704, sts_include_sub_domains = False\<rparr>"
  by code_simp

text \<open>
  Whatever \<^verbatim>\<open>WWW-Authenticate\<close> header is parsed, at most its first challenge is
  in the result: the parameter list of a challenge takes the comma that separates it
  from the next challenge.
\<close>

theorem www_authenticate_single:
  assumes "http_parse_www_authenticate header_value m = (Inr challenges, m')"
  shows "\<exists>c. challenges = [c]"
  using assms by (cases rule: www_authenticate_cases) auto

theorem www_authenticate_single_witness:
  "\<exists>c. [\<lparr>challenge_scheme = ''Basic'', challenge_params = [\<lparr>param_name = ''a'', param_value = ''b''\<rparr>]\<rparr>] = [c]"
proof (rule www_authenticate_single)
  let ?parsed = "http_parse_www_authenticate ''Basic a=b, Digest c=d'' (hmem_at 0)"
  have "fst ?parsed = Inr [\<lparr>challenge_scheme = ''Basic'', challenge_params = [\<lparr>param_name = ''a'', param_value = ''b''\<rparr>]\<rparr>]"
    by code_simp
  then show "?parsed = (Inr [\<lparr>challenge_scheme = ''Basic'', challenge_params = [\<lparr>param_name = ''a'', param_value = ''b''\<rparr>]\<rparr>],
      snd ?parsed)"
    by (simp only: prod_eq_iff prod.sel)
qed

end
