(* ===== verification/Nsurl.thy ===== *)
theory Nsurl
  imports NS_Memory
begin

text \<open>
  URL objects (\<^verbatim>\<open>netsurf/utils/nsurl/nsurl.c\<close>, and the part of \<^verbatim>\<open>nsurl/parse.c\<close> that
  stitches components together): the components of a URL, its string, and the
  operations that derive one URL from another.  An interned string is the list of its
  characters, \<^const>\<open>None\<close> a NULL pointer; C's bit masks are sets of their bits.
\<close>

section \<open>Components\<close>

datatype nsurl_scheme_type =
    NSURL_SCHEME_OTHER | NSURL_SCHEME_HTTP | NSURL_SCHEME_HTTPS | NSURL_SCHEME_FILE
  | NSURL_SCHEME_FTP | NSURL_SCHEME_MAILTO | NSURL_SCHEME_DATA

record nsurl_components =
  scheme :: "string option"
  username :: "string option"
  password :: "string option"
  host :: "string option"
  port :: "string option"
  path :: "string option"
  query :: "string option"
  fragment :: "string option"
  scheme_type :: nsurl_scheme_type

record nsurl =
  components :: nsurl_components
  count :: int
  hash :: "32 word"
  url_length :: nat
  url_string :: string

datatype nsurl_component =
    NSURL_SCHEME | NSURL_USERNAME | NSURL_PASSWORD | NSURL_HOST | NSURL_PORT
  | NSURL_PATH | NSURL_QUERY | NSURL_FRAGMENT

definition NSURL_CREDENTIALS :: "nsurl_component set" where
  "NSURL_CREDENTIALS = {NSURL_USERNAME, NSURL_PASSWORD}"

definition NSURL_AUTHORITY :: "nsurl_component set" where
  "NSURL_AUTHORITY = NSURL_CREDENTIALS \<union> {NSURL_HOST, NSURL_PORT}"

definition NSURL_COMPLETE :: "nsurl_component set" where
  "NSURL_COMPLETE = {NSURL_SCHEME} \<union> NSURL_AUTHORITY \<union> {NSURL_PATH, NSURL_QUERY}"

definition NSURL_WITH_FRAGMENT :: "nsurl_component set" where
  "NSURL_WITH_FRAGMENT = insert NSURL_FRAGMENT NSURL_COMPLETE"

definition component_of :: "nsurl_component \<Rightarrow> nsurl_components \<Rightarrow> string option" where
  "component_of part c = (case part of NSURL_SCHEME \<Rightarrow> scheme c | NSURL_USERNAME \<Rightarrow> username c
     | NSURL_PASSWORD \<Rightarrow> password c | NSURL_HOST \<Rightarrow> host c | NSURL_PORT \<Rightarrow> port c
     | NSURL_PATH \<Rightarrow> path c | NSURL_QUERY \<Rightarrow> query c | NSURL_FRAGMENT \<Rightarrow> fragment c)"

section \<open>Comparison\<close>

definition nsurl_component_compare :: "string option \<Rightarrow> string option \<Rightarrow> bool" where
  "nsurl_component_compare c1 c2 = (case (c1, c2) of
     (Some a, Some b) \<Rightarrow> a = b | (None, None) \<Rightarrow> True | _ \<Rightarrow> False)"

definition nsurl_compare :: "nsurl \<Rightarrow> nsurl \<Rightarrow> nsurl_component set \<Rightarrow> bool" where
  "nsurl_compare url1 url2 parts = (let a = components url1; b = components url2 in
     if NSURL_PATH \<in> parts \<and> \<not> nsurl_component_compare (path a) (path b) then False
     else if NSURL_HOST \<in> parts \<and> \<not> nsurl_component_compare (host a) (host b) then False
     else if NSURL_QUERY \<in> parts \<and> \<not> nsurl_component_compare (query a) (query b) then False
     else if NSURL_SCHEME \<in> parts \<and> \<not> nsurl_component_compare (scheme a) (scheme b) then False
     else if NSURL_USERNAME \<in> parts \<and> \<not> nsurl_component_compare (username a) (username b) then False
     else if NSURL_PASSWORD \<in> parts \<and> \<not> nsurl_component_compare (password a) (password b) then False
     else if NSURL_PORT \<in> parts \<and> \<not> nsurl_component_compare (port a) (port b) then False
     else if NSURL_FRAGMENT \<in> parts \<and> \<not> nsurl_component_compare (fragment a) (fragment b) then False
     else True)"

lemma component_compare_eq [simp]: "nsurl_component_compare c1 c2 \<longleftrightarrow> c1 = c2"
  by (auto simp: nsurl_component_compare_def split: option.splits)

lemma guard_False: "(if a \<and> \<not> b then False else c) \<longleftrightarrow> (a \<longrightarrow> b) \<and> c" "(p \<and> True) = p"
  by auto

lemma ball_components:
  "(\<forall>part\<in>parts. P part) \<longleftrightarrow> (NSURL_PATH \<in> parts \<longrightarrow> P NSURL_PATH) \<and> (NSURL_HOST \<in> parts \<longrightarrow> P NSURL_HOST)
      \<and> (NSURL_QUERY \<in> parts \<longrightarrow> P NSURL_QUERY) \<and> (NSURL_SCHEME \<in> parts \<longrightarrow> P NSURL_SCHEME)
      \<and> (NSURL_USERNAME \<in> parts \<longrightarrow> P NSURL_USERNAME) \<and> (NSURL_PASSWORD \<in> parts \<longrightarrow> P NSURL_PASSWORD)
      \<and> (NSURL_PORT \<in> parts \<longrightarrow> P NSURL_PORT) \<and> (NSURL_FRAGMENT \<in> parts \<longrightarrow> P NSURL_FRAGMENT)" (is "?l \<longleftrightarrow> ?r")
proof
  assume r: ?r
  show ?l
  proof
    fix part assume "part \<in> parts"
    then show "P part" using r by (cases part) simp_all
  qed
qed simp

lemma compare_exact:
  "nsurl_compare url1 url2 parts \<longleftrightarrow>
     (\<forall>part\<in>parts. component_of part (components url1) = component_of part (components url2))"
  unfolding ball_components component_of_def nsurl_component.case nsurl_compare_def Let_def component_compare_eq guard_False
  by (rule refl)

section \<open>Stitching components together\<close>

record nsurl_component_lengths =
  len_scheme :: nat
  len_username :: nat
  len_password :: nat
  len_host :: nat
  len_port :: nat
  len_path :: nat
  len_query :: nat
  len_fragment :: nat

datatype nsurl_string_flag =
    NSURL_F_SCHEME | NSURL_F_SCHEME_PUNCTUATION | NSURL_F_AUTHORITY_PUNCTUATION
  | NSURL_F_USERNAME | NSURL_F_PASSWORD | NSURL_F_CREDENTIALS_PUNCTUATION
  | NSURL_F_HOST | NSURL_F_PORT | NSURL_F_PATH | NSURL_F_QUERY_PUNCTUATION
  | NSURL_F_QUERY | NSURL_F_FRAGMENT_PUNCTUATION | NSURL_F_FRAGMENT

text \<open>
  One \<^verbatim>\<open>if (url->component && parts & PART)\<close> of \<^verbatim>\<open>nsurl__get_string_data\<close>: the flag is
  set, the length noted and added, together with the punctuation in front.
\<close>

type_synonym string_data = "nsurl_string_flag set \<times> nsurl_component_lengths \<times> nat"

definition note_part ::
  "string option \<Rightarrow> bool \<Rightarrow> nsurl_string_flag \<Rightarrow> (nat \<Rightarrow> nsurl_component_lengths \<Rightarrow> nsurl_component_lengths) \<Rightarrow>
   nat \<Rightarrow> string_data \<Rightarrow> string_data" where
  "note_part c required flag set_length spanned d = (let (flags, lengths, url_l) = d in
     case c of
       Some s \<Rightarrow> if required then (insert flag flags, set_length (length s) lengths, url_l + (spanned + length s)) else d
     | None \<Rightarrow> d)"

definition nsurl_get_string_parts :: "nsurl_components \<Rightarrow> nsurl_component set \<Rightarrow> string_data" where
  "nsurl_get_string_parts url parts = (let
     d = ({}, \<lparr>len_scheme = 0, len_username = 0, len_password = 0, len_host = 0, len_port = 0, len_path = 0,
            len_query = 0, len_fragment = 0\<rparr>, 0);
     d = note_part (scheme url) (NSURL_SCHEME \<in> parts) NSURL_F_SCHEME (\<lambda>n l. l\<lparr>len_scheme := n\<rparr>) 0 d;
     d = note_part (username url) (NSURL_USERNAME \<in> parts) NSURL_F_USERNAME (\<lambda>n l. l\<lparr>len_username := n\<rparr>) 0 d;
     d = note_part (password url) (NSURL_PASSWORD \<in> parts) NSURL_F_PASSWORD (\<lambda>n l. l\<lparr>len_password := n\<rparr>) 1 d;
     d = note_part (host url) (NSURL_HOST \<in> parts) NSURL_F_HOST (\<lambda>n l. l\<lparr>len_host := n\<rparr>) 0 d;
     d = note_part (port url) (NSURL_PORT \<in> parts) NSURL_F_PORT (\<lambda>n l. l\<lparr>len_port := n\<rparr>) 1 d;
     d = note_part (path url) (NSURL_PATH \<in> parts) NSURL_F_PATH (\<lambda>n l. l\<lparr>len_path := n\<rparr>) 0 d;
     d = note_part (query url) (NSURL_QUERY \<in> parts) NSURL_F_QUERY (\<lambda>n l. l\<lparr>len_query := n\<rparr>) 0 d
   in note_part (fragment url) (NSURL_FRAGMENT \<in> parts) NSURL_F_FRAGMENT (\<lambda>n l. l\<lparr>len_fragment := n\<rparr>) 0 d)"

text \<open>The spanned punctuation.\<close>

definition note_punctuation :: "bool \<Rightarrow> nsurl_string_flag \<Rightarrow> nat \<Rightarrow> nsurl_string_flag set \<times> nat \<Rightarrow> nsurl_string_flag set \<times> nat" where
  "note_punctuation spanned flag n d = (if spanned then (insert flag (fst d), snd d + n) else d)"

definition nsurl_get_string_data ::
  "nsurl_components \<Rightarrow> nsurl_component set \<Rightarrow> string_data" where
  "nsurl_get_string_data url parts = (let
     (flags, lengths, url_l) = nsurl_get_string_parts url parts;
     d = (flags, url_l);
     d = note_punctuation (NSURL_F_SCHEME \<in> fst d \<and> parts - {NSURL_SCHEME} \<noteq> {}) NSURL_F_SCHEME_PUNCTUATION 1 d;
     d = note_punctuation (NSURL_F_SCHEME \<in> fst d \<and> fst d - {NSURL_F_SCHEME} \<noteq> {}
           \<and> (case path url of Some p \<Rightarrow> peek p = CHR ''/'' | None \<Rightarrow> False)) NSURL_F_AUTHORITY_PUNCTUATION 2 d;
     d = note_punctuation (fst d \<inter> {NSURL_F_USERNAME, NSURL_F_PASSWORD} \<noteq> {} \<and> NSURL_F_HOST \<in> fst d)
           NSURL_F_CREDENTIALS_PUNCTUATION 1 d;
     d = note_punctuation (fst d - {NSURL_F_QUERY, NSURL_F_FRAGMENT} \<noteq> {} \<and> NSURL_F_QUERY \<in> fst d)
           NSURL_F_QUERY_PUNCTUATION 1 d;
     d = note_punctuation (fst d - {NSURL_F_FRAGMENT} \<noteq> {} \<and> NSURL_F_FRAGMENT \<in> fst d)
           NSURL_F_FRAGMENT_PUNCTUATION 1 d
   in (fst d, lengths, snd d))"

text \<open>\<^verbatim>\<open>memcpy\<close> of \<open>l\<close> characters of a component.\<close>

definition copy_part :: "string option \<Rightarrow> nat \<Rightarrow> string" where
  "copy_part c l = (case c of Some s \<Rightarrow> take l s | None \<Rightarrow> [])"

definition nsurl_get_string :: "nsurl_components \<Rightarrow> nsurl_component_lengths \<Rightarrow> nsurl_string_flag set \<Rightarrow> string" where
  "nsurl_get_string url l flags =
     (if NSURL_F_SCHEME \<in> flags then copy_part (scheme url) (len_scheme l) else [])
     @ (if NSURL_F_SCHEME_PUNCTUATION \<in> flags then '':'' else [])
     @ (if NSURL_F_AUTHORITY_PUNCTUATION \<in> flags then ''//'' else [])
     @ (if NSURL_F_USERNAME \<in> flags then copy_part (username url) (len_username l) else [])
     @ (if NSURL_F_PASSWORD \<in> flags then '':'' @ copy_part (password url) (len_password l) else [])
     @ (if NSURL_F_CREDENTIALS_PUNCTUATION \<in> flags then ''@'' else [])
     @ (if NSURL_F_HOST \<in> flags then copy_part (host url) (len_host l) else [])
     @ (if NSURL_F_PORT \<in> flags then '':'' @ copy_part (port url) (len_port l) else [])
     @ (if NSURL_F_PATH \<in> flags then copy_part (path url) (len_path l) else [])
     @ (if NSURL_F_QUERY \<in> flags then
          (if NSURL_F_QUERY_PUNCTUATION \<in> flags then ''?'' else []) @ copy_part (query url) (len_query l) else [])
     @ (if NSURL_F_FRAGMENT \<in> flags then
          (if NSURL_F_FRAGMENT_PUNCTUATION \<in> flags then ''#'' else []) @ copy_part (fragment url) (len_fragment l) else [])"

definition nsurl_components_to_string ::
  "nsurl_components \<Rightarrow> nsurl_component set \<Rightarrow> hmem \<Rightarrow> (nserror + string \<times> nat) \<times> hmem" where
  "nsurl_components_to_string c parts m = (let
     (flags, lengths, url_l) = nsurl_get_string_data c parts
   in if url_l = 0 then (Inl NSERROR_BAD_URL, m)
      else let (ok, m) = mem_alloc m
        in if \<not> ok then (Inl NSERROR_NOMEM, m)
           else (Inr (nsurl_get_string c lengths flags, url_l), m))"

definition nsurl_get :: "nsurl \<Rightarrow> nsurl_component set \<Rightarrow> hmem \<Rightarrow> (nserror + string \<times> nat) \<times> hmem" where
  "nsurl_get url parts m = nsurl_components_to_string (components url) parts m"

definition nsurl_calc_hash :: "nsurl_components \<Rightarrow> hmem \<Rightarrow> 32 word" where
  "nsurl_calc_hash c m = (let
     add = (\<lambda>x h. case x of Some s \<Rightarrow> h XOR hm_hash m s | None \<Rightarrow> h)
   in add (query c) (add (path c) (add (port c) (add (host c) (add (password c) (add (username c) (add (scheme c) 0)))))))"

section \<open>The string and its length\<close>

definition clen :: "string option \<Rightarrow> nat" where
  "clen c = (case c of None \<Rightarrow> 0 | Some s \<Rightarrow> length s)"

definition opt_text :: "string \<Rightarrow> string option \<Rightarrow> string" where
  "opt_text pre c = (case c of None \<Rightarrow> [] | Some s \<Rightarrow> pre @ s)"

definition opt_flag :: "nsurl_string_flag \<Rightarrow> string option \<Rightarrow> nsurl_string_flag set" where
  "opt_flag f c = (if c = None then {} else {f})"

lemma opt_simps [simp]:
  "clen None = 0" "clen (Some s) = length s" "opt_text pre None = []" "opt_text pre (Some s) = pre @ s"
  "f \<in> opt_flag g c \<longleftrightarrow> f = g \<and> c \<noteq> None"
  by (simp_all add: clen_def opt_text_def opt_flag_def)

text \<open>The components that are wanted and there.\<close>

definition wanted :: "nsurl_components \<Rightarrow> nsurl_component set \<Rightarrow> nsurl_component \<Rightarrow> string option" where
  "wanted url parts part = (if part \<in> parts then component_of part url else None)"

lemma note_part_eq:
  assumes "set_length 0 l = l" "c' = (if required then c else None)"
  shows "note_part c required f set_length k (fs, l, t)
    = (fs \<union> opt_flag f c', set_length (clen c') l, t + length (opt_text (replicate k undefined) c'))"
  using assms by (auto simp: note_part_def opt_flag_def split: option.splits)

lemma component_of_simps [simp]:
  "component_of NSURL_SCHEME c = scheme c" "component_of NSURL_USERNAME c = username c"
  "component_of NSURL_PASSWORD c = password c" "component_of NSURL_HOST c = host c"
  "component_of NSURL_PORT c = port c" "component_of NSURL_PATH c = path c"
  "component_of NSURL_QUERY c = query c" "component_of NSURL_FRAGMENT c = fragment c"
  by (simp_all add: component_of_def)

definition part_flags :: "(nsurl_component \<Rightarrow> string option) \<Rightarrow> nsurl_string_flag set" where
  "part_flags w = opt_flag NSURL_F_SCHEME (w NSURL_SCHEME) \<union> opt_flag NSURL_F_USERNAME (w NSURL_USERNAME)
     \<union> opt_flag NSURL_F_PASSWORD (w NSURL_PASSWORD) \<union> opt_flag NSURL_F_HOST (w NSURL_HOST)
     \<union> opt_flag NSURL_F_PORT (w NSURL_PORT) \<union> opt_flag NSURL_F_PATH (w NSURL_PATH)
     \<union> opt_flag NSURL_F_QUERY (w NSURL_QUERY) \<union> opt_flag NSURL_F_FRAGMENT (w NSURL_FRAGMENT)"

definition part_lengths :: "(nsurl_component \<Rightarrow> string option) \<Rightarrow> nsurl_component_lengths" where
  "part_lengths w = \<lparr>len_scheme = clen (w NSURL_SCHEME), len_username = clen (w NSURL_USERNAME),
     len_password = clen (w NSURL_PASSWORD), len_host = clen (w NSURL_HOST), len_port = clen (w NSURL_PORT),
     len_path = clen (w NSURL_PATH), len_query = clen (w NSURL_QUERY), len_fragment = clen (w NSURL_FRAGMENT)\<rparr>"

definition part_total :: "(nsurl_component \<Rightarrow> string option) \<Rightarrow> nat" where
  "part_total w = clen (w NSURL_SCHEME) + clen (w NSURL_USERNAME) + length (opt_text '':'' (w NSURL_PASSWORD))
     + clen (w NSURL_HOST) + length (opt_text '':'' (w NSURL_PORT)) + clen (w NSURL_PATH) + clen (w NSURL_QUERY)
     + clen (w NSURL_FRAGMENT)"

lemma opt_text_length: "length (opt_text pre c) = (if c = None then 0 else length pre) + clen c"
  by (cases c) simp_all

lemma string_parts_eq:
  "nsurl_get_string_parts url parts = (part_flags (wanted url parts), part_lengths (wanted url parts), part_total (wanted url parts))"
  unfolding nsurl_get_string_parts_def Let_def
  by (simp add: note_part_eq part_flags_def part_lengths_def part_total_def wanted_def opt_text_length)

definition punct :: "bool \<Rightarrow> nsurl_string_flag \<Rightarrow> nsurl_string_flag set" where
  "punct b f = (if b then {f} else {})"

lemma punct_mem [simp]: "f \<in> punct b g \<longleftrightarrow> b \<and> f = g"
  by (simp add: punct_def)

lemma note_punctuation_eq: "note_punctuation b f n (fs, t) = (fs \<union> punct b f, t + (if b then n else 0))"
  by (simp add: note_punctuation_def punct_def)

text \<open>Which punctuation is written, by the conditions of the source.\<close>

lemma string_data_shape:
  assumes "nsurl_get_string_data url parts = (flags, lengths, url_l)"
  obtains b1 b2 b3 b4 b5 where
    "flags = part_flags (wanted url parts) \<union> punct b1 NSURL_F_SCHEME_PUNCTUATION \<union> punct b2 NSURL_F_AUTHORITY_PUNCTUATION
       \<union> punct b3 NSURL_F_CREDENTIALS_PUNCTUATION \<union> punct b4 NSURL_F_QUERY_PUNCTUATION \<union> punct b5 NSURL_F_FRAGMENT_PUNCTUATION"
    "lengths = part_lengths (wanted url parts)"
    "url_l = part_total (wanted url parts) + (if b1 then 1 else 0) + (if b2 then 2 else 0) + (if b3 then 1 else 0)
       + (if b4 then 1 else 0) + (if b5 then 1 else 0)"
    "b4 \<longrightarrow> wanted url parts NSURL_QUERY \<noteq> None" "b5 \<longrightarrow> wanted url parts NSURL_FRAGMENT \<noteq> None"
proof -
  define F where "F = part_flags (wanted url parts)"
  define b1 where "b1 \<longleftrightarrow> NSURL_F_SCHEME \<in> F \<and> parts - {NSURL_SCHEME} \<noteq> {}"
  define F1 where "F1 = F \<union> punct b1 NSURL_F_SCHEME_PUNCTUATION"
  define b2 where "b2 \<longleftrightarrow> NSURL_F_SCHEME \<in> F1 \<and> F1 - {NSURL_F_SCHEME} \<noteq> {}
    \<and> (case path url of Some p \<Rightarrow> peek p = CHR ''/'' | None \<Rightarrow> False)"
  define F2 where "F2 = F1 \<union> punct b2 NSURL_F_AUTHORITY_PUNCTUATION"
  define b3 where "b3 \<longleftrightarrow> F2 \<inter> {NSURL_F_USERNAME, NSURL_F_PASSWORD} \<noteq> {} \<and> NSURL_F_HOST \<in> F2"
  define F3 where "F3 = F2 \<union> punct b3 NSURL_F_CREDENTIALS_PUNCTUATION"
  define b4 where "b4 \<longleftrightarrow> F3 - {NSURL_F_QUERY, NSURL_F_FRAGMENT} \<noteq> {} \<and> NSURL_F_QUERY \<in> F3"
  define F4 where "F4 = F3 \<union> punct b4 NSURL_F_QUERY_PUNCTUATION"
  define b5 where "b5 \<longleftrightarrow> F4 - {NSURL_F_FRAGMENT} \<noteq> {} \<and> NSURL_F_FRAGMENT \<in> F4"
  note F_defs = F4_def F3_def F2_def F1_def
  have "nsurl_get_string_data url parts = (F4 \<union> punct b5 NSURL_F_FRAGMENT_PUNCTUATION, part_lengths (wanted url parts),
      part_total (wanted url parts) + (if b1 then 1 else 0) + (if b2 then 2 else 0) + (if b3 then 1 else 0)
       + (if b4 then 1 else 0) + (if b5 then 1 else 0))"
    unfolding nsurl_get_string_data_def string_parts_eq Let_def prod.case note_punctuation_eq fst_conv snd_conv
      F_def [symmetric] b1_def [symmetric] F1_def [symmetric] b2_def [symmetric] F2_def [symmetric]
      b3_def [symmetric] F3_def [symmetric] b4_def [symmetric] F4_def [symmetric] b5_def [symmetric]
    by (rule refl)
  with assms have data: "flags = F4 \<union> punct b5 NSURL_F_FRAGMENT_PUNCTUATION" "lengths = part_lengths (wanted url parts)"
      "url_l = part_total (wanted url parts) + (if b1 then 1 else 0) + (if b2 then 2 else 0) + (if b3 then 1 else 0)
       + (if b4 then 1 else 0) + (if b5 then 1 else 0)"
    by simp_all
  have only: "b4 \<longrightarrow> wanted url parts NSURL_QUERY \<noteq> None" "b5 \<longrightarrow> wanted url parts NSURL_FRAGMENT \<noteq> None"
    by (auto simp: b4_def b5_def F_defs F_def part_flags_def)
  show ?thesis
    by (rule that [OF _ data(2,3) only]) (simp add: data(1) F_defs F_def)
qed

lemma wanted_component: "wanted url parts part \<noteq> None \<Longrightarrow> component_of part url = wanted url parts part"
  by (simp add: wanted_def split: if_splits)

lemma copy_wanted:
  "wanted url parts part = Some s \<Longrightarrow> c = component_of part url \<Longrightarrow> copy_part c (clen (wanted url parts part)) = s"
  using wanted_component [of url parts part] by (simp add: copy_part_def)

text \<open>The text of the components in \<open>w\<close> with the punctuation that the flags call for.\<close>

definition text_of :: "(nsurl_component \<Rightarrow> string option) \<Rightarrow> bool \<Rightarrow> bool \<Rightarrow> bool \<Rightarrow> bool \<Rightarrow> bool \<Rightarrow> string" where
  "text_of w b1 b2 b3 b4 b5 = opt_text [] (w NSURL_SCHEME) @ (if b1 then '':'' else []) @ (if b2 then ''//'' else [])
     @ opt_text [] (w NSURL_USERNAME) @ opt_text '':'' (w NSURL_PASSWORD) @ (if b3 then ''@'' else [])
     @ opt_text [] (w NSURL_HOST) @ opt_text '':'' (w NSURL_PORT) @ opt_text [] (w NSURL_PATH)
     @ opt_text (if b4 then ''?'' else []) (w NSURL_QUERY) @ opt_text (if b5 then ''#'' else []) (w NSURL_FRAGMENT)"

lemma part_text:
  assumes "c = component_of part url"
  shows "(if wanted url parts part \<noteq> None then pre @ copy_part c (clen (wanted url parts part)) else [])
    = opt_text pre (wanted url parts part)"
  using copy_wanted [OF _ assms, of parts] by auto

lemma get_string_eq:
  assumes "flags = part_flags (wanted url parts) \<union> punct b1 NSURL_F_SCHEME_PUNCTUATION \<union> punct b2 NSURL_F_AUTHORITY_PUNCTUATION
       \<union> punct b3 NSURL_F_CREDENTIALS_PUNCTUATION \<union> punct b4 NSURL_F_QUERY_PUNCTUATION \<union> punct b5 NSURL_F_FRAGMENT_PUNCTUATION"
  shows "nsurl_get_string url (part_lengths (wanted url parts)) flags = text_of (wanted url parts) b1 b2 b3 b4 b5"
proof -
  let ?w = "wanted url parts"
  have f: "NSURL_F_SCHEME \<in> flags \<longleftrightarrow> ?w NSURL_SCHEME \<noteq> None" "NSURL_F_USERNAME \<in> flags \<longleftrightarrow> ?w NSURL_USERNAME \<noteq> None"
      "NSURL_F_PASSWORD \<in> flags \<longleftrightarrow> ?w NSURL_PASSWORD \<noteq> None" "NSURL_F_HOST \<in> flags \<longleftrightarrow> ?w NSURL_HOST \<noteq> None"
      "NSURL_F_PORT \<in> flags \<longleftrightarrow> ?w NSURL_PORT \<noteq> None" "NSURL_F_PATH \<in> flags \<longleftrightarrow> ?w NSURL_PATH \<noteq> None"
      "NSURL_F_QUERY \<in> flags \<longleftrightarrow> ?w NSURL_QUERY \<noteq> None" "NSURL_F_FRAGMENT \<in> flags \<longleftrightarrow> ?w NSURL_FRAGMENT \<noteq> None"
      "NSURL_F_SCHEME_PUNCTUATION \<in> flags \<longleftrightarrow> b1" "NSURL_F_AUTHORITY_PUNCTUATION \<in> flags \<longleftrightarrow> b2"
      "NSURL_F_CREDENTIALS_PUNCTUATION \<in> flags \<longleftrightarrow> b3" "NSURL_F_QUERY_PUNCTUATION \<in> flags \<longleftrightarrow> b4"
      "NSURL_F_FRAGMENT_PUNCTUATION \<in> flags \<longleftrightarrow> b5"
    using assms by (simp_all add: part_flags_def)
  have l: "len_scheme (part_lengths ?w) = clen (?w NSURL_SCHEME)" "len_username (part_lengths ?w) = clen (?w NSURL_USERNAME)"
      "len_password (part_lengths ?w) = clen (?w NSURL_PASSWORD)" "len_host (part_lengths ?w) = clen (?w NSURL_HOST)"
      "len_port (part_lengths ?w) = clen (?w NSURL_PORT)" "len_path (part_lengths ?w) = clen (?w NSURL_PATH)"
      "len_query (part_lengths ?w) = clen (?w NSURL_QUERY)" "len_fragment (part_lengths ?w) = clen (?w NSURL_FRAGMENT)"
    by (simp_all add: part_lengths_def)
  note t = part_text [where pre = "[]", unfolded append.append_Nil] part_text
  show ?thesis
    unfolding nsurl_get_string_def f l text_of_def
    by (simp only: t [of _ NSURL_SCHEME] t [of _ NSURL_USERNAME] t [of _ NSURL_PASSWORD] t [of _ NSURL_HOST]
        t [of _ NSURL_PORT] t [of _ NSURL_PATH] t [of _ NSURL_QUERY] t [of _ NSURL_FRAGMENT] component_of_simps)
qed

lemma text_of_length:
  assumes "b4 \<longrightarrow> w NSURL_QUERY \<noteq> None" "b5 \<longrightarrow> w NSURL_FRAGMENT \<noteq> None"
  shows "length (text_of w b1 b2 b3 b4 b5) = part_total w + (if b1 then 1 else 0) + (if b2 then 2 else 0)
    + (if b3 then 1 else 0) + (if b4 then 1 else 0) + (if b5 then 1 else 0)"
proof -
  have q: "length (opt_text (if b4 then ''?'' else []) (w NSURL_QUERY)) = clen (w NSURL_QUERY) + (if b4 then 1 else 0)"
    and f: "length (opt_text (if b5 then ''#'' else []) (w NSURL_FRAGMENT)) = clen (w NSURL_FRAGMENT) + (if b5 then 1 else 0)"
    using assms by (auto simp: opt_text_length)
  have p: "length (if b then x else []) = (if b then length x else 0)" for b and x :: string by simp
  show ?thesis unfolding text_of_def length_append q f p part_total_def by (simp add: opt_text_length)
qed

lemma string_data_exact:
  assumes "nsurl_get_string_data url parts = (flags, lengths, url_l)"
  shows "length (nsurl_get_string url lengths flags) = url_l"
  by (rule string_data_shape [OF assms]) (simp add: get_string_eq text_of_length)

text \<open>The whole URL; \<open>url_text\<close> is what its string should be.\<close>

definition url_text :: "nsurl_components \<Rightarrow> string" where
  "url_text c = opt_text [] (scheme c) @ '':''
     @ (if \<exists>p. path c = Some p \<and> peek p = CHR ''/'' then ''//'' else [])
     @ opt_text [] (username c) @ opt_text '':'' (password c)
     @ (if (username c \<noteq> None \<or> password c \<noteq> None) \<and> host c \<noteq> None then ''@'' else [])
     @ opt_text [] (host c) @ opt_text '':'' (port c) @ opt_text [] (path c)
     @ opt_text ''?'' (query c) @ opt_text ''#'' (fragment c)"

lemma WITH_FRAGMENT_all: "part \<in> NSURL_WITH_FRAGMENT"
  by (cases part) (simp_all add: NSURL_WITH_FRAGMENT_def NSURL_COMPLETE_def NSURL_AUTHORITY_def NSURL_CREDENTIALS_def)

lemma data_with_fragment:
  assumes "scheme c \<noteq> None" "nsurl_get_string_data c NSURL_WITH_FRAGMENT = (flags, lengths, url_l)"
  shows "nsurl_get_string c lengths flags = url_text c \<and> url_l = length (url_text c)"
proof -
  let ?w = "wanted c NSURL_WITH_FRAGMENT"
  have w: "?w part = component_of part c" for part by (simp add: wanted_def WITH_FRAGMENT_all)
  have sch: "NSURL_F_SCHEME \<in> part_flags ?w" using assms(1) by (simp add: part_flags_def w)
  let ?slash = "case path c of Some p \<Rightarrow> peek p = CHR ''/'' | None \<Rightarrow> False"
  let ?creds = "(username c \<noteq> None \<or> password c \<noteq> None) \<and> host c \<noteq> None"
  define F where "F = part_flags ?w"
  define F1 where "F1 = F \<union> punct True NSURL_F_SCHEME_PUNCTUATION"
  define F2 where "F2 = F1 \<union> punct ?slash NSURL_F_AUTHORITY_PUNCTUATION"
  define F3 where "F3 = F2 \<union> punct ?creds NSURL_F_CREDENTIALS_PUNCTUATION"
  define F4 where "F4 = F3 \<union> punct (query c \<noteq> None) NSURL_F_QUERY_PUNCTUATION"
  have c1: "(NSURL_F_SCHEME \<in> F \<and> NSURL_WITH_FRAGMENT - {NSURL_SCHEME} \<noteq> {}) = True"
    using sch WITH_FRAGMENT_all [of NSURL_PATH] by (auto simp: F_def)
  have c2: "(NSURL_F_SCHEME \<in> F1 \<and> F1 - {NSURL_F_SCHEME} \<noteq> {} \<and> ?slash) = ?slash"
    using sch by (auto simp: F1_def F_def split: option.splits)
  have c3: "(F2 \<inter> {NSURL_F_USERNAME, NSURL_F_PASSWORD} \<noteq> {} \<and> NSURL_F_HOST \<in> F2) = ?creds"
    by (auto simp: F2_def F1_def F_def part_flags_def w)
  have c4: "(F3 - {NSURL_F_QUERY, NSURL_F_FRAGMENT} \<noteq> {} \<and> NSURL_F_QUERY \<in> F3) = (query c \<noteq> None)"
    using sch by (auto simp: F3_def F2_def F1_def F_def part_flags_def w)
  have c5: "(F4 - {NSURL_F_FRAGMENT} \<noteq> {} \<and> NSURL_F_FRAGMENT \<in> F4) = (fragment c \<noteq> None)"
    using sch by (auto simp: F4_def F3_def F2_def F1_def F_def part_flags_def w)
  have "nsurl_get_string_data c NSURL_WITH_FRAGMENT = (F4 \<union> punct (fragment c \<noteq> None) NSURL_F_FRAGMENT_PUNCTUATION,
      part_lengths ?w, part_total ?w + (if True then 1 else 0) + (if ?slash then 2 else 0) + (if ?creds then 1 else 0)
       + (if query c \<noteq> None then 1 else 0) + (if fragment c \<noteq> None then 1 else 0))"
    unfolding nsurl_get_string_data_def string_parts_eq Let_def prod.case note_punctuation_eq fst_conv snd_conv
      F_def [symmetric] c1 F1_def [symmetric] c2 F2_def [symmetric] c3 F3_def [symmetric] c4 F4_def [symmetric] c5
    by (rule refl)
  then have flags: "flags = F4 \<union> punct (fragment c \<noteq> None) NSURL_F_FRAGMENT_PUNCTUATION" and lengths: "lengths = part_lengths ?w"
    using assms(2) by simp_all
  have "nsurl_get_string c lengths flags = text_of ?w True ?slash ?creds (query c \<noteq> None) (fragment c \<noteq> None)"
    unfolding lengths by (rule get_string_eq) (simp add: flags F4_def F3_def F2_def F1_def F_def)
  also have "\<dots> = url_text c"
  proof -
    have "?slash = (\<exists>p. path c = Some p \<and> peek p = CHR ''/'')" by (auto split: option.splits)
    moreover have "opt_text (if x \<noteq> None then pre else []) x = opt_text pre x" for pre x by (cases x) simp_all
    ultimately show ?thesis unfolding text_of_def url_text_def w component_of_simps by simp
  qed
  finally show ?thesis using string_data_exact [OF assms(2)] by simp
qed

lemma components_to_string_all:
  assumes "scheme c \<noteq> None"
  shows "nsurl_components_to_string c NSURL_WITH_FRAGMENT m = (let (ok, m) = mem_alloc m in
    if \<not> ok then (Inl NSERROR_NOMEM, m) else (Inr (url_text c, length (url_text c)), m))"
proof -
  obtain flags lengths url_l where d: "nsurl_get_string_data c NSURL_WITH_FRAGMENT = (flags, lengths, url_l)"
    using prod_cases3 by blast
  have "url_text c \<noteq> []" by (simp add: url_text_def)
  then show ?thesis using data_with_fragment [OF assms d]
    by (cases "mem_alloc m") (simp add: nsurl_components_to_string_def d)
qed

section \<open>URL objects\<close>

definition nsurl_ref :: "nsurl \<Rightarrow> nsurl" where
  "nsurl_ref url = url\<lparr>count := count url + 1\<rparr>"

text \<open>Null-safe references to all components, and giving them back.\<close>

definition nsurl_component_copy :: "string option \<Rightarrow> hmem \<Rightarrow> hmem" where
  "nsurl_component_copy c m = (if c = None then m else lwc_string_ref m)"

definition nsurl_component_drop :: "string option \<Rightarrow> hmem \<Rightarrow> hmem" where
  "nsurl_component_drop c m = (if c = None then m else lwc_string_unref m)"

definition all_components :: "nsurl_components \<Rightarrow> string option list" where
  "all_components c = [scheme c, username c, password c, host c, port c, path c, query c, fragment c]"

definition nsurl_components_destroy :: "nsurl_components \<Rightarrow> hmem \<Rightarrow> hmem" where
  "nsurl_components_destroy c m = fold nsurl_component_drop (all_components c) m"

definition nsurl_unref :: "nsurl \<Rightarrow> hmem \<Rightarrow> nsurl option \<times> hmem" where
  "nsurl_unref url m = (let url = url\<lparr>count := count url - 1\<rparr> in
     if count url > 0 then (Some url, m)
     else (None, mem_free (nsurl_components_destroy (components url) m)))"

definition nsurl_get_component :: "nsurl \<Rightarrow> nsurl_component \<Rightarrow> hmem \<Rightarrow> string option \<times> hmem" where
  "nsurl_get_component url part m = (case component_of part (components url) of
     Some s \<Rightarrow> (Some s, lwc_string_ref m) | None \<Rightarrow> (None, m))"

definition nsurl_has_component :: "nsurl \<Rightarrow> nsurl_component \<Rightarrow> bool" where
  "nsurl_has_component url part \<longleftrightarrow> component_of part (components url) \<noteq> None"

definition nsurl_get_scheme_type :: "nsurl \<Rightarrow> nsurl_scheme_type" where
  "nsurl_get_scheme_type url = scheme_type (components url)"

definition nsurl_access :: "nsurl \<Rightarrow> string" where
  "nsurl_access url = url_string url"

definition nsurl_length :: "nsurl \<Rightarrow> nat" where
  "nsurl_length url = url_length url"

definition nsurl_hash :: "nsurl \<Rightarrow> 32 word" where
  "nsurl_hash url = hash url"

definition nsurl_access_log :: "nsurl \<Rightarrow> string" where
  "nsurl_access_log url =
     (if scheme_type (components url) = NSURL_SCHEME_DATA then ''[data url]'' else url_string url)"

text \<open>The last segment of a path; the loop of \<^verbatim>\<open>nsurl_access_leaf\<close> steps back at least once.\<close>

function leaf_back :: "string \<Rightarrow> nat \<Rightarrow> nat" where
  "leaf_back p leaf = (let leaf = leaf - 1 in
     if leaf \<noteq> 0 \<and> p ! leaf \<noteq> CHR ''/'' then leaf_back p leaf else leaf)"
  by pat_completeness auto
termination by (relation "measure snd") auto

declare leaf_back.simps [simp del]

definition nsurl_access_leaf :: "nsurl \<Rightarrow> string" where
  "nsurl_access_leaf url = (case path (components url) of
     None \<Rightarrow> []
   | Some p \<Rightarrow>
       if p = [] then []
       else if p = ''/'' then ''/''
       else let leaf = leaf_back p (length p);
         leaf = (if p ! leaf = CHR ''/'' then leaf + 1 else leaf)
       in drop leaf p)"

section \<open>Deriving URLs\<close>

text \<open>
  The new object of a derived URL: its string is assembled by \<^verbatim>\<open>memcpy\<close>, the other
  components are copied, the hash is computed again.
\<close>

definition nsurl_object :: "nsurl_components \<Rightarrow> nat \<Rightarrow> string \<Rightarrow> hmem \<Rightarrow> nsurl" where
  "nsurl_object c len s m = \<lparr>components = c, count = 1, hash = nsurl_calc_hash c m, url_length = len, url_string = s\<rparr>"

definition nsurl_defragment :: "nsurl \<Rightarrow> hmem \<Rightarrow> (nserror + nsurl) \<times> hmem" where
  "nsurl_defragment url m = (let c = components url in
     if fragment c = None then (Inr (nsurl_ref url), m)
     else let len = url_length url - (1 + clen (fragment c)); (ok, m) = mem_alloc m in
       if \<not> ok then (Inl NSERROR_NOMEM, m)
       else let c' = c\<lparr>fragment := None\<rparr>;
         m = fold nsurl_component_copy [scheme c, username c, password c, host c, port c, path c, query c] m
       in (Inr (nsurl_object c' len (take len (url_string url)) m), m))"

definition nsurl_refragment :: "nsurl \<Rightarrow> string \<Rightarrow> hmem \<Rightarrow> (nserror + nsurl) \<times> hmem" where
  "nsurl_refragment url frag m = (let c = components url;
     base_len = (if fragment c \<noteq> None then url_length url - (1 + clen (fragment c)) else url_length url);
     len = base_len + 1 + length frag;
     (ok, m) = mem_alloc m
   in if \<not> ok then (Inl NSERROR_NOMEM, m)
      else let c' = c\<lparr>fragment := Some frag\<rparr>;
        m = fold nsurl_component_copy [scheme c, username c, password c, host c, port c, path c, query c] m;
        m = lwc_string_ref m
      in (Inr (nsurl_object c' len (take base_len (url_string url) @ ''#'' @ frag) m), m))"

definition nsurl_replace_query :: "nsurl \<Rightarrow> string \<Rightarrow> hmem \<Rightarrow> (nserror + nsurl) \<times> hmem" where
  "nsurl_replace_query url new m = (let c = components url;
     (interned, m) = (if new \<noteq> [] then mem_alloc m else (True, m))
   in if \<not> interned then (Inl NSERROR_NOMEM, m)
   else let
     lwc_query = (if new \<noteq> [] then Some new else None);
     frag_len = clen (fragment c);
     base_len = url_length url - (if query c \<noteq> None then 1 + clen (query c) else 0)
       - (if fragment c \<noteq> None then 1 + frag_len else 0);
     len = (if new \<noteq> [] then length new + 1 else 0) + (if fragment c \<noteq> None then frag_len + 1 else 0) + base_len;
     (ok, m) = mem_alloc m
   in if \<not> ok then (Inl NSERROR_NOMEM, if new \<noteq> [] then lwc_string_unref m else m)
      else let s = take base_len (url_string url) @ (if new \<noteq> [] then ''?'' @ new else [])
          @ (case fragment c of Some frag \<Rightarrow> ''#'' @ frag | None \<Rightarrow> []);
        c' = c\<lparr>query := lwc_query\<rparr>;
        m = fold nsurl_component_copy [scheme c, username c, password c, host c, port c, path c, fragment c] m
      in (Inr (nsurl_object c' len s m), m))"

text \<open>The scheme type of a new scheme, by caseless comparison with the known ones.\<close>

fun match_scheme :: "(string \<times> nsurl_scheme_type) list \<Rightarrow> string \<Rightarrow> hmem \<Rightarrow> nsurl_scheme_type \<times> hmem" where
  "match_scheme [] s m = (NSURL_SCHEME_OTHER, m)"
| "match_scheme ((name, type) # known) s m = (let (eq, m) = lwc_caseless_match s name m
     in if eq then (type, m) else match_scheme known s m)"

definition known_schemes :: "(string \<times> nsurl_scheme_type) list" where
  "known_schemes = [(''http'', NSURL_SCHEME_HTTP), (''https'', NSURL_SCHEME_HTTPS), (''file'', NSURL_SCHEME_FILE),
     (''ftp'', NSURL_SCHEME_FTP), (''mailto'', NSURL_SCHEME_MAILTO)]"

definition nsurl_replace_scheme :: "nsurl \<Rightarrow> string \<Rightarrow> hmem \<Rightarrow> (nserror + nsurl) \<times> hmem" where
  "nsurl_replace_scheme url new m = (let c = components url;
     base_len = (if scheme c \<noteq> None then url_length url - clen (scheme c) else url_length url);
     len = base_len + length new;
     (ok, m) = mem_alloc m
   in if \<not> ok then (Inl NSERROR_NOMEM, m)
      else let s = new @ take base_len (drop (url_length url - base_len) (url_string url));
        m = fold nsurl_component_copy [username c, password c, host c, port c, path c, query c, fragment c] (lwc_string_ref m);
        (type, m) = match_scheme known_schemes new m;
        c' = c\<lparr>scheme := Some new, scheme_type := type\<rparr>
      in (Inr (nsurl_object c' len s m), m))"

text \<open>The length of a path up to and including the \<^verbatim>\<open>/\<close> before its last segment.\<close>

fun work_back :: "string \<Rightarrow> nat \<Rightarrow> nat" where
  "work_back p 0 = 0"
| "work_back p (Suc n) = (if p ! n \<noteq> CHR ''/'' then work_back p n else Suc n)"

definition parent_path_length :: "string option \<Rightarrow> nat" where
  "parent_path_length p = (case p of None \<Rightarrow> 0
     | Some p \<Rightarrow>
         if length p > 1 then
           let new_path_len = (if p ! (length p - 1) = CHR ''/'' then length p - 1 else length p)
           in work_back p new_path_len
         else length p)"

definition nsurl_parent :: "nsurl \<Rightarrow> hmem \<Rightarrow> (nserror + nsurl) \<times> hmem" where
  "nsurl_parent url m = (let c = components url;
     old_path_len = clen (path c);
     new_path_len = parent_path_length (path c);
     len = url_length url - clen (query c);
     len = (if fragment c \<noteq> None then len - 1 - clen (fragment c) else len);
     len = len - (old_path_len - new_path_len);
     (ok, m) = mem_alloc m
   in if \<not> ok then (Inl NSERROR_NOMEM, m)
   else let
     (interned, new_path, m) =
       (if old_path_len = 0 then (True, None, m)
        else if old_path_len = new_path_len then (True, path c, lwc_string_ref m)
        else let (ok, m) = mem_alloc m in (ok, map_option (take new_path_len) (path c), m))
   in if \<not> interned then (Inl NSERROR_NOMEM, mem_free m)
      else let c' = c\<lparr>path := new_path, query := None, fragment := None\<rparr>;
        m = fold nsurl_component_copy [scheme c, username c, password c, host c, port c] m
      in (Inr (nsurl_object c' len (take len (url_string url)) m), m))"

end
