(* ===== verification/Nsurl_Derive.thy ===== *)
theory Nsurl_Derive
  imports Nsurl
begin

text \<open>
  What the operations on URL objects promise: strings are as long as announced, and a
  derived URL is the URL of the changed components.
\<close>

section \<open>Strings fit their buffers\<close>

text \<open>
  The length that \<^verbatim>\<open>nsurl__get_string_data\<close> computes, by which the buffer is
  allocated, is exactly the number of characters that \<^verbatim>\<open>nsurl__get_string\<close> writes, for
  every set of components and every selection of parts.
\<close>

theorem nsurl_string_fits:
  "case nsurl_get_string_data url parts of (flags, lengths, url_l) \<Rightarrow> length (nsurl_get_string url lengths flags) = url_l"
  using string_data_exact [of url parts] by (auto split: prod.splits)

section \<open>Well-formed URL objects\<close>

definition nsurl_wf :: "hmem \<Rightarrow> nsurl \<Rightarrow> bool" where
  "nsurl_wf m url \<longleftrightarrow> scheme (components url) \<noteq> None \<and> url_string url = url_text (components url)
     \<and> url_length url = length (url_string url) \<and> hash url = nsurl_calc_hash (components url) m"

lemma calc_hash_cong:
  assumes "hm_hash m = hm_hash m'"
  shows "nsurl_calc_hash c m = nsurl_calc_hash c m'"
  unfolding nsurl_calc_hash_def assms by (rule refl)

lemma hm_hash_simps [simp]:
  "hm_hash (mem_free m) = hm_hash m" "hm_hash (lwc_string_ref m) = hm_hash m" "hm_hash (lwc_string_unref m) = hm_hash m"
  "hm_hash (nsurl_component_copy c m) = hm_hash m"
  by (simp_all add: mem_free_def lwc_string_ref_def lwc_string_unref_def nsurl_component_copy_def)

lemma hm_hash_alloc: "mem_alloc m = (ok, m') \<Longrightarrow> hm_hash m' = hm_hash m"
  unfolding mem_alloc_def by (cases "alloc (hm_oracle m)") clarsimp

lemma hm_hash_copies [simp]: "hm_hash (fold nsurl_component_copy cs m) = hm_hash m"
  by (induction cs arbitrary: m) simp_all

lemma nsurl_wf_object [simp]:
  "nsurl_wf m (nsurl_object c len s m) \<longleftrightarrow> scheme c \<noteq> None \<and> s = url_text c \<and> len = length s"
  by (simp add: nsurl_wf_def nsurl_object_def)

text \<open>The text before the query, and after the scheme.\<close>

definition url_body :: "nsurl_components \<Rightarrow> string" where
  "url_body c = (if \<exists>p. path c = Some p \<and> peek p = CHR ''/'' then ''//'' else [])
     @ opt_text [] (username c) @ opt_text '':'' (password c)
     @ (if (username c \<noteq> None \<or> password c \<noteq> None) \<and> host c \<noteq> None then ''@'' else [])
     @ opt_text [] (host c) @ opt_text '':'' (port c)"

lemma url_text_body:
  "url_text c = opt_text [] (scheme c) @ '':'' @ url_body c @ opt_text [] (path c) @ opt_text ''?'' (query c) @ opt_text ''#'' (fragment c)"
  by (simp add: url_text_def url_body_def)

lemma url_body_cong [simp]:
  "url_body (c\<lparr>fragment := f\<rparr>) = url_body c" "url_body (c\<lparr>query := q\<rparr>) = url_body c"
  "url_body (c\<lparr>scheme := s\<rparr>) = url_body c" "url_body (c\<lparr>scheme_type := t\<rparr>) = url_body c"
  by (simp_all add: url_body_def)

text \<open>What a derivation gives: an error that changes nothing, or the URL of the new components.\<close>

definition derives :: "hmem \<Rightarrow> nsurl_components \<Rightarrow> (nserror + nsurl) \<times> hmem \<Rightarrow> bool" where
  "derives m c = (\<lambda>(res, m'). case res of
     Inl e \<Rightarrow> e = NSERROR_NOMEM \<and> hm_live m' = hm_live m
   | Inr url \<Rightarrow> nsurl_wf m' url \<and> components url = c)"

lemma derives_simps [simp]:
  "derives m c (Inl e, m') \<longleftrightarrow> e = NSERROR_NOMEM \<and> hm_live m' = hm_live m"
  "derives m c (Inr url, m') \<longleftrightarrow> nsurl_wf m' url \<and> components url = c"
  by (simp_all add: derives_def)

lemma object_components [simp]: "components (nsurl_object c len s m) = c"
  by (simp add: nsurl_object_def)

lemma derive_defragment:
  assumes "nsurl_wf m url"
  shows "derives m ((components url)\<lparr>fragment := None\<rparr>) (nsurl_defragment url m)"
proof (cases "fragment (components url)")
  case None
  then show ?thesis using assms by (simp add: nsurl_defragment_def nsurl_ref_def nsurl_wf_def)
next
  case (Some f)
  let ?c = "components url"
  have "take (url_length url - Suc (length f)) (url_string url) = url_text (?c\<lparr>fragment := None\<rparr>)"
    using assms Some by (simp add: nsurl_wf_def url_text_body)
  moreover have "url_length url - Suc (length f) = length (url_text (?c\<lparr>fragment := None\<rparr>))"
    using assms Some by (simp add: nsurl_wf_def url_text_body)
  moreover have "scheme ?c \<noteq> None" using assms by (simp add: nsurl_wf_def)
  ultimately show ?thesis using Some
    by (cases rule: mem_alloc_cases [of m]) (simp_all add: nsurl_defragment_def Let_def)
qed

lemma derive_refragment:
  assumes "nsurl_wf m url"
  shows "derives m ((components url)\<lparr>fragment := Some f\<rparr>) (nsurl_refragment url f m)"
proof -
  let ?c = "components url"
  define base_len where "base_len = (if fragment ?c \<noteq> None then url_length url - (1 + clen (fragment ?c)) else url_length url)"
  have len: "base_len = length (url_text (?c\<lparr>fragment := None\<rparr>))" "take base_len (url_string url) = url_text (?c\<lparr>fragment := None\<rparr>)"
    using assms by (auto simp: base_len_def nsurl_wf_def url_text_body)
  have "url_text (?c\<lparr>fragment := Some f\<rparr>) = url_text (?c\<lparr>fragment := None\<rparr>) @ ''#'' @ f"
    by (simp add: url_text_body)
  moreover have "scheme ?c \<noteq> None" using assms by (simp add: nsurl_wf_def)
  ultimately show ?thesis
    unfolding nsurl_refragment_def Let_def base_len_def [symmetric] using len
    by (cases rule: mem_alloc_cases [of m]) simp_all
qed

lemma derive_replace_query:
  assumes "nsurl_wf m url"
  shows "derives m ((components url)\<lparr>query := (if q = [] then None else Some q)\<rparr>) (nsurl_replace_query url q m)"
proof -
  let ?c = "components url"
  let ?bare = "?c\<lparr>query := None, fragment := None\<rparr>"
  define base_len where "base_len = url_length url - (if query ?c \<noteq> None then 1 + clen (query ?c) else 0)
    - (if fragment ?c \<noteq> None then 1 + clen (fragment ?c) else 0)"
  have len: "base_len = length (url_text ?bare)" "take base_len (url_string url) = url_text ?bare"
    using assms by (auto simp: base_len_def nsurl_wf_def url_text_body)
  have str: "url_text (?c\<lparr>query := (if q = [] then None else Some q)\<rparr>)
      = url_text ?bare @ (if q \<noteq> [] then ''?'' @ q else []) @ (case fragment ?c of Some frag \<Rightarrow> ''#'' @ frag | None \<Rightarrow> [])"
    by (simp add: url_text_body opt_text_def split: option.splits)
  have sch: "scheme ?c \<noteq> None" using assms by (simp add: nsurl_wf_def)
  obtain interned m1 where i: "(if q \<noteq> [] then mem_alloc m else (True, m)) = (interned, m1)" by force
  show ?thesis
  proof (cases interned)
    case False
    then show ?thesis using i
      by (cases rule: mem_alloc_cases [of m]) (simp_all add: nsurl_replace_query_def split: if_splits)
  next
    case True
    then have live: "hm_live m1 = hm_live m + (if q \<noteq> [] then 1 else 0)"
      using i by (cases rule: mem_alloc_cases [of m]) (auto split: if_splits)
    show ?thesis
      unfolding nsurl_replace_query_def Let_def base_len_def [symmetric] i prod.case
      using True live sch len str
      by (cases rule: mem_alloc_cases [of m1]) (auto split: option.splits)
  qed
qed

lemma derive_replace_scheme:
  assumes "nsurl_wf m url"
  shows "\<exists>t. derives m ((components url)\<lparr>scheme := Some s, scheme_type := t\<rparr>) (nsurl_replace_scheme url s m)"
proof -
  let ?c = "components url"
  define base_len where "base_len = (if scheme ?c \<noteq> None then url_length url - clen (scheme ?c) else url_length url)"
  obtain old where old: "scheme ?c = Some old" using assms by (auto simp: nsurl_wf_def)
  have u: "url_string url = old @ drop (length old) (url_string url)" "url_length url = length (url_string url)"
    "length old \<le> url_length url" using assms old by (auto simp: nsurl_wf_def url_text_body)
  have str: "url_text (?c\<lparr>scheme := Some s, scheme_type := t\<rparr>) = s @ take base_len (drop (url_length url - base_len) (url_string url))"
      "base_len = length (take base_len (drop (url_length url - base_len) (url_string url)))" for t
    using assms old by (auto simp: base_len_def nsurl_wf_def url_text_body)
  show ?thesis
  proof (cases rule: mem_alloc_cases [of m])
    case (1 m1)
    obtain t m2 where t: "match_scheme known_schemes s (fold nsurl_component_copy [username ?c, password ?c, host ?c, port ?c,
        path ?c, query ?c, fragment ?c] (lwc_string_ref m1)) = (t, m2)" by force
    have "nsurl_replace_scheme url s m = (Inr (nsurl_object (?c\<lparr>scheme := Some s, scheme_type := t\<rparr>) (base_len + length s)
        (s @ take base_len (drop (url_length url - base_len) (url_string url))) m2), m2)"
      unfolding nsurl_replace_scheme_def Let_def base_len_def [symmetric] 1(1) prod.case t by simp
    with str show ?thesis by (intro exI [of _ t]) simp
  next
    case (2 m1)
    then show ?thesis by (intro exI) (simp add: nsurl_replace_scheme_def Let_def)
  qed
qed

text \<open>
  C35. Changing one part of a well-formed URL object gives the object of the changed
  components: its string is the text of the new components, its length the length of
  that string, its hash theirs; when memory runs out nothing is kept.
\<close>

theorem nsurl_derived_wf:
  assumes "nsurl_wf m url"
  shows "derives m ((components url)\<lparr>fragment := None\<rparr>) (nsurl_defragment url m)
    \<and> derives m ((components url)\<lparr>fragment := Some frag\<rparr>) (nsurl_refragment url frag m)
    \<and> derives m ((components url)\<lparr>query := (if q = [] then None else Some q)\<rparr>) (nsurl_replace_query url q m)
    \<and> (\<exists>t. derives m ((components url)\<lparr>scheme := Some s, scheme_type := t\<rparr>) (nsurl_replace_scheme url s m))"
  by (intro conjI derive_defragment derive_refragment derive_replace_query derive_replace_scheme assms)

text \<open>The URL \<^verbatim>\<open>http://h/a/b?q#f\<close> as an example.\<close>

definition sample_components :: nsurl_components where
  "sample_components = \<lparr>scheme = Some ''http'', username = None, password = None, host = Some ''h'', port = None,
     path = Some ''/a/b'', query = Some ''q'', fragment = Some ''f'', scheme_type = NSURL_SCHEME_HTTP\<rparr>"

definition sample_url :: nsurl where
  "sample_url = nsurl_object sample_components 16 ''http://h/a/b?q#f'' (hmem_at 0)"

lemma sample_wf: "nsurl_wf (hmem_at 0) sample_url"
  by (simp add: sample_url_def sample_components_def url_text_def)

theorem nsurl_derived_wf_witness:
  "derives (hmem_at 0) (sample_components\<lparr>fragment := None\<rparr>) (nsurl_defragment sample_url (hmem_at 0))"
  using nsurl_derived_wf [OF sample_wf] by (simp add: sample_url_def)

section \<open>The parent of a URL\<close>

lemma work_back_le: "work_back p n \<le> n"
  by (induction n) simp_all

lemma work_back_slash: "0 < n \<Longrightarrow> p ! 0 = CHR ''/'' \<Longrightarrow> 0 < work_back p n"
proof (induction n)
  case (Suc n)
  then show ?case by (cases n) simp_all
qed simp

lemma parent_path_length_le: "parent_path_length (Some p) \<le> length p"
  using work_back_le [of p "length p - 1"] work_back_le [of p "length p"]
  by (auto simp: parent_path_length_def Let_def)

lemma parent_path_slash: "peek p = CHR ''/'' \<Longrightarrow> 0 < parent_path_length (Some p)"
  using work_back_slash [of "length p" p] work_back_slash [of "length p - 1" p]
  by (cases p) (auto simp: parent_path_length_def Let_def)

lemma peek_take: "0 < n \<Longrightarrow> peek (take n p) = peek p"
  by (cases p; cases n) simp_all

definition parent_path :: "string option \<Rightarrow> string option" where
  "parent_path p = (if clen p = 0 then None else map_option (take (parent_path_length p)) p)"

definition parent_components :: "nsurl_components \<Rightarrow> nsurl_components" where
  "parent_components c = c\<lparr>path := parent_path (path c), query := None, fragment := None\<rparr>"

lemma parent_body: "url_body (parent_components c) = url_body c"
proof -
  have "(\<exists>p. parent_path (path c) = Some p \<and> peek p = CHR ''/'') \<longleftrightarrow> (\<exists>p. path c = Some p \<and> peek p = CHR ''/'')"
  proof (cases "path c")
    case (Some p)
    have "peek (take (parent_path_length (Some p)) p) = CHR ''/'' \<longleftrightarrow> peek p = CHR ''/''"
      using parent_path_slash [of p] peek_take [of "parent_path_length (Some p)" p]
      by (cases "parent_path_length (Some p) = 0") auto
    with Some show ?thesis by (cases p) (auto simp: parent_path_def)
  qed (simp add: parent_path_def)
  then show ?thesis unfolding parent_components_def url_body_def by simp
qed

lemma parent_text:
  "url_text (parent_components c) = opt_text [] (scheme c) @ '':'' @ url_body c @ opt_text [] (parent_path (path c))"
  by (simp add: url_text_body parent_body) (simp add: parent_components_def)

lemma nsurl_parent_result:
  assumes "nsurl_wf m url" "nsurl_parent url m = (Inr url', m')"
  obtains len where "url' = nsurl_object (parent_components (components url)) len (take len (url_string url)) m'"
    "len = length (url_text (parent_components (components url))) + (if query (components url) = None then 0 else 1)"
    "take (length (url_text (parent_components (components url)))) (url_string url) = url_text (parent_components (components url))"
    "len \<le> length (url_string url)"
proof -
  let ?c = "components url"
  define npl where "npl = parent_path_length (path ?c)"
  define len where "len = (let len = url_length url - clen (query ?c);
    len = (if fragment ?c \<noteq> None then len - 1 - clen (fragment ?c) else len) in len - (clen (path ?c) - npl))"
  have npl: "npl \<le> clen (path ?c)" using parent_path_length_le
    by (cases "path ?c") (simp_all add: npl_def parent_path_length_def [of None])
  have pp: "opt_text [] (parent_path (path ?c)) = take npl (opt_text [] (path ?c))"
    using npl by (cases "path ?c") (auto simp: parent_path_def npl_def)
  have str: "url_string url = opt_text [] (scheme ?c) @ '':'' @ url_body ?c @ opt_text [] (path ?c) @ opt_text ''?'' (query ?c)
      @ opt_text ''#'' (fragment ?c)" "url_length url = length (url_string url)"
    using assms(1) by (simp_all add: nsurl_wf_def url_text_body)
  have path_len: "length (opt_text [] (path ?c)) = clen (path ?c)" by (simp add: opt_text_length)
  have t: "length (url_text (parent_components ?c)) = length (opt_text [] (scheme ?c)) + 1 + length (url_body ?c) + npl"
    using npl by (simp add: parent_text pp path_len)
  have len: "len = length (url_text (parent_components ?c)) + (if query ?c = None then 0 else 1)"
    using npl unfolding t len_def Let_def str(2) str(1)
    by (cases "path ?c"; cases "query ?c"; cases "fragment ?c") simp_all
  have prefix: "take (length (url_text (parent_components ?c))) (url_string url) = url_text (parent_components ?c)"
    unfolding t str(1) using npl by (simp add: parent_text pp path_len)
  have fits: "len \<le> length (url_string url)"
    unfolding len t str(1) using npl by (cases "path ?c"; cases "query ?c") simp_all
  obtain ok m1 where m1: "mem_alloc m = (ok, m1)" by force
  with assms(2) have ok by (cases ok) (auto simp: nsurl_parent_def Let_def)
  have "url' = nsurl_object (parent_components ?c) len (take len (url_string url)) m'"
  proof (cases "clen (path ?c) = 0 \<or> clen (path ?c) = npl")
    case True
    then show ?thesis using assms(2) m1 \<open>ok\<close>
      unfolding nsurl_parent_def Let_def npl_def [symmetric] len_def parent_components_def
      by (cases "path ?c") (auto simp: parent_path_def npl_def split: if_splits)
  next
    case False
    obtain ok2 m2 where m2: "mem_alloc m1 = (ok2, m2)" by force
    with False assms(2) m1 \<open>ok\<close> have "ok2"
      unfolding nsurl_parent_def Let_def npl_def [symmetric] by (cases ok2) auto
    with False assms(2) m1 m2 \<open>ok\<close> show ?thesis
      unfolding nsurl_parent_def Let_def npl_def [symmetric] len_def parent_components_def
      by (auto simp: parent_path_def npl_def)
  qed
  with len prefix fits show ?thesis by (rule_tac that)
qed



end
