(* ===== verification/Nsurl_Parse.thy ===== *)
theory Nsurl_Parse
  imports Nsurl_Derive "HOL-Library.Monad_Syntax"
begin

text \<open>
  Parsing URL strings (\<^verbatim>\<open>netsurf/utils/nsurl/parse.c\<close>, character classes of
  \<^verbatim>\<open>utils/ascii.h\<close>): the markers between the sections of a URL, the normalisation of
  a section in a scratch buffer, and the components made from it.  Reading outside the
  buffer, or writing past its end, is the result \<^const>\<open>None\<close>.
\<close>

section \<open>Characters\<close>

abbreviation byte_of :: "char \<Rightarrow> int" where
  "byte_of c \<equiv> of_char c"

definition ascii_is_space :: "char \<Rightarrow> bool" where
  "ascii_is_space c \<longleftrightarrow> c = CHR '' '' \<or> c = CHR 0x09 \<or> c = CHR 0x0A \<or> c = CHR 0x0B \<or> c = CHR 0x0C \<or> c = CHR 0x0D"

definition ascii_is_alpha_lower :: "char \<Rightarrow> bool" where
  "ascii_is_alpha_lower c \<longleftrightarrow> 97 \<le> byte_of c \<and> byte_of c \<le> 122"

definition ascii_is_alpha_upper :: "char \<Rightarrow> bool" where
  "ascii_is_alpha_upper c \<longleftrightarrow> 65 \<le> byte_of c \<and> byte_of c \<le> 90"

definition ascii_is_alpha :: "char \<Rightarrow> bool" where
  "ascii_is_alpha c \<longleftrightarrow> ascii_is_alpha_lower c \<or> ascii_is_alpha_upper c"

definition ascii_is_digit :: "char \<Rightarrow> bool" where
  "ascii_is_digit c \<longleftrightarrow> 48 \<le> byte_of c \<and> byte_of c \<le> 57"

definition ascii_is_alphanumerical :: "char \<Rightarrow> bool" where
  "ascii_is_alphanumerical c \<longleftrightarrow> ascii_is_alpha c \<or> ascii_is_digit c"

definition ascii_hex_to_value :: "char \<Rightarrow> int" where
  "ascii_hex_to_value c =
     (if ascii_is_digit c then byte_of c - 48
      else if 97 \<le> byte_of c \<and> byte_of c \<le> 102 then byte_of c - 97 + 10
      else if 65 \<le> byte_of c \<and> byte_of c \<le> 70 then byte_of c - 65 + 10
      else - 256)"

definition ascii_hex_to_value_2_chars :: "char \<Rightarrow> char \<Rightarrow> int" where
  "ascii_hex_to_value_2_chars c1 c2 = 16 * ascii_hex_to_value c1 + ascii_hex_to_value c2"

definition ascii_to_lower :: "char \<Rightarrow> char" where
  "ascii_to_lower c = (if ascii_is_alpha_upper c then char_of (byte_of c + 97 - 65) else c)"

definition digit2uppercase_hex :: "int \<Rightarrow> char" where
  "digit2uppercase_hex digit = ''0123456789ABCDEF'' ! nat digit"

text \<open>The two tables of the source, by the characters they are true for.\<close>

definition nsurl_is_unreserved :: "char \<Rightarrow> bool" where
  "nsurl_is_unreserved c \<longleftrightarrow> ascii_is_alphanumerical c \<or> c \<in> set ''-._~''"

definition nsurl_is_no_escape :: "char \<Rightarrow> bool" where
  "nsurl_is_no_escape c \<longleftrightarrow> 33 \<le> byte_of c \<and> byte_of c \<le> 126 \<and> c \<noteq> CHR 0x22 \<and> c \<noteq> CHR ''%''
     \<and> c \<noteq> CHR ''<'' \<and> c \<noteq> CHR ''>'' \<and> c \<noteq> CHR 0x5C \<and> c \<noteq> CHR ''^'' \<and> c \<noteq> CHR 0x60
     \<and> c \<noteq> CHR ''{'' \<and> c \<noteq> CHR ''}''"

section \<open>Markers\<close>

record url_markers =
  mk_start :: nat
  mk_scheme_end :: nat
  mk_authority :: nat
  mk_colon_first :: nat
  mk_at :: nat
  mk_colon_last :: nat
  mk_path :: nat
  mk_query :: nat
  mk_fragment :: nat
  mk_end :: nat
  mk_scheme_type :: nsurl_scheme_type

text \<open>The character at a position; the terminator is at the length of the string.\<close>

definition char_at :: "string \<Rightarrow> nat \<Rightarrow> char" where
  "char_at s i = (if i < length s then s ! i else CHR 0x00)"

text \<open>\<^verbatim>\<open>while (P(*pos)) pos++;\<close> for a \<open>P\<close> that stops at the terminator.\<close>

definition skip_while :: "(char \<Rightarrow> bool) \<Rightarrow> string \<Rightarrow> nat \<Rightarrow> nat" where
  "skip_while P s pos = pos + length (takeWhile P (drop pos s))"

definition scheme_char :: "char \<Rightarrow> bool" where
  "scheme_char c \<longleftrightarrow> ascii_is_alphanumerical c \<or> c = CHR ''+'' \<or> c = CHR ''-'' \<or> c = CHR ''.''"

definition detect_scheme :: "string \<Rightarrow> nsurl_scheme_type" where
  "detect_scheme name = (let l = map ascii_to_lower name in
     if l = ''http'' then NSURL_SCHEME_HTTP
     else if l = ''https'' then NSURL_SCHEME_HTTPS
     else if l = ''file'' then NSURL_SCHEME_FILE
     else if l = ''ftp'' then NSURL_SCHEME_FTP
     else if l = ''mailto'' then NSURL_SCHEME_MAILTO
     else if l = ''data'' then NSURL_SCHEME_DATA
     else NSURL_SCHEME_OTHER)"

definition set_authority :: "nat \<Rightarrow> url_markers \<Rightarrow> url_markers" where
  "set_authority pos m = m\<lparr>mk_authority := pos, mk_colon_first := pos, mk_at := pos, mk_colon_last := pos, mk_path := pos\<rparr>"

definition scheme_is_http :: "nsurl_scheme_type \<Rightarrow> bool" where
  "scheme_is_http t \<longleftrightarrow> t = NSURL_SCHEME_HTTP \<or> t = NSURL_SCHEME_HTTPS"

definition mark_scheme :: "string \<Rightarrow> bool \<Rightarrow> nat \<Rightarrow> url_markers \<Rightarrow> nat \<times> bool \<times> url_markers" where
  "mark_scheme s joining pos m =
     (if ascii_is_alpha (char_at s pos) then
        let pos = skip_while scheme_char s (pos + 1) in
        if char_at s pos = CHR '':'' then
          let type = detect_scheme (take (pos - mk_start m) (drop (mk_start m) s));
            m = m\<lparr>mk_scheme_end := pos, mk_scheme_type := type\<rparr>;
            pos = pos + 1
          in (pos, scheme_is_http type, set_authority pos m)
        else if \<not> joining then (pos, True, m\<lparr>mk_scheme_type := NSURL_SCHEME_HTTP\<rparr>)
        else (pos, False, m)
      else (pos, False, m))"

definition authority_char :: "char \<Rightarrow> nat \<Rightarrow> url_markers \<Rightarrow> url_markers" where
  "authority_char c pos m =
     (if mk_scheme_type m \<noteq> NSURL_SCHEME_MAILTO \<and> c = CHR '':'' \<and> mk_colon_first m = mk_authority m then m\<lparr>mk_colon_first := pos\<rparr>
      else if mk_scheme_type m \<noteq> NSURL_SCHEME_MAILTO \<and> c = CHR '':'' \<and> mk_colon_first m \<noteq> mk_authority m then m\<lparr>mk_colon_last := pos\<rparr>
      else if c = CHR ''@'' \<and> mk_at m = mk_authority m then m\<lparr>mk_at := pos\<rparr>
      else m)"

function mark_authority :: "string \<Rightarrow> nat \<Rightarrow> url_markers \<Rightarrow> nat \<times> url_markers" where
  "mark_authority s pos m =
     (if pos \<ge> length s then (pos, m)
      else if char_at s pos = CHR ''/'' \<or> char_at s pos = CHR ''?'' \<or> char_at s pos = CHR ''#'' then (pos, m)
      else mark_authority s (pos + 1) (authority_char (char_at s pos) pos m))"
  by pat_completeness auto
termination by (relation "measure (\<lambda>(s, pos, m). length s - pos)") auto

declare mark_authority.simps [simp del]

definition has_authority :: "string \<Rightarrow> bool \<Rightarrow> bool \<Rightarrow> nat \<Rightarrow> url_markers \<Rightarrow> bool" where
  "has_authority s joining is_http pos m \<longleftrightarrow>
     char_at s pos = CHR ''/'' \<and> char_at s (pos + 1) = CHR ''/''
     \<or> is_http \<and> (joining \<and> char_at s pos = CHR ''/'' \<or> \<not> joining \<and> mk_scheme_end m \<noteq> mk_start m)
     \<or> mk_scheme_type m = NSURL_SCHEME_MAILTO"

definition skip_slashes :: "string \<Rightarrow> bool \<Rightarrow> nat \<Rightarrow> nat" where
  "skip_slashes s is_http pos =
     (if \<not> is_http then
        let pos = (if char_at s pos = CHR ''/'' then pos + 1 else pos) in
        if char_at s pos = CHR ''/'' then pos + 1 else pos
      else skip_while (\<lambda>c. c = CHR ''/'') s pos)"

definition mark_path_start :: "string \<Rightarrow> bool \<Rightarrow> bool \<Rightarrow> nat \<Rightarrow> url_markers \<Rightarrow> nat \<times> url_markers" where
  "mark_path_start s joining is_http pos m =
     (if has_authority s joining is_http pos m then
        let (pos, m) = (if char_at s pos = CHR ''/'' then
            let pos = skip_slashes s is_http pos in (pos, set_authority pos m) else (pos, m));
          (pos, m) = mark_authority s pos m
        in (pos, m\<lparr>mk_path := pos\<rparr>)
      else if (pos \<ge> length s \<or> char_at s pos = CHR ''/'') \<and> \<not> joining \<and> is_http then (pos, m\<lparr>mk_path := pos\<rparr>)
      else (pos, m))"

definition mark_rest :: "string \<Rightarrow> nat \<Rightarrow> url_markers \<Rightarrow> nat \<times> url_markers" where
  "mark_rest s pos m = (let
     c = char_at s pos;
     pos = (if c = CHR ''/'' \<or> mk_path m = mk_authority m \<and> c \<noteq> CHR ''?'' \<and> c \<noteq> CHR ''#'' \<and> pos < length s
       then skip_while (\<lambda>c. c \<noteq> CHR ''?'' \<and> c \<noteq> CHR ''#'') s (pos + 1) else pos);
     m = m\<lparr>mk_query := pos\<rparr>;
     pos = (if char_at s pos = CHR ''?'' then skip_while (\<lambda>c. c \<noteq> CHR ''#'') s (pos + 1) else pos);
     m = m\<lparr>mk_fragment := pos\<rparr>;
     pos = (if char_at s pos = CHR ''#'' then length s else pos)
   in (pos, m))"

text \<open>Skip back over trailing white space.\<close>

fun trim_back :: "string \<Rightarrow> nat \<Rightarrow> nat" where
  "trim_back s 0 = 0"
| "trim_back s (Suc n) = (if ascii_is_space (s ! n) then trim_back s n else Suc n)"

text \<open>The clamps after trailing white space, in the order of the source, repetitions included.\<close>

definition clamp_markers :: "url_markers \<Rightarrow> url_markers" where
  "clamp_markers m = (let
     e = mk_end m;
     m = m\<lparr>mk_fragment := min (mk_fragment m) e\<rparr>;
     m = m\<lparr>mk_query := min (mk_query m) e\<rparr>;
     m = m\<lparr>mk_path := min (mk_path m) e\<rparr>;
     m = m\<lparr>mk_colon_last := min (mk_colon_last m) e\<rparr>;
     m = m\<lparr>mk_at := min (mk_at m) e\<rparr>;
     m = m\<lparr>mk_colon_last := min (mk_colon_last m) e\<rparr>
   in m\<lparr>mk_fragment := min (mk_fragment m) e\<rparr>)"

definition nsurl_get_string_markers :: "string \<Rightarrow> bool \<Rightarrow> url_markers" where
  "nsurl_get_string_markers url_s joining = (let
     pos = skip_while ascii_is_space url_s 0;
     m = \<lparr>mk_start = pos, mk_scheme_end = pos, mk_authority = pos, mk_colon_first = pos, mk_at = pos,
       mk_colon_last = pos, mk_path = pos, mk_query = 0, mk_fragment = 0, mk_end = 0, mk_scheme_type = NSURL_SCHEME_OTHER\<rparr>
   in if pos \<ge> length url_s then m\<lparr>mk_query := pos, mk_fragment := pos, mk_end := pos\<rparr>
      else let (pos, is_http, m) = mark_scheme url_s joining pos m;
        (pos, m) = mark_path_start url_s joining is_http pos m;
        (pos, m) = mark_rest url_s pos m;
        m = m\<lparr>mk_end := trim_back url_s pos\<rparr>
      in if mk_end m < pos then clamp_markers m else m)"

definition nsurl_get_longest_section :: "url_markers \<Rightarrow> nat" where
  "nsurl_get_longest_section m = (let
     len = mk_scheme_end m - mk_start m;
     len = (if len < mk_at m - mk_authority m then mk_at m - mk_authority m else len);
     len = (if len < mk_path m - mk_at m then mk_path m - mk_at m else len);
     len = (if len < mk_query m - mk_path m then mk_query m - mk_path m else len);
     len = (if len < mk_fragment m - mk_query m then mk_fragment m - mk_query m else len)
   in if len < mk_end m - mk_fragment m then mk_end m - mk_fragment m else len)"

end
