(* ===== verification/Nsurl_Markers.thy ===== *)
theory Nsurl_Markers
  imports Nsurl_Parse
begin

text \<open>
  The markers of a URL string are in order, whatever the string: the lengths of
  sections that the source computes by unsigned subtraction do not wrap around.
\<close>

section \<open>Skipping\<close>

lemma skip_while_le: "pos \<le> length s \<Longrightarrow> pos \<le> skip_while P s pos \<and> skip_while P s pos \<le> length s"
  using length_takeWhile_le [of P "drop pos s"] by (simp add: skip_while_def)

lemma skip_while_stop: "skip_while P s pos < length s \<Longrightarrow> \<not> P (s ! skip_while P s pos)"
  using nth_length_takeWhile [of P "drop pos s"] by (simp add: skip_while_def)

lemma skip_while_in:
  assumes "pos \<le> i" "i < skip_while P s pos"
  shows "i < length s \<and> P (s ! i)"
proof -
  have i: "i - pos < length (takeWhile P (drop pos s))" using assms by (simp add: skip_while_def)
  then have "P (takeWhile P (drop pos s) ! (i - pos))" by (meson nth_mem set_takeWhileD)
  moreover have "takeWhile P (drop pos s) ! (i - pos) = drop pos s ! (i - pos)" using i by (rule takeWhile_nth)
  moreover have "i - pos < length (drop pos s)" using i length_takeWhile_le [of P "drop pos s"] by linarith
  ultimately show ?thesis using assms(1) by simp
qed

lemma char_at_less: "pos < length s \<Longrightarrow> char_at s pos = s ! pos"
  by (simp add: char_at_def)

lemma char_at_NUL: "char_at s pos = c \<Longrightarrow> c \<noteq> CHR 0x00 \<Longrightarrow> pos < length s \<and> s ! pos = c"
  by (auto simp: char_at_def split: if_splits)

section \<open>Anchors\<close>

text \<open>A position next to a character that is no white space stays inside the trimmed URL.\<close>

definition anchored :: "string \<Rightarrow> nat \<Rightarrow> bool" where
  "anchored s k \<longleftrightarrow> k < length s \<and> \<not> ascii_is_space (s ! k) \<or> 0 < k \<and> k \<le> length s \<and> \<not> ascii_is_space (s ! (k - 1))"

lemma trim_back_le: "trim_back s n \<le> n"
  by (induction n) auto

lemma trim_back_space: "trim_back s n \<le> i \<Longrightarrow> i < n \<Longrightarrow> ascii_is_space (s ! i)"
  by (induction n) (auto simp: less_Suc_eq split: if_splits)

lemma anchored_trim:
  assumes "anchored s k" "k \<le> n" "n = length s"
  shows "k \<le> trim_back s n"
proof (rule ccontr)
  assume less: "\<not> k \<le> trim_back s n"
  from assms(1) show False unfolding anchored_def
  proof (elim disjE conjE)
    assume "k < length s" "\<not> ascii_is_space (s ! k)"
    then show False using trim_back_space [of s n k] less assms by simp
  next
    assume "0 < k" "k \<le> length s" "\<not> ascii_is_space (s ! (k - 1))"
    moreover from this have "trim_back s n \<le> k - 1" "k - 1 < n" using less assms by linarith+
    ultimately show False using trim_back_space [of s n "k - 1"] by simp
  qed
qed

lemma not_space [simp]:
  "\<not> ascii_is_space CHR '':''" "\<not> ascii_is_space CHR ''/''" "\<not> ascii_is_space CHR ''@''"
  by (simp_all add: ascii_is_space_def)

section \<open>The markers of the authority\<close>

definition between :: "string \<Rightarrow> nat \<Rightarrow> nat \<Rightarrow> nat \<Rightarrow> bool" where
  "between s lo pos k \<longleftrightarrow> k = lo \<or> lo \<le> k \<and> k < pos \<and> \<not> ascii_is_space (s ! k)"

definition markers_inv :: "string \<Rightarrow> nat \<Rightarrow> url_markers \<Rightarrow> bool" where
  "markers_inv s pos m \<longleftrightarrow> mk_start m \<le> mk_scheme_end m \<and> mk_scheme_end m \<le> mk_authority m
     \<and> mk_authority m \<le> pos \<and> pos \<le> length s \<and> anchored s (mk_scheme_end m) \<and> anchored s (mk_authority m)
     \<and> between s (mk_authority m) pos (mk_colon_first m) \<and> between s (mk_authority m) pos (mk_at m)
     \<and> between s (mk_authority m) pos (mk_colon_last m)"

lemma between_mono: "between s lo pos k \<Longrightarrow> pos \<le> pos' \<Longrightarrow> between s lo pos' k"
  by (auto simp: between_def)

lemma markers_inv_pos: "markers_inv s pos m \<Longrightarrow> pos \<le> pos' \<Longrightarrow> pos' \<le> length s \<Longrightarrow> markers_inv s pos' m"
  by (auto simp: markers_inv_def intro: between_mono)

lemma markers_inv_cong [simp]:
  "markers_inv s pos (m\<lparr>mk_path := p\<rparr>) = markers_inv s pos m" "markers_inv s pos (m\<lparr>mk_query := p\<rparr>) = markers_inv s pos m"
  "markers_inv s pos (m\<lparr>mk_fragment := p\<rparr>) = markers_inv s pos m" "markers_inv s pos (m\<lparr>mk_end := p\<rparr>) = markers_inv s pos m"
  "markers_inv s pos (m\<lparr>mk_scheme_type := t\<rparr>) = markers_inv s pos m"
  by (simp_all add: markers_inv_def)

lemma set_authority_inv:
  assumes "mk_start m \<le> mk_scheme_end m" "mk_scheme_end m \<le> pos" "pos \<le> length s" "anchored s (mk_scheme_end m)" "anchored s pos"
  shows "markers_inv s pos (set_authority pos m)"
  using assms by (simp add: markers_inv_def set_authority_def between_def)

lemma set_authority_simps [simp]: "mk_path (set_authority p m) = p" "mk_authority (set_authority p m) = p"
  by (simp_all add: set_authority_def)

lemma mark_authority_inv:
  assumes "mark_authority s pos m = (pos', m')" "markers_inv s pos m"
  shows "markers_inv s pos' m' \<and> pos \<le> pos' \<and> mk_authority m' = mk_authority m
    \<and> (pos' < length s \<longrightarrow> s ! pos' \<in> {CHR ''/'', CHR ''?'', CHR ''#''})"
  using assms
proof (induction s pos m rule: mark_authority.induct)
  case (1 s pos m)
  let ?c = "char_at s pos"
  let ?m1 = "authority_char ?c pos m"
  show ?case
  proof (cases "pos \<ge> length s \<or> ?c = CHR ''/'' \<or> ?c = CHR ''?'' \<or> ?c = CHR ''#''")
    case True
    then have "mark_authority s pos m = (pos, m)" by (subst mark_authority.simps) auto
    with 1 True show ?thesis by (auto simp: char_at_less)
  next
    case False
    then have step: "mark_authority s pos m = mark_authority s (pos + 1) ?m1"
      by (subst mark_authority.simps) simp
    have "markers_inv s (pos + 1) ?m1"
    proof -
      have "markers_inv s (pos + 1) m" using 1(3) False markers_inv_pos [of s pos m "pos + 1"] by simp
      moreover have "mk_authority m \<le> pos" using 1(3) by (simp add: markers_inv_def)
      ultimately show ?thesis using False by (auto simp: authority_char_def markers_inv_def between_def char_at_less)
    qed
    moreover have "mk_authority ?m1 = mk_authority m" by (simp add: authority_char_def)
    moreover have "mark_authority s (pos + 1) ?m1 = (pos', m')" using 1(2) step by simp
    ultimately show ?thesis using 1(1) False by auto
  qed
qed

section \<open>All markers\<close>

definition before_path :: "url_markers \<Rightarrow> bool" where
  "before_path m \<longleftrightarrow> mk_authority m \<le> mk_path m \<and> mk_at m \<le> mk_path m \<and> mk_colon_first m \<le> mk_path m \<and> mk_colon_last m \<le> mk_path m"

lemma before_path_simps [simp]:
  "before_path (set_authority p m)" "before_path (m\<lparr>mk_scheme_type := t\<rparr>) = before_path m"
  by (simp_all add: before_path_def set_authority_def)

lemma mark_scheme_inv:
  assumes "mark_scheme s joining pos m = (pos', is_http, m')" "markers_inv s pos m" "pos < length s"
    "mk_start m = pos" "mk_scheme_end m = pos" "mk_authority m = pos" "mk_path m = pos" "before_path m"
  shows "markers_inv s pos' m' \<and> mk_path m' = mk_authority m' \<and> before_path m'"
proof (cases "ascii_is_alpha (char_at s pos)")
  case True
  let ?p = "skip_while scheme_char s (pos + 1)"
  have p: "pos + 1 \<le> ?p" "?p \<le> length s" using skip_while_le [of "pos + 1" s scheme_char] assms(3) by simp_all
  show ?thesis
  proof (cases "char_at s ?p = CHR '':''")
    case colon: True
    then have q: "?p < length s" "s ! ?p = CHR '':''" using char_at_NUL by auto
    then have anch: "anchored s ?p" "anchored s (?p + 1)" by (simp_all add: anchored_def)
    show ?thesis using assms True colon p q anch
      by (auto simp: mark_scheme_def Let_def intro!: set_authority_inv)
  next
    case False
    have inv: "markers_inv s ?p m" using assms(2) p markers_inv_pos [of s pos m ?p] by simp
    have "mark_scheme s joining pos m = (?p, \<not> joining, if joining then m else m\<lparr>mk_scheme_type := NSURL_SCHEME_HTTP\<rparr>)"
      using True False by (simp add: mark_scheme_def Let_def)
    then have "pos' = ?p" "m' = m \<or> m' = m\<lparr>mk_scheme_type := NSURL_SCHEME_HTTP\<rparr>"
      using assms(1) by (simp_all split: if_splits)
    with inv assms(6-) show ?thesis by (elim disjE) simp_all
  qed
next
  case False
  with assms show ?thesis by (auto simp: mark_scheme_def)
qed

lemma skip_slashes_props:
  assumes "pos < length s" "s ! pos = CHR ''/''"
  shows "pos < skip_slashes s h pos \<and> skip_slashes s h pos \<le> length s \<and> s ! (skip_slashes s h pos - 1) = CHR ''/''"
proof (cases h)
  case True
  let ?p = "skip_while (\<lambda>c. c = CHR ''/'') s pos"
  have "?p \<noteq> pos" using skip_while_stop [of "\<lambda>c. c = CHR ''/''" s pos] assms by auto
  then have less: "pos < ?p" "?p \<le> length s" using skip_while_le [of pos s "\<lambda>c. c = CHR ''/''"] assms(1) by simp_all
  then have "s ! (?p - 1) = CHR ''/''" using skip_while_in [of pos "?p - 1" "\<lambda>c. c = CHR ''/''" s] by auto
  with True less show ?thesis by (simp add: skip_slashes_def)
next
  case False
  with assms show ?thesis using char_at_NUL [of s "Suc pos" "CHR ''/''"]
    by (auto simp: skip_slashes_def Let_def char_at_less)
qed

lemma inv_before: "markers_inv s pos m \<Longrightarrow> mk_path m = pos \<Longrightarrow> before_path m"
  by (auto simp: before_path_def markers_inv_def between_def)

lemma mark_path_start_inv:
  assumes "mark_path_start s joining h pos m = (pos', m')" "markers_inv s pos m" "before_path m" "mk_path m \<le> pos"
    "mk_path m = mk_authority m"
  shows "markers_inv s pos' m' \<and> before_path m' \<and> mk_path m' \<le> pos'
    \<and> (mk_path m' \<noteq> mk_authority m' \<longrightarrow> pos' < length s \<longrightarrow> s ! pos' \<in> {CHR ''/'', CHR ''?'', CHR ''#''})"
proof (cases "has_authority s joining h pos m")
  case True
  define pm where "pm = (if char_at s pos = CHR ''/'' then
      let pos = skip_slashes s h pos in (pos, set_authority pos m) else (pos, m))"
  obtain p1 m1 where pm1: "pm = (p1, m1)" by force
  have inv1: "markers_inv s p1 m1"
  proof (cases "char_at s pos = CHR ''/''")
    case slash: True
    then have pos: "pos < length s" "s ! pos = CHR ''/''" using char_at_NUL by auto
    let ?p = "skip_slashes s h pos"
    note props = skip_slashes_props [OF pos, of h]
    then have "anchored s ?p" by (auto simp: anchored_def)
    moreover have "mk_scheme_end m \<le> ?p" using assms(2) props by (auto simp: markers_inv_def)
    ultimately have "markers_inv s ?p (set_authority ?p m)"
      using assms(2) props by (intro set_authority_inv) (auto simp: markers_inv_def)
    then show ?thesis using pm1 slash by (auto simp: pm_def Let_def)
  next
    case False
    with assms(2) pm1 show ?thesis by (auto simp: pm_def)
  qed
  obtain p2 m2 where pm2: "mark_authority s p1 m1 = (p2, m2)" by force
  note inv2 = mark_authority_inv [OF pm2 inv1]
  have "pos' = p2" "m' = m2\<lparr>mk_path := p2\<rparr>"
    using assms(1) True pm2 unfolding mark_path_start_def pm_def [symmetric] pm1 by auto
  then show ?thesis using inv2 inv_before [of s p2 "m2\<lparr>mk_path := p2\<rparr>"] by auto
next
  case False
  then consider "(pos \<ge> length s \<or> char_at s pos = CHR ''/'') \<and> \<not> joining \<and> h" "pos' = pos" "m' = m\<lparr>mk_path := pos\<rparr>"
    | "pos' = pos" "m' = m"
    using assms(1) by (auto simp: mark_path_start_def split: if_splits)
  then show ?thesis
  proof cases
    case 1
    then show ?thesis using assms(2) inv_before [of s pos "m\<lparr>mk_path := pos\<rparr>"] by (auto simp: char_at_less)
  next
    case 2
    with assms show ?thesis by simp
  qed
qed

lemma mark_rest_inv:
  assumes "markers_inv s pos m" "mk_path m \<le> pos"
    "mk_path m \<noteq> mk_authority m \<longrightarrow> pos < length s \<longrightarrow> s ! pos \<in> {CHR ''/'', CHR ''?'', CHR ''#''}"
  obtains q f where "mark_rest s pos m = (length s, m\<lparr>mk_query := q, mk_fragment := f\<rparr>)" "mk_path m \<le> q" "q \<le> f" "f \<le> length s"
proof -
  have le: "pos \<le> length s" using assms(1) by (simp add: markers_inv_def)
  define c where "c = char_at s pos"
  define q where "q = (if c = CHR ''/'' \<or> mk_path m = mk_authority m \<and> c \<noteq> CHR ''?'' \<and> c \<noteq> CHR ''#'' \<and> pos < length s
       then skip_while (\<lambda>c. c \<noteq> CHR ''?'' \<and> c \<noteq> CHR ''#'') s (pos + 1) else pos)"
  have q: "pos \<le> q \<and> q \<le> length s \<and> (q < length s \<longrightarrow> s ! q = CHR ''?'' \<or> s ! q = CHR ''#'')"
  proof (cases "c = CHR ''/'' \<or> mk_path m = mk_authority m \<and> c \<noteq> CHR ''?'' \<and> c \<noteq> CHR ''#'' \<and> pos < length s")
    case True
    then have "pos < length s" using char_at_NUL [of s pos "CHR ''/''"] by (auto simp: c_def)
    with True show ?thesis
      using skip_while_le [of "pos + 1" s "\<lambda>c. c \<noteq> CHR ''?'' \<and> c \<noteq> CHR ''#''"]
        skip_while_stop [of "\<lambda>c. c \<noteq> CHR ''?'' \<and> c \<noteq> CHR ''#''" s "pos + 1"]
      unfolding q_def if_P [OF True] by auto
  next
    case False
    then show ?thesis using assms(3) le unfolding q_def if_not_P [OF False] by (auto simp: c_def char_at_less)
  qed
  define f where "f = (if char_at s q = CHR ''?'' then skip_while (\<lambda>c. c \<noteq> CHR ''#'') s (q + 1) else q)"
  have f: "q \<le> f \<and> f \<le> length s \<and> (f < length s \<longrightarrow> s ! f = CHR ''#'')"
  proof (cases "char_at s q = CHR ''?''")
    case True
    then have "q < length s" using char_at_NUL by auto
    with True show ?thesis
      using skip_while_le [of "q + 1" s "\<lambda>c. c \<noteq> CHR ''#''"] skip_while_stop [of "\<lambda>c. c \<noteq> CHR ''#''" s "q + 1"]
      unfolding f_def if_P [OF True] by auto
  next
    case False
    then show ?thesis using q unfolding f_def if_not_P [OF False] by (auto simp: char_at_less)
  qed
  have "(if char_at s f = CHR ''#'' then length s else f) = length s"
    using f by (cases "f < length s") (auto simp: char_at_less)
  then have "mark_rest s pos m = (length s, m\<lparr>mk_query := q, mk_fragment := f\<rparr>)"
    unfolding mark_rest_def Let_def c_def [symmetric] q_def [symmetric] f_def [symmetric] by simp
  then show ?thesis using that q f assms(2) by auto
qed

definition markers_ordered :: "nat \<Rightarrow> url_markers \<Rightarrow> bool" where
  "markers_ordered n m \<longleftrightarrow> mk_start m \<le> mk_scheme_end m \<and> mk_scheme_end m \<le> mk_authority m
     \<and> mk_authority m \<le> mk_at m \<and> mk_at m \<le> mk_path m \<and> mk_path m \<le> mk_query m \<and> mk_query m \<le> mk_fragment m
     \<and> mk_fragment m \<le> mk_end m \<and> mk_end m \<le> n
     \<and> mk_authority m \<le> mk_colon_first m \<and> mk_colon_first m \<le> mk_path m
     \<and> mk_authority m \<le> mk_colon_last m \<and> mk_colon_last m \<le> mk_path m"

lemma between_trim:
  assumes "between s a pos k" "anchored s a" "a \<le> pos" "pos \<le> length s"
  shows "a \<le> k \<and> k \<le> trim_back s (length s)"
  using assms anchored_trim [of s k "length s"] unfolding between_def by (auto simp: anchored_def)

lemma clamp_ordered:
  assumes "markers_inv s pos m" "before_path m" "mk_path m \<le> q" "q \<le> f" "f \<le> length s"
  shows "markers_ordered (length s) (clamp_markers (m\<lparr>mk_query := q, mk_fragment := f, mk_end := trim_back s (length s)\<rparr>))"
proof -
  let ?e = "trim_back s (length s)"
  have le: "mk_authority m \<le> pos" "pos \<le> length s" and anch: "anchored s (mk_authority m)"
    using assms(1) by (simp_all add: markers_inv_def)
  have "mk_authority m \<le> mk_colon_first m \<and> mk_colon_first m \<le> ?e" "mk_authority m \<le> mk_at m \<and> mk_at m \<le> ?e"
    "mk_authority m \<le> mk_colon_last m \<and> mk_colon_last m \<le> ?e"
    using assms(1) between_trim [OF _ anch le] unfolding markers_inv_def by blast+
  then show ?thesis using assms trim_back_le [of s "length s"]
    by (auto simp: clamp_markers_def Let_def markers_ordered_def before_path_def markers_inv_def)
qed

lemma markers_ordered_get:
  "markers_ordered (length url_s) (nsurl_get_string_markers url_s joining)"
proof -
  let ?s = url_s
  define pos where "pos = skip_while ascii_is_space ?s 0"
  define m0 where "m0 = \<lparr>mk_start = pos, mk_scheme_end = pos, mk_authority = pos, mk_colon_first = pos, mk_at = pos,
       mk_colon_last = pos, mk_path = pos, mk_query = 0, mk_fragment = 0, mk_end = 0, mk_scheme_type = NSURL_SCHEME_OTHER\<rparr>"
  have le: "pos \<le> length ?s" using skip_while_le [of 0] by (simp add: pos_def)
  show ?thesis
  proof (cases "pos \<ge> length ?s")
    case True
    then show ?thesis using le
      unfolding nsurl_get_string_markers_def Let_def pos_def [symmetric] m0_def [symmetric]
      by (simp add: markers_ordered_def m0_def)
  next
    case False
    then have less: "pos < length ?s" by simp
    then have "\<not> ascii_is_space (?s ! pos)" using skip_while_stop [of ascii_is_space ?s 0] by (simp add: pos_def)
    with less have "markers_inv ?s pos m0" by (simp add: m0_def markers_inv_def anchored_def between_def)
    note inv0 = this
    obtain p1 h m1 where s1: "mark_scheme ?s joining pos m0 = (p1, h, m1)" using prod_cases3 by blast
    have inv1: "markers_inv ?s p1 m1" "mk_path m1 = mk_authority m1" "before_path m1"
      using mark_scheme_inv [OF s1 inv0 less] by (simp_all add: m0_def before_path_def)
    then have b1: "mk_path m1 \<le> p1" by (simp add: markers_inv_def)
    obtain p2 m2 where s2: "mark_path_start ?s joining h p1 m1 = (p2, m2)" by force
    note inv2 = mark_path_start_inv [OF s2 inv1(1,3) b1 inv1(2)]
    obtain q f where s3: "mark_rest ?s p2 m2 = (length ?s, m2\<lparr>mk_query := q, mk_fragment := f\<rparr>)"
      and qf: "mk_path m2 \<le> q" "q \<le> f" "f \<le> length ?s"
      using mark_rest_inv [of ?s p2 m2] inv2 by blast
    let ?m = "m2\<lparr>mk_query := q, mk_fragment := f, mk_end := trim_back ?s (length ?s)\<rparr>"
    have "nsurl_get_string_markers ?s joining = (if mk_end ?m < length ?s then clamp_markers ?m else ?m)"
      using False unfolding nsurl_get_string_markers_def Let_def pos_def [symmetric] m0_def [symmetric]
      by (simp add: s1 s2 s3)
    moreover have "markers_ordered (length ?s) (clamp_markers ?m)"
      using clamp_ordered [of ?s p2 m2 q f] inv2 qf by blast
    moreover have "clamp_markers ?m = ?m" if "\<not> mk_end ?m < length ?s"
    proof -
      have "mk_end ?m = length ?s" using that trim_back_le [of ?s "length ?s"] by simp
      then show ?thesis using inv2 qf by (simp add: clamp_markers_def Let_def before_path_def min_def)
    qed
    ultimately show ?thesis by (cases "mk_end ?m < length ?s") simp_all
  qed
qed

text \<open>
  C36. The markers set in a URL string are in order and inside the string, for every
  string, with and without trailing white space: each section starts where the one
  before it ends, and the colons and the at sign lie in the authority, although the
  clamps for trailing white space miss the first colon and repeat another.
\<close>

theorem nsurl_markers_ordered:
  "markers_ordered (length url_s) (nsurl_get_string_markers url_s joining)"
  by (rule markers_ordered_get)

end
