(* ===== verification/Nsurl_Create.thy ===== *)
theory Nsurl_Create
  imports Nsurl_Markers
begin

text \<open>
  From a section of a URL string to components (\<^verbatim>\<open>nsurl__create_from_section\<close>), and
  \<^verbatim>\<open>nsurl_create\<close>.  Sections are normalised in a scratch buffer that keeps what
  earlier sections left in it; offsets into it are C's, so subtraction of sizes wraps
  around at 32 bits and pointers are integers relative to the buffer.  An access outside
  the buffer is \<^const>\<open>None\<close>.
\<close>

section \<open>The scratch buffer\<close>

definition read_buf :: "string \<Rightarrow> int \<Rightarrow> char option" where
  "read_buf buf i = (if 0 \<le> i \<and> i < int (length buf) then Some (buf ! nat i) else None)"

definition sub_buf :: "string \<Rightarrow> int \<Rightarrow> int \<Rightarrow> string option" where
  "sub_buf buf off len =
     (if 0 \<le> off \<and> 0 \<le> len \<and> off + len \<le> int (length buf) then Some (take (nat len) (drop (nat off) buf)) else None)"

definition write_buf :: "string \<Rightarrow> string \<Rightarrow> string option" where
  "write_buf norm buf = (if length norm < length buf then Some (norm @ CHR 0x00 # drop (Suc (length norm)) buf) else None)"

text \<open>A size, after arithmetic at 32 bits.\<close>

definition size_t :: "int \<Rightarrow> int" where
  "size_t n = n mod 2 ^ 32"

lemma size_t_small: "0 \<le> n \<Longrightarrow> n < 2 ^ 32 \<Longrightarrow> size_t n = n"
  by (simp add: size_t_def)

section \<open>Stage 1: normalisation\<close>

text \<open>
  \<open>pending\<close> are the \<^verbatim>\<open>copy_len\<close> characters not yet copied; \<open>lower\<close> says that the
  section is the scheme or the host.
\<close>

fun normalise :: "bool \<Rightarrow> string \<Rightarrow> string \<Rightarrow> string \<Rightarrow> int \<Rightarrow> string \<times> int" where
  "normalise lower [] pending norm len = (norm @ pending, len)"
| "normalise lower (c # s) pending norm len =
     (if c = CHR ''%'' \<and> 2 \<le> length s then
        let ascii_offset = ascii_hex_to_value_2_chars (s ! 0) (s ! 1) in
        if ascii_offset < 0 then normalise lower s (pending @ [c]) norm len
        else if \<not> lower \<and> \<not> nsurl_is_unreserved (char_of ascii_offset) then
          normalise lower (drop 2 s) (pending @ c # take 2 s) norm len
        else normalise lower (drop 2 s) [] (norm @ pending @ [char_of ascii_offset]) (len - 2)
      else if \<not> lower \<and> \<not> nsurl_is_no_escape c then
        normalise lower s []
          (norm @ pending @ [CHR ''%'', digit2uppercase_hex (byte_of c div 16), digit2uppercase_hex (byte_of c mod 16)]) (len + 2)
      else if lower \<and> ascii_is_alpha_upper c then normalise lower s [] (norm @ pending @ [ascii_to_lower c]) len
      else normalise lower s (pending @ [c]) norm len)"

section \<open>Stage 2: components\<close>

datatype url_sections = URL_SCHEME | URL_CREDENTIALS | URL_HOST | URL_PATH | URL_QUERY | URL_FRAGMENT

definition section_range :: "string \<Rightarrow> url_sections \<Rightarrow> url_markers \<Rightarrow> nat \<times> nat" where
  "section_range url_s section pegs = (let
     (start, end) = (case section of
       URL_SCHEME \<Rightarrow> (mk_start pegs, mk_scheme_end pegs)
     | URL_CREDENTIALS \<Rightarrow> (mk_authority pegs, mk_at pegs)
     | URL_HOST \<Rightarrow>
         (if mk_at pegs = mk_authority pegs \<and> char_at url_s (mk_at pegs) \<noteq> CHR ''@'' then mk_at pegs else mk_at pegs + 1,
          mk_path pegs)
     | URL_PATH \<Rightarrow> (mk_path pegs, mk_query pegs)
     | URL_QUERY \<Rightarrow>
         (if char_at url_s (mk_query pegs) \<noteq> CHR ''?'' then mk_query pegs else mk_query pegs + 1, mk_fragment pegs)
     | URL_FRAGMENT \<Rightarrow>
         (if char_at url_s (mk_fragment pegs) \<noteq> CHR ''#'' then mk_fragment pegs else mk_fragment pegs + 1, mk_end pegs))
   in (start, if end < start then start else end))"

text \<open>Interning; on success the string is held.\<close>

type_synonym section_result = "nserror \<times> nsurl_components \<times> hmem"

definition intern_into ::
  "(nsurl_components \<Rightarrow> nsurl_components) \<Rightarrow> nsurl_components \<Rightarrow> hmem \<Rightarrow> section_result" where
  "intern_into store url m = (let (ok, m) = mem_alloc m in
     if ok then (NSERROR_OK, store url, m) else (NSERROR_NOMEM, url, m))"

definition create_scheme :: "string \<Rightarrow> int \<Rightarrow> nsurl_components \<Rightarrow> hmem \<Rightarrow> section_result option" where
  "create_scheme buf len url m =
     (if len = 0 then Some (NSERROR_OK, url\<lparr>scheme := Some ''http''\<rparr>, lwc_string_ref m)
      else do { s \<leftarrow> sub_buf buf 0 len; Some (intern_into (\<lambda>u. u\<lparr>scheme := Some s\<rparr>) url m) })"

definition create_username :: "string \<Rightarrow> int \<Rightarrow> nsurl_components \<Rightarrow> hmem \<Rightarrow> section_result option" where
  "create_username buf len url m =
     do { s \<leftarrow> sub_buf buf 0 len; Some (intern_into (\<lambda>u. u\<lparr>username := Some s\<rparr>) url m) }"

definition create_credentials ::
  "url_markers \<Rightarrow> string \<Rightarrow> int \<Rightarrow> nsurl_components \<Rightarrow> hmem \<Rightarrow> section_result option" where
  "create_credentials pegs buf len url m = (let
     url = url\<lparr>username := None, password := None\<rparr>;
     (colon, authority, at) = (int (mk_colon_first pegs), int (mk_authority pegs), int (mk_at pegs))
   in if scheme_type url = NSURL_SCHEME_FILE then Some (NSERROR_OK, url, m)
      else if len \<noteq> 0 \<and> read_buf buf 0 \<noteq> Some (CHR '':'') then
        if colon \<noteq> authority \<and> at > colon + 1 then do {
          s \<leftarrow> sub_buf buf (colon - authority + 1) (at - colon - 1);
          let (error, url, m) = intern_into (\<lambda>u. u\<lparr>password := Some s\<rparr>) url m;
          if error \<noteq> NSERROR_OK then Some (error, url, m)
          else create_username buf (size_t (len - (at - colon))) url m }
        else create_username buf (if colon \<noteq> authority \<and> at = colon + 1 then len - 1 else len) url m
      else Some (NSERROR_OK, url, m))"

text \<open>Is what follows the colon a port?  \<open>True\<close> means it is not.\<close>

function scan_port :: "string \<Rightarrow> int \<Rightarrow> int \<Rightarrow> bool option" where
  "scan_port buf i len =
     (if i + 1 < len then do {
        c \<leftarrow> read_buf buf (i + 1);
        if \<not> ascii_is_digit c then Some True else scan_port buf (i + 1) len }
      else Some False)"
  by pat_completeness auto
termination by (relation "measure (\<lambda>(buf, i, len). nat (len - i))") auto

declare scan_port.simps [simp del]

definition port_colon :: "url_markers \<Rightarrow> int option" where
  "port_colon pegs =
     (if mk_at pegs < mk_colon_first pegs \<and> mk_colon_last pegs = mk_authority pegs then Some (int (mk_colon_first pegs))
      else if mk_colon_last pegs \<noteq> mk_authority pegs then Some (int (mk_colon_last pegs))
      else None)"

definition create_host_name ::
  "(string \<Rightarrow> string option) \<Rightarrow> string \<Rightarrow> int \<Rightarrow> nsurl_components \<Rightarrow> hmem \<Rightarrow> section_result option" where
  "create_host_name idna_encode buf len url m = do {
     s \<leftarrow> sub_buf buf 0 len;
     Some (case idna_encode s of
       Some h \<Rightarrow> let m = lwc_string_ref m; (error, url, m) = intern_into (\<lambda>u. u\<lparr>host := Some h\<rparr>) url m in
         if error = NSERROR_OK then (error, url, mem_free m) else (error, url, m)
     | None \<Rightarrow> intern_into (\<lambda>u. u\<lparr>host := Some s\<rparr>) url m) }"

definition create_host ::
  "(string \<Rightarrow> string option) \<Rightarrow> url_markers \<Rightarrow> string \<Rightarrow> int \<Rightarrow> nsurl_components \<Rightarrow> hmem \<Rightarrow> section_result option" where
  "create_host idna_encode pegs buf len url m = (let
     url = url\<lparr>host := None, port := None\<rparr>;
     (authority, at) = (int (mk_authority pegs), int (mk_at pegs))
   in if scheme_type url = NSURL_SCHEME_FILE then Some (NSERROR_OK, url, m)
      else if len = 0 then Some (NSERROR_OK, url, m)
      else case port_colon pegs of
        None \<Rightarrow> create_host_name idna_encode buf len url m
      | Some colon \<Rightarrow> do {
          no_port \<leftarrow> scan_port buf (colon - at) len;
          if no_port then create_host_name idna_encode buf len url m
          else let
            skip = (if at = authority then 1 else 0);
            sec_start = colon - at + skip;
            off = size_t sec_start;
            default = (scheme url \<noteq> None \<and> scheme_type url = NSURL_SCHEME_HTTP \<and> size_t (len - off) = 2
              \<and> read_buf buf sec_start = Some (CHR ''8'') \<and> read_buf buf (sec_start + 1) = Some (CHR ''0''))
          in do {
            (error, url, m) \<leftarrow> (if default \<or> len \<le> off then Some (NSERROR_OK, url, m)
              else do { s \<leftarrow> sub_buf buf sec_start (size_t (len - off));
                Some (intern_into (\<lambda>u. u\<lparr>port := Some s\<rparr>) url m) });
            if error \<noteq> NSERROR_OK then Some (error, url, m)
            else create_host_name idna_encode buf
              (size_t (colon - at - (if at = authority then 0 else 1))) url m } })"

definition create_path :: "string \<Rightarrow> int \<Rightarrow> nsurl_components \<Rightarrow> hmem \<Rightarrow> section_result option" where
  "create_path buf len url m =
     (if len \<noteq> 0 then do { s \<leftarrow> sub_buf buf 0 len; Some (intern_into (\<lambda>u. u\<lparr>path := Some s\<rparr>) url m) }
      else if host url \<noteq> None \<and> scheme_type url \<noteq> NSURL_SCHEME_MAILTO \<or> scheme_type url = NSURL_SCHEME_FILE then
        Some (intern_into (\<lambda>u. u\<lparr>path := Some ''/''\<rparr>) url m)
      else Some (NSERROR_OK, url\<lparr>path := None\<rparr>, m))"

definition create_query :: "string \<Rightarrow> int \<Rightarrow> nsurl_components \<Rightarrow> hmem \<Rightarrow> section_result option" where
  "create_query buf len url m =
     (if len \<noteq> 0 then do { s \<leftarrow> sub_buf buf 0 len; Some (intern_into (\<lambda>u. u\<lparr>query := Some s\<rparr>) url m) }
      else Some (NSERROR_OK, url\<lparr>query := None\<rparr>, m))"

definition create_fragment :: "string \<Rightarrow> int \<Rightarrow> nsurl_components \<Rightarrow> hmem \<Rightarrow> section_result option" where
  "create_fragment buf len url m =
     (if len \<noteq> 0 then do { s \<leftarrow> sub_buf buf 0 len; Some (intern_into (\<lambda>u. u\<lparr>fragment := Some s\<rparr>) url m) }
      else Some (NSERROR_OK, url\<lparr>fragment := None\<rparr>, m))"

text \<open>Both stages; the buffer is returned with what the section left in it.\<close>

definition nsurl_create_from_section ::
  "(string \<Rightarrow> string option) \<Rightarrow> string \<Rightarrow> url_sections \<Rightarrow> url_markers \<Rightarrow> string \<Rightarrow> nsurl_components \<Rightarrow> hmem \<Rightarrow>
   (nserror \<times> nsurl_components \<times> hmem \<times> string) option" where
  "nsurl_create_from_section idna_encode url_s section pegs buf url m = (let
     (start, end) = section_range url_s section pegs;
     sec = take (end - start) (drop start url_s);
     (norm, len) = normalise (section = URL_SCHEME \<or> section = URL_HOST) sec [] [] (int (end - start))
   in do {
     buf \<leftarrow> write_buf norm buf;
     (error, url, m) \<leftarrow> (case section of
       URL_SCHEME \<Rightarrow> create_scheme buf len url m
     | URL_CREDENTIALS \<Rightarrow> create_credentials pegs buf len url m
     | URL_HOST \<Rightarrow> create_host idna_encode pegs buf len url m
     | URL_PATH \<Rightarrow> create_path buf len url m
     | URL_QUERY \<Rightarrow> create_query buf len url m
     | URL_FRAGMENT \<Rightarrow> create_fragment buf len url m);
     Some (error, url, m, buf) })"

section \<open>Creating a URL\<close>

text \<open>The sections in turn; an error is noted and the others are still created.\<close>

fun create_sections ::
  "(string \<Rightarrow> string option) \<Rightarrow> string \<Rightarrow> url_markers \<Rightarrow> url_sections list \<Rightarrow> bool \<Rightarrow> string \<Rightarrow> nsurl_components \<Rightarrow> hmem \<Rightarrow>
   (bool \<times> nsurl_components \<times> hmem) option" where
  "create_sections idna_encode url_s pegs [] e buf c m = Some (e, c, m)"
| "create_sections idna_encode url_s pegs (section # sections) e buf c m = do {
     (error, c, m, buf) \<leftarrow> nsurl_create_from_section idna_encode url_s section pegs buf c m;
     create_sections idna_encode url_s pegs sections (e \<or> error \<noteq> NSERROR_OK) buf c m }"

text \<open>
  \<open>c0\<close> is what the stack holds in the uninitialised components, \<open>junk\<close> what the heap
  holds in the new buffer.
\<close>

definition nsurl_create ::
  "(string \<Rightarrow> string option) \<Rightarrow> nsurl_components \<Rightarrow> string \<Rightarrow> string \<Rightarrow> hmem \<Rightarrow> ((nserror + nsurl) \<times> hmem) option" where
  "nsurl_create idna_encode c0 junk url_s m = (let
     pegs = nsurl_get_string_markers url_s False;
     len = nsurl_get_longest_section pegs;
     (ok, m) = mem_alloc m
   in if \<not> ok then Some (Inl NSERROR_NOMEM, m)
      else do {
        (e, c, m) \<leftarrow> create_sections idna_encode url_s pegs
          [URL_SCHEME, URL_CREDENTIALS, URL_HOST, URL_PATH, URL_QUERY, URL_FRAGMENT] False
          (take (len * 3 + 1) junk) (c0\<lparr>scheme_type := mk_scheme_type pegs\<rparr>) m;
        let m = mem_free m;
        Some (if e then (Inl NSERROR_NOMEM, nsurl_components_destroy c m)
          else if (scheme c = Some ''http'' \<or> scheme c = Some ''https'') \<and> host c = None then
            (Inl NSERROR_BAD_URL, nsurl_components_destroy c m)
          else case nsurl_components_to_string c NSURL_WITH_FRAGMENT m of
            (Inl e, m) \<Rightarrow> (Inl e, m)
          | (Inr (s, len), m) \<Rightarrow> (Inr (nsurl_object c len s m), m)) })"

end
