(* ===== verification/Nsurl_Valid.thy ===== *)
theory Nsurl_Valid
  imports Nsurl_Create
begin

text \<open>
  What \<^verbatim>\<open>nsurl_create\<close> promises for every string: the normalised sections fit the
  buffer, and a URL that is returned is well-formed.  And where it breaks: offsets into
  the unnormalised section are used in the normalised one.
\<close>

section \<open>Normalisation\<close>

text \<open>The normal form without the buffering.\<close>

fun normal_form :: "bool \<Rightarrow> string \<Rightarrow> string" where
  "normal_form lower [] = []"
| "normal_form lower (c # s) =
     (if c = CHR ''%'' \<and> 2 \<le> length s \<and> 0 \<le> ascii_hex_to_value_2_chars (s ! 0) (s ! 1) then
        let d = char_of (ascii_hex_to_value_2_chars (s ! 0) (s ! 1)) in
        if lower \<or> nsurl_is_unreserved d then d # normal_form lower (drop 2 s)
        else c # take 2 s @ normal_form lower (drop 2 s)
      else if c = CHR ''%'' \<and> 2 \<le> length s then c # normal_form lower s
      else if lower then ascii_to_lower c # normal_form lower s
      else if nsurl_is_no_escape c then c # normal_form lower s
      else CHR ''%'' # digit2uppercase_hex (byte_of c div 16) # digit2uppercase_hex (byte_of c mod 16) # normal_form lower s)"

lemma ascii_to_lower_id: "\<not> ascii_is_alpha_upper c \<Longrightarrow> ascii_to_lower c = c"
  by (simp add: ascii_to_lower_def)

lemma normalise_eq:
  "normalise lower s pending norm len
    = (norm @ pending @ normal_form lower s, len + int (length (normal_form lower s)) - int (length s))"
proof (induction lower s pending norm len rule: normalise.induct)
  case (2 lower c s pending norm len)
  consider (invalid) "c = CHR ''%''" "2 \<le> length s" "ascii_hex_to_value_2_chars (s ! 0) (s ! 1) < 0"
    | (kept) "c = CHR ''%''" "2 \<le> length s" "0 \<le> ascii_hex_to_value_2_chars (s ! 0) (s ! 1)"
        "\<not> lower" "\<not> nsurl_is_unreserved (char_of (ascii_hex_to_value_2_chars (s ! 0) (s ! 1)))"
    | (unescaped) "c = CHR ''%''" "2 \<le> length s" "0 \<le> ascii_hex_to_value_2_chars (s ! 0) (s ! 1)"
        "lower \<or> nsurl_is_unreserved (char_of (ascii_hex_to_value_2_chars (s ! 0) (s ! 1)))"
    | (escaped) "\<not> (c = CHR ''%'' \<and> 2 \<le> length s)" "\<not> lower" "\<not> nsurl_is_no_escape c"
    | (folded) "\<not> (c = CHR ''%'' \<and> 2 \<le> length s)" "lower" "ascii_is_alpha_upper c"
    | (copied) "\<not> (c = CHR ''%'' \<and> 2 \<le> length s)" "lower \<or> nsurl_is_no_escape c" "\<not> (lower \<and> ascii_is_alpha_upper c)"
    by (meson not_less)
  then show ?case
  proof cases
    case invalid
    then show ?thesis using "2.IH"(1) by simp
  next
    case kept
    then show ?thesis using "2.IH"(2) by (simp add: Let_def)
  next
    case unescaped
    then have "normalise lower (c # s) pending norm len = normalise lower (drop 2 s) []
        (norm @ pending @ [char_of (ascii_hex_to_value_2_chars (s ! 0) (s ! 1))]) (len - 2)"
      by (auto simp: Let_def)
    with unescaped "2.IH"(3) show ?thesis by (auto simp: Let_def)
  next
    case escaped
    then have "normalise lower (c # s) pending norm len = normalise lower s []
        (norm @ pending @ [CHR ''%'', digit2uppercase_hex (byte_of c div 16), digit2uppercase_hex (byte_of c mod 16)]) (len + 2)"
      by auto
    with escaped "2.IH"(4) show ?thesis by auto
  next
    case folded
    then have "normalise lower (c # s) pending norm len = normalise lower s [] (norm @ pending @ [ascii_to_lower c]) len"
      by auto
    with folded "2.IH"(5) show ?thesis by auto
  next
    case copied
    then have "normalise lower (c # s) pending norm len = normalise lower s (pending @ [c]) norm len"
      by auto
    with copied "2.IH"(6) show ?thesis by (auto simp: ascii_to_lower_id)
  qed
qed simp

lemma normal_form_length: "length (normal_form lower s) \<le> 3 * length s"
proof (induction lower s rule: normal_form.induct)
  case (2 lower c s)
  show ?case using "2.IH" by (auto simp: Let_def)
qed simp

section \<open>Sections fit the buffer\<close>

lemma longest_section:
  "mk_scheme_end m - mk_start m \<le> nsurl_get_longest_section m" "mk_at m - mk_authority m \<le> nsurl_get_longest_section m"
  "mk_path m - mk_at m \<le> nsurl_get_longest_section m" "mk_query m - mk_path m \<le> nsurl_get_longest_section m"
  "mk_fragment m - mk_query m \<le> nsurl_get_longest_section m" "mk_end m - mk_fragment m \<le> nsurl_get_longest_section m"
  unfolding nsurl_get_longest_section_def Let_def by auto

lemma section_range_fits:
  assumes "section_range s section m = (start, end)" "markers_ordered (length s) m"
  shows "start \<le> end \<and> end - start \<le> nsurl_get_longest_section m \<and> (end = start \<or> end \<le> length s)"
  using longest_section [of m] assms
  by (cases "section") (auto simp: section_range_def Let_def markers_ordered_def split: if_splits)

lemma section_normalised:
  fixes lower :: bool
  assumes "section_range s section m = (start, end)" "markers_ordered (length s) m"
  defines "norm \<equiv> normal_form lower (take (end - start) (drop start s))"
  shows "normalise lower (take (end - start) (drop start s)) [] [] (int (end - start)) = (norm, int (length norm))
    \<and> length norm \<le> 3 * nsurl_get_longest_section m"
proof -
  have "length (take (end - start) (drop start s)) = end - start"
    using section_range_fits [OF assms(1,2)] by auto
  then show ?thesis
    using section_range_fits [OF assms(1,2)] normal_form_length [of lower "take (end - start) (drop start s)"]
    by (simp add: normalise_eq norm_def)
qed

text \<open>
  Whatever the string, the normal form of each of its sections, with the NUL that
  ends it, fits the buffer of three times the longest section plus one, and the length
  that is kept track of is that of the normal form.
\<close>

theorem nsurl_sections_fit:
  "let pegs = nsurl_get_string_markers url_s joining;
     (start, end) = section_range url_s section pegs;
     (norm, len) = normalise lower (take (end - start) (drop start url_s)) [] [] (int (end - start))
   in len = int (length norm) \<and> length norm < nsurl_get_longest_section pegs * 3 + 1"
proof -
  obtain start end' where r: "section_range url_s section (nsurl_get_string_markers url_s joining) = (start, end')" by force
  show ?thesis
    using section_normalised [OF r, of lower] markers_ordered_get [of url_s joining] by (simp add: r)
qed

section \<open>Well-formed results\<close>

lemma intern_into_cases:
  obtains m' where "intern_into f u m = (NSERROR_OK, f u, m')" | m' where "intern_into f u m = (NSERROR_NOMEM, u, m')"
proof (cases "mem_alloc m")
  case (Pair ok m')
  then show ?thesis using that by (cases ok) (simp_all add: intern_into_def)
qed

lemma intern_scheme: "(\<And>u. scheme (f u) = scheme u) \<Longrightarrow> intern_into f u m = (e, u', m') \<Longrightarrow> scheme u' = scheme u"
  by (cases rule: intern_into_cases [of f u m]) auto

lemma create_username_scheme: "create_username buf len u m = Some (e, u', m') \<Longrightarrow> scheme u' = scheme u"
  by (auto simp: create_username_def bind_eq_Some_conv dest: intern_scheme [rotated])

lemma create_host_name_scheme:
  assumes "create_host_name idna buf len u m = Some (e, u', m')"
  shows "scheme u' = scheme u"
proof -
  obtain s where s: "sub_buf buf 0 len = Some s" using assms by (auto simp: create_host_name_def bind_eq_Some_conv)
  show ?thesis
  proof (cases "idna s")
    case None
    with assms s show ?thesis by (auto simp: create_host_name_def dest: intern_scheme [rotated])
  next
    case (Some h)
    show ?thesis using assms s Some
      by (cases rule: intern_into_cases [of "\<lambda>u. u\<lparr>host := Some h\<rparr>" u "lwc_string_ref m"]) (auto simp: create_host_name_def)
  qed
qed

lemma create_credentials_scheme:
  assumes "create_credentials pegs buf len u m = Some (e, u', m')"
  shows "scheme u' = scheme u"
proof -
  let ?colon = "int (mk_colon_first pegs)" and ?at = "int (mk_at pegs)" and ?u = "u\<lparr>username := None, password := None\<rparr>"
  show ?thesis
  proof (cases "scheme_type u = NSURL_SCHEME_FILE \<or> len = 0 \<or> read_buf buf 0 = Some (CHR '':'')")
    case True
    with assms show ?thesis by (auto simp: create_credentials_def Let_def split: if_splits)
  next
    case False
    show ?thesis
    proof (cases "?colon \<noteq> int (mk_authority pegs) \<and> ?at > ?colon + 1")
      case True
      obtain s where s: "sub_buf buf (?colon - int (mk_authority pegs) + 1) (?at - ?colon - 1) = Some s"
        using assms True False by (auto simp: create_credentials_def Let_def bind_eq_Some_conv)
      show ?thesis using assms True False s
        by (cases rule: intern_into_cases [of "\<lambda>u. u\<lparr>password := Some s\<rparr>" ?u m])
          (auto simp: create_credentials_def Let_def dest: create_username_scheme)
    next
      case no_password: False
      with assms False show ?thesis
        by (auto simp: create_credentials_def Let_def dest: create_username_scheme split: if_splits)
    qed
  qed
qed

lemma create_host_scheme:
  assumes "create_host idna pegs buf len u m = Some (e, u', m')"
  shows "scheme u' = scheme u"
proof (cases "scheme_type u = NSURL_SCHEME_FILE \<or> len = 0 \<or> port_colon pegs = None")
  case True
  with assms show ?thesis by (auto simp: create_host_def Let_def dest: create_host_name_scheme split: if_splits)
next
  case False
  let ?u = "u\<lparr>host := None, port := None\<rparr>" and ?at = "int (mk_at pegs)"
  obtain colon where colon: "port_colon pegs = Some colon" using False by auto
  obtain no_port where np: "scan_port buf (colon - ?at) len = Some no_port"
    using assms False colon by (auto simp: create_host_def Let_def bind_eq_Some_conv)
  define sec where "sec = colon - ?at + (if ?at = int (mk_authority pegs) then 1 else 0)"
  show ?thesis
  proof (cases no_port)
    case True
    with assms False colon np show ?thesis by (auto simp: create_host_def Let_def dest: create_host_name_scheme)
  next
    case port: False
    show ?thesis
    proof (cases "sub_buf buf sec (size_t (len - size_t sec))")
      case None
      with assms False colon np port show ?thesis
        by (auto simp: create_host_def Let_def sec_def bind_eq_Some_conv dest: create_host_name_scheme split: if_splits)
    next
      case (Some s)
      with assms False colon np port show ?thesis
        by (cases rule: intern_into_cases [of "\<lambda>u. u\<lparr>port := Some s\<rparr>" ?u m])
          (auto simp: create_host_def Let_def sec_def bind_eq_Some_conv dest: create_host_name_scheme split: if_splits)
    qed
  qed
qed

lemma create_rest_scheme:
  "create_path buf len u m = Some (e, u', m') \<Longrightarrow> scheme u' = scheme u"
  "create_query buf len u m = Some (e, u', m') \<Longrightarrow> scheme u' = scheme u"
  "create_fragment buf len u m = Some (e, u', m') \<Longrightarrow> scheme u' = scheme u"
  by (auto simp: create_path_def create_query_def create_fragment_def bind_eq_Some_conv
      dest: intern_scheme [rotated] split: if_splits)

lemma create_scheme_some:
  assumes "create_scheme buf len u m = Some (NSERROR_OK, u', m')"
  shows "scheme u' \<noteq> None"
proof (cases "len = 0")
  case True
  with assms show ?thesis by (auto simp: create_scheme_def)
next
  case False
  then obtain s where "intern_into (\<lambda>u. u\<lparr>scheme := Some s\<rparr>) u m = (NSERROR_OK, u', m')"
    using assms by (auto simp: create_scheme_def bind_eq_Some_conv)
  then show ?thesis by (cases rule: intern_into_cases [of "\<lambda>u. u\<lparr>scheme := Some s\<rparr>" u m]) auto
qed

lemma section_scheme:
  assumes "nsurl_create_from_section idna url_s section pegs buf u m = Some (e, u', m', buf')"
  shows "if section = URL_SCHEME then e = NSERROR_OK \<longrightarrow> scheme u' \<noteq> None else scheme u' = scheme u"
  using assms
  by (cases "section") (auto simp: nsurl_create_from_section_def Let_def bind_eq_Some_conv
      dest: create_scheme_some create_credentials_scheme create_host_scheme create_rest_scheme split: prod.splits)

lemma sections_keep_scheme:
  "create_sections idna url_s pegs sections e buf c m = Some (e', c', m') \<Longrightarrow> URL_SCHEME \<notin> set sections \<Longrightarrow> scheme c' = scheme c"
proof (induction sections arbitrary: e buf c m)
  case (Cons sec sections)
  then obtain error c1 m1 buf1 where s: "nsurl_create_from_section idna url_s sec pegs buf c m = Some (error, c1, m1, buf1)"
    and r: "create_sections idna url_s pegs sections (e \<or> error \<noteq> NSERROR_OK) buf1 c1 m1 = Some (e', c', m')"
    by (auto simp: bind_eq_Some_conv)
  have "scheme c1 = scheme c" using section_scheme [OF s] Cons.prems(2) by auto
  moreover have "scheme c' = scheme c1" using Cons.IH [OF r] Cons.prems(2) by simp
  ultimately show ?case by simp
qed simp

lemma sections_error: "create_sections idna url_s pegs sections True buf c m = Some (e', c', m') \<Longrightarrow> e'"
  by (induction sections arbitrary: buf c m) (auto simp: bind_eq_Some_conv)

lemma sections_scheme:
  assumes "create_sections idna url_s pegs (URL_SCHEME # sections) False buf c m = Some (False, c', m')" "URL_SCHEME \<notin> set sections"
  shows "scheme c' \<noteq> None"
proof -
  obtain error c1 m1 buf1 where s: "nsurl_create_from_section idna url_s URL_SCHEME pegs buf c m = Some (error, c1, m1, buf1)"
    and r: "create_sections idna url_s pegs sections (error \<noteq> NSERROR_OK) buf1 c1 m1 = Some (False, c', m')"
    using assms(1) by (auto simp: bind_eq_Some_conv)
  have "error = NSERROR_OK"
  proof (rule ccontr)
    assume "error \<noteq> NSERROR_OK"
    then have "create_sections idna url_s pegs sections True buf1 c1 m1 = Some (False, c', m')" using r by simp
    then show False using sections_error by blast
  qed
  then have "scheme c1 \<noteq> None" using section_scheme [OF s] by simp
  with sections_keep_scheme [OF r assms(2)] show ?thesis by simp
qed

text \<open>
  C32. Every URL object that \<^verbatim>\<open>nsurl_create\<close> returns is well-formed, whatever the
  string, the state of the heap and the stack: its string is that of its components, its
  length and hash are theirs.
\<close>

theorem nsurl_create_wf:
  assumes "nsurl_create idna_encode c0 junk url_s m = Some (Inr url, m')"
  shows "nsurl_wf m' url"
proof -
  define pegs where "pegs = nsurl_get_string_markers url_s False"
  obtain ok m1 where m1: "mem_alloc m = (ok, m1)" by force
  with assms have ok by (cases ok) (simp_all add: nsurl_create_def)
  let ?buf = "take (nsurl_get_longest_section pegs * 3 + 1) junk" and ?c = "c0\<lparr>scheme_type := mk_scheme_type pegs\<rparr>"
  obtain e c m2 where s: "create_sections idna_encode url_s pegs
      [URL_SCHEME, URL_CREDENTIALS, URL_HOST, URL_PATH, URL_QUERY, URL_FRAGMENT] False ?buf ?c m1 = Some (e, c, m2)"
    using assms m1 \<open>ok\<close> by (auto simp del: create_sections.simps simp: nsurl_create_def Let_def pegs_def bind_eq_Some_conv)
  let ?res = "if e then (Inl NSERROR_NOMEM, nsurl_components_destroy c (mem_free m2))
      else if (scheme c = Some ''http'' \<or> scheme c = Some ''https'') \<and> host c = None then
        (Inl NSERROR_BAD_URL, nsurl_components_destroy c (mem_free m2))
      else case nsurl_components_to_string c NSURL_WITH_FRAGMENT (mem_free m2) of
        (Inl e, m) \<Rightarrow> (Inl e, m) | (Inr (s, len), m) \<Rightarrow> (Inr (nsurl_object c len s m), m)"
  have res: "?res = (Inr url, m')"
    using assms m1 \<open>ok\<close> s by (simp del: create_sections.simps add: nsurl_create_def Let_def pegs_def)
  then have "\<not> e" by (cases e) simp_all
  then have "create_sections idna_encode url_s pegs
      [URL_SCHEME, URL_CREDENTIALS, URL_HOST, URL_PATH, URL_QUERY, URL_FRAGMENT] False ?buf ?c m1 = Some (False, c, m2)"
    using s by (simp del: create_sections.simps)
  then have sch: "scheme c \<noteq> None" by (rule sections_scheme) simp
  obtain ok2 m3 where m3: "mem_alloc (mem_free m2) = (ok2, m3)" by force
  show ?thesis
    using res \<open>\<not> e\<close> sch m3 unfolding components_to_string_all [OF sch] by (cases ok2) (auto split: if_splits)
qed

theorem nsurl_create_wf_witness:
  "case nsurl_create (\<lambda>_. None) sample_components (replicate 50 (CHR ''X'')) '' ftp://H/%7e?b^'' (hmem_at 0) of
     Some (Inr url, m') \<Rightarrow> url_string url = ''ftp://h/~?b%5E'' \<and> nsurl_wf m' url
   | _ \<Rightarrow> False"
proof -
  let ?r = "nsurl_create (\<lambda>_. None) sample_components (replicate 50 (CHR ''X'')) '' ftp://H/%7e?b^'' (hmem_at 0)"
  have "map_option (\<lambda>(r, m). case r of Inl _ \<Rightarrow> None | Inr url \<Rightarrow> Some (url_string url)) ?r = Some (Some ''ftp://h/~?b%5E'')" by code_simp
  then obtain url m' where "?r = Some (Inr url, m')" "url_string url = ''ftp://h/~?b%5E''"
    by (cases ?r; cases "fst (the ?r)") (auto split: prod.splits)
  with nsurl_create_wf show ?thesis by fastforce
qed

section \<open>Misread host names\<close>

lemma intern_type: "(\<And>u. scheme_type (f u) = scheme_type u) \<Longrightarrow> intern_into f u m = (e, u', m') \<Longrightarrow> scheme_type u' = scheme_type u"
  by (cases rule: intern_into_cases [of f u m]) auto

lemma create_scheme_type: "create_scheme buf len u m = Some (e, u', m') \<Longrightarrow> scheme_type u' = scheme_type u"
  by (auto simp: create_scheme_def bind_eq_Some_conv dest: intern_type [rotated] split: if_splits)

lemma create_username_type: "create_username buf len u m = Some (e, u', m') \<Longrightarrow> scheme_type u' = scheme_type u"
  by (auto simp: create_username_def bind_eq_Some_conv dest: intern_type [rotated])

lemma create_credentials_type:
  assumes "create_credentials pegs buf len u m = Some (e, u', m')"
  shows "scheme_type u' = scheme_type u"
proof -
  let ?colon = "int (mk_colon_first pegs)" and ?at = "int (mk_at pegs)" and ?u = "u\<lparr>username := None, password := None\<rparr>"
  show ?thesis
  proof (cases "scheme_type u \<noteq> NSURL_SCHEME_FILE \<and> len \<noteq> 0 \<and> read_buf buf 0 \<noteq> Some (CHR '':'')
      \<and> ?colon \<noteq> int (mk_authority pegs) \<and> ?at > ?colon + 1")
    case True
    then obtain s where s: "sub_buf buf (?colon - int (mk_authority pegs) + 1) (?at - ?colon - 1) = Some s"
      using assms by (auto simp: create_credentials_def Let_def bind_eq_Some_conv)
    show ?thesis using assms True s
      by (cases rule: intern_into_cases [of "\<lambda>u. u\<lparr>password := Some s\<rparr>" ?u m])
        (auto simp: create_credentials_def Let_def dest: create_username_type)
  next
    case False
    with assms show ?thesis
      by (auto simp: create_credentials_def Let_def dest: create_username_type split: if_splits)
  qed
qed

lemma section_type:
  assumes "nsurl_create_from_section idna url_s section pegs buf u m = Some (e, u', m', buf')" "section \<in> {URL_SCHEME, URL_CREDENTIALS}"
  shows "scheme_type u' = scheme_type u"
  using assms by (auto simp: nsurl_create_from_section_def Let_def bind_eq_Some_conv
      dest: create_scheme_type create_credentials_type split: prod.splits)

lemma normal_form_nonempty: "s \<noteq> [] \<Longrightarrow> normal_form lower s \<noteq> []"
  by (cases s) (simp_all add: Let_def)

lemma scan_port_underread: "i + 1 < 0 \<Longrightarrow> 0 < len \<Longrightarrow> scan_port buf i len = None"
  by (subst scan_port.simps) (simp add: read_buf_def)

lemma host_underread:
  assumes "markers_ordered (length url_s) pegs" "mk_colon_last pegs \<noteq> mk_authority pegs" "mk_colon_last pegs + 1 < mk_at pegs"
    "mk_at pegs + 1 < mk_path pegs" "scheme_type u \<noteq> NSURL_SCHEME_FILE"
  shows "nsurl_create_from_section idna url_s URL_HOST pegs buf u m = None"
proof -
  have at: "mk_at pegs \<noteq> mk_authority pegs" using assms by (auto simp: markers_ordered_def)
  then have r: "section_range url_s URL_HOST pegs = (mk_at pegs + 1, mk_path pegs)"
    using assms(4) by (simp add: section_range_def)
  define norm where "norm = normal_form True (take (mk_path pegs - (mk_at pegs + 1)) (drop (mk_at pegs + 1) url_s))"
  have n: "normalise True (take (mk_path pegs - (mk_at pegs + 1)) (drop (mk_at pegs + 1) url_s)) [] []
      (int (mk_path pegs - (mk_at pegs + 1))) = (norm, int (length norm))"
    using section_normalised [OF r assms(1), of True] by (simp add: norm_def)
  have "norm \<noteq> []" using assms(1,4) unfolding norm_def by (intro normal_form_nonempty) (simp add: markers_ordered_def)
  then have len: "0 < int (length norm)" by simp
  have colon: "port_colon pegs = Some (int (mk_colon_last pegs))" using assms(2) by (simp add: port_colon_def)
  have "create_host idna pegs b (int (length norm)) u m = None" for b
    using scan_port_underread [of "int (mk_colon_last pegs) - int (mk_at pegs)" "int (length norm)" b] assms(3,5) len colon
    by (simp add: create_host_def Let_def)
  then show ?thesis using n r by (simp add: nsurl_create_from_section_def Let_def)
qed

text \<open>
  C37. When there are two colons in front of the at sign of a URL, as in
  \<^verbatim>\<open>http://a:b:c@host/\<close>, \<^verbatim>\<open>nsurl_create\<close> reads in front of its buffer: the second
  colon is taken for the one before a port, and its offset from the at sign is negative.
\<close>

theorem nsurl_create_underread:
  assumes "pegs = nsurl_get_string_markers url_s False" "mk_colon_last pegs \<noteq> mk_authority pegs"
    "mk_colon_last pegs + 1 < mk_at pegs" "mk_at pegs + 1 < mk_path pegs" "mk_scheme_type pegs \<noteq> NSURL_SCHEME_FILE" "mem_plenty m"
  shows "nsurl_create idna_encode c0 junk url_s m = None"
proof -
  have ord: "markers_ordered (length url_s) pegs" unfolding assms(1) by (rule markers_ordered_get)
  have "create_sections idna_encode url_s pegs (URL_SCHEME # URL_CREDENTIALS # URL_HOST # rest) e buf c m = None"
    if t: "scheme_type c = mk_scheme_type pegs" for rest e buf c m
  proof (cases "nsurl_create_from_section idna_encode url_s URL_SCHEME pegs buf c m")
    case (Some r1)
    obtain e1 c1 m1 b1 where r1: "r1 = (e1, c1, m1, b1)" using prod_cases4 by blast
    show ?thesis
    proof (cases "nsurl_create_from_section idna_encode url_s URL_CREDENTIALS pegs b1 c1 m1")
      case (Some r2)
      obtain e2 c2 m2 b2 where r2: "r2 = (e2, c2, m2, b2)" using prod_cases4 by blast
      have "scheme_type c2 = mk_scheme_type pegs"
        using section_type [of idna_encode url_s URL_SCHEME pegs buf c m e1 c1 m1 b1]
          section_type [of idna_encode url_s URL_CREDENTIALS pegs b1 c1 m1 e2 c2 m2 b2]
          Some r2 t \<open>nsurl_create_from_section _ _ URL_SCHEME _ _ _ _ = Some r1\<close> r1 by simp
      then have "nsurl_create_from_section idna_encode url_s URL_HOST pegs b2 c2 m2 = None"
        using assms(2-5) by (intro host_underread ord) simp_all
      then show ?thesis using Some r2 \<open>nsurl_create_from_section _ _ URL_SCHEME _ _ _ _ = Some r1\<close> r1 by simp
    qed (simp add: Some r1)
  qed simp
  note none = this [where rest = "[URL_PATH, URL_QUERY, URL_FRAGMENT]"]
  show ?thesis
    unfolding nsurl_create_def Let_def assms(1) [symmetric] using assms(6) by (simp del: create_sections.simps add: none)
qed

text \<open>The markers of that URL.\<close>

lemma sample_markers:
  "nsurl_get_string_markers ''http://a:b:c@host/'' False
    = \<lparr>mk_start = 0, mk_scheme_end = 4, mk_authority = 7, mk_colon_first = 8, mk_at = 12, mk_colon_last = 10,
       mk_path = 17, mk_query = 18, mk_fragment = 18, mk_end = 18, mk_scheme_type = NSURL_SCHEME_HTTP\<rparr>"
proof -
  let ?s = "''http://a:b:c@host/''"
  let ?m = "\<lambda>e a f at l p t. \<lparr>mk_start = 0, mk_scheme_end = e, mk_authority = a, mk_colon_first = f, mk_at = at,
     mk_colon_last = l, mk_path = p, mk_query = 0, mk_fragment = 0, mk_end = 0, mk_scheme_type = t\<rparr>"
  have 0: "skip_while ascii_is_space ?s 0 = 0" by code_simp
  have 1: "mark_scheme ?s False 0 (?m 0 0 0 0 0 0 NSURL_SCHEME_OTHER) = (5, True, ?m 4 5 5 5 5 5 NSURL_SCHEME_HTTP)" by code_simp
  have a: "has_authority ?s False True 5 (?m 4 5 5 5 5 5 NSURL_SCHEME_HTTP)" by code_simp
  have b: "skip_slashes ?s True 5 = 7" by code_simp
  have c: "mark_authority ?s 7 (?m 4 7 7 7 7 7 NSURL_SCHEME_HTTP) = (17, ?m 4 7 8 12 10 7 NSURL_SCHEME_HTTP)"
    by (simp add: mark_authority.simps char_at_def authority_char_def)
  have 2: "mark_path_start ?s False True 5 (?m 4 5 5 5 5 5 NSURL_SCHEME_HTTP) = (17, ?m 4 7 8 12 10 17 NSURL_SCHEME_HTTP)"
    unfolding mark_path_start_def if_P [OF a] by (simp add: b c set_authority_def char_at_def)
  have 3: "mark_rest ?s 17 (?m 4 7 8 12 10 17 NSURL_SCHEME_HTTP)
      = (18, (?m 4 7 8 12 10 17 NSURL_SCHEME_HTTP)\<lparr>mk_query := 18, mk_fragment := 18\<rparr>)" by code_simp
  have 4: "trim_back ?s 18 = 18" by code_simp
  show ?thesis unfolding nsurl_get_string_markers_def Let_def 0 1 by (simp add: 1 2 3 4)
qed

theorem nsurl_create_underread_witness:
  "nsurl_create (\<lambda>_. None) sample_components (replicate 50 (CHR ''X'')) ''http://a:b:c@host/'' (hmem_at 0) = None"
  by (rule nsurl_create_underread [OF refl]) (simp_all add: sample_markers)

end
