(* ===== verification/Nsurl_Join.thy ===== *)
theory Nsurl_Join
  imports Nsurl_Valid
begin

text \<open>
  Joining a base URL and a relative reference (\<^verbatim>\<open>nsurl_join\<close>), with the removal of dot
  segments, against the algorithms of RFC 3986, section 5.2.
\<close>

section \<open>Removing dot segments\<close>

text \<open>Going back in the output: over the last segment and the slash in front of it, or to that slash.\<close>

definition pop_segment :: "string \<Rightarrow> string" where
  "pop_segment output = rev (tl (dropWhile (\<lambda>c. c \<noteq> CHR ''/'') (rev output)))"

definition pop_to_slash :: "string \<Rightarrow> string" where
  "pop_to_slash output = rev (dropWhile (\<lambda>c. c \<noteq> CHR ''/'') (rev output))"

text \<open>
  The loop.  The branches of the source for \<^verbatim>\<open>"."\<close> and \<^verbatim>\<open>".."\<close> at the end of the path
  stand behind one that also catches a leading dot, and are never reached.
\<close>

function remove_dots :: "string \<Rightarrow> string \<Rightarrow> string" where
  "remove_dots p out =
     (if p = [] then out
      else if char_at p 0 = CHR ''.'' \<and> char_at p 1 = CHR ''.'' \<and> char_at p 2 = CHR ''/'' then
        remove_dots (drop 3 p) out
      else if char_at p 0 = CHR ''.'' \<and> char_at p 1 = CHR ''/'' then remove_dots (drop 2 p) out
      else if char_at p 0 = CHR ''/'' \<and> char_at p 1 = CHR ''.'' \<and> char_at p 2 = CHR ''/'' then
        remove_dots (drop 2 p) out
      else if char_at p 0 = CHR ''/'' \<and> char_at p 1 = CHR ''.'' \<and> length p = 2 then out @ ''/''
      else if char_at p 0 = CHR ''/'' \<and> char_at p 1 = CHR ''.'' \<and> char_at p 2 = CHR ''.'' \<and> char_at p 3 = CHR ''/'' then
        remove_dots (drop 3 p) (pop_segment out)
      else if char_at p 0 = CHR ''/'' \<and> char_at p 1 = CHR ''.'' \<and> char_at p 2 = CHR ''.'' \<and> length p = 3 then
        pop_to_slash out
      else remove_dots (dropWhile (\<lambda>c. c \<noteq> CHR ''/'') (tl p))
        (out @ hd p # takeWhile (\<lambda>c. c \<noteq> CHR ''/'') (tl p)))"
  by pat_completeness auto
termination
proof (relation "measure (\<lambda>(p, out). length p)", goal_cases)
  case (6 p out)
  then show ?case using length_dropWhile_le [of "\<lambda>c. c \<noteq> CHR ''/''" "tl p"] by (cases p) simp_all
qed auto

declare remove_dots.simps [simp del]

definition nsurl_remove_dot_segments :: "string \<Rightarrow> string" where
  "nsurl_remove_dot_segments p = remove_dots p []"

section \<open>Joining\<close>

text \<open>Which parts come from the base.\<close>

datatype joined_part = NSURL_F_BASE_SCHEME | NSURL_F_BASE_AUTHORITY | NSURL_F_BASE_PATH | NSURL_F_MERGED_PATH | NSURL_F_BASE_QUERY

definition joined_parts :: "string \<Rightarrow> url_markers \<Rightarrow> joined_part set" where
  "joined_parts rel m =
     (if mk_scheme_end m - mk_start m = 0 then
        {NSURL_F_BASE_SCHEME} \<union>
        (if mk_path m - mk_authority m = 0 then
           {NSURL_F_BASE_AUTHORITY} \<union>
           (if mk_query m - mk_path m = 0 then
              {NSURL_F_BASE_PATH} \<union> (if mk_fragment m - mk_query m = 0 then {NSURL_F_BASE_QUERY} else {})
            else if char_at rel (mk_path m) \<noteq> CHR ''/'' then {NSURL_F_MERGED_PATH}
            else {})
         else {})
      else {})"

text \<open>All but the last segment of the base path.\<close>

fun merge_back :: "string \<Rightarrow> nat \<Rightarrow> nat" where
  "merge_back p 0 = 0"
| "merge_back p (Suc n) = (if char_at p (Suc n) \<noteq> CHR ''/'' then merge_back p n else Suc n)"

definition merge_base :: "string \<Rightarrow> string" where
  "merge_base p = (let path_end = merge_back p (length p);
     path_end = (if char_at p path_end = CHR ''/'' then path_end + 1 else path_end)
   in take path_end p)"

text \<open>
  The path section of the joined URL: the text at the start of the buffer, the text
  without dot segments behind it, and its normal form behind that.
\<close>

definition join_path ::
  "(string \<Rightarrow> string option) \<Rightarrow> string \<Rightarrow> string \<Rightarrow> nsurl_components \<Rightarrow> hmem \<Rightarrow>
   (nserror \<times> nsurl_components \<times> hmem \<times> string) option" where
  "join_path idna_encode p buf c m = (let
     new = nsurl_remove_dot_segments p;
     used = length p + 1 + length new;
     m_path = \<lparr>mk_start = 0, mk_scheme_end = 0, mk_authority = 0, mk_colon_first = 0, mk_at = 0, mk_colon_last = 0,
       mk_path = 0, mk_query = length new, mk_fragment = 0, mk_end = 0, mk_scheme_type = NSURL_SCHEME_OTHER\<rparr>
   in if length buf < used then None
      else case nsurl_create_from_section idna_encode new URL_PATH m_path (drop used buf) c m of
        None \<Rightarrow> None
      | Some (error, c, m, rest) \<Rightarrow> Some (error, c, m, p @ CHR 0x00 # new @ rest))"

type_synonym join_state = "nserror \<times> nsurl_components \<times> hmem \<times> string"

text \<open>A step that is skipped after an error.\<close>

definition join_then :: "join_state option \<Rightarrow> (nsurl_components \<Rightarrow> hmem \<Rightarrow> string \<Rightarrow> join_state option) \<Rightarrow> join_state option" where
  "join_then r f = (case r of None \<Rightarrow> None
     | Some (error, c, m, buf) \<Rightarrow> if error \<noteq> NSERROR_OK then Some (error, c, m, buf) else f c m buf)"

definition join_scheme where
  "join_scheme idna_encode base rel pegs parts c m buf =
     (if NSURL_F_BASE_SCHEME \<in> parts then
        Some (NSERROR_OK, c\<lparr>scheme_type := scheme_type base, scheme := scheme base\<rparr>, nsurl_component_copy (scheme base) m, buf)
      else nsurl_create_from_section idna_encode rel URL_SCHEME pegs buf (c\<lparr>scheme_type := mk_scheme_type pegs\<rparr>) m)"

definition join_authority where
  "join_authority idna_encode base rel pegs parts c m buf =
     (if NSURL_F_BASE_AUTHORITY \<in> parts then
        Some (NSERROR_OK, c\<lparr>username := username base, password := password base, host := host base, port := port base\<rparr>,
          fold nsurl_component_copy [username base, password base, host base, port base] m, buf)
      else join_then (nsurl_create_from_section idna_encode rel URL_CREDENTIALS pegs buf c m)
        (\<lambda>c m buf. nsurl_create_from_section idna_encode rel URL_HOST pegs buf c m))"

definition join_any_path where
  "join_any_path idna_encode base rel pegs parts c m buf = (let
     rel_path = take (mk_query pegs - mk_path pegs) (drop (mk_path pegs) rel)
   in if NSURL_F_BASE_PATH \<in> parts then Some (NSERROR_OK, c\<lparr>path := path base\<rparr>, nsurl_component_copy (path base) m, buf)
      else if NSURL_F_MERGED_PATH \<in> parts then
        (case path base of None \<Rightarrow> None | Some p \<Rightarrow> join_path idna_encode (merge_base p @ rel_path) buf c m)
      else join_path idna_encode rel_path buf c m)"

definition join_query where
  "join_query idna_encode base rel pegs parts c m buf =
     (if NSURL_F_BASE_QUERY \<in> parts then Some (NSERROR_OK, c\<lparr>query := query base\<rparr>, nsurl_component_copy (query base) m, buf)
      else nsurl_create_from_section idna_encode rel URL_QUERY pegs buf c m)"

definition join_buffer_size :: "nsurl_components \<Rightarrow> url_markers \<Rightarrow> joined_part set \<Rightarrow> nat" where
  "join_buffer_size base pegs parts = (let
     len = nsurl_get_longest_section pegs + (if NSURL_F_MERGED_PATH \<in> parts then clen (path base) else 0)
   in len * 4 + ((mk_query pegs - mk_path pegs) + clen (path base)) + 5)"

definition nsurl_join ::
  "(string \<Rightarrow> string option) \<Rightarrow> nsurl_components \<Rightarrow> string \<Rightarrow> nsurl \<Rightarrow> string \<Rightarrow> hmem \<Rightarrow> ((nserror + nsurl) \<times> hmem) option" where
  "nsurl_join idna_encode c0 junk base_url rel m = (let
     base = components base_url;
     pegs = nsurl_get_string_markers rel True;
     parts = joined_parts rel pegs;
     (ok, m) = mem_alloc m
   in if \<not> ok then Some (Inl NSERROR_NOMEM, m)
      else case
        join_then (join_then (join_then (join_then
          (join_scheme idna_encode base rel pegs parts c0 m (take (join_buffer_size base pegs parts) junk))
          (join_authority idna_encode base rel pegs parts))
          (join_any_path idna_encode base rel pegs parts))
          (join_query idna_encode base rel pegs parts))
          (\<lambda>c m buf. nsurl_create_from_section idna_encode rel URL_FRAGMENT pegs buf c m) of
        None \<Rightarrow> None
      | Some (error, c, m, buf) \<Rightarrow> let m = mem_free m in Some
          (if error \<noteq> NSERROR_OK then (Inl error, m)
           else case nsurl_components_to_string c NSURL_WITH_FRAGMENT m of
             (Inl e, m) \<Rightarrow> (Inl e, m)
           | (Inr (s, len), m) \<Rightarrow> (Inr (nsurl_object c len s m), m)))"

end
