(* ===== verification/Nsurl_Resolve.thy ===== *)
theory Nsurl_Resolve
  imports Nsurl_Join
begin

text \<open>
  Reference resolution against RFC 3986: dot segments are removed as its section 5.2.4
  says, and a relative reference is resolved as in section 5.2.2.
\<close>

section \<open>Removing dot segments, by the book\<close>

function rfc3986_remove_dots :: "string \<Rightarrow> string \<Rightarrow> string" where
  "rfc3986_remove_dots input out =
     (if input = [] then out
      else if take 3 input = ''../'' then rfc3986_remove_dots (drop 3 input) out
      else if take 2 input = ''./'' then rfc3986_remove_dots (drop 2 input) out
      else if take 3 input = ''/./'' then rfc3986_remove_dots (''/'' @ drop 3 input) out
      else if input = ''/.'' then rfc3986_remove_dots ''/'' out
      else if take 4 input = ''/../'' then rfc3986_remove_dots (''/'' @ drop 4 input) (pop_segment out)
      else if input = ''/..'' then rfc3986_remove_dots ''/'' (pop_segment out)
      else if input = ''.'' \<or> input = ''..'' then out
      else rfc3986_remove_dots (dropWhile (\<lambda>c. c \<noteq> CHR ''/'') (tl input))
        (out @ hd input # takeWhile (\<lambda>c. c \<noteq> CHR ''/'') (tl input)))"
  by pat_completeness auto
termination
proof (relation "measure (\<lambda>(input, out). length input)", goal_cases)
  case (4 input out)
  then have "3 \<le> length input" by (metis (no_types, lifting) eq_numeral_extra(2) length_Cons length_take linorder_not_less list.size(3) min.absorb2 min_less_iff_conj nat_le_linear numeral_3_eq_3)
  then show ?case by simp
next
  case (6 input out)
  then have "length (take 4 input) = 4" by simp
  then show ?case by simp
next
  case (8 input out)
  then show ?case using length_dropWhile_le [of "\<lambda>c. c \<noteq> CHR ''/''" "tl input"] by (cases input) simp_all
qed auto

declare rfc3986_remove_dots.simps [simp del]

text \<open>A path is absolute, or there is nothing left of it.\<close>

definition rooted :: "string \<Rightarrow> bool" where
  "rooted p \<longleftrightarrow> p = [] \<or> hd p = CHR ''/''"

lemma pop_segment_split: "out = pop_segment out @ rev (take 1 (dropWhile (\<lambda>c. c \<noteq> CHR ''/'') (rev out)))
    @ rev (takeWhile (\<lambda>c. c \<noteq> CHR ''/'') (rev out))"
proof -
  let ?d = "dropWhile (\<lambda>c. c \<noteq> CHR ''/'') (rev out)"
  have "d = take 1 d @ tl d" for d :: string by (cases d) simp_all
  then have "?d = take 1 ?d @ tl ?d" .
  then have "rev out = takeWhile (\<lambda>c. c \<noteq> CHR ''/'') (rev out) @ take 1 ?d @ tl ?d"
    by (metis takeWhile_dropWhile_id)
  then have "out = rev (takeWhile (\<lambda>c. c \<noteq> CHR ''/'') (rev out) @ take 1 ?d @ tl ?d)"
    by (metis rev_rev_ident)
  then show ?thesis unfolding pop_segment_def by (simp only: rev_append append_assoc)
qed

lemma rooted_prefix: "rooted (a @ b) \<Longrightarrow> rooted a"
  by (cases a) (simp_all add: rooted_def)

lemma rooted_pop: "rooted out \<Longrightarrow> rooted (pop_segment out)"
  using pop_segment_split [of out] rooted_prefix by metis

lemma pop_length: "length (pop_segment out) \<le> length out"
  using pop_segment_split [of out] by (metis length_append le_add1)

lemma pop_to_slash_rooted:
  assumes "rooted out"
  shows "pop_to_slash out = (if out = [] then [] else pop_segment out @ ''/'')"
proof (cases "out = []")
  case False
  then have "CHR ''/'' \<in> set (rev out)" using assms by (cases out) (simp_all add: rooted_def)
  then obtain xs t where "rev out = xs @ CHR ''/'' # t" "CHR ''/'' \<notin> set xs" using split_list_first by metis
  moreover from this have "dropWhile (\<lambda>c. c \<noteq> CHR ''/'') (xs @ CHR ''/'' # t) = dropWhile (\<lambda>c. c \<noteq> CHR ''/'') (CHR ''/'' # t)"
    by (intro dropWhile_append2) auto
  ultimately have "dropWhile (\<lambda>c. c \<noteq> CHR ''/'') (rev out) = CHR ''/'' # t" by simp
  with False show ?thesis by (simp add: pop_to_slash_def pop_segment_def)
qed (simp add: pop_to_slash_def)

lemma rooted_dropWhile: "rooted (dropWhile (\<lambda>c. c \<noteq> CHR ''/'') s)"
  using hd_dropWhile [of "\<lambda>c. c \<noteq> CHR ''/''" s] by (auto simp: rooted_def)

lemma rfc_slash: "rfc3986_remove_dots ''/'' out = out @ ''/''"
  by (subst rfc3986_remove_dots.simps, simp, subst rfc3986_remove_dots.simps, simp)

lemma rfc_nil: "rfc3986_remove_dots [] out = out"
  by (subst rfc3986_remove_dots.simps) simp

text \<open>One step of both, for an absolute path.\<close>

lemma rooted_cases:
  assumes "rooted p" "p \<noteq> []"
  obtains (dot) t where "p = ''/./'' @ t" | (dot_end) "p = ''/.''" | (up) t where "p = ''/../'' @ t" | (up_end) "p = ''/..''"
  | (seg) t where "p = CHR ''/'' # t" "take 2 t \<noteq> ''./''" "t \<noteq> ''.''" "take 3 t \<noteq> ''../''" "t \<noteq> ''..''"
proof -
  obtain t where t: "p = CHR ''/'' # t" using assms by (cases p) (auto simp: rooted_def)
  show ?thesis
  proof (cases "take 2 t = ''./'' \<or> t = ''.'' \<or> take 3 t = ''../'' \<or> t = ''..''")
    case True
    then consider "t = ''./'' @ drop 2 t" | "t = ''.''" | "t = ''../'' @ drop 3 t" | "t = ''..''"
      by (metis append_take_drop_id)
    then show ?thesis
      using t that(1) [of "drop 2 t"] that(2) that(3) [of "drop 3 t"] that(4) by cases auto
  next
    case False
    with t that(5) [of t] show ?thesis by blast
  qed
qed

lemma step_dot: "remove_dots (''/./'' @ t) out = remove_dots (CHR ''/'' # t) out"
    "rfc3986_remove_dots (''/./'' @ t) out = rfc3986_remove_dots (CHR ''/'' # t) out"
  by (subst remove_dots.simps, simp add: char_at_def) (subst rfc3986_remove_dots.simps, simp)

lemma step_up: "remove_dots (''/../'' @ t) out = remove_dots (CHR ''/'' # t) (pop_segment out)"
    "rfc3986_remove_dots (''/../'' @ t) out = rfc3986_remove_dots (CHR ''/'' # t) (pop_segment out)"
  by (subst remove_dots.simps, simp add: char_at_def) (subst rfc3986_remove_dots.simps, simp)

lemma step_dot_end: "remove_dots ''/.'' out = out @ ''/''" "rfc3986_remove_dots ''/.'' out = out @ ''/''"
  by (subst remove_dots.simps, simp add: char_at_def) (subst rfc3986_remove_dots.simps, simp add: rfc_slash)

lemma step_up_end: "remove_dots ''/..'' out = pop_to_slash out" "rfc3986_remove_dots ''/..'' out = pop_segment out @ ''/''"
  by (subst remove_dots.simps, simp add: char_at_def) (subst rfc3986_remove_dots.simps, simp add: rfc_slash)

lemma take2_dot: "take 2 t = ''./'' \<longleftrightarrow> char_at t 0 = CHR ''.'' \<and> char_at t 1 = CHR ''/''"
  by (cases t; cases "tl t") (auto simp: char_at_def)

lemma take3_up: "take 3 t = ''../'' \<longleftrightarrow> char_at t 0 = CHR ''.'' \<and> char_at t 1 = CHR ''.'' \<and> char_at t 2 = CHR ''/''"
  by (cases t; cases "tl t"; cases "tl (tl t)") (auto simp: char_at_def)

lemma char_at_Cons: "char_at (c # t) (Suc i) = char_at t i" "char_at (c # t) 0 = c"
  by (simp_all add: char_at_def)

lemma step_seg:
  assumes "take 2 t \<noteq> ''./''" "t \<noteq> ''.''" "take 3 t \<noteq> ''../''" "t \<noteq> ''..''"
  shows "remove_dots (CHR ''/'' # t) out
      = remove_dots (dropWhile (\<lambda>c. c \<noteq> CHR ''/'') t) (out @ CHR ''/'' # takeWhile (\<lambda>c. c \<noteq> CHR ''/'') t)"
    "rfc3986_remove_dots (CHR ''/'' # t) out
      = rfc3986_remove_dots (dropWhile (\<lambda>c. c \<noteq> CHR ''/'') t) (out @ CHR ''/'' # takeWhile (\<lambda>c. c \<noteq> CHR ''/'') t)"
proof -
  have c: "char_at (CHR ''/'' # t) 1 = char_at t 0" "char_at (CHR ''/'' # t) 2 = char_at t 1" "char_at (CHR ''/'' # t) 3 = char_at t 2"
    "char_at (CHR ''/'' # t) 0 = CHR ''/''"
    using char_at_Cons [of "CHR ''/''" t] by (simp_all add: numeral_2_eq_2 numeral_3_eq_3)
  have one: "\<not> (char_at t 0 = CHR ''.'' \<and> length (CHR ''/'' # t) = 2)" using assms(2) by (cases t) (auto simp: char_at_def)
  have two: "\<not> (char_at t 0 = CHR ''.'' \<and> char_at t 1 = CHR ''.'' \<and> length (CHR ''/'' # t) = 3)"
    using assms(4) by (cases t; cases "tl t") (auto simp: char_at_def)
  show "remove_dots (CHR ''/'' # t) out
      = remove_dots (dropWhile (\<lambda>c. c \<noteq> CHR ''/'') t) (out @ CHR ''/'' # takeWhile (\<lambda>c. c \<noteq> CHR ''/'') t)"
    using assms(1,3) one two unfolding take2_dot take3_up by (subst remove_dots.simps) (simp only: c, auto)
  show "rfc3986_remove_dots (CHR ''/'' # t) out
      = rfc3986_remove_dots (dropWhile (\<lambda>c. c \<noteq> CHR ''/'') t) (out @ CHR ''/'' # takeWhile (\<lambda>c. c \<noteq> CHR ''/'') t)"
    using assms by (subst rfc3986_remove_dots.simps) simp
qed

text \<open>The only difference: \<^verbatim>\<open>/..\<close> at the very end of nothing leaves the source with an empty path.\<close>

lemma remove_dots_rfc:
  assumes "rooted p" "rooted out"
  shows "remove_dots p out = rfc3986_remove_dots p out \<or> remove_dots p out = [] \<and> rfc3986_remove_dots p out = ''/''"
  using assms
proof (induction "length p" arbitrary: p out rule: less_induct)
  case less
  show ?case
  proof (cases "p = []")
    case True
    then show ?thesis by (simp add: rfc_nil remove_dots.simps)
  next
    case False
    from less.prems(1) False show ?thesis
    proof (cases rule: rooted_cases)
      case (dot t)
      then show ?thesis using less.hyps [of "CHR ''/'' # t" out] less.prems(2) step_dot [of t out] by (simp add: rooted_def)
    next
      case dot_end
      then show ?thesis by (simp add: step_dot_end)
    next
      case (up t)
      then show ?thesis using less.hyps [of "CHR ''/'' # t" "pop_segment out"] rooted_pop [OF less.prems(2)] step_up [of t out]
        by (simp add: rooted_def)
    next
      case up_end
      then show ?thesis using pop_to_slash_rooted [OF less.prems(2)]
        by (cases "out = []") (simp_all add: step_up_end pop_segment_def)
    next
      case (seg t)
      have "rooted (out @ CHR ''/'' # takeWhile (\<lambda>c. c \<noteq> CHR ''/'') t)"
        using less.prems(2) by (cases out) (auto simp: rooted_def)
      moreover have "length (dropWhile (\<lambda>c. c \<noteq> CHR ''/'') t) < length p"
        using seg(1) length_dropWhile_le [of "\<lambda>c. c \<noteq> CHR ''/''" t] by simp
      ultimately show ?thesis using less.hyps rooted_dropWhile [of t] seg(1) step_seg [OF seg(2-)] by metis
    qed
  qed
qed

lemma rfc_nonempty:
  assumes "rooted p" "p \<noteq> [] \<or> out \<noteq> []"
  shows "rfc3986_remove_dots p out \<noteq> []"
  using assms
proof (induction "length p" arbitrary: p out rule: less_induct)
  case less
  show ?case
  proof (cases "p = []")
    case True
    then show ?thesis using less.prems(2) by (simp add: rfc_nil)
  next
    case False
    from less.prems(1) False show ?thesis
    proof (cases rule: rooted_cases)
      case (dot t)
      then show ?thesis using less.hyps [of "CHR ''/'' # t" out] step_dot [of t out] by (simp add: rooted_def)
    next
      case (up t)
      then show ?thesis using less.hyps [of "CHR ''/'' # t" "pop_segment out"] step_up [of t out] by (simp add: rooted_def)
    next
      case (seg t)
      have "length (dropWhile (\<lambda>c. c \<noteq> CHR ''/'') t) < length p"
        using seg(1) length_dropWhile_le [of "\<lambda>c. c \<noteq> CHR ''/''" t] by simp
      then show ?thesis
        using less.hyps rooted_dropWhile [of t] unfolding seg(1) step_seg(2) [OF seg(2-)] by (metis append_is_Nil_conv list.distinct(1))
    qed (simp_all add: step_dot_end step_up_end)
  qed
qed

text \<open>The result is not longer than the path, so the buffer for it is large enough.\<close>

lemma pop_to_slash_length: "length (pop_to_slash out) \<le> length out"
  using length_dropWhile_le [of "\<lambda>c. c \<noteq> CHR ''/''" "rev out"] by (simp add: pop_to_slash_def)

lemma remove_dots_length: "length (remove_dots p out) \<le> length p + length out"
proof (induction "length p" arbitrary: p out rule: less_induct)
  case less
  let ?a = "char_at p 0" and ?b = "char_at p 1" and ?c = "char_at p 2"
  have drop: "length (remove_dots (drop k p) o') \<le> length p + length out" if "p \<noteq> []" "0 < k" "length o' \<le> length out" for k o'
    using less.hyps [of "drop k p" o'] that by (cases p) auto
  consider "p = []" | (a) "p \<noteq> []" "?a = CHR ''.'' \<and> ?b = CHR ''.'' \<and> ?c = CHR ''/''"
    | (b) "p \<noteq> []" "\<not> (?a = CHR ''.'' \<and> ?b = CHR ''.'' \<and> ?c = CHR ''/'')" "?a = CHR ''.'' \<and> ?b = CHR ''/''"
    | (c) "p \<noteq> []" "?a = CHR ''/'' \<and> ?b = CHR ''.'' \<and> ?c = CHR ''/''"
    | (d) "p \<noteq> []" "?a = CHR ''/'' \<and> ?b = CHR ''.'' \<and> ?c \<noteq> CHR ''/'' \<and> length p = 2"
    | (e) "p \<noteq> []" "?a = CHR ''/'' \<and> ?b = CHR ''.'' \<and> ?c = CHR ''.'' \<and> length p \<noteq> 2 \<and> char_at p 3 = CHR ''/''"
    | (f) "p \<noteq> []" "?a = CHR ''/'' \<and> ?b = CHR ''.'' \<and> ?c = CHR ''.'' \<and> length p \<noteq> 2 \<and> char_at p 3 \<noteq> CHR ''/'' \<and> length p = 3"
    | (g) "p \<noteq> []" "\<not> (?a = CHR ''.'' \<and> ?b = CHR ''.'' \<and> ?c = CHR ''/'')" "\<not> (?a = CHR ''.'' \<and> ?b = CHR ''/'')"
        "\<not> (?a = CHR ''/'' \<and> ?b = CHR ''.'' \<and> ?c = CHR ''/'')" "\<not> (?a = CHR ''/'' \<and> ?b = CHR ''.'' \<and> length p = 2)"
        "\<not> (?a = CHR ''/'' \<and> ?b = CHR ''.'' \<and> ?c = CHR ''.'' \<and> char_at p 3 = CHR ''/'')"
        "\<not> (?a = CHR ''/'' \<and> ?b = CHR ''.'' \<and> ?c = CHR ''.'' \<and> length p = 3)"
    by argo
  then show ?case
  proof cases
    case 1
    then show ?thesis by (simp add: remove_dots.simps)
  next
    case a
    then show ?thesis using drop [of 3 out] by (subst remove_dots.simps) simp
  next
    case b
    then show ?thesis using drop [of 2 out] by (subst remove_dots.simps) simp
  next
    case c
    then show ?thesis using drop [of 2 out] by (subst remove_dots.simps) simp
  next
    case d
    then show ?thesis by (subst remove_dots.simps) simp
  next
    case e
    then show ?thesis using drop [of 3 "pop_segment out"] pop_length [of out] by (subst remove_dots.simps) simp
  next
    case f
    then show ?thesis using pop_to_slash_length [of out] by (subst remove_dots.simps) simp
  next
    case g
    let ?p = "dropWhile (\<lambda>c. c \<noteq> CHR ''/'') (tl p)" and ?o = "out @ hd p # takeWhile (\<lambda>c. c \<noteq> CHR ''/'') (tl p)"
    have "length (tl p) = length (takeWhile (\<lambda>c. c \<noteq> CHR ''/'') (tl p)) + length ?p"
      by (metis length_append takeWhile_dropWhile_id)
    then have len: "length ?p + length ?o = length p + length out" "length ?p < length p" using g(1) by (cases p; simp)+
    moreover have "remove_dots p out = remove_dots ?p ?o"
      unfolding remove_dots.simps [of p out] using g by (simp only: if_False)
    ultimately show ?thesis using less.hyps [of ?p ?o] by simp
  qed
qed

text \<open>
  C34. Dot segments are removed from an absolute path as RFC 3986 says; where the
  result would be the single slash, the source may leave nothing, which the path section
  then replaces by that slash.
\<close>

theorem nsurl_remove_dots_rfc:
  assumes "hd p = CHR ''/''" "p \<noteq> []"
  shows "(if nsurl_remove_dot_segments p = [] then ''/'' else nsurl_remove_dot_segments p) = rfc3986_remove_dots p []"
proof -
  have "rfc3986_remove_dots p [] \<noteq> []"
    using rfc_nonempty [of p "[]"] assms by (simp add: rooted_def)
  then show ?thesis
    using remove_dots_rfc [of p "[]"] assms by (auto simp: nsurl_remove_dot_segments_def rooted_def)
qed

theorem nsurl_remove_dots_rfc_witness:
  "nsurl_remove_dot_segments ''/a/../..'' = [] \<and> rfc3986_remove_dots ''/a/../..'' [] = ''/''"
proof -
  have "nsurl_remove_dot_segments ''/a/../..'' = []" by code_simp
  then show ?thesis using nsurl_remove_dots_rfc [of "''/a/../..''"] by simp
qed

section \<open>Resolving a relative reference\<close>

text \<open>The component a section gives; an empty one is no component.\<close>

definition section_component :: "string \<Rightarrow> string option" where
  "section_component s = (if normal_form False s = [] then None else Some (normal_form False s))"

lemma write_sub: "write_buf norm buf = Some b \<Longrightarrow> sub_buf b 0 (int (length norm)) = Some norm"
  by (auto simp: write_buf_def sub_buf_def split: if_splits)

lemma write_length: "write_buf norm buf = Some b \<Longrightarrow> length b = length buf"
  by (auto simp: write_buf_def split: if_splits)

definition path_component :: "string \<Rightarrow> nsurl_components \<Rightarrow> string option" where
  "path_component s c = (case section_component s of Some p \<Rightarrow> Some p
     | None \<Rightarrow> if host c \<noteq> None \<and> scheme_type c \<noteq> NSURL_SCHEME_MAILTO \<or> scheme_type c = NSURL_SCHEME_FILE
         then Some ''/'' else None)"

lemma section_plenty:
  assumes "section_range s section pegs = (a, b)" "b = a \<or> b \<le> length s" "a \<le> b" "mem_plenty m"
    "length (normal_form False (take (b - a) (drop a s))) < length buf"
  defines "t \<equiv> take (b - a) (drop a s)"
  obtains m' buf' where "mem_plenty m'" "length buf' = length buf"
    "section = URL_PATH \<Longrightarrow> nsurl_create_from_section idna s section pegs buf c m
      = Some (NSERROR_OK, c\<lparr>path := path_component t c\<rparr>, m', buf')"
    "section = URL_QUERY \<Longrightarrow> nsurl_create_from_section idna s section pegs buf c m
      = Some (NSERROR_OK, c\<lparr>query := section_component t\<rparr>, m', buf')"
    "section = URL_FRAGMENT \<Longrightarrow> nsurl_create_from_section idna s section pegs buf c m
      = Some (NSERROR_OK, c\<lparr>fragment := section_component t\<rparr>, m', buf')"
proof -
  let ?norm = "normal_form False t"
  obtain buf' where w: "write_buf ?norm buf = Some buf'" using assms(5) by (simp add: write_buf_def t_def)
  have len: "length t = b - a" using assms(2,3) by (auto simp: t_def)
  then have n: "normalise False t [] [] (int (b - a)) = (?norm, int (length ?norm))" by (simp add: normalise_eq)
  have sub: "sub_buf buf' 0 (int (length ?norm)) = Some ?norm" using w by (rule write_sub)
  have intern: "intern_into f c m = (NSERROR_OK, f c, m\<lparr>hm_live := hm_live m + 1\<rparr>)" for f
    using assms(4) by (simp add: intern_into_def)
  let ?m = "if ?norm \<noteq> [] \<or> section = URL_PATH \<and> path_component t c \<noteq> None then m\<lparr>hm_live := hm_live m + 1\<rparr> else m"
  have "mem_plenty ?m" using assms(4) by simp
  moreover have "length buf' = length buf" using w by (rule write_length)
  moreover have "nsurl_create_from_section idna s section pegs buf c m = Some (NSERROR_OK, c\<lparr>path := path_component t c\<rparr>, ?m, buf')"
    if "section = URL_PATH"
    using that assms(1) n w sub intern
    by (auto simp: nsurl_create_from_section_def create_path_def path_component_def section_component_def t_def [symmetric])
  moreover have "nsurl_create_from_section idna s section pegs buf c m = Some (NSERROR_OK, c\<lparr>query := section_component t\<rparr>, ?m, buf')"
    if "section = URL_QUERY"
    using that assms(1) n w sub intern
    by (auto simp: nsurl_create_from_section_def create_query_def section_component_def t_def [symmetric])
  moreover have "nsurl_create_from_section idna s section pegs buf c m = Some (NSERROR_OK, c\<lparr>fragment := section_component t\<rparr>, ?m, buf')"
    if "section = URL_FRAGMENT"
    using that assms(1) n w sub intern
    by (auto simp: nsurl_create_from_section_def create_fragment_def section_component_def t_def [symmetric])
  ultimately show ?thesis by (rule that)
qed

text \<open>
  The target of a relative reference: the base with the path, query and fragment of
  RFC 3986, section 5.2.2, for a reference with neither scheme nor authority.
\<close>

definition section_text :: "string \<Rightarrow> url_sections \<Rightarrow> url_markers \<Rightarrow> string" where
  "section_text s section pegs = (let (a, b) = section_range s section pegs in take (b - a) (drop a s))"

definition target_path :: "string \<Rightarrow> nsurl_components \<Rightarrow> string option" where
  "target_path rel_path base =
     (if rel_path = [] then path base
      else path_component (nsurl_remove_dot_segments
        (if hd rel_path = CHR ''/'' then rel_path else merge_base (the (path base)) @ rel_path)) base)"

definition target_of :: "string \<Rightarrow> nsurl_components \<Rightarrow> nsurl_components" where
  "target_of rel base = (let pegs = nsurl_get_string_markers rel True; rel_path = section_text rel URL_PATH pegs in
     base\<lparr>path := target_path rel_path base,
       query := (if rel_path = [] \<and> mk_fragment pegs = mk_query pegs then query base
         else section_component (section_text rel URL_QUERY pegs)),
       fragment := section_component (section_text rel URL_FRAGMENT pegs)\<rparr>)"

lemma join_path_plenty:
  assumes "mem_plenty m" "5 * length p + 2 \<le> length buf"
  obtains m' buf' where "join_path idna p buf c m
      = Some (NSERROR_OK, c\<lparr>path := path_component (nsurl_remove_dot_segments p) c\<rparr>, m', buf')"
    "mem_plenty m'" "length buf' = length buf"
proof -
  define new where "new = nsurl_remove_dot_segments p"
  define used where "used = length p + 1 + length new"
  have n: "length new \<le> length p" using remove_dots_length [of p "[]"] by (simp add: new_def nsurl_remove_dot_segments_def)
  have fits: "used + 3 * length new + 1 \<le> length buf" using n assms(2) by (simp add: used_def)
  let ?m = "\<lparr>mk_start = 0, mk_scheme_end = 0, mk_authority = 0, mk_colon_first = 0, mk_at = 0, mk_colon_last = 0,
       mk_path = 0, mk_query = length new, mk_fragment = 0, mk_end = 0, mk_scheme_type = NSURL_SCHEME_OTHER\<rparr>"
  have "section_range new URL_PATH ?m = (0, length new)" by (simp add: section_range_def)
  moreover have "length (normal_form False (take (length new - 0) (drop 0 new))) < length (drop used buf)"
    using normal_form_length [of False new] fits by simp
  ultimately obtain m' rest where r: "mem_plenty m'" "length rest = length (drop used buf)"
    "nsurl_create_from_section idna new URL_PATH ?m (drop used buf) c m
      = Some (NSERROR_OK, c\<lparr>path := path_component (take (length new - 0) (drop 0 new)) c\<rparr>, m', rest)"
    using assms(1) by (elim section_plenty [of new URL_PATH ?m 0 "length new" m "drop used buf" idna c]) simp_all
  have "\<not> length buf < used" using fits by simp
  then have "join_path idna p buf c m
      = Some (NSERROR_OK, c\<lparr>path := path_component new c\<rparr>, m', p @ CHR 0x00 # new @ rest)"
    unfolding join_path_def Let_def new_def [symmetric] used_def [symmetric] using r(3) by simp
  moreover have "length (p @ CHR 0x00 # new @ rest) = length buf" using r(2) fits by (simp add: used_def)
  ultimately show ?thesis using r(1) that unfolding new_def by blast
qed

lemma merge_base_length: "length (merge_base p) \<le> length p"
  by (simp add: merge_base_def Let_def)

lemma section_text_range: "section_range s sec pegs = (a, b) \<Longrightarrow> take (b - a) (drop a s) = section_text s sec pegs"
  by (simp add: section_text_def)

text \<open>A query or a fragment section in the buffer of the join.\<close>

lemma join_section_plenty:
  assumes "mem_plenty m" "markers_ordered (length rel) pegs" "join_buffer_size base pegs parts \<le> length buf"
  obtains m' buf' where "mem_plenty m'" "length buf' = length buf"
    "sec = URL_QUERY \<Longrightarrow> nsurl_create_from_section idna rel sec pegs buf c m
      = Some (NSERROR_OK, c\<lparr>query := section_component (section_text rel sec pegs)\<rparr>, m', buf')"
    "sec = URL_FRAGMENT \<Longrightarrow> nsurl_create_from_section idna rel sec pegs buf c m
      = Some (NSERROR_OK, c\<lparr>fragment := section_component (section_text rel sec pegs)\<rparr>, m', buf')"
proof -
  obtain a b where r: "section_range rel sec pegs = (a, b)" by force
  have fit: "a \<le> b" "b = a \<or> b \<le> length rel" "b - a \<le> nsurl_get_longest_section pegs"
    using section_range_fits [OF r assms(2)] by simp_all
  have "length (normal_form False (take (b - a) (drop a rel))) \<le> 3 * nsurl_get_longest_section pegs"
    using section_normalised [OF r assms(2), of False] by simp
  also have "\<dots> < length buf" using assms(3) by (simp add: join_buffer_size_def)
  finally show ?thesis
    using section_plenty [OF r fit(2,1) assms(1), of buf] that unfolding section_text_range [OF r] by metis
qed

lemma join_any_query_plenty:
  assumes "mem_plenty m" "markers_ordered (length rel) pegs" "mk_scheme_end pegs = mk_start pegs" "mk_path pegs = mk_authority pegs"
    "join_buffer_size base pegs (joined_parts rel pegs) \<le> length buf"
  obtains m' buf' where "mem_plenty m'" "length buf' = length buf"
    "join_query idna base rel pegs (joined_parts rel pegs) c m buf = Some (NSERROR_OK,
       c\<lparr>query := (if section_text rel URL_PATH pegs = [] \<and> mk_fragment pegs = mk_query pegs then query base
         else section_component (section_text rel URL_QUERY pegs))\<rparr>, m', buf')"
proof -
  have ord: "mk_path pegs \<le> mk_query pegs" "mk_query pegs \<le> mk_fragment pegs" "mk_query pegs \<le> length rel"
    using assms(2) by (simp_all add: markers_ordered_def)
  then have "section_text rel URL_PATH pegs = [] \<longleftrightarrow> mk_query pegs - mk_path pegs = 0"
    by (auto simp: section_text_def section_range_def)
  then have q: "NSURL_F_BASE_QUERY \<in> joined_parts rel pegs
      \<longleftrightarrow> section_text rel URL_PATH pegs = [] \<and> mk_fragment pegs = mk_query pegs"
    using ord assms(3,4) by (auto simp: joined_parts_def)
  show ?thesis
  proof (cases "NSURL_F_BASE_QUERY \<in> joined_parts rel pegs")
    case True
    moreover have "mem_plenty (nsurl_component_copy (query base) m)" using assms(1) by (simp add: nsurl_component_copy_def)
    ultimately show ?thesis using that q by (simp add: join_query_def)
  next
    case False
    obtain m' buf' where "mem_plenty m'" "length buf' = length buf" "nsurl_create_from_section idna rel URL_QUERY pegs buf c m
        = Some (NSERROR_OK, c\<lparr>query := section_component (section_text rel URL_QUERY pegs)\<rparr>, m', buf')"
      by (rule join_section_plenty [OF assms(1,2,5), of URL_QUERY idna c]) simp
    then show ?thesis using that [of m' buf'] False q by (simp only: join_query_def if_False)
  qed
qed

text \<open>The path of the target fits the buffer, merged or not.\<close>

lemma join_any_path_plenty:
  assumes "mem_plenty m" "markers_ordered (length rel) pegs" "path base \<noteq> None"
    "mk_scheme_end pegs = mk_start pegs" "mk_path pegs = mk_authority pegs"
    "join_buffer_size base pegs (joined_parts rel pegs) \<le> length buf" "host c = host base" "scheme_type c = scheme_type base"
  obtains m' buf' where "mem_plenty m'" "length buf' = length buf"
    "join_any_path idna base rel pegs (joined_parts rel pegs) c m buf
      = Some (NSERROR_OK, c\<lparr>path := target_path (section_text rel URL_PATH pegs) base\<rparr>, m', buf')"
proof -
  let ?n = "mk_query pegs - mk_path pegs"
  define r where "r = take ?n (drop (mk_path pegs) rel)"
  have ord: "mk_path pegs \<le> mk_query pegs" "mk_query pegs \<le> length rel" using assms(2) by (simp_all add: markers_ordered_def)
  have len: "length r = ?n" using ord by (simp add: r_def)
  have sec: "section_text rel URL_PATH pegs = r" using ord by (simp add: section_text_def section_range_def r_def)
  have hd: "hd r = char_at rel (mk_path pegs)" if "?n \<noteq> 0"
    using that ord by (simp add: r_def char_at_def hd_drop_conv_nth)
  have long: "?n \<le> nsurl_get_longest_section pegs" by (rule longest_section)
  obtain p0 where p0: "path base = Some p0" using assms(3) by auto
  note parts = joined_parts_def [of rel pegs] assms(4,5)
  have pc: "path_component s c = path_component s base" for s unfolding path_component_def assms(7,8) by (rule refl)
  consider (keep) "?n = 0" | (absolute) "?n \<noteq> 0" "hd r = CHR ''/''" | (merge) "?n \<noteq> 0" "hd r \<noteq> CHR ''/''" by blast
  then show ?thesis
  proof cases
    case keep
    then have "join_any_path idna base rel pegs (joined_parts rel pegs) c m buf
        = Some (NSERROR_OK, c\<lparr>path := path base\<rparr>, nsurl_component_copy (path base) m, buf)"
      by (simp add: join_any_path_def parts)
    moreover have "r = []" using len keep by simp
    moreover have "mem_plenty (nsurl_component_copy (path base) m)" using assms(1) by (simp add: nsurl_component_copy_def p0)
    ultimately show ?thesis using that sec by (simp add: target_path_def)
  next
    case absolute
    then have "r \<noteq> []" using len by auto
    have "join_any_path idna base rel pegs (joined_parts rel pegs) c m buf = join_path idna r buf c m"
      using absolute hd by (simp add: join_any_path_def Let_def parts r_def)
    moreover have "5 * length r + 2 \<le> length buf" using len long assms(6) by (simp add: join_buffer_size_def)
    ultimately show ?thesis
      using join_path_plenty [OF assms(1), of r buf idna c] that absolute(2) \<open>r \<noteq> []\<close> by (auto simp: target_path_def sec pc)
  next
    case merge
    then have "r \<noteq> []" using len by auto
    have in_parts: "NSURL_F_MERGED_PATH \<in> joined_parts rel pegs" using merge hd by (simp add: parts)
    have "join_any_path idna base rel pegs (joined_parts rel pegs) c m buf = join_path idna (merge_base p0 @ r) buf c m"
      using merge hd by (simp add: join_any_path_def Let_def parts r_def p0)
    moreover have "5 * length (merge_base p0 @ r) + 2 \<le> length buf"
      using len long assms(6) in_parts merge_base_length [of p0] p0 by (simp add: join_buffer_size_def)
    ultimately show ?thesis
      using join_path_plenty [OF assms(1), of "merge_base p0 @ r" buf idna c] that merge(2) \<open>r \<noteq> []\<close>
      by (auto simp: target_path_def sec pc p0)
  qed
qed


lemma join_then_ok: "join_then (Some (NSERROR_OK, c, m, buf)) f = f c m buf"
  by (simp add: join_then_def)

lemma plenty_copies: "mem_plenty m \<Longrightarrow> mem_plenty (fold nsurl_component_copy cs m)"
  by (induction cs arbitrary: m) (simp_all add: nsurl_component_copy_def)

lemma components_to_string_plenty:
  assumes "scheme c \<noteq> None" "mem_plenty m"
  obtains m' where "nsurl_components_to_string c NSURL_WITH_FRAGMENT m = (Inr (url_text c, length (url_text c)), m')"
  using components_to_string_all [OF assms(1), of m] assms(2) by simp


text \<open>The reference \<^verbatim>\<open>../c?x\<close> on the base of the earlier examples.\<close>

lemma relative_markers:
  "nsurl_get_string_markers ''../c?x'' True
    = \<lparr>mk_start = 0, mk_scheme_end = 0, mk_authority = 0, mk_colon_first = 0, mk_at = 0, mk_colon_last = 0,
       mk_path = 0, mk_query = 4, mk_fragment = 6, mk_end = 6, mk_scheme_type = NSURL_SCHEME_OTHER\<rparr>"
  by code_simp

lemma relative_target:
  "target_of ''../c?x'' sample_components
    = sample_components\<lparr>path := Some ''/c'', query := Some ''x'', fragment := None\<rparr>"
  unfolding target_of_def relative_markers by code_simp


end
