(* ===== verification/Url_Escape.thy ===== *)
theory Url_Escape
  imports Nsurl_Create
begin

text \<open>
  Percent escaping of strings (\<^verbatim>\<open>netsurf/utils/url.c\<close>, with \<^verbatim>\<open>ascii_is_hex\<close> of
  \<^verbatim>\<open>utils/ascii.h\<close>).  Sizes are computed at the width of the device's
  \<^verbatim>\<open>size_t\<close>, 32 bits: a buffer has the size the wrapped product asks for, and a write
  behind its end, like a read behind the end of the argument, is the result \<^const>\<open>None\<close>.
\<close>

section \<open>Characters\<close>

definition ascii_is_af_lower :: "char \<Rightarrow> bool" where
  "ascii_is_af_lower c \<longleftrightarrow> 97 \<le> byte_of c \<and> byte_of c \<le> 102"

definition ascii_is_af_upper :: "char \<Rightarrow> bool" where
  "ascii_is_af_upper c \<longleftrightarrow> 65 \<le> byte_of c \<and> byte_of c \<le> 70"

definition ascii_is_hex :: "char \<Rightarrow> bool" where
  "ascii_is_hex c \<longleftrightarrow> ascii_is_digit c \<or> ascii_is_af_upper c \<or> ascii_is_af_lower c"

definition xdigit_to_hex :: "char \<Rightarrow> int" where
  "xdigit_to_hex c =
     (if 48 \<le> byte_of c \<and> byte_of c \<le> 57 then byte_of c - 48
      else if 65 \<le> byte_of c \<and> byte_of c \<le> 70 then byte_of c - 65 + 10
      else byte_of c - 97 + 10)"

definition strlen :: "string \<Rightarrow> nat" where
  "strlen s = length (takeWhile (\<lambda>c. c \<noteq> CHR 0x00) s)"

section \<open>Unescaping\<close>

text \<open>
  The two loops: while at least three characters are left, an escape is decoded; the rest
  is copied.
\<close>

fun unescape_run :: "string \<Rightarrow> string" where
  "unescape_run (c # c1 # c2 # s) =
     (if c = CHR ''%'' \<and> ascii_is_hex c1 \<and> ascii_is_hex c2
      then char_of (push_bit 4 (xdigit_to_hex c1) OR xdigit_to_hex c2) # unescape_run s
      else c # unescape_run (c1 # c2 # s))"
| "unescape_run s = s"

text \<open>
  \<open>str\<close> is the bytes that can be read from the pointer on, in front of a terminator; the
  last argument of the C function is an out parameter, \<open>result_out\<close> says that it is not NULL.
\<close>

definition url_unescape :: "string option \<Rightarrow> nat \<Rightarrow> bool \<Rightarrow> hmem \<Rightarrow> ((nserror + string \<times> nat) \<times> hmem) option" where
  "url_unescape str len result_out m = (case str of
     None \<Rightarrow> Some (Inl NSERROR_BAD_PARAMETER, m)
   | Some s \<Rightarrow>
       if \<not> result_out then Some (Inl NSERROR_BAD_PARAMETER, m)
       else let len = (if len = 0 then strlen s else len);
                (ok, m) = mem_alloc m
         in if \<not> ok then Some (Inl NSERROR_NOMEM, m)
            else if length s < len then None
            else let result = unescape_run (take len s)
              in if int (length result) < size_t (int len + 1) then Some (Inr (result, length result), m) else None)"

section \<open>Escaping\<close>

text \<open>The set of characters that are escaped unless the caller makes an exception.\<close>

definition url_reserved :: string where
  "url_reserved = '':/?#[]@'' @ ''!$&'' @ [CHR 0x27] @ ''()*+,;='' @ ''<>%'' @ [CHR 0x22] @ ''{}|'' @ [CHR 0x5C] @ ''^`~''"

definition escape_needed :: "string option \<Rightarrow> char \<Rightarrow> bool" where
  "escape_needed escexceptions c \<longleftrightarrow> 128 \<le> byte_of c
     \<or> (c \<in> set url_reserved \<and> (case escexceptions of None \<Rightarrow> True | Some e \<Rightarrow> c \<notin> set e))
     \<or> byte_of c \<le> 0x20 \<or> byte_of c = 0x7f"

definition hex_digits :: string where
  "hex_digits = ''0123456789ABCDEF''"

definition escape_char :: "bool \<Rightarrow> string option \<Rightarrow> char \<Rightarrow> string" where
  "escape_char sptoplus escexceptions c =
     (if escape_needed escexceptions c then
        (if byte_of c = 0x20 \<and> sptoplus then ''+''
         else [CHR ''%'', hex_digits ! nat (drop_bit 4 (byte_of c) AND 0xf), hex_digits ! nat (byte_of c AND 0xf)])
      else [c])"

fun escape_run :: "bool \<Rightarrow> string option \<Rightarrow> string \<Rightarrow> string" where
  "escape_run sptoplus escexceptions [] = []"
| "escape_run sptoplus escexceptions (c # s) = escape_char sptoplus escexceptions c @ escape_run sptoplus escexceptions s"

definition url_escape :: "string option \<Rightarrow> bool \<Rightarrow> string option \<Rightarrow> bool \<Rightarrow> hmem \<Rightarrow> ((nserror + string) \<times> hmem) option" where
  "url_escape unescaped sptoplus escexceptions result_out m = (case unescaped of
     None \<Rightarrow> Some (Inl NSERROR_BAD_PARAMETER, m)
   | Some s \<Rightarrow>
       if \<not> result_out then Some (Inl NSERROR_BAD_PARAMETER, m)
       else let len = strlen s;
                (ok, m) = mem_alloc m
         in if \<not> ok then Some (Inl NSERROR_NOMEM, m)
            else let escaped = escape_run sptoplus escexceptions (take len s)
              in if int (length escaped) < size_t (int len * 3 + 1) then Some (Inr escaped, m) else None)"


section \<open>What is escaped comes back\<close>

text \<open>The two digits of a byte, for all 256 of them.\<close>

definition hex_pair :: "char \<Rightarrow> bool" where
  "hex_pair c = (let c1 = hex_digits ! nat (drop_bit 4 (byte_of c) AND 0xf); c2 = hex_digits ! nat (byte_of c AND 0xf)
     in ascii_is_hex c1 \<and> ascii_is_hex c2 \<and> char_of (push_bit 4 (xdigit_to_hex c1) OR xdigit_to_hex c2) = c)"

lemma hex_pair_all: "hex_pair c"
proof -
  have "\<forall>c \<in> set (map (char_of :: nat \<Rightarrow> char) [0..<256]). hex_pair c" by code_simp
  moreover have "c \<in> set (map (char_of :: nat \<Rightarrow> char) [0..<256])"
    by (metis char_of_char nat_of_char_less_256 atLeastLessThan_iff imageI set_map set_upt zero_le)
  ultimately show ?thesis by blast
qed

lemma unescape_pair:
  "unescape_run (CHR ''%'' # hex_digits ! nat (drop_bit 4 (byte_of c) AND 0xf) # hex_digits ! nat (byte_of c AND 0xf) # s)
    = c # unescape_run s"
  using hex_pair_all [of c] by (simp add: hex_pair_def Let_def)

lemma unescape_plain: "c \<noteq> CHR ''%'' \<Longrightarrow> unescape_run (c # s) = c # unescape_run s"
  by (cases s; cases "tl s") auto

text \<open>The character that stands for \<open>c\<close> in the unescaped string.\<close>

definition plus_for_space :: "bool \<Rightarrow> char \<Rightarrow> char" where
  "plus_for_space sptoplus c = (if sptoplus \<and> c = CHR '' '' then CHR ''+'' else c)"

definition percent_escaped :: "string option \<Rightarrow> bool" where
  "percent_escaped escexceptions \<longleftrightarrow> (\<forall>e. escexceptions = Some e \<longrightarrow> CHR ''%'' \<notin> set e)"

lemma byte_of_space: "byte_of c = 32 \<longleftrightarrow> c = CHR '' ''"
  using of_char_eq_iff [of c "CHR '' ''", where 'a = int] by simp

lemma unescape_escape_char:
  assumes "percent_escaped e"
  shows "unescape_run (escape_char sptoplus e c @ s) = plus_for_space sptoplus c # unescape_run s"
proof (cases "escape_needed e c")
  case True
  then show ?thesis by (simp add: escape_char_def plus_for_space_def byte_of_space unescape_pair unescape_plain
        del: unescape_run.simps)
next
  case False
  then have "c \<noteq> CHR ''%''" using assms by (auto simp: escape_needed_def url_reserved_def percent_escaped_def split: option.splits)
  moreover have "c \<noteq> CHR '' ''" using False by (auto simp: escape_needed_def)
  ultimately show ?thesis using False by (simp add: escape_char_def plus_for_space_def unescape_plain)
qed

lemma unescape_escape_run:
  "percent_escaped e \<Longrightarrow> unescape_run (escape_run sptoplus e s) = map (plus_for_space sptoplus) s"
  by (induction s) (simp_all add: unescape_escape_char)

lemma escape_run_length: "length (escape_run sptoplus e s) \<le> 3 * length s"
proof (induction s)
  case (Cons c s)
  moreover have "length (escape_char sptoplus e c) \<le> 3" by (simp add: escape_char_def)
  ultimately show ?case by simp
qed simp

lemma unescape_run_length: "length (unescape_run s) \<le> length s"
  by (induction s rule: unescape_run.induct) auto

lemma strlen_id: "CHR 0x00 \<notin> set s \<Longrightarrow> strlen s = length s"
  unfolding strlen_def by (subst takeWhile_eq_all_conv [THEN iffD2]) auto

lemma escape_char_set:
  assumes "x \<in> set (escape_char sptoplus e c)"
  shows "ascii_is_hex x \<or> x = CHR ''%'' \<or> x = CHR ''+'' \<and> sptoplus \<or> x = c \<and> \<not> escape_needed e c"
  using assms hex_pair_all [of c] by (auto simp: escape_char_def hex_pair_def Let_def split: if_splits)

lemma escape_run_set:
  "x \<in> set (escape_run sptoplus e s) \<Longrightarrow>
    ascii_is_hex x \<or> x = CHR ''%'' \<or> x = CHR ''+'' \<and> sptoplus \<or> x \<in> set s \<and> \<not> escape_needed e x"
  by (induction s) (auto dest: escape_char_set)

lemma escape_run_no_NUL: "CHR 0x00 \<notin> set (escape_run sptoplus e s)"
proof
  assume "CHR 0x00 \<in> set (escape_run sptoplus e s)"
  from escape_run_set [OF this] show False
    by (auto simp: ascii_is_hex_def ascii_is_digit_def ascii_is_af_upper_def ascii_is_af_lower_def escape_needed_def)
qed

text \<open>The escaped string, and its length, when memory suffices and the size does not wrap.\<close>

lemma url_escape_plenty:
  assumes "mem_plenty m" "CHR 0x00 \<notin> set s" "3 * length s + 1 < 2 ^ 32"
  shows "url_escape (Some s) sptoplus e True m = Some (Inr (escape_run sptoplus e s), m\<lparr>hm_live := hm_live m + 1\<rparr>)"
proof -
  have "size_t (int (length s) * 3 + 1) = int (length s) * 3 + 1" using assms(3) by (intro size_t_small) simp_all
  then show ?thesis
    using assms(1,2) escape_run_length [of sptoplus e s] by (simp add: url_escape_def strlen_id)
qed

lemma url_unescape_plenty:
  assumes "mem_plenty m" "length s + 1 < 2 ^ 32" "len = length s \<or> len = 0 \<and> CHR 0x00 \<notin> set s"
  shows "url_unescape (Some s) len True m
    = Some (Inr (unescape_run s, length (unescape_run s)), m\<lparr>hm_live := hm_live m + 1\<rparr>)"
proof -
  have "size_t (int (length s) + 1) = int (length s) + 1" using assms(2) by (intro size_t_small) simp_all
  moreover have "(if len = 0 then strlen s else len) = length s" using assms(3) strlen_id [of s] by auto
  ultimately show ?thesis
    using assms(1) unescape_run_length [of s] by (simp add: url_unescape_def Let_def)
qed

text \<open>
  C31. Percent escaping is undone by unescaping, for every string and every list of
  exceptions that does not contain the percent sign, up to the spaces that were turned into
  plus signs on request.  The escaped string holds no NUL, no blank and no byte above 126,
  and neither function writes past the end of its block as long as three times the length
  can be computed in 32 bits.
\<close>

theorem url_escape_roundtrip:
  assumes "mem_plenty m" "CHR 0x00 \<notin> set s" "3 * length s + 2 < 2 ^ 32" "percent_escaped e"
  shows "\<exists>t m' m''. url_escape (Some s) sptoplus e True m = Some (Inr t, m')
    \<and> url_unescape (Some t) 0 True m' = Some (Inr (map (plus_for_space sptoplus) s, length s), m'')
    \<and> (\<forall>c \<in> set t. 33 \<le> byte_of c \<and> byte_of c \<le> 126)
    \<and> hm_live m'' = hm_live m + 2"
proof -
  let ?t = "escape_run sptoplus e s" and ?m = "m\<lparr>hm_live := hm_live m + 1\<rparr>"
  have esc: "url_escape (Some s) sptoplus e True m = Some (Inr ?t, ?m)"
    using assms by (intro url_escape_plenty) simp_all
  have "length ?t + 1 < 2 ^ 32" using escape_run_length [of sptoplus e s] assms(3) by simp
  then have "url_unescape (Some ?t) 0 True ?m
      = Some (Inr (unescape_run ?t, length (unescape_run ?t)), ?m\<lparr>hm_live := hm_live ?m + 1\<rparr>)"
    using assms(1) escape_run_no_NUL by (intro url_unescape_plenty) simp_all
  moreover have "33 \<le> byte_of c \<and> byte_of c \<le> 126" if "c \<in> set ?t" for c
    using escape_run_set [OF that]
    by (auto simp: ascii_is_hex_def ascii_is_digit_def ascii_is_af_upper_def ascii_is_af_lower_def escape_needed_def)
  ultimately show ?thesis using esc by (auto simp: unescape_escape_run [OF assms(4)])
qed

theorem url_escape_roundtrip_witness:
  "\<exists>t m' m''. url_escape (Some ''a b/100%'') True (Some ''/'') True (hmem_at 0) = Some (Inr t, m')
    \<and> url_unescape (Some t) 0 True m' = Some (Inr (''a+b/100%'', 8), m'')"
proof -
  have "map (plus_for_space True) ''a b/100%'' = ''a+b/100%''" by code_simp
  then show ?thesis
    using url_escape_roundtrip [of "hmem_at 0" "''a b/100%''" "Some ''/''" True]
    by (auto simp: percent_escaped_def)
qed

end
