(* ===== verification/Posix_File.thy ===== *)
theory Posix_File
  imports Url_Escape Nsurl_Resolve
begin

text \<open>
  Paths of files (\<^verbatim>\<open>netsurf/utils/file.c\<close>, the default table of file operations, with
  \<^verbatim>\<open>vsnstrjoin\<close> of \<^verbatim>\<open>utils/utils.c\<close>): paths are joined, split, and converted to
  and from \<^verbatim>\<open>file:\<close> URLs.  Allocations are counted; an access outside a string or a
  block is the result \<^const>\<open>None\<close>.
\<close>

section \<open>Joining and splitting\<close>

text \<open>
  The copying loop; \<open>out\<close> is what has been written.  When nothing has been written the
  test of the last character reads in front of the block.
\<close>

fun join_elements :: "char \<Rightarrow> string list \<Rightarrow> string \<Rightarrow> string option" where
  "join_elements sep [] out = Some out"
| "join_elements sep (elm # elms) out = (let out = out @ elm
     in if out = [] then None
        else if last out \<noteq> sep then join_elements sep elms (out @ [sep])
        else join_elements sep elms out)"

text \<open>
  \<open>given\<close> says that the caller provides the buffer, \<open>len_out\<close> what it says its size is.
  The result is the string and the size that is reported.
\<close>

definition vsnstrjoin :: "bool \<Rightarrow> nat option \<Rightarrow> char \<Rightarrow> string option list \<Rightarrow> hmem \<Rightarrow> ((nserror + string \<times> nat) \<times> hmem) option" where
  "vsnstrjoin given len_out sep ap m =
     (if length ap = 0 \<or> 16 < length ap then Some (Inl NSERROR_BAD_PARAMETER, m)
      else if given \<and> len_out = None then Some (Inl NSERROR_BAD_PARAMETER, m)
      else if None \<in> set ap then Some (Inl NSERROR_BAD_PARAMETER, m)
      else let elm = map the ap;
               fname_len = sum_list (map length elm) + length ap
        in if given \<and> the len_out < fname_len then Some (Inl NSERROR_NOSPACE, m)
           else let (ok, m) = (if given then (True, m) else mem_alloc m)
             in if \<not> ok then Some (Inl NSERROR_NOMEM, m)
                else case join_elements sep elm [] of
                  None \<Rightarrow> None
                | Some out \<Rightarrow> if fname_len < length out then None else Some (Inr (butlast out, fname_len), m))"

definition posix_vmkpath :: "bool \<Rightarrow> nat option \<Rightarrow> string option list \<Rightarrow> hmem \<Rightarrow> ((nserror + string \<times> nat) \<times> hmem) option" where
  "posix_vmkpath given len_out ap m = vsnstrjoin given len_out (CHR ''/'') ap m"

definition posix_basename :: "string option \<Rightarrow> hmem \<Rightarrow> (nserror + string \<times> nat) \<times> hmem" where
  "posix_basename pathname m = (case pathname of
     None \<Rightarrow> (Inl NSERROR_BAD_PARAMETER, m)
   | Some pathname \<Rightarrow> let leafname = rev (takeWhile (\<lambda>c. c \<noteq> CHR ''/'') (rev pathname));
                      (ok, m) = mem_alloc m
       in if \<not> ok then (Inl NSERROR_NOMEM, m) else (Inr (leafname, length leafname), m))"

section \<open>Paths and URLs\<close>

definition FILE_SCHEME_PREFIX :: string where
  "FILE_SCHEME_PREFIX = ''file:///''"

text \<open>When the comparison runs out of memory the reference to the scheme is kept.\<close>

definition posix_nsurl_to_path :: "nsurl option \<Rightarrow> bool \<Rightarrow> hmem \<Rightarrow> ((nserror + string) \<times> hmem) option" where
  "posix_nsurl_to_path url path_out m = (case url of
     None \<Rightarrow> Some (Inl NSERROR_BAD_PARAMETER, m)
   | Some url \<Rightarrow>
       if \<not> path_out then Some (Inl NSERROR_BAD_PARAMETER, m)
       else case nsurl_get_component url NSURL_SCHEME m of
         (None, m) \<Rightarrow> None
       | (Some sch, m) \<Rightarrow> let (ok, h) = alloc (hm_oracle m); m = m\<lparr>hm_oracle := h\<rparr>
           in if \<not> ok then Some (Inl NSERROR_BAD_PARAMETER, m)
              else let match = hm_isequal m sch ''file''; m = lwc_string_unref m
                in if \<not> match then Some (Inl NSERROR_BAD_PARAMETER, m)
                   else case nsurl_get_component url NSURL_PATH m of
                     (None, m) \<Rightarrow> Some (Inl NSERROR_BAD_PARAMETER, m)
                   | (Some urlpath, m) \<Rightarrow> (case url_unescape (Some urlpath) (length urlpath) True m of
                       None \<Rightarrow> None
                     | Some (res, m) \<Rightarrow> let m = lwc_string_unref m
                         in case res of Inl e \<Rightarrow> Some (Inl e, m) | Inr (result, _) \<Rightarrow> Some (Inr result, m)))"

text \<open>The last arguments are those of \<^const>\<open>nsurl_create\<close>.\<close>

definition posix_path_to_nsurl ::
  "(string \<Rightarrow> string option) \<Rightarrow> nsurl_components \<Rightarrow> string \<Rightarrow> string option \<Rightarrow> bool \<Rightarrow> hmem \<Rightarrow>
   ((nserror + nsurl) \<times> hmem) option" where
  "posix_path_to_nsurl idna_encode c0 junk pathname url_out m =
     (if pathname = None \<or> \<not> url_out \<or> peek (the pathname) = CHR 0x00 then Some (Inl NSERROR_BAD_PARAMETER, m)
      else case url_escape pathname False (Some ''/'') True m of
        None \<Rightarrow> None
      | Some (Inl e, m) \<Rightarrow> Some (Inl e, m)
      | Some (Inr escpath, m) \<Rightarrow>
          let escpaths = dropWhile (\<lambda>c. c = CHR ''/'') escpath;
              (ok, m) = mem_alloc m
          in if \<not> ok then Some (Inl NSERROR_NOMEM, mem_free m)
             else let m = mem_free m in
               case nsurl_create idna_encode c0 junk (FILE_SCHEME_PREFIX @ escpaths) m of
                 None \<Rightarrow> None
               | Some (ret, m) \<Rightarrow> Some (ret, mem_free m))"

section \<open>From a path to a URL\<close>

text \<open>Characters an escaped path consists of: nothing that ends the path of a URL.\<close>

definition path_safe :: "string \<Rightarrow> bool" where
  "path_safe t \<longleftrightarrow> (\<forall>c \<in> set t. c \<noteq> CHR ''?'' \<and> c \<noteq> CHR ''#'' \<and> \<not> ascii_is_space c)"

lemma path_safe_escape: "path_safe (escape_run False e s)" if "\<And>x. e = Some x \<Longrightarrow> CHR ''?'' \<notin> set x \<and> CHR ''#'' \<notin> set x"
  using that
  by (auto simp: path_safe_def ascii_is_hex_def ascii_is_digit_def ascii_is_af_upper_def ascii_is_af_lower_def
      ascii_is_space_def escape_needed_def url_reserved_def dest!: escape_run_set split: option.splits)

definition file_markers :: "nat \<Rightarrow> url_markers" where
  "file_markers n = \<lparr>mk_start = 0, mk_scheme_end = 4, mk_authority = 7, mk_colon_first = 7, mk_at = 7, mk_colon_last = 7,
     mk_path = 7, mk_query = n, mk_fragment = n, mk_end = n, mk_scheme_type = NSURL_SCHEME_FILE\<rparr>"

lemma trim_back_id: "s \<noteq> [] \<Longrightarrow> \<not> ascii_is_space (last s) \<Longrightarrow> trim_back s (length s) = length s"
  by (cases s rule: rev_cases) simp_all

lemma file_url_markers:
  assumes "path_safe t"
  shows "nsurl_get_string_markers (FILE_SCHEME_PREFIX @ t) False = file_markers (8 + length t)"
proof -
  let ?s = "FILE_SCHEME_PREFIX @ t"
  have start: "skip_while ascii_is_space ?s 0 = 0"
    by (simp add: skip_while_def FILE_SCHEME_PREFIX_def ascii_is_space_def)
  have scheme: "skip_while scheme_char ?s 1 = 4"
    by (simp add: skip_while_def FILE_SCHEME_PREFIX_def scheme_char_def ascii_is_alphanumerical_def ascii_is_alpha_def
        ascii_is_alpha_lower_def ascii_is_alpha_upper_def ascii_is_digit_def)
  have type: "detect_scheme ''file'' = NSURL_SCHEME_FILE" by code_simp
  have at: "char_at ?s 0 = CHR ''f''" "char_at ?s 4 = CHR '':''" "char_at ?s 5 = CHR ''/''" "char_at ?s 6 = CHR ''/''"
    "char_at ?s 7 = CHR ''/''" "take 4 ?s = ''file''" "length ?s = 8 + length t"
    by (simp_all add: char_at_def FILE_SCHEME_PREFIX_def)
  have rest: "skip_while (\<lambda>c. c \<noteq> CHR ''?'' \<and> c \<noteq> CHR ''#'') ?s 8 = 8 + length t"
  proof -
    have "length (takeWhile (\<lambda>c. c \<noteq> CHR ''?'' \<and> c \<noteq> CHR ''#'') t) = length t"
      using assms by (subst takeWhile_eq_all_conv [THEN iffD2]) (auto simp: path_safe_def)
    then show ?thesis by (simp add: skip_while_def FILE_SCHEME_PREFIX_def)
  qed
  have end_at: "char_at ?s (8 + length t) = CHR 0x00" using at(7) by (simp add: char_at_def)
  have trim: "trim_back ?s (8 + length t) = 8 + length t"
  proof -
    have "\<not> ascii_is_space (last ?s)"
      using assms by (cases t rule: rev_cases) (auto simp: path_safe_def FILE_SCHEME_PREFIX_def ascii_is_space_def)
    moreover have "?s \<noteq> []" by (simp add: FILE_SCHEME_PREFIX_def)
    ultimately show ?thesis using trim_back_id [of ?s] unfolding at(7) by blast
  qed
  show ?thesis
    unfolding nsurl_get_string_markers_def start
    using at scheme type rest end_at trim
    by (simp add: mark_scheme_def mark_path_start_def has_authority_def skip_slashes_def mark_authority.simps
        mark_rest_def file_markers_def set_authority_def Let_def ascii_is_alpha_def ascii_is_alpha_lower_def scheme_is_http_def)
qed

section \<open>Creating the URL\<close>

text \<open>The sections of a \<^verbatim>\<open>file:\<close> URL, one after the other.\<close>

definition file_components :: "string \<Rightarrow> nsurl_components \<Rightarrow> nsurl_components" where
  "file_components p c = c\<lparr>scheme := Some ''file'', username := None, password := None, host := None, port := None,
     path := Some p, query := None, fragment := None, scheme_type := NSURL_SCHEME_FILE\<rparr>"

lemma write_buf_fits:
  assumes "length t < length buf"
  obtains b where "write_buf t buf = Some b" "length b = length buf" "sub_buf b 0 (int (length t)) = Some t"
proof -
  obtain b where b: "write_buf t buf = Some b" using assms by (simp add: write_buf_def)
  show ?thesis by (rule that [OF b write_length [OF b] write_sub [OF b]])
qed

lemma write_buf_empty: "4 < length buf \<Longrightarrow> \<exists>b. write_buf [] buf = Some b \<and> length b = length buf"
  by (cases buf) (simp_all add: write_buf_def)

lemma file_sections:
  fixes t :: string
  defines "s \<equiv> FILE_SCHEME_PREFIX @ t" and "pegs \<equiv> file_markers (8 + length t)"
  defines "p \<equiv> normal_form False (CHR ''/'' # t)"
  assumes "mem_plenty m" "4 < length buf" "length p < length buf" "scheme_type c = NSURL_SCHEME_FILE"
  shows "create_sections idna s pegs [URL_SCHEME, URL_CREDENTIALS, URL_HOST, URL_PATH, URL_QUERY, URL_FRAGMENT] False buf c m
    = Some (False, file_components p c, m\<lparr>hm_live := hm_live m + 2\<rparr>)"
proof -
  let ?m = "m\<lparr>hm_live := hm_live m + 1\<rparr>"
  have ranges: "section_range s URL_SCHEME pegs = (0, 4)" "section_range s URL_CREDENTIALS pegs = (7, 7)"
    "section_range s URL_HOST pegs = (7, 7)" "section_range s URL_PATH pegs = (7, 8 + length t)"
    "section_range s URL_QUERY pegs = (8 + length t, 8 + length t)" "section_range s URL_FRAGMENT pegs = (8 + length t, 8 + length t)"
    by (simp_all add: section_range_def pegs_def file_markers_def s_def FILE_SCHEME_PREFIX_def char_at_def)
  have texts: "take 4 s = ''file''" "drop 7 s = CHR ''/'' # t" by (simp_all add: s_def FILE_SCHEME_PREFIX_def)
  obtain b1 where b1: "write_buf ''file'' buf = Some b1" "length b1 = length buf" "sub_buf b1 0 4 = Some ''file''"
    using write_buf_fits [of "''file''" buf] assms(5) by auto
  obtain b2 where b2: "write_buf [] b1 = Some b2" "length b2 = length buf"
    using write_buf_empty [of b1] assms(5) unfolding b1(2) by blast
  obtain b3 where b3: "write_buf [] b2 = Some b3" "length b3 = length buf"
    using write_buf_empty [of b2] assms(5) unfolding b2(2) by blast
  obtain b4 where b4: "write_buf p b3 = Some b4" "length b4 = length buf" "sub_buf b4 0 (int (length p)) = Some p"
    using write_buf_fits [of p b3] b3(2) assms(6) by auto
  obtain b5 where b5: "write_buf [] b4 = Some b5" "length b5 = length buf"
    using write_buf_empty [of b4] assms(5) unfolding b4(2) by blast
  obtain b6 where b6: "write_buf [] b5 = Some b6"
    using write_buf_empty [of b5] assms(5) unfolding b5(2) by blast
  have intern: "intern_into f u k = (NSERROR_OK, f u, k\<lparr>hm_live := hm_live k + 1\<rparr>)" if "mem_plenty k" for f u k
    using that by (simp add: intern_into_def)
  have norms: "normalise True ''file'' [] [] 4 = (''file'', 4)" by code_simp
  have normp: "normalise False (CHR ''/'' # t) [] [] (int (Suc (length t))) = (p, int (length p))"
    using normalise_eq [of False "CHR ''/'' # t" "[]" "[]" "int (Suc (length t))"] by (simp add: p_def)
  have nonempty: "p \<noteq> []" by (simp add: p_def normal_form_nonempty)
  have s1: "nsurl_create_from_section idna s URL_SCHEME pegs buf c m = Some (NSERROR_OK, c\<lparr>scheme := Some ''file''\<rparr>, ?m, b1)"
    using b1 norms intern [OF assms(4)] by (simp add: nsurl_create_from_section_def ranges texts create_scheme_def)
  let ?c = "c\<lparr>scheme := Some ''file''\<rparr>"
  have s2: "nsurl_create_from_section idna s URL_CREDENTIALS pegs b1 ?c ?m
      = Some (NSERROR_OK, ?c\<lparr>username := None, password := None\<rparr>, ?m, b2)"
    using b2 assms(7) by (simp add: nsurl_create_from_section_def ranges create_credentials_def)
  let ?d = "?c\<lparr>username := None, password := None\<rparr>"
  have s3: "nsurl_create_from_section idna s URL_HOST pegs b2 ?d ?m = Some (NSERROR_OK, ?d\<lparr>host := None, port := None\<rparr>, ?m, b3)"
    using b3 assms(7) by (simp add: nsurl_create_from_section_def ranges create_host_def)
  let ?e = "?d\<lparr>host := None, port := None\<rparr>"
  have s4: "nsurl_create_from_section idna s URL_PATH pegs b3 ?e ?m
      = Some (NSERROR_OK, ?e\<lparr>path := Some p\<rparr>, m\<lparr>hm_live := hm_live m + 2\<rparr>, b4)"
    using b4 normp nonempty intern [of ?m] assms(4)
    by (simp add: nsurl_create_from_section_def ranges texts create_path_def)
  let ?f = "?e\<lparr>path := Some p\<rparr>" and ?n = "m\<lparr>hm_live := hm_live m + 2\<rparr>"
  have s5: "nsurl_create_from_section idna s URL_QUERY pegs b4 ?f ?n = Some (NSERROR_OK, ?f\<lparr>query := None\<rparr>, ?n, b5)"
    using b5 by (simp add: nsurl_create_from_section_def ranges create_query_def)
  have s6: "nsurl_create_from_section idna s URL_FRAGMENT pegs b5 (?f\<lparr>query := None\<rparr>) ?n
      = Some (NSERROR_OK, ?f\<lparr>query := None, fragment := None\<rparr>, ?n, b6)"
    using b6 by (simp add: nsurl_create_from_section_def ranges create_fragment_def)
  show ?thesis
    using s1 s2 s3 s4 s5 s6 assms(7) by (simp add: file_components_def)
qed

section \<open>Normalised and escaped\<close>

text \<open>
  What the normalisation of a URL makes of an escaped character: the escapes of characters
  that need none (the tilde) are undone, all others are kept.
\<close>

abbreviation slash_kept :: "string option" where
  "slash_kept \<equiv> Some ''/''"

definition normal_escape :: "char \<Rightarrow> string" where
  "normal_escape c = (if nsurl_is_unreserved c then [c] else escape_char False slash_kept c)"

definition hex_value :: "char \<Rightarrow> bool" where
  "hex_value c \<longleftrightarrow>
     ascii_hex_to_value_2_chars (hex_digits ! nat (drop_bit 4 (byte_of c) AND 0xf)) (hex_digits ! nat (byte_of c AND 0xf)) = byte_of c"

lemma hex_value_all: "hex_value c"
proof -
  have "\<forall>c \<in> set (map (char_of :: nat \<Rightarrow> char) [0..<256]). hex_value c" by code_simp
  moreover have "c \<in> set (map (char_of :: nat \<Rightarrow> char) [0..<256])"
    by (metis char_of_char nat_of_char_less_256 atLeastLessThan_iff imageI set_map set_upt zero_le)
  ultimately show ?thesis by blast
qed

lemma plain_no_escape: "\<not> escape_needed slash_kept c \<Longrightarrow> nsurl_is_no_escape c \<and> c \<noteq> CHR ''%''"
  by (auto simp: escape_needed_def url_reserved_def nsurl_is_no_escape_def)

lemma unreserved_no_percent: "nsurl_is_unreserved c \<Longrightarrow> c \<noteq> CHR ''%''"
  by (auto simp: nsurl_is_unreserved_def ascii_is_alphanumerical_def ascii_is_alpha_def ascii_is_alpha_lower_def
      ascii_is_alpha_upper_def ascii_is_digit_def)

lemma normal_form_pair:
  "ascii_hex_to_value_2_chars h1 h2 = byte_of c \<Longrightarrow> normal_form False (CHR ''%'' # h1 # h2 # t)
    = (if nsurl_is_unreserved c then [c] else [CHR ''%'', h1, h2]) @ normal_form False t"
proof -
  have "0 \<le> byte_of c" by (metis of_nat_of_char of_nat_0_le_iff)
  moreover assume "ascii_hex_to_value_2_chars h1 h2 = byte_of c"
  ultimately show ?thesis by (subst normal_form.simps(2)) (simp add: Let_def numeral_2_eq_2)
qed

lemma normal_form_escape_char:
  "normal_form False (escape_char False slash_kept c @ t) = normal_escape c @ normal_form False t"
proof (cases "escape_needed slash_kept c")
  case True
  then show ?thesis
    using normal_form_pair [OF hex_value_all [of c, unfolded hex_value_def], of t]
    by (simp only: escape_char_def normal_escape_def append_Cons append_Nil if_True if_False simp_thms split: if_split)
next
  case False
  then show ?thesis using plain_no_escape [OF False] by (simp add: escape_char_def normal_escape_def)
qed

lemma unescape_normal_escape: "unescape_run (normal_escape c @ t) = c # unescape_run t"
proof -
  have "plus_for_space False c = c" by (simp add: plus_for_space_def)
  then show ?thesis
    using unreserved_no_percent [of c] unescape_escape_char [of slash_kept False c t] unescape_plain [of c t]
    by (auto simp: normal_escape_def percent_escaped_def)
qed

lemma unescape_normal_form: "unescape_run (normal_form False (escape_run False slash_kept s)) = s"
  by (induction s) (simp_all add: normal_form_escape_char unescape_normal_escape)

lemma escape_slash: "escape_char False slash_kept (CHR ''/'') = ''/''"
  by code_simp

lemma escape_no_slash: "c \<noteq> CHR ''/'' \<Longrightarrow> \<exists>d t. escape_char False slash_kept c = d # t \<and> d \<noteq> CHR ''/''"
  by (simp add: escape_char_def)

lemma strip_escape: "dropWhile (\<lambda>c. c = CHR ''/'') (escape_run False slash_kept s)
    = escape_run False slash_kept (dropWhile (\<lambda>c. c = CHR ''/'') s)"
proof (induction s)
  case (Cons c s)
  then show ?case using escape_no_slash [of c] by (cases "c = CHR ''/''") (auto simp: escape_slash)
qed simp

lemma escape_rooted: "CHR ''/'' # escape_run False slash_kept s = escape_run False slash_kept (CHR ''/'' # s)"
  by (simp add: escape_slash)

lemma normal_escape_length: "length (normal_form False (escape_run False slash_kept s)) \<le> 3 * length s"
proof (induction s)
  case (Cons c s)
  have "length (normal_escape c) \<le> 3" by (simp add: normal_escape_def escape_char_def)
  with Cons show ?case by (simp add: normal_form_escape_char)
qed simp

section \<open>There and back\<close>

text \<open>The path with its leading slashes reduced to one.\<close>

definition rooted_path :: "string \<Rightarrow> string" where
  "rooted_path s = CHR ''/'' # dropWhile (\<lambda>c. c = CHR ''/'') s"

definition path_text :: "string \<Rightarrow> string" where
  "path_text s = normal_form False (escape_run False slash_kept (rooted_path s))"

lemma path_text_props:
  "length (path_text s) \<le> 3 * (length s + 1)" "unescape_run (path_text s) = rooted_path s" "path_text s \<noteq> []"
proof -
  have "length (dropWhile (\<lambda>c. c = CHR ''/'') s) \<le> length s" by (rule length_dropWhile_le)
  then show "length (path_text s) \<le> 3 * (length s + 1)"
    using normal_escape_length [of "rooted_path s"] by (simp add: path_text_def rooted_path_def)
  show "unescape_run (path_text s) = rooted_path s" by (simp add: path_text_def unescape_normal_form)
  then show "path_text s \<noteq> []" by (auto simp: rooted_path_def)
qed

lemma posix_path_to_nsurl_plenty:
  assumes "mem_plenty m" "CHR 0x00 \<notin> set s" "s \<noteq> []" "3 * length s + 1 < 2 ^ 32" "9 * length s + 13 \<le> length junk"
  obtains url where "posix_path_to_nsurl idna c0 junk (Some s) True m = Some (Inr url, m\<lparr>hm_live := hm_live m + 3\<rparr>)"
    "components url = file_components (path_text s) c0"
proof -
  let ?d = "dropWhile (\<lambda>c. c = CHR ''/'') s"
  let ?t = "escape_run False slash_kept ?d" and ?c = "c0\<lparr>scheme_type := NSURL_SCHEME_FILE\<rparr>"
  let ?live = "\<lambda>k. m\<lparr>hm_live := hm_live m + k\<rparr>"
  have esc: "url_escape (Some s) False slash_kept True m = Some (Inr (escape_run False slash_kept s), ?live 1)"
    by (rule url_escape_plenty [OF assms(1,2,4)])
  have safe: "path_safe ?t" by (rule path_safe_escape) auto
  have marks: "nsurl_get_string_markers (FILE_SCHEME_PREFIX @ ?t) False = file_markers (8 + length ?t)"
    by (rule file_url_markers [OF safe])
  define len where "len = nsurl_get_longest_section (file_markers (8 + length ?t))"
  have len: "len = (if length ?t < 3 then 4 else length ?t + 1)"
    by (simp add: len_def nsurl_get_longest_section_def file_markers_def)
  have len4: "4 \<le> len" by (simp only: len split: if_split) linarith
  have "length ?d \<le> length s" by (rule length_dropWhile_le)
  then have t: "length ?t \<le> 3 * length s" using escape_run_length [of False slash_kept ?d] by simp
  then have buf: "length (take (len * 3 + 1) junk) = len * 3 + 1" using len assms(5) by simp
  have p: "path_text s = normal_form False (CHR ''/'' # ?t)" by (simp add: path_text_def rooted_path_def escape_rooted)
  have "length (path_text s) \<le> 3 * (length ?t + 1)"
    using normal_form_length [of False "CHR ''/'' # ?t"] unfolding p by simp
  then have fits: "length (path_text s) < length (take (len * 3 + 1) junk)" using buf len by (simp split: if_splits)
  have sections: "create_sections idna (FILE_SCHEME_PREFIX @ ?t) (file_markers (8 + length ?t))
      [URL_SCHEME, URL_CREDENTIALS, URL_HOST, URL_PATH, URL_QUERY, URL_FRAGMENT] False (take (len * 3 + 1) junk) ?c (?live 2)
    = Some (False, file_components (path_text s) ?c, ?live 4)"
  proof -
    have "mem_plenty (?live 2)" "4 < length (take (len * 3 + 1) junk)" "scheme_type ?c = NSURL_SCHEME_FILE"
      "length (normal_form False (CHR ''/'' # ?t)) < length (take (len * 3 + 1) junk)"
      using assms(1) fits len4 unfolding p buf by (simp_all del: normal_form.simps)
    from file_sections [OF this(1,2,4,3), of idna] show ?thesis unfolding p by (simp del: create_sections.simps)
  qed
  let ?f = "file_components (path_text s) c0"
  have same: "file_components (path_text s) ?c = ?f" by (simp add: file_components_def)
  have sch: "scheme ?f = Some ''file''" by (simp add: file_components_def)
  let ?url = "nsurl_object ?f (length (url_text ?f)) (url_text ?f) (?live 4)"
  have create: "nsurl_create idna c0 junk (FILE_SCHEME_PREFIX @ ?t) (?live 1) = Some (Inr ?url, ?live 4)"
    using sections assms(1) sch components_to_string_all [of ?f "?live 3"]
    by (simp add: nsurl_create_def marks len_def [symmetric] file_markers_def [THEN arg_cong [where f = mk_scheme_type]]
        same mem_free_def add.commute [of "hm_live m"] del: create_sections.simps)
  have "peek s \<noteq> CHR 0x00" using assms(2,3) by (cases s) auto
  then have "posix_path_to_nsurl idna c0 junk (Some s) True m = Some (Inr ?url, ?live 3)"
    using esc create assms(1) by (simp add: posix_path_to_nsurl_def strip_escape mem_free_def add.commute [of "hm_live m"])
  then show ?thesis by (rule that) simp
qed

text \<open>
  C30. A path turned into a URL and back is the path again, with its leading slashes
  reduced to one, for every path that is not empty, whatever bytes it holds; the URL is a
  well-formed \<^verbatim>\<open>file:\<close> URL without host, query and fragment.  The normalisation of the URL, which
  undoes some of the escapes, does not get in the way.  Nothing is leaked: the URL holds
  three blocks, the path one.
\<close>

theorem posix_path_roundtrip:
  assumes "mem_plenty m" "isequal_documented m" "CHR 0x00 \<notin> set s" "s \<noteq> []"
    "3 * length s + 4 < 2 ^ 32" "9 * length s + 13 \<le> length junk"
  shows "\<exists>url m' m''. posix_path_to_nsurl idna_encode c0 junk (Some s) True m = Some (Inr url, m')
    \<and> posix_nsurl_to_path (Some url) True m' = Some (Inr (rooted_path s), m'')
    \<and> scheme (components url) = Some ''file'' \<and> host (components url) = None
    \<and> query (components url) = None \<and> fragment (components url) = None
    \<and> hm_live m' = hm_live m + 3 \<and> hm_live m'' = hm_live m' + 1"
proof -
  let ?m = "m\<lparr>hm_live := hm_live m + 3\<rparr>"
  obtain url where url: "posix_path_to_nsurl idna_encode c0 junk (Some s) True m = Some (Inr url, ?m)"
    "components url = file_components (path_text s) c0"
    using posix_path_to_nsurl_plenty [OF assms(1,3,4) _ assms(6)] assms(5) by auto
  let ?k = "?m\<lparr>hm_live := hm_live ?m + 1\<rparr>"
  have fits: "length (path_text s) + 1 < 2 ^ 32" using path_text_props(1) [of s] assms(5) by simp
  have "url_unescape (Some (path_text s)) (length (path_text s)) True ?k
      = Some (Inr (rooted_path s, length (rooted_path s)), ?k\<lparr>hm_live := hm_live ?k + 1\<rparr>)"
    using url_unescape_plenty [of ?k, OF _ fits] assms(1) unfolding path_text_props(2) by simp
  moreover have "alloc (hm_oracle m) = (True, hm_oracle m)" using assms(1) by (simp add: mem_plenty_def)
  ultimately have "posix_nsurl_to_path (Some url) True ?m = Some (Inr (rooted_path s), ?m\<lparr>hm_live := hm_live ?m + 1\<rparr>)"
    using assms(2)
    by (simp add: posix_nsurl_to_path_def nsurl_get_component_def component_of_def url(2) file_components_def Let_def
        lwc_string_ref_def lwc_string_unref_def mem_free_def)
  with url show ?thesis by (simp add: file_components_def)
qed

theorem posix_path_roundtrip_witness:
  "\<exists>url m' m''. posix_path_to_nsurl (\<lambda>_. None) sample_components (replicate 100 (CHR ''X'')) (Some ''/a~b/c d'') True (hmem_at 0)
      = Some (Inr url, m')
    \<and> posix_nsurl_to_path (Some url) True m' = Some (Inr ''/a~b/c d'', m'') \<and> hm_live m'' = 4"
  using posix_path_roundtrip [of "hmem_at 0" "''/a~b/c d''" "replicate 100 (CHR ''X'')" "\<lambda>_. None" sample_components]
  by (fastforce simp: rooted_path_def)

section \<open>The last element\<close>

text \<open>
  The name of the file is what \<open>posix_basename\<close> finds at the end of a path that was put
  together by \<open>posix_vmkpath\<close>, slashes at the end of the directory or not.
\<close>

lemma mkpath_basename:
  assumes "mem_plenty m" "dir \<noteq> []" "leaf \<noteq> []" "CHR ''/'' \<notin> set leaf"
  shows "\<exists>p n m' m''. posix_vmkpath False None [Some dir, Some leaf] m = Some (Inr (p, n), m')
    \<and> posix_basename (Some p) m' = (Inr (leaf, length leaf), m'') \<and> length p < n"
proof -
  define p where "p = dir @ (if last dir = CHR ''/'' then [] else ''/'') @ leaf"
  have "last leaf \<noteq> CHR ''/''" using assms(3,4) last_in_set by metis
  then have "join_elements (CHR ''/'') [dir, leaf] [] = Some (p @ ''/'')"
    using assms(2,3) by (auto simp: p_def)
  moreover have "length (p @ ''/'') \<le> length dir + length leaf + 2" by (simp add: p_def)
  ultimately have "posix_vmkpath False None [Some dir, Some leaf] m
      = Some (Inr (p, length dir + length leaf + 2), m\<lparr>hm_live := hm_live m + 1\<rparr>)"
    using assms(1) by (simp add: posix_vmkpath_def vsnstrjoin_def del: join_elements.simps)
  moreover have "\<exists>q. rev p = rev leaf @ CHR ''/'' # q"
  proof (cases "last dir = CHR ''/''")
    case True
    then have "dir = butlast dir @ ''/''" using assms(2) append_butlast_last_id by metis
    then have "rev p = rev leaf @ CHR ''/'' # rev (butlast dir)" using True by (simp add: p_def)
    then show ?thesis by blast
  next
    case False
    then show ?thesis by (simp add: p_def)
  qed
  then obtain q where q: "rev p = rev leaf @ CHR ''/'' # q" by blast
  have "takeWhile (\<lambda>c. c \<noteq> CHR ''/'') (rev p) = rev leaf"
    unfolding q using assms(4) by (subst takeWhile_append2) auto
  then have "posix_basename (Some p) (m\<lparr>hm_live := hm_live m + 1\<rparr>) = (Inr (leaf, length leaf), m\<lparr>hm_live := hm_live m + 2\<rparr>)"
    using assms(1) by (simp add: posix_basename_def)
  ultimately show ?thesis by (fastforce simp: p_def)
qed

section \<open>Making the directories of a file\<close>

text \<open>
  The file system is the operating system's: \<open>fs_stat\<close> is \<^const>\<open>None\<close> where \<^verbatim>\<open>stat\<close> fails and
  otherwise says whether the path is a directory, \<open>fs_mkdir\<close> says whether it succeeded.
\<close>

record 'fs file_system =
  fs_stat :: "string \<Rightarrow> 'fs \<Rightarrow> bool option"
  fs_mkdir :: "string \<Rightarrow> 'fs \<Rightarrow> bool \<times> 'fs"

lemma skip_slash: "pos < length s \<Longrightarrow> s ! pos = CHR ''/'' \<Longrightarrow> pos < skip_while (\<lambda>c. c = CHR ''/'') s pos"
  by (simp add: skip_while_def Cons_nth_drop_Suc [symmetric])

lemma mkdir_progress:
  assumes "\<not> length s \<le> skip_while (\<lambda>c. c \<noteq> CHR ''/'') s pos"
  defines "j \<equiv> skip_while (\<lambda>c. c \<noteq> CHR ''/'') s pos"
  shows "pos \<le> j" "j < length s" "s ! j = CHR ''/''" "j < skip_while (\<lambda>c. c = CHR ''/'') s j"
    "skip_while (\<lambda>c. c = CHR ''/'') s j \<le> length s"
proof -
  show j: "j < length s" using assms by simp
  show "pos \<le> j" by (simp add: j_def skip_while_def)
  show at: "s ! j = CHR ''/''" using skip_while_stop [of "\<lambda>c. c \<noteq> CHR ''/''" s pos] j by (simp add: j_def)
  show "j < skip_while (\<lambda>c. c = CHR ''/'') s j" using skip_slash [OF j at] .
  show "skip_while (\<lambda>c. c = CHR ''/'') s j \<le> length s" using skip_while_le [of j s] j by simp
qed

text \<open>The walk over the separators; \<open>sep\<close> is where the search for the next one starts.\<close>

function mkdir_elements :: "'fs file_system \<Rightarrow> string \<Rightarrow> nat \<Rightarrow> 'fs \<Rightarrow> nserror \<times> 'fs" where
  "mkdir_elements ops dname sep fs = (let sep = skip_while (\<lambda>c. c \<noteq> CHR ''/'') dname sep
     in if length dname \<le> sep then (NSERROR_OK, fs)
        else let next = skip_while (\<lambda>c. c = CHR ''/'') dname sep
          in case fs_stat ops (take sep dname) fs of
            None \<Rightarrow> (let (ok, fs) = fs_mkdir ops (take sep dname) fs
              in if ok then mkdir_elements ops dname next fs else (NSERROR_NOT_FOUND, fs))
          | Some dir \<Rightarrow> if dir then mkdir_elements ops dname next fs else (NSERROR_NOT_DIRECTORY, fs))"
  by pat_completeness auto

termination
  by (relation "measure (\<lambda>(ops, dname, sep, fs). length dname - sep)") (use mkdir_progress in \<open>fastforce+\<close>)

declare mkdir_elements.simps [simp del]

text \<open>The copy of the name is not checked; \<^const>\<open>None\<close> is the search in a NULL pointer.\<close>

definition posix_mkdir_all :: "'fs file_system \<Rightarrow> string \<Rightarrow> hmem \<Rightarrow> 'fs \<Rightarrow> (nserror \<times> hmem \<times> 'fs) option" where
  "posix_mkdir_all ops fname m fs = (let (ok, m) = mem_alloc m
     in if \<not> ok then None
        else if CHR ''/'' \<notin> set fname then Some (NSERROR_OK, mem_free m, fs)
        else let sep = length fname - Suc (length (takeWhile (\<lambda>c. c \<noteq> CHR ''/'') (rev fname)))
          in case fs_stat ops (take sep fname) fs of
            Some dir \<Rightarrow> Some (if dir then NSERROR_OK else NSERROR_NOT_DIRECTORY, mem_free m, fs)
          | None \<Rightarrow> let (e, fs) = mkdir_elements ops fname (skip_while (\<lambda>c. c = CHR ''/'') fname 0) fs
              in Some (e, mem_free m, fs))"

text \<open>
  What POSIX documents of the two services: a directory that was made is there, making one
  takes none away, and what precedes a slash in the path of a directory is one.
\<close>

definition file_system_laws :: "'fs file_system \<Rightarrow> bool" where
  "file_system_laws ops \<longleftrightarrow>
     (\<forall>p fs fs'. fs_mkdir ops p fs = (True, fs') \<longrightarrow> fs_stat ops p fs' = Some True)
     \<and> (\<forall>p q b fs fs'. fs_mkdir ops p fs = (b, fs') \<and> fs_stat ops q fs = Some True \<longrightarrow> fs_stat ops q fs' = Some True)
     \<and> (\<forall>p q fs. p \<noteq> [] \<and> fs_stat ops (p @ CHR ''/'' # q) fs = Some True \<longrightarrow> fs_stat ops p fs = Some True)"

lemma law_made: "file_system_laws ops \<Longrightarrow> fs_mkdir ops p fs = (True, fs') \<Longrightarrow> fs_stat ops p fs' = Some True"
  by (simp add: file_system_laws_def)

lemma law_kept:
  "file_system_laws ops \<Longrightarrow> fs_mkdir ops p fs = (b, fs') \<Longrightarrow> fs_stat ops q fs = Some True \<Longrightarrow> fs_stat ops q fs' = Some True"
  unfolding file_system_laws_def by blast

lemma law_prefix:
  "file_system_laws ops \<Longrightarrow> p \<noteq> [] \<Longrightarrow> fs_stat ops (p @ CHR ''/'' # q) fs = Some True \<Longrightarrow> fs_stat ops p fs = Some True"
  unfolding file_system_laws_def by blast

text \<open>The position of a separator that ends an element.\<close>

definition ends_element :: "string \<Rightarrow> nat \<Rightarrow> bool" where
  "ends_element s j \<longleftrightarrow> 0 < j \<and> j < length s \<and> s ! j = CHR ''/'' \<and> s ! (j - 1) \<noteq> CHR ''/''"

lemma mkdir_elements_keep:
  "file_system_laws ops \<Longrightarrow> fs_stat ops q fs = Some True \<Longrightarrow> mkdir_elements ops s pos fs = (e, fs')
    \<Longrightarrow> fs_stat ops q fs' = Some True"
proof (induction ops s pos fs rule: mkdir_elements.induct)
  case (1 ops s pos fs)
  have keep: "fs_stat ops q fs'' = Some True" if "fs_mkdir ops p fs = (b, fs'')" for p b fs''
    by (rule law_kept [OF 1(3) that 1(4)])
  show ?case
    using 1(5) keep 1(1) [OF refl _ refl _ refl] 1(2) [OF refl _ refl] 1(3,4)
    by (subst (asm) mkdir_elements.simps) (fastforce simp: Let_def split: if_splits option.splits prod.splits)
qed

lemma mkdir_elements_made:
  "file_system_laws ops \<Longrightarrow> mkdir_elements ops s pos fs = (NSERROR_OK, fs') \<Longrightarrow> ends_element s j \<Longrightarrow> pos \<le> j
    \<Longrightarrow> fs_stat ops (take j s) fs' = Some True"
proof (induction ops s pos fs rule: mkdir_elements.induct)
  case (1 ops s pos fs)
  define k where "k = skip_while (\<lambda>c. c \<noteq> CHR ''/'') s pos"
  define n where "n = skip_while (\<lambda>c. c = CHR ''/'') s k"
  have before: "s ! i \<noteq> CHR ''/''" if "pos \<le> i" "i < k" for i
    using skip_while_in [of pos i "\<lambda>c. c \<noteq> CHR ''/''" s] that by (simp add: k_def)
  have j: "k \<le> j" using before [of j] 1(5,6) by (fastforce simp: ends_element_def)
  then have more: "\<not> length s \<le> k" using 1(5) by (simp add: ends_element_def)
  have at_j: "j = k \<or> n \<le> j"
  proof (rule ccontr)
    assume "\<not> (j = k \<or> n \<le> j)"
    then have "k \<le> j - 1" "j - 1 < n" using j by linarith+
    then have "s ! (j - 1) = CHR ''/''"
      using skip_while_in [of k "j - 1" "\<lambda>c. c = CHR ''/''" s] by (simp add: n_def)
    then show False using 1(5) by (simp add: ends_element_def)
  qed
  obtain fs1 where fs1: "fs_stat ops (take k s) fs1 = Some True" "mkdir_elements ops s n fs1 = (NSERROR_OK, fs')"
      "(fs_stat ops (take k s) fs = None \<and> fs_mkdir ops (take k s) fs = (True, fs1)) \<or> (fs_stat ops (take k s) fs = Some True \<and> fs1 = fs)"
  proof (cases "fs_stat ops (take k s) fs")
    case None
    obtain ok fs1 where mk: "fs_mkdir ops (take k s) fs = (ok, fs1)" by force
    have run: "mkdir_elements ops s pos fs = (if ok then mkdir_elements ops s n fs1 else (NSERROR_NOT_FOUND, fs1))"
      unfolding mkdir_elements.simps [of ops s pos fs] Let_def k_def [symmetric] n_def [symmetric] using more None mk by simp
    then have ok: ok using 1(4) by (simp split: if_splits)
    then have "fs_stat ops (take k s) fs1 = Some True" using law_made [OF 1(3)] mk by simp
    then show ?thesis using that [of fs1] run 1(4) None mk ok by simp
  next
    case (Some dir)
    then have run: "mkdir_elements ops s pos fs = (if dir then mkdir_elements ops s n fs else (NSERROR_NOT_DIRECTORY, fs))"
      unfolding mkdir_elements.simps [of ops s pos fs] Let_def k_def [symmetric] n_def [symmetric] using more by simp
    then have dir using 1(4) by (simp split: if_splits)
    with Some run show ?thesis using that [of fs] 1(4) by simp
  qed
  show ?case
  proof (cases "j = k")
    case True
    then show ?thesis using mkdir_elements_keep [OF 1(3) fs1(1,2)] by simp
  next
    case False
    then have "n \<le> j" using at_j by simp
    from fs1(3) show ?thesis
    proof
      assume "fs_stat ops (take k s) fs = None \<and> fs_mkdir ops (take k s) fs = (True, fs1)"
      then show ?thesis
        using 1(1) [OF k_def more n_def _ refl, of True fs1] 1(3,5) fs1(2) \<open>n \<le> j\<close> by simp
    next
      assume "fs_stat ops (take k s) fs = Some True \<and> fs1 = fs"
      then show ?thesis using 1(2) [OF k_def more n_def] 1(3,5) fs1(2) \<open>n \<le> j\<close> by simp
    qed
  qed
qed

text \<open>
  When \<open>posix_mkdir_all\<close> reports success, every element of the path that ends in front of a
  slash is a directory, whatever was there before.
\<close>

lemma mkdir_all_parents:
  assumes "file_system_laws ops" "posix_mkdir_all ops fname m fs = Some (NSERROR_OK, m', fs')" "ends_element fname j"
  shows "fs_stat ops (take j fname) fs' = Some True"
proof -
  define sep where "sep = length fname - Suc (length (takeWhile (\<lambda>c. c \<noteq> CHR ''/'') (rev fname)))"
  have slash: "CHR ''/'' \<in> set fname" using assms(3) nth_mem [of j fname] by (auto simp: ends_element_def)
  obtain m1 where m1: "mem_alloc m = (True, m1)" using assms(2) by (cases "mem_alloc m") (auto simp: posix_mkdir_all_def split: if_splits)
  show ?thesis
  proof (cases "fs_stat ops (take sep fname) fs")
    case None
    then have "mkdir_elements ops fname (skip_while (\<lambda>c. c = CHR ''/'') fname 0) fs = (NSERROR_OK, fs')"
      using assms(2) m1 slash by (auto simp: posix_mkdir_all_def sep_def [symmetric] split: prod.splits)
    moreover have "skip_while (\<lambda>c. c = CHR ''/'') fname 0 \<le> j"
    proof (rule ccontr)
      assume "\<not> skip_while (\<lambda>c. c = CHR ''/'') fname 0 \<le> j"
      then have "fname ! (j - 1) = CHR ''/''"
        using skip_while_in [of 0 "j - 1" "\<lambda>c. c = CHR ''/''" fname] by simp
      then show False using assms(3) by (simp add: ends_element_def)
    qed
    ultimately show ?thesis using mkdir_elements_made [OF assms(1) _ assms(3)] by blast
  next
    case (Some dir)
    then have dir: "fs_stat ops (take sep fname) fs' = Some True"
      using assms(2) m1 slash by (auto simp: posix_mkdir_all_def sep_def [symmetric] split: if_splits)
    have "j \<le> sep"
    proof (rule ccontr)
      assume "\<not> j \<le> sep"
      then have "length fname - Suc j < length (takeWhile (\<lambda>c. c \<noteq> CHR ''/'') (rev fname))"
        using assms(3) unfolding sep_def ends_element_def by linarith
      then have "rev fname ! (length fname - Suc j) \<noteq> CHR ''/''"
        by (metis (mono_tags, lifting) nth_mem set_takeWhileD takeWhile_nth)
      moreover have "length fname - Suc (length fname - Suc j) = j" using assms(3) unfolding ends_element_def by linarith
      then have "rev fname ! (length fname - Suc j) = fname ! j"
        using rev_nth [of "length fname - Suc j" fname] assms(3) by (auto simp: ends_element_def)
      ultimately show False using assms(3) unfolding ends_element_def by metis
    qed
    show ?thesis
    proof (cases "j = sep")
      case False
      then obtain d where d: "sep = Suc (j + d)" using \<open>j \<le> sep\<close> less_iff_Suc_add [of j sep] by auto
      have j: "j < length fname" "fname ! j = CHR ''/''" using assms(3) by (simp_all add: ends_element_def)
      have "take sep (take j fname @ CHR ''/'' # drop (Suc j) fname) = take j fname @ CHR ''/'' # take d (drop (Suc j) fname)"
        using j(1) by (simp add: d)
      then have "take sep fname = take j fname @ CHR ''/'' # take d (drop (Suc j) fname)"
        using arg_cong [OF id_take_nth_drop [OF j(1)], of "take sep"] unfolding j(2) by (rule trans [rotated])
      moreover have "take j fname \<noteq> []" using assms(3) by (auto simp: ends_element_def)
      ultimately show ?thesis using dir law_prefix [OF assms(1)] by simp
    qed (use dir in simp)
  qed
qed

end
