(* ===== verification/Fb_Schedule.thy ===== *)
theory Fb_Schedule
  imports NS_Prelude
begin

text \<open>
  The scheduler of the framebuffer frontend (\<^verbatim>\<open>frontends/framebuffer/schedule.c\<close>, and
  the time arithmetic of \<^verbatim>\<open>utils/sys_time.h\<close>): a list of timed callbacks, which the main
  loop runs between events.  A callback is a function and its context; what it does is a
  parameter of the model, and it may schedule and unschedule callbacks, its own included.
\<close>

section \<open>Time\<close>

record timeval =
  tv_sec :: int
  tv_usec :: int

definition timeradd :: "timeval \<Rightarrow> timeval \<Rightarrow> timeval" where
  "timeradd a aa = (let sec = tv_sec a + tv_sec aa; usec = tv_usec a + tv_usec aa in
     if usec \<ge> 1000000 then \<lparr>tv_sec = sec + 1, tv_usec = usec - 1000000\<rparr> else \<lparr>tv_sec = sec, tv_usec = usec\<rparr>)"

definition timersub :: "timeval \<Rightarrow> timeval \<Rightarrow> timeval" where
  "timersub a aa = (let sec = tv_sec a - tv_sec aa; usec = tv_usec a - tv_usec aa in
     if usec < 0 then \<lparr>tv_sec = sec - 1, tv_usec = usec + 1000000\<rparr> else \<lparr>tv_sec = sec, tv_usec = usec\<rparr>)"

text \<open>\<^verbatim>\<open>timercmp(a, aa, >)\<close>\<close>

definition timer_later :: "timeval \<Rightarrow> timeval \<Rightarrow> bool" where
  "timer_later a aa \<longleftrightarrow> tv_sec a > tv_sec aa \<or> tv_sec a = tv_sec aa \<and> tv_usec a > tv_usec aa"

section \<open>The list of callbacks\<close>

record ('f, 'p) nscallback =
  cb_tv :: timeval
  cb_callback :: 'f
  cb_p :: 'p

text \<open>
  The state: the list, the allocator, how often the clock was read, what the callbacks
  work on, and, for the statements below, the callbacks run so far.
\<close>

record ('f, 'p, 'w) scheduler =
  schedule_list :: "('f, 'p) nscallback list"
  sch_heap :: heap
  clock_reads :: nat
  world :: 'w
  ran :: "('f \<times> 'p) list"

fun schedule_remove :: "'f \<Rightarrow> 'p \<Rightarrow> ('f, 'p) nscallback list \<Rightarrow> ('f, 'p) nscallback list" where
  "schedule_remove callback p [] = []"
| "schedule_remove callback p (cur # rest) =
     (if cb_callback cur = callback \<and> cb_p cur = p then schedule_remove callback p rest
      else cur # schedule_remove callback p rest)"

text \<open>
  \<open>gettimeofday\<close> is the sequence of the times it returns.  The result of \<^verbatim>\<open>calloc\<close> is not
  tested: \<^const>\<open>None\<close> is the dereference of a NULL pointer.
\<close>

definition framebuffer_schedule ::
  "(nat \<Rightarrow> timeval) \<Rightarrow> int \<Rightarrow> 'f \<Rightarrow> 'p \<Rightarrow> ('f, 'p, 'w) scheduler \<Rightarrow> ('f, 'p, 'w) scheduler option" where
  "framebuffer_schedule gettimeofday tival callback p st = (let
     st = st\<lparr>schedule_list := schedule_remove callback p (schedule_list st)\<rparr>
   in if tival < 0 then Some st
      else let
        tv = \<lparr>tv_sec = tival div 1000, tv_usec = (tival mod 1000) * 1000\<rparr>;
        (ok, h) = alloc (sch_heap st)
      in if \<not> ok then None
         else let nscb = \<lparr>cb_tv = timeradd (gettimeofday (clock_reads st)) tv, cb_callback = callback, cb_p = p\<rparr>
           in Some (st\<lparr>schedule_list := nscb # schedule_list st, sch_heap := h, clock_reads := clock_reads st + 1\<rparr>))"

text \<open>
  The callback bodies: on the world, a body yields the calls of \<^verbatim>\<open>framebuffer_schedule\<close>
  that it makes, in order.
\<close>

type_synonym ('f, 'p, 'w) bodies = "'f \<Rightarrow> 'p \<Rightarrow> 'w \<Rightarrow> (int \<times> 'f \<times> 'p) list \<times> 'w"

fun schedule_calls ::
  "(nat \<Rightarrow> timeval) \<Rightarrow> (int \<times> 'f \<times> 'p) list \<Rightarrow> ('f, 'p, 'w) scheduler \<Rightarrow> ('f, 'p, 'w) scheduler option" where
  "schedule_calls gettimeofday [] st = Some st"
| "schedule_calls gettimeofday ((tival, f, p) # calls) st =
     (case framebuffer_schedule gettimeofday tival f p st of
        None \<Rightarrow> None | Some st \<Rightarrow> schedule_calls gettimeofday calls st)"

definition run_callback ::
  "(nat \<Rightarrow> timeval) \<Rightarrow> ('f, 'p, 'w) bodies \<Rightarrow> ('f, 'p) nscallback \<Rightarrow> ('f, 'p, 'w) scheduler \<Rightarrow> ('f, 'p, 'w) scheduler option" where
  "run_callback gettimeofday body cb st = (let
     (calls, w) = body (cb_callback cb) (cb_p cb) (world st)
   in schedule_calls gettimeofday calls (st\<lparr>world := w, ran := ran st @ [(cb_callback cb, cb_p cb)]\<rparr>))"

text \<open>
  The loop: \<open>passed\<close> are the entries gone by, the last one first.  It need not end, so
  the outer \<^const>\<open>None\<close> is not returning; the inner one is the dereference of NULL.
\<close>

definition milliseconds :: "timeval \<Rightarrow> int" where
  "milliseconds tv = tv_sec tv * 1000 + tv_usec tv div 1000"

partial_function (option) schedule_loop ::
  "(nat \<Rightarrow> timeval) \<Rightarrow> ('f, 'p, 'w) bodies \<Rightarrow> timeval \<Rightarrow> ('f, 'p) nscallback list \<Rightarrow> ('f, 'p) nscallback list \<Rightarrow> timeval \<Rightarrow>
   ('f, 'p, 'w) scheduler \<Rightarrow> (int \<times> ('f, 'p, 'w) scheduler) option option" where
  "schedule_loop gettimeofday body tv passed list nexttime st = (case list of
     [] \<Rightarrow> Some (Some (milliseconds (timersub nexttime tv), st))
   | cur # rest \<Rightarrow>
       if timer_later tv (cb_tv cur) then
         (case run_callback gettimeofday body cur (st\<lparr>schedule_list := rev passed @ rest\<rparr>) of
            None \<Rightarrow> Some None
          | Some st \<Rightarrow>
              if schedule_list st = [] then Some (Some (- 1, st))
              else schedule_loop gettimeofday body tv [] (schedule_list st) (cb_tv (hd (schedule_list st))) st)
       else schedule_loop gettimeofday body tv (cur # passed) rest
         (if timer_later nexttime (cb_tv cur) then cb_tv cur else nexttime) st)"

definition schedule_run ::
  "(nat \<Rightarrow> timeval) \<Rightarrow> ('f, 'p, 'w) bodies \<Rightarrow> ('f, 'p, 'w) scheduler \<Rightarrow> (int \<times> ('f, 'p, 'w) scheduler) option option" where
  "schedule_run gettimeofday body st =
     (if schedule_list st = [] then Some (Some (- 1, st))
      else let tv = gettimeofday (clock_reads st); st = st\<lparr>clock_reads := clock_reads st + 1\<rparr>
        in schedule_loop gettimeofday body tv [] (schedule_list st) (cb_tv (hd (schedule_list st))) st)"

section \<open>Times in order\<close>

definition micros :: "timeval \<Rightarrow> int" where
  "micros tv = tv_sec tv * 1000000 + tv_usec tv"

definition valid_time :: "timeval \<Rightarrow> bool" where
  "valid_time tv \<longleftrightarrow> 0 \<le> tv_usec tv \<and> tv_usec tv < 1000000"

lemma timer_later_micros: "valid_time a \<Longrightarrow> valid_time b \<Longrightarrow> timer_later a b \<longleftrightarrow> micros b < micros a"
  by (auto simp: timer_later_def micros_def valid_time_def)

lemma timeradd_micros: "micros (timeradd a b) = micros a + micros b"
  by (simp add: timeradd_def micros_def Let_def)

lemma timeradd_valid: "valid_time a \<Longrightarrow> valid_time b \<Longrightarrow> valid_time (timeradd a b)"
  by (auto simp: timeradd_def valid_time_def Let_def)

lemma timersub_micros: "micros (timersub a b) = micros a - micros b"
  by (simp add: timersub_def micros_def Let_def)

lemma timersub_valid: "valid_time a \<Longrightarrow> valid_time b \<Longrightarrow> valid_time (timersub a b)"
  by (auto simp: timersub_def valid_time_def Let_def)

lemma milliseconds_micros: "valid_time a \<Longrightarrow> milliseconds a = micros a div 1000"
  by (simp add: milliseconds_def micros_def valid_time_def)

text \<open>The clock gives proper times and is not set back.\<close>

definition clock_ok :: "(nat \<Rightarrow> timeval) \<Rightarrow> bool" where
  "clock_ok gettimeofday \<longleftrightarrow>
     (\<forall>n. valid_time (gettimeofday n) \<and> micros (gettimeofday n) \<le> micros (gettimeofday (Suc n)))"

lemma clock_mono: "clock_ok g \<Longrightarrow> i \<le> j \<Longrightarrow> micros (g i) \<le> micros (g j)"
  by (rule lift_Suc_mono_le) (simp_all add: clock_ok_def)

section \<open>What one callback does to the list\<close>

abbreviation cb_key :: "('f, 'p) nscallback \<Rightarrow> 'f \<times> 'p" where
  "cb_key cb \<equiv> (cb_callback cb, cb_p cb)"

abbreviation due :: "timeval \<Rightarrow> ('f, 'p) nscallback \<Rightarrow> bool" where
  "due tv cb \<equiv> timer_later tv (cb_tv cb)"

lemma schedule_remove_filter: "schedule_remove f p cbs = filter (\<lambda>cb. cb_key cb \<noteq> (f, p)) cbs"
  by (induction cbs) auto

definition scheduler_ok :: "('f, 'p, 'w) scheduler \<Rightarrow> bool" where
  "scheduler_ok st \<longleftrightarrow> sch_heap st = [] \<and> distinct (map cb_key (schedule_list st))
     \<and> (\<forall>cb\<in>set (schedule_list st). valid_time (cb_tv cb))"

definition call_keys :: "(int \<times> 'f \<times> 'p) list \<Rightarrow> ('f \<times> 'p) set" where
  "call_keys calls = snd ` set calls"

text \<open>
  Calls made after the time \<open>tv\<close> was read: entries that are not named stay as they are,
  and no entry that was added or replaced is due.
\<close>

definition rescheduled :: "timeval \<Rightarrow> ('f \<times> 'p) set \<Rightarrow> ('f, 'p, 'w) scheduler \<Rightarrow> ('f, 'p, 'w) scheduler \<Rightarrow> bool" where
  "rescheduled tv keys st st' \<longleftrightarrow> scheduler_ok st' \<and> clock_reads st \<le> clock_reads st' \<and> ran st' = ran st
     \<and> filter (\<lambda>cb. cb_key cb \<notin> keys) (schedule_list st') = filter (\<lambda>cb. cb_key cb \<notin> keys) (schedule_list st)
     \<and> (\<forall>cb\<in>set (schedule_list st'). cb_key cb \<in> keys \<longrightarrow> \<not> due tv cb)"

lemma schedule_one:
  assumes "scheduler_ok st" "clock_ok g" "k \<le> clock_reads st"
  obtains st' where "framebuffer_schedule g tival f p st = Some st'" "rescheduled (g k) {(f, p)} st st'"
proof -
  let ?cbs = "filter (\<lambda>cb. cb_key cb \<noteq> (f, p)) (schedule_list st)"
  have ok: "distinct (map cb_key ?cbs)" "\<forall>cb\<in>set ?cbs. valid_time (cb_tv cb)" "(f, p) \<notin> cb_key ` set ?cbs"
    using assms(1) by (auto simp: scheduler_ok_def distinct_map inj_on_def)
  show ?thesis
  proof (cases "tival < 0")
    case True
    then show ?thesis using that assms(1) ok
      by (auto simp: framebuffer_schedule_def schedule_remove_filter rescheduled_def scheduler_ok_def Let_def)
  next
    case False
    let ?tv = "\<lparr>tv_sec = tival div 1000, tv_usec = (tival mod 1000) * 1000\<rparr>"
    let ?new = "\<lparr>cb_tv = timeradd (g (clock_reads st)) ?tv, cb_callback = f, cb_p = p\<rparr>"
    have tv: "valid_time ?tv" "0 \<le> micros ?tv"
      using False by (simp_all add: valid_time_def micros_def)
    have g: "valid_time (g n)" for n using assms(2) by (simp add: clock_ok_def)
    have v: "valid_time (cb_tv ?new)" using timeradd_valid [OF g tv(1)] by simp
    have nd: "\<not> due (g k) ?new"
      using clock_mono [OF assms(2,3)] tv(2) timer_later_micros [OF g v] by (simp add: timeradd_micros)
    have h: "alloc (sch_heap st) = (True, [])" using assms(1) by (simp add: scheduler_ok_def)
    show ?thesis
      using that [of "st\<lparr>schedule_list := ?new # ?cbs, sch_heap := [], clock_reads := clock_reads st + 1\<rparr>"] False h v nd ok
      by (auto simp: framebuffer_schedule_def schedule_remove_filter rescheduled_def scheduler_ok_def Let_def)
  qed
qed

lemma filter_not_Un: "filter (\<lambda>x. P x \<notin> A \<union> B) xs = filter (\<lambda>x. P x \<notin> B) (filter (\<lambda>x. P x \<notin> A) xs)"
  by (induction xs) auto

lemma rescheduled_trans:
  assumes "rescheduled tv A st st'" "rescheduled tv B st' st''"
  shows "rescheduled tv (A \<union> B) st st''"
proof -
  have "\<not> due tv cb" if "cb \<in> set (schedule_list st'')" "cb_key cb \<in> A" "cb_key cb \<notin> B" for cb
  proof -
    have "filter (\<lambda>cb. cb_key cb \<notin> B) (schedule_list st'') = filter (\<lambda>cb. cb_key cb \<notin> B) (schedule_list st')"
      using assms(2) by (simp add: rescheduled_def)
    from arg_cong [OF this, of set] have "cb \<in> set (schedule_list st')" using that by auto
    then show ?thesis using assms(1) that unfolding rescheduled_def by blast
  qed
  moreover have "filter (\<lambda>cb. cb_key cb \<notin> A \<union> B) (schedule_list st'') = filter (\<lambda>cb. cb_key cb \<notin> A \<union> B) (schedule_list st)"
  proof -
    have "filter (\<lambda>cb. cb_key cb \<notin> A \<union> B) (schedule_list st'') = filter (\<lambda>cb. cb_key cb \<notin> A) (filter (\<lambda>cb. cb_key cb \<notin> B) (schedule_list st''))"
      by (rule filter_not_Un [of _ B A, unfolded Un_commute [of B A]])
    also have "\<dots> = filter (\<lambda>cb. cb_key cb \<notin> B) (filter (\<lambda>cb. cb_key cb \<notin> A) (schedule_list st'))"
      using assms(2) by (simp add: rescheduled_def conj_commute)
    also have "\<dots> = filter (\<lambda>cb. cb_key cb \<notin> A \<union> B) (schedule_list st)"
      using assms(1) by (simp only: rescheduled_def filter_not_Un)
    finally show ?thesis .
  qed
  ultimately show ?thesis using assms unfolding rescheduled_def by auto
qed

lemma schedule_many:
  assumes "scheduler_ok st" "clock_ok g" "k \<le> clock_reads st"
  obtains st' where "schedule_calls g calls st = Some st'" "rescheduled (g k) (call_keys calls) st st'"
proof -
  have "\<exists>st'. schedule_calls g calls st = Some st' \<and> rescheduled (g k) (call_keys calls) st st'"
    using assms
  proof (induction calls arbitrary: st)
    case Nil
    then show ?case by (simp add: rescheduled_def call_keys_def)
  next
    case (Cons c calls)
    obtain tival f p where c: "c = (tival, f, p)" by (cases c)
    obtain st1 where s1: "framebuffer_schedule g tival f p st = Some st1" "rescheduled (g k) {(f, p)} st st1"
      by (rule schedule_one [OF Cons.prems])
    then have "scheduler_ok st1" "k \<le> clock_reads st1" using Cons.prems by (auto simp: rescheduled_def)
    from Cons.IH [OF this(1) Cons.prems(2) this(2)] obtain st2 where
      s2: "schedule_calls g calls st1 = Some st2" "rescheduled (g k) (call_keys calls) st1 st2" by blast
    have "call_keys (c # calls) = {(f, p)} \<union> call_keys calls" by (simp add: call_keys_def c)
    then show ?case using s1(1) s2(1) rescheduled_trans [OF s1(2) s2(2)] c by simp
  qed
  with that show ?thesis by blast
qed

text \<open>One round: the entry that is due is taken out and its callback run.\<close>

lemma run_one:
  assumes "scheduler_ok st" "clock_ok g" "k \<le> clock_reads st" "schedule_list st = pre @ cur # post"
  obtains st' keys where "run_callback g body cur (st\<lparr>schedule_list := pre @ post\<rparr>) = Some st'"
    "rescheduled (g k) keys (st\<lparr>schedule_list := pre @ post, ran := ran st @ [cb_key cur]\<rparr>) st'"
    "\<exists>w. keys = call_keys (fst (body (cb_callback cur) (cb_p cur) w))"
proof -
  obtain calls w where b: "body (cb_callback cur) (cb_p cur) (world st) = (calls, w)" by force
  let ?st = "st\<lparr>schedule_list := pre @ post, world := w, ran := ran st @ [cb_key cur]\<rparr>"
  have "scheduler_ok ?st" using assms(1,4) by (simp add: scheduler_ok_def)
  then obtain st' where s: "schedule_calls g calls ?st = Some st'" "rescheduled (g k) (call_keys calls) ?st st'"
    by (rule schedule_many [OF _ assms(2), of ?st k calls]) (use assms(3) in simp_all)
  show ?thesis
    by (rule that [of st' "call_keys calls"])
      (use s b in \<open>simp_all add: run_callback_def rescheduled_def\<close>, metis b fst_conv)
qed

section \<open>The whole run\<close>

text \<open>Which key no callback but its own names.\<close>

definition left_alone :: "('f, 'p, 'w) bodies \<Rightarrow> 'f \<times> 'p \<Rightarrow> bool" where
  "left_alone body key \<longleftrightarrow> (\<forall>f p w. (f, p) \<noteq> key \<longrightarrow> key \<notin> call_keys (fst (body f p w)))"

definition due_key :: "timeval \<Rightarrow> ('f, 'p, 'w) scheduler \<Rightarrow> 'f \<times> 'p \<Rightarrow> bool" where
  "due_key tv st key \<longleftrightarrow> (\<exists>cb\<in>set (schedule_list st). cb_key cb = key \<and> due tv cb)"

definition run_done ::
  "timeval \<Rightarrow> ('f, 'p, 'w) bodies \<Rightarrow> ('f, 'p, 'w) scheduler \<Rightarrow> int \<Rightarrow> ('f, 'p, 'w) scheduler \<Rightarrow> bool" where
  "run_done tv body st r st' \<longleftrightarrow> scheduler_ok st' \<and> (\<forall>cb\<in>set (schedule_list st'). \<not> due tv cb)
     \<and> (if schedule_list st' = [] then r = - 1
        else \<exists>cb\<in>set (schedule_list st'). r = milliseconds (timersub (cb_tv cb) tv)
          \<and> (\<forall>cb'\<in>set (schedule_list st'). \<not> timer_later (cb_tv cb) (cb_tv cb')))
     \<and> (\<forall>key. left_alone body key \<longrightarrow>
          count_list (ran st') key = count_list (ran st) key + (if due_key tv st key then 1 else 0))"

lemma due_split: "rescheduled tv keys st st' \<Longrightarrow> filter (due tv) (schedule_list st')
    = filter (\<lambda>cb. due tv cb \<and> cb_key cb \<notin> keys) (schedule_list st)"
proof -
  assume r: "rescheduled tv keys st st'"
  have "filter (due tv) (schedule_list st') = filter (\<lambda>cb. due tv cb \<and> cb_key cb \<notin> keys) (schedule_list st')"
    by (rule filter_cong) (use r in \<open>auto simp: rescheduled_def\<close>)
  also have "\<dots> = filter (due tv) (filter (\<lambda>cb. cb_key cb \<notin> keys) (schedule_list st'))" by (simp add: conj_commute)
  also have "\<dots> = filter (\<lambda>cb. due tv cb \<and> cb_key cb \<notin> keys) (schedule_list st)"
    using r by (simp add: rescheduled_def conj_commute)
  finally show ?thesis .
qed

lemma due_key_filter: "due_key tv st key \<longleftrightarrow> key \<in> cb_key ` set (filter (due tv) (schedule_list st))"
  by (auto simp: due_key_def)

lemma length_filter_mono: "(\<And>x. P x \<Longrightarrow> Q x) \<Longrightarrow> length (filter P xs) \<le> length (filter Q xs)"
  by (induction xs) auto

text \<open>What running one due callback does to the claims about the run.\<close>

lemma run_done_step:
  assumes "scheduler_ok st" "schedule_list st = pre @ cur # post" "due tv cur"
    and "rescheduled tv keys (st\<lparr>schedule_list := pre @ post, ran := ran st @ [cb_key cur]\<rparr>) st1"
    and "keys = call_keys (fst (body (cb_callback cur) (cb_p cur) w))" "run_done tv body st1 r st'"
  shows "run_done tv body st r st'"
proof -
  let ?st = "st\<lparr>schedule_list := pre @ post, ran := ran st @ [cb_key cur]\<rparr>"
  have d: "filter (due tv) (schedule_list st1) = filter (\<lambda>cb. due tv cb \<and> cb_key cb \<notin> keys) (pre @ post)"
    using due_split [OF assms(4)] by simp
  have ran: "ran st1 = ran st @ [cb_key cur]" using assms(4) by (simp add: rescheduled_def)
  have cur: "cb_key cur \<notin> cb_key ` set (pre @ post)" using assms(1,2) by (auto simp: scheduler_ok_def)
  have "(if cb_key cur = key then 1 else 0) + (if due_key tv st1 key then 1 else (0::nat)) = (if due_key tv st key then 1 else 0)"
    if "left_alone body key" for key
  proof (cases "cb_key cur = key")
    case True
    then have "\<not> due_key tv st1 key" using cur by (auto simp: due_key_filter d)
    with True assms(2,3) show ?thesis by (auto simp: due_key_def)
  next
    case False
    then have "key \<notin> keys" using that assms(5) by (auto simp: left_alone_def)
    then have "due_key tv st1 key \<longleftrightarrow> due_key tv st key" using False assms(2) by (auto simp: due_key_filter d)
    with False show ?thesis by simp
  qed
  note step = this
  have "count_list (ran st') key = count_list (ran st) key + (if due_key tv st key then 1 else 0)" if "left_alone body key" for key
  proof -
    have "count_list (ran st') key = count_list (ran st1) key + (if due_key tv st1 key then 1 else 0)"
      using assms(6) that unfolding run_done_def by blast
    moreover have "count_list (ran st1) key = count_list (ran st) key + (if cb_key cur = key then 1 else 0)"
      unfolding ran by (cases "cb_key cur = key") simp_all
    ultimately show ?thesis using step [OF that] by simp
  qed
  then show ?thesis using assms(6) by (simp add: run_done_def)
qed

lemma loop_done:
  assumes "clock_ok g" "k \<le> clock_reads st" "scheduler_ok st" "schedule_list st = rev passed @ cbs" "schedule_list st \<noteq> []"
    "\<forall>cb\<in>set passed. \<not> due (g k) cb \<and> \<not> timer_later nexttime (cb_tv cb)" "nexttime \<in> cb_tv ` set (schedule_list st)"
  shows "\<exists>r st'. schedule_loop g body (g k) passed cbs nexttime st = Some (Some (r, st')) \<and> run_done (g k) body st r st'"
  using assms(2-)
proof (induction "length (filter (due (g k)) (schedule_list st))" arbitrary: st passed cbs nexttime rule: less_induct)
  case less
  from less.prems show ?case
  proof (induction cbs arbitrary: passed nexttime)
    case Nil
    have "\<forall>cb\<in>set (schedule_list st). \<not> due (g k) cb \<and> \<not> timer_later nexttime (cb_tv cb)"
      using Nil.prems(3,5) by simp
    then have "run_done (g k) body st (milliseconds (timersub nexttime (g k))) st"
      using Nil.prems(2,4,6) by (auto simp: run_done_def due_key_def)
    moreover have "schedule_loop g body (g k) passed [] nexttime st = Some (Some (milliseconds (timersub nexttime (g k)), st))"
      by (simp add: schedule_loop.simps)
    ultimately show ?case by blast
  next
    case (Cons cur rest)
    show ?case
    proof (cases "due (g k) cur")
      case False
      let ?next = "if timer_later nexttime (cb_tv cur) then cb_tv cur else nexttime"
      have v: "valid_time (cb_tv cb)" if "cb \<in> set (schedule_list st)" for cb
        using Cons.prems(2) that by (simp add: scheduler_ok_def)
      have cur: "cur \<in> set (schedule_list st)" using Cons.prems(3) by simp
      have "\<not> timer_later ?next (cb_tv cb)" if "cb \<in> set (cur # passed)" for cb
      proof -
        have "cb \<in> set (schedule_list st)" using that Cons.prems(3) by auto
        moreover have "valid_time nexttime" using Cons.prems(6) v by auto
        ultimately show ?thesis using that Cons.prems(5) v cur
          by (auto simp: timer_later_micros)
      qed
      then have "\<exists>r st'. schedule_loop g body (g k) (cur # passed) rest ?next st = Some (Some (r, st')) \<and> run_done (g k) body st r st'"
        by (intro Cons.IH Cons.prems(1,2,4)) (use Cons.prems(3,5,6) False cur in \<open>simp_all\<close>)
      then show ?thesis using False by (subst schedule_loop.simps) simp
    next
      case True
      obtain st1 keys where r: "run_callback g body cur (st\<lparr>schedule_list := rev passed @ rest\<rparr>) = Some st1"
          "rescheduled (g k) keys (st\<lparr>schedule_list := rev passed @ rest, ran := ran st @ [cb_key cur]\<rparr>) st1"
          "\<exists>w. keys = call_keys (fst (body (cb_callback cur) (cb_p cur) w))"
        by (rule run_one [OF Cons.prems(2) assms(1) Cons.prems(1,3)])
      have ok: "scheduler_ok st1" "k \<le> clock_reads st1" using r(2) Cons.prems(1) by (auto simp: rescheduled_def)
      have "length (filter (due (g k)) (schedule_list st1)) \<le> length (filter (due (g k)) (rev passed @ rest))"
      proof -
        have l: "schedule_list (st\<lparr>schedule_list := rev passed @ rest, ran := ran st @ [cb_key cur]\<rparr>) = rev passed @ rest" by simp
        show ?thesis unfolding due_split [OF r(2)] l by (rule length_filter_mono) blast
      qed
      then have fewer: "length (filter (due (g k)) (schedule_list st1)) < length (filter (due (g k)) (schedule_list st))"
        using Cons.prems(3) True by simp
      show ?thesis
      proof (cases "schedule_list st1 = []")
        case empty: True
        have "run_done (g k) body st1 (- 1) st1" using ok(1) empty by (simp add: run_done_def due_key_def)
        then have "run_done (g k) body st (- 1) st1"
          using run_done_step [OF Cons.prems(2,3) True r(2)] r(3) by blast
        moreover have "schedule_loop g body (g k) passed (cur # rest) nexttime st = Some (Some (- 1, st1))"
          using True r(1) empty by (simp add: schedule_loop.simps)
        ultimately show ?thesis by blast
      next
        case False
        have "\<exists>r st'. schedule_loop g body (g k) [] (schedule_list st1) (cb_tv (hd (schedule_list st1))) st1 = Some (Some (r, st'))
            \<and> run_done (g k) body st1 r st'"
          by (rule less.hyps [OF fewer ok(2,1)]) (use False in auto)
        then obtain x st' where l: "schedule_loop g body (g k) [] (schedule_list st1) (cb_tv (hd (schedule_list st1))) st1 = Some (Some (x, st'))"
          "run_done (g k) body st1 x st'" by blast
        have "run_done (g k) body st x st'"
          using run_done_step [OF Cons.prems(2,3) True r(2) _ l(2)] r(3) by blast
        moreover have "schedule_loop g body (g k) passed (cur # rest) nexttime st = Some (Some (x, st'))"
          using True r(1) False l(1) by (subst schedule_loop.simps) simp
        ultimately show ?thesis by blast
      qed
    qed
  qed
qed

lemma schedule_run_done:
  assumes "clock_ok g" "scheduler_ok st" "now = g (clock_reads st)"
  obtains r st' where "schedule_run g body st = Some (Some (r, st'))" "run_done now body st r st'"
proof (cases "schedule_list st = []")
  case True
  then show ?thesis using that [of "- 1" st] assms(2) by (simp add: schedule_run_def run_done_def due_key_def)
next
  case False
  let ?st = "st\<lparr>clock_reads := clock_reads st + 1\<rparr>"
  have "\<exists>r st'. schedule_loop g body now [] (schedule_list ?st) (cb_tv (hd (schedule_list ?st))) ?st = Some (Some (r, st'))
      \<and> run_done now body ?st r st'"
    unfolding assms(3) by (rule loop_done [OF assms(1)]) (use assms(2) False in \<open>simp_all add: scheduler_ok_def\<close>)
  moreover have "run_done now body ?st r st' \<longleftrightarrow> run_done now body st r st'" for r st'
    by (simp add: run_done_def due_key_def)
  ultimately show ?thesis using that False assms(3) by (auto simp: schedule_run_def Let_def)
qed


text \<open>
  C24. A run leaves only callbacks whose time has not come, each once, and returns the
  time in milliseconds until the earliest of them, rounded down, or -1 if none is left.
\<close>

theorem schedule_run_result:
  assumes "clock_ok g" "scheduler_ok st" "now = g (clock_reads st)" "schedule_run g body st = Some (Some (r, st'))"
  shows "scheduler_ok st' \<and> (\<forall>cb\<in>set (schedule_list st'). micros now \<le> micros (cb_tv cb))
    \<and> r = (if schedule_list st' = [] then - 1
        else (Min (micros ` cb_tv ` set (schedule_list st')) - micros now) div 1000)"
proof (rule schedule_run_done [OF assms(1-3), of body])
  fix x st''
  assume "schedule_run g body st = Some (Some (x, st''))" "run_done now body st x st''"
  then have run: "run_done now body st r st'" using assms(4) by simp
  have v: "valid_time now" "valid_time (cb_tv cb)" if "cb \<in> set (schedule_list st')" for cb
    using run that assms(1,3) by (auto simp: run_done_def scheduler_ok_def clock_ok_def)
  have late: "\<forall>cb\<in>set (schedule_list st'). micros now \<le> micros (cb_tv cb)"
    using run v by (fastforce simp: run_done_def timer_later_micros)
  show ?thesis
  proof (cases "schedule_list st' = []")
    case True
    then show ?thesis using run by (simp add: run_done_def)
  next
    case False
    then obtain cb where cb: "cb \<in> set (schedule_list st')" "r = milliseconds (timersub (cb_tv cb) now)"
      "\<forall>cb'\<in>set (schedule_list st'). \<not> timer_later (cb_tv cb) (cb_tv cb')"
      using run by (auto simp: run_done_def)
    then have "micros (cb_tv cb) \<le> micros (cb_tv cb')" if "cb' \<in> set (schedule_list st')" for cb'
      using that v by (fastforce simp: timer_later_micros)
    then have "Min (micros ` cb_tv ` set (schedule_list st')) = micros (cb_tv cb)"
      using cb(1) by (intro Min_eqI) auto
    moreover have "r = (micros (cb_tv cb) - micros now) div 1000"
      using cb v by (simp add: milliseconds_micros timersub_valid timersub_micros)
    ultimately show ?thesis using run late False by (simp add: run_done_def)
  qed
qed

text \<open>
  An example: the first callback schedules itself anew each time, the second is due, the
  third is not; one second passes between two readings of the clock.
\<close>

definition example_clock :: "nat \<Rightarrow> timeval" where
  "example_clock n = \<lparr>tv_sec = int n, tv_usec = 0\<rparr>"

definition example_bodies :: "(nat, unit, nat) bodies" where
  "example_bodies f p w = ((if f = 0 then [(500, 0, p)] else []), w + 1)"

definition example_scheduler :: "(nat, unit, nat) scheduler" where
  "example_scheduler = \<lparr>schedule_list = [\<lparr>cb_tv = \<lparr>tv_sec = 3, tv_usec = 0\<rparr>, cb_callback = 0, cb_p = ()\<rparr>,
       \<lparr>cb_tv = \<lparr>tv_sec = 4, tv_usec = 999999\<rparr>, cb_callback = 1, cb_p = ()\<rparr>,
       \<lparr>cb_tv = \<lparr>tv_sec = 60, tv_usec = 0\<rparr>, cb_callback = 2, cb_p = ()\<rparr>],
     sch_heap = [], clock_reads = 5, world = 0, ran = []\<rparr>"

lemma example_ok: "clock_ok example_clock" "scheduler_ok example_scheduler"
  by (simp_all add: clock_ok_def example_clock_def valid_time_def micros_def scheduler_ok_def example_scheduler_def)

lemma example_left_alone: "f \<noteq> 0 \<Longrightarrow> left_alone example_bodies (f, ())" "left_alone example_bodies (0, ())"
  by (auto simp: left_alone_def example_bodies_def call_keys_def)


theorem schedule_run_result_witness:
  "\<exists>r st'. schedule_run example_clock example_bodies example_scheduler = Some (Some (r, st'))
    \<and> (\<forall>cb\<in>set (schedule_list st'). 5000000 \<le> micros (cb_tv cb))"
proof -
  obtain r st' where run: "schedule_run example_clock example_bodies example_scheduler = Some (Some (r, st'))"
    by (rule schedule_run_done [OF example_ok refl, of example_bodies])
  then show ?thesis
    using schedule_run_result [OF example_ok refl run] by (auto simp: example_scheduler_def example_clock_def micros_def)
qed

end
