(* ===== verification/Utf8.thy ===== *)
theory Utf8
  imports NS_Prelude
begin

text \<open>
  UTF-8 as NetSurf sees it (\<^verbatim>\<open>netsurf/utils/utf8.c\<close>): thin wrappers round libparserutils,
  whose routines are a parameter.  A string is the list of its bytes, a position in it an
  index.  An assertion that fails is \<^const>\<open>None\<close>.
\<close>

section \<open>The wrappers\<close>

text \<open>The routines of the library; \<^const>\<open>None\<close> is an error code other than \<^verbatim>\<open>PARSERUTILS_OK\<close>.\<close>

record parserutils =
  pu_to_ucs4 :: "nat list \<Rightarrow> int option"
  pu_from_ucs4 :: "int \<Rightarrow> nat list option"
  pu_length :: "nat list \<Rightarrow> nat option"
  pu_char_byte_length :: "nat list \<Rightarrow> nat option"
  pu_prev :: "nat list \<Rightarrow> nat \<Rightarrow> nat option"
  pu_next :: "nat list \<Rightarrow> nat \<Rightarrow> nat option"

definition utf8_to_ucs4 :: "parserutils \<Rightarrow> nat list \<Rightarrow> int" where
  "utf8_to_ucs4 pu s = (case pu_to_ucs4 pu s of Some ucs4 \<Rightarrow> ucs4 | None \<Rightarrow> 0xfffd)"

text \<open>The bytes written.\<close>

definition utf8_from_ucs4 :: "parserutils \<Rightarrow> int \<Rightarrow> nat list" where
  "utf8_from_ucs4 pu c = (case pu_from_ucs4 pu c of Some bytes \<Rightarrow> bytes | None \<Rightarrow> [0xef, 0xbf, 0xbd])"

definition utf8_bounded_length :: "parserutils \<Rightarrow> nat list \<Rightarrow> nat" where
  "utf8_bounded_length pu s = (case pu_length pu s of Some len \<Rightarrow> len | None \<Rightarrow> 0)"

text \<open>A terminated string ends in front of its first 0.\<close>

definition utf8_length :: "parserutils \<Rightarrow> nat list \<Rightarrow> nat" where
  "utf8_length pu s = utf8_bounded_length pu (takeWhile (\<lambda>b. b \<noteq> 0) s)"

definition utf8_char_byte_length :: "parserutils \<Rightarrow> nat list \<Rightarrow> nat option" where
  "utf8_char_byte_length pu s = pu_char_byte_length pu s"

definition utf8_prev :: "parserutils \<Rightarrow> nat list \<Rightarrow> nat \<Rightarrow> nat option" where
  "utf8_prev pu s pos = pu_prev pu s pos"

definition utf8_next :: "parserutils \<Rightarrow> nat list \<Rightarrow> nat \<Rightarrow> nat option" where
  "utf8_next pu s pos = pu_next pu s pos"

fun byte_length_loop :: "parserutils \<Rightarrow> nat list \<Rightarrow> nat \<Rightarrow> nat \<Rightarrow> nat option" where
  "byte_length_loop pu s 0 len = Some len"
| "byte_length_loop pu s (Suc c) len =
     (if len < length s then Option.bind (utf8_next pu s len) (byte_length_loop pu s c) else Some len)"

definition utf8_bounded_byte_length :: "parserutils \<Rightarrow> nat list \<Rightarrow> nat \<Rightarrow> nat option" where
  "utf8_bounded_byte_length pu s c = byte_length_loop pu s c 0"

section \<open>The characters of a string\<close>

text \<open>What libparserutils documents of its step: it goes forward and stays inside the string.\<close>

definition parserutils_ok :: "parserutils \<Rightarrow> bool" where
  "parserutils_ok pu \<longleftrightarrow> (\<forall>s pos. pos < length s \<longrightarrow> (\<exists>n. pu_next pu s pos = Some n \<and> pos < n \<and> n \<le> length s))"

lemma utf8_next_forward:
  assumes "parserutils_ok pu" "pos < length s" "utf8_next pu s pos = Some n"
  shows "pos < n \<and> n \<le> length s"
proof -
  obtain m where "pu_next pu s pos = Some m" "pos < m" "m \<le> length s"
    using assms(1,2) unfolding parserutils_ok_def by blast
  then show ?thesis using assms(3) by (simp add: utf8_next_def)
qed

text \<open>The characters from a position on: where each starts, and its code.\<close>

fun chars_from :: "parserutils \<Rightarrow> nat list \<Rightarrow> nat \<Rightarrow> (nat \<times> int) list \<Rightarrow> bool" where
  "chars_from pu s pos [] \<longleftrightarrow> pos = length s"
| "chars_from pu s pos ((start, c) # cs) \<longleftrightarrow> start = pos \<and> pos < length s \<and> c = utf8_to_ucs4 pu (drop pos s)
     \<and> (case utf8_next pu s pos of None \<Rightarrow> False | Some n \<Rightarrow> chars_from pu s n cs)"

abbreviation chars_of :: "parserutils \<Rightarrow> nat list \<Rightarrow> (nat \<times> int) list \<Rightarrow> bool" where
  "chars_of pu s \<equiv> chars_from pu s 0"

lemma chars_from_ConsE:
  assumes "chars_from pu s pos ((start, c) # cs)"
  obtains n where "start = pos" "pos < length s" "c = utf8_to_ucs4 pu (drop pos s)" "utf8_next pu s pos = Some n" "chars_from pu s n cs"
  using assms by (auto split: option.splits)

lemma chars_from_exist:
  assumes "parserutils_ok pu" "pos \<le> length s"
  shows "\<exists>cs. chars_from pu s pos cs"
  using assms(2)
proof (induction "length s - pos" arbitrary: pos rule: less_induct)
  case less
  show ?case
  proof (cases "pos = length s")
    case True
    then have "chars_from pu s pos []" by simp
    then show ?thesis by blast
  next
    case False
    then have p: "pos < length s" using less.prems by simp
    then obtain n where n: "utf8_next pu s pos = Some n" "pos < n" "n \<le> length s"
      using assms(1) by (auto simp: parserutils_ok_def utf8_next_def)
    then have "length s - n < length s - pos" using p by simp
    then obtain cs where "chars_from pu s n cs" using less.hyps n(3) by blast
    then have "chars_from pu s pos ((pos, utf8_to_ucs4 pu (drop pos s)) # cs)" using n(1) p by simp
    then show ?thesis by blast
  qed
qed

lemma chars_from_unique: "chars_from pu s pos cs \<Longrightarrow> chars_from pu s pos cs' \<Longrightarrow> cs = cs'"
proof (induction cs arbitrary: pos cs')
  case Nil
  then show ?case by (cases cs') auto
next
  case (Cons a cs)
  obtain p c where a: "a = (p, c)" by force
  from Cons.prems(1) have "pos < length s" by (simp add: a)
  then obtain b cs'' where "cs' = b # cs''" using Cons.prems(2) by (cases cs') auto
  with Cons a show ?case by (cases b) (auto split: option.splits)
qed

text \<open>Where the characters after the first few start.\<close>

definition start_of :: "nat list \<Rightarrow> (nat \<times> int) list \<Rightarrow> nat" where
  "start_of s cs = (case cs of [] \<Rightarrow> length s | (p, _) # _ \<Rightarrow> p)"

lemma start_of_simps [simp]: "start_of s [] = length s" "start_of s ((p, c) # cs) = p"
  by (simp_all add: start_of_def)

lemma start_of_drop: "k < length cs \<Longrightarrow> start_of s (drop k cs) = fst (cs ! k)"
  by (cases "cs ! k") (simp flip: Cons_nth_drop_Suc)

lemma chars_from_start: "chars_from pu s pos cs \<Longrightarrow> start_of s cs = pos"
  by (cases cs) auto

lemma byte_length_loop_chars:
  "chars_from pu s pos cs \<Longrightarrow> byte_length_loop pu s c pos = Some (start_of s (drop c cs))"
proof (induction cs arbitrary: pos c)
  case Nil
  then show ?case by (cases c) auto
next
  case (Cons a cs)
  obtain p k where a: "a = (p, k)" by force
  with Cons show ?case by (cases c) (auto split: option.splits)
qed

text \<open>The first \<open>c\<close> characters take the bytes up to where the next one starts.\<close>

lemma bounded_byte_length: "chars_of pu s cs \<Longrightarrow> utf8_bounded_byte_length pu s c = Some (start_of s (drop c cs))"
  by (simp add: utf8_bounded_byte_length_def byte_length_loop_chars)

text \<open>For examples: single-byte characters.\<close>

definition ascii_utf8 :: parserutils where
  "ascii_utf8 = \<lparr>pu_to_ucs4 = (\<lambda>s. case s of [] \<Rightarrow> None | b # _ \<Rightarrow> Some (int b)),
     pu_from_ucs4 = (\<lambda>c. if 0 \<le> c \<and> c < 128 then Some [nat c] else None), pu_length = (\<lambda>s. Some (length s)),
     pu_char_byte_length = (\<lambda>s. Some 1), pu_prev = (\<lambda>s pos. Some (pos - 1)),
     pu_next = (\<lambda>s pos. if pos < length s then Some (pos + 1) else None)\<rparr>"

lemma ascii_utf8_ok: "parserutils_ok ascii_utf8"
  by (simp add: parserutils_ok_def ascii_utf8_def)

end
