(* ===== verification/Fb_Font.thy ===== *)
theory Fb_Font
  imports Utf8 Plot_Glyph
begin

text \<open>
  Text on the framebuffer: the font faces and the measuring of text
  (\<^verbatim>\<open>frontends/framebuffer/font_freetype.c\<close>, the font code the device is built with), and
  the text plotter of \<^verbatim>\<open>frontends/framebuffer/framebuffer.c\<close>.  FreeType is a parameter.
\<close>

unbundle bit_operations_syntax

section \<open>Styles, faces and the library\<close>

datatype plot_font_generic_family =
    PLOT_FONT_FAMILY_SANS_SERIF | PLOT_FONT_FAMILY_SERIF | PLOT_FONT_FAMILY_MONOSPACE
  | PLOT_FONT_FAMILY_CURSIVE | PLOT_FONT_FAMILY_FANTASY

abbreviation (input) PLOT_STYLE_SCALE :: int where "PLOT_STYLE_SCALE \<equiv> 1024"
abbreviation (input) FONTF_NONE :: int where "FONTF_NONE \<equiv> 0"
abbreviation (input) FONTF_ITALIC :: int where "FONTF_ITALIC \<equiv> 1"
abbreviation (input) FONTF_OBLIQUE :: int where "FONTF_OBLIQUE \<equiv> 2"
abbreviation (input) BOLD_WEIGHT :: int where "BOLD_WEIGHT \<equiv> 700"

record plot_font_style =
  st_family :: plot_font_generic_family
  st_size :: int
  st_weight :: int
  st_flags :: int
  st_background :: nsfb_colour
  st_foreground :: nsfb_colour

record fb_faceid =
  ff_fontfile :: "string option"
  ff_index :: int
  ff_cidx :: nat

text \<open>A glyph of the library: how far it advances, in 16.16 fixed point, and its bitmap if it has one.\<close>

record glyph_bitmap =
  gb_left :: int
  gb_top :: int
  gb_width :: int
  gb_rows :: int
  gb_mono :: bool
  gb_buffer :: "int \<Rightarrow> 8 word"
  gb_pitch :: int

record ft_glyph =
  gl_advance_x :: int
  gl_bitmap :: "glyph_bitmap option"

record ftc_scaler =
  sr_face_id :: nat
  sr_width :: int
  sr_height :: int
  sr_pixel :: int
  sr_x_res :: int
  sr_y_res :: int

text \<open>
  The routines of FreeType; a face that can be opened has its character maps, and the one
  selected for Unicode if there is any.
\<close>

record freetype =
  ft_init_ok :: bool
  ft_manager_ok :: bool
  ft_new_face :: "string option \<Rightarrow> int \<Rightarrow> (nat option \<times> nat list) option"
  ft_cmap_lookup :: "nat \<Rightarrow> nat \<Rightarrow> int \<Rightarrow> nat"
  ft_image_lookup :: "ftc_scaler \<Rightarrow> int \<Rightarrow> nat \<Rightarrow> ft_glyph option"

text \<open>The static data: the faces allocated, by address, and the ten slots that point to them.\<close>

record font_state =
  faces :: "nat \<Rightarrow> fb_faceid option"
  next_face :: nat
  fb_faces :: "nat option list"
  ft_load_type :: int
  font_heap :: heap

abbreviation (input) FB_FACE_SANS_SERIF :: nat where "FB_FACE_SANS_SERIF \<equiv> 0"
abbreviation (input) FB_FACE_SANS_SERIF_BOLD :: nat where "FB_FACE_SANS_SERIF_BOLD \<equiv> 1"
abbreviation (input) FB_FACE_SANS_SERIF_ITALIC :: nat where "FB_FACE_SANS_SERIF_ITALIC \<equiv> 2"
abbreviation (input) FB_FACE_SANS_SERIF_ITALIC_BOLD :: nat where "FB_FACE_SANS_SERIF_ITALIC_BOLD \<equiv> 3"
abbreviation (input) FB_FACE_SERIF :: nat where "FB_FACE_SERIF \<equiv> 4"
abbreviation (input) FB_FACE_SERIF_BOLD :: nat where "FB_FACE_SERIF_BOLD \<equiv> 5"
abbreviation (input) FB_FACE_MONOSPACE :: nat where "FB_FACE_MONOSPACE \<equiv> 6"
abbreviation (input) FB_FACE_MONOSPACE_BOLD :: nat where "FB_FACE_MONOSPACE_BOLD \<equiv> 7"
abbreviation (input) FB_FACE_CURSIVE :: nat where "FB_FACE_CURSIVE \<equiv> 8"
abbreviation (input) FB_FACE_FANTASY :: nat where "FB_FACE_FANTASY \<equiv> 9"
abbreviation (input) FB_FACE_COUNT :: nat where "FB_FACE_COUNT \<equiv> 10"

section \<open>Loading and releasing the faces\<close>

fun charmap_index :: "nat \<Rightarrow> nat list \<Rightarrow> nat \<Rightarrow> nat option" where
  "charmap_index charmap [] cidx = None"
| "charmap_index charmap (c # charmaps) cidx = (if c = charmap then Some cidx else charmap_index charmap charmaps (cidx + 1))"

text \<open>Whether the face could be opened, and the face identifier with the index of its Unicode map.\<close>

definition ft_face_requester :: "freetype \<Rightarrow> fb_faceid \<Rightarrow> bool \<times> fb_faceid" where
  "ft_face_requester lib fb_face = (case ft_new_face lib (ff_fontfile fb_face) (ff_index fb_face) of
     None \<Rightarrow> (False, fb_face)
   | Some (None, charmaps) \<Rightarrow> (False, fb_face)
   | Some (Some charmap, charmaps) \<Rightarrow> (case charmap_index charmap charmaps 0 of
       None \<Rightarrow> (True, fb_face) | Some cidx \<Rightarrow> (True, fb_face\<lparr>ff_cidx := cidx\<rparr>)))"

text \<open>
  \<open>sfind\<close> is \<^verbatim>\<open>filepath_sfind\<close> on the resource path.  The results of \<^verbatim>\<open>calloc\<close> and
  \<^verbatim>\<open>strdup\<close> are not tested; the first one is followed.  The file name belongs to the face
  and is released with it.
\<close>

definition fb_new_face ::
  "freetype \<Rightarrow> (string \<Rightarrow> string) \<Rightarrow> string option \<Rightarrow> string \<Rightarrow> font_state \<Rightarrow> (nat option \<times> font_state) option" where
  "fb_new_face lib sfind option fontname st = (let
     (ok, h) = alloc (font_heap st);
     a = next_face st
   in if \<not> ok then None
      else let
        (dup, h) = alloc h;
        name = (case option of Some file \<Rightarrow> file | None \<Rightarrow> sfind fontname);
        newf = \<lparr>ff_fontfile = (if dup then Some name else None), ff_index = 0, ff_cidx = 0\<rparr>;
        (opened, newf) = ft_face_requester lib newf;
        st = st\<lparr>font_heap := h, next_face := a + 1\<rparr>
      in if opened then Some (Some a, st\<lparr>faces := (faces st)(a \<mapsto> newf)\<rparr>) else Some (None, st))"

text \<open>One block of \<^verbatim>\<open>fb_font_init\<close>: a face of its own, or the one of another slot.\<close>

definition load_face ::
  "freetype \<Rightarrow> (string \<Rightarrow> string) \<Rightarrow> (nat \<Rightarrow> string option) \<Rightarrow> (nat \<Rightarrow> string) \<Rightarrow> nat \<Rightarrow> nat \<Rightarrow> font_state \<Rightarrow> font_state option" where
  "load_face lib sfind option fontname slot fallback st =
     map_option (\<lambda>(fb_face, st). st\<lparr>fb_faces := (fb_faces st)[slot := (case fb_face of
         None \<Rightarrow> fb_faces st ! fallback | Some a \<Rightarrow> Some a)]\<rparr>)
       (fb_new_face lib sfind (option slot) (fontname slot) st)"

fun load_faces ::
  "freetype \<Rightarrow> (string \<Rightarrow> string) \<Rightarrow> (nat \<Rightarrow> string option) \<Rightarrow> (nat \<Rightarrow> string) \<Rightarrow> (nat \<times> nat) list \<Rightarrow> font_state \<Rightarrow> font_state option" where
  "load_faces lib sfind option fontname [] st = Some st"
| "load_faces lib sfind option fontname ((slot, fallback) # slots) st =
     Option.bind (load_face lib sfind option fontname slot fallback st) (load_faces lib sfind option fontname slots)"

definition optional_faces :: "(nat \<times> nat) list" where
  "optional_faces = [(FB_FACE_SANS_SERIF_BOLD, FB_FACE_SANS_SERIF), (FB_FACE_SANS_SERIF_ITALIC, FB_FACE_SANS_SERIF),
     (FB_FACE_SANS_SERIF_ITALIC_BOLD, FB_FACE_SANS_SERIF), (FB_FACE_SERIF, FB_FACE_SANS_SERIF),
     (FB_FACE_SERIF_BOLD, FB_FACE_SERIF), (FB_FACE_MONOSPACE, FB_FACE_SANS_SERIF),
     (FB_FACE_MONOSPACE_BOLD, FB_FACE_MONOSPACE), (FB_FACE_CURSIVE, FB_FACE_SANS_SERIF), (FB_FACE_FANTASY, FB_FACE_SANS_SERIF)]"

definition fb_font_init ::
  "freetype \<Rightarrow> (string \<Rightarrow> string) \<Rightarrow> (nat \<Rightarrow> string option) \<Rightarrow> (nat \<Rightarrow> string) \<Rightarrow> bool \<Rightarrow> font_state \<Rightarrow> (bool \<times> font_state) option" where
  "fb_font_init lib sfind option fontname monochrome st =
     (if \<not> ft_init_ok lib then Some (False, st)
      else if \<not> ft_manager_ok lib then Some (False, st)
      else Option.bind (fb_new_face lib sfind (option FB_FACE_SANS_SERIF) (fontname FB_FACE_SANS_SERIF) st) (\<lambda>(fb_face, st).
        case fb_face of
          None \<Rightarrow> Some (False, st)
        | Some a \<Rightarrow>
            map_option (\<lambda>st. (True, st\<lparr>ft_load_type := if monochrome then 4096 else 0\<rparr>))
              (load_faces lib sfind option fontname optional_faces (st\<lparr>fb_faces := (fb_faces st)[FB_FACE_SANS_SERIF := Some a]\<rparr>))))"

text \<open>Releasing: slots that share a face are emptied first; releasing a face twice is \<^const>\<open>None\<close>.\<close>

definition unset_duplicates :: "nat \<Rightarrow> nat option list \<Rightarrow> nat option list" where
  "unset_duplicates i slots = fold (\<lambda>j slots. if slots ! i = slots ! j then slots[j := None] else slots) [i + 1..<FB_FACE_COUNT] slots"

definition release_face :: "nat \<Rightarrow> font_state \<Rightarrow> font_state option" where
  "release_face i st = (case fb_faces st ! i of
     None \<Rightarrow> Some st
   | Some a \<Rightarrow> let slots = unset_duplicates i (fb_faces st) in
       (case faces st a of
          None \<Rightarrow> None
        | Some _ \<Rightarrow> Some (st\<lparr>faces := (faces st)(a := None), fb_faces := slots[i := None]\<rparr>)))"

fun release_faces :: "nat list \<Rightarrow> font_state \<Rightarrow> font_state option" where
  "release_faces [] st = Some st"
| "release_faces (i # is) st = Option.bind (release_face i st) (release_faces is)"

definition fb_font_finalise :: "font_state \<Rightarrow> font_state option" where
  "fb_font_finalise st = release_faces [0..<FB_FACE_COUNT] st"

section \<open>Glyphs\<close>

definition selected_face :: "plot_font_style \<Rightarrow> nat" where
  "selected_face fstyle = (case st_family fstyle of
     PLOT_FONT_FAMILY_SERIF \<Rightarrow> if st_weight fstyle \<ge> BOLD_WEIGHT then FB_FACE_SERIF_BOLD else FB_FACE_SERIF
   | PLOT_FONT_FAMILY_MONOSPACE \<Rightarrow> if st_weight fstyle \<ge> BOLD_WEIGHT then FB_FACE_MONOSPACE_BOLD else FB_FACE_MONOSPACE
   | PLOT_FONT_FAMILY_CURSIVE \<Rightarrow> FB_FACE_CURSIVE
   | PLOT_FONT_FAMILY_FANTASY \<Rightarrow> FB_FACE_FANTASY
   | PLOT_FONT_FAMILY_SANS_SERIF \<Rightarrow>
       if st_flags fstyle AND FONTF_ITALIC \<noteq> 0 \<or> st_flags fstyle AND FONTF_OBLIQUE \<noteq> 0 then
         (if st_weight fstyle \<ge> BOLD_WEIGHT then FB_FACE_SANS_SERIF_ITALIC_BOLD else FB_FACE_SANS_SERIF_ITALIC)
       else (if st_weight fstyle \<ge> BOLD_WEIGHT then FB_FACE_SANS_SERIF_BOLD else FB_FACE_SANS_SERIF))"

text \<open>What the text routines depend on: the two libraries, the static data and the resolution.\<close>

record fonts =
  fn_utf8 :: parserutils
  fn_lib :: freetype
  fn_state :: font_state
  fn_dpi :: int

definition fb_fill_scalar :: "fonts \<Rightarrow> plot_font_style \<Rightarrow> nat \<Rightarrow> ftc_scaler" where
  "fb_fill_scalar fn fstyle face = (let size = cdiv (st_size fstyle * 64) PLOT_STYLE_SCALE
   in \<lparr>sr_face_id = face, sr_width = size, sr_height = size, sr_pixel = 0, sr_x_res = fn_dpi fn, sr_y_res = fn_dpi fn\<rparr>)"

text \<open>
  The inner \<^const>\<open>None\<close> is the NULL result; the outer one is the use of a face that is not
  there.  The flags are those of rendering and of the hinter.
\<close>

definition fb_getglyph :: "fonts \<Rightarrow> plot_font_style \<Rightarrow> int \<Rightarrow> ft_glyph option option" where
  "fb_getglyph fn fstyle ucs4 =
     Option.bind (fb_faces (fn_state fn) ! selected_face fstyle) (\<lambda>a.
     Option.bind (faces (fn_state fn) a) (\<lambda>fb_face.
       Some (ft_image_lookup (fn_lib fn) (fb_fill_scalar fn fstyle a) (4 OR 32 OR ft_load_type (fn_state fn))
         (ft_cmap_lookup (fn_lib fn) a (ff_cidx fb_face) ucs4))))"

definition advance_px :: "ft_glyph \<Rightarrow> int" where
  "advance_px glyph = drop_bit 16 (gl_advance_x glyph)"

section \<open>Measuring text\<close>

text \<open>
  The loops follow the code of the next character and the position it moves to; a loop
  that does not end is \<^const>\<open>None\<close>.
\<close>

partial_function (option) width_loop :: "fonts \<Rightarrow> plot_font_style \<Rightarrow> nat list \<Rightarrow> nat \<Rightarrow> int \<Rightarrow> int option" where
  "width_loop fn fstyle s nxtchr width =
     (if nxtchr < length s then
        Option.bind (utf8_next (fn_utf8 fn) s nxtchr) (\<lambda>n.
        Option.bind (fb_getglyph fn fstyle (utf8_to_ucs4 (fn_utf8 fn) (drop nxtchr s))) (\<lambda>glyph.
          case glyph of
            None \<Rightarrow> width_loop fn fstyle s n width
          | Some g \<Rightarrow> width_loop fn fstyle s n (width + advance_px g)))
      else Some width)"

definition fb_font_width :: "fonts \<Rightarrow> plot_font_style \<Rightarrow> nat list \<Rightarrow> int option" where
  "fb_font_width fn fstyle s = width_loop fn fstyle s 0 0"

text \<open>
  As in the source, a character without a glyph is met by a \<^verbatim>\<open>continue\<close> that does not move
  on to the next one.
\<close>

partial_function (option) position_loop ::
  "fonts \<Rightarrow> plot_font_style \<Rightarrow> nat list \<Rightarrow> int \<Rightarrow> nat \<Rightarrow> int \<Rightarrow> int \<Rightarrow> (nat \<times> int \<times> int) option" where
  "position_loop fn fstyle s x nxtchr actual_x prev_x =
     (if nxtchr < length s then
        Option.bind (fb_getglyph fn fstyle (utf8_to_ucs4 (fn_utf8 fn) (drop nxtchr s))) (\<lambda>glyph.
          case glyph of
            None \<Rightarrow> position_loop fn fstyle s x nxtchr actual_x prev_x
          | Some g \<Rightarrow>
              if actual_x + advance_px g > x then Some (nxtchr, actual_x + advance_px g, prev_x)
              else Option.bind (utf8_next (fn_utf8 fn) s nxtchr) (\<lambda>n.
                position_loop fn fstyle s x n (actual_x + advance_px g) (actual_x + advance_px g)))
      else Some (nxtchr, actual_x, prev_x))"

definition fb_font_position :: "fonts \<Rightarrow> plot_font_style \<Rightarrow> nat list \<Rightarrow> int \<Rightarrow> (nat \<times> int) option" where
  "fb_font_position fn fstyle s x =
     map_option (\<lambda>(nxtchr, actual_x, prev_x). (nxtchr, if \<bar>actual_x - x\<bar> > \<bar>prev_x - x\<bar> then prev_x else actual_x))
       (position_loop fn fstyle s x 0 0 0)"

text \<open>The result is the offset and the position.\<close>

partial_function (option) split_loop ::
  "fonts \<Rightarrow> plot_font_style \<Rightarrow> nat list \<Rightarrow> int \<Rightarrow> nat \<Rightarrow> int \<Rightarrow> int \<Rightarrow> nat \<Rightarrow> (nat \<times> int) option" where
  "split_loop fn fstyle s x nxtchr actual_x last_space_x last_space_idx =
     (if nxtchr < length s then
        let ucs4 = utf8_to_ucs4 (fn_utf8 fn) (drop nxtchr s) in
        Option.bind (fb_getglyph fn fstyle ucs4) (\<lambda>glyph.
          case glyph of
            None \<Rightarrow> split_loop fn fstyle s x nxtchr actual_x last_space_x last_space_idx
          | Some g \<Rightarrow> let
              (sx, si) = (if ucs4 = 0x20 then (actual_x, nxtchr) else (last_space_x, last_space_idx))
            in if actual_x + advance_px g > x \<and> si \<noteq> 0 then Some (si, sx)
               else Option.bind (utf8_next (fn_utf8 fn) s nxtchr) (\<lambda>n.
                 split_loop fn fstyle s x n (actual_x + advance_px g) sx si))
      else Some (nxtchr, actual_x))"

definition fb_font_split :: "fonts \<Rightarrow> plot_font_style \<Rightarrow> nat list \<Rightarrow> int \<Rightarrow> (nat \<times> int) option" where
  "fb_font_split fn fstyle s x = split_loop fn fstyle s x 0 0 0 0"

section \<open>Plotting text\<close>

definition draw_glyph :: "plot_font_style \<Rightarrow> int \<Rightarrow> int \<Rightarrow> ft_glyph \<Rightarrow> nsfb \<Rightarrow> nsfb" where
  "draw_glyph fstyle x y glyph nsfb = (case gl_bitmap glyph of
     None \<Rightarrow> nsfb
   | Some bm \<Rightarrow> let
       loc = \<lparr>x0 = x + gb_left bm, y0 = y - gb_top bm,
         x1 = x + gb_left bm + gb_width bm, y1 = y - gb_top bm + gb_rows bm\<rparr>
     in if gb_mono bm then snd (snd (glyph1 nsfb loc (gb_buffer bm) (gb_pitch bm) (st_foreground fstyle)))
        else snd (snd (glyph8 nsfb loc (gb_buffer bm) (gb_pitch bm) (st_foreground fstyle))))"

partial_function (option) plot_text_loop :: "fonts \<Rightarrow> plot_font_style \<Rightarrow> int \<Rightarrow> int \<Rightarrow> nat list \<Rightarrow> nat \<Rightarrow> nsfb \<Rightarrow> nsfb option" where
  "plot_text_loop fn fstyle x y s nxtchr nsfb =
     (if nxtchr < length s then
        Option.bind (utf8_next (fn_utf8 fn) s nxtchr) (\<lambda>n.
        Option.bind (fb_getglyph fn fstyle (utf8_to_ucs4 (fn_utf8 fn) (drop nxtchr s))) (\<lambda>glyph.
          case glyph of
            None \<Rightarrow> plot_text_loop fn fstyle x y s n nsfb
          | Some g \<Rightarrow> plot_text_loop fn fstyle (x + advance_px g) y s n (draw_glyph fstyle x y g nsfb)))
      else Some nsfb)"

definition framebuffer_plot_text :: "fonts \<Rightarrow> plot_font_style \<Rightarrow> int \<Rightarrow> int \<Rightarrow> nat list \<Rightarrow> nsfb \<Rightarrow> nsfb option" where
  "framebuffer_plot_text fn fstyle x y s nsfb = plot_text_loop fn fstyle x y s 0 nsfb"

end
