(* ===== verification/Fb_Font_Spec.thy ===== *)
theory Fb_Font_Spec
  imports Fb_Font
begin

text \<open>
  What the font code promises: the faces are released once each, measuring and plotting
  agree on where every character stands, and what the search for a position or a line
  break returns.
\<close>

section \<open>The faces are released once\<close>

text \<open>The allocated faces are those of \<open>F\<close>, and new ones that are exactly what the slots point to.\<close>

definition slots_own :: "(nat \<Rightarrow> fb_faceid option) \<Rightarrow> font_state \<Rightarrow> bool" where
  "slots_own F st \<longleftrightarrow> length (fb_faces st) = FB_FACE_COUNT
     \<and> (\<forall>a. if Some a \<in> set (fb_faces st) then F a = None \<and> faces st a \<noteq> None else faces st a = F a)"

definition fonts_fresh :: "font_state \<Rightarrow> bool" where
  "fonts_fresh st \<longleftrightarrow> (\<forall>a\<ge>next_face st. faces st a = None)"

lemma slots_ownD:
  assumes "slots_own F st"
  shows "length (fb_faces st) = FB_FACE_COUNT" "Some a \<in> set (fb_faces st) \<Longrightarrow> F a = None \<and> faces st a \<noteq> None"
    "Some a \<notin> set (fb_faces st) \<Longrightarrow> faces st a = F a"
  using assms unfolding slots_own_def by presburger+

lemma slots_ownI:
  assumes "length (fb_faces st) = FB_FACE_COUNT" "\<And>a. Some a \<in> set (fb_faces st) \<Longrightarrow> F a = None \<and> faces st a \<noteq> None"
    "\<And>a. Some a \<notin> set (fb_faces st) \<Longrightarrow> faces st a = F a"
  shows "slots_own F st"
  using assms unfolding slots_own_def by presburger

lemma slots_own_cong: "slots_own F st \<Longrightarrow> faces st' = faces st \<Longrightarrow> fb_faces st' = fb_faces st \<Longrightarrow> slots_own F st'"
  by (simp add: slots_own_def)

lemma unset_duplicates_nth:
  assumes "length slots = FB_FACE_COUNT" "i < FB_FACE_COUNT"
  shows "length (unset_duplicates i slots) = FB_FACE_COUNT
    \<and> (\<forall>j<FB_FACE_COUNT. unset_duplicates i slots ! j = (if i < j \<and> slots ! i = slots ! j then None else slots ! j))"
proof -
  have "k \<le> FB_FACE_COUNT \<Longrightarrow> length (fold (\<lambda>j slots. if slots ! i = slots ! j then slots[j := None] else slots) [i + 1..<k] slots) = FB_FACE_COUNT
      \<and> (\<forall>j<FB_FACE_COUNT. fold (\<lambda>j slots. if slots ! i = slots ! j then slots[j := None] else slots) [i + 1..<k] slots ! j
          = (if i < j \<and> j < k \<and> slots ! i = slots ! j then None else slots ! j))" for k
  proof (induction k)
    case (Suc k)
    then show ?case using assms by (cases "i + 1 \<le> k") (auto simp: nth_list_update less_Suc_eq)
  qed (use assms in simp)
  from this [of FB_FACE_COUNT] show ?thesis by (auto simp: unset_duplicates_def)
qed

lemma release_face_own:
  assumes own: "slots_own F st" and i: "i < FB_FACE_COUNT" and before: "\<forall>j<i. fb_faces st ! j = None"
  obtains st' where "release_face i st = Some st'" "slots_own F st'" "\<forall>j<Suc i. fb_faces st' ! j = None"
proof (cases "fb_faces st ! i")
  case None
  then show ?thesis using that [of st] own before by (auto simp: release_face_def less_Suc_eq)
next
  case (Some a)
  note len = slots_ownD(1) [OF own]
  let ?slots = "(unset_duplicates i (fb_faces st))[i := None]"
  note u = unset_duplicates_nth [OF len i]
  have nth: "?slots ! j = (if fb_faces st ! j = Some a then None else fb_faces st ! j)" if "j < FB_FACE_COUNT" for j
    using u that i Some before by (cases "j < i") (auto simp: nth_list_update)
  have "\<exists>j<FB_FACE_COUNT. ?slots ! j = Some b" if "Some b \<in> set (fb_faces st)" "b \<noteq> a" for b
    using that nth len by (metis in_set_conv_nth option.inject)
  then have s: "Some b \<in> set ?slots \<longleftrightarrow> Some b \<in> set (fb_faces st) \<and> b \<noteq> a" for b
    using nth len u by (auto simp: in_set_conv_nth split: if_splits)
  have a: "Some a \<in> set (fb_faces st)" using Some len i by (metis nth_mem)
  then have f: "F a = None" "faces st a \<noteq> None" using slots_ownD(2) [OF own] by blast+
  let ?st = "st\<lparr>faces := (faces st)(a := None), fb_faces := ?slots\<rparr>"
  have "release_face i st = Some ?st" using Some f(2) by (auto simp: release_face_def Let_def)
  moreover have "slots_own F ?st"
    using own a f(1) u s by (auto simp: slots_own_def)
  moreover have "\<forall>j<Suc i. fb_faces ?st ! j = None" using u len i before by (auto simp: less_Suc_eq)
  ultimately show ?thesis by (rule that)
qed

lemma release_faces_own:
  assumes "slots_own F st" "i \<le> FB_FACE_COUNT" "\<forall>j<i. fb_faces st ! j = None"
  shows "\<exists>st'. release_faces [i..<FB_FACE_COUNT] st = Some st' \<and> faces st' = F \<and> fb_faces st' = replicate FB_FACE_COUNT None"
  using assms
proof (induction "FB_FACE_COUNT - i" arbitrary: i st)
  case 0
  then have i: "i = FB_FACE_COUNT" by simp
  have none: "Some a \<notin> set (fb_faces st)" for a
    using 0 i slots_ownD(1) [OF 0(2)] by (auto simp: in_set_conv_nth)
  have "faces st = F" using slots_ownD(3) [OF 0(2) none] by blast
  moreover have "fb_faces st = replicate FB_FACE_COUNT None"
    using slots_ownD(1) [OF 0(2)] 0(4) i by (intro nth_equalityI) (auto simp: nth_replicate simp del: replicate.simps)
  ultimately show ?case using i by simp
next
  case (Suc d)
  then have i: "i < FB_FACE_COUNT" by simp
  obtain st1 where st1: "release_face i st = Some st1" "slots_own F st1" "\<forall>j<Suc i. fb_faces st1 ! j = None"
    by (rule release_face_own [OF Suc(3) i Suc(5)])
  have "d = FB_FACE_COUNT - Suc i" using Suc(2) by simp
  from Suc(1) [OF this st1(2) _ st1(3)] i st1(1) show ?case by (simp add: upt_conv_Cons)
qed

text \<open>Loading: a new face has a fresh address.\<close>

lemma new_face_cases:
  assumes "fb_new_face lib sfind option fontname st = Some (fb_face, st')"
  obtains (new) f where "fb_face = Some (next_face st)" "faces st' = (faces st)(next_face st \<mapsto> f)"
      "next_face st' = next_face st + 1" "fb_faces st' = fb_faces st"
  | (none) "fb_face = None" "faces st' = faces st" "next_face st' = next_face st + 1" "fb_faces st' = fb_faces st"
  using assms by (auto simp: fb_new_face_def Let_def split: prod.splits if_splits)

lemma set_slot:
  assumes "slots_own F st" "slot < FB_FACE_COUNT" "fb_faces st ! slot = None" "Some a \<in> set (fb_faces st)"
  shows "slots_own F (st\<lparr>fb_faces := (fb_faces st)[slot := Some a]\<rparr>)"
proof -
  have "Some b \<in> set ((fb_faces st)[slot := Some a]) \<longleftrightarrow> Some b \<in> set (fb_faces st)" for b
  proof
    assume "Some b \<in> set (fb_faces st)"
    then obtain k where k: "k < length (fb_faces st)" "fb_faces st ! k = Some b" by (auto simp: in_set_conv_nth)
    then have "k \<noteq> slot" using assms(3) by auto
    then have "(fb_faces st)[slot := Some a] ! k = Some b" using k by simp
    then show "Some b \<in> set ((fb_faces st)[slot := Some a])" using k(1) by (metis length_list_update nth_mem)
  qed (use set_update_subset_insert [of "fb_faces st" slot "Some a"] assms(4) in auto)
  then show ?thesis using assms(1) by (auto simp: slots_own_def)
qed

lemma add_face:
  assumes "slots_own F st" "fonts_fresh st" "slot < FB_FACE_COUNT" "fb_faces st ! slot = None"
    and "faces st' = (faces st)(next_face st \<mapsto> f)" "fb_faces st' = fb_faces st"
  shows "slots_own F (st'\<lparr>fb_faces := (fb_faces st)[slot := Some (next_face st)]\<rparr>)"
proof -
  let ?n = "next_face st"
  have "faces st ?n = None" using assms(2) by (auto simp: fonts_fresh_def)
  then have n: "Some ?n \<notin> set (fb_faces st)" "F ?n = None" using slots_ownD [OF assms(1)] by metis+
  have "Some b \<in> set ((fb_faces st)[slot := Some ?n]) \<longleftrightarrow> b = ?n \<or> Some b \<in> set (fb_faces st)" for b
  proof
    assume "b = ?n \<or> Some b \<in> set (fb_faces st)"
    then show "Some b \<in> set ((fb_faces st)[slot := Some ?n])"
    proof
      assume "b = ?n"
      then show ?thesis using assms(3) slots_ownD(1) [OF assms(1)] by (simp add: set_update_memI)
    next
      assume "Some b \<in> set (fb_faces st)"
      then obtain k where k: "k < length (fb_faces st)" "fb_faces st ! k = Some b" by (auto simp: in_set_conv_nth)
      then have "(fb_faces st)[slot := Some ?n] ! k = Some b" using assms(4) by (cases "k = slot") auto
      then show ?thesis using k(1) by (metis length_list_update nth_mem)
    qed
  qed (use set_update_subset_insert [of "fb_faces st" slot "Some ?n"] in auto)
  note s = this
  show ?thesis
  proof (rule slots_ownI)
    fix b assume "Some b \<in> set (fb_faces (st'\<lparr>fb_faces := (fb_faces st)[slot := Some ?n]\<rparr>))"
    then have "b = ?n \<or> Some b \<in> set (fb_faces st)" using s by simp
    then show "F b = None \<and> faces (st'\<lparr>fb_faces := (fb_faces st)[slot := Some ?n]\<rparr>) b \<noteq> None"
      using slots_ownD(2) [OF assms(1)] n(2) assms(5) by auto
  next
    fix b assume "Some b \<notin> set (fb_faces (st'\<lparr>fb_faces := (fb_faces st)[slot := Some ?n]\<rparr>))"
    then have "b \<noteq> ?n \<and> Some b \<notin> set (fb_faces st)" using s by simp
    then show "faces (st'\<lparr>fb_faces := (fb_faces st)[slot := Some ?n]\<rparr>) b = F b"
      using slots_ownD(3) [OF assms(1)] assms(5) by simp
  qed (use slots_ownD(1) [OF assms(1)] in simp)
qed

text \<open>The fallbacks are loaded before the slots that use them.\<close>

definition slots_ready :: "(nat \<times> nat) list \<Rightarrow> font_state \<Rightarrow> bool" where
  "slots_ready slots st \<longleftrightarrow> (\<forall>k<FB_FACE_COUNT. fb_faces st ! k = None \<longleftrightarrow> k \<in> fst ` set slots)"

lemma load_face_own:
  assumes "load_face lib sfind option fontname slot fallback st = Some st'"
    and own: "slots_own F st" "fonts_fresh st" and ready: "slots_ready ((slot, fallback) # slots) st"
    and "slot < FB_FACE_COUNT" "fallback < FB_FACE_COUNT" "slot \<notin> fst ` set slots" "fallback \<notin> insert slot (fst ` set slots)"
  shows "slots_own F st' \<and> fonts_fresh st' \<and> slots_ready slots st'"
proof -
  note len = slots_ownD(1) [OF own(1)]
  have none: "fb_faces st ! slot = None" and some: "fb_faces st ! fallback \<noteq> None"
    using ready assms(5-8) by (auto simp: slots_ready_def)
  obtain fb_face st1 where n: "fb_new_face lib sfind (option slot) (fontname slot) st = Some (fb_face, st1)"
    and st': "st' = st1\<lparr>fb_faces := (fb_faces st1)[slot := (case fb_face of None \<Rightarrow> fb_faces st1 ! fallback | Some a \<Rightarrow> Some a)]\<rparr>"
    using assms(1) by (auto simp: load_face_def)
  have rest: "slots_ready slots (st1\<lparr>fb_faces := (fb_faces st)[slot := Some a]\<rparr>)" for a
    using ready assms(5,7) len by (auto simp: slots_ready_def nth_list_update)
  from n show ?thesis
  proof (cases rule: new_face_cases)
    case (new f)
    then have "slots_own F st'" using add_face [OF own assms(5) none new(2,4)] st' by simp
    then show ?thesis using own(2) new rest st' by (auto simp: fonts_fresh_def)
  next
    case none': none
    obtain a where a: "fb_faces st ! fallback = Some a" using some by blast
    then have "Some a \<in> set (fb_faces st)" using len assms(6) by (metis nth_mem)
    from set_slot [OF own(1) assms(5) none this] have "slots_own F st'"
      by (rule slots_own_cong) (use none' a st' in simp_all)
    then show ?thesis using own(2) none' rest st' a by (auto simp: fonts_fresh_def)
  qed
qed

lemma load_faces_own:
  assumes "load_faces lib sfind option fontname slots st = Some st'" "slots_own F st" "fonts_fresh st" "slots_ready slots st"
    and "distinct (map fst slots)" "\<forall>(s, f)\<in>set slots. s < FB_FACE_COUNT \<and> f < FB_FACE_COUNT"
    and "\<forall>k<length slots. snd (slots ! k) \<notin> fst ` set (drop k slots)"
  shows "slots_own F st' \<and> slots_ready [] st'"
  using assms
proof (induction slots arbitrary: st)
  case (Cons sf slots)
  obtain s f where sf: "sf = (s, f)" by force
  obtain st1 where st1: "load_face lib sfind option fontname s f st = Some st1"
      "load_faces lib sfind option fontname slots st1 = Some st'"
    using Cons.prems(1) by (auto simp: sf split: bind_splits)
  have b: "s < FB_FACE_COUNT" "f < FB_FACE_COUNT" "s \<notin> fst ` set slots" using Cons.prems(5,6) by (auto simp: sf)
  have "f \<notin> insert s (fst ` set slots)" using Cons.prems(7) [rule_format, of 0] by (simp add: sf)
  from load_face_own [OF st1(1) Cons.prems(2,3) Cons.prems(4) [unfolded sf] b this]
  have o: "slots_own F st1" "fonts_fresh st1" "slots_ready slots st1" by auto
  have "\<forall>k<length slots. snd (slots ! k) \<notin> fst ` set (drop k slots)"
  proof (intro allI impI)
    fix k assume "k < length slots"
    then show "snd (slots ! k) \<notin> fst ` set (drop k slots)" using Cons.prems(7) [rule_format, of "Suc k"] by simp
  qed
  from Cons.IH [OF st1(2) o _ _ this] show ?case using Cons.prems(5,6) by auto
qed simp

lemma font_init_own:
  assumes "fb_font_init lib sfind option fontname monochrome st = Some (ok, st')"
    and "fb_faces st = replicate FB_FACE_COUNT None" "fonts_fresh st"
  shows "if ok then slots_own (faces st) st' \<and> slots_ready [] st' else faces st' = faces st \<and> fb_faces st' = fb_faces st"
proof (cases "ft_init_ok lib \<and> ft_manager_ok lib")
  case False
  then show ?thesis using assms(1) by (auto simp: fb_font_init_def split: if_splits)
next
  case True
  then obtain fb_face st1 where n: "fb_new_face lib sfind (option 0) (fontname 0) st = Some (fb_face, st1)"
    using assms(1) by (auto simp: fb_font_init_def split: bind_splits)
  have own: "slots_own (faces st) st" using assms(2) by (auto simp: slots_own_def)
  from n show ?thesis
  proof (cases rule: new_face_cases)
    case (new f)
    let ?st = "st1\<lparr>fb_faces := (fb_faces st)[0 := Some (next_face st)]\<rparr>"
    have none: "fb_faces st ! 0 = None" using assms(2) by simp
    have "slots_own (faces st) ?st"
      by (rule add_face [OF own assms(3) _ none new(2,4)]) simp
    moreover have "fonts_fresh ?st" using assms(3) new by (auto simp: fonts_fresh_def)
    moreover have "slots_ready optional_faces ?st"
      using assms(2) by (auto simp: slots_ready_def optional_faces_def nth_list_update nth_replicate simp del: replicate.simps)
    moreover obtain st2 where st2: "load_faces lib sfind option fontname optional_faces ?st = Some st2"
        "ok" "st' = st2\<lparr>ft_load_type := if monochrome then 4096 else 0\<rparr>"
      using assms(1) True n new by (auto simp: fb_font_init_def)
    moreover have "\<forall>k<length optional_faces. snd (optional_faces ! k) \<notin> fst ` set (drop k optional_faces)"
      by (simp add: optional_faces_def All_less_Suc numeral_eq_Suc)
    ultimately have "slots_own (faces st) st2 \<and> slots_ready [] st2"
      by (intro load_faces_own [OF st2(1)]) (simp_all add: optional_faces_def)
    then show ?thesis using st2(2,3) by (simp add: slots_own_def slots_ready_def)
  next
    case none
    then show ?thesis using assms(1) True n by (auto simp: fb_font_init_def)
  qed
qed

text \<open>
  C14.  The font faces are released exactly once each, although slots without a face of their
  own share one: after \<^verbatim>\<open>fb_font_init\<close> has succeeded every slot has a live face, and
  \<^verbatim>\<open>fb_font_finalise\<close> frees no face twice, leaves none allocated and empties the slots; when
  \<^verbatim>\<open>fb_font_init\<close> fails it has released what it allocated.
\<close>

theorem fb_font_faces_released:
  assumes "fb_font_init lib sfind option fontname monochrome st = Some (ok, st1)"
    and "fb_faces st = replicate FB_FACE_COUNT None" "fonts_fresh st"
  shows "if ok then (\<forall>k<FB_FACE_COUNT. \<exists>a f. fb_faces st1 ! k = Some a \<and> faces st1 a = Some f)
      \<and> (\<exists>st2. fb_font_finalise st1 = Some st2 \<and> faces st2 = faces st \<and> fb_faces st2 = fb_faces st)
    else faces st1 = faces st"
proof (cases ok)
  case True
  then have o: "slots_own (faces st) st1" "slots_ready [] st1" using font_init_own [OF assms] by auto
  have some: "fb_faces st1 ! k \<noteq> None" if "k < FB_FACE_COUNT" for k using o(2) that by (simp add: slots_ready_def)
  have "\<exists>a f. fb_faces st1 ! k = Some a \<and> faces st1 a = Some f" if k: "k < FB_FACE_COUNT" for k
  proof -
    obtain a where a: "fb_faces st1 ! k = Some a" using some [OF k] by blast
    then have "Some a \<in> set (fb_faces st1)" using slots_ownD(1) [OF o(1)] k by (metis nth_mem)
    then show ?thesis using slots_ownD(2) [OF o(1)] a by blast
  qed
  moreover have "\<exists>st2. fb_font_finalise st1 = Some st2 \<and> faces st2 = faces st \<and> fb_faces st2 = fb_faces st"
    using release_faces_own [OF o(1), of 0] assms(2) by (simp add: fb_font_finalise_def)
  ultimately show ?thesis using True by simp
qed (use font_init_own [OF assms] in simp)

definition example_freetype :: freetype where
  "example_freetype = \<lparr>ft_init_ok = True, ft_manager_ok = True,
     ft_new_face = (\<lambda>file index. if file = Some ''sans.ttf'' \<or> file = Some ''serif.ttf'' then Some (Some 7, [3, 7]) else None),
     ft_cmap_lookup = (\<lambda>face cidx ucs4. nat ucs4),
     ft_image_lookup = (\<lambda>scaler flags index. if index = 1 then None else Some \<lparr>gl_advance_x = 655360, gl_bitmap = None\<rparr>)\<rparr>"

definition example_fonts_at_start :: font_state where
  "example_fonts_at_start = \<lparr>faces = (\<lambda>_. None), next_face = 0, fb_faces = replicate FB_FACE_COUNT None, ft_load_type = 0, font_heap = []\<rparr>"

definition example_names :: "nat \<Rightarrow> string" where
  "example_names slot = (if slot = 0 then ''sans.ttf'' else if slot = 4 then ''serif.ttf'' else ''none.ttf'')"

lemma example_font_init:
  "\<exists>st. fb_font_init example_freetype id (\<lambda>_. None) example_names False example_fonts_at_start = Some (True, st)
     \<and> fb_faces st = [Some 0, Some 0, Some 0, Some 0, Some 4, Some 4, Some 0, Some 0, Some 0, Some 0]
     \<and> ft_load_type st = 0 \<and> faces st 0 = Some \<lparr>ff_fontfile = Some ''sans.ttf'', ff_index = 0, ff_cidx = 1\<rparr>"
  by (simp add: fb_font_init_def fb_new_face_def ft_face_requester_def load_face_def optional_faces_def
      example_freetype_def example_names_def example_fonts_at_start_def Let_def numeral_eq_Suc)

lemma fb_font_faces_released_witness:
  "\<exists>st st2. fb_font_init example_freetype id (\<lambda>_. None) example_names False example_fonts_at_start = Some (True, st)
     \<and> fb_font_finalise st = Some st2 \<and> faces st2 = (\<lambda>_. None)"
proof -
  obtain st where "fb_font_init example_freetype id (\<lambda>_. None) example_names False example_fonts_at_start = Some (True, st)"
    using example_font_init by blast
  moreover from fb_font_faces_released [OF this] have "\<exists>st2. fb_font_finalise st = Some st2 \<and> faces st2 = (\<lambda>_. None)"
    by (auto simp: example_fonts_at_start_def fonts_fresh_def)
  ultimately show ?thesis by blast
qed

section \<open>Measuring\<close>

text \<open>The face of a style is there; then what a character advances is its glyph's, or nothing.\<close>

definition style_ok :: "fonts \<Rightarrow> plot_font_style \<Rightarrow> bool" where
  "style_ok fn fstyle \<longleftrightarrow> (\<exists>a f. fb_faces (fn_state fn) ! selected_face fstyle = Some a \<and> faces (fn_state fn) a = Some f)"

definition glyph_of :: "fonts \<Rightarrow> plot_font_style \<Rightarrow> int \<Rightarrow> ft_glyph option" where
  "glyph_of fn fstyle ucs4 = (case fb_getglyph fn fstyle ucs4 of None \<Rightarrow> None | Some glyph \<Rightarrow> glyph)"

definition char_advance :: "fonts \<Rightarrow> plot_font_style \<Rightarrow> nat \<times> int \<Rightarrow> int" where
  "char_advance fn fstyle ch = (case glyph_of fn fstyle (snd ch) of None \<Rightarrow> 0 | Some g \<Rightarrow> advance_px g)"

lemma char_advance_simps [simp]:
  "glyph_of fn fstyle c = None \<Longrightarrow> char_advance fn fstyle (p, c) = 0"
  "glyph_of fn fstyle c = Some g \<Longrightarrow> char_advance fn fstyle (p, c) = advance_px g"
  by (simp_all add: char_advance_def)

abbreviation text_width :: "fonts \<Rightarrow> plot_font_style \<Rightarrow> (nat \<times> int) list \<Rightarrow> int" where
  "text_width fn fstyle cs \<equiv> sum_list (map (char_advance fn fstyle) cs)"

lemma selected_face_slot: "selected_face fstyle < FB_FACE_COUNT"
  by (simp add: selected_face_def split: plot_font_generic_family.splits)

lemma style_ok_glyph: "style_ok fn fstyle \<Longrightarrow> fb_getglyph fn fstyle ucs4 = Some (glyph_of fn fstyle ucs4)"
  by (auto simp: style_ok_def glyph_of_def fb_getglyph_def)

text \<open>A successful set-up gives every style its face.\<close>

lemma font_init_style_ok:
  assumes "fb_font_init lib sfind option fontname monochrome st = Some (True, fn_state fn)"
    and "fb_faces st = replicate FB_FACE_COUNT None" "fonts_fresh st"
  shows "style_ok fn fstyle"
proof -
  have o: "slots_own (faces st) (fn_state fn)" "slots_ready [] (fn_state fn)" using font_init_own [OF assms] by auto
  obtain a where a: "fb_faces (fn_state fn) ! selected_face fstyle = Some a"
    using o(2) selected_face_slot [of fstyle] by (auto simp: slots_ready_def)
  then have "Some a \<in> set (fb_faces (fn_state fn))"
    using slots_ownD(1) [OF o(1)] selected_face_slot [of fstyle] by (metis nth_mem)
  then show ?thesis using slots_ownD(2) [OF o(1)] a by (auto simp: style_ok_def)
qed

lemma width_loop_sum:
  assumes "style_ok fn fstyle"
  shows "chars_from (fn_utf8 fn) s pos cs \<Longrightarrow> width_loop fn fstyle s pos w = Some (w + text_width fn fstyle cs)"
proof (induction cs arbitrary: pos w)
  case Nil
  then show ?case by (subst width_loop.simps) simp
next
  case (Cons ch cs)
  obtain p c where ch: "ch = (p, c)" by force
  obtain n where n: "p = pos" "pos < length s" "c = utf8_to_ucs4 (fn_utf8 fn) (drop pos s)"
      "utf8_next (fn_utf8 fn) s pos = Some n" "chars_from (fn_utf8 fn) s n cs"
    using Cons.prems unfolding ch by (rule chars_from_ConsE)
  show ?case
    using n Cons.IH [OF n(5)] style_ok_glyph [OF assms, of c]
    by (subst width_loop.simps) (cases "glyph_of fn fstyle c"; simp add: ch)
qed

lemma font_width_sum:
  "style_ok fn fstyle \<Longrightarrow> chars_of (fn_utf8 fn) s cs \<Longrightarrow> fb_font_width fn fstyle s = Some (text_width fn fstyle cs)"
  by (simp add: fb_font_width_def width_loop_sum)

text \<open>Plotting, glyph by glyph, each where the width of the text in front of it says.\<close>

fun draw_chars :: "fonts \<Rightarrow> plot_font_style \<Rightarrow> int \<Rightarrow> int \<Rightarrow> (nat \<times> int) list \<Rightarrow> nsfb \<Rightarrow> nsfb" where
  "draw_chars fn fstyle x y [] nsfb = nsfb"
| "draw_chars fn fstyle x y (ch # cs) nsfb = draw_chars fn fstyle (x + char_advance fn fstyle ch) y cs
     (case glyph_of fn fstyle (snd ch) of None \<Rightarrow> nsfb | Some g \<Rightarrow> draw_glyph fstyle x y g nsfb)"

lemma plot_text_chars:
  assumes "style_ok fn fstyle"
  shows "chars_from (fn_utf8 fn) s pos cs \<Longrightarrow> plot_text_loop fn fstyle x y s pos nsfb = Some (draw_chars fn fstyle x y cs nsfb)"
proof (induction cs arbitrary: pos x nsfb)
  case Nil
  then show ?case by (subst plot_text_loop.simps) simp
next
  case (Cons ch cs)
  obtain p c where ch: "ch = (p, c)" by force
  obtain n where n: "p = pos" "pos < length s" "c = utf8_to_ucs4 (fn_utf8 fn) (drop pos s)"
      "utf8_next (fn_utf8 fn) s pos = Some n" "chars_from (fn_utf8 fn) s n cs"
    using Cons.prems unfolding ch by (rule chars_from_ConsE)
  show ?case
    using n Cons.IH [OF n(5)] style_ok_glyph [OF assms, of c]
    by (subst plot_text_loop.simps) (cases "glyph_of fn fstyle c"; simp add: ch)
qed

lemma draw_chars_append:
  "draw_chars fn fstyle x y (cs @ ds) nsfb = draw_chars fn fstyle (x + text_width fn fstyle cs) y ds (draw_chars fn fstyle x y cs nsfb)"
  by (induction cs arbitrary: x nsfb) (simp_all add: add.assoc)

text \<open>
  C15.  Drawn text stands where measuring says it does: however a string is cut in front of one
  of its characters, that character's glyph is drawn at the width of the text in front of it,
  over what that text has drawn, and the rest goes on at the advance of the glyph; the width
  of the string is the sum of the advances.
\<close>

theorem framebuffer_plot_text_measured:
  assumes "style_ok fn fstyle" "chars_of (fn_utf8 fn) s (pre @ (p, c) # post)" "glyph_of fn fstyle c = Some g"
  shows "framebuffer_plot_text fn fstyle x y s nsfb =
      Some (draw_chars fn fstyle (x + text_width fn fstyle pre + advance_px g) y post
        (draw_glyph fstyle (x + text_width fn fstyle pre) y g (draw_chars fn fstyle x y pre nsfb)))
    \<and> fb_font_width fn fstyle s = Some (text_width fn fstyle pre + advance_px g + text_width fn fstyle post)"
  using plot_text_chars [OF assms(1,2)] font_width_sum [OF assms(1,2)] assms(3)
  by (simp add: framebuffer_plot_text_def draw_chars_append)

definition example_fonts :: fonts where
  "example_fonts = \<lparr>fn_utf8 = ascii_utf8, fn_lib = example_freetype, fn_state = \<lparr>faces = [0 \<mapsto> \<lparr>ff_fontfile = Some ''sans.ttf'', ff_index = 0, ff_cidx = 1\<rparr>],
     next_face = 1, fb_faces = replicate FB_FACE_COUNT (Some 0), ft_load_type = 0, font_heap = []\<rparr>, fn_dpi = 90\<rparr>"

definition example_style :: plot_font_style where
  "example_style = \<lparr>st_family = PLOT_FONT_FAMILY_SANS_SERIF, st_size = 10240, st_weight = 400, st_flags = FONTF_NONE,
     st_background = 0, st_foreground = 0\<rparr>"

text \<open>In the example every character is ten pixels wide, except that the code 1 has no glyph.\<close>

lemma example_style_ok: "style_ok example_fonts example_style"
  by (simp add: style_ok_def example_fonts_def example_style_def selected_face_def)

lemma example_glyph: "glyph_of example_fonts example_style c = (if c = 1 then None else Some \<lparr>gl_advance_x = 655360, gl_bitmap = None\<rparr>)"
proof -
  have "nat c = 1 \<longleftrightarrow> c = 1" by auto
  then show ?thesis
    by (simp add: glyph_of_def fb_getglyph_def example_fonts_def example_style_def selected_face_def example_freetype_def)
qed

lemma example_advance: "char_advance example_fonts example_style (p, c) = (if c = 1 then 0 else 10)"
  by (simp add: char_advance_def example_glyph advance_px_def drop_bit_eq_div)

lemma example_chars: "chars_of (fn_utf8 example_fonts) [97, 32, 98] [(0, 97), (1, 32), (2, 98)]"
  by (simp add: example_fonts_def ascii_utf8_def utf8_to_ucs4_def utf8_next_def)

lemma framebuffer_plot_text_measured_witness: "fb_font_width example_fonts example_style [97, 32, 98] = Some 30"
  using framebuffer_plot_text_measured [OF example_style_ok, of "[97, 32, 98]" "[(0, 97)]" 1 32 "[(2, 98)]"] example_chars
  by (simp add: example_glyph example_advance advance_px_def drop_bit_eq_div)

section \<open>Positions\<close>

definition all_glyphs :: "fonts \<Rightarrow> plot_font_style \<Rightarrow> (nat \<times> int) list \<Rightarrow> bool" where
  "all_glyphs fn fstyle cs \<longleftrightarrow> (\<forall>ch\<in>set cs. \<exists>g. glyph_of fn fstyle (snd ch) = Some g \<and> 0 \<le> advance_px g)"

lemma all_glyphs_append [simp]: "all_glyphs fn fstyle (cs @ ds) \<longleftrightarrow> all_glyphs fn fstyle cs \<and> all_glyphs fn fstyle ds"
  by (simp add: all_glyphs_def ball_Un)

lemma text_width_nonneg: "all_glyphs fn fstyle cs \<Longrightarrow> 0 \<le> text_width fn fstyle cs"
  by (induction cs) (auto simp: all_glyphs_def char_advance_def)

text \<open>The edge behind the first character of what is left.\<close>

abbreviation next_edge :: "fonts \<Rightarrow> plot_font_style \<Rightarrow> int \<Rightarrow> (nat \<times> int) list \<Rightarrow> int" where
  "next_edge fn fstyle e cs \<equiv> e + text_width fn fstyle (take 1 cs)"

lemma position_loop_chars:
  assumes "style_ok fn fstyle"
  shows "chars_from (fn_utf8 fn) s pos cs \<Longrightarrow> all_glyphs fn fstyle cs \<Longrightarrow>
    \<exists>pre post. cs = pre @ post \<and> (pre = [] \<or> e + text_width fn fstyle pre \<le> x)
      \<and> (post = [] \<or> x < next_edge fn fstyle (e + text_width fn fstyle pre) post)
      \<and> position_loop fn fstyle s x pos e e = Some (start_of s post, next_edge fn fstyle (e + text_width fn fstyle pre) post, e + text_width fn fstyle pre)"
proof (induction cs arbitrary: pos e)
  case Nil
  then show ?case by (subst position_loop.simps) simp
next
  case (Cons ch cs)
  obtain p c where ch: "ch = (p, c)" by force
  obtain n where n: "p = pos" "pos < length s" "c = utf8_to_ucs4 (fn_utf8 fn) (drop pos s)"
      "utf8_next (fn_utf8 fn) s pos = Some n" "chars_from (fn_utf8 fn) s n cs"
    using Cons.prems(1) unfolding ch by (rule chars_from_ConsE)
  obtain g where g: "glyph_of fn fstyle c = Some g" using Cons.prems(2) by (auto simp: all_glyphs_def ch)
  note step = position_loop.simps [of fn fstyle s x pos] style_ok_glyph [OF assms, of c]
  show ?case
  proof (cases "e + advance_px g > x")
    case True
    then have "position_loop fn fstyle s x pos e e = Some (start_of s (ch # cs), next_edge fn fstyle e (ch # cs), e)"
      using n g step by (simp add: ch)
    then show ?thesis using True g by (intro exI [of _ "[]"] exI [of _ "ch # cs"]) (simp add: ch)
  next
    case False
    have "all_glyphs fn fstyle cs" using Cons.prems(2) by (simp add: all_glyphs_def)
    from Cons.IH [OF n(5) this, of "e + advance_px g"] obtain pre post where
      r: "cs = pre @ post" "pre = [] \<or> e + advance_px g + text_width fn fstyle pre \<le> x"
        "post = [] \<or> x < next_edge fn fstyle (e + advance_px g + text_width fn fstyle pre) post"
        "position_loop fn fstyle s x n (e + advance_px g) (e + advance_px g) =
           Some (start_of s post, next_edge fn fstyle (e + advance_px g + text_width fn fstyle pre) post, e + advance_px g + text_width fn fstyle pre)"
      by blast
    have "position_loop fn fstyle s x pos e e = position_loop fn fstyle s x n (e + advance_px g) (e + advance_px g)"
      using n g step False by simp
    then show ?thesis using r g False
      by (intro exI [of _ "ch # pre"] exI [of _ post]) (auto simp: ch add.assoc)
  qed
qed

lemma text_width_mono: "all_glyphs fn fstyle (cs @ ds) \<Longrightarrow> text_width fn fstyle cs \<le> text_width fn fstyle (cs @ ds)"
  by (simp add: text_width_nonneg)

text \<open>No edge lies strictly between the edges of one character.\<close>

lemma edges_outside:
  assumes "all_glyphs fn fstyle (pre @ post)"
  shows "text_width fn fstyle (take k (pre @ post)) \<le> text_width fn fstyle pre
    \<or> next_edge fn fstyle (text_width fn fstyle pre) post \<le> text_width fn fstyle (take k (pre @ post))"
proof (cases "k \<le> length pre")
  case True
  have "pre = take k pre @ drop k pre" by simp
  then have "text_width fn fstyle (take k pre) \<le> text_width fn fstyle pre"
    using assms text_width_mono [of fn fstyle "take k pre" "drop k pre"] by simp
  then show ?thesis using True by simp
next
  case False
  then have "k - length pre = 1 + (k - length pre - 1)" by simp
  then have "take (k - length pre) post = take 1 post @ take (k - length pre - 1) (drop 1 post)" by (metis take_add)
  then have t: "take k (pre @ post) = pre @ take 1 post @ take (k - length pre - 1) (drop 1 post)" using False by simp
  have "post = take 1 post @ drop 1 post" by simp
  then have "all_glyphs fn fstyle (take 1 post) \<and> all_glyphs fn fstyle (drop 1 post)" using assms by (metis all_glyphs_append)
  moreover from this have "all_glyphs fn fstyle (take (k - length pre - 1) (drop 1 post))"
    by (metis all_glyphs_append append_take_drop_id)
  ultimately have "text_width fn fstyle (take 1 post) \<le> text_width fn fstyle (take 1 post @ take (k - length pre - 1) (drop 1 post))"
    by (intro text_width_mono) simp
  then show ?thesis unfolding t by simp
qed

text \<open>
  C16.  Searching the position of a point in a text returns, when every character has a glyph,
  the start of the character the point lies in and the edge between characters that is nearest
  to the point.  The edge may be the one behind the character, so that the offset and the
  position returned need not belong together.
\<close>

theorem fb_font_position_nearest:
  assumes "style_ok fn fstyle" "chars_of (fn_utf8 fn) s cs" "all_glyphs fn fstyle cs"
  shows "\<exists>pre post actual_x. cs = pre @ post \<and> (pre = [] \<or> text_width fn fstyle pre \<le> x)
    \<and> (post = [] \<or> x < next_edge fn fstyle (text_width fn fstyle pre) post)
    \<and> fb_font_position fn fstyle s x = Some (start_of s post, actual_x)
    \<and> actual_x \<in> {text_width fn fstyle pre, next_edge fn fstyle (text_width fn fstyle pre) post}
    \<and> (\<forall>k. \<bar>actual_x - x\<bar> \<le> \<bar>text_width fn fstyle (take k cs) - x\<bar>)"
proof -
  obtain pre post where r: "cs = pre @ post" "pre = [] \<or> text_width fn fstyle pre \<le> x"
      "post = [] \<or> x < next_edge fn fstyle (text_width fn fstyle pre) post"
      "position_loop fn fstyle s x 0 0 0 = Some (start_of s post, next_edge fn fstyle (text_width fn fstyle pre) post, text_width fn fstyle pre)"
    using position_loop_chars [OF assms, of 0 x] by auto
  let ?a = "text_width fn fstyle pre" and ?b = "next_edge fn fstyle (text_width fn fstyle pre) post"
  let ?r = "if \<bar>?b - x\<bar> > \<bar>?a - x\<bar> then ?a else ?b"
  have "\<bar>?r - x\<bar> \<le> \<bar>text_width fn fstyle (take k cs) - x\<bar>" for k
  proof -
    let ?t = "text_width fn fstyle (take k cs)"
    have t: "?t \<le> ?a \<or> ?b \<le> ?t" using edges_outside [of fn fstyle pre post k] assms(3) r(1) by simp
    have "0 \<le> ?t" using assms(3) by (metis all_glyphs_append append_take_drop_id text_width_nonneg)
    moreover have "?t \<le> ?b" if "post = []" using edges_outside [of fn fstyle cs "[]" k] assms(3) r(1) that
      text_width_mono [of fn fstyle "take k cs" "drop k cs"] by simp
    ultimately show ?thesis using t r(2,3) by (cases "pre = []"; cases "post = []") auto
  qed
  moreover have "fb_font_position fn fstyle s x = Some (start_of s post, ?r)" by (simp add: fb_font_position_def r(4))
  ultimately show ?thesis using r(1-3)
    by (intro exI [of _ pre] exI [of _ post] exI [of _ ?r] conjI) simp_all
qed

lemma fb_font_position_nearest_witness:
  "fb_font_position example_fonts example_style [97, 32, 98] 18 = Some (1, 20)"
proof -
  have g: "all_glyphs example_fonts example_style [(0, 97), (1, 32), (2, 98)]"
    by (simp add: all_glyphs_def example_glyph advance_px_def drop_bit_eq_div)
  obtain pre post a where r: "[(0, 97), (1, 32), (2, 98)] = pre @ post" "pre = [] \<or> text_width example_fonts example_style pre \<le> 18"
      "post = [] \<or> 18 < next_edge example_fonts example_style (text_width example_fonts example_style pre) post"
      "fb_font_position example_fonts example_style [97, 32, 98] 18 = Some (start_of [97, 32, 98] post, a)"
      "\<forall>k. \<bar>a - 18\<bar> \<le> \<bar>text_width example_fonts example_style (take k [(0, 97), (1, 32), (2, 98)]) - 18\<bar>"
      "a \<in> {text_width example_fonts example_style pre, next_edge example_fonts example_style (text_width example_fonts example_style pre) post}"
    using fb_font_position_nearest [OF example_style_ok example_chars g, of 18] by blast
  have p: "pre = [(0, 97)]" "post = [(1, 32), (2, 98)]"
    using r(1-3) by (auto simp: Cons_eq_append_conv example_advance)
  then have "a = 20" using r(5) [rule_format, of 2] r(6) by (auto simp: example_advance)
  then show ?thesis using r(4) p by simp
qed

text \<open>
  C17.  A click in a text that has a character without a glyph can hang the browser: as soon as
  the search for the position reaches such a character it never returns, although measuring
  the same text does.
\<close>

theorem fb_font_position_hangs:
  assumes "style_ok fn fstyle" "chars_of (fn_utf8 fn) s (pre @ (p, c) # post)" "glyph_of fn fstyle c = None"
    and "all_glyphs fn fstyle pre" "text_width fn fstyle pre \<le> x"
  shows "fb_font_position fn fstyle s x = None \<and> (\<exists>width. fb_font_width fn fstyle s = Some width)"
proof -
  have stuck: False if l: "position_loop fn fstyle s x p e e' = Some r" and p: "p < length s" "c = utf8_to_ucs4 (fn_utf8 fn) (drop p s)" for p e e' r
  proof -
    have "\<not> (f = fn \<and> t = fstyle \<and> s' = s \<and> pos = p)" if "position_loop f t s' x' pos a b = Some r'" for f t s' x' pos a b r'
    proof (rule position_loop.raw_induct [where P = "\<lambda>f t s' x' pos a b r'. \<not> (f = fn \<and> t = fstyle \<and> s' = s \<and> pos = p)"
          and xa = "((((((f, t), s'), x'), pos), a), b)" and y = r', unfolded prod.case])
      fix loop f t s' x' pos a b r'
      assume IH: "\<And>f t s' x' pos a b r'. loop f t s' x' pos a b = Some r' \<Longrightarrow> \<not> (f = fn \<and> t = fstyle \<and> s' = s \<and> pos = p)"
        and eq: "(if pos < length s' then Option.bind (fb_getglyph f t (utf8_to_ucs4 (fn_utf8 f) (drop pos s'))) (\<lambda>glyph. case glyph of
            None \<Rightarrow> loop f t s' x' pos a b
          | Some g \<Rightarrow> if a + advance_px g > x' then Some (pos, a + advance_px g, b)
              else Option.bind (utf8_next (fn_utf8 f) s' pos) (\<lambda>n. loop f t s' x' n (a + advance_px g) (a + advance_px g)))
          else Some (pos, a, b)) = Some r'"
      show "\<not> (f = fn \<and> t = fstyle \<and> s' = s \<and> pos = p)"
      proof (intro notI, elim conjE)
        assume at: "f = fn" "t = fstyle" "s' = s" "pos = p"
        then have "loop f t s' x' pos a b = Some r'"
          using eq p assms(3) style_ok_glyph [OF assms(1), of c] by simp
        from IH [OF this] at show False by simp
      qed
    qed (rule that)
    from this [OF l] show False by simp
  qed
  have "chars_from (fn_utf8 fn) s pos (pre @ (p, c) # post) \<Longrightarrow> all_glyphs fn fstyle pre \<Longrightarrow> e + text_width fn fstyle pre \<le> x
      \<Longrightarrow> position_loop fn fstyle s x pos e e = None" for pos e
  proof (induction pre arbitrary: pos e)
    case Nil
    then have "p < length s" "c = utf8_to_ucs4 (fn_utf8 fn) (drop p s)" "pos = p" by auto
    then show ?case using stuck [of p e e] by (cases "position_loop fn fstyle s x p e e") auto
  next
    case (Cons ch pre)
    obtain q k where ch: "ch = (q, k)" by force
    obtain n where n: "q = pos" "pos < length s" "k = utf8_to_ucs4 (fn_utf8 fn) (drop pos s)"
        "utf8_next (fn_utf8 fn) s pos = Some n" "chars_from (fn_utf8 fn) s n (pre @ (p, c) # post)"
      using Cons.prems(1) unfolding ch append_Cons by (rule chars_from_ConsE)
    obtain g where g: "glyph_of fn fstyle k = Some g" using Cons.prems(2) by (auto simp: all_glyphs_def ch)
    have pre: "all_glyphs fn fstyle pre" using Cons.prems(2) by (simp add: all_glyphs_def)
    have le: "e + advance_px g + text_width fn fstyle pre \<le> x" using Cons.prems(3) g by (simp add: ch)
    then have "e + advance_px g \<le> x" using text_width_nonneg [OF pre] by simp
    then have "position_loop fn fstyle s x pos e e = position_loop fn fstyle s x n (e + advance_px g) (e + advance_px g)"
      using n g style_ok_glyph [OF assms(1), of k] by (subst position_loop.simps) simp
    then show ?case using Cons.IH [OF n(5) pre le] by simp
  qed
  from this [of 0 0] show ?thesis
    using assms font_width_sum [OF assms(1,2)] by (simp add: fb_font_position_def)
qed

lemma fb_font_position_hangs_witness:
  "fb_font_position example_fonts example_style [97, 1, 98] 15 = None"
proof -
  have c: "chars_of (fn_utf8 example_fonts) [97, 1, 98] ([(0, 97)] @ (1, 1) # [(2, 98)])"
    by (simp add: example_fonts_def ascii_utf8_def utf8_to_ucs4_def utf8_next_def)
  have g: "glyph_of example_fonts example_style 1 = None" "all_glyphs example_fonts example_style [(0, 97)]"
      "text_width example_fonts example_style [(0, 97)] \<le> 15"
    by (simp_all add: all_glyphs_def example_glyph example_advance advance_px_def drop_bit_eq_div)
  from fb_font_position_hangs [OF example_style_ok c g] show ?thesis by simp
qed

section \<open>Breaking lines\<close>

text \<open>Where a line may be broken: in front of a space that is not the first character, or at the end.\<close>

definition line_break :: "(nat \<times> int) list \<Rightarrow> nat \<Rightarrow> bool" where
  "line_break cs k \<longleftrightarrow> k = length cs \<or> 0 < k \<and> k < length cs \<and> snd (cs ! k) = 0x20"

abbreviation width_at :: "fonts \<Rightarrow> plot_font_style \<Rightarrow> (nat \<times> int) list \<Rightarrow> nat \<Rightarrow> int" where
  "width_at fn fstyle cs k \<equiv> text_width fn fstyle (take k cs)"

definition best_break :: "fonts \<Rightarrow> plot_font_style \<Rightarrow> (nat \<times> int) list \<Rightarrow> int \<Rightarrow> nat \<Rightarrow> bool" where
  "best_break fn fstyle cs x k \<longleftrightarrow> line_break cs k \<and>
     (if width_at fn fstyle cs k \<le> x then \<forall>j. line_break cs j \<and> width_at fn fstyle cs j \<le> x \<longrightarrow> j \<le> k
      else \<forall>j. line_break cs j \<longrightarrow> k \<le> j \<and> x < width_at fn fstyle cs j)"

lemma width_at_mono:
  assumes "all_glyphs fn fstyle cs" "i \<le> j"
  shows "width_at fn fstyle cs i \<le> width_at fn fstyle cs j"
proof -
  have t: "take j cs = take i cs @ take (j - i) (drop i cs)" using assms(2) by (metis le_add_diff_inverse take_add)
  have "cs = take j cs @ drop j cs" by simp
  then have "all_glyphs fn fstyle (take j cs)" using assms(1) by (metis all_glyphs_append)
  then show ?thesis unfolding t by (rule text_width_mono)
qed

lemma chars_from_positive:
  "parserutils_ok pu \<Longrightarrow> chars_from pu s pos cs \<Longrightarrow> 0 < pos \<Longrightarrow> (p, c) \<in> set cs \<Longrightarrow> 0 < p"
proof (induction cs arbitrary: pos)
  case (Cons ch cs)
  obtain q k where ch: "ch = (q, k)" by force
  obtain n where n: "q = pos" "pos < length s" "utf8_next pu s pos = Some n" "chars_from pu s n cs"
    using Cons.prems(2) unfolding ch by (rule chars_from_ConsE)
  have "pos < n" using utf8_next_forward [OF Cons.prems(1) n(2,3)] by simp
  then show ?case using Cons n ch by auto
qed simp

lemma chars_of_positive:
  assumes "parserutils_ok pu" "chars_of pu s cs" "0 < k" "k < length cs"
  shows "0 < fst (cs ! k)"
proof -
  obtain q c rest where cs: "cs = (q, c) # rest" using assms(4) by (cases cs) auto
  obtain n where n: "0 < length s" "utf8_next pu s 0 = Some n" "chars_from pu s n rest"
    using assms(2) unfolding cs by (rule chars_from_ConsE)
  have "0 < n" using utf8_next_forward [OF assms(1) n(1,2)] by simp
  moreover have "cs ! k \<in> set rest" using assms(3,4) by (simp add: cs nth_Cons')
  ultimately show ?thesis using chars_from_positive [OF assms(1) n(3)] by (metis prod.collapse)
qed

text \<open>What the loop remembers of the characters in front of index \<open>i\<close>.\<close>

definition space_seen :: "fonts \<Rightarrow> plot_font_style \<Rightarrow> (nat \<times> int) list \<Rightarrow> int \<Rightarrow> nat \<Rightarrow> int \<Rightarrow> nat \<Rightarrow> bool" where
  "space_seen fn fstyle cs x i sx si \<longleftrightarrow> si = 0 \<and> (\<forall>j<i. \<not> line_break cs j)
     \<or> (\<exists>k<i. k < length cs \<and> line_break cs k \<and> si = fst (cs ! k) \<and> si \<noteq> 0 \<and> sx = width_at fn fstyle cs k
          \<and> (\<forall>j. k < j \<and> j < i \<longrightarrow> \<not> line_break cs j) \<and> width_at fn fstyle cs i \<le> x)"

lemma best_break_at_end:
  assumes "space_seen fn fstyle cs x (length cs) sx si"
  shows "best_break fn fstyle cs x (length cs)"
  using assms by (auto simp: best_break_def space_seen_def line_break_def)

lemma best_break_overflow:
  assumes g: "all_glyphs fn fstyle cs" and over: "x < width_at fn fstyle cs (Suc i)"
    and k: "line_break cs k" "k \<le> i" "\<forall>j. k < j \<and> j \<le> i \<longrightarrow> \<not> line_break cs j"
    and fits: "width_at fn fstyle cs k \<le> x \<or> (\<forall>j<k. \<not> line_break cs j)"
  shows "best_break fn fstyle cs x k"
proof -
  have "j \<le> k" if "line_break cs j" "width_at fn fstyle cs j \<le> x" for j
  proof (rule ccontr)
    assume "\<not> j \<le> k"
    then have "Suc i \<le> j" using k(3) that(1) by (meson leI not_less_eq_eq)
    from width_at_mono [OF g this] over that(2) show False by simp
  qed
  moreover have "k \<le> j \<and> x < width_at fn fstyle cs j" if "line_break cs j" "\<not> width_at fn fstyle cs k \<le> x" for j
  proof -
    have "k \<le> j" using fits that by (meson not_le)
    then show ?thesis using width_at_mono [OF g, of k j] that(2) by simp
  qed
  ultimately show ?thesis using k(1) by (simp add: best_break_def)
qed

lemma split_loop_best:
  assumes "style_ok fn fstyle" "parserutils_ok (fn_utf8 fn)" "chars_of (fn_utf8 fn) s cs" "all_glyphs fn fstyle cs"
  shows "i \<le> length cs \<Longrightarrow> chars_from (fn_utf8 fn) s pos (drop i cs) \<Longrightarrow> space_seen fn fstyle cs x i sx si \<Longrightarrow>
    \<exists>k. best_break fn fstyle cs x k
      \<and> split_loop fn fstyle s x pos (width_at fn fstyle cs i) sx si = Some (start_of s (drop k cs), width_at fn fstyle cs k)"
proof (induction "length cs - i" arbitrary: i pos sx si)
  case 0
  then have "i = length cs" by simp
  then show ?case using 0 best_break_at_end [of fn fstyle cs x sx si]
    by (subst split_loop.simps) auto
next
  case (Suc d)
  then have i: "i < length cs" by simp
  obtain p c where ch: "cs ! i = (p, c)" by force
  then have di: "drop i cs = (p, c) # drop (Suc i) cs" using i by (metis Cons_nth_drop_Suc)
  obtain n where n: "p = pos" "pos < length s" "c = utf8_to_ucs4 (fn_utf8 fn) (drop pos s)"
      "utf8_next (fn_utf8 fn) s pos = Some n" "chars_from (fn_utf8 fn) s n (drop (Suc i) cs)"
    using Suc.prems(2) unfolding di by (rule chars_from_ConsE)
  have "(p, c) \<in> set cs" using ch i by (metis nth_mem)
  then obtain g where g: "glyph_of fn fstyle c = Some g" using assms(4) by (force simp: all_glyphs_def)
  have w: "width_at fn fstyle cs (Suc i) = width_at fn fstyle cs i + advance_px g"
    using ch g i by (simp add: take_Suc_conv_app_nth)
  define nx ni where "nx = (if c = 0x20 then width_at fn fstyle cs i else sx)" and "ni = (if c = 0x20 then p else si)"
  have step: "split_loop fn fstyle s x pos (width_at fn fstyle cs i) sx si =
      (if x < width_at fn fstyle cs (Suc i) \<and> ni \<noteq> 0 then Some (ni, nx)
       else split_loop fn fstyle s x n (width_at fn fstyle cs (Suc i)) nx ni)"
    using n g style_ok_glyph [OF assms(1), of c]
    by (subst split_loop.simps) (cases "c = 0x20"; cases "pos = 0"; simp add: Let_def w nx_def ni_def)
  have first: "p = 0 \<longleftrightarrow> i = 0"
  proof
    assume "p = 0"
    then show "i = 0" using chars_of_positive [OF assms(2,3) _ i] ch by (cases i) auto
  next
    assume "i = 0"
    then have "cs = (p, c) # drop 1 cs" using di by simp
    then show "p = 0" using assms(3) by (metis chars_from.simps(2))
  qed
  have brk: "line_break cs i \<longleftrightarrow> c = 0x20 \<and> p \<noteq> 0" using i ch first by (auto simp: line_break_def)
  show ?case
  proof (cases "x < width_at fn fstyle cs (Suc i) \<and> ni \<noteq> 0")
    case True
    have "\<exists>k\<le>i. line_break cs k \<and> k < length cs \<and> ni = fst (cs ! k) \<and> nx = width_at fn fstyle cs k \<and> (\<forall>j. k < j \<and> j \<le> i \<longrightarrow> \<not> line_break cs j)
        \<and> (width_at fn fstyle cs k \<le> x \<or> (\<forall>j<k. \<not> line_break cs j))"
    proof (cases "c = 0x20")
      case True
      then have "line_break cs i" using brk \<open>_ \<and> ni \<noteq> 0\<close> by (simp add: ni_def)
      moreover have "width_at fn fstyle cs i \<le> x \<or> (\<forall>j<i. \<not> line_break cs j)" using Suc.prems(3) by (auto simp: space_seen_def)
      ultimately show ?thesis using True i ch by (intro exI [of _ i]) (auto simp: nx_def ni_def)
    next
      case False
      then obtain k where k: "k < i" "line_break cs k" "k < length cs" "si = fst (cs ! k)" "sx = width_at fn fstyle cs k"
          "\<forall>j. k < j \<and> j < i \<longrightarrow> \<not> line_break cs j" "width_at fn fstyle cs i \<le> x"
        using Suc.prems(3) True by (auto simp: space_seen_def ni_def)
      have "width_at fn fstyle cs k \<le> x" using width_at_mono [OF assms(4), of k i] k(1,7) by simp
      moreover have "\<not> line_break cs i" using brk False by simp
      ultimately show ?thesis using k False by (intro exI [of _ k]) (auto simp: nx_def ni_def le_less)
    qed
    then obtain k where k: "k \<le> i" "line_break cs k" "k < length cs" "ni = fst (cs ! k)" "nx = width_at fn fstyle cs k"
        "\<forall>j. k < j \<and> j \<le> i \<longrightarrow> \<not> line_break cs j" "width_at fn fstyle cs k \<le> x \<or> (\<forall>j<k. \<not> line_break cs j)" by blast
    have "start_of s (drop k cs) = ni" using k(3,4) by (simp add: start_of_drop)
    then show ?thesis using best_break_overflow [OF assms(4) _ k(2,1,6,7)] True step k(5) by auto
  next
    case False
    have "space_seen fn fstyle cs x (Suc i) nx ni"
    proof (cases "ni = 0")
      case True
      then have "c \<noteq> 0x20 \<or> p = 0" "c = 0x20 \<or> si = 0" by (auto simp: ni_def split: if_splits)
      moreover have "i = 0 \<or> si = 0" using calculation first by auto
      ultimately have "\<forall>j<i. \<not> line_break cs j" using Suc.prems(3) by (auto simp: space_seen_def)
      then show ?thesis using True brk \<open>c \<noteq> 0x20 \<or> p = 0\<close> by (auto simp: space_seen_def less_Suc_eq)
    next
      case nz: False
      then have fits: "width_at fn fstyle cs (Suc i) \<le> x" using False by simp
      show ?thesis
      proof (cases "c = 0x20")
        case True
        then show ?thesis using nz brk fits i ch
          unfolding space_seen_def by (intro disjI2 exI [of _ i]) (auto simp: nx_def ni_def)
      next
        case c: False
        then obtain k where k: "k < i" "k < length cs" "line_break cs k" "si = fst (cs ! k)" "sx = width_at fn fstyle cs k"
            "\<forall>j. k < j \<and> j < i \<longrightarrow> \<not> line_break cs j"
          using Suc.prems(3) nz by (auto simp: space_seen_def ni_def)
        then show ?thesis using nz brk fits c
          unfolding space_seen_def by (intro disjI2 exI [of _ k]) (auto simp: nx_def ni_def less_Suc_eq)
      qed
    qed
    moreover have "d = length cs - Suc i" using Suc.hyps(2) by simp
    moreover have "split_loop fn fstyle s x pos (width_at fn fstyle cs i) sx si = split_loop fn fstyle s x n (width_at fn fstyle cs (Suc i)) nx ni"
      using step False by argo
    ultimately show ?thesis using Suc.hyps(1) [of "Suc i" n nx ni] i n(5) by simp
  qed
qed

text \<open>
  C13.  Line breaking keeps the contract of \<^verbatim>\<open>netsurf/layout.h\<close>: the break returned is the
  last one that fits the width, or the first one of all when none does, its position is the
  width of the text in front of it, and no line is left empty.
\<close>

theorem fb_font_split_best:
  assumes "style_ok fn fstyle" "parserutils_ok (fn_utf8 fn)" "chars_of (fn_utf8 fn) s cs" "all_glyphs fn fstyle cs" "s \<noteq> []"
  shows "\<exists>k offset. best_break fn fstyle cs x k \<and> offset = start_of s (drop k cs) \<and> offset \<noteq> 0
    \<and> fb_font_split fn fstyle s x = Some (offset, width_at fn fstyle cs k)"
proof -
  have "space_seen fn fstyle cs x 0 0 0" by (simp add: space_seen_def)
  then obtain k where k: "best_break fn fstyle cs x k"
      "split_loop fn fstyle s x 0 0 0 0 = Some (start_of s (drop k cs), width_at fn fstyle cs k)"
    using split_loop_best [OF assms(1-4), of 0 0 x 0 0] assms(3) by auto
  have "start_of s (drop k cs) \<noteq> 0"
  proof (cases "k < length cs")
    case True
    then have "0 < fst (cs ! k)" using k(1) chars_of_positive [OF assms(2,3)] by (auto simp: best_break_def line_break_def)
    then show ?thesis using True by (simp add: start_of_drop)
  qed (use assms(5) in simp)
  then show ?thesis using k by (auto simp: fb_font_split_def)
qed

lemma fb_font_split_best_witness: "fb_font_split example_fonts example_style [97, 32, 98] 25 = Some (1, 10)"
proof -
  let ?cs = "[(0, 97), (1, 32), (2, 98)] :: (nat \<times> int) list"
  have g: "all_glyphs example_fonts example_style ?cs"
    by (simp add: all_glyphs_def example_glyph advance_px_def drop_bit_eq_div)
  have u: "parserutils_ok (fn_utf8 example_fonts)" by (simp add: example_fonts_def ascii_utf8_ok)
  obtain k where k: "best_break example_fonts example_style ?cs 25 k"
      "fb_font_split example_fonts example_style [97, 32, 98] 25 = Some (start_of [97, 32, 98] (drop k ?cs), width_at example_fonts example_style ?cs k)"
    using fb_font_split_best [OF example_style_ok u example_chars g, of 25] by auto
  have b: "line_break ?cs 1" "line_break ?cs j \<Longrightarrow> j = 1 \<or> j = 3" for j
    by (auto simp: line_break_def nth_Cons' split: if_splits)
  have "k \<noteq> 3"
  proof
    assume "k = 3"
    then show False using k(1) b(1) by (simp add: best_break_def example_advance) (auto dest: spec [of _ 1])
  qed
  moreover have "line_break ?cs k" using k(1) by (simp add: best_break_def)
  ultimately have "k = 1" using b(2) by blast
  then show ?thesis using k(2) by (simp add: example_advance)
qed

end
