(* ===== verification/Fbtk.thy ===== *)
theory Fbtk
  imports Plot_Clip "HOL-Library.Monad_Syntax"
begin

text \<open>
  The widget toolkit of the framebuffer frontend (\<^verbatim>\<open>frontends/framebuffer/fbtk/fbtk.c\<close>,
  \<^verbatim>\<open>widget.h\<close>), and the cursor of libnsfb (\<^verbatim>\<open>libnsfb/src/cursor.c\<close>).  Widgets are records
  in a store, linked by their addresses; an address that is not in the store is not
  allocated, or free again.  An access to such a widget, a NULL pointer that is
  followed, and a walk along the links that does not end are the result \<^const>\<open>None\<close>.
\<close>

section \<open>Widgets\<close>

datatype fbtk_widgettype =
    FB_WIDGET_TYPE_ROOT | FB_WIDGET_TYPE_WINDOW | FB_WIDGET_TYPE_BITMAP | FB_WIDGET_TYPE_FILL
  | FB_WIDGET_TYPE_TEXT | FB_WIDGET_TYPE_HSCROLL | FB_WIDGET_TYPE_VSCROLL | FB_WIDGET_TYPE_USER

datatype fbtk_callback_type =
    FBTK_CBT_START | FBTK_CBT_SCROLLX | FBTK_CBT_SCROLLY | FBTK_CBT_CLICK | FBTK_CBT_INPUT
  | FBTK_CBT_POINTERMOVE | FBTK_CBT_POINTERLEAVE | FBTK_CBT_POINTERENTER | FBTK_CBT_REDRAW
  | FBTK_CBT_DESTROY | FBTK_CBT_USER | FBTK_CBT_STRIP_FOCUS | FBTK_CBT_END

type_synonym wid = nat

record widget_redraw =
  rd_child :: bool
  rd_needed :: bool
  rd_x :: int
  rd_y :: int
  rd_width :: int
  rd_height :: int

text \<open>A bitmap; the pixels are read by their index.\<close>

record fbtk_bitmap =
  bm_width :: int
  bm_height :: int
  bm_pixdata :: "int \<Rightarrow> nsfb_colour"
  bm_opaque :: bool
  bm_hot_x :: int
  bm_hot_y :: int

text \<open>
  A callback is a function and its context, here one value of type \<open>'cb\<close>.  The members of
  the union of \<^verbatim>\<open>struct fbtk_widget_s\<close>: a text widget and a scroll bar have records of
  their own, and a union that is still zero can be read as any of them.  The string of a
  text widget is its bytes, a terminating 0 included.
\<close>

record 'cb fbtk_text =
  tx_text :: "nat list option"
  tx_outline :: bool
  tx_all_selected :: bool
  tx_enter :: "'cb option"
  tx_idx :: int
  tx_len :: int
  tx_width :: int
  tx_idx_offset :: int

record fbtk_scroll =
  sc_minimum :: int
  sc_maximum :: int
  sc_thumb :: int
  sc_page :: int
  sc_position :: int
  sc_drag :: int
  sc_drag_position :: int
  sc_btnul :: "nat option"
  sc_btndr :: "nat option"

datatype 'cb widget_u =
  U_zero | U_bitmap "fbtk_bitmap option" | U_text "'cb fbtk_text" | U_scroll fbtk_scroll | U_user "'cb option"

record 'cb fbtk_widget =
  w_next :: "wid option"
  w_prev :: "wid option"
  w_parent :: "wid option"
  w_first_child :: "wid option"
  w_last_child :: "wid option"
  w_mapped :: bool
  w_x :: int
  w_y :: int
  w_width :: int
  w_height :: int
  w_bg :: nsfb_colour
  w_fg :: nsfb_colour
  w_callback :: "fbtk_callback_type \<Rightarrow> 'cb option"
  w_redraw :: widget_redraw
  w_type :: fbtk_widgettype
  w_u :: "'cb widget_u"

text \<open>The part of the root widget that only it has.\<close>

record 'cb fbtk_caret =
  caret_owner :: "wid option"
  caret_x :: int
  caret_y :: int
  caret_height :: int
  caret_remove_cb :: "'cb option"

record nsfb_cursor =
  cur_loc :: nsfb_bbox
  cur_bmp_width :: int
  cur_bmp_height :: int
  cur_bmp_stride :: int
  cur_hotspot_x :: int
  cur_hotspot_y :: int

text \<open>The state of the toolkit; \<open>tk_modifier\<close> holds the modifier keys that are down (a static of \<^verbatim>\<open>text.c\<close>).\<close>

record ('cb, 'w) toolkit =
  widgets :: "wid \<Rightarrow> 'cb fbtk_widget option"
  next_addr :: wid
  root_prev :: "wid option"
  root_grabbed :: "wid option"
  root_input :: "wid option"
  root_caret :: "'cb fbtk_caret"
  tk_nsfb :: nsfb
  tk_cursor :: "nsfb_cursor option"
  tk_heap :: heap
  tk_modifier :: int
  app :: 'w

text \<open>Reading and writing a widget.\<close>

definition upd_widget :: "wid \<Rightarrow> ('cb fbtk_widget \<Rightarrow> 'cb fbtk_widget) \<Rightarrow> ('cb, 'w) toolkit \<Rightarrow> ('cb, 'w) toolkit option" where
  "upd_widget w f st = (case widgets st w of None \<Rightarrow> None
     | Some r \<Rightarrow> Some (st\<lparr>widgets := (widgets st)(w \<mapsto> f r)\<rparr>))"

text \<open>Following a pointer that may be NULL.\<close>

definition upd_ptr :: "wid option \<Rightarrow> ('cb fbtk_widget \<Rightarrow> 'cb fbtk_widget) \<Rightarrow> ('cb, 'w) toolkit \<Rightarrow> ('cb, 'w) toolkit option" where
  "upd_ptr p f st = (case p of None \<Rightarrow> None | Some w \<Rightarrow> upd_widget w f st)"

section \<open>The cursor of the framebuffer\<close>

definition nsfb_cursor_init :: "('cb, 'w) toolkit \<Rightarrow> bool \<times> ('cb, 'w) toolkit" where
  "nsfb_cursor_init st =
     (if tk_cursor st \<noteq> None then (False, st)
      else let (ok, h) = alloc (tk_heap st); st = st\<lparr>tk_heap := h\<rparr> in
        if \<not> ok then (False, st)
        else (True, st\<lparr>tk_cursor := Some \<lparr>cur_loc = \<lparr>x0 = cdiv (nsfb_width (tk_nsfb st)) 2, y0 = cdiv (nsfb_height (tk_nsfb st)) 2,
            x1 = 0, y1 = 0\<rparr>, cur_bmp_width = 0, cur_bmp_height = 0, cur_bmp_stride = 0, cur_hotspot_x = 0, cur_hotspot_y = 0\<rparr>\<rparr>))"

text \<open>
  The cursor routine of the surface is the default one of \<^verbatim>\<open>surface.c\<close>, which does
  nothing and returns 0.
\<close>

definition nsfb_cursor_set :: "int \<Rightarrow> int \<Rightarrow> int \<Rightarrow> int \<Rightarrow> int \<Rightarrow> ('cb, 'w) toolkit \<Rightarrow> bool \<times> ('cb, 'w) toolkit" where
  "nsfb_cursor_set bmp_width bmp_height bmp_stride hotspot_x hotspot_y st = (case tk_cursor st of
     None \<Rightarrow> (False, st)
   | Some c \<Rightarrow> let loc = cur_loc c in (False, st\<lparr>tk_cursor := Some (c\<lparr>cur_bmp_width := bmp_width, cur_bmp_height := bmp_height,
       cur_bmp_stride := bmp_stride, cur_loc := loc\<lparr>x1 := x0 loc + bmp_width, y1 := y0 loc + bmp_height\<rparr>,
       cur_hotspot_x := hotspot_x, cur_hotspot_y := hotspot_y\<rparr>)\<rparr>))"

definition nsfb_cursor_loc_set :: "nsfb_bbox \<Rightarrow> ('cb, 'w) toolkit \<Rightarrow> bool \<times> ('cb, 'w) toolkit" where
  "nsfb_cursor_loc_set loc st = (case tk_cursor st of
     None \<Rightarrow> (False, st)
   | Some c \<Rightarrow> (False, st\<lparr>tk_cursor := Some (c\<lparr>cur_loc :=
       loc\<lparr>x1 := x0 loc + cur_bmp_width c, y1 := y0 loc + cur_bmp_height c\<rparr>\<rparr>)\<rparr>))"

definition nsfb_cursor_loc_get :: "('cb, 'w) toolkit \<Rightarrow> nsfb_bbox option" where
  "nsfb_cursor_loc_get st = map_option cur_loc (tk_cursor st)"

section \<open>Callbacks\<close>

text \<open>
  What a callback is given; a field that the posting code leaves uninitialised is
  \<^const>\<open>None\<close>.  \<open>'ev\<close> is the type of events.
\<close>

record 'ev fbtk_callback_info =
  cbi_type :: fbtk_callback_type
  cbi_event :: "'ev option"
  cbi_x :: "int option"
  cbi_y :: "int option"

definition callback_info :: "fbtk_callback_type \<Rightarrow> 'ev option \<Rightarrow> int option \<Rightarrow> int option \<Rightarrow> 'ev fbtk_callback_info" where
  "callback_info cbt event x y = (case cbt of
       FBTK_CBT_SCROLLX \<Rightarrow> \<lparr>cbi_type = cbt, cbi_event = None, cbi_x = x, cbi_y = None\<rparr>
     | FBTK_CBT_SCROLLY \<Rightarrow> \<lparr>cbi_type = cbt, cbi_event = None, cbi_x = None, cbi_y = y\<rparr>
     | FBTK_CBT_CLICK \<Rightarrow> \<lparr>cbi_type = cbt, cbi_event = event, cbi_x = x, cbi_y = y\<rparr>
     | FBTK_CBT_INPUT \<Rightarrow> \<lparr>cbi_type = cbt, cbi_event = event, cbi_x = None, cbi_y = None\<rparr>
     | FBTK_CBT_POINTERMOVE \<Rightarrow> \<lparr>cbi_type = cbt, cbi_event = None, cbi_x = x, cbi_y = y\<rparr>
     | _ \<Rightarrow> \<lparr>cbi_type = cbt, cbi_event = None, cbi_x = None, cbi_y = None\<rparr>)"

text \<open>What the callbacks do is a parameter.\<close>

type_synonym ('cb, 'ev, 'w) handler =
  "'cb \<Rightarrow> wid \<Rightarrow> 'ev fbtk_callback_info \<Rightarrow> ('cb, 'w) toolkit \<Rightarrow> (int \<times> ('cb, 'w) toolkit) option"

definition fbtk_post_callback ::
  "('cb, 'ev, 'w) handler \<Rightarrow> wid option \<Rightarrow> fbtk_callback_type \<Rightarrow> 'ev option \<Rightarrow> int option \<Rightarrow> int option \<Rightarrow>
   ('cb, 'w) toolkit \<Rightarrow> (int \<times> ('cb, 'w) toolkit) option" where
  "fbtk_post_callback handler widget cbt event x y st = (case widget of
     None \<Rightarrow> Some (- 1, st)
   | Some w \<Rightarrow> do {
       r \<leftarrow> widgets st w;
       if \<not> w_mapped r then Some (0, st)
       else case w_callback r cbt of
         None \<Rightarrow> Some (0, st)
       | Some cb \<Rightarrow> handler cb w (callback_info cbt event x y) st })"

definition callback_in_range :: "fbtk_callback_type \<Rightarrow> bool" where
  "callback_in_range cbt \<longleftrightarrow> cbt \<noteq> FBTK_CBT_START \<and> cbt \<noteq> FBTK_CBT_END"

definition fbtk_get_handler :: "wid \<Rightarrow> fbtk_callback_type \<Rightarrow> ('cb, 'w) toolkit \<Rightarrow> 'cb option option" where
  "fbtk_get_handler w cbt st =
     (if \<not> callback_in_range cbt then Some None else do { r \<leftarrow> widgets st w; Some (w_callback r cbt) })"

definition fbtk_set_handler ::
  "wid \<Rightarrow> fbtk_callback_type \<Rightarrow> 'cb option \<Rightarrow> ('cb, 'w) toolkit \<Rightarrow> ('cb option \<times> ('cb, 'w) toolkit) option" where
  "fbtk_set_handler w cbt cb st =
     (if \<not> callback_in_range cbt then Some (None, st)
      else do {
        r \<leftarrow> widgets st w;
        st \<leftarrow> upd_widget w (\<lambda>r. r\<lparr>w_callback := (w_callback r)(cbt := cb)\<rparr>) st;
        Some (w_callback r cbt, st) })"

section \<open>Walking up\<close>

text \<open>The result of \<^verbatim>\<open>fbtk_get_root_widget\<close> may be NULL; nearly every caller follows it.\<close>

partial_function (option) root_or_null :: "('cb, 'w) toolkit \<Rightarrow> wid \<Rightarrow> wid option option" where
  "root_or_null st w = (case widgets st w of
     None \<Rightarrow> None
   | Some r \<Rightarrow> (case w_parent r of
       None \<Rightarrow> Some (if w_type r = FB_WIDGET_TYPE_ROOT then Some w else None)
     | Some p \<Rightarrow> root_or_null st p))"

definition fbtk_get_root_widget :: "('cb, 'w) toolkit \<Rightarrow> wid \<Rightarrow> wid option" where
  "fbtk_get_root_widget st w = do { root \<leftarrow> root_or_null st w; root }"

lemma fbtk_get_root_widget_simps:
  "fbtk_get_root_widget st w = (case widgets st w of
     None \<Rightarrow> None
   | Some r \<Rightarrow> (case w_parent r of
       None \<Rightarrow> if w_type r = FB_WIDGET_TYPE_ROOT then Some w else None
     | Some p \<Rightarrow> fbtk_get_root_widget st p))"
  unfolding fbtk_get_root_widget_def by (subst root_or_null.simps) (simp split: option.splits)

lemma root_or_null_root: "fbtk_get_root_widget st w = Some root \<Longrightarrow> root_or_null st w = Some (Some root)"
  by (cases "root_or_null st w") (auto simp: fbtk_get_root_widget_def)

partial_function (option) add_up :: "('cb fbtk_widget \<Rightarrow> int) \<Rightarrow> ('cb, 'w) toolkit \<Rightarrow> wid option \<Rightarrow> int \<Rightarrow> int option" where
  "add_up coord st p acc = (case p of
     None \<Rightarrow> Some acc
   | Some w \<Rightarrow> (case widgets st w of
       None \<Rightarrow> None | Some r \<Rightarrow> add_up coord st (w_parent r) (acc + coord r)))"

definition fbtk_get_absx :: "('cb, 'w) toolkit \<Rightarrow> wid \<Rightarrow> int option" where
  "fbtk_get_absx st w = do { r \<leftarrow> widgets st w; add_up w_x st (w_parent r) (w_x r) }"

definition fbtk_get_absy :: "('cb, 'w) toolkit \<Rightarrow> wid \<Rightarrow> int option" where
  "fbtk_get_absy st w = do { r \<leftarrow> widgets st w; add_up w_y st (w_parent r) (w_y r) }"

definition fbtk_get_height :: "('cb, 'w) toolkit \<Rightarrow> wid \<Rightarrow> int option" where
  "fbtk_get_height st w = do { r \<leftarrow> widgets st w; Some (w_height r) }"

definition fbtk_get_width :: "('cb, 'w) toolkit \<Rightarrow> wid \<Rightarrow> int option" where
  "fbtk_get_width st w = do { r \<leftarrow> widgets st w; Some (w_width r) }"

text \<open>The loop of \<^verbatim>\<open>fbtk_get_bbox\<close> moves all four coordinates.\<close>

partial_function (option) shift_up :: "('cb, 'w) toolkit \<Rightarrow> wid option \<Rightarrow> nsfb_bbox \<Rightarrow> nsfb_bbox option" where
  "shift_up st p bbox = (case p of
     None \<Rightarrow> Some bbox
   | Some w \<Rightarrow> (case widgets st w of
       None \<Rightarrow> None
     | Some r \<Rightarrow> shift_up st (w_parent r)
         \<lparr>x0 = x0 bbox + w_x r, y0 = y0 bbox + w_y r, x1 = x1 bbox + w_x r, y1 = y1 bbox + w_y r\<rparr>))"

definition fbtk_get_bbox :: "('cb, 'w) toolkit \<Rightarrow> wid \<Rightarrow> nsfb_bbox option" where
  "fbtk_get_bbox st w = do {
     r \<leftarrow> widgets st w;
     shift_up st (w_parent r) \<lparr>x0 = w_x r, y0 = w_y r, x1 = w_x r + w_width r, y1 = w_y r + w_height r\<rparr> }"

text \<open>Is the widget, and everything it is in, mapped?\<close>

partial_function (option) mapped_up :: "('cb, 'w) toolkit \<Rightarrow> wid option \<Rightarrow> bool option" where
  "mapped_up st p = (case p of
     None \<Rightarrow> Some True
   | Some w \<Rightarrow> (case widgets st w of
       None \<Rightarrow> None | Some r \<Rightarrow> if \<not> w_mapped r then Some False else mapped_up st (w_parent r)))"

section \<open>Finding the widget at a point\<close>

definition covers :: "'cb fbtk_widget \<Rightarrow> int \<Rightarrow> int \<Rightarrow> bool" where
  "covers r x y \<longleftrightarrow> w_mapped r \<and> x \<ge> w_x r \<and> y \<ge> w_y r \<and> x < w_x r + w_width r \<and> y < w_y r + w_height r"

partial_function (option) widget_at_loop ::
  "('cb, 'w) toolkit \<Rightarrow> wid option \<Rightarrow> int \<Rightarrow> int \<Rightarrow> wid option \<Rightarrow> wid option option" where
  "widget_at_loop st nwid x y found = (case nwid of
     None \<Rightarrow> Some found
   | Some w \<Rightarrow> (case widgets st w of
       None \<Rightarrow> None
     | Some r \<Rightarrow>
         if covers r x y then widget_at_loop st (w_first_child r) (x - w_x r) (y - w_y r) (Some w)
         else widget_at_loop st (w_next r) x y found))"

definition fbtk_get_widget_at :: "('cb, 'w) toolkit \<Rightarrow> wid \<Rightarrow> int \<Rightarrow> int \<Rightarrow> wid option option" where
  "fbtk_get_widget_at st w x y = do { nwid \<leftarrow> root_or_null st w; widget_at_loop st nwid x y None }"

section \<open>Asking for a redraw\<close>

definition whole_redraw :: "'cb fbtk_widget \<Rightarrow> 'cb fbtk_widget" where
  "whole_redraw r = r\<lparr>w_redraw := (w_redraw r)\<lparr>rd_needed := True, rd_x := 0, rd_y := 0,
     rd_width := w_width r, rd_height := w_height r\<rparr>\<rparr>"

definition flag_child :: "bool \<Rightarrow> 'cb fbtk_widget \<Rightarrow> 'cb fbtk_widget" where
  "flag_child b r = r\<lparr>w_redraw := (w_redraw r)\<lparr>rd_child := b\<rparr>\<rparr>"

partial_function (option) flag_up :: "wid option \<Rightarrow> ('cb, 'w) toolkit \<Rightarrow> ('cb, 'w) toolkit option" where
  "flag_up p st = (case p of
     None \<Rightarrow> Some st
   | Some w \<Rightarrow> (case widgets st w of
       None \<Rightarrow> None
     | Some r \<Rightarrow> flag_up (w_parent r) (st\<lparr>widgets := (widgets st)(w \<mapsto> flag_child True r)\<rparr>)))"

text \<open>The children, from the last to the first, each with its own children.\<close>

partial_function (option) request_children :: "wid option \<Rightarrow> ('cb, 'w) toolkit \<Rightarrow> ('cb, 'w) toolkit option" where
  "request_children cwidget st = (case cwidget of
     None \<Rightarrow> Some st
   | Some c \<Rightarrow> do {
       m \<leftarrow> mapped_up st (Some c);
       st \<leftarrow> (if \<not> m then Some st
         else do {
           st \<leftarrow> upd_widget c whole_redraw st;
           r \<leftarrow> widgets st c;
           st \<leftarrow> request_children (w_last_child r) st;
           flag_up (w_parent r) st });
       r \<leftarrow> widgets st c;
       request_children (w_prev r) st })"

definition fbtk_request_redraw :: "wid option \<Rightarrow> ('cb, 'w) toolkit \<Rightarrow> ('cb, 'w) toolkit option" where
  "fbtk_request_redraw widget st = do {
     w \<leftarrow> widget;
     m \<leftarrow> mapped_up st (Some w);
     if \<not> m then Some st
     else do {
       st \<leftarrow> upd_widget w whole_redraw st;
       r \<leftarrow> widgets st w;
       st \<leftarrow> request_children (w_last_child r) st;
       flag_up (w_parent r) st } }"

definition fbtk_set_mapping :: "wid \<Rightarrow> bool \<Rightarrow> ('cb, 'w) toolkit \<Rightarrow> ('cb, 'w) toolkit option" where
  "fbtk_set_mapping w mapped st = do {
     st \<leftarrow> upd_widget w (\<lambda>r. r\<lparr>w_mapped := mapped\<rparr>) st;
     r \<leftarrow> widgets st w;
     fbtk_request_redraw (if mapped then Some w else w_parent r) st }"

definition fbtk_get_redraw_pending :: "('cb, 'w) toolkit \<Rightarrow> wid \<Rightarrow> bool option" where
  "fbtk_get_redraw_pending st w = do {
     root \<leftarrow> fbtk_get_root_widget st w;
     r \<leftarrow> widgets st root;
     Some (rd_needed (w_redraw r) \<or> rd_child (w_redraw r)) }"

section \<open>Redrawing\<close>

text \<open>The widget itself: its callback is posted if some of it is on the screen.\<close>

definition redraw_self :: "('cb, 'ev, 'w) handler \<Rightarrow> wid \<Rightarrow> ('cb, 'w) toolkit \<Rightarrow> ('cb, 'w) toolkit option" where
  "redraw_self handler w st = do {
     r \<leftarrow> widgets st w;
     if rd_needed (w_redraw r) then do {
       absx \<leftarrow> fbtk_get_absx st w;
       absy \<leftarrow> fbtk_get_absy st w;
       let left = absx + rd_x (w_redraw r);
       let top = absy + rd_y (w_redraw r);
       let plot_ctx = \<lparr>x0 = left, y0 = top, x1 = left + rd_width (w_redraw r), y1 = top + rd_height (w_redraw r)\<rparr>;
       let (shown, plot_ctx, nsfb) = set_clip (tk_nsfb st) (Some plot_ctx);
       let st = st\<lparr>tk_nsfb := nsfb\<rparr>;
       st \<leftarrow> (if shown then map_option snd (fbtk_post_callback handler (Some w) FBTK_CBT_REDRAW None None None st) else Some st);
       upd_widget w (\<lambda>r. r\<lparr>w_redraw := (w_redraw r)\<lparr>rd_needed := False\<rparr>\<rparr>) st }
     else Some st }"

partial_function (option) redraw_children ::
  "('cb, 'ev, 'w) handler \<Rightarrow> wid option \<Rightarrow> ('cb, 'w) toolkit \<Rightarrow> ('cb, 'w) toolkit option" where
  "redraw_children handler cwidget st = (case cwidget of
     None \<Rightarrow> Some st
   | Some c \<Rightarrow> do {
       st \<leftarrow> redraw_self handler c st;
       r \<leftarrow> widgets st c;
       st \<leftarrow> (if rd_child (w_redraw r) then do {
           st \<leftarrow> redraw_children handler (w_last_child r) st;
           upd_widget c (flag_child False) st }
         else Some st);
       r \<leftarrow> widgets st c;
       redraw_children handler (w_prev r) st })"

definition do_redraw :: "('cb, 'ev, 'w) handler \<Rightarrow> wid \<Rightarrow> ('cb, 'w) toolkit \<Rightarrow> ('cb, 'w) toolkit option" where
  "do_redraw handler w st = do {
     st \<leftarrow> redraw_self handler w st;
     r \<leftarrow> widgets st w;
     if rd_child (w_redraw r) then do {
       st \<leftarrow> redraw_children handler (w_last_child r) st;
       upd_widget w (flag_child False) st }
     else Some st }"

definition fbtk_redraw :: "('cb, 'ev, 'w) handler \<Rightarrow> wid \<Rightarrow> ('cb, 'w) toolkit \<Rightarrow> ('cb, 'w) toolkit option" where
  "fbtk_redraw handler w st = do { root \<leftarrow> fbtk_get_root_widget st w; do_redraw handler root st }"

section \<open>The hierarchy\<close>

text \<open>Swapping a widget with its next sibling; the writes in the order of the source.\<close>

definition swap_siblings :: "wid \<Rightarrow> ('cb, 'w) toolkit \<Rightarrow> ('cb, 'w) toolkit option" where
  "swap_siblings lw st = do {
     l \<leftarrow> widgets st lw;
     rw \<leftarrow> w_next l;
     r \<leftarrow> widgets st rw;
     let before = w_prev l;
     let after = w_next r;
     st \<leftarrow> (case before of
         None \<Rightarrow> upd_ptr (w_parent l) (\<lambda>p. p\<lparr>w_first_child := Some rw\<rparr>) st
       | Some b \<Rightarrow> upd_widget b (\<lambda>b. b\<lparr>w_next := Some rw\<rparr>) st);
     st \<leftarrow> upd_widget rw (\<lambda>r. r\<lparr>w_prev := before, w_next := Some lw\<rparr>) st;
     st \<leftarrow> (case after of
         None \<Rightarrow> upd_ptr (w_parent r) (\<lambda>p. p\<lparr>w_last_child := Some lw\<rparr>) st
       | Some a \<Rightarrow> upd_widget a (\<lambda>a. a\<lparr>w_prev := Some lw\<rparr>) st);
     upd_widget lw (\<lambda>l. l\<lparr>w_next := after, w_prev := Some rw\<rparr>) st }"

function fbtk_set_zorder :: "wid \<Rightarrow> int \<Rightarrow> ('cb, 'w) toolkit \<Rightarrow> (int \<times> ('cb, 'w) toolkit) option" where
  "fbtk_set_zorder w z st =
     (if z = 0 then Some (0, st)
      else case widgets st w of
        None \<Rightarrow> None
      | Some r \<Rightarrow>
          if z < 0 then (case w_prev r of
              None \<Rightarrow> Some (z, st)
            | Some p \<Rightarrow> (case swap_siblings p st of None \<Rightarrow> None | Some st \<Rightarrow> fbtk_set_zorder w (z + 1) st))
          else (case w_next r of
              None \<Rightarrow> Some (z, st)
            | Some _ \<Rightarrow> (case swap_siblings w st of None \<Rightarrow> None | Some st \<Rightarrow> fbtk_set_zorder w (z - 1) st)))"
  by pat_completeness auto
termination by (relation "measure (\<lambda>(w, z, st). nat \<bar>z\<bar>)") auto

declare fbtk_set_zorder.simps [simp del]

text \<open>An extent that fits inside the parent; 0 is the largest, negative is relative to it.\<close>

definition fit_extent :: "int \<Rightarrow> int \<Rightarrow> int \<Rightarrow> int" where
  "fit_extent outer pos extent = (let
     extent = (if extent = 0 then outer - pos else if extent < 0 then outer + extent - pos else extent)
   in if extent + pos > outer then outer - pos else extent)"

definition fbtk_set_pos_and_size ::
  "wid \<Rightarrow> int \<Rightarrow> int \<Rightarrow> int \<Rightarrow> int \<Rightarrow> ('cb, 'w) toolkit \<Rightarrow> (bool \<times> ('cb, 'w) toolkit) option" where
  "fbtk_set_pos_and_size w x y width height st = do {
     r \<leftarrow> widgets st w;
     (width, height) \<leftarrow> (case w_parent r of
         None \<Rightarrow> Some (width, height)
       | Some p \<Rightarrow> do { parent \<leftarrow> widgets st p;
           Some (fit_extent (w_width parent) x width, fit_extent (w_height parent) y height) });
     if w_x r \<noteq> x \<or> w_y r \<noteq> y \<or> w_width r \<noteq> width \<or> w_height r \<noteq> height then
       map_option (Pair True) (upd_widget w (\<lambda>r. r\<lparr>w_x := x, w_y := y, w_width := width, w_height := height\<rparr>) st)
     else Some (False, st) }"

text \<open>\<^verbatim>\<open>calloc\<close> gives a fresh address and a widget of zeros.\<close>

definition zero_widget :: "'cb fbtk_widget" where
  "zero_widget = \<lparr>w_next = None, w_prev = None, w_parent = None, w_first_child = None, w_last_child = None,
     w_mapped = False, w_x = 0, w_y = 0, w_width = 0, w_height = 0, w_bg = 0, w_fg = 0, w_callback = (\<lambda>_. None),
     w_redraw = \<lparr>rd_child = False, rd_needed = False, rd_x = 0, rd_y = 0, rd_width = 0, rd_height = 0\<rparr>,
     w_type = FB_WIDGET_TYPE_ROOT, w_u = U_zero\<rparr>"

definition calloc_widget :: "('cb, 'w) toolkit \<Rightarrow> wid option \<times> ('cb, 'w) toolkit" where
  "calloc_widget st = (let (ok, h) = alloc (tk_heap st); st = st\<lparr>tk_heap := h\<rparr>; a = next_addr st in
     if ok then (Some a, st\<lparr>widgets := (widgets st)(a \<mapsto> zero_widget), next_addr := a + 1\<rparr>) else (None, st))"

definition fbtk_widget_new ::
  "wid option \<Rightarrow> fbtk_widgettype \<Rightarrow> int \<Rightarrow> int \<Rightarrow> int \<Rightarrow> int \<Rightarrow> ('cb, 'w) toolkit \<Rightarrow> (wid option \<times> ('cb, 'w) toolkit) option" where
  "fbtk_widget_new parent type x y width height st = (case parent of
     None \<Rightarrow> Some (None, st)
   | Some p \<Rightarrow> (case calloc_widget st of
       (None, st) \<Rightarrow> Some (None, st)
     | (Some neww, st) \<Rightarrow> do {
         pr \<leftarrow> widgets st p;
         st \<leftarrow> upd_widget neww (\<lambda>r. r\<lparr>w_type := type, w_x := x, w_y := y, w_width := fit_extent (w_width pr) x width,
           w_height := fit_extent (w_height pr) y height, w_parent := Some p\<rparr>) st;
         st \<leftarrow> (case w_first_child pr of
             None \<Rightarrow> upd_widget p (\<lambda>r. r\<lparr>w_last_child := Some neww\<rparr>) st
           | Some f \<Rightarrow> do {
               st \<leftarrow> upd_widget neww (\<lambda>r. r\<lparr>w_next := Some f\<rparr>) st;
               upd_widget f (\<lambda>r. r\<lparr>w_prev := Some neww\<rparr>) st });
         st \<leftarrow> upd_widget p (\<lambda>r. r\<lparr>w_first_child := Some neww\<rparr>) st;
         Some (Some neww, st) }))"

definition fbtk_init :: "('cb, 'w) toolkit \<Rightarrow> wid option \<times> ('cb, 'w) toolkit" where
  "fbtk_init st = (case calloc_widget st of
     (None, st) \<Rightarrow> (None, st)
   | (Some root, st) \<Rightarrow> (Some root, st\<lparr>widgets := (widgets st)(root \<mapsto> zero_widget\<lparr>w_type := FB_WIDGET_TYPE_ROOT,
         w_width := nsfb_width (tk_nsfb st), w_height := nsfb_height (tk_nsfb st), w_mapped := True\<rparr>),
       root_prev := None, root_grabbed := None, root_input := None,
       root_caret := \<lparr>caret_owner = None, caret_x = 0, caret_y = 0, caret_height = 0, caret_remove_cb = None\<rparr>\<rparr>))"

text \<open>
  Taking a widget out of its parent and freeing it; the root is left alone.  The
  pointers that the root data holds to the widget are left too.
\<close>

definition unlink_free :: "wid \<Rightarrow> ('cb, 'w) toolkit \<Rightarrow> ('cb, 'w) toolkit option" where
  "unlink_free w st = do {
     r \<leftarrow> widgets st w;
     case w_parent r of
       None \<Rightarrow> Some st
     | Some p \<Rightarrow> do {
         st \<leftarrow> (case w_prev r of
             Some b \<Rightarrow> upd_widget b (\<lambda>b. b\<lparr>w_next := w_next r\<rparr>) st
           | None \<Rightarrow> upd_widget p (\<lambda>p. p\<lparr>w_first_child := w_next r\<rparr>) st);
         st \<leftarrow> (case w_next r of
             Some a \<Rightarrow> upd_widget a (\<lambda>a. a\<lparr>w_prev := w_prev r\<rparr>) st
           | None \<Rightarrow> upd_widget p (\<lambda>p. p\<lparr>w_last_child := w_prev r\<rparr>) st);
         Some (st\<lparr>widgets := (widgets st)(w := None)\<rparr>) } }"

partial_function (option) destroy_children :: "('cb, 'ev, 'w) handler \<Rightarrow> wid \<Rightarrow> ('cb, 'w) toolkit \<Rightarrow> ('cb, 'w) toolkit option" where
  "destroy_children handler w st = do {
     r \<leftarrow> widgets st w;
     case w_first_child r of
       None \<Rightarrow> Some st
     | Some c \<Rightarrow> do {
         (ret, st) \<leftarrow> fbtk_post_callback handler (Some c) FBTK_CBT_DESTROY None None None st;
         st \<leftarrow> destroy_children handler c st;
         st \<leftarrow> unlink_free c st;
         destroy_children handler w st } }"

definition fbtk_destroy_widget :: "('cb, 'ev, 'w) handler \<Rightarrow> wid \<Rightarrow> ('cb, 'w) toolkit \<Rightarrow> (int \<times> ('cb, 'w) toolkit) option" where
  "fbtk_destroy_widget handler w st = do {
     (ret, st) \<leftarrow> fbtk_post_callback handler (Some w) FBTK_CBT_DESTROY None None None st;
     st \<leftarrow> destroy_children handler w st;
     st \<leftarrow> unlink_free w st;
     Some (ret, st) }"

section \<open>Focus and caret\<close>

definition fbtk_set_focus :: "('cb, 'ev, 'w) handler \<Rightarrow> wid \<Rightarrow> ('cb, 'w) toolkit \<Rightarrow> ('cb, 'w) toolkit option" where
  "fbtk_set_focus handler w st = do {
     _ \<leftarrow> fbtk_get_root_widget st w;
     st \<leftarrow> (if root_input st \<noteq> None \<and> root_input st \<noteq> Some w then
         map_option snd (fbtk_post_callback handler (root_input st) FBTK_CBT_STRIP_FOCUS None None None st)
       else Some st);
     Some (st\<lparr>root_input := Some w\<rparr>) }"

text \<open>The remover of the old caret is called with the widget of the new one, as in the source.\<close>

definition fbtk_set_caret ::
  "('cb \<Rightarrow> wid \<Rightarrow> ('cb, 'w) toolkit \<Rightarrow> ('cb, 'w) toolkit option) \<Rightarrow> wid \<Rightarrow> bool \<Rightarrow> int \<Rightarrow> int \<Rightarrow> int \<Rightarrow> 'cb option \<Rightarrow>
   ('cb, 'w) toolkit \<Rightarrow> ('cb, 'w) toolkit option" where
  "fbtk_set_caret remove_handler w is_set x y height remove_caret st = do {
     _ \<leftarrow> fbtk_get_root_widget st w;
     st \<leftarrow> (case caret_remove_cb (root_caret st) of
         Some cb \<Rightarrow> if caret_owner (root_caret st) \<noteq> None then remove_handler cb w st else Some st
       | None \<Rightarrow> Some st);
     if is_set then
       if remove_caret = None then None
       else Some (st\<lparr>root_caret := \<lparr>caret_owner = Some w, caret_x = x, caret_y = y, caret_height = height,
         caret_remove_cb = remove_caret\<rparr>\<rparr>)
     else Some (st\<lparr>root_caret := (root_caret st)\<lparr>caret_owner := None, caret_remove_cb := None\<rparr>\<rparr>) }"

definition fbtk_get_caret :: "('cb, 'w) toolkit \<Rightarrow> wid \<Rightarrow> (bool \<times> int \<times> int \<times> int) option" where
  "fbtk_get_caret st w = do {
     _ \<leftarrow> fbtk_get_root_widget st w;
     let caret = root_caret st;
     Some (if caret_owner caret = Some w then (True, caret_x caret, caret_y caret, caret_height caret) else (False, 0, 0, 0)) }"

section \<open>Clipping\<close>

definition fbtk_clip_rect :: "nsfb_bbox \<Rightarrow> nsfb_bbox \<Rightarrow> bool \<times> nsfb_bbox" where
  "fbtk_clip_rect clip box = (let
     box = (if x1 box < x0 box then box\<lparr>x0 := x1 box, x1 := x0 box\<rparr> else box);
     box = (if y1 box < y0 box then box\<lparr>y0 := y1 box, y1 := y0 box\<rparr> else box);
     region1 = REGION (x0 box) (y0 box) (x0 clip) (x1 clip - 1) (y0 clip) (y1 clip - 1);
     region2 = REGION (x1 box) (y1 box) (x0 clip) (x1 clip - 1) (y0 clip) (y1 clip - 1)
   in if region1 OR region2 \<noteq> 0 \<and> region1 AND region2 \<noteq> 0 then (False, box)
      else let
        box = (if x0 box < x0 clip then box\<lparr>x0 := x0 clip\<rparr> else box);
        box = (if x0 box > x1 clip then box\<lparr>x0 := x1 clip\<rparr> else box);
        box = (if x1 box < x0 clip then box\<lparr>x1 := x0 clip\<rparr> else box);
        box = (if x1 box > x1 clip then box\<lparr>x1 := x1 clip\<rparr> else box);
        box = (if y0 box < y0 clip then box\<lparr>y0 := y0 clip\<rparr> else box);
        box = (if y0 box > y1 clip then box\<lparr>y0 := y1 clip\<rparr> else box);
        box = (if y1 box < y0 clip then box\<lparr>y1 := y0 clip\<rparr> else box);
        box = (if y1 box > y1 clip then box\<lparr>y1 := y1 clip\<rparr> else box)
      in (True, box))"

definition fbtk_clip_to_widget :: "('cb, 'w) toolkit \<Rightarrow> wid \<Rightarrow> nsfb_bbox \<Rightarrow> (bool \<times> nsfb_bbox) option" where
  "fbtk_clip_to_widget st w box = do {
     r \<leftarrow> widgets st w;
     Some (fbtk_clip_rect \<lparr>x0 = 0, y0 = 0, x1 = w_width r, y1 = w_height r\<rparr> box) }"

text \<open>Setting the pointer to a bitmap.\<close>

definition fbtk_set_ptr :: "wid \<Rightarrow> fbtk_bitmap \<Rightarrow> ('cb, 'w) toolkit \<Rightarrow> (int \<times> ('cb, 'w) toolkit) option" where
  "fbtk_set_ptr w bm st = do {
     _ \<leftarrow> fbtk_get_root_widget st w;
     Some (0, snd (nsfb_cursor_set (bm_width bm) (bm_height bm) (bm_width bm) (bm_hot_x bm) (bm_hot_y bm) st)) }"

end
