(* ===== verification/Fbtk_Tree.thy ===== *)
theory Fbtk_Tree
  imports Fbtk
begin

text \<open>
  The widget hierarchy as a tree: what the links of the store represent, and the
  operations that change it as operations on the list of a widget's children.
\<close>

section \<open>Forests of widgets\<close>

datatype wtree = Node (root_id: wid) (kids: "wtree list")

fun fids :: "wtree list \<Rightarrow> wid list" where
  "fids [] = []"
| "fids (Node w ks # ts) = w # fids ks @ fids ts"

text \<open>The widget in front of a list of siblings, and the one behind.\<close>

definition first_id :: "wtree list \<Rightarrow> wid option \<Rightarrow> wid option" where
  "first_id ts nx = (if ts = [] then nx else Some (root_id (hd ts)))"

definition last_id :: "wtree list \<Rightarrow> wid option \<Rightarrow> wid option" where
  "last_id ts pv = (if ts = [] then pv else Some (root_id (last ts)))"

lemma end_ids [simp]: "first_id [] nx = nx" "last_id [] pv = pv" "first_id (Node w ks # ts) nx = Some w"
    "last_id (Node w ks # ts) pv = last_id ts (Some w)"
  by (simp_all add: first_id_def last_id_def)

lemma end_ids_append: "first_id (as @ bs) nx = first_id as (first_id bs nx)" "last_id (as @ bs) pv = last_id bs (last_id as pv)"
  by (simp_all add: first_id_def last_id_def)

lemma fids_append [simp]: "fids (as @ bs) = fids as @ fids bs"
  by (induction as rule: fids.induct) simp_all

text \<open>The links of a widget.\<close>

definition links :: "'cb fbtk_widget \<Rightarrow> wid option \<times> wid option \<times> wid option \<times> wid option \<times> wid option" where
  "links r = (w_parent r, w_prev r, w_next r, w_first_child r, w_last_child r)"

type_synonym 'cb store = "wid \<Rightarrow> 'cb fbtk_widget option"

text \<open>
  Siblings in the store: all have the parent \<open>par\<close>, the first one comes after \<open>pv\<close>, the
  last one before \<open>nx\<close>.
\<close>

fun reps :: "'cb store \<Rightarrow> wid option \<Rightarrow> wid option \<Rightarrow> wid option \<Rightarrow> wtree list \<Rightarrow> bool" where
  "reps s par pv nx [] \<longleftrightarrow> True"
| "reps s par pv nx (Node w ks # ts) \<longleftrightarrow>
     map_option links (s w) = Some (par, pv, first_id ts nx, first_id ks None, last_id ks None)
     \<and> reps s (Some w) None None ks \<and> reps s par (Some w) nx ts"

lemma reps_append: "reps s par pv nx (as @ bs) \<longleftrightarrow> reps s par pv (first_id bs nx) as \<and> reps s par (last_id as pv) nx bs"
  by (induction s par pv nx as rule: reps.induct) (auto simp: end_ids_append)

lemma reps_cong:
  assumes "\<And>w. w \<in> set (fids ts) \<Longrightarrow> map_option links (s w) = map_option links (s' w)"
  shows "reps s par pv nx ts = reps s' par pv nx ts"
  using assms by (induction s par pv nx ts rule: reps.induct) auto

lemma reps_alive: "reps s par pv nx ts \<Longrightarrow> w \<in> set (fids ts) \<Longrightarrow> s w \<noteq> None"
  by (induction s par pv nx ts rule: reps.induct) auto

text \<open>Changing what comes after the last sibling, or before the first.\<close>

lemma reps_set_next:
  assumes "reps s par pv nx ts" "ts \<noteq> []" "distinct (fids ts)" "b = root_id (last ts)" "s b = Some r"
  shows "reps (s(b \<mapsto> r\<lparr>w_next := nx'\<rparr>)) par pv nx' ts"
  using assms
proof (induction s par pv nx ts rule: reps.induct)
  case (2 s par pv nx w ks ts)
  show ?case
  proof (cases "ts = []")
    case True
    then have "w \<notin> set (fids ks)" "w = b" using "2.prems" by auto
    then have "reps (s(b \<mapsto> r\<lparr>w_next := nx'\<rparr>)) (Some w) None None ks"
      using "2.prems"(1) by (subst reps_cong [of ks _ s]) auto
    moreover have "map_option links ((s(b \<mapsto> r\<lparr>w_next := nx'\<rparr>)) w)
        = Some (par, pv, first_id ts nx', first_id ks None, last_id ks None)"
      using "2.prems"(1,5) True \<open>w = b\<close> by (simp add: links_def)
    ultimately show ?thesis by (simp only: True reps.simps simp_thms)
  next
    case False
    have "b \<in> set (fids ts)" using False "2.prems"(4) by (cases ts rule: rev_cases) (auto, metis fids.simps(2) list.set_intros(1) wtree.exhaust_sel)
    then have b: "b \<noteq> w" "b \<notin> set (fids ks)" using "2.prems"(3) by auto
    then have "reps (s(b \<mapsto> r\<lparr>w_next := nx'\<rparr>)) (Some w) None None ks"
      using "2.prems"(1) by (subst reps_cong [of ks _ s]) auto
    moreover have "reps (s(b \<mapsto> r\<lparr>w_next := nx'\<rparr>)) par (Some w) nx' ts"
      using False "2.prems" by (intro "2.IH"(2)) auto
    moreover have "map_option links ((s(b \<mapsto> r\<lparr>w_next := nx'\<rparr>)) w) = Some (par, pv, first_id ts nx', first_id ks None, last_id ks None)"
      using b False "2.prems"(1) by (simp add: first_id_def)
    ultimately show ?thesis by (simp only: reps.simps simp_thms)
  qed
qed simp

lemma reps_set_prev:
  assumes "reps s par pv nx ts" "ts \<noteq> []" "distinct (fids ts)" "a = root_id (hd ts)" "s a = Some r"
  shows "reps (s(a \<mapsto> r\<lparr>w_prev := pv'\<rparr>)) par pv' nx ts"
proof -
  obtain ks ts' where ts: "ts = Node a ks # ts'" using assms(2,4) by (cases ts) (metis list.sel(1) wtree.exhaust_sel)+
  then have "a \<notin> set (fids ks)" "a \<notin> set (fids ts')" using assms(3) by auto
  then have "reps (s(a \<mapsto> r\<lparr>w_prev := pv'\<rparr>)) (Some a) None None ks" "reps (s(a \<mapsto> r\<lparr>w_prev := pv'\<rparr>)) par (Some a) nx ts'"
    using assms(1) ts by (subst reps_cong [of _ _ s], auto)+
  then show ?thesis using assms(1,5) ts by (auto simp: links_def)
qed

section \<open>The children of a widget\<close>

fun kids_of :: "wid \<Rightarrow> wtree list \<Rightarrow> wtree list" where
  "kids_of p [] = []"
| "kids_of p (Node w ks # ts) = (if w = p then ks else if p \<in> set (fids ks) then kids_of p ks else kids_of p ts)"

fun put_kids :: "wid \<Rightarrow> wtree list \<Rightarrow> wtree list \<Rightarrow> wtree list" where
  "put_kids p new [] = []"
| "put_kids p new (Node w ks # ts) =
     (if w = p then Node w new # ts else Node w (put_kids p new ks) # put_kids p new ts)"

lemma put_kids_absent: "p \<notin> set (fids ts) \<Longrightarrow> put_kids p new ts = ts"
  by (induction p new ts rule: put_kids.induct) auto

lemma put_kids_ends [simp]: "first_id (put_kids p new ts) nx = first_id ts nx" "last_id (put_kids p new ts) pv = last_id ts pv"
  by (induction p new ts arbitrary: pv rule: put_kids.induct) auto

lemma kids_of_sub: "p \<in> set (fids ts) \<Longrightarrow> set (fids (kids_of p ts)) \<subseteq> set (fids ts)"
  by (induction p ts rule: kids_of.induct) (auto split: if_splits)

lemma put_kids_set:
  assumes "p \<in> set (fids ts)" "distinct (fids ts)"
  shows "set (fids (put_kids p new ts)) = set (fids ts) - set (fids (kids_of p ts)) \<union> set (fids new)"
  using assms
proof (induction p new ts rule: put_kids.induct)
  case (2 p new w ks ts)
  consider "w = p" | (ks) "w \<noteq> p" "p \<in> set (fids ks)" "p \<notin> set (fids ts)"
    | (ts) "w \<noteq> p" "p \<notin> set (fids ks)" "p \<in> set (fids ts)" using "2.prems" by auto
  then show ?case
  proof cases
    case ks
    then show ?thesis using "2.IH"(1) "2.prems" kids_of_sub [of p ks] by (auto simp: put_kids_absent)
  next
    case ts
    then show ?thesis using "2.IH"(2) "2.prems" kids_of_sub [of p ts] by (auto simp: put_kids_absent)
  qed (use "2.prems" in auto)
qed simp

lemma put_kids_distinct:
  assumes "p \<in> set (fids ts)" "distinct (fids ts)" "distinct (fids new)"
    "set (fids new) \<inter> set (fids ts) \<subseteq> set (fids (kids_of p ts))"
  shows "distinct (fids (put_kids p new ts))"
  using assms
proof (induction p new ts rule: put_kids.induct)
  case (2 p new w ks ts)
  show ?case
  proof (cases "w = p")
    case True
    with "2.prems" show ?thesis by auto
  next
    case False
    show ?thesis
    proof (cases "p \<in> set (fids ks)")
      case True
      have "distinct (fids (put_kids p new ks))" using "2.IH"(1) [OF False True] "2.prems" True False by auto
      moreover have "p \<notin> set (fids ts)" using "2.prems"(2) True by auto
      ultimately show ?thesis
        using "2.prems" True False put_kids_set [OF True, of new] kids_of_sub [OF True] by (auto simp: put_kids_absent)
    next
      case f: False
      then have p: "p \<in> set (fids ts)" using False "2.prems"(1) by simp
      have "distinct (fids (put_kids p new ts))" using "2.IH"(2) [OF False p] "2.prems" f False by auto
      then show ?thesis
        using "2.prems" f False p put_kids_set [OF p, of new] kids_of_sub [OF p] by (auto simp: put_kids_absent)
    qed
  qed
qed simp

lemma kids_of_reps:
  assumes "reps s par pv nx ts" "p \<in> set (fids ts)"
  shows "reps s (Some p) None None (kids_of p ts) \<and> (\<exists>r. s p = Some r \<and> w_first_child r = first_id (kids_of p ts) None
    \<and> w_last_child r = last_id (kids_of p ts) None)"
  using assms by (induction s par pv nx ts rule: reps.induct) (auto simp: links_def)

lemma kids_of_distinct: "distinct (fids ts) \<Longrightarrow> distinct (fids (kids_of p ts))"
  by (induction p ts rule: kids_of.induct) auto

text \<open>Putting new children in place, in the tree and in the store.\<close>

lemma put_kids_reps:
  assumes "reps s par pv nx ts" "p \<in> set (fids ts)" "distinct (fids ts)"
    and same: "\<And>w. w \<in> set (fids ts) \<Longrightarrow> w \<noteq> p \<Longrightarrow> w \<notin> set (fids (kids_of p ts)) \<Longrightarrow> map_option links (s' w) = map_option links (s w)"
    and parent: "map_option links (s' p) = map_option (\<lambda>r. (w_parent r, w_prev r, w_next r, first_id new None, last_id new None)) (s p)"
    and new: "reps s' (Some p) None None new"
  shows "reps s' par pv nx (put_kids p new ts)"
  using assms
proof (induction s par pv nx ts rule: reps.induct)
  case (2 s par pv nx w ks ts)
  have frame: "reps s' par' pv' nx' us = reps s par' pv' nx' us"
    if "p \<notin> set (fids us)" "set (fids us) \<subseteq> set (fids (Node w ks # ts))" "set (fids us) \<inter> set (fids (kids_of p (Node w ks # ts))) = {}"
    for us par' pv' nx'
    by (rule reps_cong) (use that "2.prems"(4) in blast)
  consider (here) "w = p" | (ks) "w \<noteq> p" "p \<in> set (fids ks)" "p \<notin> set (fids ts)"
    | (ts) "w \<noteq> p" "p \<notin> set (fids ks)" "p \<in> set (fids ts)" using "2.prems"(2,3) by auto
  then show ?case
  proof cases
    case here
    then have "reps s' par (Some w) nx ts" using "2.prems"(1,3) by (subst frame) auto
    moreover have "map_option links (s' p) = Some (par, pv, first_id ts nx, first_id new None, last_id new None)"
      unfolding "2.prems"(5) using here "2.prems"(1) by (auto simp: links_def)
    ultimately show ?thesis using here "2.prems"(6) by simp
  next
    case ks
    have "reps s' par (Some w) nx ts" using "2.prems"(1,3) ks kids_of_sub [of p ks] by (subst frame) auto
    moreover have "reps s' (Some w) None None (put_kids p new ks)"
      using "2.prems" ks by (intro "2.IH"(1)) auto
    moreover have "map_option links (s' w) = map_option links (s w)"
      using "2.prems"(3,4) ks kids_of_sub [of p ks] by (auto simp: subset_iff)
    ultimately show ?thesis using ks "2.prems"(1) by (simp add: put_kids_absent)
  next
    case ts
    have "reps s' (Some w) None None ks" using "2.prems"(1,3) ts kids_of_sub [of p ts] by (subst frame) auto
    moreover have "reps s' par (Some w) nx (put_kids p new ts)"
      using "2.prems" ts by (intro "2.IH"(2)) auto
    moreover have "map_option links (s' w) = map_option links (s w)"
      using "2.prems"(3,4) ts kids_of_sub [of p ts] by (auto simp: subset_iff)
    ultimately show ?thesis using ts "2.prems"(1) by (simp add: put_kids_absent)
  qed
qed simp

section \<open>The hierarchy of the toolkit\<close>

text \<open>
  The store holds a tree whose root is the root widget; the addresses in use are below
  the next one that \<^verbatim>\<open>calloc\<close> gives.
\<close>

definition fbtk_tree :: "('cb, 'w) toolkit \<Rightarrow> wtree list \<Rightarrow> bool" where
  "fbtk_tree st F \<longleftrightarrow> length F = 1 \<and> reps (widgets st) None None None F \<and> distinct (fids F)
     \<and> (\<forall>w\<in>set (fids F). w < next_addr st)
     \<and> (\<forall>r. widgets st (root_id (hd F)) = Some r \<longrightarrow> w_type r = FB_WIDGET_TYPE_ROOT)"

text \<open>Everything of a widget but its links.\<close>

definition body :: "'cb fbtk_widget \<Rightarrow> 'cb fbtk_widget" where
  "body r = r\<lparr>w_parent := None, w_prev := None, w_next := None, w_first_child := None, w_last_child := None\<rparr>"

definition relinked :: "'cb store \<Rightarrow> 'cb store \<Rightarrow> bool" where
  "relinked s s' \<longleftrightarrow> (\<forall>w. map_option body (s' w) = map_option body (s w))"

lemma body_simps [simp]:
  "body (r\<lparr>w_parent := p\<rparr>) = body r" "body (r\<lparr>w_prev := p\<rparr>) = body r" "body (r\<lparr>w_next := p\<rparr>) = body r"
  "body (r\<lparr>w_first_child := p\<rparr>) = body r" "body (r\<lparr>w_last_child := p\<rparr>) = body r"
  by (simp_all add: body_def)

lemma relinked_upd: "relinked s s' \<Longrightarrow> s' w = Some r \<Longrightarrow> body r' = body r \<Longrightarrow> relinked s (s'(w \<mapsto> r'))"
  unfolding relinked_def by (metis fun_upd_apply option.simps(9))

lemma relinked_refl [simp]: "relinked s s"
  by (simp add: relinked_def)

lemma relinked_type: "relinked s s' \<Longrightarrow> s' w = Some r' \<Longrightarrow> \<exists>r. s w = Some r \<and> w_type r' = w_type r"
proof -
  assume "relinked s s'" "s' w = Some r'"
  then obtain r where r: "s w = Some r" "body r' = body r" unfolding relinked_def by (metis map_option_eq_Some option.simps(9))
  then have "w_type (body r') = w_type (body r)" by simp
  then show ?thesis using r by (simp add: body_def)
qed

lemma put_kids_root: "length F = 1 \<Longrightarrow> length (put_kids p new F) = 1 \<and> root_id (hd (put_kids p new F)) = root_id (hd F)"
  by (cases "(p, new, F)" rule: put_kids.cases) auto

lemma not_own_kid: "distinct (fids ts) \<Longrightarrow> p \<notin> set (fids (kids_of p ts))"
  by (induction p ts rule: kids_of.induct) (use kids_of_sub in auto)

lemma put_kids_tree:
  assumes "fbtk_tree st F" "p \<in> set (fids F)"
    "\<And>w r'. w \<in> set (fids F) \<Longrightarrow> widgets st' w = Some r' \<Longrightarrow> \<exists>r. widgets st w = Some r \<and> w_type r' = w_type r"
    "next_addr st \<le> next_addr st'"
    "distinct (fids new)" "set (fids new) \<inter> set (fids F) \<subseteq> set (fids (kids_of p F))" "\<And>w. w \<in> set (fids new) \<Longrightarrow> w < next_addr st'"
    "\<And>w. w \<in> set (fids F) \<Longrightarrow> w \<noteq> p \<Longrightarrow> w \<notin> set (fids (kids_of p F)) \<Longrightarrow>
       map_option links (widgets st' w) = map_option links (widgets st w)"
    "map_option links (widgets st' p)
       = map_option (\<lambda>r. (w_parent r, w_prev r, w_next r, first_id new None, last_id new None)) (widgets st p)"
    "reps (widgets st') (Some p) None None new"
  shows "fbtk_tree st' (put_kids p new F)"
proof -
  have F: "length F = 1" "reps (widgets st) None None None F" "distinct (fids F)" "\<forall>w\<in>set (fids F). w < next_addr st"
    "\<forall>r. widgets st (root_id (hd F)) = Some r \<longrightarrow> w_type r = FB_WIDGET_TYPE_ROOT"
    using assms(1) by (simp_all add: fbtk_tree_def)
  have "reps (widgets st') None None None (put_kids p new F)"
    using put_kids_reps [OF F(2) assms(2) F(3)] assms(8-10) by blast
  moreover have "distinct (fids (put_kids p new F))"
    using put_kids_distinct [OF assms(2) F(3) assms(5)] assms(6) by blast
  moreover have "w < next_addr st'" if "w \<in> set (fids (put_kids p new F))" for w
    using put_kids_set [OF assms(2) F(3), of new] that F(4) assms(4,7) by fastforce
  moreover have "root_id (hd F) \<in> set (fids F)" using F(1) by (cases F rule: fids.cases) auto
  then have "\<forall>r. widgets st' (root_id (hd F)) = Some r \<longrightarrow> w_type r = FB_WIDGET_TYPE_ROOT"
    using F(5) assms(3) by metis
  ultimately show ?thesis using F put_kids_root [OF F(1)] by (auto simp: fbtk_tree_def)
qed

section \<open>Swapping siblings\<close>

lemma end_None: "first_id ts None = None \<longleftrightarrow> ts = []" "last_id ts None = None \<longleftrightarrow> ts = []"
  by (simp_all add: first_id_def last_id_def)

lemma end_in: "ts \<noteq> [] \<Longrightarrow> root_id (hd ts) \<in> set (fids ts)" "ts \<noteq> [] \<Longrightarrow> root_id (last ts) \<in> set (fids ts)"
proof -
  show "ts \<noteq> [] \<Longrightarrow> root_id (hd ts) \<in> set (fids ts)" by (cases ts rule: fids.cases) auto
  show "ts \<noteq> [] \<Longrightarrow> root_id (last ts) \<in> set (fids ts)" by (induction ts rule: fids.induct) (auto split: if_splits)
qed

text \<open>
  What \<^const>\<open>swap_siblings\<close> writes, when \<open>l\<close> and \<open>r\<close> follow each other among the children of
  \<open>p\<close>.
\<close>

definition swap_store :: "wid \<Rightarrow> wid \<Rightarrow> wid \<Rightarrow> wtree list \<Rightarrow> wtree list \<Rightarrow> 'cb store \<Rightarrow> 'cb store" where
  "swap_store p l r as bs s = (let
     at = (\<lambda>s w. the (s w));
     s = (if as = [] then s(p \<mapsto> (at s p)\<lparr>w_first_child := Some r\<rparr>)
       else let b = root_id (last as) in s(b \<mapsto> (at s b)\<lparr>w_next := Some r\<rparr>));
     s = s(r \<mapsto> (at s r)\<lparr>w_prev := last_id as None, w_next := Some l\<rparr>);
     s = (if bs = [] then s(p \<mapsto> (at s p)\<lparr>w_last_child := Some l\<rparr>)
       else let a = root_id (hd bs) in s(a \<mapsto> (at s a)\<lparr>w_prev := Some l\<rparr>))
   in s(l \<mapsto> (at s l)\<lparr>w_next := first_id bs None, w_prev := Some r\<rparr>))"

lemma swap_siblings_store:
  assumes "reps (widgets st) (Some p) None None (as @ Node l kl # Node r kr # bs)" "distinct (p # fids (as @ Node l kl # Node r kr # bs))"
    "widgets st p \<noteq> None"
  shows "swap_siblings l st = Some (st\<lparr>widgets := swap_store p l r as bs (widgets st)\<rparr>)"
proof -
  obtain L R P where s: "widgets st l = Some L" "widgets st r = Some R" "widgets st p = Some P"
    using assms(1,3) by (auto simp: reps_append)
  have L: "w_parent L = Some p" "w_prev L = last_id as None" "w_next L = Some r" "w_parent R = Some p" "w_next R = first_id bs None"
    using assms(1) s by (simp_all add: reps_append links_def)
  have b: "\<exists>B. widgets st (root_id (last as)) = Some B" if "as \<noteq> []"
    using assms(1) that end_in(2) [OF that] reps_alive by (fastforce simp: reps_append)
  have a: "\<exists>A. widgets st (root_id (hd bs)) = Some A" if "bs \<noteq> []"
    using assms(1) that end_in(1) [OF that] reps_alive by (fastforce simp: reps_append)
  have ne: "p \<noteq> l" "p \<noteq> r" "l \<noteq> r" "as \<noteq> [] \<Longrightarrow> root_id (last as) \<notin> {p, l, r}" "bs \<noteq> [] \<Longrightarrow> root_id (hd bs) \<notin> {p, l, r}"
    "as \<noteq> [] \<Longrightarrow> bs \<noteq> [] \<Longrightarrow> root_id (last as) \<noteq> root_id (hd bs)"
    using assms(2) end_in(2) [of as] end_in(1) [of bs] by auto
  have start: "(do { l' \<leftarrow> widgets st l; rw \<leftarrow> w_next l'; r' \<leftarrow> widgets st rw; f l' rw r' }) = f L r R" for f :: "_ \<Rightarrow> _ \<Rightarrow> _ \<Rightarrow> _ option"
    using s L by simp
  show ?thesis
  proof (cases "as = []"; cases "bs = []")
    assume "as = []" "bs = []"
    then show ?thesis using s L ne by (simp add: swap_siblings_def start swap_store_def Let_def upd_ptr_def upd_widget_def)
  next
    assume e: "as = []" "bs \<noteq> []"
    with a obtain A where "widgets st (root_id (hd bs)) = Some A" by blast
    with e show ?thesis using s L ne
      by (simp add: swap_siblings_def start swap_store_def Let_def upd_ptr_def upd_widget_def first_id_def)
  next
    assume e: "as \<noteq> []" "bs = []"
    with b obtain B where "widgets st (root_id (last as)) = Some B" by blast
    with e show ?thesis using s L ne
      by (simp add: swap_siblings_def start swap_store_def Let_def upd_ptr_def upd_widget_def last_id_def)
  next
    assume e: "as \<noteq> []" "bs \<noteq> []"
    obtain A B where "widgets st (root_id (hd bs)) = Some A" "widgets st (root_id (last as)) = Some B" using a b e by blast
    with e show ?thesis using s L ne
      by (simp add: swap_siblings_def start swap_store_def Let_def upd_ptr_def upd_widget_def first_id_def last_id_def)
  qed
qed

lemma swap_store_at:
  fixes s :: "'cb store"
  assumes "distinct (p # fids (as @ Node l kl # Node r kr # bs))"
  defines "s' \<equiv> swap_store p l r as bs s"
  shows "s' l = Some ((the (s l))\<lparr>w_next := first_id bs None, w_prev := Some r\<rparr>)"
    "s' r = Some ((the (s r))\<lparr>w_prev := last_id as None, w_next := Some l\<rparr>)"
    "w \<in> set (fids as) \<Longrightarrow> s' w = (if w = root_id (last as) then Some ((the (s w))\<lparr>w_next := Some r\<rparr>) else s w)"
    "w \<in> set (fids bs) \<Longrightarrow> s' w = (if w = root_id (hd bs) then Some ((the (s w))\<lparr>w_prev := Some l\<rparr>) else s w)"
    "s p = Some P \<Longrightarrow> s' p = Some (P\<lparr>w_first_child := (if as = [] then Some r else w_first_child P),
       w_last_child := (if bs = [] then Some l else w_last_child P)\<rparr>)"
    "w \<noteq> p \<Longrightarrow> w \<notin> set (fids (as @ Node l kl # Node r kr # bs)) \<Longrightarrow> s' w = s w"
    "w \<in> set (fids kl) \<union> set (fids kr) \<Longrightarrow> s' w = s w"
proof -
  have ne: "p \<noteq> l" "p \<noteq> r" "l \<noteq> r" "as \<noteq> [] \<Longrightarrow> root_id (last as) \<notin> {p, l, r}" "bs \<noteq> [] \<Longrightarrow> root_id (hd bs) \<notin> {p, l, r}"
    "as \<noteq> [] \<Longrightarrow> bs \<noteq> [] \<Longrightarrow> root_id (last as) \<noteq> root_id (hd bs)"
    using assms(1) end_in(2) [of as] end_in(1) [of bs] by auto
  note def = s'_def swap_store_def Let_def
  show "s' l = Some ((the (s l))\<lparr>w_next := first_id bs None, w_prev := Some r\<rparr>)"
    using ne by (cases "as = []"; cases "bs = []") (auto simp: def)
  show "s' r = Some ((the (s r))\<lparr>w_prev := last_id as None, w_next := Some l\<rparr>)"
    using ne by (cases "as = []"; cases "bs = []") (auto simp: def)
  show "s p = Some P \<Longrightarrow> s' p = Some (P\<lparr>w_first_child := (if as = [] then Some r else w_first_child P),
       w_last_child := (if bs = [] then Some l else w_last_child P)\<rparr>)"
    using ne by (cases "as = []"; cases "bs = []") (auto simp: def)
  have out: "s' w = s w" if "w \<noteq> p" "w \<noteq> l" "w \<noteq> r" "as \<noteq> [] \<longrightarrow> w \<noteq> root_id (last as)" "bs \<noteq> [] \<longrightarrow> w \<noteq> root_id (hd bs)" for w
    using that by (cases "as = []"; cases "bs = []") (auto simp: def)
  show "w \<in> set (fids as) \<Longrightarrow> s' w = (if w = root_id (last as) then Some ((the (s w))\<lparr>w_next := Some r\<rparr>) else s w)"
    using assms(1) ne end_in(1) [of bs] out [of w] by (cases "as = []"; cases "bs = []") (auto simp: def)
  show "w \<in> set (fids bs) \<Longrightarrow> s' w = (if w = root_id (hd bs) then Some ((the (s w))\<lparr>w_prev := Some l\<rparr>) else s w)"
    using assms(1) ne end_in(2) [of as] out [of w] by (cases "as = []"; cases "bs = []") (auto simp: def)
  show "w \<noteq> p \<Longrightarrow> w \<notin> set (fids (as @ Node l kl # Node r kr # bs)) \<Longrightarrow> s' w = s w"
    using end_in(2) [of as] end_in(1) [of bs] by (intro out) auto
  show "w \<in> set (fids kl) \<union> set (fids kr) \<Longrightarrow> s' w = s w"
    using assms(1) end_in(2) [of as] end_in(1) [of bs] by (intro out) auto
qed

lemma swap_store_relinked:
  assumes "s p \<noteq> None" "s l \<noteq> None" "s r \<noteq> None" "as \<noteq> [] \<Longrightarrow> s (root_id (last as)) \<noteq> None" "bs \<noteq> [] \<Longrightarrow> s (root_id (hd bs)) \<noteq> None"
  shows "relinked s (swap_store p l r as bs s)"
  using assms unfolding swap_store_def Let_def relinked_def by (cases "as = []"; cases "bs = []") auto

lemma swap_kids:
  assumes "fbtk_tree st F" "p \<in> set (fids F)" "kids_of p F = as @ Node l kl # Node r kr # bs"
  obtains st' where "swap_siblings l st = Some st'" "fbtk_tree st' (put_kids p (as @ Node r kr # Node l kl # bs) F)"
    "relinked (widgets st) (widgets st')" "\<exists>s. st' = st\<lparr>widgets := s\<rparr>"
proof -
  let ?s = "widgets st" and ?ks = "as @ Node l kl # Node r kr # bs"
  define s' where "s' = swap_store p l r as bs ?s"
  have d: "distinct (p # fids ?ks)" and k: "reps ?s (Some p) None None ?ks" and P: "\<exists>P. ?s p = Some P
      \<and> w_first_child P = first_id ?ks None \<and> w_last_child P = last_id ?ks None"
    using assms not_own_kid [of F p] kids_of_distinct [of F p] kids_of_reps [of ?s None None None F p] by (auto simp: fbtk_tree_def)
  obtain P where P: "?s p = Some P" "w_first_child P = first_id ?ks None" "w_last_child P = last_id ?ks None" using P by blast
  note at = swap_store_at [OF d, where s = ?s, folded s'_def]
  have pieces: "reps ?s (Some p) None (Some l) as" "reps ?s (Some l) None None kl" "reps ?s (Some r) None None kr"
    "reps ?s (Some p) (Some r) None bs" "map_option links (?s l) = Some (Some p, last_id as None, Some r, first_id kl None, last_id kl None)"
    "map_option links (?s r) = Some (Some p, Some l, first_id bs None, first_id kr None, last_id kr None)"
    using k by (simp_all add: reps_append)
  have A: "reps s' (Some p) None (Some r) as"
  proof (cases "as = []")
    case False
    then obtain B where B: "?s (root_id (last as)) = Some B" using pieces(1) end_in(2) reps_alive by fastforce
    have "reps (?s(root_id (last as) \<mapsto> B\<lparr>w_next := Some r\<rparr>)) (Some p) None (Some r) as"
      by (rule reps_set_next [OF pieces(1) False _ refl B]) (use d in simp)
    then show ?thesis by (rule reps_cong [THEN iffD1, rotated]) (use at(3) B in auto)
  qed simp
  have B: "reps s' (Some p) (Some l) None bs"
  proof (cases "bs = []")
    case False
    then obtain B where B: "?s (root_id (hd bs)) = Some B" using pieces(4) end_in(1) reps_alive by fastforce
    have "reps (?s(root_id (hd bs) \<mapsto> B\<lparr>w_prev := Some l\<rparr>)) (Some p) (Some l) None bs"
      by (rule reps_set_prev [OF pieces(4) False _ refl B]) (use d in simp)
    then show ?thesis by (rule reps_cong [THEN iffD1, rotated]) (use at(4) B in auto)
  qed simp
  have L: "reps s' (Some l) None None kl" "reps s' (Some r) None None kr"
    using pieces(2,3) at(7) by (subst reps_cong [of _ s' ?s], auto)+
  have "reps s' (Some p) None None (as @ Node r kr # Node l kl # bs)"
    using A B L at(1,2) pieces(5,6) by (auto simp: reps_append links_def)
  moreover have "relinked ?s s'"
    unfolding s'_def
    by (rule swap_store_relinked) (use P k d end_in [of as] end_in [of bs] reps_alive [OF k] in auto)
  moreover have "map_option links (s' p) = map_option (\<lambda>r'. (w_parent r', w_prev r', w_next r',
      first_id (as @ Node r kr # Node l kl # bs) None, last_id (as @ Node r kr # Node l kl # bs) None)) (?s p)"
    using at(5) [OF P(1)] P by (auto simp: links_def first_id_def last_id_def)
  moreover have "s' w = ?s w" if "w \<noteq> p" "w \<notin> set (fids (kids_of p F))" for w
    using at(6) that assms(3) by simp
  moreover have "w < next_addr st" if "w \<in> set (fids (kids_of p F))" for w
    using assms(1) that kids_of_sub [OF assms(2)] by (auto simp: fbtk_tree_def)
  ultimately have "fbtk_tree (st\<lparr>widgets := s'\<rparr>) (put_kids p (as @ Node r kr # Node l kl # bs) F)"
    using d assms(3) by (intro put_kids_tree [OF assms(1,2)]) (auto dest: relinked_type)
  with swap_siblings_store [OF k d] P \<open>relinked ?s s'\<close> show ?thesis
    by (intro that [of "st\<lparr>widgets := s'\<rparr>"]) (auto simp: s'_def)
qed

section \<open>Moving a widget among its siblings\<close>

lemma kids_of_put:
  assumes "p \<in> set (fids F)" "distinct (fids F)"
  shows "kids_of p (put_kids p new F) = new"
  using assms
proof (induction p new F rule: put_kids.induct)
  case (2 p new w ks ts)
  consider "w = p" | (ks) "w \<noteq> p" "p \<in> set (fids ks)" | (ts) "w \<noteq> p" "p \<notin> set (fids ks)" "p \<in> set (fids ts)"
    using "2.prems" by auto
  then show ?case
  proof cases
    case ks
    then have "p \<in> set (fids (put_kids p new ks))"
      using put_kids_set [of p ks new] not_own_kid [of ks p] "2.prems"(2) by auto
    with ks show ?thesis using "2.IH"(1) "2.prems" by auto
  next
    case ts
    then show ?thesis using "2.IH"(2) "2.prems" by (auto simp: put_kids_absent)
  qed simp
qed simp

lemma put_put [simp]: "put_kids p new (put_kids p old F) = put_kids p new F"
  by (induction p old F rule: put_kids.induct) auto

lemma put_same: "p \<in> set (fids F) \<Longrightarrow> distinct (fids F) \<Longrightarrow> put_kids p (kids_of p F) F = F"
proof (induction p F rule: kids_of.induct)
  case (2 p w ks ts)
  have "p \<notin> set (fids ts)" if "p \<in> set (fids ks)" using that "2.prems"(2) by auto
  with 2 show ?case by (auto simp: put_kids_absent)
qed simp

text \<open>Where a widget ends up, and what is left of \<open>z\<close>.\<close>

definition moved :: "int \<Rightarrow> 'a list \<Rightarrow> 'a \<Rightarrow> 'a list \<Rightarrow> 'a list" where
  "moved z as x bs =
     (if 0 \<le> z then as @ take (nat z) bs @ x # drop (nat z) bs
      else take (length as - nat (- z)) as @ x # drop (length as - nat (- z)) as @ bs)"

definition not_moved :: "int \<Rightarrow> 'a list \<Rightarrow> 'a list \<Rightarrow> int" where
  "not_moved z as bs = (if 0 \<le> z then z - int (min (nat z) (length bs)) else z + int (min (nat (- z)) (length as)))"

lemma moved_deeper: "0 < z \<Longrightarrow> moved z as x (b # bs) = moved (z - 1) (as @ [b]) x bs"
    "0 < z \<Longrightarrow> not_moved z as (b # bs) = not_moved (z - 1) (as @ [b]) bs"
  by (cases "nat z"; simp add: moved_def not_moved_def nat_diff_distrib)+

lemma moved_shallower: "z < 0 \<Longrightarrow> moved z (as @ [a]) x bs = moved (z + 1) as x (a # bs)"
    "z < 0 \<Longrightarrow> not_moved z (as @ [a]) bs = not_moved (z + 1) as (a # bs)"
proof -
  assume z: "z < 0"
  then have n: "nat (- z) = Suc (nat (- (z + 1)))" by simp
  show "moved z (as @ [a]) x bs = moved (z + 1) as x (a # bs)"
  proof (cases "z = - 1")
    case False
    then have "\<not> 0 \<le> z + 1" using z by simp
    then show ?thesis using z unfolding moved_def n by simp
  qed (simp add: moved_def)
  show "not_moved z (as @ [a]) bs = not_moved (z + 1) as (a # bs)"
  proof (cases "z = - 1")
    case False
    then have "\<not> 0 \<le> z + 1" using z by simp
    then show ?thesis using z unfolding not_moved_def n by simp
  qed (simp add: not_moved_def)
qed

lemma moved_stuck: "moved 0 as x bs = as @ x # bs" "0 \<le> z \<Longrightarrow> moved z as x [] = as @ [x]" "z < 0 \<Longrightarrow> moved z [] x bs = x # bs"
    "not_moved 0 as bs = 0" "0 \<le> z \<Longrightarrow> not_moved z as [] = z" "z < 0 \<Longrightarrow> not_moved z [] bs = z"
  by (simp_all add: moved_def not_moved_def)

lemma relinked_trans: "relinked s s' \<Longrightarrow> relinked s' s'' \<Longrightarrow> relinked s s''"
  by (simp add: relinked_def)

lemma kid_links:
  assumes "fbtk_tree st F" "p \<in> set (fids F)" "kids_of p F = as @ Node w kw # bs"
  obtains r where "widgets st w = Some r" "w_prev r = last_id as None" "w_next r = first_id bs None" "w_parent r = Some p"
  using assms kids_of_reps [of "widgets st" None None None F p] by (auto simp: fbtk_tree_def reps_append links_def)

lemma tree_put:
  assumes "fbtk_tree st F" "p \<in> set (fids F)" "set (fids new) \<subseteq> set (fids (kids_of p F))"
  shows "kids_of p (put_kids p new F) = new" "p \<in> set (fids (put_kids p new F))"
  using assms kids_of_put [of p F new] put_kids_set [of p F new] not_own_kid [of F p] by (auto simp: fbtk_tree_def)

lemma zorder_moves:
  assumes "fbtk_tree st F" "p \<in> set (fids F)" "kids_of p F = as @ Node w kw # bs"
  shows "\<exists>s. fbtk_set_zorder w z st = Some (not_moved z as bs, st\<lparr>widgets := s\<rparr>)
    \<and> fbtk_tree (st\<lparr>widgets := s\<rparr>) (put_kids p (moved z as (Node w kw) bs) F) \<and> relinked (widgets st) s"
  using assms
proof (induction "nat \<bar>z\<bar>" arbitrary: z st F as bs)
  case 0
  then have "put_kids p (as @ Node w kw # bs) F = F" using put_same [of p F] by (auto simp: fbtk_tree_def)
  with 0 show ?case by (intro exI [of _ "widgets st"]) (simp add: fbtk_set_zorder.simps moved_stuck)
next
  case (Suc n)
  obtain r where r: "widgets st w = Some r" "w_prev r = last_id as None" "w_next r = first_id bs None"
    by (rule kid_links [OF Suc.prems])
  have same: "put_kids p (as @ Node w kw # bs) F = F" using Suc.prems put_same [of p F] by (auto simp: fbtk_tree_def)
  have stuck: "\<exists>s. Some (z, st) = Some (z, st\<lparr>widgets := s\<rparr>) \<and> fbtk_tree (st\<lparr>widgets := s\<rparr>) F \<and> relinked (widgets st) s"
    using Suc.prems(1) by (intro exI [of _ "widgets st"]) simp
  consider (deeper) b bs' where "0 < z" "bs = b # bs'" | (bottom) "0 < z" "bs = []"
    | (shallower) a as' where "z < 0" "as = as' @ [a]" | (top) "z < 0" "as = []"
    using Suc.hyps(2) by (cases bs; cases as rule: rev_cases) force+
  then show ?case
  proof cases
    case deeper
    obtain b' kb where b: "b = Node b' kb" by (cases b)
    obtain st' s where st': "swap_siblings w st = Some st'" "fbtk_tree st' (put_kids p (as @ b # Node w kw # bs') F)"
      "relinked (widgets st) (widgets st')" "st' = st\<lparr>widgets := s\<rparr>"
      by (rule swap_kids [OF Suc.prems(1,2), of as w kw b' kb bs']) (use Suc.prems(3) deeper b in auto)
    let ?F = "put_kids p (as @ b # Node w kw # bs') F"
    have k: "kids_of p ?F = (as @ [b]) @ Node w kw # bs'" "p \<in> set (fids ?F)"
      using tree_put [OF Suc.prems(1,2), of "as @ b # Node w kw # bs'"] Suc.prems(3) deeper b by auto
    have "n = nat \<bar>z - 1\<bar>" using Suc.hyps(2) deeper by simp
    from Suc.hyps(1) [OF this st'(2) k(2,1)] obtain s2 where
      s2: "fbtk_set_zorder w (z - 1) st' = Some (not_moved z as bs, st\<lparr>widgets := s2\<rparr>)"
        "fbtk_tree (st\<lparr>widgets := s2\<rparr>) (put_kids p (moved z as (Node w kw) bs) F)" "relinked (widgets st') s2"
      using deeper st'(4) by (auto simp: moved_deeper)
    have "fbtk_set_zorder w z st = Some (not_moved z as bs, st\<lparr>widgets := s2\<rparr>)"
      using deeper r st'(1) s2(1) by (subst fbtk_set_zorder.simps) (simp add: b)
    with s2 relinked_trans [OF st'(3) s2(3)] show ?thesis by blast
  next
    case bottom
    then show ?thesis using r stuck same by (subst fbtk_set_zorder.simps) (simp add: moved_stuck)
  next
    case shallower
    obtain a' ka where a: "a = Node a' ka" by (cases a)
    obtain st' s where st': "swap_siblings a' st = Some st'" "fbtk_tree st' (put_kids p (as' @ Node w kw # a # bs) F)"
      "relinked (widgets st) (widgets st')" "st' = st\<lparr>widgets := s\<rparr>"
      by (rule swap_kids [OF Suc.prems(1,2), of as' a' ka w kw bs]) (use Suc.prems(3) shallower a in auto)
    let ?F = "put_kids p (as' @ Node w kw # a # bs) F"
    have k: "kids_of p ?F = as' @ Node w kw # (a # bs)" "p \<in> set (fids ?F)"
      using tree_put [OF Suc.prems(1,2), of "as' @ Node w kw # a # bs"] Suc.prems(3) shallower a by auto
    have "n = nat \<bar>z + 1\<bar>" using Suc.hyps(2) shallower by simp
    from Suc.hyps(1) [OF this st'(2) k(2,1)] obtain s2 where
      s2: "fbtk_set_zorder w (z + 1) st' = Some (not_moved z as bs, st\<lparr>widgets := s2\<rparr>)"
        "fbtk_tree (st\<lparr>widgets := s2\<rparr>) (put_kids p (moved z as (Node w kw) bs) F)" "relinked (widgets st') s2"
      using shallower st'(4) by (auto simp: moved_shallower)
    have "fbtk_set_zorder w z st = Some (not_moved z as bs, st\<lparr>widgets := s2\<rparr>)"
      using shallower r st'(1) s2(1) by (subst fbtk_set_zorder.simps) (simp add: a last_id_def)
    with s2 relinked_trans [OF st'(3) s2(3)] show ?thesis by blast
  next
    case top
    then show ?thesis using r stuck same by (subst fbtk_set_zorder.simps) (simp add: moved_stuck)
  qed
qed

section \<open>A new widget\<close>

lemma widget_new_tree:
  fixes st :: "('cb, 'w) toolkit"
  assumes "fbtk_tree st F" "p \<in> set (fids F)" "alloc (tk_heap st) = (True, h)" "n = next_addr st"
  obtains st' where "fbtk_widget_new (Some p) type x y width height st = Some (Some n, st')"
    "fbtk_tree st' (put_kids p (Node n [] # kids_of p F) F)"
    "\<forall>w. w \<noteq> n \<longrightarrow> map_option body (widgets st' w) = map_option body (widgets st w)"
    "\<exists>P N. widgets st p = Some P \<and> widgets st' n = Some N
       \<and> body N = zero_widget\<lparr>w_type := type, w_x := x, w_y := y, w_width := fit_extent (w_width P) x width,
           w_height := fit_extent (w_height P) y height\<rparr>" "app st' = app st"
proof -
  let ?s = "widgets st" and ?ks = "kids_of p F"
  have d: "distinct (p # fids ?ks)" and k: "reps ?s (Some p) None None ?ks" and P: "\<exists>P. ?s p = Some P
      \<and> w_first_child P = first_id ?ks None \<and> w_last_child P = last_id ?ks None"
    using assms not_own_kid [of F p] kids_of_distinct [of F p] kids_of_reps [of ?s None None None F p] by (auto simp: fbtk_tree_def)
  obtain P where P: "?s p = Some P" "w_first_child P = first_id ?ks None" "w_last_child P = last_id ?ks None" using P by blast
  have n: "n \<notin> set (fids F)" "p \<noteq> n" "n \<notin> set (fids ?ks)" using assms kids_of_sub [OF assms(2)] by (auto simp: fbtk_tree_def)
  define N :: "'cb fbtk_widget" where "N = zero_widget\<lparr>w_type := type, w_x := x, w_y := y, w_width := fit_extent (w_width P) x width,
           w_height := fit_extent (w_height P) y height, w_parent := Some p, w_next := first_id ?ks None\<rparr>"
  define s1 where "s1 = (if ?ks = [] then ?s else ?s(root_id (hd ?ks) \<mapsto> (the (?s (root_id (hd ?ks))))\<lparr>w_prev := Some n\<rparr>))"
  define s' where "s' = s1(n \<mapsto> N, p \<mapsto> P\<lparr>w_first_child := Some n, w_last_child := (if ?ks = [] then Some n else w_last_child P)\<rparr>)"
  have kid: "root_id (hd ?ks) \<in> set (fids ?ks)" "root_id (hd ?ks) \<notin> {p, n}" "?s (root_id (hd ?ks)) \<noteq> None" if "?ks \<noteq> []"
    using end_in(1) [OF that] d n reps_alive [OF k] by auto
  have run: "fbtk_widget_new (Some p) type x y width height st = Some (Some n, st\<lparr>widgets := s', next_addr := n + 1, tk_heap := h\<rparr>)"
  proof (cases "?ks = []")
    case True
    then show ?thesis using P assms(3,4) n(2)
      by (cases st; cases P) (auto simp: fbtk_widget_new_def calloc_widget_def s'_def s1_def N_def upd_widget_def zero_widget_def Let_def fun_upd_twist)
  next
    case False
    obtain H where H: "?s (root_id (hd ?ks)) = Some H" using kid [OF False] by auto
    with False P assms(3,4) n(2) kid(2) [OF False] show ?thesis
      by (cases st; cases P; cases H) (auto simp: fbtk_widget_new_def calloc_widget_def s'_def s1_def N_def upd_widget_def zero_widget_def Let_def fun_upd_twist first_id_def)
  qed
  have s': "s' p = Some (P\<lparr>w_first_child := Some n, w_last_child := (if ?ks = [] then Some n else w_last_child P)\<rparr>)"
    "s' n = Some N" "w \<notin> {p, n} \<Longrightarrow> s' w = s1 w" for w
    using n(2) by (simp_all add: s'_def)
  have rest: "s' w = ?s w" if "w \<notin> {p, n}" "w \<notin> set (fids ?ks)" for w
    using s'(3) [OF that(1)] kid(1) that(2) by (auto simp: s1_def)
  have K: "reps s' (Some p) (Some n) None ?ks"
  proof (cases "?ks = []")
    case False
    then obtain H where H: "?s (root_id (hd ?ks)) = Some H" using kid by auto
    have "reps (?s(root_id (hd ?ks) \<mapsto> H\<lparr>w_prev := Some n\<rparr>)) (Some p) (Some n) None ?ks"
      by (rule reps_set_prev [OF k False _ refl H]) (use d in simp)
    moreover have "s' w = (?s(root_id (hd ?ks) \<mapsto> H\<lparr>w_prev := Some n\<rparr>)) w" if "w \<in> set (fids ?ks)" for w
    proof -
      have "w \<notin> {p, n}" using that d n by auto
      then show ?thesis using s'(3) [of w] False H by (simp add: s1_def)
    qed
    ultimately show ?thesis by (subst reps_cong) auto
  qed simp
  have new: "reps s' (Some p) None None (Node n [] # ?ks)" using K s'(2) by (simp add: links_def N_def zero_widget_def)
  have p': "map_option links (s' p) = map_option (\<lambda>r. (w_parent r, w_prev r, w_next r, first_id (Node n [] # ?ks) None,
      last_id (Node n [] # ?ks) None)) (?s p)"
    using P s'(1) by (auto simp: links_def first_id_def last_id_def)
  have other: "map_option body (s' w) = map_option body (?s w)" if "w \<noteq> n" for w
    using that P s' kid by (cases "w = p") (auto simp: s1_def)
  have wtype: "\<exists>r. ?s w = Some r \<and> w_type r' = w_type r" if w: "w \<in> set (fids F)" "s' w = Some r'" for w r'
  proof -
    have "map_option body (s' w) = map_option body (?s w)" using w n by (intro other) auto
    then obtain r where "?s w = Some r" "body r' = body r" using w(2) by (cases "?s w") auto
    then have "w_type (body r') = w_type (body r)" by simp
    with \<open>?s w = Some r\<close> show ?thesis by (simp add: body_def)
  qed
  have "fbtk_tree (st\<lparr>widgets := s', next_addr := n + 1, tk_heap := h\<rparr>) (put_kids p (Node n [] # ?ks) F)"
  proof (rule put_kids_tree [OF assms(1,2)])
    fix w assume w: "w \<in> set (fids F)" "w \<noteq> p" "w \<notin> set (fids ?ks)"
    then have "s' w = ?s w" using n(1) by (intro rest) auto
    then show "map_option links (widgets (st\<lparr>widgets := s', next_addr := n + 1, tk_heap := h\<rparr>) w) = map_option links (?s w)"
      by simp
  next
    show "\<And>w. w \<in> set (fids (Node n [] # ?ks)) \<Longrightarrow> w < next_addr (st\<lparr>widgets := s', next_addr := n + 1, tk_heap := h\<rparr>)"
      using assms(1,4) kids_of_sub [OF assms(2)] by (auto simp: fbtk_tree_def less_Suc_eq)
  qed (use assms(4) n d new p' wtype in auto)
  moreover have "body N = zero_widget\<lparr>w_type := type, w_x := x, w_y := y, w_width := fit_extent (w_width P) x width,
           w_height := fit_extent (w_height P) y height\<rparr>"
    by (simp add: N_def body_def zero_widget_def)
  ultimately show ?thesis using P(1) s'(2) other
    by (intro that [of "st\<lparr>widgets := s', next_addr := n + 1, tk_heap := h\<rparr>"]) (simp_all add: run)
qed

end
