(* ===== verification/Fbtk_Walk.thy ===== *)
theory Fbtk_Walk
  imports Fbtk_Tree
begin

text \<open>
  The walks along the links of the widget hierarchy, as functions of the tree: the root,
  absolute coordinates, visibility and the widget at a point (\<^verbatim>\<open>fbtk_get_root_widget\<close>,
  \<^verbatim>\<open>fbtk_get_absx\<close>, \<^verbatim>\<open>fbtk_get_bbox\<close>, \<^verbatim>\<open>fbtk_get_widget_at\<close> of \<^verbatim>\<open>fbtk.c\<close>).
\<close>

section \<open>Ancestors\<close>

text \<open>The widgets above \<open>w\<close>, its parent first.\<close>

fun anc :: "wid \<Rightarrow> wtree list \<Rightarrow> wid list" where
  "anc w [] = []"
| "anc w (Node v ks # ts) = (if v = w then [] else if w \<in> set (fids ks) then anc w ks @ [v] else anc w ts)"

lemma anc_links:
  assumes "reps s par pv nx ts" "w \<in> set (fids ts)" "s w = Some r"
  shows "w_parent r = (case anc w ts of [] \<Rightarrow> par | p # _ \<Rightarrow> Some p)"
  using assms
proof (induction s par pv nx ts rule: reps.induct)
  case (2 s par pv nx v ks ts)
  consider "v = w" | "v \<noteq> w" "w \<in> set (fids ks)" | "v \<noteq> w" "w \<notin> set (fids ks)" "w \<in> set (fids ts)" using "2.prems"(2) by auto
  then show ?case
  proof cases
    case 2
    then show ?thesis using "2.IH"(1) "2.prems" by (auto split: list.splits)
  qed (use 2 in \<open>auto simp: links_def\<close>)
qed simp

lemma anc_step:
  assumes "distinct (fids ts)" "w \<in> set (fids ts)" "anc w ts = p # ps"
  shows "p \<in> set (fids ts) \<and> anc p ts = ps"
  using assms
proof (induction w ts arbitrary: ps rule: anc.induct)
  case (2 w v ks ts)
  consider "v = w" | "v \<noteq> w" "w \<in> set (fids ks)" | "v \<noteq> w" "w \<notin> set (fids ks)" "w \<in> set (fids ts)" using "2.prems"(2) by auto
  then show ?case
  proof cases
    case 2
    show ?thesis
    proof (cases "anc w ks")
      case Nil
      then show ?thesis using 2 "2.prems" by auto
    next
      case (Cons q qs)
      with 2 "2.prems"(3) have q: "q = p" "qs @ [v] = ps" by auto
      have "p \<in> set (fids ks) \<and> anc p ks = qs" using "2.IH"(1) [of qs] 2 "2.prems"(1) Cons q by auto
      then show ?thesis using 2 "2.prems"(1) q by auto
    qed
  next
    case 3
    then show ?thesis using "2.IH"(2) [of ps] "2.prems" by auto
  qed (use "2.prems" in auto)
qed simp

lemma anc_root:
  assumes "length F = 1" "distinct (fids F)" "w \<in> set (fids F)"
  shows "anc w F = [] \<longleftrightarrow> w = root_id (hd F)"
proof -
  obtain v ks where F: "F = [Node v ks]" using assms(1) by (cases F rule: fids.cases) auto
  then show ?thesis using assms(3) by auto
qed

text \<open>An induction along the way up: the step from a widget to its parent.\<close>

lemma tree_up:
  assumes "fbtk_tree st F" "w \<in> set (fids F)"
    and top: "\<And>r. widgets st (root_id (hd F)) = Some r \<Longrightarrow> w_parent r = None \<Longrightarrow> w_type r = FB_WIDGET_TYPE_ROOT \<Longrightarrow> P (root_id (hd F)) []"
    and step: "\<And>w r p ps. widgets st w = Some r \<Longrightarrow> w_parent r = Some p \<Longrightarrow> P p ps \<Longrightarrow> P w (p # ps)"
  shows "P w (anc w F)"
  using assms(2)
proof (induction "anc w F" arbitrary: w)
  case Nil
  have F: "length F = 1" "reps (widgets st) None None None F" "distinct (fids F)" using assms(1) by (simp_all add: fbtk_tree_def)
  then have w: "w = root_id (hd F)" using anc_root [OF F(1,3) Nil.prems] Nil.hyps by simp
  obtain r where r: "widgets st w = Some r" using reps_alive [OF F(2) Nil.prems] by blast
  then have "w_type r = FB_WIDGET_TYPE_ROOT" using assms(1) w by (simp add: fbtk_tree_def)
  moreover have "w_parent r = None" using anc_links [OF F(2) Nil.prems r] Nil.hyps [symmetric] by simp
  ultimately show ?case using top r w Nil.hyps by simp
next
  case (Cons p ps)
  have F: "length F = 1" "reps (widgets st) None None None F" "distinct (fids F)" using assms(1) by (simp_all add: fbtk_tree_def)
  have p: "p \<in> set (fids F)" "anc p F = ps" using anc_step [OF F(3) Cons.prems Cons.hyps(2) [symmetric]] by auto
  obtain r where r: "widgets st w = Some r" using reps_alive [OF F(2) Cons.prems] by blast
  then have "w_parent r = Some p" using anc_links [OF F(2) Cons.prems r] Cons.hyps(2) [symmetric] by simp
  moreover have "P p ps" using Cons.hyps(1) [of p] p by simp
  ultimately have "P w (p # ps)" by (rule step [OF r])
  then show ?case using Cons.hyps(2) by simp
qed

lemma tree_alive: "fbtk_tree st F \<Longrightarrow> w \<in> set (fids F) \<Longrightarrow> \<exists>r. widgets st w = Some r"
  using reps_alive [of "widgets st" None None None F w] by (auto simp: fbtk_tree_def)

lemma tree_root_in: "fbtk_tree st F \<Longrightarrow> root_id (hd F) \<in> set (fids F)"
  using end_in(1) [of F] by (cases F) (auto simp: fbtk_tree_def)

lemma tree_root:
  assumes "fbtk_tree st F" "w \<in> set (fids F)"
  shows "fbtk_get_root_widget st w = Some (root_id (hd F))"
  by (rule tree_up [OF assms, where P = "\<lambda>w ps. fbtk_get_root_widget st w = Some (root_id (hd F))"])
    (subst fbtk_get_root_widget_simps, simp)+

text \<open>What a walk up adds together.\<close>

definition up_sum :: "('cb fbtk_widget \<Rightarrow> int) \<Rightarrow> 'cb store \<Rightarrow> wid list \<Rightarrow> int" where
  "up_sum coord s ws = (\<Sum>w\<leftarrow>ws. coord (the (s w)))"

lemma up_sum_simps [simp]: "up_sum coord s [] = 0" "up_sum coord s (w # ws) = coord (the (s w)) + up_sum coord s ws"
  by (simp_all add: up_sum_def)

definition abs_of :: "('cb fbtk_widget \<Rightarrow> int) \<Rightarrow> 'cb store \<Rightarrow> wtree list \<Rightarrow> wid \<Rightarrow> int" where
  "abs_of coord s F w = up_sum coord s (w # anc w F)"

lemma tree_add_up:
  assumes "fbtk_tree st F" "w \<in> set (fids F)"
  shows "\<And>acc. add_up coord st (Some w) acc = Some (acc + up_sum coord (widgets st) (w # anc w F))"
  by (rule tree_up [OF assms, where P = "\<lambda>w ps. \<forall>acc. add_up coord st (Some w) acc = Some (acc + up_sum coord (widgets st) (w # ps))", rule_format])
    (simp_all add: add_up.simps)

lemma tree_shift_up:
  assumes "fbtk_tree st F" "w \<in> set (fids F)"
  shows "\<And>b. shift_up st (Some w) b = (let dx = up_sum w_x (widgets st) (w # anc w F); dy = up_sum w_y (widgets st) (w # anc w F)
    in Some \<lparr>x0 = x0 b + dx, y0 = y0 b + dy, x1 = x1 b + dx, y1 = y1 b + dy\<rparr>)"
  by (rule tree_up [OF assms, where P = "\<lambda>w ps. \<forall>b. shift_up st (Some w) b = (let dx = up_sum w_x (widgets st) (w # ps);
      dy = up_sum w_y (widgets st) (w # ps) in Some \<lparr>x0 = x0 b + dx, y0 = y0 b + dy, x1 = x1 b + dx, y1 = y1 b + dy\<rparr>)", rule_format])
    (simp_all add: shift_up.simps Let_def algebra_simps)

lemma tree_abs:
  assumes "fbtk_tree st F" "w \<in> set (fids F)"
  shows "fbtk_get_absx st w = Some (abs_of w_x (widgets st) F w)" "fbtk_get_absy st w = Some (abs_of w_y (widgets st) F w)"
    "fbtk_get_bbox st w = (let r = the (widgets st w); x = abs_of w_x (widgets st) F w; y = abs_of w_y (widgets st) F w
       in Some \<lparr>x0 = x, y0 = y, x1 = x + w_width r, y1 = y + w_height r\<rparr>)"
proof -
  obtain r where r: "widgets st w = Some r" using tree_alive [OF assms] by blast
  have "add_up c st (Some w) 0 = add_up c st (w_parent r) (c r)" for c using r by (simp add: add_up.simps [of c st "Some w"])
  then show "fbtk_get_absx st w = Some (abs_of w_x (widgets st) F w)" "fbtk_get_absy st w = Some (abs_of w_y (widgets st) F w)"
    using tree_add_up [OF assms, of w_x 0] tree_add_up [OF assms, of w_y 0] r
    by (simp_all add: fbtk_get_absx_def fbtk_get_absy_def abs_of_def)
  have "shift_up st (Some w) \<lparr>x0 = 0, y0 = 0, x1 = w_width r, y1 = w_height r\<rparr>
      = shift_up st (w_parent r) \<lparr>x0 = w_x r, y0 = w_y r, x1 = w_x r + w_width r, y1 = w_y r + w_height r\<rparr>"
    using r by (simp add: shift_up.simps [of st "Some w"] algebra_simps)
  then show "fbtk_get_bbox st w = (let r = the (widgets st w); x = abs_of w_x (widgets st) F w; y = abs_of w_y (widgets st) F w
       in Some \<lparr>x0 = x, y0 = y, x1 = x + w_width r, y1 = y + w_height r\<rparr>)"
    using tree_shift_up [OF assms, of "\<lparr>x0 = 0, y0 = 0, x1 = w_width r, y1 = w_height r\<rparr>"] r
    by (simp add: fbtk_get_bbox_def abs_of_def Let_def algebra_simps)
qed

definition visible :: "'cb store \<Rightarrow> wtree list \<Rightarrow> wid \<Rightarrow> bool" where
  "visible s F w \<longleftrightarrow> list_all (\<lambda>v. w_mapped (the (s v))) (w # anc w F)"

lemma tree_mapped_up:
  assumes "fbtk_tree st F" "w \<in> set (fids F)"
  shows "mapped_up st (Some w) = Some (visible (widgets st) F w)"
  unfolding visible_def
  by (rule tree_up [OF assms, where P = "\<lambda>w ps. mapped_up st (Some w) = Some (list_all (\<lambda>v. w_mapped (the (widgets st v))) (w # ps))"])
    (simp_all add: mapped_up.simps)

section \<open>The widget at a point\<close>

text \<open>The first sibling that covers the point, or what is deepest inside it.\<close>

fun hit :: "'cb store \<Rightarrow> wtree list \<Rightarrow> int \<Rightarrow> int \<Rightarrow> wid option" where
  "hit s [] x y = None"
| "hit s (Node w ks # ts) x y = (let r = the (s w) in
     if covers r x y then (case hit s ks (x - w_x r) (y - w_y r) of None \<Rightarrow> Some w | Some v \<Rightarrow> Some v)
     else hit s ts x y)"

lemma loop_hit:
  assumes "reps (widgets st) par pv None ts"
  shows "widget_at_loop st (first_id ts None) x y found
    = Some (case hit (widgets st) ts x y of None \<Rightarrow> found | Some v \<Rightarrow> Some v)"
  using assms
proof (induction "widgets st" par pv "None :: wid option" ts arbitrary: x y found rule: reps.induct)
  case (2 par pv w ks ts)
  then obtain r where r: "widgets st w = Some r" "w_next r = first_id ts None" "w_first_child r = first_id ks None"
    by (auto simp: links_def)
  then show ?case using 2 by (subst widget_at_loop.simps) (auto simp: Let_def split: option.splits)
qed (simp add: widget_at_loop.simps)

lemma hit_in: "hit s ts x y = Some v \<Longrightarrow> v \<in> set (fids ts)"
  by (induction s ts x y arbitrary: v rule: hit.induct) (auto simp: Let_def split: if_splits option.splits)

lemma hit_inside:
  assumes "hit s ts x y = Some v" "distinct (fids ts)" "reps s par pv nx ts"
  shows "covers (the (s v)) (x - up_sum w_x s (anc v ts)) (y - up_sum w_y s (anc v ts))
    \<and> list_all (\<lambda>u. w_mapped (the (s u))) (v # anc v ts)
    \<and> list_all (\<lambda>k. \<not> covers (the (s (root_id k))) (x - abs_of w_x s ts v) (y - abs_of w_y s ts v)) (kids_of v ts)"
  using assms
proof (induction s ts x y arbitrary: v par pv nx rule: hit.induct)
  case (2 s w ks ts x y)
  let ?r = "the (s w)"
  have none: "list_all (\<lambda>k. \<not> covers (the (s (root_id k))) x' y') us" if "hit s us x' y' = None" for us x' y'
    using that by (induction us rule: fids.induct) (auto simp: Let_def split: if_splits option.splits)
  have up: "up_sum c s (as @ [b]) = up_sum c s as + c (the (s b))" for c as b by (simp add: up_sum_def)
  show ?case
  proof (cases "covers ?r x y")
    case True
    show ?thesis
    proof (cases "hit s ks (x - w_x ?r) (y - w_y ?r)")
      case None
      then have "v = w" using True "2.prems"(1) by (simp add: Let_def)
      then show ?thesis using True none [OF None] by (simp add: abs_of_def covers_def)
    next
      case (Some u)
      then have u: "u = v" "v \<in> set (fids ks)" "v \<noteq> w" using True "2.prems"(1,2) hit_in [OF Some] by (auto simp: Let_def)
      have "covers (the (s v)) (x - w_x ?r - up_sum w_x s (anc v ks)) (y - w_y ?r - up_sum w_y s (anc v ks))
        \<and> list_all (\<lambda>u. w_mapped (the (s u))) (v # anc v ks)
        \<and> list_all (\<lambda>k. \<not> covers (the (s (root_id k))) (x - w_x ?r - abs_of w_x s ks v) (y - w_y ?r - abs_of w_y s ks v)) (kids_of v ks)"
        using "2.IH"(1) [OF refl True, of v "Some w" None None] Some u "2.prems"(2,3) by auto
      then show ?thesis using u True by (simp add: abs_of_def up covers_def algebra_simps)
    qed
  next
    case False
    then have h: "hit s ts x y = Some v" using "2.prems"(1) by (simp add: Let_def)
    then have "v \<in> set (fids ts)" "v \<noteq> w" "v \<notin> set (fids ks)" using hit_in [OF h] "2.prems"(2) by auto
    then show ?thesis using "2.IH"(2) [OF refl False h, of par "Some w" nx] "2.prems"(2,3) by (simp add: abs_of_def)
  qed
qed simp

lemma tree_widget_at:
  assumes "fbtk_tree st F" "w \<in> set (fids F)"
  shows "fbtk_get_widget_at st w x y = Some (hit (widgets st) F x y)"
proof -
  have "first_id F None = Some (root_id (hd F))" using assms(1) by (auto simp: fbtk_tree_def first_id_def)
  then show ?thesis
    using loop_hit [of st None None F x y None] assms(1) root_or_null_root [OF tree_root [OF assms]]
    by (auto simp: fbtk_get_widget_at_def fbtk_tree_def split: option.splits)
qed

end
