(* ===== verification/Fbtk_Destroy.thy ===== *)
theory Fbtk_Destroy
  imports Fbtk_Tree
begin

text \<open>
  Destroying widgets: \<^verbatim>\<open>fbtk_destroy_widget\<close> of \<^verbatim>\<open>frontends/framebuffer/fbtk/fbtk.c\<close> takes
  exactly one subtree out of the hierarchy and frees all of it, whatever the callbacks do
  as long as they keep the contract \<open>quiet_handler\<close>.
\<close>

section \<open>Subtrees of subtrees\<close>

lemma kids_of_append: "kids_of p (as @ bs) = (if p \<in> set (fids as) then kids_of p as else kids_of p bs)"
  by (induction p as rule: kids_of.induct) auto

lemma kids_of_below:
  assumes "w \<in> set (fids F)" "c \<in> set (fids (kids_of w F))" "distinct (fids F)"
  shows "c \<in> set (fids F)" "kids_of c F = kids_of c (kids_of w F)"
proof -
  show "c \<in> set (fids F)" using assms(1,2) kids_of_sub by fast
  show "kids_of c F = kids_of c (kids_of w F)" using assms
  proof (induction w F rule: kids_of.induct)
    case (2 w v ks ts)
    consider "v = w" | "v \<noteq> w" "w \<in> set (fids ks)" | "v \<noteq> w" "w \<notin> set (fids ks)" "w \<in> set (fids ts)" using "2.prems"(1) by auto
    then show ?case
    proof cases
      case 2
      then have "c \<in> set (fids ks)" using "2.prems"(2) kids_of_sub [of w ks] by auto
      with 2 show ?thesis using "2.IH"(1) "2.prems" by auto
    next
      case 3
      then have "c \<in> set (fids ts)" using "2.prems"(2) kids_of_sub [of w ts] by auto
      with 3 show ?thesis using "2.IH"(2) "2.prems" by auto
    qed (use "2.prems" in auto)
  qed simp
qed

lemma put_below:
  assumes "w \<in> set (fids F)" "c \<in> set (fids (kids_of w F))" "distinct (fids F)" "w \<notin> set (fids new)"
  shows "kids_of w (put_kids c new F) = put_kids c new (kids_of w F)"
    "put_kids w new' (put_kids c new F) = put_kids w new' F"
proof -
  have "kids_of w (put_kids c new F) = put_kids c new (kids_of w F)
      \<and> put_kids w new' (put_kids c new F) = put_kids w new' F"
    using assms
  proof (induction w F rule: kids_of.induct)
    case (2 w v ks ts)
    consider (here) "v = w" | (ks) "v \<noteq> w" "w \<in> set (fids ks)" | (ts) "v \<noteq> w" "w \<notin> set (fids ks)" "w \<in> set (fids ts)"
      using "2.prems"(1) by auto
    then show ?case
    proof cases
      case ks
      then have c: "c \<in> set (fids ks)" "c \<noteq> v" "c \<notin> set (fids ts)" using "2.prems"(2,3) kids_of_sub [of w ks] by auto
      have "w \<notin> set (fids (kids_of c ks))"
        using kids_of_below [of w ks c] ks "2.prems" kids_of_sub [of c "kids_of w ks"] not_own_kid [of ks w] by auto
      then have "w \<in> set (fids (put_kids c new ks))"
        using put_kids_set [OF c(1), of new] ks "2.prems"(3) by auto
      with ks c show ?thesis using "2.IH"(1) "2.prems" by (auto simp: put_kids_absent)
    next
      case ts
      then have c: "c \<in> set (fids ts)" "c \<noteq> v" "c \<notin> set (fids ks)" using "2.prems"(2,3) kids_of_sub [of w ts] by auto
      with ts show ?thesis using "2.IH"(2) "2.prems" by (auto simp: put_kids_absent)
    next
      case here
      then have "c \<in> set (fids ks)" "c \<noteq> v" "c \<notin> set (fids ts)" using "2.prems"(2,3) by auto
      with here show ?thesis using "2.prems" by (auto simp: put_kids_absent)
    qed
  qed simp
  then show "kids_of w (put_kids c new F) = put_kids c new (kids_of w F)"
    "put_kids w new' (put_kids c new F) = put_kids w new' F" by auto
qed

lemma kid_below:
  assumes "fbtk_tree st F" "w \<in> set (fids F)" "kids_of w F = Node c kc # ks"
  shows "c \<in> set (fids F)" "kids_of c F = kc" "kids_of w (put_kids c [] F) = Node c [] # ks"
    "put_kids w ks' (put_kids c [] F) = put_kids w ks' F" "w \<in> set (fids (put_kids c [] F))"
proof -
  have d: "distinct (fids F)" "c \<in> set (fids (kids_of w F))" using assms by (auto simp: fbtk_tree_def)
  have k: "distinct (fids (kids_of w F))" using kids_of_distinct [OF d(1)] .
  show c: "c \<in> set (fids F)" "kids_of c F = kc" using kids_of_below [OF assms(2) d(2,1)] assms(3) by simp_all
  show "kids_of w (put_kids c [] F) = Node c [] # ks" "put_kids w ks' (put_kids c [] F) = put_kids w ks' F"
    using put_below [OF assms(2) d(2,1)] assms(3) k by (simp_all add: put_kids_absent)
  show "w \<in> set (fids (put_kids c [] F))"
    using put_kids_set [OF c(1) d(1)] assms(2,3) not_own_kid [OF d(1), of w] c(2) by auto
qed

section \<open>Taking one widget out\<close>

definition unlink_store :: "wid \<Rightarrow> wid \<Rightarrow> wtree list \<Rightarrow> wtree list \<Rightarrow> 'cb store \<Rightarrow> 'cb store" where
  "unlink_store p w as bs s = (let
     at = (\<lambda>s w. the (s w));
     s = (if as = [] then s(p \<mapsto> (at s p)\<lparr>w_first_child := first_id bs None\<rparr>)
       else let b = root_id (last as) in s(b \<mapsto> (at s b)\<lparr>w_next := first_id bs None\<rparr>));
     s = (if bs = [] then s(p \<mapsto> (at s p)\<lparr>w_last_child := last_id as None\<rparr>)
       else let a = root_id (hd bs) in s(a \<mapsto> (at s a)\<lparr>w_prev := last_id as None\<rparr>))
   in s(w := None))"

lemma unlink_ends:
  assumes "distinct (p # fids (as @ Node w kw # bs))"
  shows "p \<noteq> w" "as \<noteq> [] \<Longrightarrow> root_id (last as) \<notin> {p, w}" "bs \<noteq> [] \<Longrightarrow> root_id (hd bs) \<notin> {p, w}"
    "as \<noteq> [] \<Longrightarrow> bs \<noteq> [] \<Longrightarrow> root_id (last as) \<noteq> root_id (hd bs)"
  using assms end_in(2) [of as] end_in(1) [of bs] by auto

lemma unlink_free_store:
  assumes "reps (widgets st) (Some p) None None (as @ Node w kw # bs)" "distinct (p # fids (as @ Node w kw # bs))"
    "widgets st p \<noteq> None"
  shows "unlink_free w st = Some (st\<lparr>widgets := unlink_store p w as bs (widgets st)\<rparr>)"
proof -
  obtain W P where s: "widgets st w = Some W" "widgets st p = Some P" using assms(1,3) by (auto simp: reps_append)
  have W: "w_parent W = Some p" "w_prev W = last_id as None" "w_next W = first_id bs None"
    using assms(1) s by (simp_all add: reps_append links_def)
  have b: "\<exists>B. widgets st (root_id (last as)) = Some B" if "as \<noteq> []"
    using assms(1) that end_in(2) [OF that] reps_alive by (fastforce simp: reps_append)
  have a: "\<exists>A. widgets st (root_id (hd bs)) = Some A" if "bs \<noteq> []"
    using assms(1) that end_in(1) [OF that] reps_alive by (fastforce simp: reps_append)
  show ?thesis using s W a b unlink_ends [OF assms(2)]
    by (cases "as = []"; cases "bs = []")
      (auto simp: unlink_free_def unlink_store_def Let_def upd_widget_def first_id_def last_id_def)
qed

lemma unlink_store_at:
  fixes s :: "'cb store"
  assumes "distinct (p # fids (as @ Node w kw # bs))"
  defines "s' \<equiv> unlink_store p w as bs s"
  shows "s' w = None"
    "v \<in> set (fids as) \<Longrightarrow> s' v = (if v = root_id (last as) then Some ((the (s v))\<lparr>w_next := first_id bs None\<rparr>) else s v)"
    "v \<in> set (fids bs) \<Longrightarrow> s' v = (if v = root_id (hd bs) then Some ((the (s v))\<lparr>w_prev := last_id as None\<rparr>) else s v)"
    "s p = Some P \<Longrightarrow> s' p = Some (P\<lparr>w_first_child := (if as = [] then first_id bs None else w_first_child P),
       w_last_child := (if bs = [] then last_id as None else w_last_child P)\<rparr>)"
    "v \<noteq> p \<Longrightarrow> v \<notin> set (fids (as @ Node w [] # bs)) \<Longrightarrow> s' v = s v"
proof -
  note ne = unlink_ends [OF assms(1)]
  note def = s'_def unlink_store_def Let_def
  show "s' w = None" by (simp add: def)
  show "s p = Some P \<Longrightarrow> s' p = Some (P\<lparr>w_first_child := (if as = [] then first_id bs None else w_first_child P),
       w_last_child := (if bs = [] then last_id as None else w_last_child P)\<rparr>)"
    using ne by (cases "as = []"; cases "bs = []") (auto simp: def)
  have out: "s' v = s v" if "v \<noteq> p" "v \<noteq> w" "as \<noteq> [] \<longrightarrow> v \<noteq> root_id (last as)" "bs \<noteq> [] \<longrightarrow> v \<noteq> root_id (hd bs)" for v
    using that by (cases "as = []"; cases "bs = []") (auto simp: def)
  show "v \<in> set (fids as) \<Longrightarrow> s' v = (if v = root_id (last as) then Some ((the (s v))\<lparr>w_next := first_id bs None\<rparr>) else s v)"
    using assms(1) ne end_in(1) [of bs] out [of v] by (cases "as = []"; cases "bs = []") (auto simp: def)
  show "v \<in> set (fids bs) \<Longrightarrow> s' v = (if v = root_id (hd bs) then Some ((the (s v))\<lparr>w_prev := last_id as None\<rparr>) else s v)"
    using assms(1) ne end_in(2) [of as] out [of v] by (cases "as = []"; cases "bs = []") (auto simp: def)
  show "v \<noteq> p \<Longrightarrow> v \<notin> set (fids (as @ Node w [] # bs)) \<Longrightarrow> s' v = s v"
    using end_in(2) [of as] end_in(1) [of bs] by (intro out) auto
qed

lemma unlink_store_body:
  assumes "s p \<noteq> None" "as \<noteq> [] \<Longrightarrow> s (root_id (last as)) \<noteq> None" "bs \<noteq> [] \<Longrightarrow> s (root_id (hd bs)) \<noteq> None" "v \<noteq> w"
  shows "map_option body (unlink_store p w as bs s v) = map_option body (s v)"
  using assms unfolding unlink_store_def Let_def by (cases "as = []"; cases "bs = []") auto

lemma body_type: "map_option body (s' w) = map_option body (s w) \<Longrightarrow> s' w = Some r' \<Longrightarrow> \<exists>r. s w = Some r \<and> w_type r' = w_type r"
proof -
  assume "map_option body (s' w) = map_option body (s w)" "s' w = Some r'"
  then obtain r where r: "s w = Some r" "body r' = body r" by (cases "s w") auto
  then have "w_type (body r') = w_type (body r)" by simp
  then show ?thesis using r by (simp add: body_def)
qed

text \<open>The addresses \<open>ws\<close> have been freed, the other widgets are as they were but for their links.\<close>

definition freed :: "wid set \<Rightarrow> 'cb store \<Rightarrow> 'cb store \<Rightarrow> bool" where
  "freed ws s s' \<longleftrightarrow> (\<forall>v. if v \<in> ws then s' v = None else map_option body (s' v) = map_option body (s v))"

lemma freed_empty [simp]: "freed {} s s"
  by (simp add: freed_def)

lemma freed_trans: "freed ws s s' \<Longrightarrow> freed ws' s' s'' \<Longrightarrow> freed (ws \<union> ws') s s''"
  unfolding freed_def by (metis (full_types) Un_iff map_option_is_None)

lemma unlink_kid:
  assumes "fbtk_tree st F" "p \<in> set (fids F)" "kids_of p F = as @ Node w [] # bs"
  obtains s where "unlink_free w st = Some (st\<lparr>widgets := s\<rparr>)" "fbtk_tree (st\<lparr>widgets := s\<rparr>) (put_kids p (as @ bs) F)"
    "freed {w} (widgets st) s"
proof -
  let ?s = "widgets st" and ?ks = "as @ Node w [] # bs"
  define s' where "s' = unlink_store p w as bs ?s"
  have d: "distinct (p # fids ?ks)" and k: "reps ?s (Some p) None None ?ks" and P: "\<exists>P. ?s p = Some P
      \<and> w_first_child P = first_id ?ks None \<and> w_last_child P = last_id ?ks None"
    using assms not_own_kid [of F p] kids_of_distinct [of F p] kids_of_reps [of ?s None None None F p] by (auto simp: fbtk_tree_def)
  obtain P where P: "?s p = Some P" "w_first_child P = first_id ?ks None" "w_last_child P = last_id ?ks None" using P by blast
  note at = unlink_store_at [OF d, where s = ?s, folded s'_def]
  have pieces: "reps ?s (Some p) None (Some w) as" "reps ?s (Some p) (Some w) None bs"
    using k by (simp_all add: reps_append)
  have A: "reps s' (Some p) None (first_id bs None) as"
  proof (cases "as = []")
    case False
    then obtain B where B: "?s (root_id (last as)) = Some B" using pieces(1) end_in(2) reps_alive by fastforce
    have "reps (?s(root_id (last as) \<mapsto> B\<lparr>w_next := first_id bs None\<rparr>)) (Some p) None (first_id bs None) as"
      by (rule reps_set_next [OF pieces(1) False _ refl B]) (use d in simp)
    then show ?thesis by (rule reps_cong [THEN iffD1, rotated]) (use at(2) B in auto)
  qed simp
  have B: "reps s' (Some p) (last_id as None) None bs"
  proof (cases "bs = []")
    case False
    then obtain B where B: "?s (root_id (hd bs)) = Some B" using pieces(2) end_in(1) reps_alive by fastforce
    have "reps (?s(root_id (hd bs) \<mapsto> B\<lparr>w_prev := last_id as None\<rparr>)) (Some p) (last_id as None) None bs"
      by (rule reps_set_prev [OF pieces(2) False _ refl B]) (use d in simp)
    then show ?thesis by (rule reps_cong [THEN iffD1, rotated]) (use at(3) B in auto)
  qed simp
  have body: "map_option body (s' v) = map_option body (?s v)" if "v \<noteq> w" for v
    unfolding s'_def
    by (rule unlink_store_body) (use P k d that end_in [of as] end_in [of bs] reps_alive [OF k] in auto)
  have wtype: "\<exists>r. ?s v = Some r \<and> w_type r' = w_type r" if "s' v = Some r'" for v r'
    using body_type [of s' v ?s r'] body [of v] at(1) that by (cases "v = w") auto
  have "map_option links (s' p) = map_option (\<lambda>r'. (w_parent r', w_prev r', w_next r',
      first_id (as @ bs) None, last_id (as @ bs) None)) (?s p)"
    using at(4) [OF P(1)] P by (auto simp: links_def first_id_def last_id_def)
  moreover have "s' v = ?s v" if "v \<noteq> p" "v \<notin> set (fids (kids_of p F))" for v
    using at(5) that assms(3) by simp
  moreover have "v < next_addr st" if "v \<in> set (fids (kids_of p F))" for v
    using assms(1) that kids_of_sub [OF assms(2)] by (auto simp: fbtk_tree_def)
  ultimately have "fbtk_tree (st\<lparr>widgets := s'\<rparr>) (put_kids p (as @ bs) F)"
    using d assms(3) A B wtype by (intro put_kids_tree [OF assms(1,2)]) (auto simp: reps_append)
  with unlink_free_store [OF k d] P body at(1) show ?thesis
    by (intro that [of s']) (auto simp: s'_def freed_def)
qed

section \<open>The contract of a callback\<close>

text \<open>A callback that neither changes the hierarchy nor what the root widget holds.\<close>

definition root_data :: "('cb, 'w) toolkit \<Rightarrow> wid option \<times> wid option \<times> wid option \<times> 'cb fbtk_caret" where
  "root_data st = (root_prev st, root_grabbed st, root_input st, root_caret st)"

definition undisturbed :: "('cb, 'w) toolkit \<Rightarrow> ('cb, 'w) toolkit \<Rightarrow> bool" where
  "undisturbed st st' \<longleftrightarrow> widgets st' = widgets st \<and> next_addr st' = next_addr st \<and> root_data st' = root_data st"

lemma undisturbed_refl [simp]: "undisturbed st st"
  by (simp add: undisturbed_def)

lemma undisturbed_tree: "undisturbed st st' \<Longrightarrow> fbtk_tree st' F = fbtk_tree st F"
  by (simp add: undisturbed_def fbtk_tree_def)

text \<open>
  What the toolkit asks of the callbacks of one kind.  \<open>ready\<close> is what they need of the
  application, and keep; \<open>sane\<close> what they need of the widget, which does not depend on its
  place in the hierarchy.
\<close>

locale quiet_handler =
  fixes handler :: "('cb, 'ev, 'w) handler" and cbt :: fbtk_callback_type and ready :: "'w \<Rightarrow> bool"
    and sane :: "'cb fbtk_widget \<Rightarrow> bool"
  assumes quiet: "\<lbrakk>fbtk_tree st F; w \<in> set (fids F); ready (app st); widgets st w = Some r; sane r; w_callback r cbt = Some cb\<rbrakk>
    \<Longrightarrow> \<exists>ret st'. handler cb w (callback_info cbt None None None) st = Some (ret, st') \<and> undisturbed st st' \<and> ready (app st')"
    and sane_body: "body r' = body r \<Longrightarrow> sane r' = sane r"
begin

definition good :: "('cb, 'w) toolkit \<Rightarrow> bool" where
  "good st \<longleftrightarrow> ready (app st) \<and> (\<forall>v r. widgets st v = Some r \<longrightarrow> sane r)"


lemma post_quiet:
  assumes "fbtk_tree st F" "w \<in> set (fids F)" "good st"
  obtains ret st' where "fbtk_post_callback handler (Some w) cbt None None None st = Some (ret, st')"
    "undisturbed st st'" "good st'"
proof -
  obtain r where r: "widgets st w = Some r" using assms reps_alive [of "widgets st"] by (fastforce simp: fbtk_tree_def)
  show ?thesis
  proof (cases "\<not> w_mapped r \<or> w_callback r cbt = None")
    case True
    then show ?thesis using r assms(3) by (intro that [of 0 st]) (auto simp: fbtk_post_callback_def)
  next
    case False
    then obtain cb where "w_callback r cbt = Some cb" by auto
    with quiet [OF assms(1,2) _ r _ this] r False assms(3) show ?thesis
      by (fastforce simp: fbtk_post_callback_def good_def undisturbed_def intro: that)
  qed
qed

end

section \<open>Destroying a subtree\<close>

context quiet_handler
begin

lemma freed_good: "good st \<Longrightarrow> freed ws (widgets st) s \<Longrightarrow> good (st\<lparr>widgets := s\<rparr>)"
proof -
  assume g: "good st" and f: "freed ws (widgets st) s"
  have "sane r" if r: "s v = Some r" for v r
  proof -
    have "map_option body (s v) = map_option body (widgets st v)"
      using f r unfolding freed_def by (metis option.distinct(1))
    then obtain r0 where "widgets st v = Some r0" "body r = body r0" using r by (cases "widgets st v") auto
    with g sane_body [of r r0] show ?thesis by (auto simp: good_def)
  qed
  with g show ?thesis by (simp add: good_def)
qed

lemma destroy_kids:
  assumes "cbt = FBTK_CBT_DESTROY" "fbtk_tree st F" "w \<in> set (fids F)" "kids_of w F = ks" "good st"
  shows "\<exists>st'. destroy_children handler w st = Some st' \<and> fbtk_tree st' (put_kids w [] F) \<and> good st'
    \<and> freed (set (fids ks)) (widgets st) (widgets st') \<and> root_data st' = root_data st"
  using assms(2-)
proof (induction "length (fids ks)" arbitrary: ks st F w rule: less_induct)
  case less
  have "reps (widgets st) (Some w) None None ks \<and> (\<exists>r. widgets st w = Some r \<and> w_first_child r = first_id ks None)"
    using kids_of_reps [of "widgets st" None None None F w] less.prems by (auto simp: fbtk_tree_def)
  then obtain r where r: "widgets st w = Some r" "w_first_child r = first_id ks None" by blast
  show ?case
  proof (cases ks rule: fids.cases)
    case 1
    then have "put_kids w [] F = F" using put_same [of w F] less.prems by (auto simp: fbtk_tree_def)
    then show ?thesis using 1 r less.prems by (subst destroy_children.simps) simp
  next
    case (2 c kc ks')
    note kid = kid_below [OF less.prems(1,2) less.prems(3) [unfolded 2]]
    obtain ret st1 where st1: "fbtk_post_callback handler (Some c) FBTK_CBT_DESTROY None None None st = Some (ret, st1)"
      "undisturbed st st1" "good st1"
      using post_quiet [OF less.prems(1) kid(1) less.prems(4)] assms(1) by auto
    have t1: "fbtk_tree st1 F" using undisturbed_tree [OF st1(2)] less.prems(1) by simp
    have "length (fids kc) < length (fids ks)" using 2 by simp
    from less.hyps [OF this t1 kid(1,2) st1(3)] obtain st2 where
      st2: "destroy_children handler c st1 = Some st2" "fbtk_tree st2 (put_kids c [] F)" "good st2"
        "freed (set (fids kc)) (widgets st1) (widgets st2)" "root_data st2 = root_data st1" by blast
    obtain s3 where s3: "unlink_free c st2 = Some (st2\<lparr>widgets := s3\<rparr>)"
      "fbtk_tree (st2\<lparr>widgets := s3\<rparr>) (put_kids w ks' (put_kids c [] F))" "freed {c} (widgets st2) s3"
      using unlink_kid [OF st2(2) kid(5), of "[]" c ks'] kid(3) by auto
    have t3: "fbtk_tree (st2\<lparr>widgets := s3\<rparr>) (put_kids w ks' F)" using s3(2) kid(4) by simp
    have sub: "set (fids ks') \<subseteq> set (fids (kids_of w F))" using 2 less.prems(3) by auto
    have d: "distinct (fids F)" using less.prems(1) by (simp add: fbtk_tree_def)
    have k3: "kids_of w (put_kids w ks' F) = ks'" "w \<in> set (fids (put_kids w ks' F))"
      using tree_put [OF less.prems(1,2) sub] by auto
    have "length (fids ks') < length (fids ks)" using 2 by simp
    from less.hyps [OF this t3 k3(2,1) freed_good [OF st2(3) s3(3)]] obtain st4 where
      st4: "destroy_children handler w (st2\<lparr>widgets := s3\<rparr>) = Some st4" "fbtk_tree st4 (put_kids w [] (put_kids w ks' F))"
        "good st4" "freed (set (fids ks')) s3 (widgets st4)" "root_data st4 = root_data (st2\<lparr>widgets := s3\<rparr>)" by auto
    have "destroy_children handler w st = Some st4"
      using r 2 st1(1) st2(1) s3(1) st4(1) by (subst destroy_children.simps) simp
    moreover have "freed (set (fids kc) \<union> {c} \<union> set (fids ks')) (widgets st) (widgets st4)"
      using freed_trans [OF freed_trans [OF st2(4) s3(3)] st4(4)] st1(2) by (simp add: undisturbed_def)
    moreover have "set (fids kc) \<union> {c} \<union> set (fids ks') = set (fids ks)" using 2 by auto
    moreover have "root_data st4 = root_data st" using st1(2) st2(5) st4(5) by (simp add: undisturbed_def root_data_def)
    moreover have "put_kids w [] (put_kids w ks' F) = put_kids w [] F" by (simp add: put_put)
    ultimately show ?thesis using st4(2,3) by metis
  qed
qed

lemma destroy_kid:
  assumes "cbt = FBTK_CBT_DESTROY" "fbtk_tree st F" "p \<in> set (fids F)" "kids_of p F = as @ Node w ks # bs" "good st"
  shows "\<exists>ret st'. fbtk_destroy_widget handler w st = Some (ret, st') \<and> fbtk_tree st' (put_kids p (as @ bs) F) \<and> good st'
    \<and> freed (set (w # fids ks)) (widgets st) (widgets st') \<and> root_data st' = root_data st"
proof -
  have d: "distinct (fids F)" "w \<in> set (fids (kids_of p F))" using assms by (auto simp: fbtk_tree_def)
  have kd: "distinct (fids (as @ Node w ks # bs))" using kids_of_distinct [OF d(1), of p] assms(4) by simp
  have w: "w \<in> set (fids F)" "kids_of w F = ks"
    using kids_of_below [OF assms(3) d(2,1)] assms(4) kd by (auto simp: kids_of_append)
  obtain ret st1 where st1: "fbtk_post_callback handler (Some w) FBTK_CBT_DESTROY None None None st = Some (ret, st1)"
    "undisturbed st st1" "good st1"
    using post_quiet [OF assms(2) w(1) assms(5)] assms(1) by auto
  have t1: "fbtk_tree st1 F" using undisturbed_tree [OF st1(2)] assms(2) by simp
  obtain st2 where st2: "destroy_children handler w st1 = Some st2" "fbtk_tree st2 (put_kids w [] F)" "good st2"
    "freed (set (fids ks)) (widgets st1) (widgets st2)" "root_data st2 = root_data st1"
    using destroy_kids [OF assms(1) t1 w st1(3)] by blast
  have "put_kids w [] (as @ Node w ks # bs) = as @ Node w [] # bs"
    using kd by (induction as rule: fids.induct) (auto simp: put_kids_absent)
  then have k: "kids_of p (put_kids w [] F) = as @ Node w [] # bs" "put_kids p (as @ bs) (put_kids w [] F) = put_kids p (as @ bs) F"
    using put_below [OF assms(3) d(2,1), of "[]"] assms(4) by simp_all
  have "p \<in> set (fids (put_kids w [] F))"
    using put_kids_set [OF w(1) d(1), of "[]"] assms(3,4) not_own_kid [OF d(1), of p] w(2) by auto
  then obtain s3 where s3: "unlink_free w st2 = Some (st2\<lparr>widgets := s3\<rparr>)"
    "fbtk_tree (st2\<lparr>widgets := s3\<rparr>) (put_kids p (as @ bs) F)" "freed {w} (widgets st2) s3"
    using unlink_kid [OF st2(2) _ k(1)] k(2) by metis
  have "fbtk_destroy_widget handler w st = Some (ret, st2\<lparr>widgets := s3\<rparr>)"
    using st1(1) st2(1) s3(1) by (simp add: fbtk_destroy_widget_def)
  moreover have "freed (set (fids ks) \<union> {w}) (widgets st) s3"
    using freed_trans [OF st2(4) s3(3)] st1(2) by (simp add: undisturbed_def)
  ultimately show ?thesis using s3(2) st2(5) st1(2) freed_good [OF st2(3) s3(3)] by (auto simp: undisturbed_def root_data_def)
qed

end

end
