(* ===== verification/Fbtk_Redraw.thy ===== *)
theory Fbtk_Redraw
  imports Fbtk_Walk Fbtk_Destroy
begin

text \<open>
  Redraw requests and redrawing (\<^verbatim>\<open>fbtk_request_redraw\<close>, \<^verbatim>\<open>do_redraw\<close> and \<^verbatim>\<open>fbtk_redraw\<close> of
  \<^verbatim>\<open>frontends/framebuffer/fbtk/fbtk.c\<close>): which widgets a request marks, that the marks on the
  way up always lead to them, and that a redraw gets to all of them.
\<close>

section \<open>Marking\<close>

definition mark :: "bool \<Rightarrow> bool \<Rightarrow> 'cb fbtk_widget \<Rightarrow> 'cb fbtk_widget" where
  "mark whole child r = (let r = (if whole then whole_redraw r else r) in if child then flag_child True r else r)"

text \<open>The widgets \<open>N\<close> are to be redrawn as a whole, those of \<open>A\<close> have a child to be redrawn.\<close>

definition marks :: "wid set \<Rightarrow> wid set \<Rightarrow> 'cb store \<Rightarrow> 'cb store \<Rightarrow> bool" where
  "marks N A s s' \<longleftrightarrow> (\<forall>v. s' v = map_option (mark (v \<in> N) (v \<in> A)) (s v))"

lemma mark_none [simp]: "mark False False = (\<lambda>r. r)"
  by (rule ext) (simp add: mark_def)

lemma mark_mark: "mark b c (mark b' c' r) = mark (b \<or> b') (c \<or> c') r"
  by (auto simp: mark_def whole_redraw_def flag_child_def Let_def)

lemma mark_keeps [simp]:
  "links (mark b c r) = links r" "w_mapped (mark b c r) = w_mapped r" "w_type (mark b c r) = w_type r"
  "w_x (mark b c r) = w_x r" "w_y (mark b c r) = w_y r" "w_width (mark b c r) = w_width r" "w_height (mark b c r) = w_height r"
  "w_callback (mark b c r) = w_callback r"
  by (auto simp: mark_def whole_redraw_def flag_child_def links_def Let_def)

lemma marks_refl [simp]: "marks {} {} s s"
  by (simp add: marks_def option.map_ident)

lemma marks_trans: "marks N A s s' \<Longrightarrow> marks N' A' s' s'' \<Longrightarrow> marks (N \<union> N') (A \<union> A') s s''"
  by (simp add: marks_def mark_mark option.map_comp comp_def disj_commute)

lemma marks_at: "marks N A s s' \<Longrightarrow> s v = Some r \<Longrightarrow> s' v = Some (mark (v \<in> N) (v \<in> A) r)"
  by (simp add: marks_def)

lemma marks_tree: "marks N A (widgets st) s' \<Longrightarrow> fbtk_tree st F \<Longrightarrow> fbtk_tree (st\<lparr>widgets := s'\<rparr>) F"
  unfolding fbtk_tree_def
  using reps_cong [of F "widgets st" s'] by (auto simp: marks_def option.map_comp comp_def)

lemma marks_visible:
  assumes "marks N A (widgets st) s'" "fbtk_tree st F" "w \<in> set (fids F)"
  shows "visible s' F w = visible (widgets st) F w"
proof -
  have "v \<in> set (fids F)" if "v \<in> set (anc w F)" for v
    using assms(2,3) that
  proof (induction "anc w F" arbitrary: w)
    case (Cons p ps)
    then have "p \<in> set (fids F)" "anc p F = ps" using anc_step [of F w p ps] by (auto simp: fbtk_tree_def)
    then show ?case using Cons by (metis set_ConsD)
  qed simp
  then have "s' v = map_option (mark (v \<in> N) (v \<in> A)) (widgets st v) \<and> widgets st v \<noteq> None" if "v \<in> set (w # anc w F)" for v
    using that assms tree_alive [OF assms(2)] by (auto simp: marks_def)
  then have "w_mapped (the (s' v)) = w_mapped (the (widgets st v))" if "v \<in> set (w # anc w F)" for v
    using that by fastforce
  then show ?thesis unfolding visible_def list_all_iff by blast
qed

lemma marks_upd: "s w = Some r \<Longrightarrow> marks N A s s' \<Longrightarrow> s' w = Some r' \<Longrightarrow> marks (N \<union> (if b then {w} else {})) (A \<union> (if c then {w} else {})) s (s'(w \<mapsto> mark b c r'))"
  by (auto simp: marks_def mark_mark)

text \<open>All the way up from a widget.\<close>

lemma tree_flag_up:
  assumes "fbtk_tree st F" "w \<in> set (fids F)"
  shows "\<exists>s'. flag_up (Some w) st = Some (st\<lparr>widgets := s'\<rparr>) \<and> marks {} (set (w # anc w F)) (widgets st) s'"
proof -
  have "\<forall>N A s. marks N A (widgets st) s \<longrightarrow> (\<exists>s'. flag_up (Some w) (st\<lparr>widgets := s\<rparr>) = Some (st\<lparr>widgets := s'\<rparr>)
      \<and> marks N (A \<union> set (w # anc w F)) (widgets st) s')"
  proof (rule tree_up [OF assms, where P = "\<lambda>w ps. \<forall>N A s. marks N A (widgets st) s \<longrightarrow>
      (\<exists>s'. flag_up (Some w) (st\<lparr>widgets := s\<rparr>) = Some (st\<lparr>widgets := s'\<rparr>) \<and> marks N (A \<union> set (w # ps)) (widgets st) s')"], goal_cases)
    case (1 r)
    let ?w = "root_id (hd F)"
    show ?case
    proof (intro allI impI)
      fix N A s assume m: "marks N A (widgets st) s"
      let ?r = "mark (?w \<in> N) (?w \<in> A) r"
      have "w_parent ?r = None" using 1(2) mark_keeps(1) [of _ _ r] by (metis links_def prod.inject)
      then have "flag_up (Some ?w) (st\<lparr>widgets := s\<rparr>) = Some (st\<lparr>widgets := s(?w \<mapsto> mark False True ?r)\<rparr>)"
        using marks_at [OF m 1(1)] by (simp add: flag_up.simps mark_def)
      moreover have "marks N (A \<union> {?w}) (widgets st) (s(?w \<mapsto> mark False True ?r))"
        using marks_upd [OF 1(1) m marks_at [OF m 1(1)], of False True] by simp
      ultimately show "\<exists>s'. flag_up (Some ?w) (st\<lparr>widgets := s\<rparr>) = Some (st\<lparr>widgets := s'\<rparr>) \<and> marks N (A \<union> set [?w]) (widgets st) s'"
        by auto
    qed
  next
    case (2 w r p ps)
    show ?case
    proof (intro allI impI)
      fix N A s assume m: "marks N A (widgets st) s"
      let ?r = "mark (w \<in> N) (w \<in> A) r"
      have "w_parent ?r = Some p" using 2(2) mark_keeps(1) [of _ _ r] by (metis links_def prod.inject)
      then have "flag_up (Some w) (st\<lparr>widgets := s\<rparr>) = flag_up (Some p) (st\<lparr>widgets := s(w \<mapsto> mark False True ?r)\<rparr>)"
        using marks_at [OF m 2(1)] by (subst flag_up.simps) (simp add: mark_def)
      moreover have "marks N (A \<union> {w}) (widgets st) (s(w \<mapsto> mark False True ?r))"
        using marks_upd [OF 2(1) m marks_at [OF m 2(1)], of False True] by simp
      ultimately show "\<exists>s'. flag_up (Some w) (st\<lparr>widgets := s\<rparr>) = Some (st\<lparr>widgets := s'\<rparr>) \<and> marks N (A \<union> set (w # p # ps)) (widgets st) s'"
        using 2(3) [rule_format, of N "A \<union> {w}"] by (auto simp: insert_commute)
    qed
  qed
  from this [rule_format, of "{}" "{}" "widgets st"] show ?thesis by simp
qed

section \<open>Which widgets a request marks\<close>

text \<open>Those siblings and their descendants that are mapped, with everything above them up to here.\<close>

fun vis :: "'cb store \<Rightarrow> wtree list \<Rightarrow> wid list" where
  "vis s [] = []"
| "vis s (Node w ks # ts) = (if w_mapped (the (s w)) then w # vis s ks else []) @ vis s ts"

lemma vis_append [simp]: "vis s (as @ bs) = vis s as @ vis s bs"
  by (induction s as rule: vis.induct) simp_all

lemma vis_sub: "set (vis s ts) \<subseteq> set (fids ts)"
  by (induction s ts rule: vis.induct) auto

lemma vis_cong: "(\<And>v. v \<in> set (fids ts) \<Longrightarrow> w_mapped (the (s' v)) = w_mapped (the (s v))) \<Longrightarrow> vis s' ts = vis s ts"
  by (induction s ts rule: vis.induct) auto

lemma marks_vis: "marks N A s s' \<Longrightarrow> reps s par pv nx ts \<Longrightarrow> vis s' ts = vis s ts"
proof (rule vis_cong)
  fix v assume m: "marks N A s s'" and "reps s par pv nx ts" "v \<in> set (fids ts)"
  then obtain r where "s v = Some r" using reps_alive [of s par pv nx ts v] by auto
  then show "w_mapped (the (s' v)) = w_mapped (the (s v))" using marks_at [OF m] by simp
qed

lemma anc_kid:
  assumes "fbtk_tree st F" "p \<in> set (fids F)" "kids_of p F = as @ Node c kc # bs"
  shows "c \<in> set (fids F)" "anc c F = p # anc p F" "kids_of c F = kc"
proof -
  have F: "reps (widgets st) None None None F" "distinct (fids F)" using assms(1) by (simp_all add: fbtk_tree_def)
  have d: "distinct (fids (as @ Node c kc # bs))" using kids_of_distinct [OF F(2), of p] assms(3) by simp
  have c: "c \<in> set (fids F)" "kids_of c F = kids_of c (as @ Node c kc # bs)"
    using kids_of_below [OF assms(2) _ F(2), of c] assms(3) by auto
  then show "c \<in> set (fids F)" "kids_of c F = kc" using d by (auto simp: kids_of_append)
  obtain r where r: "widgets st c = Some r" "w_parent r = Some p"
    by (rule kid_links [OF assms])
  then show "anc c F = p # anc p F"
    using anc_links [OF F(1) c(1) r(1)] anc_step [OF F(2) c(1)] by (cases "anc c F") auto
qed

lemma visible_kid:
  assumes "fbtk_tree st F" "p \<in> set (fids F)" "kids_of p F = as @ Node c kc # bs" "visible s F p"
  shows "visible s F c = w_mapped (the (s c))"
  using anc_kid [OF assms(1-3)] assms(4) by (simp add: visible_def)

definition ancs :: "wtree list \<Rightarrow> wid list \<Rightarrow> wid set" where
  "ancs F ws = (\<Union>w\<in>set ws. set (anc w F))"

lemma ancs_simps [simp]: "ancs F [] = {}" "ancs F (w # ws) = set (anc w F) \<union> ancs F ws" "ancs F (vs @ ws) = ancs F vs \<union> ancs F ws"
  by (auto simp: ancs_def)

lemma tree_request_children:
  assumes "fbtk_tree st F" "p \<in> set (fids F)" "visible (widgets st) F p" "kids_of p F = ts @ us"
  shows "\<exists>s'. request_children (last_id ts None) st = Some (st\<lparr>widgets := s'\<rparr>)
    \<and> marks (set (vis (widgets st) ts)) (ancs F (vis (widgets st) ts)) (widgets st) s'"
  using assms
proof (induction "length (fids ts)" arbitrary: ts us p st rule: less_induct)
  case less
  show ?case
  proof (cases ts rule: rev_cases)
    case Nil
    then show ?thesis by (intro exI [of _ "widgets st"]) (simp add: request_children.simps)
  next
    case (snoc ts' c')
    obtain c kc where c: "c' = Node c kc" by (cases c')
    have k: "kids_of p F = ts' @ Node c kc # us" using less.prems(4) snoc c by simp
    note kid = anc_kid [OF less.prems(1,2) k]
    obtain r where r: "widgets st c = Some r" "w_prev r = last_id ts' None" "w_parent r = Some p"
      by (rule kid_links [OF less.prems(1,2) k])
    have m: "mapped_up st (Some c) = Some (w_mapped r)"
      using tree_mapped_up [OF less.prems(1) kid(1)] visible_kid [OF less.prems(1,2) k less.prems(3)] r by simp
    have l: "last_id ts None = Some c" using snoc c by (simp add: last_id_def)
    have shorter: "length (fids ts') < length (fids ts)" "length (fids kc) < length (fids ts)" using snoc c by auto
    show ?thesis
    proof (cases "w_mapped r")
      case False
      then have "request_children (last_id ts None) st = request_children (last_id ts' None) st"
        using m r l by (subst request_children.simps) simp
      moreover have "vis (widgets st) ts = vis (widgets st) ts'" using snoc c r False by simp
      ultimately show ?thesis using less.hyps [OF shorter(1) less.prems(1-3) k] by metis
    next
      case True
      define s1 where "s1 = (widgets st)(c \<mapsto> mark True False r)"
      have m1: "marks {c} {} (widgets st) s1"
        using r(1) by (auto simp: s1_def marks_def option.map_ident)
      note t1 = marks_tree [OF m1 less.prems(1)]
      have v1: "visible s1 F c" using marks_visible [OF m1 less.prems(1) kid(1)] visible_kid [OF less.prems(1,2) k less.prems(3)] r True by simp
      have lc: "w_last_child (mark True False r) = last_id kc None" "w_parent (mark True False r) = Some p"
        using kids_of_reps [of "widgets st" None None None F c] less.prems(1) kid r mark_keeps(1) [of True False r]
        by (auto simp: fbtk_tree_def links_def)
      obtain s2 where s2: "request_children (last_id kc None) (st\<lparr>widgets := s1\<rparr>) = Some (st\<lparr>widgets := s2\<rparr>)"
        "marks (set (vis s1 kc)) (ancs F (vis s1 kc)) s1 s2"
        using less.hyps [OF shorter(2) t1 kid(1), of "[]"] v1 kid(3) by auto
      have kc: "vis s1 kc = vis (widgets st) kc"
        using marks_vis [OF m1, of "Some c" None None kc] kids_of_reps [of "widgets st" None None None F c] less.prems(1) kid
        by (simp add: fbtk_tree_def)
      have m2: "marks ({c} \<union> set (vis (widgets st) kc)) (ancs F (vis (widgets st) kc)) (widgets st) s2"
        using marks_trans [OF m1 s2(2)] kc by simp
      obtain s3 where s3: "flag_up (Some p) (st\<lparr>widgets := s2\<rparr>) = Some (st\<lparr>widgets := s3\<rparr>)" "marks {} (set (p # anc p F)) s2 s3"
        using tree_flag_up [OF marks_tree [OF m2 less.prems(1)] less.prems(2)] by auto
      have m3: "marks (set (c # vis (widgets st) kc)) (ancs F (c # vis (widgets st) kc)) (widgets st) s3"
        using marks_trans [OF m2 s3(2)] kid(2) by (simp add: Un_commute)
      have ts': "vis s3 ts' = vis (widgets st) ts'"
        using marks_vis [OF m3, of "Some p" None "Some c" ts'] kids_of_reps [of "widgets st" None None None F p] less.prems(1,2) k
        by (simp add: fbtk_tree_def reps_append)
      obtain s4 where s4: "request_children (last_id ts' None) (st\<lparr>widgets := s3\<rparr>) = Some (st\<lparr>widgets := s4\<rparr>)"
        "marks (set (vis (widgets st) ts')) (ancs F (vis (widgets st) ts')) s3 s4"
        using less.hyps [OF shorter(1) marks_tree [OF m3 less.prems(1)] less.prems(2) _, of "Node c kc # us"]
          marks_visible [OF m3 less.prems(1,2)] less.prems(3) k ts' by auto
      have r2: "\<exists>r2. s2 c = Some r2 \<and> w_parent r2 = Some p" "\<exists>r3. s3 c = Some r3 \<and> w_prev r3 = last_id ts' None"
        using marks_at [OF m2 r(1)] marks_at [OF m3 r(1)] r(2,3) mark_keeps(1) [of _ _ r]
        by (metis links_def prod.inject)+
      have "request_children (last_id ts None) st = Some (st\<lparr>widgets := s4\<rparr>)"
        using m r True l s2(1) s3(1) s4(1) lc r2
        by (subst request_children.simps) (auto simp: upd_widget_def s1_def mark_def)
      moreover have "marks (set (vis (widgets st) ts)) (ancs F (vis (widgets st) ts)) (widgets st) s4"
        using marks_trans [OF m3 s4(2)] snoc c r(1) True by (simp add: Un_commute Un_left_commute)
      ultimately show ?thesis by blast
    qed
  qed
qed

definition asked :: "'cb store \<Rightarrow> wtree list \<Rightarrow> wid \<Rightarrow> wid list" where
  "asked s F w = (if visible s F w then w # vis s (kids_of w F) else [])"

lemma tree_request:
  assumes "fbtk_tree st F" "w \<in> set (fids F)"
  obtains s' where "fbtk_request_redraw (Some w) st = Some (st\<lparr>widgets := s'\<rparr>)"
    "marks (set (asked (widgets st) F w)) (ancs F (asked (widgets st) F w)) (widgets st) s'"
proof (cases "visible (widgets st) F w")
  case False
  then have "fbtk_request_redraw (Some w) st = Some (st\<lparr>widgets := widgets st\<rparr>)"
    using tree_mapped_up [OF assms] by (simp add: fbtk_request_redraw_def)
  then show ?thesis using that [of "widgets st"] False by (simp add: asked_def)
next
  case True
  obtain r where r: "widgets st w = Some r" using tree_alive [OF assms] by blast
  define s1 where "s1 = (widgets st)(w \<mapsto> mark True False r)"
  have m1: "marks {w} {} (widgets st) s1" using r by (auto simp: s1_def marks_def option.map_ident)
  note t1 = marks_tree [OF m1 assms(1)]
  have k: "reps (widgets st) (Some w) None None (kids_of w F)" "w_last_child r = last_id (kids_of w F) None"
    using kids_of_reps [of "widgets st" None None None F w] assms r by (auto simp: fbtk_tree_def)
  then have l: "w_last_child (mark True False r) = last_id (kids_of w F) None" by (simp add: mark_def whole_redraw_def)
  have v: "vis s1 (kids_of w F) = vis (widgets st) (kids_of w F)" by (rule marks_vis [OF m1 k(1)])
  obtain s2 where s2: "request_children (last_id (kids_of w F) None) (st\<lparr>widgets := s1\<rparr>) = Some (st\<lparr>widgets := s2\<rparr>)"
    "marks (set (vis (widgets st) (kids_of w F))) (ancs F (vis (widgets st) (kids_of w F))) s1 s2"
    using tree_request_children [OF t1 assms(2), of "kids_of w F" "[]"] marks_visible [OF m1 assms] True v by auto
  have m2: "marks (set (asked (widgets st) F w)) (ancs F (vis (widgets st) (kids_of w F))) (widgets st) s2"
    using marks_trans [OF m1 s2(2)] True by (simp add: asked_def)
  have F: "reps (widgets st) None None None F" using assms(1) by (simp add: fbtk_tree_def)
  have p: "w_parent (mark True False r) = (case anc w F of [] \<Rightarrow> None | p # _ \<Rightarrow> Some p)"
    using anc_links [OF F assms(2) r] by (simp add: mark_def whole_redraw_def)
  have "\<exists>s3. flag_up (w_parent (mark True False r)) (st\<lparr>widgets := s2\<rparr>) = Some (st\<lparr>widgets := s3\<rparr>) \<and> marks {} (set (anc w F)) s2 s3"
  proof (cases "anc w F")
    case Nil
    then show ?thesis using p by (intro exI [of _ s2]) (simp add: flag_up.simps)
  next
    case (Cons q qs)
    then have "q \<in> set (fids F)" "anc q F = qs" using anc_step [of F w] assms by (auto simp: fbtk_tree_def)
    with tree_flag_up [OF marks_tree [OF m2 assms(1)], of q] Cons p show ?thesis by simp
  qed
  then obtain s3 where s3: "flag_up (w_parent (mark True False r)) (st\<lparr>widgets := s2\<rparr>) = Some (st\<lparr>widgets := s3\<rparr>)"
    "marks {} (set (anc w F)) s2 s3" by blast
  have "fbtk_request_redraw (Some w) st = Some (st\<lparr>widgets := s3\<rparr>)"
  proof -
    obtain r2 where "s2 w = Some r2" "w_parent r2 = w_parent (mark True False r)"
      using marks_at [OF s2(2), of w "mark True False r"] mark_keeps(1) [of _ _ "mark True False r"]
      by (metis fun_upd_same links_def prod.inject s1_def)
    then show ?thesis using s2(1) s3(1) r l True tree_mapped_up [OF assms]
      by (simp add: fbtk_request_redraw_def upd_widget_def s1_def mark_def whole_redraw_def)
  qed
  moreover have "marks (set (asked (widgets st) F w)) (ancs F (asked (widgets st) F w)) (widgets st) s3"
    using marks_trans [OF m2 s3(2)] True by (simp add: asked_def Un_commute)
  ultimately show ?thesis by (rule that)
qed

section \<open>The marks lead to every widget that is to be redrawn\<close>

definition flagged :: "'cb fbtk_widget \<Rightarrow> bool" where
  "flagged r \<longleftrightarrow> rd_needed (w_redraw r) \<or> rd_child (w_redraw r)"

definition flags_ok :: "'cb store \<Rightarrow> wtree list \<Rightarrow> bool" where
  "flags_ok s F \<longleftrightarrow> (\<forall>v\<in>set (fids F). flagged (the (s v)) \<longrightarrow> (\<forall>u\<in>set (anc v F). rd_child (w_redraw (the (s u)))))"

lemma anc_in: "distinct (fids F) \<Longrightarrow> w \<in> set (fids F) \<Longrightarrow> u \<in> set (anc w F) \<Longrightarrow> u \<in> set (fids F) \<and> set (anc u F) \<subseteq> set (anc w F)"
proof (induction "anc w F" arbitrary: w)
  case (Cons p ps)
  then have p: "p \<in> set (fids F)" "anc p F = ps" using anc_step [of F w p ps] by auto
  show ?case
  proof (cases "u = p")
    case True
    then show ?thesis using p Cons.hyps(2) by (metis set_subset_Cons)
  next
    case False
    then have "u \<in> set (anc p F)" using Cons.prems(3) Cons.hyps(2) p by (metis set_ConsD)
    then show ?thesis using Cons.hyps(1) [of p] Cons.hyps(2) Cons.prems(1) p by (metis set_subset_Cons subset_trans)
  qed
qed simp

lemma mark_flags [simp]:
  "flagged (mark b c r) \<longleftrightarrow> flagged r \<or> b \<or> c" "rd_child (w_redraw (mark b c r)) \<longleftrightarrow> rd_child (w_redraw r) \<or> c"
  "rd_needed (w_redraw (mark b c r)) \<longleftrightarrow> rd_needed (w_redraw r) \<or> b"
  by (auto simp: mark_def whole_redraw_def flag_child_def flagged_def Let_def)

lemma marks_flags_ok:
  assumes "flags_ok (widgets st) F" "fbtk_tree st F" "set ws \<subseteq> set (fids F)" "marks (set ws) (ancs F ws) (widgets st) s'"
  shows "flags_ok s' F"
  unfolding flags_ok_def
proof (intro ballI impI)
  fix v u assume v: "v \<in> set (fids F)" "flagged (the (s' v))" "u \<in> set (anc v F)"
  have d: "distinct (fids F)" using assms(2) by (simp add: fbtk_tree_def)
  have u: "u \<in> set (fids F)" using anc_in [OF d v(1,3)] by simp
  obtain rv ru where r: "widgets st v = Some rv" "widgets st u = Some ru" using tree_alive [OF assms(2)] v(1) u by blast
  have "rd_child (w_redraw ru) \<or> u \<in> ancs F ws"
  proof (cases "flagged rv")
    case True
    then show ?thesis using assms(1) v r by (force simp: flags_ok_def)
  next
    case False
    then consider "v \<in> set ws" | w where "w \<in> set ws" "v \<in> set (anc w F)"
      using v(2) marks_at [OF assms(4) r(1)] by (auto simp: ancs_def)
    then show ?thesis
    proof cases
      case 1
      then show ?thesis using v(3) by (auto simp: ancs_def)
    next
      case (2 w)
      then have "u \<in> set (anc w F)" using anc_in [OF d _ 2(2)] assms(3) v(3) by auto
      then show ?thesis using 2(1) by (auto simp: ancs_def)
    qed
  qed
  then show "rd_child (w_redraw (the (s' u)))" using marks_at [OF assms(4) r(2)] by simp
qed

lemma asked_in: "w \<in> set (fids F) \<Longrightarrow> set (asked s F w) \<subseteq> set (fids F)"
  using vis_sub [of s "kids_of w F"] kids_of_sub [of w F] by (auto simp: asked_def)

text \<open>The part of the condition that a list of siblings needs.\<close>

lemma flags_ok_parts:
  assumes "flags_ok s (as @ Node c kc # bs)" "distinct (fids (as @ Node c kc # bs))"
  shows "flags_ok s as" "flags_ok s kc" "\<not> rd_child (w_redraw (the (s c))) \<Longrightarrow> v \<in> set (fids kc) \<Longrightarrow> \<not> flagged (the (s v))"
proof -
  have app: "anc w (as @ bs') = (if w \<in> set (fids as) then anc w as else anc w bs')" for w bs'
    by (induction w as rule: anc.induct) auto
  show "flags_ok s as" using assms by (auto simp: flags_ok_def app)
  have "anc w (as @ Node c kc # bs) = anc w kc @ [c]" if "w \<in> set (fids kc)" for w using assms(2) that by (auto simp: app)
  then show "flags_ok s kc" "\<not> rd_child (w_redraw (the (s c))) \<Longrightarrow> v \<in> set (fids kc) \<Longrightarrow> \<not> flagged (the (s v))"
    using assms by (auto simp: flags_ok_def)
qed

end
