(* ===== verification/Fbtk_Repaint.thy ===== *)
theory Fbtk_Repaint
  imports Fbtk_Redraw
begin

text \<open>
  What \<^verbatim>\<open>fbtk_redraw\<close> does when the redraw callbacks keep their contract, the locale
  \<open>painting\<close>: it gets to every widget that is to be redrawn, each paints the part of it that
  is due, and no mark is left.
\<close>

section \<open>Taking the marks away\<close>

definition no_flags :: "'cb fbtk_widget \<Rightarrow> 'cb fbtk_widget" where
  "no_flags r = r\<lparr>w_redraw := (w_redraw r)\<lparr>rd_child := False, rd_needed := False\<rparr>\<rparr>"

definition redrawn :: "wid set \<Rightarrow> 'cb store \<Rightarrow> 'cb store \<Rightarrow> bool" where
  "redrawn V s s' \<longleftrightarrow> (\<forall>v. s' v = (if v \<in> V then map_option no_flags (s v) else s v))"

lemma no_flags_keeps [simp]:
  "links (no_flags r) = links r" "w_mapped (no_flags r) = w_mapped r" "w_type (no_flags r) = w_type r"
  "w_x (no_flags r) = w_x r" "w_y (no_flags r) = w_y r" "w_width (no_flags r) = w_width r" "w_height (no_flags r) = w_height r"
  "w_callback (no_flags r) = w_callback r" "no_flags (no_flags r) = no_flags r" "\<not> flagged (no_flags r)"
  by (simp_all add: no_flags_def links_def flagged_def)

lemma no_flags_id: "\<not> flagged r \<Longrightarrow> no_flags r = r"
  by (simp add: no_flags_def flagged_def)

lemma redrawn_refl [simp]: "redrawn {} s s"
  by (simp add: redrawn_def)

lemma redrawn_trans: "redrawn V s s' \<Longrightarrow> redrawn V' s' s'' \<Longrightarrow> redrawn (V \<union> V') s s''"
  by (auto simp: redrawn_def option.map_comp comp_def)

lemma redrawn_out: "redrawn V s s' \<Longrightarrow> v \<notin> V \<Longrightarrow> s' v = s v"
  by (simp add: redrawn_def)

lemma redrawn_unflagged: "(\<And>v. v \<in> V \<Longrightarrow> s v \<noteq> None \<and> \<not> flagged (the (s v))) \<Longrightarrow> redrawn V s s"
  by (force simp: redrawn_def no_flags_id)

text \<open>States that differ in the marks, the clipping rectangle and the application only.\<close>

definition kept :: "('cb, 'w) toolkit \<Rightarrow> ('cb, 'w) toolkit \<Rightarrow> bool" where
  "kept st st' \<longleftrightarrow> next_addr st' = next_addr st \<and> root_data st' = root_data st
     \<and> nsfb_width (tk_nsfb st') = nsfb_width (tk_nsfb st) \<and> nsfb_height (tk_nsfb st') = nsfb_height (tk_nsfb st)"

lemma kept_refl [simp]: "kept st st"
  by (simp add: kept_def)

lemma kept_trans: "kept st st' \<Longrightarrow> kept st' st'' \<Longrightarrow> kept st st''"
  by (simp add: kept_def)

definition same_place :: "'cb store \<Rightarrow> 'cb store \<Rightarrow> bool" where
  "same_place s s' \<longleftrightarrow> (\<forall>v. map_option no_flags (s' v) = map_option no_flags (s v))"

lemma same_place_refl [simp]: "same_place s s"
  by (simp add: same_place_def)

lemma same_place_trans: "same_place s s' \<Longrightarrow> same_place s' s'' \<Longrightarrow> same_place s s''"
  by (simp add: same_place_def)

lemma redrawn_same_place: "redrawn V s s' \<Longrightarrow> same_place s s'"
  by (simp add: redrawn_def same_place_def option.map_comp comp_def)

lemma same_place_at: "same_place s s' \<Longrightarrow> s v = Some r \<Longrightarrow> \<exists>r'. s' v = Some r' \<and> no_flags r' = no_flags r"
  unfolding same_place_def by (metis map_option_eq_Some option.simps(9))

lemma no_flags_eq:
  assumes "no_flags r' = no_flags r"
  shows "links r' = links r" "w_mapped r' = w_mapped r" "w_type r' = w_type r" "w_x r' = w_x r" "w_y r' = w_y r"
    "w_width r' = w_width r" "w_height r' = w_height r" "w_callback r' = w_callback r"
    "rd_x (w_redraw r') = rd_x (w_redraw r)" "rd_y (w_redraw r') = rd_y (w_redraw r)"
    "rd_width (w_redraw r') = rd_width (w_redraw r)" "rd_height (w_redraw r') = rd_height (w_redraw r)"
proof -
  have "rd_x (w_redraw (no_flags q)) = rd_x (w_redraw q) \<and> rd_y (w_redraw (no_flags q)) = rd_y (w_redraw q)
    \<and> rd_width (w_redraw (no_flags q)) = rd_width (w_redraw q) \<and> rd_height (w_redraw (no_flags q)) = rd_height (w_redraw q)" for q :: "'a fbtk_widget"
    by (simp add: no_flags_def)
  then show "links r' = links r" "w_mapped r' = w_mapped r" "w_type r' = w_type r" "w_x r' = w_x r" "w_y r' = w_y r"
    "w_width r' = w_width r" "w_height r' = w_height r" "w_callback r' = w_callback r"
    "rd_x (w_redraw r') = rd_x (w_redraw r)" "rd_y (w_redraw r') = rd_y (w_redraw r)"
    "rd_width (w_redraw r') = rd_width (w_redraw r)" "rd_height (w_redraw r') = rd_height (w_redraw r)"
    using assms no_flags_keeps by metis+
qed

lemma same_place_links: "same_place s s' \<Longrightarrow> map_option links (s' v) = map_option links (s v)"
  using same_place_at [of s s' v] same_place_at [of s' s v] no_flags_eq(1)
  by (cases "s v"; cases "s' v") (auto simp: same_place_def)

lemma same_place_tree:
  assumes "same_place (widgets st) (widgets st')" "kept st st'" "fbtk_tree st F"
  shows "fbtk_tree st' F"
proof -
  have "reps (widgets st') None None None F"
    using assms(3) same_place_links [OF assms(1)] by (subst reps_cong [of F _ "widgets st"]) (auto simp: fbtk_tree_def)
  moreover have "\<forall>r. widgets st' (root_id (hd F)) = Some r \<longrightarrow> w_type r = FB_WIDGET_TYPE_ROOT"
    using assms(1,3) tree_alive [OF assms(3) tree_root_in [OF assms(3)]] same_place_at [OF assms(1)] no_flags_eq(3)
    by (fastforce simp: fbtk_tree_def)
  ultimately show ?thesis using assms(2,3) by (simp add: fbtk_tree_def kept_def)
qed

text \<open>The part of a widget that is asked for, on the screen and inside the widget.\<close>

definition ask_area :: "'cb fbtk_widget \<Rightarrow> int \<Rightarrow> int \<Rightarrow> nsfb_bbox" where
  "ask_area r x y = \<lparr>x0 = x + rd_x (w_redraw r), y0 = y + rd_y (w_redraw r),
     x1 = x + rd_x (w_redraw r) + rd_width (w_redraw r), y1 = y + rd_y (w_redraw r) + rd_height (w_redraw r)\<rparr>"

definition due :: "nsfb \<Rightarrow> 'cb store \<Rightarrow> wtree list \<Rightarrow> wid \<Rightarrow> (int \<times> int) set" where
  "due nsfb s F w = (let r = the (s w); x = abs_of w_x s F w; y = abs_of w_y s F w in
     pixels (screen nsfb) \<inter> pixels (bbox_order (ask_area r x y)) \<inter> pixels \<lparr>x0 = x, y0 = y, x1 = x + w_width r, y1 = y + w_height r\<rparr>)"

lemma due_same:
  assumes "same_place (widgets st) (widgets st')" "kept st st'" "fbtk_tree st F" "w \<in> set (fids F)"
  shows "due (tk_nsfb st') (widgets st') F w = due (tk_nsfb st) (widgets st) F w"
proof -
  have d: "distinct (fids F)" using assms(3) by (simp add: fbtk_tree_def)
  have at: "\<exists>r r'. widgets st v = Some r \<and> widgets st' v = Some r' \<and> no_flags r' = no_flags r" if "v \<in> set (fids F)" for v
    using same_place_at [OF assms(1), of v] tree_alive [OF assms(3) that] by auto
  have "w_x (the (widgets st' v)) = w_x (the (widgets st v)) \<and> w_y (the (widgets st' v)) = w_y (the (widgets st v))"
    if "v \<in> set (w # anc w F)" for v
  proof -
    have "v \<in> set (fids F)" using anc_in [OF d assms(4), of v] that assms(4) by auto
    then obtain r r' where r: "widgets st v = Some r" "widgets st' v = Some r'" "no_flags r' = no_flags r" using at by blast
    show ?thesis using r(1,2) no_flags_eq(4,5) [OF r(3)] by simp
  qed
  then have "up_sum w_x (widgets st') (w # anc w F) = up_sum w_x (widgets st) (w # anc w F)"
    "up_sum w_y (widgets st') (w # anc w F) = up_sum w_y (widgets st) (w # anc w F)"
    by (simp_all add: up_sum_def cong: map_cong)
  moreover obtain r r' where "widgets st w = Some r" "widgets st' w = Some r'" "no_flags r' = no_flags r" using at [OF assms(4)] by blast
  ultimately show ?thesis using no_flags_eq [of r' r] assms(2)
    by (simp add: due_def abs_of_def ask_area_def screen_def kept_def Let_def)
qed

section \<open>The contract of the redraw callbacks\<close>

text \<open>
  \<open>seen P\<close> says that the application knows of damage that covers \<open>P\<close>; \<open>paints\<close> which
  widgets have a callback that reports what it paints.
\<close>

locale painting = quiet_handler handler FBTK_CBT_REDRAW ready sane
  for handler :: "('cb, 'ev, 'w) handler" and ready :: "'w \<Rightarrow> bool" and sane :: "'cb fbtk_widget \<Rightarrow> bool" +
  fixes seen :: "(int \<times> int) set \<Rightarrow> 'w \<Rightarrow> bool" and paints :: "'cb fbtk_widget \<Rightarrow> bool"
  assumes paint: "\<lbrakk>fbtk_tree st F; w \<in> set (fids F); ready (app st); widgets st w = Some r; sane r; w_callback r FBTK_CBT_REDRAW = Some cb;
      handler cb w (callback_info FBTK_CBT_REDRAW None None None) st = Some (ret, st')\<rbrakk>
    \<Longrightarrow> nsfb_width (tk_nsfb st') = nsfb_width (tk_nsfb st) \<and> nsfb_height (tk_nsfb st') = nsfb_height (tk_nsfb st)
      \<and> (\<forall>P. seen P (app st) \<longrightarrow> seen P (app st'))
      \<and> (paints r \<longrightarrow> fbtk_get_bbox st w = Some b \<longrightarrow> seen (pixels (nsfb_clip (tk_nsfb st)) \<inter> pixels b) (app st'))"
    and seen_none: "seen {} a"
    and sane_flags: "no_flags r' = no_flags r \<Longrightarrow> sane r' = sane r"
begin

definition wants :: "'cb fbtk_widget \<Rightarrow> bool" where
  "wants r \<longleftrightarrow> rd_needed (w_redraw r) \<and> w_mapped r \<and> w_callback r FBTK_CBT_REDRAW \<noteq> None \<and> paints r"

definition went :: "('cb, 'w) toolkit \<Rightarrow> ('cb, 'w) toolkit \<Rightarrow> bool" where
  "went st st' \<longleftrightarrow> kept st st' \<and> good st' \<and> (\<forall>P. seen P (app st) \<longrightarrow> seen P (app st'))"

lemma good_nsfb [simp]: "good (st\<lparr>tk_nsfb := nsfb\<rparr>) = good st"
  by (simp add: good_def)

lemma good_upd: "good st \<Longrightarrow> widgets st w = Some r \<Longrightarrow> no_flags r' = no_flags r \<Longrightarrow> good (st\<lparr>widgets := (widgets st)(w \<mapsto> r')\<rparr>)"
  using sane_flags [of r' r] by (auto simp: good_def)

lemma went_trans: "went st st' \<Longrightarrow> went st' st'' \<Longrightarrow> went st st''"
  using kept_trans by (auto simp: went_def)

lemma tree_redraw_self:
  assumes "fbtk_tree st F" "w \<in> set (fids F)" "good st" "widgets st w = Some r"
  obtains st' where "redraw_self handler w st = Some st'" "went st st'"
    "widgets st' = (widgets st)(w \<mapsto> r\<lparr>w_redraw := (w_redraw r)\<lparr>rd_needed := False\<rparr>\<rparr>)"
    "wants r \<longrightarrow> seen (due (tk_nsfb st) (widgets st) F w) (app st')"
proof (cases "rd_needed (w_redraw r)")
  case False
  then have "r\<lparr>w_redraw := (w_redraw r)\<lparr>rd_needed := False\<rparr>\<rparr> = r" by simp
  with False assms show ?thesis by (intro that [of st]) (auto simp: redraw_self_def went_def wants_def)
next
  case True
  let ?x = "abs_of w_x (widgets st) F w" and ?y = "abs_of w_y (widgets st) F w"
  let ?q = "r\<lparr>w_redraw := (w_redraw r)\<lparr>rd_needed := False\<rparr>\<rparr>"
  define area where "area = ask_area r ?x ?y"
  obtain shown ctx nsfb where clip: "set_clip (tk_nsfb st) (Some area) = (shown, ctx, nsfb)" by (cases "set_clip (tk_nsfb st) (Some area)")
  define st1 where "st1 = st\<lparr>tk_nsfb := nsfb\<rparr>"
  have dims: "nsfb_width nsfb = nsfb_width (tk_nsfb st)" "nsfb_height nsfb = nsfb_height (tk_nsfb st)"
    using clip by (auto simp: set_clip_def Let_def split: prod.splits if_splits)
  have t1: "fbtk_tree st1 F" using assms(1) by (simp add: st1_def fbtk_tree_def)
  have k1: "kept st st1" using dims by (simp add: kept_def st1_def root_data_def)
  define st2 where "st2 = (if shown then snd (the (fbtk_post_callback handler (Some w) FBTK_CBT_REDRAW None None None st1)) else st1)"
  have post: "\<exists>ret. fbtk_post_callback handler (Some w) FBTK_CBT_REDRAW None None None st1 = Some (ret, st2)
      \<and> widgets st2 = widgets st \<and> went st1 st2 \<and> (wants r \<longrightarrow> seen (due (tk_nsfb st) (widgets st) F w) (app st2))" if shown
  proof (cases "w_mapped r \<and> w_callback r FBTK_CBT_REDRAW \<noteq> None")
    case False
    then show ?thesis using assms that by (auto simp: fbtk_post_callback_def st2_def st1_def went_def wants_def)
  next
    case True
    then obtain cb where cb: "w_callback r FBTK_CBT_REDRAW = Some cb" by auto
    have r1: "widgets st1 w = Some r" "ready (app st1)" "sane r" using assms by (auto simp: st1_def good_def)
    obtain ret st' where h: "handler cb w (callback_info FBTK_CBT_REDRAW None None None) st1 = Some (ret, st')"
      "undisturbed st1 st'" "ready (app st')" using quiet [OF t1 assms(2) r1(2,1,3) cb] by blast
    have p: "fbtk_post_callback handler (Some w) FBTK_CBT_REDRAW None None None st1 = Some (ret, st')"
      using h(1) True cb r1 by (simp add: fbtk_post_callback_def)
    let ?b = "\<lparr>x0 = ?x, y0 = ?y, x1 = ?x + w_width r, y1 = ?y + w_height r\<rparr>"
    have b: "fbtk_get_bbox st1 w = Some ?b"
      using tree_abs(3) [OF t1 assms(2)] assms(4) by (simp add: Let_def st1_def)
    have "pixels (nsfb_clip nsfb) \<inter> pixels ?b = due (tk_nsfb st) (widgets st) F w"
      using set_clip_spec [OF clip] that assms(4) by (simp add: due_def area_def Let_def)
    with paint [OF t1 assms(2) r1(2,1,3) cb h(1), of ?b] b have "wants r \<longrightarrow> seen (due (tk_nsfb st) (widgets st) F w) (app st')" "went st1 st'"
      using h(2,3) assms(3) by (auto simp: wants_def went_def kept_def undisturbed_def st1_def good_def)
    with p that h(2) show ?thesis by (auto simp: st2_def undisturbed_def st1_def)
  qed
  have rest: "widgets st2 = widgets st" "went st1 st2" "wants r \<longrightarrow> seen (due (tk_nsfb st) (widgets st) F w) (app st2)"
  proof -
    have "due (tk_nsfb st) (widgets st) F w = {}" if "\<not> shown"
      using set_clip_spec [OF clip] that assms(4) by (auto simp: due_def area_def Let_def)
    then show "widgets st2 = widgets st" "went st1 st2" "wants r \<longrightarrow> seen (due (tk_nsfb st) (widgets st) F w) (app st2)"
      using post assms(3) seen_none by (cases shown; simp add: st2_def st1_def went_def)+
  qed
  have act: "(if shown then map_option snd (fbtk_post_callback handler (Some w) FBTK_CBT_REDRAW None None None st1) else Some st1) = Some st2"
  proof (cases shown)
    case True
    from post [OF this] obtain ret where "fbtk_post_callback handler (Some w) FBTK_CBT_REDRAW None None None st1 = Some (ret, st2)" by blast
    with True show ?thesis by simp
  qed (simp add: st2_def)
  have "redraw_self handler w st = Option.bind (if shown then map_option snd (fbtk_post_callback handler (Some w) FBTK_CBT_REDRAW None None None st1) else Some st1)
      (upd_widget w (\<lambda>r. r\<lparr>w_redraw := (w_redraw r)\<lparr>rd_needed := False\<rparr>\<rparr>))"
    using True tree_abs(1,2) [OF assms(1,2)] assms(4) clip
    by (simp add: redraw_self_def area_def ask_area_def st1_def)
  then have "redraw_self handler w st = upd_widget w (\<lambda>r. r\<lparr>w_redraw := (w_redraw r)\<lparr>rd_needed := False\<rparr>\<rparr>) st2"
    by (simp only: act Option.bind.simps)
  then have "redraw_self handler w st = Some (st2\<lparr>widgets := (widgets st)(w \<mapsto> ?q)\<rparr>)"
    using rest(1) assms(4) by (simp add: upd_widget_def)
  moreover have "went st (st2\<lparr>widgets := (widgets st)(w \<mapsto> ?q)\<rparr>)"
    using rest(1,2) k1 good_upd [of st2 w r ?q] assms(4) by (auto simp: went_def kept_def root_data_def st1_def no_flags_def)
  ultimately show ?thesis using rest(3) by (intro that [of "st2\<lparr>widgets := (widgets st)(w \<mapsto> ?q)\<rparr>"]) auto
qed

lemma wants_same: "s' v = s v \<Longrightarrow> wants (the (s' v)) = wants (the (s v))"
  by simp

lemma redraw_kid:
  assumes "fbtk_tree st F" "c \<in> set (fids F)" "kids_of c F = kc" "flags_ok (widgets st) (as @ Node c kc # cs)"
    "distinct (fids (as @ Node c kc # cs))" "good st" and r: "widgets st c = Some r"
    and IH: "\<And>st. \<lbrakk>fbtk_tree st F; flags_ok (widgets st) kc; good st\<rbrakk> \<Longrightarrow>
      \<exists>st'. redraw_children handler (last_id kc None) st = Some st' \<and> went st st' \<and> redrawn (set (fids kc)) (widgets st) (widgets st')
        \<and> (\<forall>v\<in>set (fids kc). wants (the (widgets st v)) \<longrightarrow> seen (due (tk_nsfb st) (widgets st) F v) (app st'))"
  obtains st1 st2 where "redraw_self handler c st = Some st1"
    "widgets st1 c = Some (r\<lparr>w_redraw := (w_redraw r)\<lparr>rd_needed := False\<rparr>\<rparr>)"
    "(if rd_child (w_redraw r) then do { st \<leftarrow> redraw_children handler (last_id kc None) st1; upd_widget c (flag_child False) st } else Some st1) = Some st2"
    "went st st2" "redrawn (insert c (set (fids kc))) (widgets st) (widgets st2)"
    "\<forall>v\<in>insert c (set (fids kc)). wants (the (widgets st v)) \<longrightarrow> seen (due (tk_nsfb st) (widgets st) F v) (app st2)"
proof -
  note d = assms(5)
  note ok = flags_ok_parts [OF assms(4) d]
  let ?q = "r\<lparr>w_redraw := (w_redraw r)\<lparr>rd_needed := False\<rparr>\<rparr>"
  obtain st1 where st1: "redraw_self handler c st = Some st1" "went st st1" "widgets st1 = (widgets st)(c \<mapsto> ?q)"
    "wants r \<longrightarrow> seen (due (tk_nsfb st) (widgets st) F c) (app st1)"
    by (rule tree_redraw_self [OF assms(1) assms(2) assms(6) r])
  show ?thesis
  proof (cases "rd_child (w_redraw r)")
    case False
    then have q: "?q = no_flags r" by (simp add: no_flags_def)
    have alive: "widgets st v \<noteq> None" if "v \<in> set (fids kc)" for v
      using that kids_of_sub [of c F] assms(2,3) tree_alive [OF assms(1), of v] by auto
    have "redrawn (insert c (set (fids kc))) (widgets st) (widgets st1)"
    proof -
      have "redrawn {c} (widgets st) (widgets st1)" using st1(3) q r by (simp add: redrawn_def)
      moreover have "redrawn (set (fids kc)) (widgets st1) (widgets st1)"
      proof (rule redrawn_unflagged)
        fix v assume v: "v \<in> set (fids kc)"
        then have "v \<noteq> c" using d by auto
        then show "widgets st1 v \<noteq> None \<and> \<not> flagged (the (widgets st1 v))" using st1(3) ok(3) [of v] alive [OF v] False v r by simp
      qed
      ultimately have "redrawn ({c} \<union> set (fids kc)) (widgets st) (widgets st1)" by (rule redrawn_trans)
      then show ?thesis by simp
    qed
    moreover have "\<not> wants (the (widgets st v))" if "v \<in> set (fids kc)" for v
      using that ok(3) False r by (auto simp: wants_def flagged_def)
    ultimately show ?thesis using st1 False r by (intro that [of st1 st1]) auto
  next
    case True
    have sp: "same_place (widgets st) (widgets st1)" using st1(3) r by (auto simp: same_place_def no_flags_def)
    have k1: "kept st st1" "good st1" using st1(2) by (simp_all add: went_def)
    note t1 = same_place_tree [OF sp k1(1) assms(1)]
    have anc_kc: "u \<in> set (fids kc)" if "v \<in> set (fids kc)" "u \<in> set (anc v kc)" for u v
      using anc_in [of kc v u] that d by simp
    have f1: "flags_ok (widgets st1) kc"
      using ok(2) st1(3) d anc_kc by (fastforce simp: flags_ok_def)
    obtain st2 where st2: "redraw_children handler (last_id kc None) st1 = Some st2" "went st1 st2"
      "redrawn (set (fids kc)) (widgets st1) (widgets st2)"
      "\<forall>v\<in>set (fids kc). wants (the (widgets st1 v)) \<longrightarrow> seen (due (tk_nsfb st1) (widgets st1) F v) (app st2)"
      using IH [OF t1 f1 k1(2)] by blast
    let ?st3 = "st2\<lparr>widgets := (widgets st2)(c \<mapsto> flag_child False ?q)\<rparr>"
    have c2: "widgets st2 c = Some ?q" using redrawn_out [OF st2(3), of c] d st1(3) by simp
    have q: "flag_child False ?q = no_flags r" by (simp add: flag_child_def no_flags_def)
    have "redrawn (insert c (set (fids kc))) (widgets st) (widgets ?st3)"
      using st2(3) st1(3) r q by (auto simp: redrawn_def)
    moreover have "good ?st3" using good_upd [OF _ c2, of "flag_child False ?q"] st2(2) by (simp add: went_def flag_child_def no_flags_def)
    then have "went st ?st3" using went_trans [OF st1(2) st2(2)] by (simp add: went_def kept_def root_data_def)
    moreover have "seen (due (tk_nsfb st) (widgets st) F v) (app ?st3)"
      if v: "v \<in> insert c (set (fids kc))" "wants (the (widgets st v))" for v
    proof (cases "v = c")
      case True
      then have "seen (due (tk_nsfb st) (widgets st) F v) (app st1)" using st1(4) v(2) r by simp
      then show ?thesis using st2(2) by (simp add: went_def)
    next
      case False
      then have "v \<in> set (fids kc)" "v \<in> set (fids F)" "widgets st1 v = widgets st v"
        using v(1) kids_of_sub [of c F] assms(2,3) st1(3) by auto
      moreover from this have "seen (due (tk_nsfb st1) (widgets st1) F v) (app st2)" using st2(4) v(2) by auto
      ultimately show ?thesis using due_same [OF sp k1(1) assms(1), of v] by simp
    qed
    ultimately show ?thesis using st1(1,3) st2(1) c2 True by (intro that [of st1 ?st3]) (auto simp: upd_widget_def)
  qed
qed

lemma tree_redraw_children:
  assumes "fbtk_tree st F" "p \<in> set (fids F)" "kids_of p F = ts @ us" "flags_ok (widgets st) ts" "good st"
  shows "\<exists>st'. redraw_children handler (last_id ts None) st = Some st' \<and> went st st' \<and> redrawn (set (fids ts)) (widgets st) (widgets st')
    \<and> (\<forall>v\<in>set (fids ts). wants (the (widgets st v)) \<longrightarrow> seen (due (tk_nsfb st) (widgets st) F v) (app st'))"
  using assms
proof (induction "length (fids ts)" arbitrary: ts us p st rule: less_induct)
  case less
  show ?case
  proof (cases ts rule: rev_cases)
    case Nil
    then show ?thesis using less.prems(5) by (intro exI [of _ st]) (simp add: redraw_children.simps went_def)
  next
    case (snoc ts' c')
    obtain c kc where c: "c' = Node c kc" by (cases c')
    have ts: "ts = ts' @ [Node c kc]" using snoc c by simp
    have k: "kids_of p F = ts' @ Node c kc # us" using less.prems(3) ts by simp
    note kid = anc_kid [OF less.prems(1,2) k]
    have dF: "distinct (fids F)" using less.prems(1) by (simp add: fbtk_tree_def)
    have d: "distinct (fids (ts' @ Node c kc # us))" using kids_of_distinct [OF dF, of p] k by simp
    obtain r where r: "widgets st c = Some r" "w_prev r = last_id ts' None" "w_parent r = Some p"
      by (rule kid_links [OF less.prems(1,2) k])
    have lc: "w_last_child r = last_id kc None"
      using kids_of_reps [of "widgets st" None None None F c] less.prems(1) kid r by (auto simp: fbtk_tree_def)
    have l: "last_id ts None = Some c" using ts by (simp add: last_id_def)
    have shorter: "length (fids ts') < length (fids ts)" "length (fids kc) < length (fids ts)" using ts by auto
    have kids: "kids_of p F = (ts' @ [Node c kc]) @ us" using k by simp
    have fl: "flags_ok (widgets st) (ts' @ Node c kc # [])" using less.prems(4) ts by simp
    have fd: "distinct (fids (ts' @ Node c kc # []))" using d by auto
    let ?q = "r\<lparr>w_redraw := (w_redraw r)\<lparr>rd_needed := False\<rparr>\<rparr>"
    have IHc: "\<exists>st'. redraw_children handler (last_id kc None) st = Some st' \<and> went st st' \<and> redrawn (set (fids kc)) (widgets st) (widgets st')
        \<and> (\<forall>v\<in>set (fids kc). wants (the (widgets st v)) \<longrightarrow> seen (due (tk_nsfb st) (widgets st) F v) (app st'))"
      if "fbtk_tree st F" "flags_ok (widgets st) kc" "good st" for st
      using less.hyps [OF shorter(2) that(1) kid(1), of "[]"] kid(3) that(2,3) by simp
    obtain st1 st2 where st2: "redraw_self handler c st = Some st1" "widgets st1 c = Some ?q"
      "(if rd_child (w_redraw r) then do { st \<leftarrow> redraw_children handler (last_id kc None) st1; upd_widget c (flag_child False) st } else Some st1) = Some st2"
      "went st st2" "redrawn (insert c (set (fids kc))) (widgets st) (widgets st2)"
      "\<forall>v\<in>insert c (set (fids kc)). wants (the (widgets st v)) \<longrightarrow> seen (due (tk_nsfb st) (widgets st) F v) (app st2)"
      by (rule redraw_kid [OF less.prems(1) kid(1,3) fl fd less.prems(5) r(1) IHc])
    have sp: "same_place (widgets st) (widgets st2)" by (rule redrawn_same_place [OF st2(5)])
    have k2: "kept st st2" "good st2" using st2(4) by (simp_all add: went_def)
    note t2 = same_place_tree [OF sp k2(1) less.prems(1)]
    have out: "v \<notin> insert c (set (fids kc))" if "v \<in> set (fids ts')" for v using d that by auto
    have f2: "flags_ok (widgets st2) ts'"
      using flags_ok_parts(1) [OF fl fd] fd redrawn_out [OF st2(5) out] anc_in [of ts'] by (fastforce simp: flags_ok_def)
    obtain st3 where st3: "redraw_children handler (last_id ts' None) st2 = Some st3" "went st2 st3"
      "redrawn (set (fids ts')) (widgets st2) (widgets st3)"
      "\<forall>v\<in>set (fids ts'). wants (the (widgets st2 v)) \<longrightarrow> seen (due (tk_nsfb st2) (widgets st2) F v) (app st3)"
      using less.hyps [OF shorter(1) t2 less.prems(2) k f2 k2(2)] by blast
    obtain r2 where r2: "widgets st2 c = Some r2" "w_prev r2 = last_id ts' None"
      using st2(5) r(1,2) by (auto simp: redrawn_def no_flags_def)
    have "redraw_children handler (last_id ts None) st = Some st3"
    proof -
      have "redraw_children handler (Some c) st = Option.bind (if rd_child (w_redraw r) then do {
            st \<leftarrow> redraw_children handler (last_id kc None) st1; upd_widget c (flag_child False) st } else Some st1)
          (\<lambda>st. Option.bind (widgets st c) (\<lambda>r. redraw_children handler (w_prev r) st))"
        using lc st2(1,2) by (subst redraw_children.simps) simp
      then show ?thesis using r2 st3(1) by (simp add: l st2(3))
    qed
    moreover have "redrawn (set (fids ts)) (widgets st) (widgets st3)"
      using redrawn_trans [OF st2(5) st3(3)] ts by (simp add: Un_commute)
    moreover have "seen (due (tk_nsfb st) (widgets st) F v) (app st3)" if v: "v \<in> set (fids ts)" "wants (the (widgets st v))" for v
    proof (cases "v \<in> set (fids ts')")
      case True
      then have "widgets st2 v = widgets st v" "v \<in> set (fids F)"
        using redrawn_out [OF st2(5) out] kids_of_sub [of p F] less.prems(2) k by auto
      moreover from this have "seen (due (tk_nsfb st2) (widgets st2) F v) (app st3)" using st3(4) True v(2) by auto
      ultimately show ?thesis using due_same [OF sp k2(1) less.prems(1), of v] by simp
    next
      case False
      then show ?thesis using st2(6) v ts st3(2) by (auto simp: went_def)
    qed
    ultimately show ?thesis using went_trans [OF st2(4) st3(2)] by blast
  qed
qed

lemma tree_redraw:
  assumes "fbtk_tree st F" "w \<in> set (fids F)" "flags_ok (widgets st) F" "good st"
  shows "\<exists>st'. fbtk_redraw handler w st = Some st' \<and> went st st' \<and> redrawn (set (fids F)) (widgets st) (widgets st')
    \<and> (\<forall>v\<in>set (fids F). wants (the (widgets st v)) \<longrightarrow> seen (due (tk_nsfb st) (widgets st) F v) (app st'))"
proof -
  obtain c kc where F: "F = [Node c kc]" using assms(1) by (cases F rule: fids.cases) (auto simp: fbtk_tree_def)
  have c: "c \<in> set (fids F)" "kids_of c F = kc" and d: "distinct (fids ([] @ Node c kc # []))"
    using F assms(1) by (auto simp: fbtk_tree_def)
  have fl: "flags_ok (widgets st) ([] @ Node c kc # [])" using assms(3) F by simp
  obtain r where r: "widgets st c = Some r" using tree_alive [OF assms(1) c(1)] by blast
  have lc: "w_last_child r = last_id kc None"
    using kids_of_reps [of "widgets st" None None None F c] assms(1) c r by (auto simp: fbtk_tree_def)
  have IH: "\<exists>st'. redraw_children handler (last_id kc None) st = Some st' \<and> went st st' \<and> redrawn (set (fids kc)) (widgets st) (widgets st')
        \<and> (\<forall>v\<in>set (fids kc). wants (the (widgets st v)) \<longrightarrow> seen (due (tk_nsfb st) (widgets st) F v) (app st'))"
    if "fbtk_tree st F" "flags_ok (widgets st) kc" "good st" for st
    using tree_redraw_children [OF that(1) c(1), of kc "[]"] c(2) that(2,3) by simp
  obtain st1 st2 where st2: "redraw_self handler c st = Some st1"
    "widgets st1 c = Some (r\<lparr>w_redraw := (w_redraw r)\<lparr>rd_needed := False\<rparr>\<rparr>)"
    "(if rd_child (w_redraw r) then do { st \<leftarrow> redraw_children handler (last_id kc None) st1; upd_widget c (flag_child False) st } else Some st1) = Some st2"
    "went st st2" "redrawn (insert c (set (fids kc))) (widgets st) (widgets st2)"
    "\<forall>v\<in>insert c (set (fids kc)). wants (the (widgets st v)) \<longrightarrow> seen (due (tk_nsfb st) (widgets st) F v) (app st2)"
    by (rule redraw_kid [OF assms(1) c fl d assms(4) r IH])
  have "do_redraw handler c st = (if rd_child (w_redraw r) then do {
      st \<leftarrow> redraw_children handler (last_id kc None) st1; upd_widget c (flag_child False) st } else Some st1)"
    using st2(1,2) lc by (simp add: do_redraw_def)
  then have "fbtk_redraw handler w st = Some st2"
    using tree_root [OF assms(1,2)] F st2(3) by (simp add: fbtk_redraw_def)
  with st2(4-6) F show ?thesis by auto
qed

end

end
