(* ===== verification/Fbtk_Event.thy ===== *)
theory Fbtk_Event
  imports Fbtk RM_Input
begin

text \<open>
  Event processing of the widget toolkit, \<^verbatim>\<open>frontends/framebuffer/fbtk/event.c\<close>.  The
  input routine of the surface (\<^verbatim>\<open>nsfb_event\<close> calls it through the table of the surface) and
  \<^verbatim>\<open>gui_resize\<close> of the application are arguments.
\<close>

unbundle bit_operations_syntax

section \<open>Input focus, clicks and grabbing\<close>

definition fbtk_input :: "('cb, nsfb_event, 'w) handler \<Rightarrow> wid \<Rightarrow> nsfb_event \<Rightarrow> ('cb, 'w) toolkit \<Rightarrow> ('cb, 'w) toolkit option" where
  "fbtk_input handler w event st = do {
     _ \<leftarrow> fbtk_get_root_widget st w;
     case root_input st of
       None \<Rightarrow> Some st
     | Some input \<Rightarrow> map_option snd (fbtk_post_callback handler (Some input) FBTK_CBT_INPUT (Some event) None None st) }"

text \<open>Without a cursor the location read stays uninitialised, and using it is \<^const>\<open>None\<close>.\<close>

definition fbtk_click :: "('cb, nsfb_event, 'w) handler \<Rightarrow> wid \<Rightarrow> nsfb_event \<Rightarrow> ('cb, 'w) toolkit \<Rightarrow> ('cb, 'w) toolkit option" where
  "fbtk_click handler w event st = do {
     root \<leftarrow> fbtk_get_root_widget st w;
     cloc \<leftarrow> nsfb_cursor_loc_get st;
     clicked \<leftarrow> fbtk_get_widget_at st root (x0 cloc) (y0 cloc);
     case clicked of
       None \<Rightarrow> Some st
     | Some c \<Rightarrow> do {
         h \<leftarrow> fbtk_get_handler c FBTK_CBT_INPUT st;
         st \<leftarrow> (if h \<noteq> None then fbtk_set_focus handler c st else Some st);
         x \<leftarrow> fbtk_get_absx st c;
         y \<leftarrow> fbtk_get_absy st c;
         map_option snd (fbtk_post_callback handler (Some c) FBTK_CBT_CLICK (Some event) (Some (x0 cloc - x)) (Some (y0 cloc - y)) st) } }"

definition fbtk_tgrab_pointer :: "wid \<Rightarrow> ('cb, 'w) toolkit \<Rightarrow> (bool \<times> ('cb, 'w) toolkit) option" where
  "fbtk_tgrab_pointer w st = do {
     _ \<leftarrow> fbtk_get_root_widget st w;
     if root_grabbed st = Some w then Some (True, st\<lparr>root_grabbed := None\<rparr>)
     else if root_grabbed st = None then Some (True, st\<lparr>root_grabbed := Some w\<rparr>)
     else Some (False, st) }"

section \<open>Moving the pointer\<close>

definition within_root :: "'cb fbtk_widget \<Rightarrow> int \<times> int \<Rightarrow> int \<times> int" where
  "within_root root = (\<lambda>(x, y). let
     x = (if x < w_x root then w_x root else x);
     x = (if x \<ge> w_x root + w_width root then w_x root + w_width root - 1 else x);
     y = (if y < w_y root then w_y root else y);
     y = (if y \<ge> w_y root + w_height root then w_y root + w_height root - 1 else y)
   in (x, y))"

text \<open>The cursor is moved; the other corner of the box is set by \<^verbatim>\<open>nsfb_cursor_loc_set\<close>.\<close>

definition move_cursor :: "int \<times> int \<Rightarrow> ('cb, 'w) toolkit \<Rightarrow> ('cb, 'w) toolkit" where
  "move_cursor cloc st = snd (nsfb_cursor_loc_set \<lparr>x0 = fst cloc, y0 = snd cloc, x1 = 0, y1 = 0\<rparr> st)"

text \<open>When no widget covers the point, the source follows the NULL pointer \<open>moved\<close>.\<close>

definition warp_free :: "('cb, nsfb_event, 'w) handler \<Rightarrow> wid \<Rightarrow> int \<times> int \<Rightarrow> ('cb, 'w) toolkit \<Rightarrow> ('cb, 'w) toolkit option" where
  "warp_free handler root cloc st = do {
     let st = move_cursor cloc st;
     at \<leftarrow> fbtk_get_widget_at st root (fst cloc) (snd cloc);
     moved \<leftarrow> at;
     x \<leftarrow> fbtk_get_absx st moved;
     y \<leftarrow> fbtk_get_absy st moved;
     st \<leftarrow> (if root_prev st \<noteq> Some moved then do {
         (_, st) \<leftarrow> fbtk_post_callback handler (root_prev st) FBTK_CBT_POINTERLEAVE None None None st;
         let st = st\<lparr>root_prev := Some moved\<rparr>;
         (_, st) \<leftarrow> fbtk_post_callback handler (root_prev st) FBTK_CBT_POINTERENTER None None None st;
         Some st }
       else Some st);
     map_option snd (fbtk_post_callback handler (Some moved) FBTK_CBT_POINTERMOVE None (Some (fst cloc - x)) (Some (snd cloc - y)) st) }"

definition warp_grabbed :: "('cb, nsfb_event, 'w) handler \<Rightarrow> wid \<Rightarrow> int \<times> int \<Rightarrow> ('cb, 'w) toolkit \<Rightarrow> ('cb, 'w) toolkit option" where
  "warp_grabbed handler moved cloc st = do {
     x \<leftarrow> fbtk_get_absx st moved;
     y \<leftarrow> fbtk_get_absy st moved;
     r \<leftarrow> widgets st moved;
     let (cx, cy) = cloc;
     let cx = (if cx < x then x else cx);
     let cy = (if cy < y then y else cy);
     let cx = (if cx > x + w_width r then x + w_width r else cx);
     let cy = (if cy > y + w_height r then y + w_height r else cy);
     let st = move_cursor (cx, cy) st;
     map_option snd (fbtk_post_callback handler (Some moved) FBTK_CBT_POINTERMOVE None (Some (cx - x)) (Some (cy - y)) st) }"

definition fbtk_warp_pointer ::
  "('cb, nsfb_event, 'w) handler \<Rightarrow> wid \<Rightarrow> int \<Rightarrow> int \<Rightarrow> bool \<Rightarrow> ('cb, 'w) toolkit \<Rightarrow> ('cb, 'w) toolkit option" where
  "fbtk_warp_pointer handler w x y relative st = do {
     root \<leftarrow> fbtk_get_root_widget st w;
     cloc \<leftarrow> (if relative then do { c \<leftarrow> nsfb_cursor_loc_get st; Some (x0 c + x, y0 c + y) } else Some (x, y));
     r \<leftarrow> widgets st root;
     let cloc = within_root r cloc;
     case root_grabbed st of
       None \<Rightarrow> warp_free handler root cloc st
     | Some moved \<Rightarrow> warp_grabbed handler moved cloc st }"

section \<open>The event loop\<close>

text \<open>\<^verbatim>\<open>nsfb_event\<close>: an event, or none in the time given; \<^const>\<open>None\<close> is a wait that does not end.\<close>

type_synonym ('cb, 'w) input_rtn = "int \<Rightarrow> ('cb, 'w) toolkit \<Rightarrow> (nsfb_event option \<times> ('cb, 'w) toolkit) option"

fun is_move :: "nsfb_event \<Rightarrow> bool" where
  "is_move (NSFB_EVENT_MOVE_RELATIVE x y z) = True"
| "is_move (NSFB_EVENT_MOVE_ABSOLUTE x y z) = True"
| "is_move _ = False"

definition is_mouse_key :: "nsfb_key_code \<Rightarrow> bool" where
  "is_mouse_key keycode \<longleftrightarrow> keycode \<ge> NSFB_KEY_MOUSE_1 \<and> keycode \<le> 405"

text \<open>The flushing of pending movement, and the starting point of a new relative one.\<close>

definition before_event ::
  "('cb, nsfb_event, 'w) handler \<Rightarrow> wid \<Rightarrow> nsfb_event \<Rightarrow> bool \<Rightarrow> (int \<times> int) option \<Rightarrow> ('cb, 'w) toolkit \<Rightarrow>
   ((int \<times> int) option \<times> ('cb, 'w) toolkit) option" where
  "before_event handler root event move_pointer cloc st =
     (if move_pointer \<and> \<not> is_move event then do {
        c \<leftarrow> cloc;
        st \<leftarrow> fbtk_warp_pointer handler root (fst c) (snd c) False st;
        Some (cloc, st) }
      else case event of
        NSFB_EVENT_MOVE_RELATIVE _ _ _ \<Rightarrow>
          if \<not> move_pointer then
            Some (case nsfb_cursor_loc_get st of Some c \<Rightarrow> Some (x0 c, y0 c) | None \<Rightarrow> cloc, st)
          else Some (cloc, st)
      | _ \<Rightarrow> Some (cloc, st))"

text \<open>The events that are not movements; the flag tells whether the event is left to the caller.\<close>

definition dispatch ::
  "('cb, nsfb_event, 'w) handler \<Rightarrow> (wid \<Rightarrow> int \<Rightarrow> int \<Rightarrow> ('cb, 'w) toolkit \<Rightarrow> ('cb, 'w) toolkit option) \<Rightarrow> wid \<Rightarrow>
   nsfb_event \<Rightarrow> bool \<Rightarrow> ('cb, 'w) toolkit \<Rightarrow> (bool \<times> ('cb, 'w) toolkit) option" where
  "dispatch handler gui_resize root event unused st = (let
     key = (\<lambda>keycode. map_option (Pair unused)
       (if is_mouse_key keycode then fbtk_click handler root event st else fbtk_input handler root event st))
   in case event of
       NSFB_EVENT_KEY_DOWN keycode \<Rightarrow> key keycode
     | NSFB_EVENT_KEY_UP keycode \<Rightarrow> key keycode
     | NSFB_EVENT_CONTROL _ \<Rightarrow> Some (True, st)
     | NSFB_EVENT_RESIZE w h \<Rightarrow> map_option (Pair unused) (gui_resize root w h st)
     | _ \<Rightarrow> Some (unused, st))"

fun moved_to :: "nsfb_event \<Rightarrow> (int \<times> int) option \<Rightarrow> (int \<times> int) option" where
  "moved_to (NSFB_EVENT_MOVE_RELATIVE x y z) cloc = map_option (\<lambda>(a, b). (a + x, b + y)) cloc"
| "moved_to (NSFB_EVENT_MOVE_ABSOLUTE x y z) cloc = Some (x, y)"
| "moved_to _ cloc = cloc"

text \<open>
  The result is whether the event is left to the caller, and the event.  A coordinate
  that is still uninitialised when a relative movement is added to it is \<^const>\<open>None\<close>.
\<close>

partial_function (option) event_loop ::
  "('cb, nsfb_event, 'w) handler \<Rightarrow> (wid \<Rightarrow> int \<Rightarrow> int \<Rightarrow> ('cb, 'w) toolkit \<Rightarrow> ('cb, 'w) toolkit option) \<Rightarrow>
   ('cb, 'w) input_rtn \<Rightarrow> wid \<Rightarrow> nsfb_event \<Rightarrow> int \<Rightarrow> bool \<Rightarrow> bool \<Rightarrow> (int \<times> int) option \<Rightarrow> ('cb, 'w) toolkit \<Rightarrow>
   (bool \<times> nsfb_event \<times> ('cb, 'w) toolkit) option" where
  "event_loop handler gui_resize input root event timeout unused move_pointer cloc st =
     (case input timeout st of
        None \<Rightarrow> None
      | Some (None, st) \<Rightarrow>
          (if move_pointer then do {
             c \<leftarrow> cloc;
             st \<leftarrow> fbtk_warp_pointer handler root (fst c) (snd c) False st;
             Some (False, event, st) }
           else Some (False, event, st))
      | Some (Some event, st) \<Rightarrow>
          Option.bind (before_event handler root event move_pointer cloc st) (\<lambda>(cloc, st).
          if is_move event then
            (case moved_to event cloc of
               None \<Rightarrow> None
             | Some c \<Rightarrow> event_loop handler gui_resize input root event 0 unused True (Some c) st)
          else do {
            (unused, st) \<leftarrow> dispatch handler gui_resize root event unused st;
            Some (unused, event, st) }))"

definition fbtk_event ::
  "('cb, nsfb_event, 'w) handler \<Rightarrow> (wid \<Rightarrow> int \<Rightarrow> int \<Rightarrow> ('cb, 'w) toolkit \<Rightarrow> ('cb, 'w) toolkit option) \<Rightarrow>
   ('cb, 'w) input_rtn \<Rightarrow> wid \<Rightarrow> nsfb_event \<Rightarrow> int \<Rightarrow> ('cb, 'w) toolkit \<Rightarrow> (bool \<times> nsfb_event \<times> ('cb, 'w) toolkit) option" where
  "fbtk_event handler gui_resize input w event timeout st = do {
     root \<leftarrow> fbtk_get_root_widget st w;
     event_loop handler gui_resize input root event timeout False False None st }"

section \<open>Key codes\<close>

definition keymap :: "int list" where
  "keymap =
    [-1, -1, -1, -1, -1, -1, -1, -1, 8, 9,
     -1, -1, -1, 13, -1, -1, -1, -1, -1, -1,
     -1, -1, -1, -1, -1, -1, -1, 27, -1, -1,
     -1, -1, 32, 33, 34, 35, 36, -1, 38, 39,
     40, 41, 42, 43, 44, 45, 46, 47, 48, 49,
     50, 51, 52, 53, 54, 55, 56, 57, 58, 59,
     60, 61, 62, 63, 64, -1, -1, -1, -1, -1,
     -1, -1, -1, -1, -1, -1, -1, -1, -1, -1,
     -1, -1, -1, -1, -1, -1, -1, -1, -1, -1,
     -1, 91, 92, 93, 126, 95, 96, 97, 98, 99,
     100, 101, 102, 103, 104, 105, 106, 107, 108, 109,
     110, 111, 112, 113, 114, 115, 116, 117, 118, 119,
     120, 121, 122, -1, -1, -1, -1, -1, -1, -1]"

definition sh_keymap :: "int list" where
  "sh_keymap =
    [-1, -1, -1, -1, -1, -1, -1, -1, 8, 9,
     -1, -1, -1, 13, -1, -1, -1, -1, -1, -1,
     -1, -1, -1, -1, -1, -1, -1, 27, -1, -1,
     -1, -1, 32, 33, 34, 126, 36, -1, 38, 64,
     40, 41, 42, 43, 60, 95, 62, 63, 41, 33,
     34, 243, 36, 37, 94, 38, 42, 40, 59, 58,
     60, 43, 62, 63, 64, -1, -1, -1, -1, -1,
     -1, -1, -1, -1, -1, -1, -1, -1, -1, -1,
     -1, -1, -1, -1, -1, -1, -1, -1, -1, -1,
     -1, 123, 124, 125, 126, 95, 254, 65, 66, 67,
     68, 69, 70, 71, 72, 73, 74, 75, 76, 77,
     78, 79, 80, 81, 82, 83, 84, 85, 86, 87,
     88, 89, 90, -1, -1, -1, -1, -1, -1, -1]"

text \<open>The modifiers are the bits of an integer, the editing keys are those of \<^verbatim>\<open>netsurf/keypress.h\<close>.\<close>

definition keycode_in :: "int list \<Rightarrow> int \<Rightarrow> int" where
  "keycode_in m code = (if code \<ge> 0 \<and> code < int (length m) then m ! nat code else - 1)"

abbreviation (input) FBTK_MOD_CLEAR :: int where "FBTK_MOD_CLEAR \<equiv> 0"
abbreviation (input) FBTK_MOD_LSHIFT :: int where "FBTK_MOD_LSHIFT \<equiv> 1"
abbreviation (input) FBTK_MOD_RSHIFT :: int where "FBTK_MOD_RSHIFT \<equiv> 2"
abbreviation (input) FBTK_MOD_LCTRL :: int where "FBTK_MOD_LCTRL \<equiv> 4"
abbreviation (input) FBTK_MOD_RCTRL :: int where "FBTK_MOD_RCTRL \<equiv> 8"

definition fbtk_keycode_to_ucs4 :: "int \<Rightarrow> int \<Rightarrow> int" where
  "fbtk_keycode_to_ucs4 code mods =
     (if mods AND FBTK_MOD_LSHIFT \<noteq> 0 \<or> mods AND FBTK_MOD_RSHIFT \<noteq> 0 then keycode_in sh_keymap code
      else if mods = FBTK_MOD_CLEAR then keycode_in keymap code
      else if mods AND FBTK_MOD_LCTRL \<noteq> 0 \<or> mods AND FBTK_MOD_RCTRL \<noteq> 0 then
        (if code = 97 then 1 else if code = 99 then 3 else if code = 117 then 21
         else if code = 118 then 22 else if code = 120 then 24 else if code = 122 then 26 else - 1)
      else - 1)"

end
