(* ===== verification/Fbtk_Draw.thy ===== *)
theory Fbtk_Draw
  imports Fbtk_Event Plot_Bitmap Plot_Line RM_Screen Fb_Font
begin

text \<open>
  Drawing and creating the simple widgets of \<^verbatim>\<open>frontends/framebuffer/fbtk/\<close>: windows
  (\<^verbatim>\<open>window.c\<close>), fills (\<^verbatim>\<open>fill.c\<close>), bitmaps and buttons (\<^verbatim>\<open>bitmap.c\<close>) and user widgets
  (\<^verbatim>\<open>user.c\<close>), on the surface of the reMarkable: the application state is the one of the
  panel.
\<close>

unbundle bit_operations_syntax

section \<open>Drawing\<close>

text \<open>
  The callbacks of the toolkit, with the part of their context that they use, and those of
  its clients.
\<close>

datatype 'a toolkit_cb =
    Fb_redraw_window | Fb_redraw_fill | Fb_redraw_bitmap | Fb_browser_window_destroy | Fbtk_set_ptr fbtk_bitmap
  | Vscroll_redraw | Vscroll_drag wid | Vscrollu_click wid | Vscrolld_click wid | Vscrollarea_click wid
  | Hscroll_redraw | Hscroll_drag wid | Hscrolll_click wid | Hscrollr_click wid | Hscrollarea_click wid
  | Fb_redraw_text | Fb_redraw_text_button | Fb_destroy_text | Fb_text_input_remove_caret_cb
  | Text_input | Text_input_click | Text_input_strip_focus | Client 'a

type_synonym 'a panel_toolkit = "('a toolkit_cb, fb_state) toolkit"

definition fbtk_get_nsfb :: "('cb, 'w) toolkit \<Rightarrow> wid \<Rightarrow> nsfb option" where
  "fbtk_get_nsfb st w = map_option (\<lambda>_. tk_nsfb st) (fbtk_get_root_widget st w)"

definition nsfb_claim :: "nsfb_bbox \<Rightarrow> 'a panel_toolkit \<Rightarrow> 'a panel_toolkit option" where
  "nsfb_claim box st = map_option (\<lambda>(_, a). st\<lparr>app := a\<rparr>) (rm_claim (app st) box)"

definition nsfb_update :: "nsfb_bbox \<Rightarrow> 'a panel_toolkit \<Rightarrow> 'a panel_toolkit" where
  "nsfb_update box st = st\<lparr>app := snd (rm_update (app st) box)\<rparr>"

text \<open>The plotters of the RGB565 format; \<open>fill\<close> clips the caller's box.\<close>

definition nsfb_plot_rectangle_fill :: "nsfb_bbox \<Rightarrow> nsfb_colour \<Rightarrow> 'a panel_toolkit \<Rightarrow> nsfb_bbox \<times> 'a panel_toolkit" where
  "nsfb_plot_rectangle_fill box c st = (let (_, box, nsfb) = fill (tk_nsfb st) box c in (box, st\<lparr>tk_nsfb := nsfb\<rparr>))"

text \<open>Lines and the outline of a rectangle; the fields of the pen that are not set are not used.\<close>

definition pen_of :: "nsfb_colour \<Rightarrow> nsfb_plot_pen" where
  "pen_of c = \<lparr>stroke_type = NFSB_PLOT_OPTYPE_SOLID, stroke_width = 1, stroke_colour = c, stroke_pattern = 0,
     fill_type = NFSB_PLOT_OPTYPE_NONE, fill_colour = 0\<rparr>"

definition nsfb_plot_line :: "nsfb_bbox \<Rightarrow> nsfb_plot_pen \<Rightarrow> 'a panel_toolkit \<Rightarrow> 'a panel_toolkit" where
  "nsfb_plot_line line pen st = st\<lparr>tk_nsfb := snd (snd (plot_line (tk_nsfb st) [line] pen))\<rparr>"

definition rectangle :: "nsfb \<Rightarrow> nsfb_bbox \<Rightarrow> int \<Rightarrow> nsfb_colour \<Rightarrow> bool \<Rightarrow> bool \<Rightarrow> bool \<times> nsfb" where
  "rectangle nsfb rect line_width c dotted dashed = (let
     pen = (pen_of c)\<lparr>stroke_width := line_width,
       stroke_type := (if dotted \<or> dashed then NFSB_PLOT_OPTYPE_PATTERN else NFSB_PLOT_OPTYPE_SOLID)\<rparr>;
     side = [rect\<lparr>y1 := y0 rect\<rparr>, rect\<lparr>y0 := y1 rect\<rparr>, rect\<lparr>x1 := x0 rect\<rparr>, rect\<lparr>x0 := x1 rect\<rparr>];
     (ok, _, nsfb) = plot_line nsfb side pen
   in (ok, nsfb))"

definition nsfb_plot_rectangle :: "nsfb_bbox \<Rightarrow> int \<Rightarrow> nsfb_colour \<Rightarrow> bool \<Rightarrow> bool \<Rightarrow> 'a panel_toolkit \<Rightarrow> 'a panel_toolkit" where
  "nsfb_plot_rectangle rect line_width c dotted dashed st =
     st\<lparr>tk_nsfb := snd (rectangle (tk_nsfb st) rect line_width c dotted dashed)\<rparr>"

definition fb_redraw_window :: "wid \<Rightarrow> 'a panel_toolkit \<Rightarrow> (int \<times> 'a panel_toolkit) option" where
  "fb_redraw_window w st = do {
     r \<leftarrow> widgets st w;
     if w_bg r AND 0xFF000000 = 0 then Some (0, st)
     else do {
       _ \<leftarrow> fbtk_get_nsfb st w;
       bbox \<leftarrow> fbtk_get_bbox st w;
       st \<leftarrow> nsfb_claim bbox st;
       let (bbox, st) = nsfb_plot_rectangle_fill bbox (w_bg r) st;
       Some (0, nsfb_update bbox st) } }"

definition fb_redraw_fill :: "wid \<Rightarrow> 'a panel_toolkit \<Rightarrow> (int \<times> 'a panel_toolkit) option" where
  "fb_redraw_fill w st = do {
     r \<leftarrow> widgets st w;
     _ \<leftarrow> fbtk_get_nsfb st w;
     bbox \<leftarrow> fbtk_get_bbox st w;
     st \<leftarrow> nsfb_claim bbox st;
     let (bbox, st) = (if w_bg r AND 0xFF000000 \<noteq> 0 then nsfb_plot_rectangle_fill bbox (w_bg r) st else (bbox, st));
     Some (0, nsfb_update bbox st) }"

text \<open>The bitmap of a widget; a NULL pointer is followed all the same.\<close>

definition bitmap_of :: "'cb fbtk_widget \<Rightarrow> fbtk_bitmap option" where
  "bitmap_of r = (case w_u r of U_bitmap b \<Rightarrow> b | _ \<Rightarrow> None)"

definition fb_redraw_bitmap :: "wid \<Rightarrow> 'a panel_toolkit \<Rightarrow> (int \<times> 'a panel_toolkit) option" where
  "fb_redraw_bitmap w st = do {
     r \<leftarrow> widgets st w;
     _ \<leftarrow> fbtk_get_nsfb st w;
     bbox \<leftarrow> fbtk_get_bbox st w;
     let rect = bbox;
     st \<leftarrow> nsfb_claim bbox st;
     let (bbox, st) = (if w_bg r AND 0xFF000000 \<noteq> 0 then nsfb_plot_rectangle_fill bbox (w_bg r) st else (bbox, st));
     bm \<leftarrow> bitmap_of r;
     let st = st\<lparr>tk_nsfb := snd (bitmap (tk_nsfb st) rect (bm_pixdata bm) (bm_width bm) (bm_height bm) (bm_width bm) (\<not> bm_opaque bm))\<rparr>;
     Some (0, nsfb_update bbox st) }"

text \<open>The private data of a user widget.\<close>

definition fbtk_get_userpw :: "wid option \<Rightarrow> ('cb, 'w) toolkit \<Rightarrow> 'cb option option" where
  "fbtk_get_userpw widget st = (case widget of
     None \<Rightarrow> Some None
   | Some w \<Rightarrow> do { r \<leftarrow> widgets st w;
       Some (if w_type r \<noteq> FB_WIDGET_TYPE_USER then None else case w_u r of U_user pw \<Rightarrow> pw | _ \<Rightarrow> None) })"

section \<open>Creating widgets\<close>

text \<open>As in the source, the result of \<^verbatim>\<open>fbtk_widget_new\<close> is used without a test.\<close>

definition fbtk_create_window ::
  "wid option \<Rightarrow> int \<Rightarrow> int \<Rightarrow> int \<Rightarrow> int \<Rightarrow> nsfb_colour \<Rightarrow> ('a toolkit_cb, 'w) toolkit \<Rightarrow> (wid option \<times> ('a toolkit_cb, 'w) toolkit) option" where
  "fbtk_create_window parent x y width height bg st =
     (if parent = None then Some (None, st)
      else do {
        (neww, st) \<leftarrow> fbtk_widget_new parent FB_WIDGET_TYPE_WINDOW x y width height st;
        w \<leftarrow> neww;
        st \<leftarrow> upd_widget w (\<lambda>r. r\<lparr>w_bg := bg\<rparr>) st;
        (_, st) \<leftarrow> fbtk_set_handler w FBTK_CBT_REDRAW (Some Fb_redraw_window) st;
        Some (neww, st) })"

definition fbtk_create_fill ::
  "wid option \<Rightarrow> int \<Rightarrow> int \<Rightarrow> int \<Rightarrow> int \<Rightarrow> nsfb_colour \<Rightarrow> ('a toolkit_cb, 'w) toolkit \<Rightarrow> (wid option \<times> ('a toolkit_cb, 'w) toolkit) option" where
  "fbtk_create_fill parent x y width height c st = do {
     (neww, st) \<leftarrow> fbtk_widget_new parent FB_WIDGET_TYPE_FILL x y width height st;
     w \<leftarrow> neww;
     st \<leftarrow> upd_widget w (\<lambda>r. r\<lparr>w_bg := c, w_mapped := True\<rparr>) st;
     (_, st) \<leftarrow> fbtk_set_handler w FBTK_CBT_REDRAW (Some Fb_redraw_fill) st;
     Some (neww, st) }"

definition fbtk_set_bitmap :: "wid option \<Rightarrow> fbtk_bitmap option \<Rightarrow> ('cb, 'w) toolkit \<Rightarrow> ('cb, 'w) toolkit option" where
  "fbtk_set_bitmap widget img st = (case widget of
     None \<Rightarrow> Some st
   | Some w \<Rightarrow> do {
       r \<leftarrow> widgets st w;
       if w_type r \<noteq> FB_WIDGET_TYPE_BITMAP then Some st
       else do {
         st \<leftarrow> upd_widget w (\<lambda>r. r\<lparr>w_u := U_bitmap img\<rparr>) st;
         fbtk_request_redraw (Some w) st } })"

definition fbtk_create_bitmap ::
  "wid option \<Rightarrow> int \<Rightarrow> int \<Rightarrow> int \<Rightarrow> int \<Rightarrow> nsfb_colour \<Rightarrow> fbtk_bitmap option \<Rightarrow> ('a toolkit_cb, 'w) toolkit \<Rightarrow>
   (wid option \<times> ('a toolkit_cb, 'w) toolkit) option" where
  "fbtk_create_bitmap parent x y width height c img st = do {
     (neww, st) \<leftarrow> fbtk_widget_new parent FB_WIDGET_TYPE_BITMAP x y width height st;
     w \<leftarrow> neww;
     st \<leftarrow> upd_widget w (\<lambda>r. r\<lparr>w_bg := c, w_mapped := True, w_u := U_bitmap img\<rparr>) st;
     (_, st) \<leftarrow> fbtk_set_handler w FBTK_CBT_REDRAW (Some Fb_redraw_bitmap) st;
     Some (neww, st) }"

text \<open>The pointer over a button is the bitmap of a hand.\<close>

definition fbtk_create_button ::
  "fbtk_bitmap \<Rightarrow> wid option \<Rightarrow> int \<Rightarrow> int \<Rightarrow> int \<Rightarrow> int \<Rightarrow> nsfb_colour \<Rightarrow> fbtk_bitmap option \<Rightarrow> 'a toolkit_cb option \<Rightarrow>
   ('a toolkit_cb, 'w) toolkit \<Rightarrow> (wid option \<times> ('a toolkit_cb, 'w) toolkit) option" where
  "fbtk_create_button hand_image parent x y width height c img click st = do {
     (neww, st) \<leftarrow> fbtk_widget_new parent FB_WIDGET_TYPE_BITMAP x y width height st;
     w \<leftarrow> neww;
     st \<leftarrow> upd_widget w (\<lambda>r. r\<lparr>w_bg := c, w_mapped := True, w_u := U_bitmap img\<rparr>) st;
     (_, st) \<leftarrow> fbtk_set_handler w FBTK_CBT_REDRAW (Some Fb_redraw_bitmap) st;
     (_, st) \<leftarrow> fbtk_set_handler w FBTK_CBT_CLICK click st;
     (_, st) \<leftarrow> fbtk_set_handler w FBTK_CBT_POINTERENTER (Some (Fbtk_set_ptr hand_image)) st;
     Some (neww, st) }"

definition fbtk_create_user ::
  "wid option \<Rightarrow> int \<Rightarrow> int \<Rightarrow> int \<Rightarrow> int \<Rightarrow> 'cb option \<Rightarrow> ('cb, 'w) toolkit \<Rightarrow> (wid option \<times> ('cb, 'w) toolkit) option" where
  "fbtk_create_user parent x y width height pw st = do {
     (neww, st) \<leftarrow> fbtk_widget_new parent FB_WIDGET_TYPE_USER x y width height st;
     w \<leftarrow> neww;
     st \<leftarrow> upd_widget w (\<lambda>r. r\<lparr>w_u := U_user pw, w_mapped := True\<rparr>) st;
     Some (neww, st) }"

end
