(* ===== verification/Fbtk_Scroll.thy ===== *)
theory Fbtk_Scroll
  imports Fbtk_Draw
begin

text \<open>
  Scroll bars, \<^verbatim>\<open>frontends/framebuffer/fbtk/scroll.c\<close>: drawing, the buttons and the bar,
  dragging, creating, moving and setting them.  A scroll bar posts the position it wants to
  its client; the client sets it.
\<close>

section \<open>The data of a scroll bar\<close>

definition zero_scroll :: fbtk_scroll where
  "zero_scroll = \<lparr>sc_minimum = 0, sc_maximum = 0, sc_thumb = 0, sc_page = 0, sc_position = 0, sc_drag = 0,
     sc_drag_position = 0, sc_btnul = None, sc_btndr = None\<rparr>"

definition scroll_of :: "'cb fbtk_widget \<Rightarrow> fbtk_scroll option" where
  "scroll_of r = (case w_u r of U_scroll s \<Rightarrow> Some s | U_zero \<Rightarrow> Some zero_scroll | _ \<Rightarrow> None)"

definition get_scroll :: "('cb, 'w) toolkit \<Rightarrow> wid \<Rightarrow> fbtk_scroll option" where
  "get_scroll st w = do { r \<leftarrow> widgets st w; scroll_of r }"

definition upd_scroll :: "wid \<Rightarrow> (fbtk_scroll \<Rightarrow> fbtk_scroll) \<Rightarrow> ('cb, 'w) toolkit \<Rightarrow> ('cb, 'w) toolkit option" where
  "upd_scroll w f st = do { s \<leftarrow> get_scroll st w; upd_widget w (\<lambda>r. r\<lparr>w_u := U_scroll (f s)\<rparr>) st }"

text \<open>
  A product of an extent on the screen and one in the document, divided again: the product is
  an \<^verbatim>\<open>int\<close> of 32 bits, whose overflow is undefined, as is the division by 0.
\<close>

definition scaled :: "int \<Rightarrow> int \<Rightarrow> int \<Rightarrow> int option" where
  "scaled a b c = (if - (2 ^ 31) \<le> a * b \<and> a * b < 2 ^ 31 \<and> c \<noteq> 0 then Some (cdiv (a * b) c) else None)"

text \<open>The extent and the position of the bar in a well of a given length.\<close>

definition scroll_bar :: "int \<Rightarrow> fbtk_scroll \<Rightarrow> (int \<times> int) option" where
  "scroll_bar extent s =
     (if sc_maximum s - sc_minimum s > 0 then do {
        scroll \<leftarrow> scaled (extent - 4) (sc_thumb s) (sc_maximum s - sc_minimum s);
        pos \<leftarrow> scaled (extent - 4) (sc_position s) (sc_maximum s - sc_minimum s);
        Some (scroll, pos) }
      else Some (extent - 4, 0))"

section \<open>Vertical scroll bars\<close>

text \<open>The well is clipped by filling it, and its outline is drawn round what is left.\<close>

definition vscroll_redraw :: "wid \<Rightarrow> 'a panel_toolkit \<Rightarrow> (int \<times> 'a panel_toolkit) option" where
  "vscroll_redraw w st = do {
     r \<leftarrow> widgets st w;
     s \<leftarrow> scroll_of r;
     _ \<leftarrow> fbtk_get_nsfb st w;
     bbox \<leftarrow> fbtk_get_bbox st w;
     st \<leftarrow> nsfb_claim bbox st;
     let (_, st) = nsfb_plot_rectangle_fill bbox (w_bg r) st;
     let (rect, st) = nsfb_plot_rectangle_fill
       \<lparr>x0 = x0 bbox + 2, y0 = y0 bbox + 1, x1 = x1 bbox - 3, y1 = y1 bbox - 2\<rparr> (w_fg r) st;
     let st = nsfb_plot_rectangle rect 1 0xFF999999 False False st;
     (vscroll, vpos) \<leftarrow> scroll_bar (w_height r) s;
     let (_, st) = nsfb_plot_rectangle_fill
       \<lparr>x0 = x0 bbox + 5, y0 = y0 bbox + 3 + vpos, x1 = x0 bbox + w_width r - 5, y1 = y0 bbox + vscroll + vpos\<rparr> (w_bg r) st;
     Some (0, nsfb_update bbox st) }"

text \<open>
  Is a change smaller than a fifth of the unit?  The source compares the quotient, as a
  \<^verbatim>\<open>double\<close>, with 0.2; for 32-bit integers that is exact.
\<close>

definition minor_change :: "int \<Rightarrow> int \<Rightarrow> bool" where
  "minor_change change unit \<longleftrightarrow> 0 < unit \<and> 5 * change < unit \<or> unit < 0 \<and> 0 < change"

definition clamp_low :: "int \<Rightarrow> int \<Rightarrow> int" where
  "clamp_low low newpos = (if newpos < low then low else newpos)"

definition clamp_high :: "int \<Rightarrow> int \<Rightarrow> int" where
  "clamp_high high newpos = (if newpos > high then high else newpos)"

definition post_scroll ::
  "('a toolkit_cb, nsfb_event, fb_state) handler \<Rightarrow> wid \<Rightarrow> fbtk_callback_type \<Rightarrow> int \<Rightarrow> 'a panel_toolkit \<Rightarrow> (int \<times> 'a panel_toolkit) option" where
  "post_scroll handler w cbt newpos st = (if cbt = FBTK_CBT_SCROLLX
     then fbtk_post_callback handler (Some w) cbt None (Some newpos) None st
     else fbtk_post_callback handler (Some w) cbt None None (Some newpos) st)"

definition vscroll_drag ::
  "('a toolkit_cb, nsfb_event, fb_state) handler \<Rightarrow> wid \<Rightarrow> wid \<Rightarrow> nsfb_event fbtk_callback_info \<Rightarrow> 'a panel_toolkit \<Rightarrow> (int \<times> 'a panel_toolkit) option" where
  "vscroll_drag handler scrollw w cbi st = do {
     r \<leftarrow> widgets st w;
     s \<leftarrow> scroll_of r;
     sw \<leftarrow> get_scroll st scrollw;
     y \<leftarrow> cbi_y cbi;
     newpos \<leftarrow> scaled (sc_drag_position s + (y - sc_drag s)) (sc_maximum s - sc_minimum s) (w_height r - 4);
     let newpos = clamp_low (sc_minimum sw) newpos;
     let newpos = clamp_high (sc_maximum sw - sc_thumb sw) newpos;
     if newpos = sc_position sw then Some (0, st)
     else if newpos \<noteq> sc_minimum sw \<and> newpos \<noteq> sc_maximum sw - sc_thumb sw
         \<and> minor_change \<bar>newpos - sc_position sw\<bar> (sc_thumb sw) then Some (0, st)
     else post_scroll handler w FBTK_CBT_SCROLLY newpos st }"

definition is_key_down :: "nsfb_event fbtk_callback_info \<Rightarrow> bool option" where
  "is_key_down cbi = do { event \<leftarrow> cbi_event cbi; Some (case event of NSFB_EVENT_KEY_DOWN _ \<Rightarrow> True | _ \<Rightarrow> False) }"

definition vscrollu_click ::
  "('a toolkit_cb, nsfb_event, fb_state) handler \<Rightarrow> wid \<Rightarrow> nsfb_event fbtk_callback_info \<Rightarrow> 'a panel_toolkit \<Rightarrow> (int \<times> 'a panel_toolkit) option" where
  "vscrollu_click handler scrollw cbi st = do {
     down \<leftarrow> is_key_down cbi;
     if \<not> down then Some (0, st)
     else do {
       s \<leftarrow> get_scroll st scrollw;
       let newpos = clamp_low (sc_minimum s) (sc_position s - sc_page s);
       if newpos = sc_position s then Some (0, st)
       else post_scroll handler scrollw FBTK_CBT_SCROLLY newpos st } }"

definition vscrolld_click ::
  "('a toolkit_cb, nsfb_event, fb_state) handler \<Rightarrow> wid \<Rightarrow> nsfb_event fbtk_callback_info \<Rightarrow> 'a panel_toolkit \<Rightarrow> (int \<times> 'a panel_toolkit) option" where
  "vscrolld_click handler scrollw cbi st = do {
     down \<leftarrow> is_key_down cbi;
     if \<not> down then Some (0, st)
     else do {
       s \<leftarrow> get_scroll st scrollw;
       let newpos = clamp_high (sc_maximum s - sc_thumb s) (sc_position s + sc_page s);
       if newpos = sc_position s then Some (0, st)
       else post_scroll handler scrollw FBTK_CBT_SCROLLY newpos st } }"

text \<open>The start of a drag, and its end.\<close>

definition start_drag :: "'a toolkit_cb \<Rightarrow> wid \<Rightarrow> int \<Rightarrow> int \<Rightarrow> 'a panel_toolkit \<Rightarrow> (int \<times> 'a panel_toolkit) option" where
  "start_drag drag_cb w at bar_pos st = do {
     st \<leftarrow> upd_scroll w (\<lambda>s. s\<lparr>sc_drag := at, sc_drag_position := bar_pos\<rparr>) st;
     (_, st) \<leftarrow> fbtk_set_handler w FBTK_CBT_POINTERMOVE (Some drag_cb) st;
     (_, st) \<leftarrow> fbtk_tgrab_pointer w st;
     Some (0, st) }"

definition end_drag :: "wid \<Rightarrow> 'a panel_toolkit \<Rightarrow> (int \<times> 'a panel_toolkit) option" where
  "end_drag w st = do {
     (h, st) \<leftarrow> fbtk_set_handler w FBTK_CBT_POINTERMOVE None st;
     if h \<noteq> None then do { (_, st) \<leftarrow> fbtk_tgrab_pointer w st; Some (0, st) }
     else Some (0, st) }"

definition vscrollarea_click ::
  "('a toolkit_cb, nsfb_event, fb_state) handler \<Rightarrow> wid \<Rightarrow> wid \<Rightarrow> nsfb_event fbtk_callback_info \<Rightarrow> 'a panel_toolkit \<Rightarrow> (int \<times> 'a panel_toolkit) option" where
  "vscrollarea_click handler ctx w cbi st = do {
     event \<leftarrow> cbi_event cbi;
     case event of
       NSFB_EVENT_KEY_DOWN keycode \<Rightarrow> do {
         r \<leftarrow> widgets st w;
         s \<leftarrow> scroll_of r;
         if keycode = 404 then
           post_scroll handler ctx FBTK_CBT_SCROLLY (clamp_low (sc_minimum s) (sc_position s - sc_page s)) st
         else if keycode = 405 then
           post_scroll handler ctx FBTK_CBT_SCROLLY (clamp_high (sc_maximum s) (sc_position s + sc_page s)) st
         else do {
           (vscroll, vpos) \<leftarrow> scroll_bar (w_height r) s;
           y \<leftarrow> cbi_y cbi;
           if y < vpos then
             post_scroll handler ctx FBTK_CBT_SCROLLY (clamp_low (sc_minimum s) (sc_position s - sc_thumb s)) st
           else if y > vpos + vscroll then
             post_scroll handler ctx FBTK_CBT_SCROLLY (clamp_high (sc_maximum s) (sc_position s + sc_thumb s)) st
           else start_drag (Vscroll_drag w) w y vpos st } }
     | _ \<Rightarrow> end_drag w st }"

text \<open>The images of the buttons and of the hand are compiled in.\<close>

record toolkit_images =
  scrollu :: fbtk_bitmap
  scrolld :: fbtk_bitmap
  scrolll :: fbtk_bitmap
  scrollr :: fbtk_bitmap
  hand_image :: fbtk_bitmap

definition fbtk_create_vscroll ::
  "toolkit_images \<Rightarrow> wid option \<Rightarrow> int \<Rightarrow> int \<Rightarrow> int \<Rightarrow> int \<Rightarrow> nsfb_colour \<Rightarrow> nsfb_colour \<Rightarrow> 'a toolkit_cb option \<Rightarrow>
   ('a toolkit_cb, 'w) toolkit \<Rightarrow> (wid option \<times> ('a toolkit_cb, 'w) toolkit) option" where
  "fbtk_create_vscroll im parent x y width height fg bg callback st = do {
     (neww, st) \<leftarrow> fbtk_widget_new parent FB_WIDGET_TYPE_VSCROLL x (y + bm_height (scrollu im)) width
       (height - bm_height (scrollu im) - bm_height (scrolld im)) st;
     w \<leftarrow> neww;
     st \<leftarrow> upd_widget w (\<lambda>r. r\<lparr>w_fg := fg, w_bg := bg, w_mapped := True\<rparr>) st;
     (_, st) \<leftarrow> fbtk_set_handler w FBTK_CBT_REDRAW (Some Vscroll_redraw) st;
     (_, st) \<leftarrow> fbtk_set_handler w FBTK_CBT_CLICK (Some (Vscrollarea_click w)) st;
     (_, st) \<leftarrow> fbtk_set_handler w FBTK_CBT_SCROLLY callback st;
     (up, st) \<leftarrow> fbtk_create_button (hand_image im) parent x y width (bm_height (scrollu im)) fg (Some (scrollu im))
       (Some (Vscrollu_click w)) st;
     st \<leftarrow> upd_scroll w (\<lambda>s. s\<lparr>sc_btnul := up\<rparr>) st;
     (down, st) \<leftarrow> fbtk_create_button (hand_image im) parent x (y + height - bm_height (scrolld im)) width (bm_height (scrolld im)) fg
       (Some (scrolld im)) (Some (Vscrolld_click w)) st;
     st \<leftarrow> upd_scroll w (\<lambda>s. s\<lparr>sc_btndr := down\<rparr>) st;
     Some (neww, st) }"

text \<open>A widget of another type fails the assertion; the buttons are followed without a test.\<close>

definition fbtk_reposition_vscroll ::
  "toolkit_images \<Rightarrow> wid \<Rightarrow> int \<Rightarrow> int \<Rightarrow> int \<Rightarrow> int \<Rightarrow> ('cb, 'w) toolkit \<Rightarrow> ('cb, 'w) toolkit option" where
  "fbtk_reposition_vscroll im vscroll x y width height st = do {
     r \<leftarrow> widgets st vscroll;
     if w_type r \<noteq> FB_WIDGET_TYPE_VSCROLL then None
     else do {
       (_, st) \<leftarrow> fbtk_set_pos_and_size vscroll x (y + bm_height (scrollu im)) width
         (height - bm_height (scrollu im) - bm_height (scrolld im)) st;
       s \<leftarrow> get_scroll st vscroll;
       up \<leftarrow> sc_btnul s;
       (_, st) \<leftarrow> fbtk_set_pos_and_size up x y width (bm_height (scrollu im)) st;
       down \<leftarrow> sc_btndr s;
       (_, st) \<leftarrow> fbtk_set_pos_and_size down x (y + height - bm_height (scrolld im)) width (bm_height (scrolld im)) st;
       Some st } }"

section \<open>Horizontal scroll bars\<close>

definition hscroll_redraw :: "wid \<Rightarrow> 'a panel_toolkit \<Rightarrow> (int \<times> 'a panel_toolkit) option" where
  "hscroll_redraw w st = do {
     r \<leftarrow> widgets st w;
     s \<leftarrow> scroll_of r;
     _ \<leftarrow> fbtk_get_nsfb st w;
     bbox \<leftarrow> fbtk_get_bbox st w;
     st \<leftarrow> nsfb_claim bbox st;
     let (_, st) = nsfb_plot_rectangle_fill bbox (w_bg r) st;
     let (rect, st) = nsfb_plot_rectangle_fill
       \<lparr>x0 = x0 bbox + 1, y0 = y0 bbox + 2, x1 = x1 bbox - 2, y1 = y1 bbox - 3\<rparr> (w_fg r) st;
     let st = nsfb_plot_rectangle rect 1 0xFF999999 False False st;
     (hscroll, hpos) \<leftarrow> scroll_bar (w_width r) s;
     let (_, st) = nsfb_plot_rectangle_fill
       \<lparr>x0 = x0 bbox + 3 + hpos, y0 = y0 bbox + 5, x1 = x0 bbox + hscroll + hpos, y1 = y0 bbox + w_height r - 5\<rparr> (w_bg r) st;
     Some (0, nsfb_update bbox st) }"

definition hscrolll_click ::
  "('a toolkit_cb, nsfb_event, fb_state) handler \<Rightarrow> wid \<Rightarrow> nsfb_event fbtk_callback_info \<Rightarrow> 'a panel_toolkit \<Rightarrow> (int \<times> 'a panel_toolkit) option" where
  "hscrolll_click handler scrollw cbi st = do {
     down \<leftarrow> is_key_down cbi;
     if \<not> down then Some (0, st)
     else do {
       s \<leftarrow> get_scroll st scrollw;
       let newpos = clamp_low (sc_minimum s) (sc_position s - sc_page s);
       if newpos = sc_position s then Some (0, st)
       else post_scroll handler scrollw FBTK_CBT_SCROLLX newpos st } }"

definition hscrollr_click ::
  "('a toolkit_cb, nsfb_event, fb_state) handler \<Rightarrow> wid \<Rightarrow> nsfb_event fbtk_callback_info \<Rightarrow> 'a panel_toolkit \<Rightarrow> (int \<times> 'a panel_toolkit) option" where
  "hscrollr_click handler scrollw cbi st = do {
     down \<leftarrow> is_key_down cbi;
     if \<not> down then Some (0, st)
     else do {
       s \<leftarrow> get_scroll st scrollw;
       let newpos = clamp_high (sc_maximum s - sc_thumb s) (sc_position s + sc_page s);
       if newpos = sc_position s then Some (0, st)
       else post_scroll handler scrollw FBTK_CBT_SCROLLX newpos st } }"

definition hscroll_drag ::
  "('a toolkit_cb, nsfb_event, fb_state) handler \<Rightarrow> wid \<Rightarrow> wid \<Rightarrow> nsfb_event fbtk_callback_info \<Rightarrow> 'a panel_toolkit \<Rightarrow> (int \<times> 'a panel_toolkit) option" where
  "hscroll_drag handler scrollw w cbi st = do {
     r \<leftarrow> widgets st w;
     s \<leftarrow> scroll_of r;
     sw \<leftarrow> get_scroll st scrollw;
     x \<leftarrow> cbi_x cbi;
     newpos \<leftarrow> scaled (sc_drag_position s + (x - sc_drag s)) (sc_maximum s - sc_minimum s) (w_width r - 4);
     let newpos = clamp_low (sc_minimum sw) newpos;
     let newpos = clamp_high (sc_maximum sw - sc_thumb sw) newpos;
     if newpos = sc_position sw then Some (0, st)
     else if newpos \<noteq> sc_minimum sw \<and> newpos \<noteq> sc_maximum sw - sc_thumb sw
         \<and> minor_change \<bar>newpos - sc_position sw\<bar> (sc_page sw) then Some (0, st)
     else post_scroll handler w FBTK_CBT_SCROLLX newpos st }"

definition hscrollarea_click ::
  "('a toolkit_cb, nsfb_event, fb_state) handler \<Rightarrow> wid \<Rightarrow> wid \<Rightarrow> nsfb_event fbtk_callback_info \<Rightarrow> 'a panel_toolkit \<Rightarrow> (int \<times> 'a panel_toolkit) option" where
  "hscrollarea_click handler ctx w cbi st = do {
     event \<leftarrow> cbi_event cbi;
     case event of
       NSFB_EVENT_KEY_DOWN keycode \<Rightarrow> do {
         r \<leftarrow> widgets st w;
         s \<leftarrow> scroll_of r;
         (hscroll, hpos) \<leftarrow> scroll_bar (w_width r) s;
         x \<leftarrow> cbi_x cbi;
         if x < hpos then
           post_scroll handler ctx FBTK_CBT_SCROLLX (clamp_low (sc_minimum s) (sc_position s - sc_page s)) st
         else if x > hpos + hscroll then
           post_scroll handler ctx FBTK_CBT_SCROLLX (clamp_high (sc_maximum s) (sc_position s + sc_page s)) st
         else start_drag (Hscroll_drag w) w x hpos st }
     | _ \<Rightarrow> end_drag w st }"

definition fbtk_create_hscroll ::
  "toolkit_images \<Rightarrow> wid option \<Rightarrow> int \<Rightarrow> int \<Rightarrow> int \<Rightarrow> int \<Rightarrow> nsfb_colour \<Rightarrow> nsfb_colour \<Rightarrow> 'a toolkit_cb option \<Rightarrow>
   ('a toolkit_cb, 'w) toolkit \<Rightarrow> (wid option \<times> ('a toolkit_cb, 'w) toolkit) option" where
  "fbtk_create_hscroll im parent x y width height fg bg callback st = do {
     (neww, st) \<leftarrow> fbtk_widget_new parent FB_WIDGET_TYPE_HSCROLL (x + bm_width (scrolll im)) y
       (width - bm_width (scrolll im) - bm_width (scrollr im)) height st;
     w \<leftarrow> neww;
     st \<leftarrow> upd_widget w (\<lambda>r. r\<lparr>w_fg := fg, w_bg := bg, w_mapped := True\<rparr>) st;
     (_, st) \<leftarrow> fbtk_set_handler w FBTK_CBT_REDRAW (Some Hscroll_redraw) st;
     (_, st) \<leftarrow> fbtk_set_handler w FBTK_CBT_CLICK (Some (Hscrollarea_click w)) st;
     (_, st) \<leftarrow> fbtk_set_handler w FBTK_CBT_SCROLLX callback st;
     (left, st) \<leftarrow> fbtk_create_button (hand_image im) parent x y (bm_width (scrolll im)) height fg (Some (scrolll im))
       (Some (Hscrolll_click w)) st;
     st \<leftarrow> upd_scroll w (\<lambda>s. s\<lparr>sc_btnul := left\<rparr>) st;
     (right, st) \<leftarrow> fbtk_create_button (hand_image im) parent (x + width - bm_width (scrollr im)) y (bm_width (scrollr im)) height fg
       (Some (scrollr im)) (Some (Hscrollr_click w)) st;
     st \<leftarrow> upd_scroll w (\<lambda>s. s\<lparr>sc_btndr := right\<rparr>) st;
     Some (neww, st) }"

definition fbtk_reposition_hscroll ::
  "toolkit_images \<Rightarrow> wid \<Rightarrow> int \<Rightarrow> int \<Rightarrow> int \<Rightarrow> int \<Rightarrow> ('cb, 'w) toolkit \<Rightarrow> ('cb, 'w) toolkit option" where
  "fbtk_reposition_hscroll im scrollh x y width height st = do {
     r \<leftarrow> widgets st scrollh;
     if w_type r \<noteq> FB_WIDGET_TYPE_HSCROLL then None
     else do {
       (_, st) \<leftarrow> fbtk_set_pos_and_size scrollh (x + bm_width (scrolll im)) y
         (width - bm_width (scrolll im) - bm_width (scrollr im)) height st;
       s \<leftarrow> get_scroll st scrollh;
       left \<leftarrow> sc_btnul s;
       (_, st) \<leftarrow> fbtk_set_pos_and_size left x y (bm_width (scrolll im)) height st;
       right \<leftarrow> sc_btndr s;
       (_, st) \<leftarrow> fbtk_set_pos_and_size right (x + width - bm_width (scrollr im)) y (bm_width (scrollr im)) height st;
       Some st } }"

section \<open>Setting a scroll bar\<close>

abbreviation is_scroll :: "'cb fbtk_widget \<Rightarrow> bool" where
  "is_scroll r \<equiv> w_type r = FB_WIDGET_TYPE_HSCROLL \<or> w_type r = FB_WIDGET_TYPE_VSCROLL"

definition fbtk_set_scroll_parameters ::
  "wid option \<Rightarrow> int \<Rightarrow> int \<Rightarrow> int \<Rightarrow> int \<Rightarrow> ('cb, 'w) toolkit \<Rightarrow> (bool \<times> ('cb, 'w) toolkit) option" where
  "fbtk_set_scroll_parameters widget low high thumb page st = (case widget of
     None \<Rightarrow> Some (False, st)
   | Some w \<Rightarrow> do {
       r \<leftarrow> widgets st w;
       if \<not> is_scroll r then Some (False, st)
       else do {
         st \<leftarrow> upd_scroll w (\<lambda>s. let
             s = s\<lparr>sc_minimum := low, sc_maximum := high, sc_thumb := thumb, sc_page := page\<rparr>;
             s = (if sc_position s > high then s\<lparr>sc_position := high\<rparr> else s);
             s = (if sc_position s < low then s\<lparr>sc_position := low\<rparr> else s)
           in s) st;
         st \<leftarrow> fbtk_request_redraw (Some w) st;
         Some (True, st) } })"

definition fbtk_set_scroll_position ::
  "wid option \<Rightarrow> int \<Rightarrow> ('cb, 'w) toolkit \<Rightarrow> (bool \<times> ('cb, 'w) toolkit) option" where
  "fbtk_set_scroll_position widget position st = (case widget of
     None \<Rightarrow> Some (False, st)
   | Some w \<Rightarrow> do {
       r \<leftarrow> widgets st w;
       if \<not> is_scroll r then Some (False, st)
       else do {
         s \<leftarrow> scroll_of r;
         if position < sc_minimum s \<or> position > sc_maximum s then Some (False, st)
         else do {
           st \<leftarrow> upd_scroll w (\<lambda>s. s\<lparr>sc_position := position\<rparr>) st;
           st \<leftarrow> fbtk_request_redraw (Some w) st;
           Some (True, st) } } })"

end
