(* ===== verification/Fbtk_Text.thy ===== *)
theory Fbtk_Text
  imports Fbtk_Scroll
begin

text \<open>
  Text widgets, \<^verbatim>\<open>frontends/framebuffer/fbtk/text.c\<close>: drawing text and text buttons, the
  line editor of a writable text, and creating them.  The buffer of a text is a list of
  bytes; an access outside it is \<^const>\<open>None\<close>.
\<close>

unbundle bit_operations_syntax

section \<open>The data of a text widget\<close>

text \<open>What the text widgets depend on: the fonts, and what \<^verbatim>\<open>realloc\<close> leaves in new bytes.\<close>

record text_env =
  te_fonts :: fonts
  te_junk :: "nat \<Rightarrow> nat"

definition zero_text :: "'cb fbtk_text" where
  "zero_text = \<lparr>tx_text = None, tx_outline = False, tx_all_selected = False, tx_enter = None, tx_idx = 0, tx_len = 0,
     tx_width = 0, tx_idx_offset = 0\<rparr>"

definition widget_text :: "'cb fbtk_widget \<Rightarrow> 'cb fbtk_text option" where
  "widget_text r = (case w_u r of U_text t \<Rightarrow> Some t | U_zero \<Rightarrow> Some zero_text | _ \<Rightarrow> None)"

definition get_text :: "('cb, 'w) toolkit \<Rightarrow> wid \<Rightarrow> 'cb fbtk_text option" where
  "get_text st w = do { r \<leftarrow> widgets st w; widget_text r }"

definition upd_text :: "wid \<Rightarrow> ('cb fbtk_text \<Rightarrow> 'cb fbtk_text) \<Rightarrow> ('cb, 'w) toolkit \<Rightarrow> ('cb, 'w) toolkit option" where
  "upd_text w f st = do { t \<leftarrow> get_text st w; upd_widget w (\<lambda>r. r\<lparr>w_u := U_text (f t)\<rparr>) st }"

text \<open>The bytes handed to the font code: a pointer and a length.\<close>

definition text_bytes :: "nat list option \<Rightarrow> int \<Rightarrow> nat list option" where
  "text_bytes text n = (if n = 0 then Some []
     else case text of None \<Rightarrow> None
     | Some buf \<Rightarrow> if 0 < n \<and> n \<le> int (length buf) then Some (take (nat n) buf) else None)"

definition memmove :: "int \<Rightarrow> int \<Rightarrow> int \<Rightarrow> nat list \<Rightarrow> nat list option" where
  "memmove dst src n buf =
     (if 0 \<le> n \<and> 0 \<le> dst \<and> 0 \<le> src \<and> dst + n \<le> int (length buf) \<and> src + n \<le> int (length buf)
      then Some (take (nat dst) buf @ take (nat n) (drop (nat src) buf) @ drop (nat (dst + n)) buf) else None)"

definition poke :: "int \<Rightarrow> nat \<Rightarrow> nat list \<Rightarrow> nat list option" where
  "poke i b buf = (if 0 \<le> i \<and> i < int (length buf) then Some (buf[nat i := b]) else None)"

definition resize :: "(nat \<Rightarrow> nat) \<Rightarrow> nat \<Rightarrow> nat list \<Rightarrow> nat list" where
  "resize junk n buf = map (\<lambda>i. if i < length buf then buf ! i else junk i) [0..<n]"

text \<open>A C string: the bytes in front of the first 0, which has to be there.\<close>

definition c_string :: "nat list \<Rightarrow> nat list option" where
  "c_string buf = (if 0 \<in> set buf then Some (takeWhile (\<lambda>b. b \<noteq> 0) buf) else None)"

section \<open>Drawing\<close>

definition brighten_colour :: "nsfb_colour \<Rightarrow> nsfb_colour" where
  "brighten_colour c = (push_bit 16 (drop_bit 3 (7 * (drop_bit 16 c AND 0xFF)) + 32))
     OR (push_bit 8 (drop_bit 3 (7 * (drop_bit 8 c AND 0xFF)) + 32)) OR (drop_bit 3 (7 * (c AND 0xFF)) + 32)"

definition darken_colour :: "nsfb_colour \<Rightarrow> nsfb_colour" where
  "darken_colour c = (drop_bit 2 (3 * (c AND 0xFF00FF)) AND 0xFF00FF) OR (drop_bit 2 (3 * (c AND 0x00FF00)) AND 0x00FF00)"

abbreviation (input) FBTK_DPI :: int where "FBTK_DPI \<equiv> 90"

definition px_to_pt :: "int \<Rightarrow> int" where
  "px_to_pt x = cdiv (x * 72) FBTK_DPI"

text \<open>The font height, the padding and the style; the device is built with FreeType.\<close>

definition fb_text_font_style :: "'cb fbtk_widget \<Rightarrow> 'cb fbtk_text \<Rightarrow> int \<times> int \<times> plot_font_style" where
  "fb_text_font_style r t = (let
     padding = (if tx_outline t then 1 else 0) + cdiv (w_height r) 6;
     font_height = w_height r - padding - padding
   in (font_height, padding,
     \<lparr>st_family = PLOT_FONT_FAMILY_SANS_SERIF, st_size = px_to_pt (font_height * PLOT_STYLE_SCALE), st_weight = 400,
       st_flags = FONTF_NONE,
       st_background = (if tx_all_selected t then w_fg r else w_bg r),
       st_foreground = (if tx_all_selected t then w_bg r else w_fg r)\<rparr>))"

definition plot_text :: "text_env \<Rightarrow> plot_font_style \<Rightarrow> int \<Rightarrow> int \<Rightarrow> 'cb fbtk_text \<Rightarrow> ('cb, 'w) toolkit \<Rightarrow> ('cb, 'w) toolkit option" where
  "plot_text env style x y t st = do {
     s \<leftarrow> text_bytes (tx_text t) (tx_len t);
     nsfb \<leftarrow> framebuffer_plot_text (te_fonts env) style x y s (tk_nsfb st);
     Some (st\<lparr>tk_nsfb := nsfb\<rparr>) }"

definition fb_redraw_text :: "text_env \<Rightarrow> wid \<Rightarrow> 'a panel_toolkit \<Rightarrow> (int \<times> 'a panel_toolkit) option" where
  "fb_redraw_text env w st = do {
     r \<leftarrow> widgets st w;
     t \<leftarrow> widget_text r;
     let (fh, padding, font_style) = fb_text_font_style r t;
     (caret, cx, cy, ch) \<leftarrow> fbtk_get_caret st w;
     _ \<leftarrow> fbtk_get_nsfb st w;
     bbox \<leftarrow> fbtk_get_bbox st w;
     st \<leftarrow> nsfb_claim bbox st;
     let (rect, st) = (if w_bg r AND 0xFF000000 \<noteq> 0
       then nsfb_plot_rectangle_fill bbox (if tx_all_selected t then w_fg r else w_bg r) st else (bbox, st));
     let st = (if tx_outline t then nsfb_plot_rectangle (rect\<lparr>x1 := x1 rect - 1, y1 := y1 rect - 1\<rparr>) 1 0 False False st else st);
     let scroll = (if tx_text t \<noteq> None \<and> caret \<and> w_width r - padding - padding < cx then (w_width r - padding - padding) - cx else 0);
     st \<leftarrow> (if tx_text t \<noteq> None
       then plot_text env font_style (x0 bbox + padding + scroll) (y0 bbox + cdiv (fh * 3 + 2) 4 + padding + 1) t st else Some st);
     let st = (if caret \<and> \<not> tx_all_selected t
       then nsfb_plot_line \<lparr>x0 = x0 bbox + cx + scroll, y0 = y0 bbox + cy, x1 = x0 bbox + cx + scroll, y1 = y0 bbox + cy + ch\<rparr>
         (pen_of 0xFF0000FF) st else st);
     Some (0, nsfb_update bbox st) }"

definition button_edges :: "nsfb_bbox \<Rightarrow> nsfb_colour \<Rightarrow> 'a panel_toolkit \<Rightarrow> 'a panel_toolkit" where
  "button_edges rect bg st = (let
     pen = pen_of (brighten_colour bg);
     st = nsfb_plot_line \<lparr>x0 = x0 rect, y0 = y0 rect, x1 = x0 rect, y1 = y1 rect\<rparr> pen st;
     st = nsfb_plot_line \<lparr>x0 = x0 rect, y0 = y0 rect, x1 = x1 rect, y1 = y0 rect\<rparr> pen st;
     pen = pen\<lparr>stroke_colour := darken_colour bg\<rparr>;
     st = nsfb_plot_line \<lparr>x0 = x0 rect, y0 = y1 rect, x1 = x1 rect, y1 = y1 rect\<rparr> pen st;
     st = nsfb_plot_line \<lparr>x0 = x1 rect, y0 = y0 rect, x1 = x1 rect, y1 = y1 rect\<rparr> pen st
   in st)"

definition fb_redraw_text_button :: "text_env \<Rightarrow> wid \<Rightarrow> 'a panel_toolkit \<Rightarrow> (int \<times> 'a panel_toolkit) option" where
  "fb_redraw_text_button env w st = do {
     r \<leftarrow> widgets st w;
     t \<leftarrow> widget_text r;
     _ \<leftarrow> fbtk_get_nsfb st w;
     let (fh, border, font_style) = fb_text_font_style r t;
     bbox \<leftarrow> fbtk_get_bbox st w;
     st \<leftarrow> nsfb_claim bbox st;
     let rect = bbox\<lparr>x1 := x1 bbox - 1, y1 := y1 bbox - 1\<rparr>;
     let (rect, st) = (if w_bg r AND 0xFF000000 \<noteq> 0 then nsfb_plot_rectangle_fill rect (w_bg r) st else (rect, st));
     let st = (if tx_outline t then button_edges rect (w_bg r) st else st);
     st \<leftarrow> (if tx_text t \<noteq> None
       then plot_text env font_style (x0 bbox + border) (y0 bbox + cdiv (fh * 3) 4 + border) t st else Some st);
     Some (0, nsfb_update bbox st) }"

section \<open>The caret\<close>

definition fb_text_input_remove_caret_cb :: "wid \<Rightarrow> ('cb, 'w) toolkit \<Rightarrow> ('cb, 'w) toolkit option" where
  "fb_text_input_remove_caret_cb w st = do {
     (has_caret, _) \<leftarrow> fbtk_get_caret st w;
     if has_caret then fbtk_request_redraw (Some w) st else Some st }"

text \<open>The callbacks that remove a caret: the one of text widgets, and those of clients.\<close>

fun remove_handler ::
  "('a \<Rightarrow> wid \<Rightarrow> ('a toolkit_cb, 'w) toolkit \<Rightarrow> ('a toolkit_cb, 'w) toolkit option) \<Rightarrow> 'a toolkit_cb \<Rightarrow> wid \<Rightarrow>
   ('a toolkit_cb, 'w) toolkit \<Rightarrow> ('a toolkit_cb, 'w) toolkit option" where
  "remove_handler client_remove (Client c) w st = client_remove c w st"
| "remove_handler client_remove Fb_text_input_remove_caret_cb w st = fb_text_input_remove_caret_cb w st"
| "remove_handler client_remove _ w st = None"

definition text_caret ::
  "('a toolkit_cb \<Rightarrow> wid \<Rightarrow> ('a toolkit_cb, 'w) toolkit \<Rightarrow> ('a toolkit_cb, 'w) toolkit option) \<Rightarrow> wid \<Rightarrow> int \<Rightarrow>
   ('a toolkit_cb, 'w) toolkit \<Rightarrow> ('a toolkit_cb, 'w) toolkit option" where
  "text_caret remove w border st = do {
     r \<leftarrow> widgets st w;
     t \<leftarrow> widget_text r;
     fbtk_set_caret remove w True (tx_idx_offset t + border) border (w_height r - border - border) (Some Fb_text_input_remove_caret_cb) st }"

section \<open>Setting the text\<close>

text \<open>The result of \<^verbatim>\<open>strdup\<close> is not tested.\<close>

definition fbtk_set_text ::
  "text_env \<Rightarrow> ('a toolkit_cb \<Rightarrow> wid \<Rightarrow> ('a toolkit_cb, 'w) toolkit \<Rightarrow> ('a toolkit_cb, 'w) toolkit option) \<Rightarrow> wid option \<Rightarrow> nat list \<Rightarrow>
   ('a toolkit_cb, 'w) toolkit \<Rightarrow> ('a toolkit_cb, 'w) toolkit option" where
  "fbtk_set_text env remove widget text st = (case widget of
     None \<Rightarrow> Some st
   | Some w \<Rightarrow> do {
       r \<leftarrow> widgets st w;
       if w_type r \<noteq> FB_WIDGET_TYPE_TEXT then Some st
       else do {
         t \<leftarrow> widget_text r;
         same \<leftarrow> (case tx_text t of None \<Rightarrow> Some False | Some buf \<Rightarrow> map_option (\<lambda>s. s = text) (c_string buf));
         if same then Some st
         else do {
           let (ok, h) = alloc (tk_heap st);
           st \<leftarrow> upd_text w (\<lambda>t. t\<lparr>tx_text := (if ok then Some (text @ [0]) else None), tx_len := int (length text),
             tx_idx := int (length text)\<rparr>) (st\<lparr>tk_heap := h\<rparr>);
           t \<leftarrow> get_text st w;
           let (fh, border, font_style) = fb_text_font_style r t;
           s \<leftarrow> text_bytes (tx_text t) (tx_len t);
           width \<leftarrow> fb_font_width (te_fonts env) font_style s;
           s \<leftarrow> text_bytes (tx_text t) (tx_idx t);
           idx_offset \<leftarrow> fb_font_width (te_fonts env) font_style s;
           st \<leftarrow> upd_text w (\<lambda>t. t\<lparr>tx_width := width, tx_idx_offset := idx_offset\<rparr>) st;
           (has_caret, _) \<leftarrow> fbtk_get_caret st w;
           st \<leftarrow> (if has_caret then text_caret remove w border st else Some st);
           fbtk_request_redraw (Some w) st } } })"

section \<open>Editing\<close>

abbreviation (input) NSFB_KEY_BACKSPACE :: nsfb_key_code where "NSFB_KEY_BACKSPACE \<equiv> 8"
abbreviation (input) NSFB_KEY_RETURN :: nsfb_key_code where "NSFB_KEY_RETURN \<equiv> 13"
abbreviation (input) NSFB_KEY_u :: nsfb_key_code where "NSFB_KEY_u \<equiv> 117"
abbreviation (input) NSFB_KEY_UP :: nsfb_key_code where "NSFB_KEY_UP \<equiv> 273"
abbreviation (input) NSFB_KEY_DOWN :: nsfb_key_code where "NSFB_KEY_DOWN \<equiv> 274"
abbreviation (input) NSFB_KEY_RIGHT :: nsfb_key_code where "NSFB_KEY_RIGHT \<equiv> 275"
abbreviation (input) NSFB_KEY_LEFT :: nsfb_key_code where "NSFB_KEY_LEFT \<equiv> 276"
abbreviation (input) NSFB_KEY_END :: nsfb_key_code where "NSFB_KEY_END \<equiv> 279"
abbreviation (input) NSFB_KEY_RSHIFT :: nsfb_key_code where "NSFB_KEY_RSHIFT \<equiv> 303"
abbreviation (input) NSFB_KEY_LSHIFT :: nsfb_key_code where "NSFB_KEY_LSHIFT \<equiv> 304"
abbreviation (input) NSFB_KEY_RCTRL :: nsfb_key_code where "NSFB_KEY_RCTRL \<equiv> 305"
abbreviation (input) NSFB_KEY_LCTRL :: nsfb_key_code where "NSFB_KEY_LCTRL \<equiv> 306"

text \<open>The bit of a modifier key.\<close>

definition modifier_bit :: "nsfb_key_code \<Rightarrow> int option" where
  "modifier_bit value = (if value = NSFB_KEY_RSHIFT then Some FBTK_MOD_RSHIFT
     else if value = NSFB_KEY_LSHIFT then Some FBTK_MOD_LSHIFT
     else if value = NSFB_KEY_RCTRL then Some FBTK_MOD_RCTRL
     else if value = NSFB_KEY_LCTRL then Some FBTK_MOD_LCTRL else None)"

text \<open>Measuring the whole text again.\<close>

definition measure_text :: "text_env \<Rightarrow> plot_font_style \<Rightarrow> wid \<Rightarrow> ('cb, 'w) toolkit \<Rightarrow> ('cb, 'w) toolkit option" where
  "measure_text env font_style w st = do {
     t \<leftarrow> get_text st w;
     s \<leftarrow> text_bytes (tx_text t) (tx_len t);
     width \<leftarrow> fb_font_width (te_fonts env) font_style s;
     upd_text w (\<lambda>t. t\<lparr>tx_width := width\<rparr>) st }"

text \<open>Each key returns whether the caret has moved.\<close>

definition key_backspace ::
  "text_env \<Rightarrow> ('a toolkit_cb \<Rightarrow> wid \<Rightarrow> ('a toolkit_cb, 'w) toolkit \<Rightarrow> ('a toolkit_cb, 'w) toolkit option) \<Rightarrow> plot_font_style \<Rightarrow> wid \<Rightarrow>
   ('a toolkit_cb, 'w) toolkit \<Rightarrow> (bool \<times> ('a toolkit_cb, 'w) toolkit) option" where
  "key_backspace env remove font_style w st = do {
     t \<leftarrow> get_text st w;
     if tx_all_selected t then do {
       st \<leftarrow> fbtk_set_text env remove (Some w) [] st;
       st \<leftarrow> upd_text w (\<lambda>t. t\<lparr>tx_all_selected := False\<rparr>) st;
       Some (False, st) }
     else if tx_idx t \<le> 0 then Some (False, st)
     else do {
       buf \<leftarrow> tx_text t;
       buf \<leftarrow> memmove (tx_idx t - 1) (tx_idx t) (tx_len t - tx_idx t) buf;
       buf \<leftarrow> poke (tx_len t - 1) 0 buf;
       st \<leftarrow> upd_text w (\<lambda>t. t\<lparr>tx_text := Some buf, tx_idx := tx_idx t - 1, tx_len := tx_len t - 1\<rparr>) st;
       st \<leftarrow> measure_text env font_style w st;
       Some (True, st) } }"

definition key_insert ::
  "text_env \<Rightarrow> ('a toolkit_cb \<Rightarrow> wid \<Rightarrow> ('a toolkit_cb, 'w) toolkit \<Rightarrow> ('a toolkit_cb, 'w) toolkit option) \<Rightarrow> plot_font_style \<Rightarrow> wid \<Rightarrow>
   nsfb_key_code \<Rightarrow> ('a toolkit_cb, 'w) toolkit \<Rightarrow> (bool \<times> ('a toolkit_cb, 'w) toolkit) option" where
  "key_insert env remove font_style w value st = do {
     t \<leftarrow> get_text st w;
     st \<leftarrow> (if tx_all_selected t then do {
         st \<leftarrow> fbtk_set_text env remove (Some w) [] st;
         upd_text w (\<lambda>t. t\<lparr>tx_all_selected := False\<rparr>) st }
       else Some st);
     t \<leftarrow> get_text st w;
     let (ok, h) = alloc (tk_heap st);
     let st = st\<lparr>tk_heap := h\<rparr>;
     if \<not> ok then Some (False, st)
     else do {
       let buf = resize (te_junk env) (nat (tx_len t + 2)) (case tx_text t of None \<Rightarrow> [] | Some buf \<Rightarrow> buf);
       buf \<leftarrow> memmove (tx_idx t + 1) (tx_idx t) (tx_len t - tx_idx t) buf;
       buf \<leftarrow> poke (tx_idx t) (nat (fbtk_keycode_to_ucs4 value (tk_modifier st) mod 256)) buf;
       buf \<leftarrow> poke (tx_len t + 1) 0 buf;
       st \<leftarrow> upd_text w (\<lambda>t. t\<lparr>tx_text := Some buf, tx_idx := tx_idx t + 1, tx_len := tx_len t + 1\<rparr>) st;
       st \<leftarrow> measure_text env font_style w st;
       Some (True, st) } }"

text \<open>Control and U; the buffer is written without a test.\<close>

definition key_clear :: "wid \<Rightarrow> ('cb, 'w) toolkit \<Rightarrow> (bool \<times> ('cb, 'w) toolkit) option" where
  "key_clear w st = do {
     t \<leftarrow> get_text st w;
     buf \<leftarrow> tx_text t;
     buf \<leftarrow> poke 0 0 buf;
     st \<leftarrow> upd_text w (\<lambda>t. t\<lparr>tx_idx := 0, tx_len := 0, tx_text := Some buf, tx_width := 0, tx_all_selected := False\<rparr>) st;
     Some (True, st) }"

definition key_move :: "wid \<Rightarrow> (int \<Rightarrow> int \<Rightarrow> int option) \<Rightarrow> ('cb, 'w) toolkit \<Rightarrow> (bool \<times> ('cb, 'w) toolkit) option" where
  "key_move w to st = do {
     t \<leftarrow> get_text st w;
     let new_idx = to (tx_idx t) (tx_len t);
     st \<leftarrow> upd_text w (\<lambda>t. t\<lparr>tx_idx := (case new_idx of None \<Rightarrow> tx_idx t | Some i \<Rightarrow> i), tx_all_selected := False\<rparr>) st;
     Some (new_idx \<noteq> None, st) }"

text \<open>Where the caret keys go, if they move the caret at all.\<close>

definition go_right :: "int \<Rightarrow> int \<Rightarrow> int \<Rightarrow> int option" where
  "go_right modifier idx len = (if idx < len then Some (if modifier = FBTK_MOD_CLEAR then idx + 1 else len) else None)"

definition go_left :: "int \<Rightarrow> int \<Rightarrow> int \<Rightarrow> int option" where
  "go_left modifier idx len = (if idx > 0 then Some (if modifier = FBTK_MOD_CLEAR then idx - 1 else 0) else None)"

definition go_home :: "int \<Rightarrow> int \<Rightarrow> int option" where
  "go_home idx len = (if idx > 0 then Some 0 else None)"

definition go_end :: "int \<Rightarrow> int \<Rightarrow> int option" where
  "go_end idx len = (if idx < len then Some len else None)"

type_synonym ('a, 'w) enter_rtn = "'a toolkit_cb \<Rightarrow> nat list option \<Rightarrow> ('a toolkit_cb, 'w) toolkit \<Rightarrow> ('a toolkit_cb, 'w) toolkit option"

definition text_key ::
  "text_env \<Rightarrow> ('a, 'w) enter_rtn \<Rightarrow> ('a toolkit_cb \<Rightarrow> wid \<Rightarrow> ('a toolkit_cb, 'w) toolkit \<Rightarrow> ('a toolkit_cb, 'w) toolkit option) \<Rightarrow>
   plot_font_style \<Rightarrow> wid \<Rightarrow> nsfb_key_code \<Rightarrow> ('a toolkit_cb, 'w) toolkit \<Rightarrow> (bool \<times> ('a toolkit_cb, 'w) toolkit) option" where
  "text_key env enter remove font_style w value st =
     (if value = NSFB_KEY_BACKSPACE then key_backspace env remove font_style w st
      else if value = NSFB_KEY_RETURN then do {
        t \<leftarrow> get_text st w;
        cb \<leftarrow> tx_enter t;
        st \<leftarrow> enter cb (tx_text t) st;
        Some (False, st) }
      else if value = NSFB_KEY_RIGHT then key_move w (go_right (tk_modifier st)) st
      else if value = NSFB_KEY_LEFT then key_move w (go_left (tk_modifier st)) st
      else if value = NSFB_KEY_HOME then key_move w go_home st
      else if value = NSFB_KEY_END then key_move w go_end st
      else if value \<in> {NSFB_KEY_PAGEUP, NSFB_KEY_PAGEDOWN, NSFB_KEY_UP, NSFB_KEY_DOWN} then Some (False, st)
      else case modifier_bit value of
        Some b \<Rightarrow> Some (False, st\<lparr>tk_modifier := tk_modifier st OR b\<rparr>)
      | None \<Rightarrow>
          if tk_modifier st AND FBTK_MOD_LCTRL \<noteq> 0 \<or> tk_modifier st AND FBTK_MOD_RCTRL \<noteq> 0 then
            (if value = NSFB_KEY_u then key_clear w st else Some (False, st))
          else key_insert env remove font_style w value st)"

text \<open>Only key events are posted to a text; one without an event is the gain of the focus.\<close>

definition text_input ::
  "text_env \<Rightarrow> ('a, 'w) enter_rtn \<Rightarrow> ('a toolkit_cb \<Rightarrow> wid \<Rightarrow> ('a toolkit_cb, 'w) toolkit \<Rightarrow> ('a toolkit_cb, 'w) toolkit option) \<Rightarrow>
   wid \<Rightarrow> nsfb_event fbtk_callback_info \<Rightarrow> ('a toolkit_cb, 'w) toolkit \<Rightarrow> (int \<times> ('a toolkit_cb, 'w) toolkit) option" where
  "text_input env enter remove w cbi st = do {
     r \<leftarrow> widgets st w;
     t \<leftarrow> widget_text r;
     let (fh, border, font_style) = fb_text_font_style r t;
     case cbi_event cbi of
       None \<Rightarrow>
         if tx_text t = None then do {
           let (ok, h) = alloc (tk_heap st);
           st \<leftarrow> upd_text w (\<lambda>t. t\<lparr>tx_text := (if ok then Some [0] else None)\<rparr>) (st\<lparr>tk_heap := h\<rparr>);
           Some (0, st) }
         else Some (0, st)
     | Some (NSFB_EVENT_KEY_UP value) \<Rightarrow>
         Some (0, case modifier_bit value of None \<Rightarrow> st | Some b \<Rightarrow> st\<lparr>tk_modifier := tk_modifier st AND NOT b\<rparr>)
     | Some (NSFB_EVENT_KEY_DOWN value) \<Rightarrow> do {
         (caret_moved, st) \<leftarrow> text_key env enter remove font_style w value st;
         st \<leftarrow> (if caret_moved then do {
             t \<leftarrow> get_text st w;
             s \<leftarrow> text_bytes (tx_text t) (tx_idx t);
             idx_offset \<leftarrow> fb_font_width (te_fonts env) font_style s;
             st \<leftarrow> upd_text w (\<lambda>t. t\<lparr>tx_idx_offset := idx_offset\<rparr>) st;
             text_caret remove w border st }
           else Some st);
         st \<leftarrow> fbtk_request_redraw (Some w) st;
         Some (0, st) }
     | Some _ \<Rightarrow> None }"

definition text_input_click ::
  "text_env \<Rightarrow> ('a toolkit_cb \<Rightarrow> wid \<Rightarrow> ('a toolkit_cb, 'w) toolkit \<Rightarrow> ('a toolkit_cb, 'w) toolkit option) \<Rightarrow>
   wid \<Rightarrow> nsfb_event fbtk_callback_info \<Rightarrow> ('a toolkit_cb, 'w) toolkit \<Rightarrow> (int \<times> ('a toolkit_cb, 'w) toolkit) option" where
  "text_input_click env remove w cbi st = do {
     (has_caret, _) \<leftarrow> fbtk_get_caret st w;
     down \<leftarrow> is_key_down cbi;
     st \<leftarrow> (if down then upd_text w (\<lambda>t. t\<lparr>tx_all_selected := \<not> has_caret\<rparr>) st else Some st);
     r \<leftarrow> widgets st w;
     t \<leftarrow> widget_text r;
     let (fh, border, font_style) = fb_text_font_style r t;
     s \<leftarrow> text_bytes (tx_text t) (tx_len t);
     x \<leftarrow> cbi_x cbi;
     (idx, idx_offset) \<leftarrow> fb_font_position (te_fonts env) font_style s (x - border);
     st \<leftarrow> upd_text w (\<lambda>t. t\<lparr>tx_idx := int idx, tx_idx_offset := idx_offset\<rparr>) st;
     st \<leftarrow> text_caret remove w border st;
     st \<leftarrow> fbtk_request_redraw (Some w) st;
     Some (0, st) }"

definition text_input_strip_focus ::
  "('a toolkit_cb \<Rightarrow> wid \<Rightarrow> ('a toolkit_cb, 'w) toolkit \<Rightarrow> ('a toolkit_cb, 'w) toolkit option) \<Rightarrow> wid \<Rightarrow>
   ('a toolkit_cb, 'w) toolkit \<Rightarrow> (int \<times> ('a toolkit_cb, 'w) toolkit) option" where
  "text_input_strip_focus remove w st = do {
     st \<leftarrow> fbtk_set_caret remove w False 0 0 0 None st;
     st \<leftarrow> upd_text w (\<lambda>t. t\<lparr>tx_all_selected := False\<rparr>) st;
     Some (0, st) }"

section \<open>Creating text widgets\<close>

definition fbtk_writable_text :: "wid \<Rightarrow> 'a toolkit_cb option \<Rightarrow> ('a toolkit_cb, 'w) toolkit \<Rightarrow> ('a toolkit_cb, 'w) toolkit option" where
  "fbtk_writable_text w enter st = do {
     st \<leftarrow> upd_text w (\<lambda>t. t\<lparr>tx_enter := enter\<rparr>) st;
     (_, st) \<leftarrow> fbtk_set_handler w FBTK_CBT_INPUT (Some Text_input) st;
     Some st }"

definition fbtk_create_text ::
  "wid option \<Rightarrow> int \<Rightarrow> int \<Rightarrow> int \<Rightarrow> int \<Rightarrow> nsfb_colour \<Rightarrow> nsfb_colour \<Rightarrow> bool \<Rightarrow> ('a toolkit_cb, 'w) toolkit \<Rightarrow>
   (wid option \<times> ('a toolkit_cb, 'w) toolkit) option" where
  "fbtk_create_text parent x y width height bg fg outline st = do {
     (neww, st) \<leftarrow> fbtk_widget_new parent FB_WIDGET_TYPE_TEXT x y width height st;
     w \<leftarrow> neww;
     st \<leftarrow> upd_widget w (\<lambda>r. r\<lparr>w_fg := fg, w_bg := bg, w_mapped := True\<rparr>) st;
     st \<leftarrow> upd_text w (\<lambda>t. t\<lparr>tx_outline := outline\<rparr>) st;
     (_, st) \<leftarrow> fbtk_set_handler w FBTK_CBT_REDRAW (Some Fb_redraw_text) st;
     (_, st) \<leftarrow> fbtk_set_handler w FBTK_CBT_DESTROY (Some Fb_destroy_text) st;
     Some (neww, st) }"

definition fbtk_create_writable_text ::
  "wid option \<Rightarrow> int \<Rightarrow> int \<Rightarrow> int \<Rightarrow> int \<Rightarrow> nsfb_colour \<Rightarrow> nsfb_colour \<Rightarrow> bool \<Rightarrow> 'a toolkit_cb option \<Rightarrow> ('a toolkit_cb, 'w) toolkit \<Rightarrow>
   (wid option \<times> ('a toolkit_cb, 'w) toolkit) option" where
  "fbtk_create_writable_text parent x y width height bg fg outline enter st = do {
     (neww, st) \<leftarrow> fbtk_widget_new parent FB_WIDGET_TYPE_TEXT x y width height st;
     w \<leftarrow> neww;
     st \<leftarrow> upd_widget w (\<lambda>r. r\<lparr>w_fg := fg, w_bg := bg, w_mapped := True\<rparr>) st;
     st \<leftarrow> upd_text w (\<lambda>t. t\<lparr>tx_outline := outline, tx_enter := enter\<rparr>) st;
     (_, st) \<leftarrow> fbtk_set_handler w FBTK_CBT_REDRAW (Some Fb_redraw_text) st;
     (_, st) \<leftarrow> fbtk_set_handler w FBTK_CBT_DESTROY (Some Fb_destroy_text) st;
     (_, st) \<leftarrow> fbtk_set_handler w FBTK_CBT_CLICK (Some Text_input_click) st;
     (_, st) \<leftarrow> fbtk_set_handler w FBTK_CBT_STRIP_FOCUS (Some Text_input_strip_focus) st;
     (_, st) \<leftarrow> fbtk_set_handler w FBTK_CBT_INPUT (Some Text_input) st;
     Some (neww, st) }"

definition fbtk_create_text_button ::
  "toolkit_images \<Rightarrow> wid option \<Rightarrow> int \<Rightarrow> int \<Rightarrow> int \<Rightarrow> int \<Rightarrow> nsfb_colour \<Rightarrow> nsfb_colour \<Rightarrow> 'a toolkit_cb option \<Rightarrow>
   ('a toolkit_cb, 'w) toolkit \<Rightarrow> (wid option \<times> ('a toolkit_cb, 'w) toolkit) option" where
  "fbtk_create_text_button im parent x y width height bg fg click st = do {
     (neww, st) \<leftarrow> fbtk_widget_new parent FB_WIDGET_TYPE_TEXT x y width height st;
     w \<leftarrow> neww;
     st \<leftarrow> upd_widget w (\<lambda>r. r\<lparr>w_fg := fg, w_bg := bg, w_mapped := True\<rparr>) st;
     st \<leftarrow> upd_text w (\<lambda>t. t\<lparr>tx_outline := True\<rparr>) st;
     (_, st) \<leftarrow> fbtk_set_handler w FBTK_CBT_REDRAW (Some Fb_redraw_text_button) st;
     (_, st) \<leftarrow> fbtk_set_handler w FBTK_CBT_DESTROY (Some Fb_destroy_text) st;
     (_, st) \<leftarrow> fbtk_set_handler w FBTK_CBT_CLICK click st;
     (_, st) \<leftarrow> fbtk_set_handler w FBTK_CBT_POINTERENTER (Some (Fbtk_set_ptr (hand_image im))) st;
     Some (neww, st) }"

end
