(* ===== verification/Fbtk_Paint.thy ===== *)
theory Fbtk_Paint
  imports Fbtk_Repaint Fbtk_Text Fb_Font_Spec
begin

text \<open>
  The callbacks of the toolkit's widgets put together, and the contracts of
  \<open>Fbtk_Destroy\<close> and \<open>Fbtk_Repaint\<close> that their redraw and destroy callbacks keep: windows,
  fills, bitmaps, scroll bars and texts all claim, paint and report their box.
\<close>

unbundle bit_operations_syntax

section \<open>Calling back\<close>

text \<open>What the clients of the toolkit do is a parameter, as are the fonts.\<close>

record 'a toolkit_client =
  on_callback :: "'a \<Rightarrow> wid \<Rightarrow> nsfb_event fbtk_callback_info \<Rightarrow> 'a panel_toolkit \<Rightarrow> (int \<times> 'a panel_toolkit) option"
  on_enter :: "('a, fb_state) enter_rtn"
  on_remove :: "'a \<Rightarrow> wid \<Rightarrow> 'a panel_toolkit \<Rightarrow> 'a panel_toolkit option"
  text_envir :: text_env

text \<open>
  A callback may post others, so that calling back is a partial function.  Posting, and the
  callbacks that post, hand the handler on.
\<close>

lemma option_le: "option_ord a b \<longleftrightarrow> a = None \<or> a = b"
  by (simp add: flat_ord_def)

lemma fbtk_post_callback_mono [partial_function_mono]:
  fixes H :: "('x \<Rightarrow> 'y option) \<Rightarrow> ('cb, 'e, 'w) handler"
  assumes H: "\<And>cb w info st. mono_option (\<lambda>f. H f cb w info st)"
  shows "mono_option (\<lambda>f. fbtk_post_callback (H f) widget cbt event x y st)"
proof (rule monotoneI)
  fix f g :: "'x \<Rightarrow> 'y option"
  assume le: "option.le_fun f g"
  have "option_ord (H f cb w info st) (H g cb w info st)" for cb w info st
    by (rule monotoneD [OF H]) (rule le)
  then have "H f cb w info st = None \<or> H f cb w info st = H g cb w info st" for cb w info st
    by (simp only: option_le)
  then show "option_ord (fbtk_post_callback (H f) widget cbt event x y st) (fbtk_post_callback (H g) widget cbt event x y st)"
    unfolding option_le by (auto simp: fbtk_post_callback_def split: option.splits bind_splits)
qed

lemma post_scroll_mono [partial_function_mono]:
  fixes H :: "('x \<Rightarrow> 'y option) \<Rightarrow> ('a toolkit_cb, nsfb_event, fb_state) handler"
  assumes "\<And>cb w info st. mono_option (\<lambda>f. H f cb w info st)"
  shows "mono_option (\<lambda>f. post_scroll (H f) w cbt newpos st)"
  unfolding post_scroll_def by (cases "cbt = FBTK_CBT_SCROLLX") (simp_all add: fbtk_post_callback_mono [OF assms])

text \<open>The callbacks of the scroll bars post to their clients; the others do not post.\<close>

fun scroll_callback :: "('a toolkit_cb, nsfb_event, fb_state) handler \<Rightarrow> ('a toolkit_cb, nsfb_event, fb_state) handler" where
  "scroll_callback handler (Vscroll_drag ctx) w info st = vscroll_drag handler ctx w info st"
| "scroll_callback handler (Vscrollu_click ctx) w info st = vscrollu_click handler ctx info st"
| "scroll_callback handler (Vscrolld_click ctx) w info st = vscrolld_click handler ctx info st"
| "scroll_callback handler (Vscrollarea_click ctx) w info st = vscrollarea_click handler ctx w info st"
| "scroll_callback handler (Hscroll_drag ctx) w info st = hscroll_drag handler ctx w info st"
| "scroll_callback handler (Hscrolll_click ctx) w info st = hscrolll_click handler ctx info st"
| "scroll_callback handler (Hscrollr_click ctx) w info st = hscrollr_click handler ctx info st"
| "scroll_callback handler (Hscrollarea_click ctx) w info st = hscrollarea_click handler ctx w info st"
| "scroll_callback handler _ w info st = None"

text \<open>
  The destroy callbacks free storage outside the widget: the string of a text widget
  (\<^verbatim>\<open>text.c\<close>) and the private data of the browser window (\<^verbatim>\<open>gui.c\<close>).
\<close>

definition fb_destroy_text :: "'a panel_toolkit \<Rightarrow> (int \<times> 'a panel_toolkit) option" where
  "fb_destroy_text st = Some (0, st)"

fun widget_callback :: "'a toolkit_client \<Rightarrow> ('a toolkit_cb, nsfb_event, fb_state) handler" where
  "widget_callback client Fb_redraw_window w info st = fb_redraw_window w st"
| "widget_callback client Fb_redraw_fill w info st = fb_redraw_fill w st"
| "widget_callback client Fb_redraw_bitmap w info st = fb_redraw_bitmap w st"
| "widget_callback client Vscroll_redraw w info st = vscroll_redraw w st"
| "widget_callback client Hscroll_redraw w info st = hscroll_redraw w st"
| "widget_callback client Fb_redraw_text w info st = fb_redraw_text (text_envir client) w st"
| "widget_callback client Fb_redraw_text_button w info st = fb_redraw_text_button (text_envir client) w st"
| "widget_callback client Fb_destroy_text w info st = fb_destroy_text st"
| "widget_callback client Fb_browser_window_destroy w info st = map_option (\<lambda>_. (0, st)) (fbtk_get_userpw (Some w) st)"
| "widget_callback client (Fbtk_set_ptr bm) w info st = fbtk_set_ptr w bm st"
| "widget_callback client Text_input w info st =
     text_input (text_envir client) (on_enter client) (remove_handler (on_remove client)) w info st"
| "widget_callback client Text_input_click w info st =
     text_input_click (text_envir client) (remove_handler (on_remove client)) w info st"
| "widget_callback client Text_input_strip_focus w info st = text_input_strip_focus (remove_handler (on_remove client)) w st"
| "widget_callback client (Client cb) w info st = on_callback client cb w info st"
| "widget_callback client _ w info st = None"

definition posts :: "'a toolkit_cb \<Rightarrow> bool" where
  "posts cb \<longleftrightarrow> (case cb of Vscroll_drag _ \<Rightarrow> True | Vscrollu_click _ \<Rightarrow> True | Vscrolld_click _ \<Rightarrow> True
     | Vscrollarea_click _ \<Rightarrow> True | Hscroll_drag _ \<Rightarrow> True | Hscrolll_click _ \<Rightarrow> True | Hscrollr_click _ \<Rightarrow> True
     | Hscrollarea_click _ \<Rightarrow> True | _ \<Rightarrow> False)"

lemma scroll_callback_mono [partial_function_mono]:
  fixes H :: "('x \<Rightarrow> 'y option) \<Rightarrow> ('a toolkit_cb, nsfb_event, fb_state) handler"
  assumes H: "\<And>cb w info st. mono_option (\<lambda>f. H f cb w info st)"
  shows "mono_option (\<lambda>f. scroll_callback (H f) cb w info st)"
proof (rule monotoneI)
  fix f g :: "'x \<Rightarrow> 'y option"
  assume le: "option.le_fun f g"
  have "option_ord (post_scroll (H f) w cbt newpos st) (post_scroll (H g) w cbt newpos st)" for w cbt newpos st
    by (rule monotoneD [OF post_scroll_mono [OF H]]) (rule le)
  then have p: "post_scroll (H f) w cbt newpos st = None \<or> post_scroll (H f) w cbt newpos st = post_scroll (H g) w cbt newpos st"
    for w cbt newpos st by (simp only: option_le)
  show "option_ord (scroll_callback (H f) cb w info st) (scroll_callback (H g) cb w info st)"
    unfolding option_le
    by (cases cb) (simp_all add: vscroll_drag_def vscrollu_click_def vscrolld_click_def vscrollarea_click_def
        hscroll_drag_def hscrolll_click_def hscrollr_click_def hscrollarea_click_def Let_def p
        split: bind_splits nsfb_event.splits)
qed

partial_function (option) toolkit_handler ::
  "'a toolkit_client \<Rightarrow> 'a toolkit_cb \<Rightarrow> wid \<Rightarrow> nsfb_event fbtk_callback_info \<Rightarrow> 'a panel_toolkit \<Rightarrow> (int \<times> 'a panel_toolkit) option" where
  "toolkit_handler client cb w info st =
     (if posts cb then scroll_callback (\<lambda>cb w info st. toolkit_handler client cb w info st) cb w info st
      else widget_callback client cb w info st)"

lemma toolkit_handler_widget: "\<not> posts cb \<Longrightarrow> toolkit_handler client cb w info st = widget_callback client cb w info st"
  by (subst toolkit_handler.simps) simp

lemma toolkit_handler_scroll: "posts cb \<Longrightarrow> toolkit_handler client cb w info st = scroll_callback (toolkit_handler client) cb w info st"
  by (subst toolkit_handler.simps) simp

section \<open>The callbacks keep their contracts\<close>

definition panel_ready :: "fb_state \<Rightarrow> bool" where
  "panel_ready a \<longleftrightarrow> \<not> fb_mutex a"

text \<open>
  What the redraw callbacks follow without a test has to be there: the image of a bitmap, the
  numbers of a scroll bar, small enough for the products, and the bytes of a text and the
  faces of the fonts.
\<close>

definition fonts_ready :: "text_env \<Rightarrow> bool" where
  "fonts_ready env \<longleftrightarrow> parserutils_ok (fn_utf8 (te_fonts env)) \<and> (\<forall>style. style_ok (te_fonts env) style)"

definition text_ready :: "text_env \<Rightarrow> 'cb fbtk_widget \<Rightarrow> bool" where
  "text_ready env r \<longleftrightarrow> (case widget_text r of None \<Rightarrow> False
     | Some t \<Rightarrow> tx_text t \<noteq> None \<longrightarrow> fonts_ready env \<and> text_bytes (tx_text t) (tx_len t) \<noteq> None)"

definition scroll_ready :: "int \<Rightarrow> 'cb fbtk_widget \<Rightarrow> bool" where
  "scroll_ready extent r \<longleftrightarrow> (case scroll_of r of None \<Rightarrow> False | Some s \<Rightarrow> scroll_bar extent s \<noteq> None)"

text \<open>A widget whose redraw and destroy callbacks are those of the toolkit, with what they need.\<close>

fun callback_ready :: "'a toolkit_client \<Rightarrow> 'a toolkit_cb fbtk_widget \<Rightarrow> 'a toolkit_cb \<Rightarrow> bool" where
  "callback_ready client r Fb_redraw_window = True"
| "callback_ready client r Fb_redraw_fill = True"
| "callback_ready client r Fb_redraw_bitmap = (bitmap_of r \<noteq> None)"
| "callback_ready client r Vscroll_redraw = scroll_ready (w_height r) r"
| "callback_ready client r Hscroll_redraw = scroll_ready (w_width r) r"
| "callback_ready client r Fb_redraw_text = text_ready (text_envir client) r"
| "callback_ready client r Fb_redraw_text_button = text_ready (text_envir client) r"
| "callback_ready client r Fb_destroy_text = True"
| "callback_ready client r Fb_browser_window_destroy = True"
| "callback_ready client r (Fbtk_set_ptr bm) = True"
| "callback_ready client r _ = False"

definition panel_widget :: "'a toolkit_client \<Rightarrow> 'a toolkit_cb fbtk_widget \<Rightarrow> bool" where
  "panel_widget client r \<longleftrightarrow> (\<forall>cbt\<in>{FBTK_CBT_REDRAW, FBTK_CBT_DESTROY}. case w_callback r cbt of
     None \<Rightarrow> True | Some cb \<Rightarrow> callback_ready client r cb)"

definition damaged :: "(int \<times> int) set \<Rightarrow> fb_state \<Rightarrow> bool" where
  "damaged P a \<longleftrightarrow> P \<subseteq> pixels (pending a)"

text \<open>The widgets that report what they paint: not a window with a transparent background.\<close>

definition painter :: "'a toolkit_cb fbtk_widget \<Rightarrow> bool" where
  "painter r \<longleftrightarrow> (case w_callback r FBTK_CBT_REDRAW of
     Some Fb_redraw_window \<Rightarrow> w_bg r AND 0xFF000000 \<noteq> 0
   | Some cb \<Rightarrow> cb \<in> {Fb_redraw_fill, Fb_redraw_bitmap, Vscroll_redraw, Hscroll_redraw, Fb_redraw_text, Fb_redraw_text_button}
   | None \<Rightarrow> False)"


section \<open>Plotting keeps the extent of the surface\<close>

definition same_size :: "nsfb \<Rightarrow> nsfb \<Rightarrow> bool" where
  "same_size n n' \<longleftrightarrow> nsfb_width n' = nsfb_width n \<and> nsfb_height n' = nsfb_height n"

lemma same_size_refl [simp]: "same_size n n"
  by (simp add: same_size_def)

lemma same_size_trans [trans]: "same_size n n' \<Longrightarrow> same_size n' n'' \<Longrightarrow> same_size n n''"
  by (simp add: same_size_def)

lemma same_size_vram [simp]: "same_size n (n'\<lparr>nsfb_vram := m\<rparr>) = same_size n n'"
  by (simp add: same_size_def)

lemma fill_size: "fill n b c = (ok, b', n') \<Longrightarrow> same_size n n'"
  by (auto simp: fill_def nsfb_plot_clip_ctx_def Let_def same_size_def split: if_splits prod.splits)

lemma line_size: "same_size n (snd (snd (plot_line n ls pen)))"
proof -
  have one: "same_size n (snd (line_one n ent l))" for n ent l
    by (auto simp: line_one_def Let_def split: prod.splits)
  have "same_size n (snd (line_all n ent ls))" for ent
  proof (induction n ent ls rule: line_all.induct)
    case (2 n ent l ls)
    then show ?case using one [of n ent l] by (auto split: prod.splits intro: same_size_trans)
  qed simp
  then show ?thesis by (simp add: plot_line_def Let_def split: prod.split)
qed

lemma line_size': "plot_line n ls pen = (ok, ls', n') \<Longrightarrow> same_size n n'"
  using line_size [of n ls pen] by simp

lemma glyph_size: "same_size n (draw_glyph fstyle x y g n)"
  by (auto simp: draw_glyph_def glyph1_def glyph8_def Let_def split: option.splits prod.splits)

lemma draw_chars_size: "same_size n (draw_chars fn fstyle x y cs n)"
  by (induction cs arbitrary: x n) (auto split: option.splits intro: same_size_trans [OF glyph_size])

lemma bitmap_size: "same_size n (snd (bitmap n loc pixel bw bh stride see_through))"
  by (auto simp: bitmap_def bitmap_scaled_def dither_begin_def dither_end_def same_size_def Let_def split: prod.splits option.splits)

lemma fill_box:
  assumes "fill nsfb box c = (ok, box', nsfb')"
  shows "pixels (nsfb_clip nsfb) \<inter> pixels box \<subseteq> pixels box'"
proof -
  obtain vis r where p: "nsfb_plot_clip (nsfb_clip nsfb) box = (vis, r)" by force
  have f: "box' = r" using assms p by (auto simp: fill_def nsfb_plot_clip_ctx_def Let_def split: if_splits)
  have "pixels box \<subseteq> pixels (bbox_order box)" by (auto simp: bbox_order_def Let_def)
  then show ?thesis using nsfb_plot_clip_pixels [OF p] f by (auto split: if_splits)
qed

section \<open>A callback that claims, paints and reports its box\<close>

definition drawn :: "'a panel_toolkit \<Rightarrow> 'a panel_toolkit \<Rightarrow> bool" where
  "drawn st st' \<longleftrightarrow> (\<exists>n. st' = st\<lparr>tk_nsfb := n\<rparr> \<and> same_size (tk_nsfb st) n)"

lemma drawn_refl [simp]: "drawn st st"
  by (auto simp: drawn_def intro: exI [of _ "tk_nsfb st"])

lemma drawn_trans [trans]: "drawn st st' \<Longrightarrow> drawn st' st'' \<Longrightarrow> drawn st st''"
proof -
  assume "drawn st st'" "drawn st' st''"
  then obtain n n' where "st' = st\<lparr>tk_nsfb := n\<rparr>" "st'' = st'\<lparr>tk_nsfb := n'\<rparr>" "same_size (tk_nsfb st) n" "same_size (tk_nsfb st') n'"
    by (auto simp: drawn_def)
  then have "st'' = st\<lparr>tk_nsfb := n'\<rparr> \<and> same_size (tk_nsfb st) n'" by (simp add: same_size_def)
  then show ?thesis unfolding drawn_def by blast
qed

lemma drawnI: "same_size (tk_nsfb st) n \<Longrightarrow> drawn st (st\<lparr>tk_nsfb := n\<rparr>)"
  by (auto simp: drawn_def)

lemma drawn_fill: "nsfb_plot_rectangle_fill b c st = (b', st') \<Longrightarrow> drawn st st'"
  by (auto simp: nsfb_plot_rectangle_fill_def Let_def split: prod.splits intro: drawnI fill_size)

lemma drawn_line: "drawn st (nsfb_plot_line l pen st)"
  by (simp add: nsfb_plot_line_def drawnI line_size)

lemma drawn_rectangle: "drawn st (nsfb_plot_rectangle b lw c dotted dashed st)"
  by (auto simp: nsfb_plot_rectangle_def rectangle_def Let_def split: prod.split intro!: drawnI line_size')

lemma drawn_edges: "drawn st (button_edges b c st)"
  unfolding button_edges_def Let_def by (blast intro: drawn_trans drawn_line)

lemma text_plots:
  assumes "text_ready env r" "widget_text r = Some t" "tx_text t \<noteq> None"
  shows "\<exists>st'. plot_text env style x y t st = Some st' \<and> drawn st st'"
proof -
  obtain s where s: "text_bytes (tx_text t) (tx_len t) = Some s" and fonts: "fonts_ready env"
    using assms by (auto simp: text_ready_def)
  obtain cs where "chars_of (fn_utf8 (te_fonts env)) s cs" using fonts chars_from_exist [of _ 0 s] by (auto simp: fonts_ready_def)
  then have "framebuffer_plot_text (te_fonts env) style x y s (tk_nsfb st) = Some (draw_chars (te_fonts env) style x y cs (tk_nsfb st))"
    using fonts plot_text_chars [of "te_fonts env" style s 0 cs] by (simp add: framebuffer_plot_text_def fonts_ready_def)
  then show ?thesis using s by (simp add: plot_text_def drawnI draw_chars_size)
qed

text \<open>A callback that claims, paints and reports its box.\<close>

definition painted :: "'a panel_toolkit \<Rightarrow> nsfb_bbox \<Rightarrow> 'a panel_toolkit \<Rightarrow> bool" where
  "painted st b st' \<longleftrightarrow> undisturbed st st' \<and> panel_ready (app st')
     \<and> nsfb_width (tk_nsfb st') = nsfb_width (tk_nsfb st) \<and> nsfb_height (tk_nsfb st') = nsfb_height (tk_nsfb st)
     \<and> (\<forall>P. damaged P (app st) \<longrightarrow> damaged P (app st')) \<and> damaged (pixels (nsfb_clip (tk_nsfb st)) \<inter> pixels b) (app st')"

lemma claim_ready: "panel_ready (app st) \<Longrightarrow> nsfb_claim b st = Some (st\<lparr>app := (app st)\<lparr>fb_mutex := True\<rparr>\<rparr>)"
  by (simp add: nsfb_claim_def rm_claim_def fb_claim_region_def panel_ready_def)

lemma painted_update:
  assumes "panel_ready (app st)" "drawn (st\<lparr>app := (app st)\<lparr>fb_mutex := True\<rparr>\<rparr>) st2"
    and "pixels (nsfb_clip (tk_nsfb st)) \<inter> pixels b \<subseteq> pixels b2"
  shows "painted st b (nsfb_update b2 st2)"
proof -
  obtain n where n: "st2 = st\<lparr>app := (app st)\<lparr>fb_mutex := True\<rparr>, tk_nsfb := n\<rparr>" "same_size (tk_nsfb st) n"
    using assms(2) by (auto simp: drawn_def)
  have "pixels (pending (app st)) \<union> pixels b2 \<subseteq> pixels (pending (app (nsfb_update b2 st2)))"
    using fb_update_pending [of "app st2" b2] by (simp add: n nsfb_update_def rm_update_def pending_def)
  then show ?thesis using assms(3) n(2)
    by (auto simp: n(1) painted_def damaged_def nsfb_update_def rm_update_def fb_update_region_def panel_ready_def
        undisturbed_def root_data_def same_size_def)
qed

lemma tree_box: "fbtk_tree st F \<Longrightarrow> w \<in> set (fids F) \<Longrightarrow> \<exists>b. fbtk_get_bbox st w = Some b \<and> fbtk_get_nsfb st w = Some (tk_nsfb st)"
  using tree_abs(3) [of st F w] tree_root [of st F w] by (simp add: Let_def fbtk_get_nsfb_def)

lemma redraw_fill_painted:
  assumes "fbtk_tree st F" "w \<in> set (fids F)" "panel_ready (app st)" "widgets st w = Some r" "fbtk_get_bbox st w = Some b"
  shows "\<exists>st'. fb_redraw_fill w st = Some (0, st') \<and> painted st b st'"
proof -
  let ?s1 = "st\<lparr>app := (app st)\<lparr>fb_mutex := True\<rparr>\<rparr>"
  have nsfb: "fbtk_get_nsfb st w = Some (tk_nsfb st)" using tree_box [OF assms(1,2)] by blast
  obtain b2 s2 where f: "nsfb_plot_rectangle_fill b (w_bg r) ?s1 = (b2, s2)" by force
  have "pixels (nsfb_clip (tk_nsfb st)) \<inter> pixels b \<subseteq> pixels b2"
    using f by (auto simp: nsfb_plot_rectangle_fill_def Let_def split: prod.splits dest: fill_box)
  then have "painted st b (nsfb_update b2 s2)" "painted st b (nsfb_update b ?s1)"
    using painted_update [OF assms(3) drawn_fill [OF f]] painted_update [OF assms(3) drawn_refl] by auto
  then show ?thesis using assms(4,5) nsfb f claim_ready [OF assms(3), of b] by (auto simp: fb_redraw_fill_def)
qed

lemma redraw_window_painted:
  assumes "fbtk_tree st F" "w \<in> set (fids F)" "panel_ready (app st)" "widgets st w = Some r" "fbtk_get_bbox st w = Some b"
  shows "\<exists>st'. fb_redraw_window w st = Some (0, st') \<and> (if w_bg r AND 0xFF000000 = 0 then st' = st else painted st b st')"
proof (cases "w_bg r AND 0xFF000000 = 0")
  case False
  then have "fb_redraw_window w st = fb_redraw_fill w st" using assms(4) by (simp add: fb_redraw_window_def fb_redraw_fill_def)
  with redraw_fill_painted [OF assms] False show ?thesis by simp
qed (use assms(4) in \<open>simp add: fb_redraw_window_def\<close>)

lemma redraw_bitmap_painted:
  assumes "fbtk_tree st F" "w \<in> set (fids F)" "panel_ready (app st)" "widgets st w = Some r" "fbtk_get_bbox st w = Some b"
    and bm: "bitmap_of r = Some bm"
  shows "\<exists>st'. fb_redraw_bitmap w st = Some (0, st') \<and> painted st b st'"
proof -
  let ?s1 = "st\<lparr>app := (app st)\<lparr>fb_mutex := True\<rparr>\<rparr>"
  have nsfb: "fbtk_get_nsfb st w = Some (tk_nsfb st)" using tree_box [OF assms(1,2)] by blast
  obtain b2 s2 where f: "nsfb_plot_rectangle_fill b (w_bg r) ?s1 = (b2, s2)" by force
  have p: "pixels (nsfb_clip (tk_nsfb st)) \<inter> pixels b \<subseteq> pixels b2"
    using f by (auto simp: nsfb_plot_rectangle_fill_def Let_def split: prod.splits dest: fill_box)
  let ?plot = "\<lambda>s. s\<lparr>tk_nsfb := snd (bitmap (tk_nsfb s) b (bm_pixdata bm) (bm_width bm) (bm_height bm) (bm_width bm) (\<not> bm_opaque bm))\<rparr>"
  have d: "drawn s (?plot s)" for s :: "'a panel_toolkit" by (rule drawnI [OF bitmap_size])
  have "painted st b (nsfb_update b2 (?plot s2))" by (rule painted_update [OF assms(3) drawn_trans [OF drawn_fill [OF f] d] p])
  moreover have "painted st b (nsfb_update b (?plot ?s1))" by (rule painted_update [OF assms(3) d]) simp
  ultimately show ?thesis using assms(4-6) nsfb f claim_ready [OF assms(3), of b] by (auto simp: fb_redraw_bitmap_def)
qed

lemma text_drawn:
  assumes "text_ready env r" "widget_text r = Some t"
  obtains st' where "(if tx_text t \<noteq> None then plot_text env style x y t st else Some st) = Some st'" "drawn st st'"
  using text_plots [OF assms, of style x y st] by (cases "tx_text t = None") auto

lemma vscroll_redraw_painted:
  assumes "fbtk_tree st F" "w \<in> set (fids F)" "panel_ready (app st)" "widgets st w = Some r" "fbtk_get_bbox st w = Some b"
    and sc: "scroll_ready (w_height r) r"
  shows "\<exists>st'. vscroll_redraw w st = Some (0, st') \<and> painted st b st'"
proof -
  let ?s1 = "st\<lparr>app := (app st)\<lparr>fb_mutex := True\<rparr>\<rparr>"
  have nsfb: "fbtk_get_nsfb st w = Some (tk_nsfb st)" using tree_box [OF assms(1,2)] by blast
  obtain s vscroll vpos where s: "scroll_of r = Some s" "scroll_bar (w_height r) s = Some (vscroll, vpos)"
    using sc by (auto simp: scroll_ready_def split: option.splits)
  obtain b1 s1 where 1: "nsfb_plot_rectangle_fill b (w_bg r) ?s1 = (b1, s1)" by force
  obtain rect s2 where 2: "nsfb_plot_rectangle_fill \<lparr>x0 = x0 b + 2, y0 = y0 b + 1, x1 = x1 b - 3, y1 = y1 b - 2\<rparr> (w_fg r) s1 = (rect, s2)" by force
  let ?s3 = "nsfb_plot_rectangle rect 1 0xFF999999 False False s2"
  obtain b4 s4 where 4: "nsfb_plot_rectangle_fill \<lparr>x0 = x0 b + 5, y0 = y0 b + 3 + vpos, x1 = x0 b + w_width r - 5, y1 = y0 b + vscroll + vpos\<rparr> (w_bg r) ?s3 = (b4, s4)"
    by force
  have "drawn ?s1 s4" using drawn_fill [OF 1] drawn_fill [OF 2] drawn_rectangle drawn_fill [OF 4] by (blast intro: drawn_trans)
  then have "painted st b (nsfb_update b s4)" by (intro painted_update [OF assms(3)]) simp_all
  then show ?thesis using assms(4,5) nsfb claim_ready [OF assms(3), of b] s 1 2 4 by (simp add: vscroll_redraw_def)
qed

lemma hscroll_redraw_painted:
  assumes "fbtk_tree st F" "w \<in> set (fids F)" "panel_ready (app st)" "widgets st w = Some r" "fbtk_get_bbox st w = Some b"
    and sc: "scroll_ready (w_width r) r"
  shows "\<exists>st'. hscroll_redraw w st = Some (0, st') \<and> painted st b st'"
proof -
  let ?s1 = "st\<lparr>app := (app st)\<lparr>fb_mutex := True\<rparr>\<rparr>"
  have nsfb: "fbtk_get_nsfb st w = Some (tk_nsfb st)" using tree_box [OF assms(1,2)] by blast
  obtain s hscroll hpos where s: "scroll_of r = Some s" "scroll_bar (w_width r) s = Some (hscroll, hpos)"
    using sc by (auto simp: scroll_ready_def split: option.splits)
  obtain b1 s1 where 1: "nsfb_plot_rectangle_fill b (w_bg r) ?s1 = (b1, s1)" by force
  obtain rect s2 where 2: "nsfb_plot_rectangle_fill \<lparr>x0 = x0 b + 1, y0 = y0 b + 2, x1 = x1 b - 2, y1 = y1 b - 3\<rparr> (w_fg r) s1 = (rect, s2)" by force
  let ?s3 = "nsfb_plot_rectangle rect 1 0xFF999999 False False s2"
  obtain b4 s4 where 4: "nsfb_plot_rectangle_fill \<lparr>x0 = x0 b + 3 + hpos, y0 = y0 b + 5, x1 = x0 b + hscroll + hpos, y1 = y0 b + w_height r - 5\<rparr> (w_bg r) ?s3 = (b4, s4)"
    by force
  have "drawn ?s1 s4" using drawn_fill [OF 1] drawn_fill [OF 2] drawn_rectangle drawn_fill [OF 4] by (blast intro: drawn_trans)
  then have "painted st b (nsfb_update b s4)" by (intro painted_update [OF assms(3)]) simp_all
  then show ?thesis using assms(4,5) nsfb claim_ready [OF assms(3), of b] s 1 2 4 by (simp add: hscroll_redraw_def)
qed

text \<open>An optional step of a drawing.\<close>

lemma drawn_if: "(c \<Longrightarrow> drawn st st') \<Longrightarrow> drawn st (if c then st' else st)"
  by simp

lemma drawn_if_fill: "(if c then nsfb_plot_rectangle_fill b col st else (b, st)) = (b', st') \<Longrightarrow> drawn st st'"
  by (auto split: if_splits dest: drawn_fill)

lemma redraw_text_painted:
  assumes "fbtk_tree st F" "w \<in> set (fids F)" "panel_ready (app st)" "widgets st w = Some r" "fbtk_get_bbox st w = Some b"
    and tx: "text_ready env r"
  shows "\<exists>st'. fb_redraw_text env w st = Some (0, st') \<and> painted st b st'"
proof -
  let ?s1 = "st\<lparr>app := (app st)\<lparr>fb_mutex := True\<rparr>\<rparr>"
  have nsfb: "fbtk_get_nsfb st w = Some (tk_nsfb st)" using tree_box [OF assms(1,2)] by blast
  obtain t where t: "widget_text r = Some t" using tx by (auto simp: text_ready_def split: option.splits)
  obtain fh padding style where fs: "fb_text_font_style r t = (fh, padding, style)" using prod_cases3 by blast
  obtain caret cx cy ch where c: "fbtk_get_caret st w = Some (caret, cx, cy, ch)"
    using tree_root [OF assms(1,2)] by (cases "caret_owner (root_caret st) = Some w") (auto simp: fbtk_get_caret_def Let_def)
  obtain rect s2 where 2: "(if w_bg r AND 0xFF000000 \<noteq> 0
       then nsfb_plot_rectangle_fill b (if tx_all_selected t then w_fg r else w_bg r) ?s1 else (b, ?s1)) = (rect, s2)"
    by (rule prod.exhaust)
  let ?s3 = "if tx_outline t then nsfb_plot_rectangle (rect\<lparr>x1 := x1 rect - 1, y1 := y1 rect - 1\<rparr>) 1 0 False False s2 else s2"
  let ?scroll = "if tx_text t \<noteq> None \<and> caret \<and> w_width r - padding - padding < cx then (w_width r - padding - padding) - cx else 0"
  obtain s4 where 4: "(if tx_text t \<noteq> None then plot_text env style (x0 b + padding + ?scroll) (y0 b + cdiv (fh * 3 + 2) 4 + padding + 1) t ?s3
      else Some ?s3) = Some s4" "drawn ?s3 s4"
    by (rule text_drawn [OF tx t])
  let ?s5 = "if caret \<and> \<not> tx_all_selected t then nsfb_plot_line \<lparr>x0 = x0 b + cx + ?scroll, y0 = y0 b + cy, x1 = x0 b + cx + ?scroll,
    y1 = y0 b + cy + ch\<rparr> (pen_of 0xFF0000FF) s4 else s4"
  have "drawn ?s1 ?s3" using drawn_if_fill [OF 2] drawn_if [OF drawn_rectangle] by (rule drawn_trans)
  moreover have "drawn s4 ?s5" by (rule drawn_if [OF drawn_line])
  ultimately have d: "drawn ?s1 ?s5" using 4(2) by (meson drawn_trans)
  have "painted st b (nsfb_update b ?s5)" by (rule painted_update [OF assms(3) d]) simp
  moreover have "fb_redraw_text env w st = Some (0, nsfb_update b ?s5)"
    unfolding fb_redraw_text_def assms(4,5) nsfb c claim_ready [OF assms(3), of b] t fs Let_def bind.bind_lunit prod.case 2 4(1) by simp
  ultimately show ?thesis by blast
qed

lemma redraw_text_button_painted:
  assumes "fbtk_tree st F" "w \<in> set (fids F)" "panel_ready (app st)" "widgets st w = Some r" "fbtk_get_bbox st w = Some b"
    and tx: "text_ready env r"
  shows "\<exists>st'. fb_redraw_text_button env w st = Some (0, st') \<and> painted st b st'"
proof -
  let ?s1 = "st\<lparr>app := (app st)\<lparr>fb_mutex := True\<rparr>\<rparr>"
  have nsfb: "fbtk_get_nsfb st w = Some (tk_nsfb st)" using tree_box [OF assms(1,2)] by blast
  obtain t where t: "widget_text r = Some t" using tx by (auto simp: text_ready_def split: option.splits)
  obtain fh border style where fs: "fb_text_font_style r t = (fh, border, style)" using prod_cases3 by blast
  let ?rect = "b\<lparr>x1 := x1 b - 1, y1 := y1 b - 1\<rparr>"
  obtain rect s2 where 2: "(if w_bg r AND 0xFF000000 \<noteq> 0 then nsfb_plot_rectangle_fill ?rect (w_bg r) ?s1 else (?rect, ?s1)) = (rect, s2)"
    by (rule prod.exhaust)
  let ?s3 = "if tx_outline t then button_edges rect (w_bg r) s2 else s2"
  obtain s4 where 4: "(if tx_text t \<noteq> None then plot_text env style (x0 b + border) (y0 b + cdiv (fh * 3) 4 + border) t ?s3 else Some ?s3) = Some s4"
      "drawn ?s3 s4"
    by (rule text_drawn [OF tx t])
  have "drawn ?s1 ?s3" using drawn_if_fill [OF 2] drawn_if [OF drawn_edges] by (rule drawn_trans)
  then have d: "drawn ?s1 s4" using 4(2) by (rule drawn_trans)
  have "painted st b (nsfb_update b s4)" by (rule painted_update [OF assms(3) d]) simp
  moreover have "fb_redraw_text_button env w st = Some (0, nsfb_update b s4)"
    unfolding fb_redraw_text_button_def assms(4,5) nsfb claim_ready [OF assms(3), of b] t fs Let_def bind.bind_lunit prod.case 2 4(1) by simp
  ultimately show ?thesis by blast
qed

section \<open>The contracts\<close>

lemma body_eq: "body r' = body r \<Longrightarrow> w_callback r' = w_callback r \<and> w_u r' = w_u r \<and> w_width r' = w_width r \<and> w_height r' = w_height r"
proof -
  have "w_callback (body q) = w_callback q \<and> w_u (body q) = w_u q \<and> w_width (body q) = w_width q \<and> w_height (body q) = w_height q"
    for q :: "'a fbtk_widget" by (simp add: body_def)
  then show "body r' = body r \<Longrightarrow> w_callback r' = w_callback r \<and> w_u r' = w_u r \<and> w_width r' = w_width r \<and> w_height r' = w_height r" by metis
qed

lemma no_flags_u: "no_flags r' = no_flags r \<Longrightarrow> w_u r' = w_u r"
proof -
  have "w_u (no_flags q) = w_u q" for q :: "'a fbtk_widget" by (simp add: no_flags_def)
  then show "no_flags r' = no_flags r \<Longrightarrow> w_u r' = w_u r" by metis
qed

lemma panel_widget_same:
  assumes "w_callback r' = w_callback r" "w_u r' = w_u r" "w_width r' = w_width r" "w_height r' = w_height r"
  shows "panel_widget client r' = panel_widget client r"
proof -
  have "callback_ready client r' cb = callback_ready client r cb" for cb
    by (cases cb) (simp_all add: bitmap_of_def scroll_ready_def scroll_of_def text_ready_def widget_text_def assms(2-4))
  then show ?thesis unfolding panel_widget_def assms(1) by (simp split: option.split)
qed

lemma set_ptr_undisturbed:
  assumes "fbtk_tree st F" "w \<in> set (fids F)"
  shows "\<exists>st'. fbtk_set_ptr w bm st = Some (0, st') \<and> undisturbed st st' \<and> app st' = app st \<and> tk_nsfb st' = tk_nsfb st"
  using tree_root [OF assms]
  by (auto simp: fbtk_set_ptr_def nsfb_cursor_set_def undisturbed_def root_data_def Let_def split: option.splits)

text \<open>What a callback that keeps the contracts does, and when it reports the box of its widget.\<close>

definition well_behaved :: "'a panel_toolkit \<Rightarrow> wid \<Rightarrow> bool \<Rightarrow> 'a panel_toolkit \<Rightarrow> bool" where
  "well_behaved st w reports st' \<longleftrightarrow> undisturbed st st' \<and> panel_ready (app st')
     \<and> nsfb_width (tk_nsfb st') = nsfb_width (tk_nsfb st) \<and> nsfb_height (tk_nsfb st') = nsfb_height (tk_nsfb st)
     \<and> (\<forall>P. damaged P (app st) \<longrightarrow> damaged P (app st'))
     \<and> (\<forall>b. reports \<longrightarrow> fbtk_get_bbox st w = Some b \<longrightarrow> damaged (pixels (nsfb_clip (tk_nsfb st)) \<inter> pixels b) (app st'))"

lemma painted_behaved: "painted st b st' \<Longrightarrow> fbtk_get_bbox st w = Some b \<Longrightarrow> well_behaved st w reports st'"
  by (simp add: painted_def well_behaved_def)

lemma same_behaved: "panel_ready (app st) \<Longrightarrow> well_behaved st w False st"
  by (simp add: well_behaved_def)

lemma panel_callback:
  assumes "fbtk_tree st F" "w \<in> set (fids F)" "panel_ready (app st)" "widgets st w = Some r" "callback_ready client r cb"
  shows "\<exists>st'. toolkit_handler client cb w info st = Some (0, st') \<and> well_behaved st w (painter (r\<lparr>w_callback := \<lambda>_. Some cb\<rparr>)) st'"
proof -
  obtain b where b: "fbtk_get_bbox st w = Some b" using tree_box [OF assms(1,2)] by blast
  note args = assms(1-4) b
  have "\<not> posts cb" using assms(5) by (cases cb) (simp_all add: posts_def)
  then have h: "toolkit_handler client cb w info st = widget_callback client cb w info st" by (rule toolkit_handler_widget)
  have p: "\<exists>st'. widget_callback client cb w info st = Some (0, st') \<and> painted st b st' \<Longrightarrow> ?thesis"
    unfolding h using painted_behaved [OF _ b] by blast
  have q: "widget_callback client cb w info st = Some (0, st) \<Longrightarrow> \<not> painter (r\<lparr>w_callback := \<lambda>_. Some cb\<rparr>) \<Longrightarrow> ?thesis"
    unfolding h using same_behaved [OF assms(3)] by auto
  show ?thesis
  proof (cases cb)
    case Fb_redraw_window
    then show ?thesis using redraw_window_painted [OF args] p q by (cases "w_bg r AND 0xFF000000 = 0") (auto simp: painter_def)
  next
    case Fb_redraw_fill
    then show ?thesis using redraw_fill_painted [OF args] p by simp
  next
    case Fb_redraw_bitmap
    then obtain bm where "bitmap_of r = Some bm" using assms(5) by auto
    then show ?thesis using redraw_bitmap_painted [OF args] p Fb_redraw_bitmap by simp
  next
    case Vscroll_redraw
    then show ?thesis using vscroll_redraw_painted [OF args] assms(5) p by simp
  next
    case Hscroll_redraw
    then show ?thesis using hscroll_redraw_painted [OF args] assms(5) p by simp
  next
    case Fb_redraw_text
    then show ?thesis using redraw_text_painted [OF args] assms(5) p by simp
  next
    case Fb_redraw_text_button
    then show ?thesis using redraw_text_button_painted [OF args] assms(5) p by simp
  next
    case Fb_destroy_text
    then show ?thesis using q by (simp add: fb_destroy_text_def painter_def)
  next
    case Fb_browser_window_destroy
    then show ?thesis using q assms(4) by (simp add: fbtk_get_userpw_def painter_def)
  next
    case (Fbtk_set_ptr bm)
    then show ?thesis using set_ptr_undisturbed [OF assms(1,2), of bm] assms(3) h by (auto simp: well_behaved_def painter_def)
  qed (use assms(5) in simp_all)
qed

lemma panel_widgetD: "panel_widget client r \<Longrightarrow> w_callback r cbt = Some cb \<Longrightarrow> cbt = FBTK_CBT_REDRAW \<or> cbt = FBTK_CBT_DESTROY \<Longrightarrow> callback_ready client r cb"
  by (auto simp: panel_widget_def)

lemma painter_redraw: "w_callback r FBTK_CBT_REDRAW = Some cb \<Longrightarrow> painter (r\<lparr>w_callback := \<lambda>_. Some cb\<rparr>) = painter r"
  by (simp add: painter_def split: toolkit_cb.splits)

interpretation panel: painting "toolkit_handler client" panel_ready "panel_widget client" damaged painter for client
proof (unfold_locales, goal_cases)
  case (1 st F w r cb)
  then show ?case using panel_callback [of st F w r client cb] panel_widgetD [of client r FBTK_CBT_REDRAW cb]
    unfolding well_behaved_def by blast
next
  case (2 r' r)
  then show ?case using body_eq [of r' r] panel_widget_same [of r' r] by blast
next
  case (3 st F w r cb ret st' b)
  then have "callback_ready client r cb" "painter (r\<lparr>w_callback := \<lambda>_. Some cb\<rparr>) = painter r"
    using panel_widgetD [of client r FBTK_CBT_REDRAW cb] painter_redraw [of r cb] by auto
  then have "well_behaved st w (painter r) st'"
    using panel_callback [of st F w r client cb "callback_info FBTK_CBT_REDRAW None None None"] 3 by force
  then show ?case by (simp add: well_behaved_def)
next
  case (4 a)
  then show ?case by (simp add: damaged_def)
next
  case (5 r' r)
  then show ?case using no_flags_eq [of r' r] no_flags_u [of r' r] panel_widget_same [of r' r] by blast
qed

interpretation destroying: quiet_handler "toolkit_handler client" FBTK_CBT_DESTROY panel_ready "panel_widget client" for client
proof (unfold_locales, goal_cases)
  case (1 st F w r cb)
  then show ?case using panel_callback [of st F w r client cb] panel_widgetD [of client r FBTK_CBT_DESTROY cb]
    unfolding well_behaved_def by blast
next
  case (2 r' r)
  then show ?case using body_eq [of r' r] panel_widget_same [of r' r] by blast
qed

end
