(* ===== verification/Fbtk_Spec.thy ===== *)
theory Fbtk_Spec
  imports Fbtk_Paint Fbtk_Event
begin

text \<open>
  The properties of the widget toolkit (\<^verbatim>\<open>frontends/framebuffer/fbtk/\<close>), each with an
  instance on a small hierarchy: a root, a window in it, and a fill and a text in the window.
\<close>

section \<open>Widgets below a widget\<close>

definition below :: "wtree list \<Rightarrow> wid \<Rightarrow> wid set" where
  "below F w = insert w (set (fids (kids_of w F)))"

lemma vis_iff:
  "distinct (fids ts) \<Longrightarrow> v \<in> set (vis s ts) \<longleftrightarrow> v \<in> set (fids ts) \<and> list_all (\<lambda>u. w_mapped (the (s u))) (v # anc v ts)"
proof (induction s ts rule: vis.induct)
  case (2 s w ks ts)
  consider "v = w" | "v \<noteq> w" "v \<in> set (fids ks)" "v \<notin> set (fids ts)" | "v \<noteq> w" "v \<notin> set (fids ks)" by (use "2.prems" in auto)
  then show ?case
  proof cases
    case 1
    then have "v \<notin> set (vis s ks)" "v \<notin> set (vis s ts)" using "2.prems" vis_sub [of s ks] vis_sub [of s ts] by auto
    with 1 show ?thesis by simp
  next
    case 2
    then have "v \<notin> set (vis s ts)" using vis_sub [of s ts] by auto
    with 2 show ?thesis using "2.IH"(1) "2.prems" by auto
  next
    case 3
    then have "v \<notin> set (vis s ks)" using vis_sub [of s ks] by auto
    with 3 show ?thesis using "2.IH"(2) "2.prems" by auto
  qed
qed simp

lemma anc_below:
  assumes "w \<in> set (fids F)" "v \<in> set (fids (kids_of w F))" "distinct (fids F)"
  shows "anc v F = anc v (kids_of w F) @ w # anc w F"
  using assms
proof (induction w F rule: kids_of.induct)
  case (2 w u ks ts)
  consider "u = w" | "u \<noteq> w" "w \<in> set (fids ks)" | "u \<noteq> w" "w \<notin> set (fids ks)" "w \<in> set (fids ts)" using "2.prems"(1) by auto
  then show ?case
  proof cases
    case 2
    then have "v \<in> set (fids ks)" using "2.prems"(2) kids_of_sub [of w ks] by auto
    with 2 show ?thesis using "2.IH"(1) "2.prems" by auto
  next
    case 3
    then have "v \<in> set (fids ts)" using "2.prems"(2) kids_of_sub [of w ts] by auto
    with 3 show ?thesis using "2.IH"(2) "2.prems" by auto
  qed (use "2.prems" in auto)
qed simp

lemma asked_iff:
  assumes "fbtk_tree st F" "w \<in> set (fids F)"
  shows "set (asked s F w) = {v \<in> below F w. visible s F v}"
proof -
  have d: "distinct (fids F)" using assms(1) by (simp add: fbtk_tree_def)
  have k: "distinct (fids (kids_of w F))" by (rule kids_of_distinct [OF d])
  have "visible s F v \<longleftrightarrow> list_all (\<lambda>u. w_mapped (the (s u))) (v # anc v (kids_of w F)) \<and> visible s F w"
    if "v \<in> set (fids (kids_of w F))" for v
    using anc_below [OF assms(2) that d] by (auto simp: visible_def)
  then show ?thesis using vis_iff [OF k, of _ s] by (auto simp: asked_def below_def)
qed

lemma abs_marks:
  assumes "marks N A (widgets st) s'" "fbtk_tree st F" "v \<in> set (fids F)"
  shows "abs_of w_x s' F v = abs_of w_x (widgets st) F v" "abs_of w_y s' F v = abs_of w_y (widgets st) F v"
proof -
  have d: "distinct (fids F)" using assms(2) by (simp add: fbtk_tree_def)
  have "w_x (the (s' u)) = w_x (the (widgets st u)) \<and> w_y (the (s' u)) = w_y (the (widgets st u))" if "u \<in> set (v # anc v F)" for u
  proof -
    have "u \<in> set (fids F)" using anc_in [OF d assms(3), of u] that assms(3) by auto
    then obtain r where "widgets st u = Some r" using tree_alive [OF assms(2)] by blast
    then show ?thesis using marks_at [OF assms(1)] by simp
  qed
  then show "abs_of w_x s' F v = abs_of w_x (widgets st) F v" "abs_of w_y s' F v = abs_of w_y (widgets st) F v"
    by (simp_all add: abs_of_def up_sum_def cong: map_cong)
qed

section \<open>The panel and the widgets\<close>

definition panel_ok :: "'a toolkit_client \<Rightarrow> 'a panel_toolkit \<Rightarrow> wtree list \<Rightarrow> bool" where
  "panel_ok client st F \<longleftrightarrow> fbtk_tree st F \<and> flags_ok (widgets st) F \<and> \<not> fb_mutex (app st)
     \<and> (\<forall>v r. widgets st v = Some r \<longrightarrow> panel_widget client r)"

lemma panel_ok_tree: "panel_ok client st F \<Longrightarrow> fbtk_tree st F"
  by (simp add: panel_ok_def)

lemma marks_good:
  assumes "panel.good client st" "marks N A (widgets st) s'"
  shows "panel.good client (st\<lparr>widgets := s'\<rparr>)"
proof -
  have "panel_widget client r" if r: "s' v = Some r" for v r
  proof -
    obtain q where q: "widgets st v = Some q" "r = mark (v \<in> N) (v \<in> A) q" using assms(2) r by (auto simp: marks_def)
    have "w_u r = w_u q" unfolding q(2) by (auto simp: mark_def whole_redraw_def flag_child_def Let_def)
    then have "panel_widget client r = panel_widget client q" using q(2) by (intro panel_widget_same) simp_all
    then show ?thesis using assms(1) q(1) by (simp add: panel.good_def)
  qed
  then show ?thesis using assms(1) by (simp add: panel.good_def)
qed

lemma painter_wants:
  assumes "painter r" "w_mapped r"
  shows "panel.wants (mark True c r)"
proof -
  have m: "w_bg (mark True c r) = w_bg r" by (simp add: mark_def whole_redraw_def flag_child_def Let_def)
  have "painter (mark True c r)" using assms(1) unfolding painter_def m by simp
  moreover have "w_callback r FBTK_CBT_REDRAW \<noteq> None" using assms(1) by (cases "w_callback r FBTK_CBT_REDRAW") (simp_all add: painter_def)
  ultimately show ?thesis using assms(2) by (simp add: panel.wants_def)
qed

lemma panel_ok_good: "panel_ok client st F \<longleftrightarrow> fbtk_tree st F \<and> flags_ok (widgets st) F \<and> panel.good client st"
  by (auto simp: panel_ok_def panel.good_def panel_ready_def)

lemma panel_destroying_good: "destroying.good client st = panel.good client st"
  by (simp add: panel.good_def destroying.good_def)


section \<open>An example\<close>

definition example_widget :: "fbtk_widgettype \<Rightarrow> wid option \<Rightarrow> int \<times> int \<Rightarrow> int \<times> int \<Rightarrow> nsfb_colour \<Rightarrow> 'a toolkit_cb option \<Rightarrow> 'a toolkit_cb fbtk_widget" where
  "example_widget type par at extent bg redraw = zero_widget\<lparr>w_type := type, w_parent := par, w_x := fst at, w_y := snd at,
     w_width := fst extent, w_height := snd extent, w_bg := bg, w_mapped := True, w_callback := (\<lambda>_. None)(FBTK_CBT_REDRAW := redraw)\<rparr>"

definition example_widgets :: "wid \<Rightarrow> 'a toolkit_cb fbtk_widget option" where
  "example_widgets = [
     0 \<mapsto> (example_widget FB_WIDGET_TYPE_ROOT None (0, 0) (100, 80) 0 None)\<lparr>w_first_child := Some 1, w_last_child := Some 1\<rparr>,
     1 \<mapsto> (example_widget FB_WIDGET_TYPE_WINDOW (Some 0) (10, 20) (50, 40) 0xFFFFFFFF (Some Fb_redraw_window))\<lparr>w_first_child := Some 2, w_last_child := Some 3\<rparr>,
     2 \<mapsto> (example_widget FB_WIDGET_TYPE_FILL (Some 1) (1, 2) (10, 10) 0xFF000000 (Some Fb_redraw_fill))\<lparr>w_next := Some 3\<rparr>,
     3 \<mapsto> (example_widget FB_WIDGET_TYPE_FILL (Some 1) (5, 5) (20, 20) 0xFFAAAAAA (Some Fb_redraw_fill))\<lparr>w_prev := Some 2\<rparr>]"

definition example_toolkit :: "'a panel_toolkit" where
  "example_toolkit = \<lparr>widgets = example_widgets, next_addr = 4, root_prev = None, root_grabbed = None, root_input = Some 3,
     root_caret = \<lparr>caret_owner = None, caret_x = 0, caret_y = 0, caret_height = 0, caret_remove_cb = None\<rparr>,
     tk_nsfb = \<lparr>nsfb_width = 100, nsfb_height = 80, nsfb_format = NSFB_FMT_RGB565, nsfb_bpp = 16, nsfb_ptr = 0, nsfb_linelen = 200,
       nsfb_palette = None, nsfb_clip = \<lparr>x0 = 0, y0 = 0, x1 = 100, y1 = 80\<rparr>, nsfb_plotter_fns = Some Plotters_16bpp,
       nsfb_orientation = 0, nsfb_phys_width = 100, nsfb_phys_height = 80, nsfb_phys_linelen = 200, nsfb_vram = (\<lambda>_. 0)\<rparr>,
     tk_cursor = None, tk_heap = [], tk_modifier = 0, app = fb_example\<rparr>"

definition no_client :: "unit toolkit_client" where
  "no_client = \<lparr>on_callback = (\<lambda>cb w info st. None), on_enter = (\<lambda>cb s st. None), on_remove = (\<lambda>cb w st. None),
     text_envir = \<lparr>te_fonts = example_fonts, te_junk = (\<lambda>_. 0)\<rparr>\<rparr>"

definition example_tree :: "wtree list" where
  "example_tree = [Node 0 [Node 1 [Node 2 [], Node 3 []]]]"

lemmas example_defs = example_toolkit_def example_widgets_def example_widget_def zero_widget_def

lemma example_panel_ok: "panel_ok client (example_toolkit :: 'a panel_toolkit) example_tree"
  by (simp add: panel_ok_def fbtk_tree_def flags_ok_def flagged_def example_tree_def example_defs links_def
      panel_widget_def fb_example_def split: if_splits)

lemma example_tree_ok: "fbtk_tree (example_toolkit :: 'a panel_toolkit) example_tree"
  by (rule panel_ok_tree [OF example_panel_ok])

section \<open>Properties\<close>



text \<open>
  C19.  \<^verbatim>\<open>fbtk_set_zorder\<close> moves a widget among its siblings exactly: by \<open>z\<close> places towards the
  background, or the foreground when negative, as far as there are siblings; it returns the
  places that were left over, keeps the subtree of every sibling, and changes nothing but the
  order.
\<close>

theorem fbtk_set_zorder_moves:
  assumes "fbtk_tree st F" "p \<in> set (fids F)" "kids_of p F = as @ Node w kw # bs"
  shows "\<exists>s. fbtk_set_zorder w z st = Some (not_moved z as bs, st\<lparr>widgets := s\<rparr>)
    \<and> fbtk_tree (st\<lparr>widgets := s\<rparr>) (put_kids p (moved z as (Node w kw) bs) F) \<and> relinked (widgets st) s"
  by (rule zorder_moves [OF assms])

lemma fbtk_set_zorder_moves_witness:
  "\<exists>s. fbtk_set_zorder 2 5 (example_toolkit :: unit panel_toolkit) = Some (4, example_toolkit\<lparr>widgets := s\<rparr>)
    \<and> fbtk_tree (example_toolkit\<lparr>widgets := s\<rparr> :: unit panel_toolkit) [Node 0 [Node 1 [Node 3 [], Node 2 []]]]"
  using fbtk_set_zorder_moves [OF example_tree_ok [where 'a = unit], of 1 "[]" 2 "[]" "[Node 3 []]" 5]
  by (auto simp: example_tree_def not_moved_def moved_def)

text \<open>
  C18.  Destroying a widget takes exactly its subtree out of the hierarchy and frees all of
  it; the siblings close the gap, every other widget is as it was, and the panel is left
  unlocked.
\<close>

theorem fbtk_destroy_subtree:
  fixes st :: "'a panel_toolkit"
  assumes "fbtk_tree st F" "p \<in> set (fids F)" "kids_of p F = as @ Node w ks # bs"
    and "\<not> fb_mutex (app st)" "\<forall>v r. widgets st v = Some r \<longrightarrow> panel_widget client r"
  shows "\<exists>ret st'. fbtk_destroy_widget (toolkit_handler client) w st = Some (ret, st')
    \<and> fbtk_tree st' (put_kids p (as @ bs) F) \<and> freed (below F w) (widgets st) (widgets st') \<and> \<not> fb_mutex (app st')"
proof -
  have "destroying.good client st" using assms(4,5) by (auto simp: destroying.good_def panel_ready_def)
  moreover have "set (w # fids ks) = below F w" using anc_kid(3) [OF assms(1-3)] by (simp add: below_def)
  ultimately show ?thesis
    using destroying.destroy_kid [OF refl assms(1-3), of client] by (auto simp: destroying.good_def panel_ready_def)
qed

lemma fbtk_destroy_subtree_witness:
  "\<exists>ret st'. fbtk_destroy_widget (toolkit_handler no_client) 1 example_toolkit = Some (ret, st')
    \<and> fbtk_tree st' [Node 0 []] \<and> widgets st' 3 = None"
proof -
  have k: "0 \<in> set (fids example_tree)" "kids_of 0 example_tree = [] @ Node 1 [Node 2 [], Node 3 []] # []" by (simp_all add: example_tree_def)
  have g: "\<not> fb_mutex (app (example_toolkit :: unit panel_toolkit))" "\<forall>v r. widgets (example_toolkit :: unit panel_toolkit) v = Some r \<longrightarrow> panel_widget no_client r"
    using example_panel_ok [of no_client] unfolding panel_ok_def by blast+
  obtain ret st' where "fbtk_destroy_widget (toolkit_handler no_client) 1 example_toolkit = Some (ret, st')"
    "fbtk_tree st' (put_kids 0 ([] @ []) example_tree)" "freed (below example_tree 1) (widgets example_toolkit) (widgets st')"
    using fbtk_destroy_subtree [OF example_tree_ok k g] by blast
  moreover have "3 \<in> below example_tree 1" by (simp add: below_def example_tree_def)
  ultimately show ?thesis by (intro exI [of _ ret] exI [of _ st']) (simp add: freed_def example_tree_def)
qed

text \<open>
  C25.  A destroyed widget can keep the input focus: \<^verbatim>\<open>fbtk_destroy_widget\<close> leaves the pointer
  in the root widget, and the next key that is typed, whatever it is, follows it into freed
  memory.
\<close>

theorem fbtk_destroy_dangling_focus:
  fixes st :: "'a panel_toolkit"
  assumes "fbtk_tree st F" "p \<in> set (fids F)" "kids_of p F = as @ Node w ks # bs"
    and "\<not> fb_mutex (app st)" "\<forall>v r. widgets st v = Some r \<longrightarrow> panel_widget client r"
    and "root_input st = Some v" "v \<in> below F w"
  shows "\<exists>ret st'. fbtk_destroy_widget (toolkit_handler client) w st = Some (ret, st') \<and> fbtk_input handler p event st' = None"
proof -
  have g: "destroying.good client st" using assms(4,5) by (auto simp: destroying.good_def panel_ready_def)
  have ks: "set (w # fids ks) = below F w" using anc_kid(3) [OF assms(1-3)] by (simp add: below_def)
  obtain ret st' where d: "fbtk_destroy_widget (toolkit_handler client) w st = Some (ret, st')"
    "freed (set (w # fids ks)) (widgets st) (widgets st')" "root_data st' = root_data st"
    using destroying.destroy_kid [OF refl assms(1-3) g] by blast
  have "widgets st' v = None" using d(2) assms(7) unfolding ks by (simp add: freed_def)
  moreover have "root_input st' = Some v" using d(3) assms(6) by (simp add: root_data_def)
  ultimately have "fbtk_input handler p event st' = None"
    by (cases "fbtk_get_root_widget st' p") (simp_all add: fbtk_input_def fbtk_post_callback_def)
  with d(1) show ?thesis by blast
qed

lemma fbtk_destroy_dangling_focus_witness:
  "\<exists>ret st'. fbtk_destroy_widget (toolkit_handler no_client) 1 example_toolkit = Some (ret, st')
    \<and> fbtk_input (toolkit_handler no_client) 0 (NSFB_EVENT_KEY_DOWN 97) st' = None"
proof -
  have k: "0 \<in> set (fids example_tree)" "kids_of 0 example_tree = [] @ Node 1 [Node 2 [], Node 3 []] # []" by (simp_all add: example_tree_def)
  have g: "\<not> fb_mutex (app (example_toolkit :: unit panel_toolkit))" "\<forall>v r. widgets (example_toolkit :: unit panel_toolkit) v = Some r \<longrightarrow> panel_widget no_client r"
    using example_panel_ok [of no_client] unfolding panel_ok_def by blast+
  have f: "root_input (example_toolkit :: unit panel_toolkit) = Some 3" "3 \<in> below example_tree 1"
    by (simp_all add: example_toolkit_def below_def example_tree_def)
  show ?thesis by (rule fbtk_destroy_dangling_focus [OF example_tree_ok k g f])
qed

text \<open>
  C23.  Creating a widget puts it in front of its siblings, and destroying it again restores
  the hierarchy: the tree is the one before, every widget is as it was but for its links, and
  the new one is free.
\<close>

theorem fbtk_create_destroy:
  fixes st :: "'a panel_toolkit"
  assumes "fbtk_tree st F" "p \<in> set (fids F)" "alloc (tk_heap st) = (True, h)" "widgets st (next_addr st) = None"
    and "\<not> fb_mutex (app st)" "\<forall>v r. widgets st v = Some r \<longrightarrow> panel_widget client r"
  shows "\<exists>n st1 ret st2. fbtk_widget_new (Some p) type x y width height st = Some (Some n, st1)
    \<and> fbtk_tree st1 (put_kids p (Node n [] # kids_of p F) F)
    \<and> fbtk_destroy_widget (toolkit_handler client) n st1 = Some (ret, st2) \<and> fbtk_tree st2 F \<and> relinked (widgets st) (widgets st2)"
proof -
  let ?n = "next_addr st" and ?F = "put_kids p (Node (next_addr st) [] # kids_of p F) F"
  have d: "distinct (fids F)" using assms(1) by (simp add: fbtk_tree_def)
  obtain st1 where st1: "fbtk_widget_new (Some p) type x y width height st = Some (Some ?n, st1)" "fbtk_tree st1 ?F"
    "\<forall>w. w \<noteq> ?n \<longrightarrow> map_option body (widgets st1 w) = map_option body (widgets st w)"
    "\<exists>P N. widgets st p = Some P \<and> widgets st1 ?n = Some N \<and> body N = zero_widget\<lparr>w_type := type, w_x := x, w_y := y,
       w_width := fit_extent (w_width P) x width, w_height := fit_extent (w_height P) y height\<rparr>" "app st1 = app st"
    by (rule widget_new_tree [OF assms(1-3) refl, where type = type and x = x and y = y and width = width and height = height])
  have k: "kids_of p ?F = [] @ Node ?n [] # kids_of p F" by (simp add: kids_of_put [OF assms(2) d])
  have p: "p \<in> set (fids ?F)" using put_kids_set [OF assms(2) d] not_own_kid [OF d] assms(2) by simp
  have "panel_widget client r" if r: "widgets st1 v = Some r" for v r
  proof (cases "v = ?n")
    case True
    obtain P N where "widgets st p = Some P" "widgets st1 ?n = Some N" "body N = zero_widget\<lparr>w_type := type, w_x := x, w_y := y,
       w_width := fit_extent (w_width P) x width, w_height := fit_extent (w_height P) y height\<rparr>" using st1(4) by blast
    moreover have "N = r" using calculation(2) r True by simp
    ultimately have "body r = zero_widget\<lparr>w_type := type, w_x := x, w_y := y,
       w_width := fit_extent (w_width P) x width, w_height := fit_extent (w_height P) y height\<rparr>" by simp
    then have "w_callback (body r) = (\<lambda>_. None)" by (simp add: zero_widget_def)
    then have "w_callback r = (\<lambda>_. None)" by (simp add: body_def)
    then show ?thesis by (simp add: panel_widget_def)
  next
    case False
    then have "map_option body (widgets st v) = Some (body r)" using st1(3) [rule_format, of v] r by simp
    then obtain q where q: "widgets st v = Some q" "body r = body q" by auto
    then show ?thesis using assms(6) body_eq [OF q(2)] panel_widget_same [of r q] by blast
  qed
  then have g: "destroying.good client st1" using assms(5) st1(5) by (auto simp: destroying.good_def panel_ready_def)
  obtain ret st2 where st2: "fbtk_destroy_widget (toolkit_handler client) ?n st1 = Some (ret, st2)"
    "fbtk_tree st2 (put_kids p ([] @ kids_of p F) ?F)" "freed {?n} (widgets st1) (widgets st2)"
    using destroying.destroy_kid [OF refl st1(2) p k g] by auto
  have "put_kids p ([] @ kids_of p F) ?F = F" by (simp add: put_put put_same [OF assms(2) d])
  moreover have "relinked (widgets st) (widgets st2)"
    unfolding relinked_def
  proof
    fix v show "map_option body (widgets st2 v) = map_option body (widgets st v)"
      using st2(3) st1(3) [rule_format, of v] assms(4) by (cases "v = ?n") (simp_all add: freed_def)
  qed
  ultimately show ?thesis using st1(1,2) st2(1,2) by auto
qed

lemma fbtk_create_destroy_witness:
  "\<exists>n st1 ret st2. fbtk_widget_new (Some 1) FB_WIDGET_TYPE_FILL 3 4 0 (- 2) (example_toolkit :: unit panel_toolkit) = Some (Some n, st1)
    \<and> fbtk_tree st1 [Node 0 [Node 1 [Node n [], Node 2 [], Node 3 []]]]
    \<and> fbtk_destroy_widget (toolkit_handler no_client) n st1 = Some (ret, st2)
    \<and> fbtk_tree st2 example_tree"
proof -
  have a: "1 \<in> set (fids example_tree)" "alloc (tk_heap (example_toolkit :: unit panel_toolkit)) = (True, [])"
    "widgets (example_toolkit :: unit panel_toolkit) (next_addr (example_toolkit :: unit panel_toolkit)) = None"
    by (simp_all add: example_tree_def example_toolkit_def example_widgets_def)
  have g: "\<not> fb_mutex (app (example_toolkit :: unit panel_toolkit))" "\<forall>v r. widgets (example_toolkit :: unit panel_toolkit) v = Some r \<longrightarrow> panel_widget no_client r"
    using example_panel_ok [of no_client] unfolding panel_ok_def by blast+
  from fbtk_create_destroy [OF example_tree_ok a g, of FB_WIDGET_TYPE_FILL 3 4 0 "- 2"]
  show ?thesis by (simp add: example_tree_def) blast
qed



text \<open>
  The clipping routine of the toolkit, a copy of the one of libnsfb, gives the same
  answer and the same box for every rectangle.
\<close>

theorem fbtk_clip_rect_is_nsfb: "fbtk_clip_rect clip box = nsfb_plot_clip clip box"
  by (simp add: fbtk_clip_rect_def nsfb_plot_clip_def)

end
