(* ===== verification/Fbtk_Tablet.thy ===== *)
theory Fbtk_Tablet
  imports Fbtk_Event RM_Input_Run Fbtk_Walk
begin

text \<open>
  The event loop of the toolkit on the input queue of the tablet: \<^verbatim>\<open>fbtk_event\<close>
  (\<^verbatim>\<open>frontends/framebuffer/fbtk/event.c\<close>) reading through \<^verbatim>\<open>rm_input\<close>
  (\<^verbatim>\<open>libnsfb/src/surface/remarkable/remarkable.c\<close>) what the input thread has put into the
  ring buffer.
\<close>

section \<open>A source of events\<close>

text \<open>Where a burst of movements ends, from the cursor if the first one is relative.\<close>

definition track_start :: "nsfb_event list \<Rightarrow> ('cb, 'w) toolkit \<Rightarrow> (int \<times> int) option" where
  "track_start es st = (case es of
     NSFB_EVENT_MOVE_RELATIVE _ _ _ # _ \<Rightarrow> map_option (\<lambda>c. (x0 c, y0 c)) (nsfb_cursor_loc_get st)
   | _ \<Rightarrow> None)"

definition track :: "nsfb_event list \<Rightarrow> (int \<times> int) option \<Rightarrow> (int \<times> int) option" where
  "track es cloc = fold moved_to es cloc"

lemma track_simps [simp]: "track [] cloc = cloc" "track (e # es) cloc = track es (moved_to e cloc)"
  by (simp_all add: track_def)

locale event_source =
  fixes input :: "('cb, 'w) input_rtn" and queue :: "'w \<Rightarrow> nsfb_event list"
  assumes next_event: "queue (app st) = e # es \<Longrightarrow> \<exists>a. input timeout st = Some (Some e, st\<lparr>app := a\<rparr>) \<and> queue a = es"
begin

lemma burst_loop:
  assumes "queue (app st) = ms @ e # es" "list_all is_move ms" "\<not> is_move e"
  shows "\<exists>a. queue a = es \<and> event_loop handler gui_resize input root ev timeout unused True (Some c) st
    = do { d \<leftarrow> track ms (Some c);
        st \<leftarrow> fbtk_warp_pointer handler root (fst d) (snd d) False (st\<lparr>app := a\<rparr>);
        (unused, st) \<leftarrow> dispatch handler gui_resize root e unused st;
        Some (unused, e, st) }"
  using assms
proof (induction ms arbitrary: c st ev timeout)
  case Nil
  obtain a where a: "input timeout st = Some (Some e, st\<lparr>app := a\<rparr>)" "queue a = es"
    using next_event [of st e es timeout] Nil.prems by auto
  have "event_loop handler gui_resize input root ev timeout unused True (Some c) st
      = do { st \<leftarrow> fbtk_warp_pointer handler root (fst c) (snd c) False (st\<lparr>app := a\<rparr>);
        (unused, st) \<leftarrow> dispatch handler gui_resize root e unused st;
        Some (unused, e, st) }"
    using Nil.prems(3) by (subst event_loop.simps) (simp add: a before_event_def split_def)
  with a(2) show ?case by auto
next
  case (Cons m ms)
  obtain a where a: "input timeout st = Some (Some m, st\<lparr>app := a\<rparr>)" "queue a = ms @ e # es"
    using next_event [of st m "ms @ e # es" timeout] Cons.prems by auto
  have m: "is_move m" using Cons.prems(2) by simp
  then obtain d where d: "moved_to m (Some c) = Some d" by (cases c) (auto elim!: is_move.elims)
  have "before_event handler root m True (Some c) (st\<lparr>app := a\<rparr>) = Some (Some c, st\<lparr>app := a\<rparr>)"
    using m by (auto simp: before_event_def split: nsfb_event.splits)
  then have "event_loop handler gui_resize input root ev timeout unused True (Some c) st
      = event_loop handler gui_resize input root m 0 unused True (Some d) (st\<lparr>app := a\<rparr>)"
    using m d by (subst event_loop.simps) (simp add: a)
  with Cons.IH [of "st\<lparr>app := a\<rparr>" m 0 d] Cons.prems a(2) d show ?case by auto
qed

lemma burst:
  assumes "queue (app st) = m # ms @ e # es" "list_all is_move (m # ms)" "\<not> is_move e" "fbtk_get_root_widget st w = Some root"
    "tk_cursor st \<noteq> None"
  shows "\<exists>a. queue a = es \<and> fbtk_event handler gui_resize input w ev timeout st
    = do { d \<leftarrow> track (m # ms) (track_start (m # ms) st);
        st \<leftarrow> fbtk_warp_pointer handler root (fst d) (snd d) False (st\<lparr>app := a\<rparr>);
        (unused, st) \<leftarrow> dispatch handler gui_resize root e False st;
        Some (unused, e, st) }"
proof -
  obtain a where a: "input timeout st = Some (Some m, st\<lparr>app := a\<rparr>)" "queue a = ms @ e # es"
    using next_event [of st m "ms @ e # es" timeout] assms(1) by auto
  let ?c = "track_start (m # ms) st"
  have m: "is_move m" using assms(2) by simp
  have "nsfb_cursor_loc_get (st\<lparr>app := a\<rparr>) = nsfb_cursor_loc_get st" by (simp add: nsfb_cursor_loc_get_def)
  then have "before_event handler root m False None (st\<lparr>app := a\<rparr>) = Some (?c, st\<lparr>app := a\<rparr>)"
    using m by (auto simp: before_event_def track_start_def split: nsfb_event.splits option.splits)
  then have loop: "fbtk_event handler gui_resize input w ev timeout st = (case moved_to m ?c of None \<Rightarrow> None
      | Some d \<Rightarrow> event_loop handler gui_resize input root m 0 False True (Some d) (st\<lparr>app := a\<rparr>))"
    using m by (simp add: fbtk_event_def assms(4)) (subst event_loop.simps, simp add: a)
  obtain d where "moved_to m ?c = Some d"
    using m assms(5) by (cases m) (auto simp: track_start_def nsfb_cursor_loc_get_def)
  then show ?thesis
    using burst_loop [of "st\<lparr>app := a\<rparr>" ms e es handler gui_resize root m 0 False d] loop a(2) assms(1-3) by auto
qed

end

section \<open>The tablet as a source of events\<close>

text \<open>
  The state of the input side, what the waits on the queue will see, one list for each call,
  and the clock.
\<close>

record tablet =
  tab_input :: input_state
  tab_waits :: "(int \<times> nsfb_event list) list list"
  tab_now :: "int \<times> int"

definition tablet_input :: "('cb, tablet) input_rtn" where
  "tablet_input timeout st = (let t = app st in
     map_option (\<lambda>(_, e, i). (e, st\<lparr>app := t\<lparr>tab_input := i, tab_waits := tl (tab_waits t)\<rparr>\<rparr>))
       (rm_input (case tab_waits t of [] \<Rightarrow> [] | w # _ \<Rightarrow> w) timeout (tab_now t) (tab_input t)))"

definition tablet_queue :: "tablet \<Rightarrow> nsfb_event list" where
  "tablet_queue t = (let b = events_buf (tab_input t) in if ring_inv b then ring_list b else [])"

interpretation tablet: event_source tablet_input tablet_queue
proof
  fix st :: "('cb, tablet) toolkit" and e es timeout
  let ?i = "tab_input (app st)"
  assume q: "tablet_queue (app st) = e # es"
  then have b: "ring_inv (events_buf ?i)" "ring_list (events_buf ?i) = e # es" by (simp_all add: tablet_queue_def Let_def split: if_splits)
  have ne: "used (events_buf ?i) \<noteq> 0"
  proof
    assume "used (events_buf ?i) = 0"
    then have "ring_list (events_buf ?i) = []" by (simp add: ring_list_def)
    with b(2) show False by simp
  qed
  obtain f b' where t: "ring_buf_take (events_buf ?i) = (f, b')" by fastforce
  have f: "ring_inv b'" "f = e" "ring_list b' = es" using ring_buf_take_cases [OF b(1) ne t] b(2) by simp_all
  have "\<exists>d i. rm_input wakes timeout (tab_now (app st)) ?i = Some (d, Some e, i) \<and> events_buf i = b'" for wakes
    using ring_buf_wait_ready [OF ne] t f(2) by (simp add: rm_input_def input_get_next_event_def)
  then obtain d i where i: "rm_input (case tab_waits (app st) of [] \<Rightarrow> [] | w # _ \<Rightarrow> w) timeout (tab_now (app st)) ?i = Some (d, Some e, i)"
    "events_buf i = b'" by blast
  let ?a = "(app st)\<lparr>tab_input := i, tab_waits := tl (tab_waits (app st))\<rparr>"
  have "tablet_input timeout st = Some (Some e, st\<lparr>app := ?a\<rparr>)" using i(1) by (simp add: tablet_input_def Let_def)
  moreover have "tablet_queue ?a = es" using i(2) f by (simp add: tablet_queue_def Let_def)
  ultimately show "\<exists>a. tablet_input timeout st = Some (Some e, st\<lparr>app := a\<rparr>) \<and> tablet_queue a = es" by blast
qed

section \<open>Properties\<close>

text \<open>
  C21.  However many movements the tablet has queued in front of another event, the toolkit
  moves the pointer once, to where they end, then handles that event, and leaves the rest of
  the queue for the next call.
\<close>

theorem fbtk_event_burst:
  assumes "tablet_queue (app st) = m # ms @ e # es" "list_all is_move (m # ms)" "\<not> is_move e"
    and "fbtk_tree st F" "w \<in> set (fids F)" "tk_cursor st \<noteq> None"
  shows "\<exists>a. tablet_queue a = es \<and> fbtk_event handler gui_resize tablet_input w ev timeout st
    = do { d \<leftarrow> track (m # ms) (track_start (m # ms) st);
        st \<leftarrow> fbtk_warp_pointer handler (root_id (hd F)) (fst d) (snd d) False (st\<lparr>app := a\<rparr>);
        (unused, st) \<leftarrow> dispatch handler gui_resize (root_id (hd F)) e False st;
        Some (unused, e, st) }"
  by (rule tablet.burst [OF assms(1-3) tree_root [OF assms(4,5)] assms(6)])

definition tap_state :: "(unit, tablet) toolkit" where
  "tap_state = \<lparr>widgets = [0 \<mapsto> zero_widget\<lparr>w_mapped := True, w_width := 1404, w_height := 1872\<rparr>], next_addr = 1,
     root_prev = None, root_grabbed = None, root_input = None,
     root_caret = \<lparr>caret_owner = None, caret_x = 0, caret_y = 0, caret_height = 0, caret_remove_cb = None\<rparr>,
     tk_nsfb = example_nsfb,
     tk_cursor = Some \<lparr>cur_loc = \<lparr>x0 = 9, y0 = 9, x1 = 9, y1 = 9\<rparr>, cur_bmp_width = 0, cur_bmp_height = 0, cur_bmp_stride = 0,
       cur_hotspot_x = 0, cur_hotspot_y = 0\<rparr>,
     tk_heap = [], tk_modifier = 0,
     app = \<lparr>tab_input = example_state\<lparr>events_buf := \<lparr>buffer = [NSFB_EVENT_MOVE_RELATIVE 5 6 0, NSFB_EVENT_MOVE_RELATIVE (- 1) 1 0,
         NSFB_EVENT_CONTROL 1], capacity = 3, elem_size = 16, head = 0, tail = 0, used = 3\<rparr>\<rparr>, tab_waits = [], tab_now = (0, 0)\<rparr>\<rparr>"

lemma fbtk_event_burst_witness:
  "\<exists>st'. fbtk_event (\<lambda>_ _ _ _. None) (\<lambda>_ _ _ _. None) tablet_input 0 NSFB_EVENT_NONE 0 tap_state = Some (True, NSFB_EVENT_CONTROL 1, st')
     \<and> map_option (\<lambda>c. (x0 c, y0 c)) (nsfb_cursor_loc_get st') = Some (13, 16) \<and> tablet_queue (app st') = []"
proof -
  have q: "tablet_queue (app tap_state) = NSFB_EVENT_MOVE_RELATIVE 5 6 0 # [NSFB_EVENT_MOVE_RELATIVE (- 1) 1 0] @ NSFB_EVENT_CONTROL 1 # []"
    by (simp add: tablet_queue_def tap_state_def ring_inv_def ring_list_def upt_rec SIZE_MAX_def Let_def)
  have t: "fbtk_tree tap_state [Node 0 []]" "0 \<in> set (fids [Node 0 []])"
    by (simp_all add: fbtk_tree_def tap_state_def links_def zero_widget_def)
  have c: "tk_cursor tap_state \<noteq> None" by (simp add: tap_state_def)
  obtain a where a: "tablet_queue a = []" "fbtk_event (\<lambda>_ _ _ _. None) (\<lambda>_ _ _ _. None) tablet_input 0 NSFB_EVENT_NONE 0 tap_state
    = do { d \<leftarrow> track [NSFB_EVENT_MOVE_RELATIVE 5 6 0, NSFB_EVENT_MOVE_RELATIVE (- 1) 1 0]
              (track_start [NSFB_EVENT_MOVE_RELATIVE 5 6 0, NSFB_EVENT_MOVE_RELATIVE (- 1) 1 0] tap_state);
        st \<leftarrow> fbtk_warp_pointer (\<lambda>_ _ _ _. None) 0 (fst d) (snd d) False (tap_state\<lparr>app := a\<rparr>);
        (unused, st) \<leftarrow> dispatch (\<lambda>_ _ _ _. None) (\<lambda>_ _ _ _. None) 0 (NSFB_EVENT_CONTROL 1) False st;
        Some (unused, NSFB_EVENT_CONTROL 1, st) }"
    using fbtk_event_burst [OF q _ _ t c, of "\<lambda>_ _ _ _. None" "\<lambda>_ _ _ _. None" NSFB_EVENT_NONE 0] by auto
  show ?thesis
    unfolding a(2)
    by (simp add: track_start_def nsfb_cursor_loc_get_def tap_state_def fbtk_warp_pointer_def fbtk_get_root_widget_def root_or_null.simps
        zero_widget_def within_root_def warp_free_def fbtk_get_widget_at_def widget_at_loop.simps covers_def move_cursor_def
        nsfb_cursor_loc_set_def fbtk_get_absx_def fbtk_get_absy_def add_up.simps fbtk_post_callback_def dispatch_def Let_def a(1))
qed

end
