(* ===== verification/Fbtk_Text_Spec.thy ===== *)
theory Fbtk_Text_Spec
  imports Fbtk_Paint
begin

text \<open>
  What the line editor of the text widgets promises: on key events it is an editor of two
  strings, the text in front of the caret and the text behind it.
\<close>

section \<open>The abstract editor\<close>

record line =
  ln_modifier :: int
  ln_selected :: bool
  ln_left :: "nat list"
  ln_right :: "nat list"

definition typed_byte :: "int \<Rightarrow> nsfb_key_code \<Rightarrow> nat" where
  "typed_byte modifier value = nat (fbtk_keycode_to_ucs4 value modifier mod 256)"

definition control :: "line \<Rightarrow> bool" where
  "control l \<longleftrightarrow> ln_modifier l AND FBTK_MOD_LCTRL \<noteq> 0 \<or> ln_modifier l AND FBTK_MOD_RCTRL \<noteq> 0"

text \<open>Placing the caret takes the selection away.\<close>

definition caret_between :: "nat list \<Rightarrow> nat list \<Rightarrow> line \<Rightarrow> line" where
  "caret_between before after l = l\<lparr>ln_left := before, ln_right := after, ln_selected := False\<rparr>"

definition key_down :: "nsfb_key_code \<Rightarrow> line \<Rightarrow> line" where
  "key_down value l = (let L = ln_left l; R = ln_right l in
     if value = NSFB_KEY_BACKSPACE then (if ln_selected l then caret_between [] [] l else caret_between (butlast L) R l)
     else if value = NSFB_KEY_RIGHT then
       (if R = [] then caret_between L R l else if ln_modifier l = FBTK_MOD_CLEAR then caret_between (L @ [hd R]) (tl R) l
        else caret_between (L @ R) [] l)
     else if value = NSFB_KEY_LEFT then
       (if L = [] then caret_between L R l else if ln_modifier l = FBTK_MOD_CLEAR then caret_between (butlast L) (last L # R) l
        else caret_between [] (L @ R) l)
     else if value = NSFB_KEY_HOME then caret_between [] (L @ R) l
     else if value = NSFB_KEY_END then caret_between (L @ R) [] l
     else if value \<in> {NSFB_KEY_PAGEUP, NSFB_KEY_PAGEDOWN, NSFB_KEY_UP, NSFB_KEY_DOWN} then l
     else case modifier_bit value of
       Some b \<Rightarrow> l\<lparr>ln_modifier := ln_modifier l OR b\<rparr>
     | None \<Rightarrow>
         if control l then (if value = NSFB_KEY_u then caret_between [] [] l else l)
         else if ln_selected l then caret_between [typed_byte (ln_modifier l) value] [] l
         else caret_between (L @ [typed_byte (ln_modifier l) value]) R l)"

definition key_up :: "nsfb_key_code \<Rightarrow> line \<Rightarrow> line" where
  "key_up value l = (case modifier_bit value of None \<Rightarrow> l | Some b \<Rightarrow> l\<lparr>ln_modifier := ln_modifier l AND NOT b\<rparr>)"

section \<open>The buffer\<close>

lemma keymap_range: "x \<in> set keymap \<union> set sh_keymap \<Longrightarrow> x = - 1 \<or> 0 < x \<and> x < 256"
  unfolding keymap_def sh_keymap_def by simp (elim disjE; simp)

lemma typed_byte_range: "0 < typed_byte modifier value \<and> typed_byte modifier value < 256"
proof -
  have m: "keycode_in m value = - 1 \<or> 0 < keycode_in m value \<and> keycode_in m value < 256" if "m \<in> {keymap, sh_keymap}" for m
  proof (cases "0 \<le> value \<and> value < int (length m)")
    case True
    then have "nat value < length m" by linarith
    then have "m ! nat value \<in> set m" by (rule nth_mem)
    then have "m ! nat value = - 1 \<or> 0 < m ! nat value \<and> m ! nat value < 256" using that keymap_range by auto
    with True show ?thesis by (simp add: keycode_in_def)
  qed (auto simp: keycode_in_def)
  have "fbtk_keycode_to_ucs4 value modifier = - 1 \<or> 0 < fbtk_keycode_to_ucs4 value modifier \<and> fbtk_keycode_to_ucs4 value modifier < 256"
    unfolding fbtk_keycode_to_ucs4_def using m [of keymap] m [of sh_keymap] by (simp split: if_split)
  then show ?thesis by (auto simp: typed_byte_def)
qed

text \<open>The bytes in front of the caret, those behind it, and the terminating 0.\<close>

definition text_line :: "'cb fbtk_text \<Rightarrow> nat list \<Rightarrow> nat list \<Rightarrow> bool" where
  "text_line t L R \<longleftrightarrow> tx_idx t = int (length L) \<and> tx_len t = int (length L + length R) \<and> 0 \<notin> set (L @ R)
     \<and> (\<exists>rest. tx_text t = Some (L @ R @ 0 # rest))"

lemma text_bytes_line:
  assumes "text_line t L R"
  shows "text_bytes (tx_text t) (tx_len t) = Some (L @ R)" "text_bytes (tx_text t) (tx_idx t) = Some L"
proof -
  obtain rest where t: "tx_idx t = int (length L)" "tx_len t = int (length (L @ R))" "tx_text t = Some ((L @ R) @ 0 # rest)"
    using assms by (auto simp: text_line_def)
  have b: "text_bytes (Some (s @ rest)) (int (length s)) = Some s" for s rest unfolding text_bytes_def by (cases "s = []") simp_all
  show "text_bytes (tx_text t) (tx_len t) = Some (L @ R)" unfolding t(2,3) by (rule b)
  show "text_bytes (tx_text t) (tx_idx t) = Some L" unfolding t(1,3) append_assoc by (rule b)
qed

lemma c_string_line: "0 \<notin> set s \<Longrightarrow> c_string (s @ 0 # rest) = Some s"
proof -
  assume "0 \<notin> set s"
  then have "takeWhile (\<lambda>b. b \<noteq> 0) (s @ 0 # rest) = s @ takeWhile (\<lambda>b. b \<noteq> 0) (0 # rest)" by (intro takeWhile_append2) metis
  then show ?thesis by (simp add: c_string_def)
qed

lemma backspace_buffer:
  assumes "buf = L @ b # R @ 0 # rest"
  shows "\<exists>rest'. Option.bind (memmove (int (length L)) (int (length L) + 1) (int (length R)) buf) (poke (int (length L + length R)) 0)
    = Some (L @ R @ 0 # rest')"
proof -
  have d: "drop (nat (int (length L) + int (length R))) buf = drop (length R) (b # R @ 0 # rest)" unfolding assms by (simp add: nat_add_distrib)
  obtain c rest' where c: "drop (length R) (b # R @ 0 # rest) = c # rest'" by (cases "drop (length R) (b # R @ 0 # rest)") auto
  have n: "nat (int (length L) + 1) = Suc (length L)" by simp
  have "memmove (int (length L)) (int (length L) + 1) (int (length R)) buf = Some (L @ R @ c # rest')"
    unfolding memmove_def d c n by (simp add: assms)
  moreover have "nat (int (length L) + int (length R)) = length L + length R" by simp
  ultimately show ?thesis by (simp add: poke_def list_update_append)
qed

lemma insert_buffer:
  assumes "buf = resize junk (nat (int (length L + length R) + 2)) (L @ R @ 0 # rest)"
  shows "Option.bind (memmove (int (length L) + 1) (int (length L)) (int (length R)) buf) (\<lambda>buf.
      Option.bind (poke (int (length L)) c buf) (poke (int (length L + length R) + 1) 0)) = Some ((L @ [c]) @ R @ [0])"
proof -
  have len: "length buf = length (L @ R) + 2" unfolding assms by (simp add: resize_def nat_add_distrib)
  have pre: "take (length (L @ R)) buf = L @ R" unfolding assms
    by (rule nth_equalityI) (auto simp: resize_def nth_append nat_add_distrib)
  have "length d = 2 \<Longrightarrow> \<exists>x y. d = [x, y]" for d :: "nat list" by (auto simp: length_Suc_conv numeral_2_eq_2)
  moreover have "length (drop (length (L @ R)) buf) = 2" using len by simp
  ultimately obtain x y where "drop (length (L @ R)) buf = [x, y]" by blast
  then have "\<exists>x y. buf = (L @ R) @ [x, y]" using append_take_drop_id [of "length (L @ R)" buf] unfolding pre by metis
  then obtain x y where buf: "buf = L @ R @ [x, y]" by auto
  have n: "nat (int (length L) + 1) = Suc (length L)" "nat (int (length L) + 1 + int (length R)) = length L + length R + 1"
    "nat (int (length L) + int (length R) + 1) = length L + length R + 1" by simp_all
  obtain d where d: "take (Suc (length L)) buf = L @ [d]" unfolding buf by (cases R) auto
  have "memmove (int (length L) + 1) (int (length L)) (int (length R)) buf = Some (L @ d # R @ [y])"
    unfolding memmove_def n d by (simp add: buf)
  then show ?thesis by (simp add: poke_def list_update_append n)
qed

section \<open>What an edit leaves as it is\<close>

definition quiet_widget :: "bool \<Rightarrow> 'cb fbtk_widget \<Rightarrow> 'cb fbtk_widget" where
  "quiet_widget own r = r\<lparr>w_redraw := \<lparr>rd_child = False, rd_needed = False, rd_x = 0, rd_y = 0, rd_width = 0, rd_height = 0\<rparr>,
     w_u := (if own then U_zero else w_u r)\<rparr>"

text \<open>Only the text of the widget, requests to redraw, the caret, the allocator and the modifier change.\<close>

definition own_step :: "wid \<Rightarrow> ('cb, 'w) toolkit \<Rightarrow> ('cb, 'w) toolkit \<Rightarrow> bool" where
  "own_step w st st' \<longleftrightarrow> (\<forall>v. map_option (quiet_widget (v = w)) (widgets st' v) = map_option (quiet_widget (v = w)) (widgets st v))
     \<and> next_addr st' = next_addr st \<and> root_prev st' = root_prev st \<and> root_grabbed st' = root_grabbed st
     \<and> root_input st' = root_input st \<and> tk_nsfb st' = tk_nsfb st \<and> tk_cursor st' = tk_cursor st \<and> app st' = app st"

lemma own_step_refl [simp]: "own_step w st st"
  by (simp add: own_step_def)

lemma own_step_trans: "own_step w st st' \<Longrightarrow> own_step w st' st'' \<Longrightarrow> own_step w st st''"
  by (simp add: own_step_def)

lemma quiet_keeps:
  assumes "quiet_widget own q = quiet_widget own r"
  shows "links q = links r" "w_type q = w_type r" "w_height q = w_height r" "w_width q = w_width r" "w_fg q = w_fg r" "w_bg q = w_bg r"
    "\<not> own \<Longrightarrow> w_u q = w_u r"
proof -
  have "links (quiet_widget own x) = links x" "w_type (quiet_widget own x) = w_type x" "w_height (quiet_widget own x) = w_height x"
    "w_width (quiet_widget own x) = w_width x" "w_fg (quiet_widget own x) = w_fg x" "w_bg (quiet_widget own x) = w_bg x"
    "\<not> own \<Longrightarrow> w_u (quiet_widget own x) = w_u x" for x :: "'a fbtk_widget"
    by (simp_all add: quiet_widget_def links_def)
  note k = this
  show "links q = links r" "w_type q = w_type r" "w_height q = w_height r" "w_width q = w_width r" "w_fg q = w_fg r" "w_bg q = w_bg r"
    "\<not> own \<Longrightarrow> w_u q = w_u r" using assms by (metis k)+
qed

lemma quiet_links: "links (quiet_widget own r) = links r" and quiet_type: "w_type (quiet_widget own r) = w_type r"
  by (simp_all add: quiet_widget_def links_def)

lemma own_step_tree:
  assumes "own_step w st st'" "fbtk_tree st F"
  shows "fbtk_tree st' F"
proof -
  have q: "map_option (quiet_widget (v = w)) (widgets st' v) = map_option (quiet_widget (v = w)) (widgets st v)" for v
    using assms(1) by (simp add: own_step_def)
  have "map_option links (map_option (quiet_widget b) x) = map_option links x" for b and x :: "'a fbtk_widget option"
    by (cases x) (simp_all add: quiet_links)
  then have "map_option links (widgets st' v) = map_option links (widgets st v)" for v using arg_cong [OF q, of "map_option links" v] by simp
  then have r: "reps (widgets st') None None None F = reps (widgets st) None None None F" by (intro reps_cong) simp
  have "map_option w_type (map_option (quiet_widget b) x) = map_option w_type x" for b and x :: "'a fbtk_widget option"
    by (cases x) (simp_all add: quiet_type)
  then have "map_option w_type (widgets st' v) = map_option w_type (widgets st v)" for v using arg_cong [OF q, of "map_option w_type" v] by simp
  then have "w_type r = w_type q" if "widgets st' v = Some r" "widgets st v = Some q" for v r q using that by (metis option.simps(9) option.inject)
  moreover obtain q where "widgets st (root_id (hd F)) = Some q" using tree_alive [OF assms(2) tree_root_in [OF assms(2)]] by blast
  ultimately show ?thesis using assms r unfolding fbtk_tree_def own_step_def by metis
qed

lemma quiet_mark: "quiet_widget own (mark b c r) = quiet_widget own r"
  by (simp add: quiet_widget_def mark_def whole_redraw_def flag_child_def Let_def)

lemma marks_step: "marks N A (widgets st) s' \<Longrightarrow> own_step w st (st\<lparr>widgets := s'\<rparr>)"
  by (simp add: own_step_def marks_def option.map_comp comp_def quiet_mark)

text \<open>A text widget in the hierarchy; \<open>r\<close> gives what does not change of it.\<close>

definition caret_cb_ok :: "('a toolkit_cb, 'w) toolkit \<Rightarrow> bool" where
  "caret_cb_ok st \<longleftrightarrow> caret_remove_cb (root_caret st) = None \<or> caret_remove_cb (root_caret st) = Some Fb_text_input_remove_caret_cb"

definition text_at :: "wid \<Rightarrow> wtree list \<Rightarrow> 'a toolkit_cb fbtk_widget \<Rightarrow> 'a toolkit_cb fbtk_text \<Rightarrow> ('a toolkit_cb, 'w) toolkit \<Rightarrow> bool" where
  "text_at w F r t st \<longleftrightarrow> fbtk_tree st F \<and> w \<in> set (fids F) \<and> get_text st w = Some t
     \<and> map_option (quiet_widget True) (widgets st w) = Some (quiet_widget True r) \<and> caret_cb_ok st"

definition edits :: "wid \<Rightarrow> ('cb, 'w) toolkit \<Rightarrow> ('cb, 'w) toolkit \<Rightarrow> bool" where
  "edits w st st' \<longleftrightarrow> own_step w st st' \<and> tk_modifier st' = tk_modifier st \<and> (tk_heap st = [] \<longrightarrow> tk_heap st' = [])"

lemma edits_refl [simp]: "edits w st st"
  by (simp add: edits_def)

lemma edits_trans: "edits w st st' \<Longrightarrow> edits w st' st'' \<Longrightarrow> edits w st st''"
  by (auto simp: edits_def intro: own_step_trans)

lemma text_atE:
  assumes "text_at w F r t st"
  obtains q where "widgets st w = Some q" "widget_text q = Some t" "quiet_widget True q = quiet_widget True r" "fbtk_tree st F" "w \<in> set (fids F)"
  using assms by (auto simp: text_at_def get_text_def split: bind_splits)

lemma widget_text_u: "w_u q = w_u r \<Longrightarrow> widget_text q = widget_text r"
  by (simp add: widget_text_def)

lemma text_at_upd:
  assumes "text_at w F r t st"
  shows "\<exists>st'. upd_text w f st = Some st' \<and> text_at w F r (f t) st' \<and> edits w st st' \<and> root_caret st' = root_caret st"
proof -
  obtain q where q: "widgets st w = Some q" "widget_text q = Some t" "quiet_widget True q = quiet_widget True r" "fbtk_tree st F" "w \<in> set (fids F)"
    using assms by (rule text_atE)
  let ?q = "q\<lparr>w_u := U_text (f t)\<rparr>" let ?st = "st\<lparr>widgets := (widgets st)(w \<mapsto> ?q)\<rparr>"
  have "upd_text w f st = Some ?st" using q by (simp add: upd_text_def get_text_def upd_widget_def)
  moreover have k: "quiet_widget True ?q = quiet_widget True q" by (simp add: quiet_widget_def)
  then have s: "own_step w st ?st" using q(1) by (simp add: own_step_def)
  moreover have "text_at w F r (f t) ?st"
    using own_step_tree [OF s q(4)] q(3,5) k assms by (simp add: text_at_def get_text_def widget_text_def caret_cb_ok_def)
  ultimately show ?thesis by (auto simp: edits_def)
qed

lemma text_at_redraw:
  assumes "text_at w F r t st"
  shows "\<exists>st'. fbtk_request_redraw (Some w) st = Some st' \<and> text_at w F r t st' \<and> edits w st st' \<and> root_caret st' = root_caret st"
proof -
  obtain q where q: "widgets st w = Some q" "widget_text q = Some t" "quiet_widget True q = quiet_widget True r" "fbtk_tree st F" "w \<in> set (fids F)"
    using assms by (rule text_atE)
  obtain s' N A where s': "fbtk_request_redraw (Some w) st = Some (st\<lparr>widgets := s'\<rparr>)" "marks N A (widgets st) s'"
    using tree_request [OF q(4,5)] by metis
  have m: "s' w = Some (mark (w \<in> N) (w \<in> A) q)" by (rule marks_at [OF s'(2) q(1)])
  have "w_u (mark b c q) = w_u q" for b c by (simp add: mark_def whole_redraw_def flag_child_def Let_def)
  then have "widget_text (mark b c q) = Some t" for b c using widget_text_u q(2) by metis
  then have "text_at w F r t (st\<lparr>widgets := s'\<rparr>)"
    using marks_tree [OF s'(2) q(4)] q(3,5) m assms by (simp add: text_at_def get_text_def quiet_mark caret_cb_ok_def)
  then show ?thesis using s'(1) marks_step [OF s'(2)] by (auto simp: edits_def)
qed

section \<open>The caret and the measures\<close>

definition border_of :: "'cb fbtk_widget \<Rightarrow> 'cb fbtk_text \<Rightarrow> int" where
  "border_of r t = (if tx_outline t then 1 else 0) + cdiv (w_height r) 6"

definition style_of :: "'cb fbtk_widget \<Rightarrow> 'cb fbtk_text \<Rightarrow> plot_font_style" where
  "style_of r t = snd (snd (fb_text_font_style r t))"

lemma text_font_style: "fb_text_font_style r t = (w_height r - border_of r t - border_of r t, border_of r t, style_of r t)"
  by (simp add: fb_text_font_style_def border_of_def style_of_def Let_def)

lemma border_quiet: "quiet_widget True q = quiet_widget True r \<Longrightarrow> border_of q t = border_of r t"
  using quiet_keeps(3) [of True q r] by (simp add: border_of_def)

lemma style_quiet: "quiet_widget True q = quiet_widget True r \<Longrightarrow> style_of q t = style_of r t"
  using quiet_keeps [of True q r] by (simp add: style_of_def fb_text_font_style_def Let_def)

text \<open>The width of a text does not depend on the colours, and with fonts it is there.\<close>

definition colourless :: "plot_font_style \<Rightarrow> plot_font_style" where
  "colourless style = style\<lparr>st_background := 0, st_foreground := 0\<rparr>"

lemma width_colourless:
  assumes "fonts_ready env" "colourless style' = colourless style"
  shows "fb_font_width (te_fonts env) style' s = fb_font_width (te_fonts env) style s"
proof -
  have k: "selected_face (colourless x) = selected_face x" "fb_fill_scalar fn (colourless x) = fb_fill_scalar fn x" for x fn
    by (simp_all add: colourless_def selected_face_def fb_fill_scalar_def fun_eq_iff split: plot_font_generic_family.split)
  have "fb_getglyph fn style' c = fb_getglyph fn style c" for fn c
    unfolding fb_getglyph_def using k [where x = style'] k [where x = style] assms(2) by metis
  then have "char_advance fn style' ch = char_advance fn style ch" for fn ch by (simp add: char_advance_def glyph_of_def)
  then have "char_advance (te_fonts env) style' = char_advance (te_fonts env) style" by blast
  moreover obtain cs where "chars_of (fn_utf8 (te_fonts env)) s cs"
    using assms(1) chars_from_exist [of _ 0 s] by (auto simp: fonts_ready_def)
  ultimately show ?thesis using assms(1) font_width_sum [of "te_fonts env" _ s cs] by (simp add: fonts_ready_def)
qed

lemma width_some: "fonts_ready env \<Longrightarrow> \<exists>v. fb_font_width (te_fonts env) style s = Some v"
  using chars_from_exist [of "fn_utf8 (te_fonts env)" 0 s] font_width_sum [of "te_fonts env" style s] by (auto simp: fonts_ready_def)

definition width_of :: "text_env \<Rightarrow> 'cb fbtk_widget \<Rightarrow> 'cb fbtk_text \<Rightarrow> nat list \<Rightarrow> int" where
  "width_of env r t s = the (fb_font_width (te_fonts env) (style_of r t) s)"

lemma style_same: "tx_outline t' = tx_outline t \<Longrightarrow> colourless (style_of r t') = colourless (style_of r t)"
  by (simp add: style_of_def fb_text_font_style_def colourless_def Let_def)

lemma width_same: "fonts_ready env \<Longrightarrow> tx_outline t' = tx_outline t \<Longrightarrow> width_of env r t' s = width_of env r t s"
  unfolding width_of_def by (rule arg_cong [where f = the], rule width_colourless, assumption, rule style_same)

lemma width_eq: "fonts_ready env \<Longrightarrow> fb_font_width (te_fonts env) (style_of r t) s = Some (width_of env r t s)"
  using width_some [of env "style_of r t" s] by (auto simp: width_of_def)

lemma width_Nil: "width_of env r t [] = 0"
  unfolding width_of_def fb_font_width_def by (subst width_loop.simps) simp

text \<open>What the text widget says of its caret, and the caret where it says.\<close>

definition measured :: "text_env \<Rightarrow> 'cb fbtk_widget \<Rightarrow> 'cb fbtk_text \<Rightarrow> nat list \<Rightarrow> nat list \<Rightarrow> bool" where
  "measured env r t L R \<longleftrightarrow> text_line t L R \<and> tx_idx_offset t = width_of env r t L \<and> tx_width t = width_of env r t (L @ R)"

definition placed :: "wid \<Rightarrow> 'a toolkit_cb fbtk_widget \<Rightarrow> 'a toolkit_cb fbtk_text \<Rightarrow> 'a toolkit_cb fbtk_caret" where
  "placed w r t = \<lparr>caret_owner = Some w, caret_x = tx_idx_offset t + border_of r t, caret_y = border_of r t,
     caret_height = w_height r - border_of r t - border_of r t, caret_remove_cb = Some Fb_text_input_remove_caret_cb\<rparr>"

definition in_place :: "wid \<Rightarrow> 'a toolkit_cb fbtk_widget \<Rightarrow> 'a toolkit_cb fbtk_text \<Rightarrow> ('a toolkit_cb, 'w) toolkit \<Rightarrow> bool" where
  "in_place w r t st \<longleftrightarrow> (caret_owner (root_caret st) = Some w \<longrightarrow> root_caret st = placed w r t)"

lemma text_at_caret:
  assumes "text_at w F r t st"
  shows "\<exists>st'. text_caret (remove_handler cr) w (border_of r t) st = Some st' \<and> text_at w F r t st' \<and> edits w st st' \<and> root_caret st' = placed w r t"
proof -
  obtain q where q: "widgets st w = Some q" "widget_text q = Some t" "quiet_widget True q = quiet_widget True r" "fbtk_tree st F" "w \<in> set (fids F)"
    using assms by (rule text_atE)
  have root: "fbtk_get_root_widget st w = Some (root_id (hd F))" by (rule tree_root [OF q(4,5)])
  have "\<exists>st1. (case caret_remove_cb (root_caret st) of
         Some cb \<Rightarrow> if caret_owner (root_caret st) \<noteq> None then remove_handler cr cb w st else Some st
       | None \<Rightarrow> Some st) = Some st1 \<and> text_at w F r t st1 \<and> edits w st st1"
  proof (cases "caret_remove_cb (root_caret st) = None \<or> caret_owner (root_caret st) = None \<or> caret_owner (root_caret st) \<noteq> Some w")
    case True
    then show ?thesis using assms root by (auto simp: text_at_def caret_cb_ok_def fb_text_input_remove_caret_cb_def fbtk_get_caret_def Let_def)
  next
    case False
    then show ?thesis using assms root text_at_redraw [OF assms]
      by (auto simp: text_at_def caret_cb_ok_def fb_text_input_remove_caret_cb_def fbtk_get_caret_def Let_def)
  qed
  then obtain st1 where 1: "(case caret_remove_cb (root_caret st) of
         Some cb \<Rightarrow> if caret_owner (root_caret st) \<noteq> None then remove_handler cr cb w st else Some st
       | None \<Rightarrow> Some st) = Some st1" "text_at w F r t st1" "edits w st st1" by blast
  let ?st = "st1\<lparr>root_caret := placed w r t\<rparr>"
  have "text_caret (remove_handler cr) w (border_of r t) st = Some ?st"
    using q(1,2) root 1(1) quiet_keeps(3) [OF q(3)] by (simp add: text_caret_def fbtk_set_caret_def placed_def)
  moreover have "own_step w st1 ?st" by (simp add: own_step_def)
  moreover have "text_at w F r t ?st" using 1(2) own_step_tree [OF \<open>own_step w st1 ?st\<close>]
    by (simp add: text_at_def caret_cb_ok_def placed_def get_text_def)
  ultimately show ?thesis using 1(3) by (auto simp: edits_def intro: own_step_trans)
qed

lemma text_at_caret_if:
  assumes "text_at w F r t st"
  shows "\<exists>st'. (if caret_owner (root_caret st) = Some w then text_caret (remove_handler cr) w (border_of r t) st else Some st) = Some st'
    \<and> text_at w F r t st' \<and> edits w st st' \<and> in_place w r t st'"
proof (cases "caret_owner (root_caret st) = Some w")
  case True
  with text_at_caret [OF assms, of cr] show ?thesis by (auto simp: in_place_def)
qed (use assms in \<open>simp add: in_place_def\<close>)

lemma text_at_measure:
  assumes "text_at w F r t st" "fonts_ready env" "text_line t L R" "colourless style = colourless (style_of r t)"
  shows "\<exists>st'. measure_text env style w st = Some st' \<and> text_at w F r (t\<lparr>tx_width := width_of env r t (L @ R)\<rparr>) st' \<and> edits w st st'
    \<and> root_caret st' = root_caret st"
proof -
  have g: "get_text st w = Some t" using assms(1) by (simp add: text_at_def)
  have "fb_font_width (te_fonts env) style (L @ R) = Some (width_of env r t (L @ R))"
    using width_colourless [OF assms(2,4)] width_eq [OF assms(2)] by simp
  then show ?thesis using text_at_upd [OF assms(1), of "\<lambda>t. t\<lparr>tx_width := width_of env r t (L @ R)\<rparr>"] text_bytes_line(1) [OF assms(3)] g
    text_at_upd [OF assms(1), of "tx_width_update (\<lambda>_. width_of env r t (L @ R))"]
    by (simp add: measure_text_def)
qed

section \<open>The keys\<close>

text \<open>A writable text with its caret, as a line with a modifier and a selection.\<close>

definition line_state :: "text_env \<Rightarrow> wid \<Rightarrow> wtree list \<Rightarrow> 'a toolkit_cb fbtk_widget \<Rightarrow> bool \<Rightarrow> bool \<Rightarrow> line \<Rightarrow> ('a toolkit_cb, 'w) toolkit \<Rightarrow> bool" where
  "line_state env w F r outline placing l st \<longleftrightarrow> tk_modifier st = ln_modifier l \<and> tk_heap st = []
     \<and> (\<exists>t. text_at w F r t st \<and> text_line t (ln_left l) (ln_right l) \<and> tx_width t = width_of env r t (ln_left l @ ln_right l)
        \<and> tx_all_selected t = ln_selected l \<and> tx_outline t = outline
        \<and> (\<not> placing \<longrightarrow> tx_idx_offset t = width_of env r t (ln_left l) \<and> in_place w r t st))"

text \<open>
  Setting the text: the widget shows it, with the caret behind it; setting the text that is
  there already leaves the caret where it is.
\<close>

lemma text_at_set:
  assumes "text_at w F r t st" "fonts_ready env" "w_type r = FB_WIDGET_TYPE_TEXT" "tk_heap st = []" "0 \<notin> set s"
    and old: "tx_text t = None \<or> measured env r t L R \<and> in_place w r t st"
  shows "\<exists>st' t'. fbtk_set_text env (remove_handler cr) (Some w) s st = Some st' \<and> text_at w F r t' st' \<and> edits w st st'
    \<and> (if tx_text t \<noteq> None \<and> L @ R = s then measured env r t' L R else measured env r t' s [])
    \<and> in_place w r t' st' \<and> tx_outline t' = tx_outline t \<and> tx_all_selected t' = tx_all_selected t"
proof -
  obtain q where q: "widgets st w = Some q" "widget_text q = Some t" "quiet_widget True q = quiet_widget True r" "fbtk_tree st F" "w \<in> set (fids F)"
    using assms(1) by (rule text_atE)
  have type: "w_type q = FB_WIDGET_TYPE_TEXT" using quiet_keeps(2) [OF q(3)] assms(3) by simp
  have same: "(case tx_text t of None \<Rightarrow> Some False | Some buf \<Rightarrow> map_option (\<lambda>x. x = s) (c_string buf)) = Some (tx_text t \<noteq> None \<and> L @ R = s)"
  proof (cases "tx_text t = None")
    case False
    then obtain rest where rest: "tx_text t = Some ((L @ R) @ 0 # rest)" "0 \<notin> set (L @ R)" using old by (auto simp: measured_def text_line_def)
    then show ?thesis using c_string_line [OF rest(2), of rest] by simp
  qed simp
  show ?thesis
  proof (cases "tx_text t \<noteq> None \<and> L @ R = s")
    case True
    then have "fbtk_set_text env (remove_handler cr) (Some w) s st = Some st" using q type same by (simp add: fbtk_set_text_def)
    with True assms(1) old show ?thesis by (intro exI [of _ st] exI [of _ t]) auto
  next
    case False
    let ?f = "\<lambda>t. t\<lparr>tx_text := Some (s @ [0]), tx_len := int (length s), tx_idx := int (length s)\<rparr>"
    obtain st1 where 1: "upd_text w ?f st = Some st1" "text_at w F r (?f t) st1" "edits w st st1" "root_caret st1 = root_caret st"
      using text_at_upd [OF assms(1), of ?f] by blast
    let ?v = "width_of env r (?f t) s" let ?t = "?f t\<lparr>tx_width := ?v, tx_idx_offset := ?v\<rparr>"
    obtain st2 where 2: "upd_text w (\<lambda>t. t\<lparr>tx_width := ?v, tx_idx_offset := ?v\<rparr>) st1 = Some st2" "text_at w F r ?t st2" "edits w st1 st2"
        "root_caret st2 = root_caret st1"
      using text_at_upd [OF 1(2), of "\<lambda>t. t\<lparr>tx_width := ?v, tx_idx_offset := ?v\<rparr>"] by blast
    have g1: "get_text st1 w = Some (?f t)" using 1(2) by (simp add: text_at_def)
    have line: "text_line (?f t) s []" using assms(5) by (simp add: text_line_def)
    have tb: "text_bytes (Some (s @ [0])) (int (length s)) = Some s" using text_bytes_line(2) [OF line] by simp
    have root: "fbtk_get_root_widget st2 w = Some (root_id (hd F))" using 2(2) by (auto simp: text_at_def intro: tree_root)
    have b: "border_of q (?f t) = border_of r ?t" using border_quiet [OF q(3), of ?t] by (simp add: border_of_def)
    obtain st3 where 3: "(if caret_owner (root_caret st2) = Some w then text_caret (remove_handler cr) w (border_of q (?f t)) st2 else Some st2) = Some st3"
        "text_at w F r ?t st3" "edits w st2 st3" "in_place w r ?t st3"
      using text_at_caret_if [OF 2(2), of cr] unfolding b by blast
    obtain st4 where 4: "fbtk_request_redraw (Some w) st3 = Some st4" "text_at w F r ?t st4" "edits w st3 st4" "root_caret st4 = root_caret st3"
      using text_at_redraw [OF 3(2)] by blast
    have heap: "alloc (tk_heap st) = (True, [])" "st\<lparr>tk_heap := []\<rparr> = st" using assms(4) by simp_all
    have n: "fb_font_width (te_fonts env) (style_of q (?f t)) s = Some ?v"
      unfolding style_quiet [OF q(3)] by (rule width_eq [OF assms(2)])
    have "fbtk_set_text env (remove_handler cr) (Some w) s st = Some st4"
      using q(1,2) type same False heap 1(1) g1 2(1) root 3(1) 4(1)
      by (auto simp: fbtk_set_text_def text_font_style tb n fbtk_get_caret_def Let_def)
    moreover have "edits w st st4" using 1(3) 2(3) 3(3) 4(3) by (blast intro: edits_trans)
    moreover have "width_of env r ?t x = width_of env r (?f t) x" for x by (rule width_same [OF assms(2)]) simp
    then have "measured env r ?t s []" using line by (simp add: measured_def text_line_def)
    moreover have "in_place w r ?t st4" using 3(4) 4(4) by (simp add: in_place_def)
    ultimately show ?thesis unfolding if_not_P [OF False] using 4(2) by (intro exI [of _ st4] exI [of _ ?t]) simp
  qed
qed

lemma text_at_set_empty:
  assumes "text_at w F r t st" "fonts_ready env" "measured env r t L R" "in_place w r t st" "w_type r = FB_WIDGET_TYPE_TEXT" "tk_heap st = []"
  shows "\<exists>st' t'. fbtk_set_text env (remove_handler cr) (Some w) [] st = Some st' \<and> text_at w F r t' st' \<and> edits w st st' \<and> measured env r t' [] []
    \<and> in_place w r t' st' \<and> tx_outline t' = tx_outline t \<and> tx_all_selected t' = tx_all_selected t"
  using text_at_set [OF assms(1,2,5,6), of "[]" L R cr] assms(3,4) by (auto split: if_splits)

text \<open>A key has made \<open>l\<close> of the line; the caret may still have to be placed.\<close>

definition key_ok :: "text_env \<Rightarrow> wid \<Rightarrow> wtree list \<Rightarrow> 'a toolkit_cb fbtk_widget \<Rightarrow> bool \<Rightarrow> line \<Rightarrow> ('a toolkit_cb, 'w) toolkit \<Rightarrow>
    (bool \<times> ('a toolkit_cb, 'w) toolkit) option \<Rightarrow> bool" where
  "key_ok env w F r outline l st res \<longleftrightarrow> (\<exists>moved st'. res = Some (moved, st') \<and> line_state env w F r outline moved l st' \<and> own_step w st st')"

lemma line_stateE:
  assumes "line_state env w F r outline False l st"
  obtains t where "text_at w F r t st" "measured env r t (ln_left l) (ln_right l)" "in_place w r t st" "get_text st w = Some t"
    "tx_all_selected t = ln_selected l" "tx_outline t = outline" "tk_modifier st = ln_modifier l" "tk_heap st = []"
  using assms by (auto simp: line_state_def measured_def text_at_def)

lemma move_ok:
  assumes l: "line_state env w F r outline False l st" and "fonts_ready env"
    and same: "ln_left l @ ln_right l = L @ R"
    and to: "to (int (length (ln_left l))) (int (length (ln_left l) + length (ln_right l)))
      = (if length L = length (ln_left l) then None else Some (int (length L)))"
  shows "key_ok env w F r outline (caret_between L R l) st (key_move w to st)"
proof -
  obtain t where t: "text_at w F r t st" "measured env r t (ln_left l) (ln_right l)" "in_place w r t st" "get_text st w = Some t"
      "tx_all_selected t = ln_selected l" "tx_outline t = outline" "tk_modifier st = ln_modifier l" "tk_heap st = []"
    using l by (rule line_stateE)
  let ?f = "\<lambda>u. u\<lparr>tx_idx := (case to (tx_idx t) (tx_len t) of None \<Rightarrow> tx_idx u | Some i \<Rightarrow> i), tx_all_selected := False\<rparr>"
  obtain st' where st': "upd_text w ?f st = Some st'" "text_at w F r (?f t) st'" "edits w st st'" "root_caret st' = root_caret st"
    using text_at_upd [OF t(1), of ?f] by blast
  have idx: "tx_idx t = int (length (ln_left l))" "tx_len t = int (length (ln_left l) + length (ln_right l))"
    using t(2) by (auto simp: measured_def text_line_def)
  have i: "(case to (tx_idx t) (tx_len t) of None \<Rightarrow> tx_idx t | Some i \<Rightarrow> i) = int (length L)" unfolding idx to by simp
  have len: "length L + length R = length (ln_left l) + length (ln_right l)" using arg_cong [OF same, of length] by simp
  obtain rest where rest: "tx_text t = Some ((ln_left l @ ln_right l) @ 0 # rest)" "0 \<notin> set (ln_left l @ ln_right l)"
    using t(2) by (auto simp: measured_def text_line_def)
  have line: "text_line (?f t) L R" unfolding i using rest idx(2) len unfolding same by (simp add: text_line_def)
  have "\<not> (length L \<noteq> length (ln_left l)) \<Longrightarrow> L = ln_left l" using same by (simp add: append_eq_append_conv)
  moreover have w: "width_of env r (?f t) u = width_of env r t u" for u by (rule width_same [OF assms(2)]) simp
  moreover have "placed w r (?f t) = placed w r t" by (simp add: placed_def border_of_def)
  ultimately have "line_state env w F r outline (length L \<noteq> length (ln_left l)) (caret_between L R l) st'"
    using st'(2-4) t line same unfolding line_state_def caret_between_def
    by (intro conjI exI [of _ "?f t"]) (auto simp: edits_def measured_def in_place_def)
  moreover have "key_move w to st = Some (to (tx_idx t) (tx_len t) \<noteq> None, st')"
    unfolding key_move_def t(4) Let_def bind.bind_lunit st'(1) by simp
  then have "key_move w to st = Some (length L \<noteq> length (ln_left l), st')" unfolding idx to by simp
  ultimately show ?thesis using st'(3) by (auto simp: key_ok_def edits_def)
qed

lemma clear_ok:
  assumes l: "line_state env w F r outline False l st"
  shows "key_ok env w F r outline (caret_between [] [] l) st (key_clear w st)"
proof -
  obtain t where t: "text_at w F r t st" "measured env r t (ln_left l) (ln_right l)" "in_place w r t st" "get_text st w = Some t"
      "tx_all_selected t = ln_selected l" "tx_outline t = outline" "tk_modifier st = ln_modifier l" "tk_heap st = []"
    using l by (rule line_stateE)
  obtain rest where rest: "tx_text t = Some ((ln_left l @ ln_right l) @ 0 # rest)" using t(2) by (auto simp: measured_def text_line_def)
  obtain b rest' where b: "(ln_left l @ ln_right l) @ 0 # rest = b # rest'" by (cases "(ln_left l @ ln_right l) @ 0 # rest") auto
  let ?f = "\<lambda>u. u\<lparr>tx_idx := 0, tx_len := 0, tx_text := Some (0 # rest'), tx_width := 0, tx_all_selected := False\<rparr>"
  obtain st' where st': "upd_text w ?f st = Some st'" "text_at w F r (?f t) st'" "edits w st st'" "root_caret st' = root_caret st"
    using text_at_upd [OF t(1), of ?f] by blast
  have "line_state env w F r outline True (caret_between [] [] l) st'"
    using st'(2,3) t unfolding line_state_def caret_between_def
    by (intro conjI exI [of _ "?f t"]) (auto simp: edits_def text_line_def width_Nil)
  moreover have "key_clear w st = Some (True, st')" using st'(1) t(4) rest unfolding b by (simp add: key_clear_def poke_def)
  ultimately show ?thesis using st'(3) by (auto simp: key_ok_def edits_def)
qed

text \<open>Writing the buffer and measuring it again.\<close>

lemma rewrite_ok:
  assumes t: "text_at w F r t st" and "fonts_ready env" "tx_outline t = outline" "tk_modifier st = ln_modifier l" "tk_heap st = []"
    "tx_all_selected t = False" "colourless style = colourless (style_of r t)" "0 \<notin> set (L @ R)" "buf = L @ R @ 0 # rest"
    "i = int (length L)" "n = int (length L + length R)"
  shows "key_ok env w F r outline (caret_between L R l) st
    (do { st \<leftarrow> upd_text w (\<lambda>u. u\<lparr>tx_text := Some buf, tx_idx := i, tx_len := n\<rparr>) st;
          st \<leftarrow> measure_text env style w st; Some (True, st) })"
proof -
  let ?f = "\<lambda>u. u\<lparr>tx_text := Some buf, tx_idx := i, tx_len := n\<rparr>"
  obtain st1 where 1: "upd_text w ?f st = Some st1" "text_at w F r (?f t) st1" "edits w st st1" "root_caret st1 = root_caret st"
    using text_at_upd [OF t, of ?f] by blast
  have line: "text_line (?f t) L R" using assms(8-11) by (simp add: text_line_def)
  have s: "colourless style = colourless (style_of r (?f t))" using assms(7) style_same [of "?f t" t r] by simp
  let ?t = "?f t\<lparr>tx_width := width_of env r (?f t) (L @ R)\<rparr>"
  obtain st2 where 2: "measure_text env style w st1 = Some st2" "text_at w F r ?t st2" "edits w st1 st2" "root_caret st2 = root_caret st1"
    using text_at_measure [OF 1(2) assms(2) line s] by blast
  have "width_of env r ?t (L @ R) = width_of env r (?f t) (L @ R)" by (rule width_same [OF assms(2)]) simp
  then have "line_state env w F r outline True (caret_between L R l) st2"
    using 2(2,3) 1(3) assms(3-6) line unfolding line_state_def caret_between_def
    by (intro conjI exI [of _ ?t]) (auto simp: edits_def text_line_def)
  then show ?thesis using 1 2 by (auto simp: key_ok_def edits_def intro: own_step_trans)
qed

lemma upd_text_cong: "get_text st w = Some t \<Longrightarrow> f t = g t \<Longrightarrow> upd_text w f st = upd_text w g st"
  by (auto simp: upd_text_def get_text_def upd_widget_def split: bind_splits option.splits)

lemma caret_between_same: "\<not> ln_selected l \<Longrightarrow> caret_between (ln_left l) (ln_right l) l = l"
  by (simp add: caret_between_def)

lemma key_ok_same: "line_state env w F r outline False l st \<Longrightarrow> key_ok env w F r outline l st (Some (False, st))"
  unfolding key_ok_def by (intro exI [of _ False] exI [of _ st]) simp

lemma deselect_ok:
  assumes "text_at w F r t st" "fonts_ready env" "measured env r t L R" "in_place w r t st" "tx_outline t = outline"
    "tk_modifier st = ln_modifier l" "tk_heap st = []"
  shows "\<exists>st'. upd_text w (\<lambda>t. t\<lparr>tx_all_selected := False\<rparr>) st = Some st' \<and> line_state env w F r outline False (caret_between L R l) st' \<and> edits w st st'"
proof -
  let ?f = "\<lambda>t. t\<lparr>tx_all_selected := False\<rparr>"
  obtain st' where st': "upd_text w ?f st = Some st'" "text_at w F r (?f t) st'" "edits w st st'" "root_caret st' = root_caret st"
    using text_at_upd [OF assms(1), of ?f] by blast
  have w: "width_of env r (?f t) u = width_of env r t u" for u by (rule width_same [OF assms(2)]) simp
  have "line_state env w F r outline False (caret_between L R l) st'"
    using st'(2-4) assms(3-7) w unfolding line_state_def caret_between_def
    by (intro conjI exI [of _ "?f t"]) (auto simp: edits_def measured_def text_line_def in_place_def placed_def border_of_def)
  with st' show ?thesis by blast
qed

lemma backspace_ok:
  assumes l: "line_state env w F r outline False l st" and "fonts_ready env" "w_type r = FB_WIDGET_TYPE_TEXT"
    and "get_text st w = Some u" "colourless style = colourless (style_of r u)"
  shows "key_ok env w F r outline (key_down NSFB_KEY_BACKSPACE l) st (key_backspace env (remove_handler cr) style w st)"
proof -
  obtain t where t: "text_at w F r t st" "measured env r t (ln_left l) (ln_right l)" "in_place w r t st" "get_text st w = Some t"
      "tx_all_selected t = ln_selected l" "tx_outline t = outline" "tk_modifier st = ln_modifier l" "tk_heap st = []"
    using l by (rule line_stateE)
  have u: "u = t" using t(4) assms(4) by simp
  consider "ln_selected l" | "\<not> ln_selected l" "ln_left l = []" | L0 b where "\<not> ln_selected l" "ln_left l = L0 @ [b]"
    by (cases "ln_left l" rule: rev_cases) auto
  then show ?thesis
  proof cases
    case 1
    obtain st1 t1 where 1: "fbtk_set_text env (remove_handler cr) (Some w) [] st = Some st1" "text_at w F r t1 st1" "edits w st st1"
        "measured env r t1 [] []" "in_place w r t1 st1" "tx_outline t1 = tx_outline t"
      using text_at_set_empty [OF t(1) assms(2) t(2,3) assms(3) t(8)] by blast
    have "tk_modifier st1 = ln_modifier l" "tk_heap st1 = []" using 1(3) t(7,8) by (simp_all add: edits_def)
    then obtain st2 where "upd_text w (\<lambda>t. t\<lparr>tx_all_selected := False\<rparr>) st1 = Some st2"
        "line_state env w F r outline False (caret_between [] [] l) st2" "edits w st1 st2"
      using deselect_ok [OF 1(2) assms(2) 1(4,5), of outline l] 1(6) t(6) by auto
    then show ?thesis using 1 t(4,5) \<open>ln_selected l\<close>
      by (auto simp: key_backspace_def key_down_def Let_def key_ok_def edits_def intro: own_step_trans)
  next
    case 2
    then have "key_backspace env (remove_handler cr) style w st = Some (False, st)"
      using t(2,4,5) by (auto simp: key_backspace_def measured_def text_line_def)
    then show ?thesis using key_ok_same [OF l] caret_between_same [of l] 2 by (simp add: key_down_def Let_def)
  next
    case 3
    let ?R = "ln_right l"
    obtain rest where rest: "tx_text t = Some (L0 @ b # ?R @ 0 # rest)" "0 \<notin> set (L0 @ ?R)"
        "tx_idx t = int (length L0) + 1" "tx_len t = int (length L0 + length ?R) + 1"
      using t(2) 3(2) by (auto simp: measured_def text_line_def)
    obtain buf rest' where m: "memmove (int (length L0)) (int (length L0) + 1) (int (length ?R)) (L0 @ b # ?R @ 0 # rest) = Some buf"
        "poke (int (length L0 + length ?R)) 0 buf = Some (L0 @ ?R @ 0 # rest')"
      using backspace_buffer [of _ L0 b ?R rest, OF refl] by (auto split: bind_splits)
    let ?f = "\<lambda>u. u\<lparr>tx_text := Some (L0 @ ?R @ 0 # rest'), tx_idx := int (length L0), tx_len := int (length L0 + length ?R)\<rparr>"
    have "upd_text w (\<lambda>t. t\<lparr>tx_text := Some (L0 @ ?R @ 0 # rest'), tx_idx := tx_idx t - 1, tx_len := tx_len t - 1\<rparr>) st = upd_text w ?f st"
      using rest by (intro upd_text_cong [OF t(4)]) simp
    moreover have a: "tx_idx t - 1 = int (length L0)" "tx_len t - tx_idx t = int (length ?R)" "tx_len t - 1 = int (length L0 + length ?R)"
      using rest by simp_all
    moreover have "key_backspace env (remove_handler cr) style w st =
        do { buf \<leftarrow> memmove (tx_idx t - 1) (tx_idx t) (tx_len t - tx_idx t) (L0 @ b # ?R @ 0 # rest);
             buf \<leftarrow> poke (tx_len t - 1) 0 buf;
             st \<leftarrow> upd_text w (\<lambda>t. t\<lparr>tx_text := Some buf, tx_idx := tx_idx t - 1, tx_len := tx_len t - 1\<rparr>) st;
             st \<leftarrow> measure_text env style w st; Some (True, st) }"
      using t(4,5) 3(1) rest(1,3) by (simp add: key_backspace_def)
    ultimately have "key_backspace env (remove_handler cr) style w st =
        do { st \<leftarrow> upd_text w ?f st; st \<leftarrow> measure_text env style w st; Some (True, st) }"
      unfolding a rest(3) m bind.bind_lunit by (simp only: m bind.bind_lunit)
    then show ?thesis
      using rewrite_ok [OF t(1) assms(2) t(6,7,8) _ assms(5) [unfolded u] rest(2) refl refl refl, of rest'] t(5) 3 by (simp add: key_down_def Let_def)
  qed
qed

lemma insert_plain_ok:
  assumes l: "line_state env w F r outline False l st" and "fonts_ready env" "\<not> ln_selected l"
    and style: "\<And>t. tx_outline t = outline \<Longrightarrow> colourless style = colourless (style_of r t)"
  shows "key_ok env w F r outline (caret_between (ln_left l @ [typed_byte (ln_modifier l) value]) (ln_right l) l) st
    (key_insert env (remove_handler cr) style w value st)"
proof -
  obtain t where t: "text_at w F r t st" "measured env r t (ln_left l) (ln_right l)" "in_place w r t st" "get_text st w = Some t"
      "tx_all_selected t = ln_selected l" "tx_outline t = outline" "tk_modifier st = ln_modifier l" "tk_heap st = []"
    using l by (rule line_stateE)
  let ?L = "ln_left l" let ?R = "ln_right l" let ?c = "typed_byte (ln_modifier l) value"
  obtain rest where rest: "tx_text t = Some (?L @ ?R @ 0 # rest)" "0 \<notin> set (?L @ ?R)" "tx_idx t = int (length ?L)" "tx_len t = int (length ?L + length ?R)"
    using t(2) by (auto simp: measured_def text_line_def)
  have a: "int (length ?L + length ?R) - int (length ?L) = int (length ?R)" by simp
  define buf where "buf = resize (te_junk env) (nat (int (length ?L + length ?R) + 2)) (?L @ ?R @ 0 # rest)"
  have c: "nat (fbtk_keycode_to_ucs4 value (tk_modifier st) mod 256) = ?c" by (simp add: typed_byte_def t(7))
  obtain buf1 buf2 where m: "memmove (int (length ?L) + 1) (int (length ?L)) (int (length ?R)) buf = Some buf1" "poke (int (length ?L)) ?c buf1 = Some buf2"
      "poke (int (length ?L + length ?R) + 1) 0 buf2 = Some ((?L @ [?c]) @ ?R @ [0])"
    using insert_buffer [OF buf_def, of ?c] by (auto split: bind_splits)
  let ?g = "\<lambda>t. t\<lparr>tx_text := Some ((?L @ [?c]) @ ?R @ [0]), tx_idx := tx_idx t + 1, tx_len := tx_len t + 1\<rparr>"
  let ?f = "\<lambda>u. u\<lparr>tx_text := Some ((?L @ [?c]) @ ?R @ [0]), tx_idx := int (length (?L @ [?c])), tx_len := int (length (?L @ [?c]) + length ?R)\<rparr>"
  have g: "upd_text w ?g st = upd_text w ?f st" using rest by (intro upd_text_cong [OF t(4)]) simp
  have h: "alloc (tk_heap st) = (True, [])" "st\<lparr>tk_heap := []\<rparr> = st" using t(8) by simp_all
  have "key_insert env (remove_handler cr) style w value st = do {
       let buf = resize (te_junk env) (nat (tx_len t + 2)) (?L @ ?R @ 0 # rest);
       buf \<leftarrow> memmove (tx_idx t + 1) (tx_idx t) (tx_len t - tx_idx t) buf;
       buf \<leftarrow> poke (tx_idx t) (nat (fbtk_keycode_to_ucs4 value (tk_modifier st) mod 256)) buf;
       buf \<leftarrow> poke (tx_len t + 1) 0 buf;
       st \<leftarrow> upd_text w (\<lambda>t. t\<lparr>tx_text := Some buf, tx_idx := tx_idx t + 1, tx_len := tx_len t + 1\<rparr>) st;
       st \<leftarrow> measure_text env style w st;
       Some (True, st) }"
    using t(4,5) assms(3) rest(1) h by (simp add: key_insert_def Let_def)
  also have "\<dots> = do { st \<leftarrow> upd_text w ?f st; st \<leftarrow> measure_text env style w st; Some (True, st) }"
    unfolding c rest(3,4) a buf_def [symmetric] Let_def m(1) bind.bind_lunit by (simp only: m bind.bind_lunit g)
  finally have k: "key_insert env (remove_handler cr) style w value st =
    do { st \<leftarrow> upd_text w ?f st; st \<leftarrow> measure_text env style w st; Some (True, st) }" .
  have z: "0 \<notin> set ((?L @ [?c]) @ ?R)" using rest(2) typed_byte_range [of "ln_modifier l" "value"] by auto
  show ?thesis unfolding k
    by (rule rewrite_ok [where L = "?L @ [?c]" and R = ?R and rest = "[]", OF t(1) assms(2) t(6,7,8) _ style z refl refl refl])
      (use t(5,6) assms(3) in simp_all)
qed

lemma insert_ok:
  assumes l: "line_state env w F r outline False l st" and "fonts_ready env" "w_type r = FB_WIDGET_TYPE_TEXT"
    and style: "\<And>t. tx_outline t = outline \<Longrightarrow> colourless style = colourless (style_of r t)"
  shows "key_ok env w F r outline
    (if ln_selected l then caret_between [typed_byte (ln_modifier l) value] [] l
     else caret_between (ln_left l @ [typed_byte (ln_modifier l) value]) (ln_right l) l)
    st (key_insert env (remove_handler cr) style w value st)"
proof (cases "ln_selected l")
  case False
  then show ?thesis using insert_plain_ok [OF l assms(2) False style] by simp
next
  case True
  obtain t where t: "text_at w F r t st" "measured env r t (ln_left l) (ln_right l)" "in_place w r t st" "get_text st w = Some t"
      "tx_all_selected t = ln_selected l" "tx_outline t = outline" "tk_modifier st = ln_modifier l" "tk_heap st = []"
    using l by (rule line_stateE)
  obtain st1 t1 where 1: "fbtk_set_text env (remove_handler cr) (Some w) [] st = Some st1" "text_at w F r t1 st1" "edits w st st1"
      "measured env r t1 [] []" "in_place w r t1 st1" "tx_outline t1 = tx_outline t"
    using text_at_set_empty [OF t(1) assms(2) t(2,3) assms(3) t(8)] by blast
  have "tk_modifier st1 = ln_modifier l" "tk_heap st1 = []" using 1(3) t(7,8) by (simp_all add: edits_def)
  then obtain st2 where 2: "upd_text w (\<lambda>t. t\<lparr>tx_all_selected := False\<rparr>) st1 = Some st2"
      "line_state env w F r outline False (caret_between [] [] l) st2" "edits w st1 st2"
    using deselect_ok [OF 1(2) assms(2) 1(4,5), of outline l] 1(6) t(6) by auto
  obtain t2 where t2: "get_text st2 w = Some t2" "\<not> tx_all_selected t2" using 2(2) by (auto simp: caret_between_def elim!: line_stateE)
  have "key_insert env (remove_handler cr) style w value st = key_insert env (remove_handler cr) style w value st2"
    using t(4,5) True 1(1) 2(1) t2 by (simp add: key_insert_def)
  moreover have "key_ok env w F r outline (caret_between [typed_byte (ln_modifier l) value] [] l) st2 (key_insert env (remove_handler cr) style w value st2)"
    using insert_plain_ok [OF 2(2) assms(2) _ style, of "value" cr] by (simp add: caret_between_def)
  moreover have "own_step w st st2" using 1(3) 2(3) own_step_trans by (auto simp: edits_def)
  ultimately show ?thesis using True own_step_trans by (auto simp: key_ok_def)
qed

lemma text_at_modifier [simp]: "text_at w F r t (st\<lparr>tk_modifier := m\<rparr>) = text_at w F r t st"
  by (simp add: text_at_def fbtk_tree_def get_text_def caret_cb_ok_def)

lemma line_state_modifier:
  "line_state env w F r outline placing l st \<Longrightarrow> line_state env w F r outline placing (l\<lparr>ln_modifier := m\<rparr>) (st\<lparr>tk_modifier := m\<rparr>)"
  by (simp add: line_state_def in_place_def)

lemma own_step_modifier: "own_step w st (st\<lparr>tk_modifier := m\<rparr>)"
  by (simp add: own_step_def)

lemma text_key_ok:
  assumes l: "line_state env w F r outline False l st" and fonts: "fonts_ready env" and type: "w_type r = FB_WIDGET_TYPE_TEXT"
    and style: "\<And>t. tx_outline t = outline \<Longrightarrow> colourless style = colourless (style_of r t)" and "value \<noteq> NSFB_KEY_RETURN"
  shows "key_ok env w F r outline (key_down value l) st (text_key env enter (remove_handler cr) style w value st)"
proof -
  obtain t where t: "get_text st w = Some t" "tx_outline t = outline" "tk_modifier st = ln_modifier l" using l by (rule line_stateE)
  let ?L = "ln_left l" let ?R = "ln_right l"
  note move = move_ok [OF l fonts]
  have right: "key_ok env w F r outline (key_down NSFB_KEY_RIGHT l) st (key_move w (go_right (tk_modifier st)) st)"
    unfolding t(3) key_down_def Let_def by (cases "?R = []"; cases "ln_modifier l = 0") (auto simp: go_right_def intro!: move)
  have left: "key_ok env w F r outline (key_down NSFB_KEY_LEFT l) st (key_move w (go_left (tk_modifier st)) st)"
    unfolding t(3) key_down_def Let_def by (cases "?L" rule: rev_cases; cases "ln_modifier l = 0") (auto simp: go_left_def intro!: move)
  have home: "key_ok env w F r outline (key_down NSFB_KEY_HOME l) st (key_move w go_home st)"
    unfolding key_down_def Let_def by (auto simp: go_home_def intro!: move)
  have end': "key_ok env w F r outline (key_down NSFB_KEY_END l) st (key_move w go_end st)"
    unfolding key_down_def Let_def by (auto simp: go_end_def intro!: move)
  have modifier: "key_ok env w F r outline (l\<lparr>ln_modifier := m\<rparr>) st (Some (False, st\<lparr>tk_modifier := m\<rparr>))" for m
    unfolding key_ok_def using line_state_modifier [OF l, of m] own_step_modifier by blast
  consider "value = NSFB_KEY_BACKSPACE" | "value = NSFB_KEY_RIGHT" | "value = NSFB_KEY_LEFT" | "value = NSFB_KEY_HOME" | "value = NSFB_KEY_END"
    | "value \<in> {NSFB_KEY_PAGEUP, NSFB_KEY_PAGEDOWN, NSFB_KEY_UP, NSFB_KEY_DOWN}"
    | "value \<notin> {NSFB_KEY_BACKSPACE, NSFB_KEY_RETURN, NSFB_KEY_RIGHT, NSFB_KEY_LEFT, NSFB_KEY_HOME, NSFB_KEY_END, NSFB_KEY_PAGEUP, NSFB_KEY_PAGEDOWN, NSFB_KEY_UP, NSFB_KEY_DOWN}"
    using assms(5) by blast
  then show ?thesis
  proof cases
    case 1
    then show ?thesis using backspace_ok [OF l fonts type t(1) style [OF t(2)]] by (simp add: text_key_def)
  next
    case 2
    then show ?thesis using right by (simp add: text_key_def)
  next
    case 3
    then show ?thesis using left by (simp add: text_key_def)
  next
    case 4
    then show ?thesis using home by (simp add: text_key_def)
  next
    case 5
    then show ?thesis using end' by (simp add: text_key_def)
  next
    case 6
    then have "text_key env enter (remove_handler cr) style w value st = Some (False, st)" "key_down value l = l"
      by (auto simp: text_key_def key_down_def Let_def)
    then show ?thesis using key_ok_same [OF l] by simp
  next
    case 7
    then have k: "text_key env enter (remove_handler cr) style w value st = (case modifier_bit value of
        Some b \<Rightarrow> Some (False, st\<lparr>tk_modifier := tk_modifier st OR b\<rparr>)
      | None \<Rightarrow> if tk_modifier st AND FBTK_MOD_LCTRL \<noteq> 0 \<or> tk_modifier st AND FBTK_MOD_RCTRL \<noteq> 0 then
            (if value = NSFB_KEY_u then key_clear w st else Some (False, st))
          else key_insert env (remove_handler cr) style w value st)"
      and d: "key_down value l = (case modifier_bit value of
        Some b \<Rightarrow> l\<lparr>ln_modifier := ln_modifier l OR b\<rparr>
      | None \<Rightarrow> if control l then (if value = NSFB_KEY_u then caret_between [] [] l else l)
         else if ln_selected l then caret_between [typed_byte (ln_modifier l) value] [] l
         else caret_between (ln_left l @ [typed_byte (ln_modifier l) value]) (ln_right l) l)"
      by (simp_all add: text_key_def key_down_def Let_def)
    show ?thesis unfolding k d t(3)
      using modifier clear_ok [OF l] key_ok_same [OF l] insert_ok [OF l fonts type style, of "value" cr]
      by (cases "modifier_bit value") (auto simp: control_def)
  qed
qed

section \<open>Events\<close>

definition key_event :: "nsfb_event \<Rightarrow> line \<Rightarrow> line" where
  "key_event event = (case event of NSFB_EVENT_KEY_DOWN value \<Rightarrow> key_down value | NSFB_EVENT_KEY_UP value \<Rightarrow> key_up value | _ \<Rightarrow> id)"

definition is_edit :: "nsfb_event \<Rightarrow> bool" where
  "is_edit event = (case event of NSFB_EVENT_KEY_DOWN value \<Rightarrow> value \<noteq> NSFB_KEY_RETURN | NSFB_EVENT_KEY_UP value \<Rightarrow> True | _ \<Rightarrow> False)"

lemma place_ok:
  assumes "line_state env w F r outline jumped l st" "fonts_ready env" "colourless style = colourless (style_of r u)" "tx_outline u = outline"
  shows "\<exists>st'. do { st \<leftarrow> (if jumped then do {
             t \<leftarrow> get_text st w;
             s \<leftarrow> text_bytes (tx_text t) (tx_idx t);
             idx_offset \<leftarrow> fb_font_width (te_fonts env) style s;
             st \<leftarrow> upd_text w (\<lambda>t. t\<lparr>tx_idx_offset := idx_offset\<rparr>) st;
             text_caret (remove_handler cr) w (border_of r u) st }
           else Some st);
         st \<leftarrow> fbtk_request_redraw (Some w) st;
         Some (0::int, st) } = Some (0, st') \<and> line_state env w F r outline False l st' \<and> own_step w st st'"
proof -
  obtain t where t: "text_at w F r t st" "text_line t (ln_left l) (ln_right l)" "tx_width t = width_of env r t (ln_left l @ ln_right l)"
      "tx_all_selected t = ln_selected l" "tx_outline t = outline" "\<not> jumped \<Longrightarrow> tx_idx_offset t = width_of env r t (ln_left l) \<and> in_place w r t st"
      "tk_modifier st = ln_modifier l" "tk_heap st = []"
    using assms(1) by (auto simp: line_state_def)
  have g: "get_text st w = Some t" using t(1) by (simp add: text_at_def)
  let ?t = "t\<lparr>tx_idx_offset := width_of env r t (ln_left l)\<rparr>"
  have w: "width_of env r ?t x = width_of env r t x" for x by (rule width_same [OF assms(2)]) simp
  have b: "border_of r u = border_of r ?t" using t(5) assms(4) by (simp add: border_of_def)
  have "fb_font_width (te_fonts env) style (ln_left l) = Some (width_of env r t (ln_left l))"
    using width_colourless [OF assms(2), of style "style_of r t"] assms(3,4) style_same [of t u r] t(5) width_eq [OF assms(2)] by simp
  then have x: "(if jumped then do {
             t \<leftarrow> get_text st w;
             s \<leftarrow> text_bytes (tx_text t) (tx_idx t);
             idx_offset \<leftarrow> fb_font_width (te_fonts env) style s;
             st \<leftarrow> upd_text w (\<lambda>t. t\<lparr>tx_idx_offset := idx_offset\<rparr>) st;
             text_caret (remove_handler cr) w (border_of r u) st } else Some st)
       = (if jumped then do { st \<leftarrow> upd_text w (\<lambda>t. t\<lparr>tx_idx_offset := width_of env r ?t (ln_left l)\<rparr>) st;
             text_caret (remove_handler cr) w (border_of r ?t) st } else Some st)"
    using g text_bytes_line(2) [OF t(2)] by (simp add: b w)
  have "\<exists>st1. (if jumped then do { st \<leftarrow> upd_text w (\<lambda>t. t\<lparr>tx_idx_offset := width_of env r ?t (ln_left l)\<rparr>) st;
             text_caret (remove_handler cr) w (border_of r ?t) st } else Some st) = Some st1 \<and> text_at w F r ?t st1 \<and> edits w st st1 \<and> in_place w r ?t st1"
  proof (cases jumped)
    case True
    obtain st1 where 1: "upd_text w (\<lambda>t. t\<lparr>tx_idx_offset := width_of env r ?t (ln_left l)\<rparr>) st = Some st1" "text_at w F r ?t st1" "edits w st st1"
      using text_at_upd [OF t(1), of "\<lambda>t. t\<lparr>tx_idx_offset := width_of env r ?t (ln_left l)\<rparr>"] unfolding w by blast
    then show ?thesis using text_at_caret [OF 1(2), of cr] True by (auto simp: in_place_def intro: edits_trans)
  next
    case False
    then have eq: "?t = t" using t(6) by simp
    show ?thesis unfolding eq using t(1,6) False by simp
  qed
  then obtain st1 where 1: "(if jumped then do { st \<leftarrow> upd_text w (\<lambda>t. t\<lparr>tx_idx_offset := width_of env r ?t (ln_left l)\<rparr>) st;
             text_caret (remove_handler cr) w (border_of r ?t) st } else Some st) = Some st1" "text_at w F r ?t st1" "edits w st st1" "in_place w r ?t st1"
    by blast
  obtain st2 where 2: "fbtk_request_redraw (Some w) st1 = Some st2" "text_at w F r ?t st2" "edits w st1 st2" "root_caret st2 = root_caret st1"
    using text_at_redraw [OF 1(2)] by blast
  have e: "edits w st st2" using 1(3) 2(3) by (rule edits_trans)
  have "line_state env w F r outline False l st2"
    using 2(2,4) 1(4) t w e unfolding line_state_def by (intro conjI exI [of _ ?t]) (auto simp: edits_def text_line_def in_place_def)
  then show ?thesis unfolding x 1(1) using 2(1) e by (simp add: edits_def)
qed

lemma input_event_ok:
  assumes l: "line_state env w F r outline False l st" and fonts: "fonts_ready env" and type: "w_type r = FB_WIDGET_TYPE_TEXT"
    and event: "is_edit event" "cbi_event cbi = Some event"
  shows "\<exists>st'. text_input env enter (remove_handler cr) w cbi st = Some (0, st') \<and> line_state env w F r outline False (key_event event l) st'
    \<and> own_step w st st'"
proof -
  obtain t where t: "text_at w F r t st" "get_text st w = Some t" "tx_outline t = outline" "tk_modifier st = ln_modifier l" using l by (rule line_stateE)
  obtain q where q: "widgets st w = Some q" "widget_text q = Some t" "quiet_widget True q = quiet_widget True r" using t(1) by (rule text_atE)
  have b: "border_of q t = border_of r t" "style_of q t = style_of r t" by (rule border_quiet [OF q(3)], rule style_quiet [OF q(3)])
  consider v where "event = NSFB_EVENT_KEY_DOWN v" "v \<noteq> NSFB_KEY_RETURN" | v where "event = NSFB_EVENT_KEY_UP v"
    using event(1) by (auto simp: is_edit_def split: nsfb_event.splits)
  then show ?thesis
  proof cases
    case 1
    have style: "colourless (style_of r t) = colourless (style_of r u)" if "tx_outline u = outline" for u
      by (rule style_same) (use that t(3) in simp)
    obtain jumped st1 where k: "text_key env enter (remove_handler cr) (style_of r t) w v st = Some (jumped, st1)"
        "line_state env w F r outline jumped (key_down v l) st1" "own_step w st st1"
      using text_key_ok [OF l fonts type style 1(2), of enter cr] by (auto simp: key_ok_def)
    note p = place_ok [OF k(2) fonts refl t(3), of cr]
    have "text_input env enter (remove_handler cr) w cbi st = do { st \<leftarrow> (if jumped then do {
             u \<leftarrow> get_text st1 w;
             s \<leftarrow> text_bytes (tx_text u) (tx_idx u);
             idx_offset \<leftarrow> fb_font_width (te_fonts env) (style_of r t) s;
             st \<leftarrow> upd_text w (\<lambda>t. t\<lparr>tx_idx_offset := idx_offset\<rparr>) st1;
             text_caret (remove_handler cr) w (border_of r t) st }
           else Some st1);
         st \<leftarrow> fbtk_request_redraw (Some w) st;
         Some (0, st) }"
      using q(1,2) event(2) 1(1) k(1) by (simp add: text_input_def text_font_style b)
    then show ?thesis using p k(3) 1(1) own_step_trans by (auto simp: key_event_def)
  next
    case 2
    then show ?thesis
      using q(1,2) event(2) l line_state_modifier [OF l] own_step_modifier t(4)
      by (cases "modifier_bit v") (auto simp: text_input_def text_font_style key_event_def key_up_def)
  qed
qed

fun text_events ::
  "text_env \<Rightarrow> ('a, 'w) enter_rtn \<Rightarrow> ('a toolkit_cb \<Rightarrow> wid \<Rightarrow> ('a toolkit_cb, 'w) toolkit \<Rightarrow> ('a toolkit_cb, 'w) toolkit option) \<Rightarrow> wid \<Rightarrow>
   nsfb_event list \<Rightarrow> ('a toolkit_cb, 'w) toolkit \<Rightarrow> ('a toolkit_cb, 'w) toolkit option" where
  "text_events env enter remove w [] st = Some st"
| "text_events env enter remove w (event # events) st = do {
     (ret, st) \<leftarrow> text_input env enter remove w (callback_info FBTK_CBT_INPUT (Some event) None None) st;
     text_events env enter remove w events st }"

section \<open>Properties\<close>


text \<open>An example: a writable text in a window, that shows ab with the caret at its end.\<close>

definition example_line :: "unit toolkit_cb fbtk_text" where
  "example_line = \<lparr>tx_text = Some [97, 98, 0], tx_outline = False, tx_all_selected = False, tx_enter = None, tx_idx = 2, tx_len = 2,
     tx_width = 20, tx_idx_offset = 20\<rparr>"

definition text_widget :: "unit toolkit_cb fbtk_text \<Rightarrow> unit toolkit_cb fbtk_widget" where
  "text_widget t = zero_widget\<lparr>w_type := FB_WIDGET_TYPE_TEXT, w_parent := Some 0, w_width := 100, w_height := 20, w_mapped := True, w_u := U_text t\<rparr>"

definition text_toolkit :: "unit toolkit_cb fbtk_text \<Rightarrow> unit panel_toolkit" where
  "text_toolkit t = \<lparr>widgets = [0 \<mapsto> zero_widget\<lparr>w_type := FB_WIDGET_TYPE_ROOT, w_mapped := True, w_first_child := Some 1, w_last_child := Some 1\<rparr>,
       1 \<mapsto> text_widget t], next_addr = 2, root_prev = None, root_grabbed = None, root_input = Some 1,
     root_caret = \<lparr>caret_owner = Some 1, caret_x = 23, caret_y = 3, caret_height = 14, caret_remove_cb = Some Fb_text_input_remove_caret_cb\<rparr>,
     tk_nsfb = \<lparr>nsfb_width = 100, nsfb_height = 80, nsfb_format = NSFB_FMT_RGB565, nsfb_bpp = 16, nsfb_ptr = 0, nsfb_linelen = 200,
       nsfb_palette = None, nsfb_clip = \<lparr>x0 = 0, y0 = 0, x1 = 100, y1 = 80\<rparr>, nsfb_plotter_fns = Some Plotters_16bpp,
       nsfb_orientation = 0, nsfb_phys_width = 100, nsfb_phys_height = 80, nsfb_phys_linelen = 200, nsfb_vram = (\<lambda>_. 0)\<rparr>,
     tk_cursor = None, tk_heap = [], tk_modifier = 0, app = fb_example\<rparr>"

definition example_env :: text_env where
  "example_env = \<lparr>te_fonts = example_fonts, te_junk = (\<lambda>_. 0)\<rparr>"

lemma example_env_ready: "fonts_ready example_env"
proof -
  have "style_ok example_fonts style" for style
    using selected_face_slot [of style] by (auto simp: style_ok_def example_fonts_def nth_replicate)
  then show ?thesis by (simp add: fonts_ready_def example_env_def example_fonts_def ascii_utf8_ok)
qed

lemma example_width:
  assumes "list_all (\<lambda>c. c \<noteq> 1) s"
  shows "width_of example_env r t s = 10 * int (length s)"
proof -
  have g: "glyph_of example_fonts style c = (if c = 1 then None else Some \<lparr>gl_advance_x = 655360, gl_bitmap = None\<rparr>)" for style c
  proof -
    have "nat c = 1 \<longleftrightarrow> c = 1" by auto
    then show ?thesis using selected_face_slot [of style]
      by (auto simp: glyph_of_def fb_getglyph_def example_fonts_def example_freetype_def nth_replicate)
  qed
  have n: "utf8_next (fn_utf8 example_fonts) u pos = (if pos < length u then Some (pos + 1) else None)" for u pos
    by (simp add: utf8_next_def example_fonts_def ascii_utf8_def)
  have c: "utf8_to_ucs4 (fn_utf8 example_fonts) (drop pos u) = int (u ! pos)" if "pos < length u" for u pos
    using that by (simp add: utf8_to_ucs4_def example_fonts_def ascii_utf8_def flip: Cons_nth_drop_Suc)
  obtain cs where cs: "chars_of (fn_utf8 example_fonts) s cs"
    using chars_from_exist [OF ascii_utf8_ok, of 0 s] by (auto simp: example_fonts_def)
  have "chars_from (fn_utf8 example_fonts) s pos cs \<Longrightarrow> pos \<le> length s \<Longrightarrow> text_width example_fonts style cs = 10 * int (length s - pos)" for style pos cs
  proof (induction cs arbitrary: pos)
    case (Cons ch cs)
    obtain p k where ch: "ch = (p, k)" by force
    have p: "pos < length s" "k = int (s ! pos)" "chars_from (fn_utf8 example_fonts) s (pos + 1) cs"
      using Cons.prems c [of pos s] by (auto simp: ch n split: if_splits)
    moreover have "s ! pos \<noteq> 1" using assms p(1) by (simp add: list_all_length)
    ultimately show ?case using Cons.IH [OF p(3)] by (simp add: ch char_advance_def g advance_px_def drop_bit_eq_div)
  qed simp
  from this [OF cs] have "fb_font_width example_fonts style s = Some (10 * int (length s))" for style
    using font_width_sum [OF _ cs, of style] example_env_ready by (simp add: fonts_ready_def example_env_def)
  then show ?thesis by (simp add: width_of_def example_env_def)
qed

lemma example_text_at:
  "text_at 1 [Node 0 [Node 1 []]] (text_widget t) t (text_toolkit t)"
  by (simp add: text_at_def fbtk_tree_def text_toolkit_def text_widget_def zero_widget_def links_def get_text_def widget_text_def caret_cb_ok_def)

lemma example_line_state:
  "line_state example_env 1 [Node 0 [Node 1 []]] (text_widget example_line) False False
     \<lparr>ln_modifier = 0, ln_selected = False, ln_left = [97, 98], ln_right = []\<rparr> (text_toolkit example_line)"
proof -
  have "text_line example_line [97, 98] []" "tx_width example_line = 20" "tx_idx_offset example_line = 20" "\<not> tx_all_selected example_line"
      "\<not> tx_outline example_line" "tk_modifier (text_toolkit t) = 0" "tk_heap (text_toolkit t) = []" for t
    by (simp_all add: example_line_def text_line_def text_toolkit_def)
  moreover have "in_place 1 (text_widget example_line) example_line (text_toolkit example_line)"
    by (simp add: in_place_def placed_def border_of_def example_line_def text_toolkit_def text_widget_def zero_widget_def cdiv_def)
  moreover have "width_of example_env (text_widget example_line) example_line [97, 98] = 20" by (simp add: example_width)
  ultimately show ?thesis unfolding line_state_def using example_text_at [of example_line]
    by (intro conjI exI [of _ example_line]) simp_all
qed


text \<open>
  Setting the text of a widget that has none yet, or that shows a line: the handler
  returns, and the widget is a line that shows exactly this string, measured, with the caret
  at its end; if the string is the one that is shown already, the caret stays where it is.
\<close>

theorem fbtk_set_text_line:
  assumes "text_at w F r t st" "fonts_ready env" "w_type r = FB_WIDGET_TYPE_TEXT" "tk_heap st = []" "0 \<notin> set s"
    and "tx_text t = None \<or> measured env r t L R \<and> in_place w r t st"
  shows "\<exists>st'. fbtk_set_text env (remove_handler cr) (Some w) s st = Some st' \<and> own_step w st st'
    \<and> (let (L', R') = (if tx_text t \<noteq> None \<and> L @ R = s then (L, R) else (s, [])) in
       line_state env w F r (tx_outline t) False
         \<lparr>ln_modifier = tk_modifier st, ln_selected = tx_all_selected t, ln_left = L', ln_right = R'\<rparr> st')"
proof -
  obtain st' t' where t': "fbtk_set_text env (remove_handler cr) (Some w) s st = Some st'" "text_at w F r t' st'" "edits w st st'"
      "if tx_text t \<noteq> None \<and> L @ R = s then measured env r t' L R else measured env r t' s []"
      "in_place w r t' st'" "tx_outline t' = tx_outline t" "tx_all_selected t' = tx_all_selected t"
    using text_at_set [OF assms, of cr] by blast
  have "line_state env w F r (tx_outline t) False \<lparr>ln_modifier = tk_modifier st, ln_selected = tx_all_selected t, ln_left = L', ln_right = R'\<rparr> st'"
    if "measured env r t' L' R'" for L' R'
    using that t' assms(4) unfolding line_state_def by (intro conjI exI [of _ t']) (auto simp: edits_def measured_def)
  with t' show ?thesis by (auto simp: edits_def split: if_splits)
qed

lemma fbtk_set_text_line_witness:
  "\<exists>st t. fbtk_set_text example_env (remove_handler (\<lambda>_ _ _. None)) (Some 1) [120, 121] (text_toolkit zero_text) = Some st
    \<and> get_text st 1 = Some t \<and> text_line t [120, 121] [] \<and> tx_width t = 20"
proof -
  have t: "w_type (text_widget zero_text) = FB_WIDGET_TYPE_TEXT" "tk_heap (text_toolkit zero_text) = []" "0 \<notin> set [120, 121 :: nat]"
      "tx_text (zero_text :: unit toolkit_cb fbtk_text) = None"
    by (simp_all add: text_widget_def zero_widget_def text_toolkit_def zero_text_def)
  obtain st where "fbtk_set_text example_env (remove_handler (\<lambda>_ _ _. None)) (Some 1) [120, 121] (text_toolkit zero_text) = Some st"
      "line_state example_env 1 [Node 0 [Node 1 []]] (text_widget zero_text) (tx_outline (zero_text :: unit toolkit_cb fbtk_text)) False
        \<lparr>ln_modifier = tk_modifier (text_toolkit zero_text), ln_selected = tx_all_selected (zero_text :: unit toolkit_cb fbtk_text), ln_left = [120, 121], ln_right = []\<rparr> st"
    using fbtk_set_text_line [OF example_text_at example_env_ready t(1-3) disjI1 [OF t(4)], of "\<lambda>_ _ _. None" "[]" "[]"] t(4) by auto
  then show ?thesis by (auto simp: line_state_def text_at_def example_width)
qed

text \<open>
  Control and U in a writable text that has never been set: the handler writes through
  the NULL pointer of its string, whatever the state of the rest of the toolkit.  No event
  without a key, which would allocate the string, is ever posted.
\<close>

theorem text_input_clear_unset:
  assumes "widgets st w = Some r" "widget_text r = Some t" "tx_text t = None"
    and "tk_modifier st AND FBTK_MOD_LCTRL \<noteq> 0 \<or> tk_modifier st AND FBTK_MOD_RCTRL \<noteq> 0"
    and "cbi_event cbi = Some (NSFB_EVENT_KEY_DOWN NSFB_KEY_u)"
  shows "text_input env enter remove w cbi st = None"
  using assms by (auto simp: text_input_def text_font_style text_key_def key_clear_def get_text_def modifier_bit_def)

lemma text_input_clear_unset_witness:
  "text_input example_env (\<lambda>_ _ _. None) (remove_handler (\<lambda>_ _ _. None)) 1 (callback_info FBTK_CBT_INPUT (Some (NSFB_EVENT_KEY_DOWN NSFB_KEY_u)) None None)
     ((text_toolkit zero_text)\<lparr>tk_modifier := 4\<rparr>) = None"
  by (rule text_input_clear_unset [of _ _ "text_widget zero_text" zero_text])
    (simp_all add: text_toolkit_def text_widget_def zero_widget_def widget_text_def zero_text_def callback_info_def)

end
