(* ===== verification/Fbtk_Scroll_Spec.thy ===== *)
theory Fbtk_Scroll_Spec
  imports Fbtk_Text_Spec
begin

text \<open>
  What the scroll bars promise to a client that sets the position it is told: the buttons
  count up and down between the ends, and the bar follows the pointer that drags it.
\<close>

section \<open>A scroll bar and its client\<close>

definition scroll_at :: "wid \<Rightarrow> wtree list \<Rightarrow> fbtk_callback_type \<Rightarrow> 'a \<Rightarrow> fbtk_scroll \<Rightarrow> ('a toolkit_cb, 'w) toolkit \<Rightarrow> bool" where
  "scroll_at w F cbt c s st \<longleftrightarrow> fbtk_tree st F \<and> w \<in> set (fids F)
     \<and> (\<exists>r. widgets st w = Some r \<and> is_scroll r \<and> w_mapped r \<and> scroll_of r = Some s \<and> w_callback r cbt = Some (Client c))"

text \<open>A client that sets the position it is told.\<close>

definition sets_position :: "'a toolkit_client \<Rightarrow> 'a \<Rightarrow> bool" where
  "sets_position client c \<longleftrightarrow> (\<forall>w p st.
     on_callback client c w (callback_info FBTK_CBT_SCROLLY None None (Some p)) st
       = map_option (\<lambda>(ok, st). (0, st)) (fbtk_set_scroll_position (Some w) p st)
   \<and> on_callback client c w (callback_info FBTK_CBT_SCROLLX None (Some p) None) st
       = map_option (\<lambda>(ok, st). (0, st)) (fbtk_set_scroll_position (Some w) p st))"

lemma quiet_more:
  assumes "quiet_widget own q = quiet_widget own r"
  shows "w_mapped q = w_mapped r" "w_callback q = w_callback r"
proof -
  have "w_mapped (quiet_widget own x) = w_mapped x" "w_callback (quiet_widget own x) = w_callback x" for x :: "'a fbtk_widget"
    by (simp_all add: quiet_widget_def)
  note k = this
  show "w_mapped q = w_mapped r" "w_callback q = w_callback r" using assms by (metis k)+
qed

lemma set_position_ok:
  assumes "scroll_at w F cbt c s st" "sc_minimum s \<le> p" "p \<le> sc_maximum s"
  shows "\<exists>st'. fbtk_set_scroll_position (Some w) p st = Some (True, st') \<and> scroll_at w F cbt c (s\<lparr>sc_position := p\<rparr>) st' \<and> own_step w st st'"
proof -
  obtain r where r: "widgets st w = Some r" "is_scroll r" "w_mapped r" "scroll_of r = Some s" "w_callback r cbt = Some (Client c)"
      "fbtk_tree st F" "w \<in> set (fids F)"
    using assms(1) by (auto simp: scroll_at_def)
  let ?r = "r\<lparr>w_u := U_scroll (s\<lparr>sc_position := p\<rparr>)\<rparr>" let ?st = "st\<lparr>widgets := (widgets st)(w \<mapsto> ?r)\<rparr>"
  have 1: "own_step w st ?st" using r(1) by (simp add: own_step_def quiet_widget_def)
  obtain s' N A where s': "fbtk_request_redraw (Some w) ?st = Some (?st\<lparr>widgets := s'\<rparr>)" "marks N A (widgets ?st) s'"
    using tree_request [OF own_step_tree [OF 1 r(6)] r(7)] by metis
  have 2: "own_step w ?st (?st\<lparr>widgets := s'\<rparr>)" by (rule marks_step [OF s'(2)])
  have m: "s' w = Some (mark (w \<in> N) (w \<in> A) ?r)" using marks_at [OF s'(2), of w ?r] by simp
  have "w_u (mark a b ?r) = U_scroll (s\<lparr>sc_position := p\<rparr>)" for a b by (simp add: mark_def whole_redraw_def flag_child_def Let_def)
  then have "scroll_at w F cbt c (s\<lparr>sc_position := p\<rparr>) (?st\<lparr>widgets := s'\<rparr>)"
    using m r own_step_tree [OF 2 own_step_tree [OF 1 r(6)]] by (auto simp: scroll_at_def scroll_of_def)
  moreover have "fbtk_set_scroll_position (Some w) p st = Some (True, ?st\<lparr>widgets := s'\<rparr>)"
    using r(1,2,4) assms(2,3) s'(1) by (simp add: fbtk_set_scroll_position_def upd_scroll_def get_scroll_def upd_widget_def)
  ultimately show ?thesis using own_step_trans [OF 1 2] by blast
qed

lemma post_scroll_ok:
  assumes "scroll_at w F cbt c s st" "sets_position client c" "sc_minimum s \<le> p" "p \<le> sc_maximum s" "cbt = FBTK_CBT_SCROLLX \<or> cbt = FBTK_CBT_SCROLLY"
  shows "\<exists>st'. post_scroll (toolkit_handler client) w cbt p st = Some (0, st') \<and> scroll_at w F cbt c (s\<lparr>sc_position := p\<rparr>) st' \<and> own_step w st st'"
proof -
  have h: "toolkit_handler client (Client c) w info st = on_callback client c w info st" for info st
    by (subst toolkit_handler_widget) (simp_all add: posts_def)
  show ?thesis using set_position_ok [OF assms(1,3,4)] assms(1,2,5)
    by (auto simp: post_scroll_def fbtk_post_callback_def scroll_at_def h sets_position_def)
qed

section \<open>The buttons\<close>

text \<open>What pressing a button does to the position.\<close>

definition scroll_press :: "bool \<Rightarrow> fbtk_scroll \<Rightarrow> fbtk_scroll" where
  "scroll_press up s = s\<lparr>sc_position := (if up then max (sc_minimum s) (sc_position s - sc_page s)
     else min (sc_maximum s - sc_thumb s) (sc_position s + sc_page s))\<rparr>"

definition button_callback :: "fbtk_callback_type \<Rightarrow> wid \<Rightarrow> bool \<Rightarrow> 'a toolkit_cb" where
  "button_callback cbt w up = (if cbt = FBTK_CBT_SCROLLX then (if up then Hscrolll_click w else Hscrollr_click w)
     else (if up then Vscrollu_click w else Vscrolld_click w))"

text \<open>The presses of the two buttons, one after the other, each with the event of a press.\<close>

fun press_buttons :: "'a toolkit_client \<Rightarrow> fbtk_callback_type \<Rightarrow> wid \<Rightarrow> wid \<times> wid \<Rightarrow> (bool \<times> nsfb_key_code) list \<Rightarrow> 'a panel_toolkit \<Rightarrow> 'a panel_toolkit option" where
  "press_buttons client cbt w buttons [] st = Some st"
| "press_buttons client cbt w buttons ((up, key) # presses) st = do {
     (ret, st) \<leftarrow> toolkit_handler client (button_callback cbt w up) (if up then fst buttons else snd buttons)
       (callback_info FBTK_CBT_CLICK (Some (NSFB_EVENT_KEY_DOWN key)) None None) st;
     press_buttons client cbt w buttons presses st }"

definition scroll_sane :: "fbtk_scroll \<Rightarrow> bool" where
  "scroll_sane s \<longleftrightarrow> 0 \<le> sc_thumb s \<and> 0 \<le> sc_page s \<and> sc_minimum s \<le> sc_position s \<and> sc_position s \<le> sc_maximum s - sc_thumb s"

lemma scroll_press_sane: "scroll_sane s \<Longrightarrow> scroll_sane (scroll_press up s)"
  by (auto simp: scroll_sane_def scroll_press_def)

lemma press_ok:
  assumes "scroll_at w F cbt c s st" "sets_position client c" "scroll_sane s" "cbt = FBTK_CBT_SCROLLX \<or> cbt = FBTK_CBT_SCROLLY"
    and info: "cbi_event info = Some (NSFB_EVENT_KEY_DOWN key)"
  shows "\<exists>st'. toolkit_handler client (button_callback cbt w up) v info st = Some (0, st') \<and> scroll_at w F cbt c (scroll_press up s) st' \<and> own_step w st st'"
proof -
  have g: "get_scroll st w = Some s" using assms(1) by (auto simp: scroll_at_def get_scroll_def)
  have k: "is_key_down info = Some True" by (simp add: is_key_down_def info)
  let ?p = "sc_position (scroll_press up s)"
  have p: "?p = (if up then clamp_low (sc_minimum s) (sc_position s - sc_page s) else clamp_high (sc_maximum s - sc_thumb s) (sc_position s + sc_page s))"
    by (simp add: scroll_press_def clamp_low_def clamp_high_def)
  have "posts (button_callback cbt w up :: 'a toolkit_cb)" by (simp add: button_callback_def posts_def)
  then have h: "toolkit_handler client (button_callback cbt w up) v info st
      = (if ?p = sc_position s then Some (0, st) else post_scroll (toolkit_handler client) w cbt ?p st)"
    using assms(4) g k unfolding p
    by (auto simp: toolkit_handler_scroll button_callback_def vscrollu_click_def vscrolld_click_def hscrolll_click_def hscrollr_click_def)
  have s: "s\<lparr>sc_position := ?p\<rparr> = scroll_press up s" by (simp add: scroll_press_def)
  have r: "sc_minimum s \<le> ?p" "?p \<le> sc_maximum s" using scroll_press_sane [OF assms(3), of up] by (auto simp: scroll_sane_def scroll_press_def)
  show ?thesis
  proof (cases "?p = sc_position s")
    case True
    then have "scroll_press up s = s" using s by simp
    with h True assms(1) show ?thesis by simp
  next
    case False
    with h post_scroll_ok [OF assms(1,2) r assms(4)] s show ?thesis by simp
  qed
qed

text \<open>
  C12.  The buttons of a scroll bar, vertical or horizontal, whose client sets the position it
  is told: whatever sequence of presses, no callback fails, and the position is what counting
  up and down by a page gives, held between the minimum and the maximum less the thumb.
\<close>

theorem scroll_buttons_count:
  assumes "scroll_at w F cbt c s st" "sets_position client c" "scroll_sane s" "cbt = FBTK_CBT_SCROLLX \<or> cbt = FBTK_CBT_SCROLLY"
  shows "\<exists>st'. press_buttons client cbt w buttons presses st = Some st' \<and> scroll_at w F cbt c (fold scroll_press (map fst presses) s) st'
    \<and> scroll_sane (fold scroll_press (map fst presses) s) \<and> own_step w st st'"
  using assms(1,3)
proof (induction presses arbitrary: s st)
  case (Cons press presses)
  obtain up key where press: "press = (up, key)" by force
  obtain st1 where 1: "toolkit_handler client (button_callback cbt w up) (if up then fst buttons else snd buttons)
       (callback_info FBTK_CBT_CLICK (Some (NSFB_EVENT_KEY_DOWN key)) None None) st = Some (0, st1)"
      "scroll_at w F cbt c (scroll_press up s) st1" "own_step w st st1"
    using press_ok [OF Cons.prems(1) assms(2) Cons.prems(2) assms(4), of "callback_info FBTK_CBT_CLICK (Some (NSFB_EVENT_KEY_DOWN key)) None None" key up]
    by (fastforce simp: callback_info_def)
  obtain st2 where "press_buttons client cbt w buttons presses st1 = Some st2" "scroll_at w F cbt c (fold scroll_press (map fst presses) (scroll_press up s)) st2"
      "scroll_sane (fold scroll_press (map fst presses) (scroll_press up s))" "own_step w st1 st2"
    using Cons.IH [OF 1(2) scroll_press_sane [OF Cons.prems(2)]] by blast
  then show ?case using 1 own_step_trans by (auto simp: press)
qed simp

section \<open>Dragging\<close>

lemma tree_upd:
  assumes "fbtk_tree st F" "widgets st w = Some r" "links r' = links r" "w_type r' = w_type r"
  shows "fbtk_tree (st\<lparr>widgets := (widgets st)(w \<mapsto> r')\<rparr>) F"
proof -
  have "reps ((widgets st)(w \<mapsto> r')) None None None F = reps (widgets st) None None None F"
    by (rule reps_cong) (use assms(2,3) in simp)
  then show ?thesis using assms by (auto simp: fbtk_tree_def)
qed

lemma grab_result:
  assumes "fbtk_get_root_widget st w = Some v"
  shows "\<exists>b g. fbtk_tgrab_pointer w st = Some (b, st\<lparr>root_grabbed := g\<rparr>)"
proof -
  have "st = st\<lparr>root_grabbed := root_grabbed st\<rparr>" by simp
  then have "\<exists>g. st = st\<lparr>root_grabbed := g\<rparr>" by blast
  then show ?thesis using assms by (auto simp: fbtk_tgrab_pointer_def)
qed

text \<open>Pressing a mouse button on the bar.\<close>

lemma drag_starts:
  assumes "scroll_at w F FBTK_CBT_SCROLLY c s st" "widgets st w = Some r" "scroll_bar (w_height r) s = Some (bar, vpos)"
    and "vpos \<le> ya" "ya \<le> vpos + bar" "key \<noteq> 404" "key \<noteq> 405"
  shows "\<exists>st1 r1. toolkit_handler client (Vscrollarea_click w) w (callback_info FBTK_CBT_CLICK (Some (NSFB_EVENT_KEY_DOWN key)) x (Some ya)) st = Some (0, st1)
    \<and> scroll_at w F FBTK_CBT_SCROLLY c (s\<lparr>sc_drag := ya, sc_drag_position := vpos\<rparr>) st1 \<and> widgets st1 w = Some r1 \<and> w_height r1 = w_height r
    \<and> w_callback r1 FBTK_CBT_POINTERMOVE = Some (Vscroll_drag w)"
proof -
  let ?s = "s\<lparr>sc_drag := ya, sc_drag_position := vpos\<rparr>"
  have r: "is_scroll r" "w_mapped r" "scroll_of r = Some s" "w_callback r FBTK_CBT_SCROLLY = Some (Client c)" "fbtk_tree st F" "w \<in> set (fids F)"
    using assms(1,2) by (auto simp: scroll_at_def)
  let ?r = "r\<lparr>w_u := U_scroll ?s, w_callback := (w_callback r)(FBTK_CBT_POINTERMOVE \<mapsto> Vscroll_drag w)\<rparr>"
  let ?st = "st\<lparr>widgets := (widgets st)(w \<mapsto> ?r)\<rparr>"
  have t: "fbtk_tree ?st F" by (rule tree_upd [OF r(5) assms(2)]) (simp_all add: links_def)
  obtain g b where g: "fbtk_tgrab_pointer w ?st = Some (b, ?st\<lparr>root_grabbed := g\<rparr>)" using grab_result [OF tree_root [OF t r(6)]] by blast
  have "start_drag (Vscroll_drag w) w ya vpos st = Some (0, ?st\<lparr>root_grabbed := g\<rparr>)"
    using assms(2) r(3) g
    by (simp add: start_drag_def upd_scroll_def get_scroll_def upd_widget_def fbtk_set_handler_def callback_in_range_def)
  then have "toolkit_handler client (Vscrollarea_click w) w (callback_info FBTK_CBT_CLICK (Some (NSFB_EVENT_KEY_DOWN key)) x (Some ya)) st
      = Some (0, ?st\<lparr>root_grabbed := g\<rparr>)"
    using assms(2-7) r(3) by (simp add: toolkit_handler_scroll posts_def vscrollarea_click_def callback_info_def)
  moreover have "scroll_at w F FBTK_CBT_SCROLLY c ?s (?st\<lparr>root_grabbed := g\<rparr>)"
    using t r by (simp add: scroll_at_def scroll_of_def fbtk_tree_def)
  ultimately show ?thesis by (intro exI [of _ "?st\<lparr>root_grabbed := g\<rparr>"] exI [of _ ?r]) simp
qed

text \<open>The position a drag to \<open>t\<close> asks for, and the one that is set: small changes are not.\<close>

definition drag_target :: "int \<Rightarrow> int \<Rightarrow> fbtk_scroll \<Rightarrow> int" where
  "drag_target extent t s = min (sc_maximum s - sc_thumb s) (t * sc_maximum s div extent)"

definition dragged :: "int \<Rightarrow> int \<Rightarrow> fbtk_scroll \<Rightarrow> int" where
  "dragged extent t s = (let p = drag_target extent t s in
     if p \<noteq> 0 \<and> p \<noteq> sc_maximum s - sc_thumb s \<and> 5 * \<bar>p - sc_position s\<bar> < sc_thumb s then sc_position s else p)"

lemma minor_iff: "0 \<le> u \<Longrightarrow> 0 \<le> a \<Longrightarrow> minor_change a u \<longleftrightarrow> 5 * a < u"
  unfolding minor_change_def by presburger

lemma drag_sets:
  assumes "scroll_at w F FBTK_CBT_SCROLLY c s st" "widgets st w = Some r" "sets_position client c" "scroll_sane s" "sc_minimum s = 0"
    and "0 < w_height r - 4" "0 \<le> t" "t * sc_maximum s < 2 ^ 31" "sc_drag_position s + (y - sc_drag s) = t"
  shows "\<exists>st'. toolkit_handler client (Vscroll_drag w) w (callback_info FBTK_CBT_POINTERMOVE None x (Some y)) st = Some (0, st')
    \<and> scroll_at w F FBTK_CBT_SCROLLY c (s\<lparr>sc_position := dragged (w_height r - 4) t s\<rparr>) st'"
proof -
  let ?p = "drag_target (w_height r - 4) t s"
  have m: "0 \<le> sc_maximum s" "0 \<le> sc_maximum s - sc_thumb s" "0 \<le> sc_thumb s" using assms(4,5) by (simp_all add: scroll_sane_def)
  have r: "scroll_of r = Some s" "get_scroll st w = Some s" using assms(1,2) by (auto simp: scroll_at_def get_scroll_def)
  have n: "0 \<le> t * sc_maximum s" using assms(7) m by simp
  have q: "scaled t (sc_maximum s) (w_height r - 4) = Some (t * sc_maximum s div (w_height r - 4))"
    using assms(6,8) n by (simp add: scaled_def cdiv_nonneg)
  have z: "0 \<le> t * sc_maximum s div (w_height r - 4)" using n assms(6) by (simp add: pos_imp_zdiv_nonneg_iff)
  have c: "clamp_high (sc_maximum s - sc_thumb s) (clamp_low 0 (t * sc_maximum s div (w_height r - 4))) = ?p"
    using z by (simp add: clamp_high_def clamp_low_def drag_target_def)
  have d: "minor_change \<bar>?p - sc_position s\<bar> (sc_thumb s) \<longleftrightarrow> 5 * \<bar>?p - sc_position s\<bar> < sc_thumb s"
    by (rule minor_iff [OF m(3) abs_ge_zero])
  have pr: "sc_minimum s \<le> ?p" "?p \<le> sc_maximum s" using z m assms(5) by (auto simp: drag_target_def)
  have h: "toolkit_handler client (Vscroll_drag w) w (callback_info FBTK_CBT_POINTERMOVE None x (Some y)) st
      = (if dragged (w_height r - 4) t s = sc_position s then Some (0, st) else post_scroll (toolkit_handler client) w FBTK_CBT_SCROLLY ?p st)"
    using assms(2,5,9) r q c d
    by (auto simp: toolkit_handler_scroll posts_def vscroll_drag_def callback_info_def dragged_def Let_def)
  show ?thesis
  proof (cases "dragged (w_height r - 4) t s = sc_position s")
    case True
    then have "s\<lparr>sc_position := dragged (w_height r - 4) t s\<rparr> = s" by simp
    with h True assms(1) show ?thesis by simp
  next
    case False
    then have "dragged (w_height r - 4) t s = ?p" by (auto simp: dragged_def Let_def split: if_splits)
    with h False post_scroll_ok [OF assms(1,3) pr] show ?thesis by auto
  qed
qed

text \<open>
  Where the bar of a position is drawn, and that it is the one asked for: rounding twice, to a
  position and to a place, loses less than a pixel when the document is longer than the well.
\<close>

lemma bar_follows:
  assumes "0 < H" "H \<le> R" "(0 :: int) \<le> t"
  shows "H * (t * R div H) div R \<le> t \<and> t \<le> H * (t * R div H) div R + 1"
proof -
  have R: "0 < R" using assms by simp
  let ?q = "t * R div H"
  have 1: "H * ?q \<le> t * R" using assms(1) by (metis add.commute div_mult_mod_eq le_add_same_cancel1 mult.commute pos_mod_sign)
  have 2: "t * R < H * ?q + H" using assms(1) by (metis add_less_cancel_left div_mult_mod_eq mult.commute pos_mod_bound)
  have "H * ?q div R \<le> t * R div R" using 1 R by (rule zdiv_mono1)
  moreover have "(t - 1) * R \<le> H * ?q" using 2 assms(2) by (simp add: algebra_simps)
  then have "(t - 1) * R div R \<le> H * ?q div R" using R by (rule zdiv_mono1)
  ultimately show ?thesis using R by simp
qed

lemma bar_at:
  assumes "scroll_bar extent s = Some (bar, vpos)" "sc_minimum s = 0" "0 \<le> p" "p \<le> sc_maximum s" "0 < sc_maximum s" "0 < extent - 4"
    and "(extent - 4) * sc_maximum s < 2 ^ 31"
  shows "scroll_bar extent (s\<lparr>sc_position := p\<rparr>) = Some (bar, (extent - 4) * p div sc_maximum s)"
proof -
  have "(extent - 4) * p \<le> (extent - 4) * sc_maximum s" using assms(4,6) by (simp add: mult_left_mono)
  moreover have n: "0 \<le> (extent - 4) * p" using assms(3,6) by simp
  ultimately have "- (2 ^ 31) \<le> (extent - 4) * p \<and> (extent - 4) * p < 2 ^ 31" using assms(7) by linarith
  then have "scaled (extent - 4) p (sc_maximum s) = Some ((extent - 4) * p div sc_maximum s)"
    using assms(5) cdiv_nonneg [OF n assms(5)] unfolding scaled_def by simp
  then show ?thesis using assms(1,2,5) by (auto simp: scroll_bar_def split: bind_splits)
qed


section \<open>An example\<close>

definition example_scroll :: fbtk_scroll where
  "example_scroll = zero_scroll\<lparr>sc_maximum := 1000, sc_thumb := 100, sc_page := 80, sc_position := 200\<rparr>"

definition scroll_toolkit :: "unit panel_toolkit" where
  "scroll_toolkit = (text_toolkit example_line)\<lparr>widgets := (widgets (text_toolkit example_line))(1 \<mapsto>
     zero_widget\<lparr>w_type := FB_WIDGET_TYPE_VSCROLL, w_parent := Some 0, w_width := 20, w_height := 104, w_mapped := True,
       w_u := U_scroll example_scroll,
       w_callback := [FBTK_CBT_SCROLLY \<mapsto> Client (), FBTK_CBT_CLICK \<mapsto> Vscrollarea_click 1, FBTK_CBT_REDRAW \<mapsto> Vscroll_redraw]\<rparr>)\<rparr>"

definition scroll_client :: "unit toolkit_client" where
  "scroll_client = \<lparr>on_callback = (\<lambda>cb w info st. map_option (\<lambda>(ok, st). (0, st)) (fbtk_set_scroll_position (Some w)
       (case cbi_y info of Some y \<Rightarrow> y | None \<Rightarrow> the (cbi_x info)) st)),
     on_enter = (\<lambda>cb s st. None), on_remove = (\<lambda>cb w st. None), text_envir = example_env\<rparr>"

lemma scroll_client_sets: "sets_position scroll_client ()"
  by (simp add: sets_position_def scroll_client_def callback_info_def)

lemma example_scroll_at: "scroll_at 1 [Node 0 [Node 1 []]] FBTK_CBT_SCROLLY () example_scroll scroll_toolkit"
  by (simp add: scroll_at_def scroll_toolkit_def text_toolkit_def fbtk_tree_def links_def zero_widget_def scroll_of_def)

lemma example_scroll_sane: "scroll_sane example_scroll" "sc_minimum example_scroll = 0"
  by (simp_all add: scroll_sane_def example_scroll_def zero_scroll_def)

lemma scroll_buttons_count_witness:
  "\<exists>st s. press_buttons scroll_client FBTK_CBT_SCROLLY 1 (2, 3) [(False, 401), (True, 401), (True, 401), (True, 401), (True, 401)] scroll_toolkit = Some st
    \<and> get_scroll st 1 = Some s \<and> sc_position s = 0"
proof -
  let ?p = "[(False, 401 :: nsfb_key_code), (True, 401), (True, 401), (True, 401), (True, 401)]"
  obtain st where st: "press_buttons scroll_client FBTK_CBT_SCROLLY 1 (2, 3) ?p scroll_toolkit = Some st"
      "scroll_at 1 [Node 0 [Node 1 []]] FBTK_CBT_SCROLLY () (fold scroll_press (map fst ?p) example_scroll) st"
    using scroll_buttons_count [OF example_scroll_at scroll_client_sets example_scroll_sane(1), of "(2, 3)" ?p] by blast
  moreover have "sc_position (fold scroll_press (map fst ?p) example_scroll) = 0" by (simp add: scroll_press_def example_scroll_def zero_scroll_def)
  ultimately show ?thesis by (auto simp: scroll_at_def get_scroll_def)
qed


end
