(* ===== verification/Spec2Isabelle.thy ===== *)
theory Spec2Isabelle
  imports RM_Input_Run Plot_Line Plot_Tiles Http_Spec Nsurl_Resolve Posix_File Fb_Schedule Fb_Font_Spec Fbtk_Spec Fbtk_Tablet Fbtk_Scroll_Spec
begin

text \<open>
  A verification library for the reMarkable port of NetSurf.  The port draws a
  web page into the tablet's framebuffer through libnsfb, refreshes the e-paper
  panel from a second thread, and turns touch and pen input into pointer events
  through a third one.

  Parts and theories:

  \<^item> \<open>NS_Prelude\<close>: error codes, the allocator as an oracle, C arithmetic and loops.

  \<^item> \<open>Ring_Buffer\<close> (\<^verbatim>\<open>surface/remarkable/ringbuf.c\<close>): the event queue, with the queue
    contract as a locale and its interpretation.

  \<^item> \<open>Plot_Util\<close> (\<^verbatim>\<open>plot/util.c\<close>): clipping and blending.

  \<^item> \<open>Nsfb\<close> (\<^verbatim>\<open>nsfb.h\<close>, \<^verbatim>\<open>palette.c\<close>): the framebuffer context; video memory maps byte
    addresses to 16-bit pixels.

  \<^item> \<open>Plot_16bpp\<close> (\<^verbatim>\<open>plot/16bpp.c\<close> and parts of \<^verbatim>\<open>plot/common.c\<close>): pixel addresses in both
    orientations, colours, fill, point, readrect.

  \<^item> \<open>Plot_Clip\<close>: the set-up part of \<^verbatim>\<open>plot/generic.c\<close>.

  \<^item> \<open>Plot_Line\<close>, \<open>Plot_Raster\<close>, \<open>Plot_Glyph\<close>, \<open>Plot_Bitmap\<close>, \<open>Plot_Tiles\<close> (the rest of
    \<^verbatim>\<open>plot/common.c\<close>): lines, what a pixel loop paints, glyphs, bitmaps and tiles.

  \<^item> \<open>RM_Screen\<close> (\<^verbatim>\<open>screen.c\<close>, \<^verbatim>\<open>remarkable.c\<close>): panel updates, with the interleavings of
    drawing and redraw thread as a step relation.

  \<^item> \<open>RM_Input\<close>, \<open>RM_Input_Run\<close> (\<^verbatim>\<open>input.c\<close>): the handlers, and the polling thread, set-up
    and interleavings with the reader.

  \<^item> \<open>Http_Core\<close> (\<^verbatim>\<open>netsurf/utils/http/primitives.c\<close>, \<^verbatim>\<open>generics.c\<close>, \<^verbatim>\<open>parameter.c\<close>): tokens,
    quoted strings and separated lists, with the contract of an item parser as a locale
    that parameters, directives and challenges interpret.  The list loop has the length
    of the input as fuel; \<open>item_loop_unfold\<close> shows that it is never exhausted.

  \<^item> \<open>Http_Headers\<close>, \<open>Http_Spec\<close> (the header files of \<^verbatim>\<open>netsurf/utils/http\<close>): the parsers of
    five headers with their memory accounting, and what they promise.

  \<^item> \<open>NS_Memory\<close>: memory as NetSurf's utilities see it, every block and every interned
    string counted; used by the HTTP and the URL theories.

  \<^item> \<open>Nsurl\<close>, \<open>Nsurl_Derive\<close> (\<^verbatim>\<open>netsurf/utils/nsurl/nsurl.c\<close>, \<^verbatim>\<open>private.h\<close> and the part of
    \<^verbatim>\<open>parse.c\<close> that assembles strings): URL objects, their strings and hashes, comparison,
    and the operations that derive one URL from another, with the well-formedness of URL
    objects as the invariant.

  \<^item> \<open>Nsurl_Parse\<close>, \<open>Nsurl_Markers\<close>, \<open>Nsurl_Create\<close>, \<open>Nsurl_Valid\<close> (\<^verbatim>\<open>parse.c\<close>): the markers
    of a URL string and their order, the normalisation of its sections in a scratch
    buffer, and \<^verbatim>\<open>nsurl_create\<close>.  An access outside the buffer is the result
    \<^verbatim>\<open>None\<close>; sizes are those of the device, 32 bits.

  \<^item> \<open>Nsurl_Join\<close>, \<open>Nsurl_Resolve\<close>: \<^verbatim>\<open>nsurl_join\<close> and the removal of dot segments, against
    the algorithms of RFC 3986.

  \<^item> \<open>Url_Escape\<close> (\<^verbatim>\<open>netsurf/utils/url.c\<close>), \<open>Posix_File\<close> (\<^verbatim>\<open>utils/file.c\<close>, and \<^verbatim>\<open>vsnstrjoin\<close>
    of \<^verbatim>\<open>utils/utils.c\<close>): percent escaping, paths of files, and their conversion to and from
    URLs through the theories above.  The file system is a parameter.

  \<^item> \<open>Fb_Schedule\<close> (\<^verbatim>\<open>frontends/framebuffer/schedule.c\<close>): the timed callbacks of the main
    loop.  Callbacks are a parameter and may schedule others; the loop is a partial
    function, and the statements on its result prove that it returns.

  \<^item> \<open>Fbtk\<close>, \<open>Fbtk_Tree\<close>, \<open>Fbtk_Destroy\<close>, \<open>Fbtk_Walk\<close> (\<^verbatim>\<open>frontends/framebuffer/fbtk/fbtk.c\<close>,
    \<^verbatim>\<open>widget.h\<close>): the widgets in a store of addresses with their five links each, the
    operations of the toolkit on them, and the hierarchy as an abstract forest that the
    links represent.  A dereference of NULL or of freed memory is the result \<^verbatim>\<open>None\<close>; the
    walks along the links are partial functions, and the lemmas over the forest show
    that they return.

  \<^item> \<open>Fbtk_Redraw\<close>, \<open>Fbtk_Repaint\<close> (\<^verbatim>\<open>fbtk.c\<close>): requests to redraw as marks in the hierarchy,
    and the traversal that serves them, with the contract of the widgets' redraw
    handlers as a locale.

  \<^item> \<open>Fbtk_Draw\<close> (\<^verbatim>\<open>window.c\<close>, \<^verbatim>\<open>fill.c\<close>, \<^verbatim>\<open>bitmap.c\<close>, \<^verbatim>\<open>user.c\<close>), \<open>Fbtk_Scroll\<close> (\<^verbatim>\<open>scroll.c\<close>),
    \<open>Fbtk_Text\<close> (\<^verbatim>\<open>text.c\<close>): the widgets themselves, how they are created, draw with the
    plotters above, and answer to the pointer and the keys.  A product that overflows an
    \<^verbatim>\<open>int\<close>, and an access outside a text's buffer, are the result \<^verbatim>\<open>None\<close>.

  \<^item> \<open>Fbtk_Paint\<close>, \<open>Fbtk_Spec\<close>: all their callbacks as one handler, a partial function since
    callbacks post others; the redraw and destroy callbacks keep the contracts of the redraw
    and the destruction, which is the interpretation of the two locales, and what the toolkit
    promises on it.

  \<^item> \<open>Fbtk_Text_Spec\<close>, \<open>Fbtk_Scroll_Spec\<close>: a writable text refines an editor of two strings;
    scroll bars count, and follow the pointer.

  \<^item> \<open>Fbtk_Event\<close>, \<open>Fbtk_Tablet\<close> (\<^verbatim>\<open>event.c\<close>): the delivery of events to widgets, and its
    composition with the event queue of the tablet.

  \<^item> \<open>Utf8\<close> (\<^verbatim>\<open>netsurf/utils/utf8.c\<close>), \<open>Fb_Font\<close>, \<open>Fb_Font_Spec\<close>
    (\<^verbatim>\<open>frontends/framebuffer/font_freetype.c\<close>, and the plotting of text in \<^verbatim>\<open>framebuffer.c\<close>):
    faces, glyphs, measuring, splitting and drawing text.  libparserutils and FreeType are
    parameters; of the first it is used that stepping over a character goes forward and stays
    in the string.  The loops over a text are partial functions: two of them need not end, and
    where a property speaks of a result it proves that there is one.

  This theory holds what spans the components.

  Not modelled: the entry points of libnsfb that only dispatch through a function table
  and are not called by the modelled code, the plotting of a pointer image (the surface
  draws none), the pixel formats and surfaces that the device does not use, the on-screen
  keyboard, the conversions of \<^verbatim>\<open>utf8.c\<close> through iconv, and the
  remaining front end code around the toolkit.  The browser core above it (content cache,
  fetchers, layout, styles, scripts) rests on libraries that are not part of the sources
  (libdom, libcss, libcurl) or is vendored, and lies outside this library.
\<close>

section \<open>The finger and the pixel\<close>

text \<open>Where on the panel a raw position lies, whatever the orientation of the user interface.\<close>

definition panel_position :: "input_state \<Rightarrow> bool \<Rightarrow> int \<Rightarrow> int \<Rightarrow> int \<times> int" where
  "panel_position st pen raw_x raw_y =
     (if pen then let p = pen_state st in
        (input_scale raw_y (pen_min_y p) (pen_max_y p) 1404,
         1871 - input_scale raw_x (pen_min_x p) (pen_max_x p) 1872)
      else let mt = multitouch_state st; px = input_scale raw_x (mt_min_x mt) (mt_max_x mt) 1404
      in (if model st = RM1 then 1403 - px else px,
          1871 - input_scale raw_y (mt_min_y mt) (mt_max_y mt) 1872))"

lemma input_coordinates_phys:
  assumes "(screen_width st, screen_height st) =
     (if orientation st = SCREEN_ORIENTATION_LANDSCAPE then (1872, 1404) else (1404, 1872))"
  shows "phys (orientation st) (input_coordinates st pen raw_x raw_y) = panel_position st pen raw_x raw_y"
  using assms
  by (auto simp: input_coordinates_def panel_position_def phys_def Let_def split: if_splits)

lemma input_initialize_screen:
  assumes "input_initialize sys h g nsfb fds = (0, st, fds')"
  shows "screen_width st = nsfb_width nsfb" "screen_height st = nsfb_height nsfb"
    "orientation st = (if nsfb_orientation nsfb \<noteq> 0 then SCREEN_ORIENTATION_LANDSCAPE else SCREEN_ORIENTATION_PORTRAIT)"
  using assms
  by (auto simp: input_initialize_def input_fail_def input_contacts_def Let_def
      split: prod.splits if_splits option.splits)

text \<open>
  C1.  The pixel drawn at a reported position is the one under the finger: after
  \<open>rm_defaults\<close> and \<open>input_initialize\<close> have set up the screen and the input, the
  logical coordinates computed for a raw touch or pen position are plotted, in
  portrait and in landscape, at the framebuffer address of that position on the
  panel.
\<close>

theorem finger_pixel:
  assumes "rm_defaults env orientation_env [] fs0 nsfb0 = Some (rc, fs, nsfb, hp)"
    and "env_line_length env = Some l" "env_var_info env = Some (1404, 1872, bpp, yv)"
    and "input_initialize sys h g nsfb F = (0, st, fds)"
    and "input_coordinates st pen raw_x raw_y = (x, y)" "panel_position st pen raw_x raw_y = (px, py)"
  shows "get_xy_loc (rm_map_fb fs nsfb) x y = the (mapped_fb fs) + py * l + 2 * px"
proof -
  note n = rm_defaults_fields [OF assms(1-3)] and i = input_initialize_screen [OF assms(4)]
  have o: "orientation st = fb_orientation fs"
    using n(1) i(3) by (cases "fb_orientation fs") auto
  then have "phys (fb_orientation fs) (x, y) = (px, py)"
    using input_coordinates_phys [of st pen raw_x raw_y] n i assms(5,6) by simp
  then show ?thesis
    using n by (auto simp: get_xy_loc_eq phys_def rm_map_fb_def split: if_splits)
qed

lemma example_initialize_any:
  "\<exists>st fds. input_initialize example_sys [] g nsfb {#} = (0, st, fds) \<and> model st = RM1
     \<and> mt_min_x (multitouch_state st) = 0 \<and> mt_max_x (multitouch_state st) = 1000
     \<and> mt_min_y (multitouch_state st) = 0 \<and> mt_max_y (multitouch_state st) = 1000"
  by (simp add: input_initialize_def input_identify_input_devices_def example_sys_def strncmp_eq_def
      Let_def example_evdev_def classify_def input_ranges_def input_axis_range_def input_zero_def
      ring_buf_init_def SIZE_MAX_def sizeof_nsfb_event_def input_contacts_def)

lemma finger_pixel_witness:
  "\<exists>fs nsfb st fds. rm_defaults fb_env_example (Some ''landscape'') [] fb_example (surface_example 0) = Some (0, fs, nsfb, [])
    \<and> input_initialize example_sys [] (\<lambda>_. NSFB_EVENT_NONE) nsfb {#} = (0, st, fds)
    \<and> (case input_coordinates st False 250 750 of (x, y) \<Rightarrow>
        get_xy_loc (rm_map_fb fs nsfb) x y = the (mapped_fb fs) + 468 * 2816 + 2 * 1053)"
proof -
  have "\<exists>fs nsfb. rm_defaults fb_env_example (Some ''landscape'') [] fb_example (surface_example 0) = Some (0, fs, nsfb, [])"
    by (simp add: rm_defaults_def fb_env_example_def fb_initialize_def fb_start_trace_def Let_def
        select_plotters_def plotters_of_def)
  then obtain fs nsfb where d: "rm_defaults fb_env_example (Some ''landscape'') [] fb_example (surface_example 0) = Some (0, fs, nsfb, [])"
    by blast
  obtain st fds where i: "input_initialize example_sys [] (\<lambda>_. NSFB_EVENT_NONE) nsfb {#} = (0, st, fds)"
    and m: "model st = RM1" "mt_min_x (multitouch_state st) = 0" "mt_max_x (multitouch_state st) = 1000"
      "mt_min_y (multitouch_state st) = 0" "mt_max_y (multitouch_state st) = 1000"
    using example_initialize_any [of "\<lambda>_. NSFB_EVENT_NONE" nsfb] by blast
  obtain x y where c: "input_coordinates st False 250 750 = (x, y)" by force
  have p: "panel_position st False 250 750 = (1053, 468)"
    by (simp add: panel_position_def m Let_def input_scale_def cdiv_def)
  have e: "env_line_length fb_env_example = Some 2816" "env_var_info fb_env_example = Some (1404, 1872, 16, 3840)"
    by (simp_all add: fb_env_example_def)
  from finger_pixel [OF d e i c p] d i c show ?thesis by auto
qed

end
